(* ===== verification/Prelude.thy ===== *)
theory Prelude
  imports Main "HOL-Library.Word" "HOL-Library.Multiset" "HOL-Library.Monad_Syntax"
begin

text \<open>
  Shared vocabulary of the development: machine types, byte order, raw packet
  memory, C strings, and the outcome type of operations that can run into
  undefined behaviour.

  The host is little endian, as the order of the bit fields of \<open>struct ip_hdr\<close>
  in \<^verbatim>\<open>or_data_types.h\<close> requires. A 16 or 32 bit field of a packet is the value
  a raw load gives on that host; \<open>ntohs\<close>, \<open>ntohl\<close>, \<open>htons\<close> and \<open>htonl\<close> are the byte
  swaps of that host.

  An operation that can fault has a result of type \<^typ>\<open>'a option\<close>: \<open>None\<close> stands for
  a crash or undefined behaviour of the C program (an access outside the packet, a
  null or dangling pointer, a failed \<open>assert\<close>, a lock taken twice by its holder,
  a loop that does not end), \<open>Some\<close> for a normal return.
\<close>

unbundle bit_operations_syntax

type_synonym byte = "8 word"
type_synonym u16 = "16 word"
type_synonym u32 = "32 word"
type_synonym 'a outcome = "'a option"

named_theorems wire \<open>sizes, field offsets and codec facts of the packet headers\<close>
named_theorems lookup \<open>walks over the router's lists\<close>

section \<open>Bytes and byte order\<close>

definition byteN :: "nat \<Rightarrow> 'a::len word \<Rightarrow> byte" where
  "byteN i w = ucast (drop_bit (8 * i) w)"

definition le16 :: "byte \<Rightarrow> byte \<Rightarrow> u16" where
  "le16 a b = ucast a OR push_bit 8 (ucast b)"

definition le32 :: "byte \<Rightarrow> byte \<Rightarrow> byte \<Rightarrow> byte \<Rightarrow> u32" where
  "le32 a b c d =
     ucast a OR push_bit 8 (ucast b) OR push_bit 16 (ucast c) OR push_bit 24 (ucast d)"

definition htons :: "u16 \<Rightarrow> u16" where
  "htons w = le16 (byteN 1 w) (byteN 0 w)"

definition htonl :: "u32 \<Rightarrow> u32" where
  "htonl w = le32 (byteN 3 w) (byteN 2 w) (byteN 1 w) (byteN 0 w)"

abbreviation ntohs :: "u16 \<Rightarrow> u16" where "ntohs \<equiv> htons"
abbreviation ntohl :: "u32 \<Rightarrow> u32" where "ntohl \<equiv> htonl"

lemma unat_byte_less [simp]: "unat (b::byte) < 256"
  using unsigned_less[of b] by simp

lemma unat_u16_less [simp]: "unat (w::u16) < 65536"
  using unsigned_less[of w] by simp

lemma unat_u32_less [simp]: "unat (w::u32) < 4294967296"
  using unsigned_less[of w] by simp

lemma byteN_le16 [simp]: "byteN 0 (le16 a b) = a" "byteN (Suc 0) (le16 a b) = b"
  by (rule bit_word_eqI, auto simp: byteN_def le16_def bit_simps dest: bit_imp_le_length)+

lemma le16_byteN [simp]: "le16 (byteN 0 w) (byteN (Suc 0) w) = (w::u16)"
  by (rule bit_word_eqI) (auto simp: byteN_def le16_def bit_simps)

lemma byteN_le32 [simp]:
  "byteN 0 (le32 a b c d) = a" "byteN (Suc 0) (le32 a b c d) = b"
  "byteN 2 (le32 a b c d) = c" "byteN 3 (le32 a b c d) = d"
  by (rule bit_word_eqI, auto simp: byteN_def le32_def bit_simps dest: bit_imp_le_length)+

lemma le32_byteN [simp]:
  "le32 (byteN 0 w) (byteN (Suc 0) w) (byteN 2 w) (byteN 3 w) = (w::u32)"
proof (rule bit_word_eqI)
  fix n assume "n < LENGTH(32)"
  then show "bit (le32 (byteN 0 w) (byteN (Suc 0) w) (byteN 2 w) (byteN 3 w)) n = bit w n"
    by (cases "n < 24"; cases "n < 16"; cases "n < 8")
      (auto simp: byteN_def le32_def bit_simps)
qed

lemma byteN_and: "byteN i (a AND b) = byteN i a AND byteN i b"
  by (rule bit_word_eqI) (auto simp: byteN_def bit_simps)

lemma le32_and: "le32 a b c d AND le32 e f g h = le32 (a AND e) (b AND f) (c AND g) (d AND h)"
  by (rule bit_word_eqI) (auto simp: le32_def bit_simps dest: bit_imp_le_length)

lemma le16_plus: "le16 a b = ucast a + push_bit 8 (ucast b)"
  unfolding le16_def
  by (rule disjunctive_add[symmetric]) (auto simp: bit_simps dest: bit_imp_le_length)

lemma unat_le16: "unat (le16 a b) = unat a + 256 * unat b"
proof -
  have "unat a + 256 * unat b < 65536"
    using unat_byte_less[of a] unat_byte_less[of b] by linarith
  then have "unat (word_of_nat (unat a + 256 * unat b) :: u16) = unat a + 256 * unat b"
    by (subst unat_of_nat) simp
  moreover have "word_of_nat (unat a + 256 * unat b) = le16 a b"
    by (simp add: le16_plus push_bit_eq_mult)
  ultimately show ?thesis by simp
qed

lemma htons_htons [simp]: "htons (htons w) = w"
  by (simp add: htons_def)

lemma htonl_htonl [simp]: "htonl (htonl w) = w"
  by (simp add: htonl_def)

lemma htons_inject [simp]: "htons a = htons b \<longleftrightarrow> a = b"
  by (metis htons_htons)

lemma htonl_inject [simp]: "htonl a = htonl b \<longleftrightarrow> a = b"
  by (metis htonl_htonl)

lemma htons_le16: "htons (le16 a b) = le16 b a"
  by (simp add: htons_def)

lemma unat_htons_le16: "unat (htons (le16 a b)) = 256 * unat a + unat b"
  by (simp add: htons_le16 unat_le16)

lemma htons_0 [simp]: "htons 0 = 0"
  by (simp add: htons_def byteN_def le16_def)

lemma htonl_0 [simp]: "htonl 0 = 0"
  by (simp add: htonl_def byteN_def le32_def)

lemma htonl_eq_0_iff [simp]: "htonl w = 0 \<longleftrightarrow> w = 0"
  by (metis htonl_0 htonl_inject)

lemma htonl_and: "htonl (a AND b) = htonl a AND htonl b"
  by (simp add: htonl_def byteN_and le32_and)

section \<open>Raw packet memory\<close>

text \<open>A packet buffer is its list of bytes. A load or store outside of it faults.\<close>

definition mem_ld :: "byte list \<Rightarrow> nat \<Rightarrow> nat \<Rightarrow> byte list outcome" where
  "mem_ld p off n = (if off + n \<le> length p then Some (take n (drop off p)) else None)"

definition mem_st :: "byte list \<Rightarrow> nat \<Rightarrow> byte list \<Rightarrow> byte list outcome" where
  "mem_st p off bs =
     (if off + length bs \<le> length p
      then Some (take off p @ bs @ drop (off + length bs) p) else None)"

definition get_struct :: "(byte list \<Rightarrow> 'h) \<Rightarrow> nat \<Rightarrow> byte list \<Rightarrow> nat \<Rightarrow> 'h outcome" where
  "get_struct dec sz p off = map_option dec (mem_ld p off sz)"

definition put_struct :: "('h \<Rightarrow> byte list) \<Rightarrow> byte list \<Rightarrow> nat \<Rightarrow> 'h \<Rightarrow> byte list outcome" where
  "put_struct enc p off h = mem_st p off (enc h)"

lemma mem_ld_Some: "off + n \<le> length p \<Longrightarrow> mem_ld p off n = Some (take n (drop off p))"
  by (simp add: mem_ld_def)

lemma mem_st_length: "mem_st p off bs = Some q \<Longrightarrow> length q = length p"
  by (auto simp: mem_st_def split: if_splits)

lemma mem_st_Some_iff: "(\<exists>q. mem_st p off bs = Some q) \<longleftrightarrow> off + length bs \<le> length p"
  by (simp add: mem_st_def)

lemma mem_st_nth:
  assumes "mem_st p off bs = Some q" and "i < length p"
  shows "q ! i = (if off \<le> i \<and> i < off + length bs then bs ! (i - off) else p ! i)"
  using assms by (auto simp: mem_st_def nth_append split: if_splits)

lemma mem_ld_st_same: "mem_st p off bs = Some q \<Longrightarrow> mem_ld q off (length bs) = Some bs"
  by (auto simp: mem_st_def mem_ld_def split: if_splits)

lemma mem_st_twice:
  "mem_st p off a = Some q \<Longrightarrow> length b = length a \<Longrightarrow> mem_st q off b = mem_st p off b"
  by (auto simp: mem_st_def split: if_splits)

lemma mem_ld_st_other:
  assumes st: "mem_st p off bs = Some q" and disj: "o2 + n \<le> off \<or> off + length bs \<le> o2"
  shows "mem_ld q o2 n = mem_ld p o2 n"
proof (cases "o2 + n \<le> length p")
  case True
  have len: "length q = length p" using st by (rule mem_st_length)
  have "take n (drop o2 q) = take n (drop o2 p)"
    by (rule nth_equalityI) (use True len disj in \<open>auto simp: mem_st_nth[OF st]\<close>)
  with True len show ?thesis by (simp add: mem_ld_def)
qed (use mem_st_length[OF st] in \<open>simp add: mem_ld_def\<close>)

text \<open>
  The contract of a packed struct: an encoder and a decoder of a fixed size that are
  inverse to each other. Every header of \<^verbatim>\<open>or_data_types.h\<close> is an instance.
\<close>

locale wire_struct =
  fixes enc :: "'h \<Rightarrow> byte list" and dec :: "byte list \<Rightarrow> 'h" and sz :: nat
  assumes enc_length: "length (enc h) = sz"
    and dec_enc: "dec (enc h) = h"
    and enc_dec: "length bs = sz \<Longrightarrow> enc (dec bs) = bs"
begin

lemma put_Some_iff: "(\<exists>q. put_struct enc p off h = Some q) \<longleftrightarrow> off + sz \<le> length p"
  by (simp add: put_struct_def mem_st_Some_iff enc_length)

lemma put_ok: "off + sz \<le> length p \<Longrightarrow> \<exists>q. put_struct enc p off h = Some q"
  using put_Some_iff by blast

lemma get_ok: "off + sz \<le> length p \<Longrightarrow> get_struct dec sz p off = Some (dec (take sz (drop off p)))"
  by (simp add: get_struct_def mem_ld_Some)

lemma get_None_iff: "get_struct dec sz p off = None \<longleftrightarrow> length p < off + sz"
  by (auto simp: get_struct_def mem_ld_def)

lemma get_SomeD: "get_struct dec sz p off = Some h \<Longrightarrow> off + sz \<le> length p"
  by (auto simp: get_struct_def mem_ld_def split: if_splits)

lemma put_length: "put_struct enc p off h = Some q \<Longrightarrow> length q = length p"
  by (auto simp: put_struct_def dest: mem_st_length)

lemma get_put: "put_struct enc p off h = Some q \<Longrightarrow> get_struct dec sz q off = Some h"
  using mem_ld_st_same[of p off "enc h" q] by (simp add: get_struct_def put_struct_def enc_length dec_enc)

lemma put_get: "get_struct dec sz p off = Some h \<Longrightarrow> put_struct enc p off h = Some p"
  by (auto simp: get_struct_def put_struct_def mem_ld_def mem_st_def enc_dec split: if_splits)
    (metis append_take_drop_id drop_drop add.commute)

lemma put_at: "length a = off \<Longrightarrow> length b = sz \<Longrightarrow> put_struct enc (a @ b @ c) off h = Some (a @ enc h @ c)"
  by (simp add: put_struct_def mem_st_def enc_length)

lemma get_at: "length a = off \<Longrightarrow> length b = sz \<Longrightarrow> get_struct dec sz (a @ b @ c) off = Some (dec b)"
  by (simp add: get_struct_def mem_ld_def)

lemma put_field:
  assumes "get_struct dec sz p off = Some h"
    and "enc h' = take a (enc h) @ bs @ drop (a + length bs) (enc h)" and "a + length bs \<le> sz"
  shows "put_struct enc p off h' = mem_st p (off + a) bs"
proof -
  from assms(1) have len: "off + sz \<le> length p" and h: "enc h = take sz (drop off p)"
    by (auto simp: get_struct_def mem_ld_def enc_dec split: if_splits)
  have ln: "length (enc h') = sz" by (rule enc_length)
  obtain q r where q: "mem_st p off (enc h') = Some q" and r: "mem_st p (off + a) bs = Some r"
    using len ln assms(3) by (simp add: mem_st_def)
  have e: "enc h' ! j = (if a \<le> j \<and> j < a + length bs then bs ! (j - a) else p ! (off + j))" if "j < sz" for j
  proof -
    have "length (enc h) = sz" and "enc h ! k = p ! (off + k)" if "k < sz" for k
      using that len unfolding h by simp_all
    with that assms(3) show ?thesis unfolding assms(2) by (auto simp: nth_append min_def)
  qed
  have "q ! i = r ! i" if "i < length p" for i
    using that ln assms(3) e[of "i - off"]
    by (auto simp: mem_st_nth[OF q that] mem_st_nth[OF r that])
  then have "q = r"
    using mem_st_length[OF q] mem_st_length[OF r] by (simp add: list_eq_iff_nth_eq)
  with q r show ?thesis by (simp add: put_struct_def)
qed

lemma ld_put_other:
  "put_struct enc p off h = Some q \<Longrightarrow> o2 + n \<le> off \<or> off + sz \<le> o2 \<Longrightarrow> mem_ld q o2 n = mem_ld p o2 n"
  using mem_ld_st_other[of p off "enc h" q o2 n] by (simp add: put_struct_def enc_length)

lemma get_put_other:
  "put_struct enc p off h = Some q \<Longrightarrow> o2 + n \<le> off \<or> off + sz \<le> o2 \<Longrightarrow>
   get_struct d n q o2 = get_struct d n p o2"
  by (simp add: get_struct_def ld_put_other)

end

section \<open>C strings\<close>

text \<open>
  A C string is the list of its characters before the terminating zero. \<open>strncmp\<close> and
  \<open>strcmp\<close> are used by the router only to test for equality, \<open>strncpy\<close> and \<open>memcpy\<close>
  to copy into a buffer of the given size.
\<close>

definition strncmp_eq :: "string \<Rightarrow> string \<Rightarrow> nat \<Rightarrow> bool" where
  "strncmp_eq a b n \<longleftrightarrow> take n a = take n b"

definition strncpy :: "string \<Rightarrow> nat \<Rightarrow> string" where
  "strncpy src n = take n src"

lemma strncmp_eq_short [simp]:
  "length a < n \<Longrightarrow> length b < n \<Longrightarrow> strncmp_eq a b n \<longleftrightarrow> a = b"
  by (simp add: strncmp_eq_def)

lemma strncmp_eq_refl [simp]: "strncmp_eq a a n"
  by (simp add: strncmp_eq_def)

lemma strncmp_eq_sym: "strncmp_eq a b n = strncmp_eq b a n"
  by (auto simp: strncmp_eq_def)

lemma strncpy_short [simp]: "length s \<le> n \<Longrightarrow> strncpy s n = s"
  by (simp add: strncpy_def)

section \<open>Walks over lists\<close>

text \<open>
  A loop that stops at the first matching node is \<^const>\<open>List.find\<close>; one that then
  writes through the node's data pointer is \<open>update_first\<close>.
\<close>

fun update_first :: "('a \<Rightarrow> bool) \<Rightarrow> ('a \<Rightarrow> 'a) \<Rightarrow> 'a list \<Rightarrow> 'a list" where
  "update_first P f [] = []"
| "update_first P f (x # xs) = (if P x then f x # xs else x # update_first P f xs)"

fun remove_first :: "('a \<Rightarrow> bool) \<Rightarrow> 'a list \<Rightarrow> 'a list" where
  "remove_first P [] = []"
| "remove_first P (x # xs) = (if P x then xs else x # remove_first P xs)"

lemma length_update_first [simp]: "length (update_first P f xs) = length xs"
  by (induction xs) auto

lemma update_first_id: "\<not> (\<exists>x\<in>set xs. P x) \<Longrightarrow> update_first P f xs = xs"
  by (induction xs) auto

lemma map_update_first: "(\<And>x. P x \<Longrightarrow> g (f x) = g x) \<Longrightarrow> map g (update_first P f xs) = map g xs"
  by (induction xs) auto

lemma find_update_first:
  "(\<And>x. P x \<Longrightarrow> Q (f x) = Q x) \<Longrightarrow> (\<And>x. P x \<Longrightarrow> Q x) \<Longrightarrow> (\<And>x. Q x \<Longrightarrow> P x) \<Longrightarrow>
   find Q (update_first P f xs) = map_option f (find Q xs)"
  by (induction xs) auto

lemma find_update_first_other:
  "(\<And>x. P x \<Longrightarrow> \<not> Q x \<and> \<not> Q (f x)) \<Longrightarrow> find Q (update_first P f xs) = find Q xs"
  by (induction xs) auto

lemma find_Some_iff_set: "find P xs = Some x \<Longrightarrow> x \<in> set xs \<and> P x"
  by (induction xs) (auto split: if_splits)

lemma find_SomeE:
  assumes "find P t = Some e"
  obtains xs ys where "t = xs @ e # ys" "P e" "\<forall>x\<in>set xs. \<not> P x"
  using assms
proof (induction t arbitrary: thesis)
  case (Cons a t)
  show ?case
  proof (cases "P a")
    case True
    with Cons.prems(2) have "a = e" by simp
    with True show ?thesis by (intro Cons.prems(1)[of "[]" t]) auto
  next
    case False
    with Cons.prems(2) have "find P t = Some e" by simp
    then obtain xs ys where "t = xs @ e # ys" "P e" "\<forall>x\<in>set xs. \<not> P x"
      using Cons.IH by blast
    with False show ?thesis by (intro Cons.prems(1)[of "a # xs" ys]) auto
  qed
qed simp

lemma find_None_set: "find P xs = None \<longleftrightarrow> (\<forall>x\<in>set xs. \<not> P x)"
  by (induction xs) auto

lemma find_append: "find P (xs @ ys) = (case find P xs of None \<Rightarrow> find P ys | Some x \<Rightarrow> Some x)"
  by (induction xs) auto

lemma find_filter: "(\<And>x. Q x \<Longrightarrow> P x) \<Longrightarrow> find Q (filter P xs) = find Q xs"
  by (induction xs) auto

lemma remove_first_id: "\<not> (\<exists>x\<in>set xs. P x) \<Longrightarrow> remove_first P xs = xs"
  by (induction xs) auto

lemma set_update_first: "set (update_first P f xs) \<subseteq> set xs \<union> f ` set xs"
  by (induction xs) auto

lemma set_remove_first: "set (remove_first P xs) \<subseteq> set xs"
  by (induction xs) auto

text \<open>A loop whose body acts on the state and can fault.\<close>

fun run_all :: "('a \<Rightarrow> 's \<Rightarrow> 's outcome) \<Rightarrow> 'a list \<Rightarrow> 's \<Rightarrow> 's outcome" where
  "run_all f [] s = Some s"
| "run_all f (x # xs) s = do { s \<leftarrow> f x s; run_all f xs s }"

lemma run_all_append: "run_all f (xs @ ys) s = Option.bind (run_all f xs s) (run_all f ys)"
  by (induction xs arbitrary: s) (auto split: bind_splits)

lemma run_all_invariant:
  assumes "run_all f xs s = Some t" and "P s"
    and "\<And>x s t. x \<in> set xs \<Longrightarrow> P s \<Longrightarrow> f x s = Some t \<Longrightarrow> P t"
  shows "P t"
  using assms
proof (induction xs arbitrary: s)
  case (Cons x xs)
  from Cons.prems(1) obtain s' where s': "f x s = Some s'" "run_all f xs s' = Some t"
    by (auto split: bind_splits)
  with Cons.prems(2,3) have "P s'" by (meson list.set_intros(1))
  with Cons.IH[OF s'(2)] Cons.prems(3) show ?case by (meson list.set_intros(2))
qed simp

text \<open>An invariant that says what the loop did with the elements it has seen.\<close>

lemma run_all_total:
  assumes "P [] s" and "\<And>pre x s. P pre s \<Longrightarrow> x \<in> set xs \<Longrightarrow> \<exists>t. f x s = Some t \<and> P (pre @ [x]) t"
  shows "\<exists>t. run_all f xs s = Some t \<and> P xs t"
  using assms(2)
proof (induction xs rule: rev_induct)
  case Nil
  show ?case using assms(1) by simp
next
  case (snoc x xs)
  then obtain t where t: "run_all f xs s = Some t" "P xs t" by fastforce
  with snoc.prems[of xs t x] show ?case by (auto simp: run_all_append)
qed

lemma run_all_pure: "(\<And>x s. x \<in> set xs \<Longrightarrow> f x s = Some (g x s)) \<Longrightarrow> run_all f xs s = Some (fold g xs s)"
  by (induction xs arbitrary: s) auto

section \<open>Tables with a key\<close>

text \<open>What a client of a table relies on: the last insert under a key is what a lookup finds.\<close>

locale lookup_table =
  fixes lookup :: "'s \<Rightarrow> 'k \<Rightarrow> 'v option" and insert :: "'s \<Rightarrow> 'k \<Rightarrow> 'v \<Rightarrow> 's" and delete :: "'s \<Rightarrow> 'k \<Rightarrow> 's"
  assumes lookup_insert: "lookup (insert s k v) j = (if j = k then Some v else lookup s j)"
    and lookup_delete: "lookup (delete s k) j = (if j = k then None else lookup s j)"
begin

lemma insert_overwrites: "lookup (insert (insert s k v) k w) = lookup (insert s k w)"
  by (auto simp: lookup_insert)

lemma insert_commutes: "j \<noteq> k \<Longrightarrow> lookup (insert (insert s j v) k w) = lookup (insert (insert s k w) j v)"
  by (auto simp: lookup_insert)

lemma delete_insert: "lookup (delete (insert s k v) k) = lookup (delete s k)"
  by (auto simp: lookup_insert lookup_delete)

text \<open>After any sequence of inserts a lookup is the map built from them, later ones first.\<close>

lemma lookup_inserts: "lookup (fold (\<lambda>(k, v) s. insert s k v) kvs s) = lookup s ++ map_of (rev kvs)"
  by (induction kvs rule: rev_induct) (auto simp: lookup_insert map_add_def split: option.splits)

end

end
