(* ===== verification/Headers.thy ===== *)
theory Headers
  imports Prelude
begin

text \<open>
  The packed header structs of \<^verbatim>\<open>or_data_types.h\<close> as records with their byte codecs,
  the header pointers of the packet (\<open>get_ip_hdr\<close> and its kin in \<^verbatim>\<open>or_ip.c\<close>,
  \<^verbatim>\<open>or_icmp.c\<close>, \<^verbatim>\<open>or_arp.c\<close>, \<^verbatim>\<open>or_pwospf.c\<close>, \<^verbatim>\<open>or_nat.c\<close>), and the \<open>populate_*\<close>
  functions of \<^verbatim>\<open>or_utils.c\<close>. A header is read and written as a whole; reading one that
  is not inside the packet faults.
\<close>

section \<open>Scalars of the wire\<close>

datatype mac = Mac byte byte byte byte byte byte

fun mac_bytes :: "mac \<Rightarrow> byte list" where
  "mac_bytes (Mac a b c d e f) = [a, b, c, d, e, f]"

definition mac_at :: "byte list \<Rightarrow> nat \<Rightarrow> mac" where
  "mac_at bs i = Mac (bs ! i) (bs ! (i + 1)) (bs ! (i + 2)) (bs ! (i + 3)) (bs ! (i + 4)) (bs ! (i + 5))"

definition enc16 :: "u16 \<Rightarrow> byte list" where
  "enc16 w = [byteN 0 w, byteN 1 w]"

definition enc32 :: "u32 \<Rightarrow> byte list" where
  "enc32 w = [byteN 0 w, byteN 1 w, byteN 2 w, byteN 3 w]"

definition le16_at :: "byte list \<Rightarrow> nat \<Rightarrow> u16" where
  "le16_at bs i = le16 (bs ! i) (bs ! (i + 1))"

definition le32_at :: "byte list \<Rightarrow> nat \<Rightarrow> u32" where
  "le32_at bs i = le32 (bs ! i) (bs ! (i + 1)) (bs ! (i + 2)) (bs ! (i + 3))"

definition low_nibble :: "byte \<Rightarrow> 4 word" where
  "low_nibble b = ucast b"

definition high_nibble :: "byte \<Rightarrow> 4 word" where
  "high_nibble b = ucast (drop_bit 4 b)"

definition nibbles :: "4 word \<Rightarrow> 4 word \<Rightarrow> byte" where
  "nibbles l h = ucast l OR push_bit 4 (ucast h)"

lemma low_nibble_nibbles [simp]: "low_nibble (nibbles l h) = l"
  by (rule bit_word_eqI) (auto simp: low_nibble_def nibbles_def bit_simps)

lemma high_nibble_nibbles [simp]: "high_nibble (nibbles l h) = h"
  by (rule bit_word_eqI) (auto simp: high_nibble_def nibbles_def bit_simps dest: bit_imp_le_length)

lemma nibbles_split [simp]: "nibbles (low_nibble b) (high_nibble b) = b"
  by (rule bit_word_eqI) (auto simp: low_nibble_def high_nibble_def nibbles_def bit_simps)

lemma length_mac_bytes [simp]: "length (mac_bytes m) = 6"
  by (cases m) simp

lemma mac_bytes_mac_at [simp]:
  "mac_bytes (mac_at bs i) = [bs ! i, bs ! (i + 1), bs ! (i + 2), bs ! (i + 3), bs ! (i + 4), bs ! (i + 5)]"
  by (simp add: mac_at_def)

lemma Mac_bytes_nth [simp]:
  "k = 2 \<Longrightarrow> Mac (mac_bytes m ! 0) (mac_bytes m ! Suc 0) (mac_bytes m ! k) (mac_bytes m ! 3)
     (mac_bytes m ! 4) (mac_bytes m ! 5) = m"
  by (cases m) simp

lemma list_upt_eqI: "length bs = n \<Longrightarrow> xs = map ((!) bs) [0..<n] \<Longrightarrow> xs = bs"
  using map_nth[of bs] by simp

lemmas codec = enc16_def enc32_def le16_at_def le32_at_def mac_at_def

section \<open>The structs\<close>

text \<open>\<^verbatim>\<open>struct eth_hdr\<close>\<close>

record eth_hdr =
  eth_dhost :: mac
  eth_shost :: mac
  eth_type :: u16

definition enc_eth :: "eth_hdr \<Rightarrow> byte list" where
  "enc_eth h =
     mac_bytes (eth_dhost h) @ mac_bytes (eth_shost h) @ enc16 (eth_type h)"

definition dec_eth :: "byte list \<Rightarrow> eth_hdr" where
  "dec_eth bs = \<lparr>eth_dhost = mac_at bs 0, eth_shost = mac_at bs 6, eth_type = le16_at bs 12\<rparr>"

interpretation eth_wire: wire_struct enc_eth dec_eth 14
proof unfold_locales
  show "length (enc_eth h) = 14" for h
    by (simp add: enc_eth_def codec)
  show "dec_eth (enc_eth h) = h" for h
    by (simp add: enc_eth_def dec_eth_def codec nth_append)
  show "enc_eth (dec_eth bs) = bs" if "length bs = 14" for bs
    by (rule list_upt_eqI[OF that]) (simp add: enc_eth_def dec_eth_def codec upt_conv_Cons, simp add: eval_nat_numeral)
qed

text \<open>\<^verbatim>\<open>struct arp_hdr\<close>\<close>

record arp_hdr =
  arp_hrd :: u16
  arp_pro :: u16
  arp_hln :: byte
  arp_pln :: byte
  arp_op :: u16
  arp_sha :: mac
  arp_sip :: u32
  arp_tha :: mac
  arp_tip :: u32

definition enc_arp :: "arp_hdr \<Rightarrow> byte list" where
  "enc_arp h =
     enc16 (arp_hrd h) @ enc16 (arp_pro h) @ [arp_hln h] @ [arp_pln h] @ enc16 (arp_op h) @ mac_bytes (arp_sha h) @ enc32 (arp_sip h) @ mac_bytes (arp_tha h) @ enc32 (arp_tip h)"

definition dec_arp :: "byte list \<Rightarrow> arp_hdr" where
  "dec_arp bs = \<lparr>arp_hrd = le16_at bs 0, arp_pro = le16_at bs 2, arp_hln = bs ! 4, arp_pln = bs ! 5, arp_op = le16_at bs 6, arp_sha = mac_at bs 8, arp_sip = le32_at bs 14, arp_tha = mac_at bs 18, arp_tip = le32_at bs 24\<rparr>"

interpretation arp_wire: wire_struct enc_arp dec_arp 28
proof unfold_locales
  show "length (enc_arp h) = 28" for h
    by (simp add: enc_arp_def codec)
  show "dec_arp (enc_arp h) = h" for h
    by (simp add: enc_arp_def dec_arp_def codec nth_append)
  show "enc_arp (dec_arp bs) = bs" if "length bs = 28" for bs
    by (rule list_upt_eqI[OF that]) (simp add: enc_arp_def dec_arp_def codec upt_conv_Cons, simp add: eval_nat_numeral)
qed

text \<open>\<^verbatim>\<open>struct ip_hdr\<close>\<close>

record ip_hdr =
  ip_hl :: "4 word"
  ip_v :: "4 word"
  ip_tos :: byte
  ip_len :: u16
  ip_id :: u16
  ip_off :: u16
  ip_ttl :: byte
  ip_p :: byte
  ip_sum :: u16
  ip_src :: u32
  ip_dst :: u32

definition enc_ip :: "ip_hdr \<Rightarrow> byte list" where
  "enc_ip h =
     [nibbles (ip_hl h) (ip_v h)] @ [ip_tos h] @ enc16 (ip_len h) @ enc16 (ip_id h) @ enc16 (ip_off h) @ [ip_ttl h] @ [ip_p h] @ enc16 (ip_sum h) @ enc32 (ip_src h) @ enc32 (ip_dst h)"

definition dec_ip :: "byte list \<Rightarrow> ip_hdr" where
  "dec_ip bs = \<lparr>ip_hl = low_nibble (bs ! 0), ip_v = high_nibble (bs ! 0), ip_tos = bs ! 1, ip_len = le16_at bs 2, ip_id = le16_at bs 4, ip_off = le16_at bs 6, ip_ttl = bs ! 8, ip_p = bs ! 9, ip_sum = le16_at bs 10, ip_src = le32_at bs 12, ip_dst = le32_at bs 16\<rparr>"

interpretation ip_wire: wire_struct enc_ip dec_ip 20
proof unfold_locales
  show "length (enc_ip h) = 20" for h
    by (simp add: enc_ip_def codec)
  show "dec_ip (enc_ip h) = h" for h
    by (simp add: enc_ip_def dec_ip_def codec nth_append)
  show "enc_ip (dec_ip bs) = bs" if "length bs = 20" for bs
    by (rule list_upt_eqI[OF that]) (simp add: enc_ip_def dec_ip_def codec upt_conv_Cons, simp add: eval_nat_numeral)
qed

text \<open>\<^verbatim>\<open>struct icmp_hdr\<close>\<close>

record icmp_hdr =
  icmp_type :: byte
  icmp_code :: byte
  icmp_sum :: u16

definition enc_icmp :: "icmp_hdr \<Rightarrow> byte list" where
  "enc_icmp h =
     [icmp_type h] @ [icmp_code h] @ enc16 (icmp_sum h)"

definition dec_icmp :: "byte list \<Rightarrow> icmp_hdr" where
  "dec_icmp bs = \<lparr>icmp_type = bs ! 0, icmp_code = bs ! 1, icmp_sum = le16_at bs 2\<rparr>"

interpretation icmp_wire: wire_struct enc_icmp dec_icmp 4
proof unfold_locales
  show "length (enc_icmp h) = 4" for h
    by (simp add: enc_icmp_def codec)
  show "dec_icmp (enc_icmp h) = h" for h
    by (simp add: enc_icmp_def dec_icmp_def codec nth_append)
  show "enc_icmp (dec_icmp bs) = bs" if "length bs = 4" for bs
    by (rule list_upt_eqI[OF that]) (simp add: enc_icmp_def dec_icmp_def codec upt_conv_Cons, simp add: eval_nat_numeral)
qed

text \<open>\<^verbatim>\<open>struct pwospf_hdr\<close>\<close>

record pwospf_hdr =
  pwospf_ver :: byte
  pwospf_type :: byte
  pwospf_len :: u16
  pwospf_rid :: u32
  pwospf_aid :: u32
  pwospf_sum :: u16
  pwospf_atype :: u16
  pwospf_auth1 :: u32
  pwospf_auth2 :: u32

definition enc_pwospf :: "pwospf_hdr \<Rightarrow> byte list" where
  "enc_pwospf h =
     [pwospf_ver h] @ [pwospf_type h] @ enc16 (pwospf_len h) @ enc32 (pwospf_rid h) @ enc32 (pwospf_aid h) @ enc16 (pwospf_sum h) @ enc16 (pwospf_atype h) @ enc32 (pwospf_auth1 h) @ enc32 (pwospf_auth2 h)"

definition dec_pwospf :: "byte list \<Rightarrow> pwospf_hdr" where
  "dec_pwospf bs = \<lparr>pwospf_ver = bs ! 0, pwospf_type = bs ! 1, pwospf_len = le16_at bs 2, pwospf_rid = le32_at bs 4, pwospf_aid = le32_at bs 8, pwospf_sum = le16_at bs 12, pwospf_atype = le16_at bs 14, pwospf_auth1 = le32_at bs 16, pwospf_auth2 = le32_at bs 20\<rparr>"

interpretation pwospf_wire: wire_struct enc_pwospf dec_pwospf 24
proof unfold_locales
  show "length (enc_pwospf h) = 24" for h
    by (simp add: enc_pwospf_def codec)
  show "dec_pwospf (enc_pwospf h) = h" for h
    by (simp add: enc_pwospf_def dec_pwospf_def codec nth_append)
  show "enc_pwospf (dec_pwospf bs) = bs" if "length bs = 24" for bs
    by (rule list_upt_eqI[OF that]) (simp add: enc_pwospf_def dec_pwospf_def codec upt_conv_Cons, simp add: eval_nat_numeral)
qed

text \<open>\<^verbatim>\<open>struct pwospf_hello_hdr\<close>\<close>

record pwospf_hello_hdr =
  hello_mask :: u32
  hello_hint :: u16
  hello_pad :: u16

definition enc_hello :: "pwospf_hello_hdr \<Rightarrow> byte list" where
  "enc_hello h =
     enc32 (hello_mask h) @ enc16 (hello_hint h) @ enc16 (hello_pad h)"

definition dec_hello :: "byte list \<Rightarrow> pwospf_hello_hdr" where
  "dec_hello bs = \<lparr>hello_mask = le32_at bs 0, hello_hint = le16_at bs 4, hello_pad = le16_at bs 6\<rparr>"

interpretation hello_wire: wire_struct enc_hello dec_hello 8
proof unfold_locales
  show "length (enc_hello h) = 8" for h
    by (simp add: enc_hello_def codec)
  show "dec_hello (enc_hello h) = h" for h
    by (simp add: enc_hello_def dec_hello_def codec nth_append)
  show "enc_hello (dec_hello bs) = bs" if "length bs = 8" for bs
    by (rule list_upt_eqI[OF that]) (simp add: enc_hello_def dec_hello_def codec upt_conv_Cons, simp add: eval_nat_numeral)
qed

text \<open>\<^verbatim>\<open>struct pwospf_lsu_hdr\<close>\<close>

record pwospf_lsu_hdr =
  lsu_seq :: u16
  lsu_ttl :: u16
  lsu_num :: u32

definition enc_lsu :: "pwospf_lsu_hdr \<Rightarrow> byte list" where
  "enc_lsu h =
     enc16 (lsu_seq h) @ enc16 (lsu_ttl h) @ enc32 (lsu_num h)"

definition dec_lsu :: "byte list \<Rightarrow> pwospf_lsu_hdr" where
  "dec_lsu bs = \<lparr>lsu_seq = le16_at bs 0, lsu_ttl = le16_at bs 2, lsu_num = le32_at bs 4\<rparr>"

interpretation lsu_wire: wire_struct enc_lsu dec_lsu 8
proof unfold_locales
  show "length (enc_lsu h) = 8" for h
    by (simp add: enc_lsu_def codec)
  show "dec_lsu (enc_lsu h) = h" for h
    by (simp add: enc_lsu_def dec_lsu_def codec nth_append)
  show "enc_lsu (dec_lsu bs) = bs" if "length bs = 8" for bs
    by (rule list_upt_eqI[OF that]) (simp add: enc_lsu_def dec_lsu_def codec upt_conv_Cons, simp add: eval_nat_numeral)
qed

text \<open>\<^verbatim>\<open>struct pwospf_lsu_adv\<close>\<close>

record pwospf_lsu_adv =
  adv_sub :: u32
  adv_mask :: u32
  adv_rid :: u32

definition enc_adv :: "pwospf_lsu_adv \<Rightarrow> byte list" where
  "enc_adv h =
     enc32 (adv_sub h) @ enc32 (adv_mask h) @ enc32 (adv_rid h)"

definition dec_adv :: "byte list \<Rightarrow> pwospf_lsu_adv" where
  "dec_adv bs = \<lparr>adv_sub = le32_at bs 0, adv_mask = le32_at bs 4, adv_rid = le32_at bs 8\<rparr>"

interpretation adv_wire: wire_struct enc_adv dec_adv 12
proof unfold_locales
  show "length (enc_adv h) = 12" for h
    by (simp add: enc_adv_def codec)
  show "dec_adv (enc_adv h) = h" for h
    by (simp add: enc_adv_def dec_adv_def codec nth_append)
  show "enc_adv (dec_adv bs) = bs" if "length bs = 12" for bs
    by (rule list_upt_eqI[OF that]) (simp add: enc_adv_def dec_adv_def codec upt_conv_Cons, simp add: eval_nat_numeral)
qed

text \<open>\<^verbatim>\<open>struct nat_tcp_hdr\<close>\<close>

record nat_tcp_hdr =
  tcp_sport :: u16
  tcp_dport :: u16
  tcp_seq :: u32
  tcp_ack :: u32
  tcp_unused1 :: u32
  tcp_sum :: u16
  tcp_unused2 :: u16

definition enc_nat_tcp :: "nat_tcp_hdr \<Rightarrow> byte list" where
  "enc_nat_tcp h =
     enc16 (tcp_sport h) @ enc16 (tcp_dport h) @ enc32 (tcp_seq h) @ enc32 (tcp_ack h) @ enc32 (tcp_unused1 h) @ enc16 (tcp_sum h) @ enc16 (tcp_unused2 h)"

definition dec_nat_tcp :: "byte list \<Rightarrow> nat_tcp_hdr" where
  "dec_nat_tcp bs = \<lparr>tcp_sport = le16_at bs 0, tcp_dport = le16_at bs 2, tcp_seq = le32_at bs 4, tcp_ack = le32_at bs 8, tcp_unused1 = le32_at bs 12, tcp_sum = le16_at bs 16, tcp_unused2 = le16_at bs 18\<rparr>"

interpretation nat_tcp_wire: wire_struct enc_nat_tcp dec_nat_tcp 20
proof unfold_locales
  show "length (enc_nat_tcp h) = 20" for h
    by (simp add: enc_nat_tcp_def codec)
  show "dec_nat_tcp (enc_nat_tcp h) = h" for h
    by (simp add: enc_nat_tcp_def dec_nat_tcp_def codec nth_append)
  show "enc_nat_tcp (dec_nat_tcp bs) = bs" if "length bs = 20" for bs
    by (rule list_upt_eqI[OF that]) (simp add: enc_nat_tcp_def dec_nat_tcp_def codec upt_conv_Cons, simp add: eval_nat_numeral)
qed

text \<open>\<^verbatim>\<open>struct nat_udp_hdr\<close>\<close>

record nat_udp_hdr =
  udp_sport :: u16
  udp_dport :: u16
  udp_len :: u16
  udp_sum :: u16

definition enc_nat_udp :: "nat_udp_hdr \<Rightarrow> byte list" where
  "enc_nat_udp h =
     enc16 (udp_sport h) @ enc16 (udp_dport h) @ enc16 (udp_len h) @ enc16 (udp_sum h)"

definition dec_nat_udp :: "byte list \<Rightarrow> nat_udp_hdr" where
  "dec_nat_udp bs = \<lparr>udp_sport = le16_at bs 0, udp_dport = le16_at bs 2, udp_len = le16_at bs 4, udp_sum = le16_at bs 6\<rparr>"

interpretation nat_udp_wire: wire_struct enc_nat_udp dec_nat_udp 8
proof unfold_locales
  show "length (enc_nat_udp h) = 8" for h
    by (simp add: enc_nat_udp_def codec)
  show "dec_nat_udp (enc_nat_udp h) = h" for h
    by (simp add: enc_nat_udp_def dec_nat_udp_def codec nth_append)
  show "enc_nat_udp (dec_nat_udp bs) = bs" if "length bs = 8" for bs
    by (rule list_upt_eqI[OF that]) (simp add: enc_nat_udp_def dec_nat_udp_def codec upt_conv_Cons, simp add: eval_nat_numeral)
qed

text \<open>\<^verbatim>\<open>struct nat_icmp_hdr\<close>\<close>

record nat_icmp_hdr =
  nicmp_type :: byte
  nicmp_code :: byte
  nicmp_sum :: u16
  nicmp_opt1 :: u16
  nicmp_opt2 :: u16

definition enc_nat_icmp :: "nat_icmp_hdr \<Rightarrow> byte list" where
  "enc_nat_icmp h =
     [nicmp_type h] @ [nicmp_code h] @ enc16 (nicmp_sum h) @ enc16 (nicmp_opt1 h) @ enc16 (nicmp_opt2 h)"

definition dec_nat_icmp :: "byte list \<Rightarrow> nat_icmp_hdr" where
  "dec_nat_icmp bs = \<lparr>nicmp_type = bs ! 0, nicmp_code = bs ! 1, nicmp_sum = le16_at bs 2, nicmp_opt1 = le16_at bs 4, nicmp_opt2 = le16_at bs 6\<rparr>"

interpretation nat_icmp_wire: wire_struct enc_nat_icmp dec_nat_icmp 8
proof unfold_locales
  show "length (enc_nat_icmp h) = 8" for h
    by (simp add: enc_nat_icmp_def codec)
  show "dec_nat_icmp (enc_nat_icmp h) = h" for h
    by (simp add: enc_nat_icmp_def dec_nat_icmp_def codec nth_append)
  show "enc_nat_icmp (dec_nat_icmp bs) = bs" if "length bs = 8" for bs
    by (rule list_upt_eqI[OF that]) (simp add: enc_nat_icmp_def dec_nat_icmp_def codec upt_conv_Cons, simp add: eval_nat_numeral)
qed

section \<open>Constants\<close>

abbreviation (input) ETH_HDR_LEN :: nat where "ETH_HDR_LEN \<equiv> 14"
abbreviation (input) IP_HDR_LEN :: nat where "IP_HDR_LEN \<equiv> 20"
abbreviation (input) ETH_TYPE_ARP :: u16 where "ETH_TYPE_ARP \<equiv> 0x0806"
abbreviation (input) ETH_TYPE_IP :: u16 where "ETH_TYPE_IP \<equiv> 0x0800"
abbreviation (input) ARP_HRD_ETHERNET :: u16 where "ARP_HRD_ETHERNET \<equiv> 0x0001"
abbreviation (input) ARP_PRO_IP :: u16 where "ARP_PRO_IP \<equiv> 0x0800"
abbreviation (input) ARP_OP_REQUEST :: u16 where "ARP_OP_REQUEST \<equiv> 1"
abbreviation (input) ARP_OP_REPLY :: u16 where "ARP_OP_REPLY \<equiv> 2"
abbreviation (input) IP_PROTO_ICMP :: byte where "IP_PROTO_ICMP \<equiv> 1"
abbreviation (input) IP_PROTO_TCP :: byte where "IP_PROTO_TCP \<equiv> 6"
abbreviation (input) IP_PROTO_UDP :: byte where "IP_PROTO_UDP \<equiv> 0x11"
abbreviation (input) IP_PROTO_PWOSPF :: byte where "IP_PROTO_PWOSPF \<equiv> 0x59"
abbreviation (input) IP_FRAG_DF :: u16 where "IP_FRAG_DF \<equiv> 0x4000"
abbreviation (input) IP_FRAG_MF :: u16 where "IP_FRAG_MF \<equiv> 0x2000"
abbreviation (input) IP_FRAG_OFFMASK :: u16 where "IP_FRAG_OFFMASK \<equiv> 0x1fff"
abbreviation (input) ICMP_TYPE_DESTINATION_UNREACHABLE :: byte where "ICMP_TYPE_DESTINATION_UNREACHABLE \<equiv> 3"
abbreviation (input) ICMP_CODE_NET_UNREACHABLE :: byte where "ICMP_CODE_NET_UNREACHABLE \<equiv> 0"
abbreviation (input) ICMP_CODE_HOST_UNREACHABLE :: byte where "ICMP_CODE_HOST_UNREACHABLE \<equiv> 1"
abbreviation (input) ICMP_CODE_PROTOCOL_UNREACHABLE :: byte where "ICMP_CODE_PROTOCOL_UNREACHABLE \<equiv> 2"
abbreviation (input) ICMP_CODE_PORT_UNREACHABLE :: byte where "ICMP_CODE_PORT_UNREACHABLE \<equiv> 3"
abbreviation (input) ICMP_CODE_NET_UNKNOWN :: byte where "ICMP_CODE_NET_UNKNOWN \<equiv> 6"
abbreviation (input) ICMP_TYPE_TIME_EXCEEDED :: byte where "ICMP_TYPE_TIME_EXCEEDED \<equiv> 0xB"
abbreviation (input) ICMP_CODE_TTL_EXCEEDED :: byte where "ICMP_CODE_TTL_EXCEEDED \<equiv> 0"
abbreviation (input) ICMP_TYPE_ECHO_REQUEST :: byte where "ICMP_TYPE_ECHO_REQUEST \<equiv> 8"
abbreviation (input) ICMP_TYPE_ECHO_REPLY :: byte where "ICMP_TYPE_ECHO_REPLY \<equiv> 0"
abbreviation (input) ICMP_CODE_ECHO :: byte where "ICMP_CODE_ECHO \<equiv> 0"
abbreviation (input) PWOSPF_VERSION :: byte where "PWOSPF_VERSION \<equiv> 2"
abbreviation (input) PWOSPF_TYPE_HELLO :: byte where "PWOSPF_TYPE_HELLO \<equiv> 1"
abbreviation (input) PWOSPF_TYPE_LINK_STATE_UPDATE :: byte where "PWOSPF_TYPE_LINK_STATE_UPDATE \<equiv> 4"
abbreviation (input) PWOSPF_HELLO_TIP :: u32 where "PWOSPF_HELLO_TIP \<equiv> 0xe0000005"
abbreviation (input) IF_LEN :: nat where "IF_LEN \<equiv> 32"
abbreviation (input) SR_NAMELEN :: nat where "SR_NAMELEN \<equiv> 32"

section \<open>Header pointers\<close>

definition get_eth_hdr :: "byte list \<Rightarrow> eth_hdr outcome" where
  "get_eth_hdr p = get_struct dec_eth 14 p 0"

definition put_eth_hdr :: "byte list \<Rightarrow> eth_hdr \<Rightarrow> byte list outcome" where
  "put_eth_hdr p h = put_struct enc_eth p 0 h"

definition get_ip_hdr :: "byte list \<Rightarrow> ip_hdr outcome" where
  "get_ip_hdr p = get_struct dec_ip 20 p ETH_HDR_LEN"

definition put_ip_hdr :: "byte list \<Rightarrow> ip_hdr \<Rightarrow> byte list outcome" where
  "put_ip_hdr p h = put_struct enc_ip p ETH_HDR_LEN h"

definition get_arp_hdr :: "byte list \<Rightarrow> arp_hdr outcome" where
  "get_arp_hdr p = do {
     eth \<leftarrow> get_eth_hdr p;
     if ntohs (eth_type eth) = ETH_TYPE_ARP then get_struct dec_arp 28 p ETH_HDR_LEN else None }"

definition put_arp_hdr :: "byte list \<Rightarrow> arp_hdr \<Rightarrow> byte list outcome" where
  "put_arp_hdr p h = put_struct enc_arp p ETH_HDR_LEN h"

definition get_icmp_hdr :: "byte list \<Rightarrow> icmp_hdr outcome" where
  "get_icmp_hdr p = get_struct dec_icmp 4 p (ETH_HDR_LEN + IP_HDR_LEN)"

definition put_icmp_hdr :: "byte list \<Rightarrow> icmp_hdr \<Rightarrow> byte list outcome" where
  "put_icmp_hdr p h = put_struct enc_icmp p (ETH_HDR_LEN + IP_HDR_LEN) h"

definition get_pwospf_hdr :: "byte list \<Rightarrow> pwospf_hdr outcome" where
  "get_pwospf_hdr p = get_struct dec_pwospf 24 p (ETH_HDR_LEN + IP_HDR_LEN)"

definition put_pwospf_hdr :: "byte list \<Rightarrow> pwospf_hdr \<Rightarrow> byte list outcome" where
  "put_pwospf_hdr p h = put_struct enc_pwospf p (ETH_HDR_LEN + IP_HDR_LEN) h"

definition get_pwospf_hello_hdr :: "byte list \<Rightarrow> pwospf_hello_hdr outcome" where
  "get_pwospf_hello_hdr p = get_struct dec_hello 8 p (ETH_HDR_LEN + IP_HDR_LEN + 24)"

definition put_pwospf_hello_hdr :: "byte list \<Rightarrow> pwospf_hello_hdr \<Rightarrow> byte list outcome" where
  "put_pwospf_hello_hdr p h = put_struct enc_hello p (ETH_HDR_LEN + IP_HDR_LEN + 24) h"

definition get_pwospf_lsu_hdr :: "byte list \<Rightarrow> pwospf_lsu_hdr outcome" where
  "get_pwospf_lsu_hdr p = get_struct dec_lsu 8 p (ETH_HDR_LEN + IP_HDR_LEN + 24)"

text \<open>The \<open>i\<close>-th advertisement from \<open>get_pwospf_lsu_data\<close>, read as the walking \<open>next_packet_adv\<close> does.\<close>

definition get_pwospf_lsu_data :: "byte list \<Rightarrow> nat \<Rightarrow> pwospf_lsu_adv outcome" where
  "get_pwospf_lsu_data p i = get_struct dec_adv 12 p (ETH_HDR_LEN + IP_HDR_LEN + 24 + 8 + 12 * i)"

section \<open>Filling headers\<close>

definition populate_eth_hdr :: "eth_hdr \<Rightarrow> mac option \<Rightarrow> mac \<Rightarrow> u16 \<Rightarrow> eth_hdr" where
  "populate_eth_hdr ether_hdr dhost shost type =
     (case dhost of None \<Rightarrow> ether_hdr | Some d \<Rightarrow> ether_hdr\<lparr>eth_dhost := d\<rparr>)
       \<lparr>eth_shost := shost, eth_type := htons type\<rparr>"

definition populate_arp_hdr ::
  "arp_hdr \<Rightarrow> mac option \<Rightarrow> u32 \<Rightarrow> mac \<Rightarrow> u32 \<Rightarrow> u16 \<Rightarrow> arp_hdr" where
  "populate_arp_hdr arp_header tha tip sha sip op =
     (let a = arp_header\<lparr>arp_hrd := htons ARP_HRD_ETHERNET, arp_pro := htons ARP_PRO_IP,
                arp_hln := 6, arp_pln := 4, arp_op := htons op, arp_sha := sha, arp_sip := sip\<rparr>;
          a = (case tha of None \<Rightarrow> a | Some t \<Rightarrow> a\<lparr>arp_tha := t\<rparr>)
      in a\<lparr>arp_tip := tip\<rparr>)"

definition populate_ip :: "u16 \<Rightarrow> byte \<Rightarrow> u32 \<Rightarrow> u32 \<Rightarrow> ip_hdr" where
  "populate_ip payload_size protocol source_ip dest_ip =
     \<lparr>ip_hl = 5, ip_v = 4, ip_tos = 0, ip_len = htons (20 + payload_size), ip_id = 0,
      ip_off = htons IP_FRAG_DF, ip_ttl = 0x40, ip_p = protocol, ip_sum = 0,
      ip_src = source_ip, ip_dst = dest_ip\<rparr>"

text \<open>\<open>populate_icmp\<close> also copies the payload behind the header of the packet it is given.\<close>

definition populate_icmp :: "byte list \<Rightarrow> byte \<Rightarrow> byte \<Rightarrow> byte list \<Rightarrow> byte list outcome" where
  "populate_icmp p type code payload = do {
     p \<leftarrow> put_icmp_hdr p \<lparr>icmp_type = type, icmp_code = code, icmp_sum = 0\<rparr>;
     mem_st p (ETH_HDR_LEN + IP_HDR_LEN + 4) payload }"

definition populate_pwospf :: "byte \<Rightarrow> u16 \<Rightarrow> u32 \<Rightarrow> u32 \<Rightarrow> pwospf_hdr" where
  "populate_pwospf type len rid aid =
     \<lparr>pwospf_ver = PWOSPF_VERSION, pwospf_type = type, pwospf_len = htons len, pwospf_rid = rid,
      pwospf_aid = htonl aid, pwospf_sum = 0, pwospf_atype = 0, pwospf_auth1 = 0, pwospf_auth2 = 0\<rparr>"

definition populate_pwospf_hello :: "u32 \<Rightarrow> u16 \<Rightarrow> pwospf_hello_hdr" where
  "populate_pwospf_hello msk helloint =
     \<lparr>hello_mask = msk, hello_hint = htons helloint, hello_pad = 0\<rparr>"

definition populate_pwospf_lsu :: "u16 \<Rightarrow> u32 \<Rightarrow> pwospf_lsu_hdr" where
  "populate_pwospf_lsu seq num = \<lparr>lsu_seq = htons seq, lsu_ttl = htons 64, lsu_num = htonl num\<rparr>"

definition populate_padding :: "nat \<Rightarrow> byte list" where
  "populate_padding len = map (\<lambda>i. word_of_nat (i + 1)) [0..<len]"

lemmas hdr_defs = get_eth_hdr_def put_eth_hdr_def get_ip_hdr_def put_ip_hdr_def
  put_arp_hdr_def get_icmp_hdr_def put_icmp_hdr_def get_pwospf_hdr_def put_pwospf_hdr_def
  get_pwospf_hello_hdr_def put_pwospf_hello_hdr_def get_pwospf_lsu_hdr_def

section \<open>Laws of the header pointers\<close>

lemma get_ip_put_ip [wire]: "put_ip_hdr p h = Some q \<Longrightarrow> get_ip_hdr q = Some h"
  unfolding hdr_defs by (rule ip_wire.get_put)

lemma get_ip_None_iff: "get_ip_hdr p = None \<longleftrightarrow> length p < 34"
  unfolding hdr_defs by (simp add: ip_wire.get_None_iff)

lemma get_ip_ok: "34 \<le> length p \<Longrightarrow> \<exists>h. get_ip_hdr p = Some h"
  using get_ip_None_iff[of p] by fastforce

lemma put_ip_ok: "34 \<le> length p \<Longrightarrow> \<exists>q. put_ip_hdr p h = Some q"
  unfolding hdr_defs by (rule ip_wire.put_ok) simp

lemma put_ip_length [wire]: "put_ip_hdr p h = Some q \<Longrightarrow> length q = length p"
  unfolding hdr_defs by (rule ip_wire.put_length)

lemma put_eth_length [wire]: "put_eth_hdr p h = Some q \<Longrightarrow> length q = length p"
  unfolding hdr_defs by (rule eth_wire.put_length)

lemma put_eth_ok: "14 \<le> length p \<Longrightarrow> \<exists>q. put_eth_hdr p h = Some q"
  unfolding hdr_defs by (rule eth_wire.put_ok) simp

lemma get_eth_ok: "14 \<le> length p \<Longrightarrow> \<exists>h. get_eth_hdr p = Some h"
  unfolding hdr_defs by (auto simp: eth_wire.get_ok)

lemma get_eth_put_eth [wire]: "put_eth_hdr p h = Some q \<Longrightarrow> get_eth_hdr q = Some h"
  unfolding hdr_defs by (rule eth_wire.get_put)

lemma get_ip_put_eth [wire]: "put_eth_hdr p h = Some q \<Longrightarrow> get_ip_hdr q = get_ip_hdr p"
  unfolding hdr_defs by (rule eth_wire.get_put_other) auto

lemma get_eth_put_ip [wire]: "put_ip_hdr p h = Some q \<Longrightarrow> get_eth_hdr q = get_eth_hdr p"
  unfolding hdr_defs by (rule ip_wire.get_put_other) auto

lemma get_icmp_put_ip [wire]: "put_ip_hdr p h = Some q \<Longrightarrow> get_icmp_hdr q = get_icmp_hdr p"
  unfolding hdr_defs by (rule ip_wire.get_put_other) auto

lemma get_icmp_put_icmp [wire]: "put_icmp_hdr p h = Some q \<Longrightarrow> get_icmp_hdr q = Some h"
  unfolding hdr_defs by (rule icmp_wire.get_put)

lemma put_icmp_length [wire]: "put_icmp_hdr p h = Some q \<Longrightarrow> length q = length p"
  unfolding hdr_defs by (rule icmp_wire.put_length)

lemma put_icmp_ok: "38 \<le> length p \<Longrightarrow> \<exists>q. put_icmp_hdr p h = Some q"
  unfolding hdr_defs by (rule icmp_wire.put_ok) simp

lemma get_icmp_ok: "38 \<le> length p \<Longrightarrow> \<exists>h. get_icmp_hdr p = Some h"
  unfolding hdr_defs by (auto simp: icmp_wire.get_ok)

lemma get_pwospf_put_pwospf [wire]: "put_pwospf_hdr p h = Some q \<Longrightarrow> get_pwospf_hdr q = Some h"
  unfolding hdr_defs by (rule pwospf_wire.get_put)

lemma put_pwospf_length [wire]: "put_pwospf_hdr p h = Some q \<Longrightarrow> length q = length p"
  unfolding hdr_defs by (rule pwospf_wire.put_length)

lemma length_populate_padding [simp]: "length (populate_padding n) = n"
  by (simp add: populate_padding_def)

end
