(* ===== verification/State.thy ===== *)
theory State
  imports Headers
begin

text \<open>
  The state of the router, \<open>struct router_state\<close> of \<^verbatim>\<open>or_data_types.h\<close>, with the entries
  of its tables, and the environment the handlers act on: the wall clock, the wire,
  the hardware registers, the locks the running thread holds, the condition variables it
  signalled, the random numbers it will draw. The linked lists are lists, which is what
  \<open>Node_List\<close> justifies. Addresses are in network byte order, as in the source.
\<close>

section \<open>Table entries\<close>

record rtable_entry =
  rt_ip :: u32
  rt_gw :: u32
  rt_mask :: u32
  rt_iface :: string
  rt_is_static :: bool
  rt_is_active :: bool

record arp_cache_entry =
  ac_ip :: u32
  ac_arp_ha :: mac
  ac_TTL :: int
  ac_is_static :: int

record arp_queue_entry =
  aq_out_iface_name :: string
  aq_next_hop :: u32
  aq_requests :: int
  aq_last_req_time :: int
  aq_head :: "byte list list"

record sping_queue_entry =
  sq_packet :: "byte list"
  sq_arrival_time :: int

record nbr_router =
  nbr_router_id :: u32
  nbr_ip :: u32
  nbr_last_rcvd_hello :: int

record iface_entry =
  ie_name :: string
  ie_addr :: mac
  ie_ip :: u32
  ie_mask :: u32
  ie_speed :: u32
  ie_is_active :: bool
  ie_last_sent_hello :: int
  ie_nbr_routers :: "nbr_router list"
  ie_is_wan :: byte

record pwospf_interface =
  pi_subnet :: u32
  pi_mask :: u32
  pi_router_id :: u32
  pi_is_active :: bool

text \<open>
  \<open>pr_addr\<close> is the address of the struct and \<open>pr_prev_router\<close> the pointer to another one, so that
  a pointer to a router that has been freed can be told from a valid one.
\<close>

record pwospf_router =
  pr_addr :: nat
  pr_router_id :: u32
  pr_area_id :: u32
  pr_seq :: u16
  pr_last_update :: int
  pr_distance :: u32
  pr_shortest_path_found :: bool
  pr_interface_list :: "pwospf_interface list"
  pr_prev_router :: "nat option"

record pwospf_lsu_queue_entry =
  lq_ip :: u32
  lq_iface :: string
  lq_packet :: "byte list"

record nat_ip_port_pair =
  np_ip :: u32
  np_port :: u16
  np_checksum :: u16
  np_checksum_ip :: u16
  np_checksum_port :: u16

record nat_entry =
  ne_ext :: nat_ip_port_pair
  ne_int :: nat_ip_port_pair
  ne_last_hits :: u32
  ne_last_hits_time :: int
  ne_hits :: u32
  ne_hw_row :: byte
  ne_is_static :: byte

record local_ip_filter_entry =
  lf_ip :: u32
  lf_name :: string

section \<open>The environment\<close>

datatype lock = ArpCache | ArpQueue | IfList | RtableLock | NatTable | RouterList | LsuQueue
  | LsuBcast | SpingQueue | WriteLock | IpFilters | CliCommands | WwwQueue

datatype mode = Rd | Wr

datatype cond = LsuBcastCond | DijkstraCond | SpingCond | NatTableCond

text \<open>The registers of the router's hardware that the software writes or reads.\<close>

datatype hw_reg =
    ROUTE_TABLE_ENTRY_IP | ROUTE_TABLE_ENTRY_MASK | ROUTE_TABLE_ENTRY_NEXT_HOP_IP
  | ROUTE_TABLE_ENTRY_OUTPUT_PORT | ROUTE_TABLE_WR_ADDR
  | ARP_TABLE_ENTRY_MAC_HI | ARP_TABLE_ENTRY_MAC_LO | ARP_TABLE_ENTRY_NEXT_HOP_IP | ARP_TABLE_WR_ADDR
  | DST_IP_FILTER_TABLE_ENTRY_IP | DST_IP_FILTER_TABLE_WR_ADDR
  | MAC_HI nat | MAC_LO nat | MAC_GRP_CONTROL nat | CPCI_REG_CTRL
  | ROUTE_TABLE_RD_ADDR | ARP_TABLE_RD_ADDR | DST_IP_FILTER_TABLE_RD_ADDR
  | ARP_NUM_MISSES | NUM_PKTS_FORWARDED
  | RX_QUEUE_NUM_PKTS_DROPPED_FULL nat | RX_QUEUE_NUM_PKTS_DROPPED_BAD nat | OQ_NUM_PKTS_DROPPED nat

section \<open>The router\<close>

record router_state =
  router_id :: u32
  area_id :: u32
  pwospf_hello_interval :: u16
  pwospf_lsu_interval :: u32
  pwospf_lsu_broadcast :: u32
  dijkstra_dirty :: u32
  is_netfpga :: bool
  arp_ttl :: u32
  nat_timeout :: u32
  rtable :: "rtable_entry list"
  arp_cache :: "arp_cache_entry list"
  if_list :: "iface_entry list"
  arp_queue :: "arp_queue_entry list"
  sping_queue :: "sping_queue_entry list"
  pwospf_router_list :: "pwospf_router list"
  pwospf_lsu_queue :: "pwospf_lsu_queue_entry list"
  nat_table :: "nat_entry list"
  local_ip_filter_list :: "local_ip_filter_entry list"
  clock :: int
  held :: "(lock \<times> mode) list"
  signals :: "cond list"
  sent :: "(string \<times> byte list) list"
  tx_result :: "nat \<Rightarrow> int"
  to_transport :: "byte list list"
  regs :: "(hw_reg \<times> u32) list"
  rand :: "nat \<Rightarrow> u16"
  rand_pos :: nat
  next_addr :: nat

section \<open>Locks, signals and registers\<close>

text \<open>
  Acquiring a lock blocks the thread for good when the thread itself stands in the way; that is
  a fault. Releasing a lock the thread does not hold is undefined behaviour.
\<close>

definition acquire :: "lock \<Rightarrow> mode \<Rightarrow> router_state \<Rightarrow> router_state outcome" where
  "acquire l m rs =
     (if (case m of Rd \<Rightarrow> (l, Wr) \<notin> set (held rs) | Wr \<Rightarrow> l \<notin> fst ` set (held rs))
      then Some (rs\<lparr>held := (l, m) # held rs\<rparr>) else None)"

definition release :: "lock \<Rightarrow> router_state \<Rightarrow> router_state outcome" where
  "release l rs =
     (if l \<in> fst ` set (held rs)
      then Some (rs\<lparr>held := remove_first (\<lambda>(k, _). k = l) (held rs)\<rparr>) else None)"

definition cond_signal :: "cond \<Rightarrow> router_state \<Rightarrow> router_state" where
  "cond_signal c rs = rs\<lparr>signals := signals rs @ [c]\<rparr>"

definition writeReg :: "hw_reg \<Rightarrow> u32 \<Rightarrow> router_state \<Rightarrow> router_state" where
  "writeReg r v rs = rs\<lparr>regs := regs rs @ [(r, v)]\<rparr>"

lemma release_acquired [simp]: "acquire l m rs = Some rs' \<Longrightarrow> release l rs' = Some rs"
  by (auto simp: acquire_def release_def split: if_splits)

lemma acquire_held: "acquire l m rs = Some rs' \<Longrightarrow> held rs' = (l, m) # held rs"
  by (auto simp: acquire_def split: if_splits)

definition lock_free :: "lock \<Rightarrow> router_state \<Rightarrow> bool" where
  "lock_free l rs \<longleftrightarrow> l \<notin> fst ` set (held rs)"

lemma acquire_free: "lock_free l rs \<Longrightarrow> acquire l m rs = Some (rs\<lparr>held := (l, m) # held rs\<rparr>)"
  by (force simp: acquire_def lock_free_def split: mode.splits)

lemma acquire_read: "(l, Wr) \<notin> set (held rs) \<Longrightarrow> acquire l Rd rs = Some (rs\<lparr>held := (l, Rd) # held rs\<rparr>)"
  by (simp add: acquire_def)

lemma release_head: "held rs = (l, m) # h \<Longrightarrow> release l rs = Some (rs\<lparr>held := h\<rparr>)"
  by (simp add: release_def)

lemma lock_free_cong: "held rs = held rs' \<Longrightarrow> lock_free l rs = lock_free l rs'"
  by (simp add: lock_free_def)

lemma lock_free_held: "held rs = (k, m) # h \<Longrightarrow> lock_free l rs \<longleftrightarrow> l \<noteq> k \<and> l \<notin> fst ` set h"
  by (simp add: lock_free_def)

text \<open>Handlers called with no lock held find every lock free.\<close>

lemma idle_lock_free: "held rs = [] \<Longrightarrow> lock_free l rs"
  by (simp add: lock_free_def)

lemma writeReg_sel [simp]:
  "regs (writeReg r v rs) = regs rs @ [(r, v)]" "rtable (writeReg r v rs) = rtable rs"
  "is_netfpga (writeReg r v rs) = is_netfpga rs" "held (writeReg r v rs) = held rs"
  "arp_cache (writeReg r v rs) = arp_cache rs"
  by (simp_all add: writeReg_def)

section \<open>A router to evaluate on\<close>

text \<open>The router as \<open>init\<close> leaves it, without hardware and with empty tables.\<close>

definition idle_router :: router_state where
  "idle_router = \<lparr>router_id = 0, area_id = 0, pwospf_hello_interval = 5, pwospf_lsu_interval = 30,
     pwospf_lsu_broadcast = 1, dijkstra_dirty = 0, is_netfpga = False, arp_ttl = 300, nat_timeout = 120,
     rtable = [], arp_cache = [], if_list = [], arp_queue = [], sping_queue = [],
     pwospf_router_list = [], pwospf_lsu_queue = [], nat_table = [], local_ip_filter_list = [],
     clock = 0, held = [], signals = [], sent = [], tx_result = (\<lambda>_. 0), to_transport = [],
     regs = [], rand = (\<lambda>i. word_of_nat i), rand_pos = 0, next_addr = 1\<rparr>"

end
