(* ===== verification/Ports.thy ===== *)
theory Ports
  imports State
begin

text \<open>
  The correspondence between interface names and hardware port numbers
  (\<open>getPortNumber\<close>, \<open>getOneHotPortNumber\<close>, \<open>getIfaceFromOneHotPortNumber\<close> and
  \<open>get_incoming_interface\<close> of \<^verbatim>\<open>or_netfpga.c\<close>). An unknown name runs into
  \<open>assert(0)\<close>, an unknown port number gives the empty name.
\<close>

definition getPortNumber :: "string \<Rightarrow> byte outcome" where
  "getPortNumber name =
     (if name = ''eth0'' then Some 0 else if name = ''eth1'' then Some 1
      else if name = ''eth2'' then Some 2 else if name = ''eth3'' then Some 3 else None)"

definition getOneHotPortNumber :: "string \<Rightarrow> u32 outcome" where
  "getOneHotPortNumber name =
     (if name = ''eth0'' then Some 1 else if name = ''eth1'' then Some 4
      else if name = ''eth2'' then Some 16 else if name = ''eth3'' then Some 64
      else if name = ''cpu0'' then Some 2 else if name = ''cpu1'' then Some 8
      else if name = ''cpu2'' then Some 32 else if name = ''cpu3'' then Some 128 else None)"

definition getIfaceFromOneHotPortNumber :: "nat \<Rightarrow> u32 \<Rightarrow> string" where
  "getIfaceFromOneHotPortNumber len port =
     (if port = 1 then strncpy ''eth0'' len else if port = 2 then strncpy ''cpu0'' len
      else if port = 4 then strncpy ''eth1'' len else if port = 8 then strncpy ''cpu1'' len
      else if port = 16 then strncpy ''eth2'' len else if port = 32 then strncpy ''cpu2'' len
      else if port = 64 then strncpy ''eth3'' len else if port = 128 then strncpy ''cpu3'' len
      else '''')"

definition get_incoming_interface :: "nat \<Rightarrow> u32 \<Rightarrow> string outcome" where
  "get_incoming_interface len queue =
     (if queue \<le> 3
      then Some (if queue = 0 then strncpy ''eth0'' len else if queue = 1 then strncpy ''eth1'' len
                 else if queue = 2 then strncpy ''eth2'' len else strncpy ''eth3'' len)
      else None)"

lemma one_hot_cases:
  "getOneHotPortNumber name = Some v \<Longrightarrow>
   (name, v) \<in> {(''eth0'', 1), (''eth1'', 4), (''eth2'', 16), (''eth3'', 64),
               (''cpu0'', 2), (''cpu1'', 8), (''cpu2'', 32), (''cpu3'', 128)}"
  by (auto simp: getOneHotPortNumber_def split: if_splits)

lemma one_hot_inverse:
  "4 \<le> len \<Longrightarrow> getOneHotPortNumber name = Some v \<Longrightarrow> getIfaceFromOneHotPortNumber len v = name"
  by (drule one_hot_cases) (auto simp: getIfaceFromOneHotPortNumber_def)

lemma one_hot_power: "getOneHotPortNumber name = Some v \<Longrightarrow> \<exists>k<8. v = 2 ^ k"
  by (drule one_hot_cases) (auto intro: exI[of _ 0] exI[of _ 1] exI[of _ 2] exI[of _ 3]
      exI[of _ 4] exI[of _ 5] exI[of _ 6] exI[of _ 7])

lemma port_number_one_hot:
  "getPortNumber name = Some n \<Longrightarrow> getOneHotPortNumber name = Some (2 ^ (2 * unat n))"
  by (auto simp: getPortNumber_def getOneHotPortNumber_def split: if_splits)

end
