(* ===== verification/Bubble.thy ===== *)
theory Bubble
  imports Prelude
begin

text \<open>
  The bubble sort that \<open>trigger_rtable_modified\<close> (\<^verbatim>\<open>or_rtable.c\<close>),
  \<open>trigger_local_ip_filters_change\<close> (\<^verbatim>\<open>or_netfpga.c\<close>) and \<open>nat_maintenance_thread\<close>
  (\<^verbatim>\<open>or_nat.c\<close>) write out, over the comparison that decides a swap. The loop is
  partial: with a comparison that keeps asking for swaps it never ends. The locales
  below give the contract on the comparison under which it ends with a sorted
  permutation of its input.
\<close>

section \<open>The loop\<close>

text \<open>One run of the inner \<open>while (cur && cur->next)\<close>: the new list and the \<open>swapped\<close> flag.\<close>

fun bubble_pass :: "('a \<Rightarrow> 'a \<Rightarrow> bool) \<Rightarrow> 'a list \<Rightarrow> 'a list \<times> bool" where
  "bubble_pass swap (a # b # xs) =
     (if swap a b then (case bubble_pass swap (a # xs) of (ys, _) \<Rightarrow> (b # ys, True))
      else (case bubble_pass swap (b # xs) of (ys, s) \<Rightarrow> (a # ys, s)))"
| "bubble_pass swap xs = (xs, False)"

text \<open>The outer \<open>do ... while (swapped)\<close>.\<close>

partial_function (option) bubble_sort :: "('a \<Rightarrow> 'a \<Rightarrow> bool) \<Rightarrow> 'a list \<Rightarrow> 'a list outcome" where
  "bubble_sort swap xs =
     (case bubble_pass swap xs of (ys, s) \<Rightarrow> if s then bubble_sort swap ys else Some ys)"

declare bubble_sort.simps [code]

section \<open>Order contracts\<close>

fun inversions :: "('a \<Rightarrow> 'a \<Rightarrow> bool) \<Rightarrow> 'a list \<Rightarrow> nat" where
  "inversions swap [] = 0"
| "inversions swap (x # xs) = length (filter (swap x) xs) + inversions swap xs"

lemma length_filter_mset: "mset xs = mset ys \<Longrightarrow> length (filter P xs) = length (filter P ys)"
  by (metis mset_filter size_mset)

lemma bubble_pass_mset: "mset (fst (bubble_pass swap xs)) = mset xs"
  by (induction swap xs rule: bubble_pass.induct) (auto split: prod.splits)

lemma bubble_pass_unswapped: "\<not> snd (bubble_pass swap xs) \<Longrightarrow> fst (bubble_pass swap xs) = xs"
  by (induction swap xs rule: bubble_pass.induct) (auto split: prod.splits if_splits)

lemma bubble_pass_unswapped_adjacent:
  "\<not> snd (bubble_pass swap xs) \<Longrightarrow> Suc i < length xs \<Longrightarrow> \<not> swap (xs ! i) (xs ! Suc i)"
proof (induction swap xs arbitrary: i rule: bubble_pass.induct)
  case (1 swap a b xs)
  then show ?case by (cases i) (auto split: prod.splits if_splits)
qed auto

lemma bubble_pass_inversions:
  "(\<And>a b. swap a b \<Longrightarrow> \<not> swap b a) \<Longrightarrow>
   inversions swap (fst (bubble_pass swap xs)) + (if snd (bubble_pass swap xs) then 1 else 0)
   \<le> inversions swap xs"
proof (induction swap xs rule: bubble_pass.induct)
  case (1 swap a b xs)
  have cnt: "length (filter (swap y) (fst (bubble_pass swap (x # xs)))) = length (filter (swap y) (x # xs))"
    for x y by (rule length_filter_mset) (rule bubble_pass_mset)
  show ?case
  proof (cases "swap a b")
    case True
    with "1.prems" have "\<not> swap b a" by blast
    with True "1.IH"(1)[OF True "1.prems"] cnt[of b a] show ?thesis
      by (auto split: prod.splits if_splits)
  next
    case False
    with "1.IH"(2)[OF False "1.prems"] cnt[of a b] show ?thesis
      by (auto split: prod.splits if_splits)
  qed
qed auto

text \<open>The least a swap test must satisfy for the sort to end: it never holds both ways.\<close>

locale swap_test =
  fixes swap :: "'a \<Rightarrow> 'a \<Rightarrow> bool"
  assumes asym: "swap a b \<Longrightarrow> \<not> swap b a"
begin

lemma sort_returns: "\<exists>ys. bubble_sort swap xs = Some ys \<and> mset ys = mset xs \<and> \<not> snd (bubble_pass swap ys)"
proof (induction "inversions swap xs" arbitrary: xs rule: less_induct)
  case less
  obtain ys s where pass: "bubble_pass swap xs = (ys, s)" by (cases "bubble_pass swap xs")
  have ms: "mset ys = mset xs" using bubble_pass_mset[of swap xs] pass by simp
  show ?case
  proof (cases s)
    case True
    with pass bubble_pass_inversions[of swap xs, OF asym] have "inversions swap ys < inversions swap xs"
      by simp
    from less[OF this] ms pass True show ?thesis
      by (simp add: bubble_sort.simps[of swap xs])
  next
    case False
    with pass bubble_pass_unswapped[of swap xs] have "ys = xs" by simp
    with pass False show ?thesis by (simp add: bubble_sort.simps[of swap xs])
  qed
qed

end

text \<open>A strict weak order: then the result is sorted throughout, not only between neighbours.\<close>

locale sort_order = swap_test +
  assumes neg_trans: "\<not> swap a b \<Longrightarrow> \<not> swap b c \<Longrightarrow> \<not> swap a c"
begin

lemma adjacent_sorted:
  assumes "\<And>i. Suc i < length xs \<Longrightarrow> \<not> swap (xs ! i) (xs ! Suc i)"
  shows "sorted_wrt (\<lambda>a b. \<not> swap a b) xs"
proof -
  have "transp (\<lambda>a b. \<not> swap a b)" using neg_trans by (auto intro!: transpI)
  with assms show ?thesis by (simp add: sorted_wrt_iff_nth_Suc_transp)
qed

lemma sort_correct:
  "\<exists>ys. bubble_sort swap xs = Some ys \<and> mset ys = mset xs \<and> sorted_wrt (\<lambda>a b. \<not> swap a b) ys"
proof -
  obtain ys where ys: "bubble_sort swap xs = Some ys" "mset ys = mset xs" "\<not> snd (bubble_pass swap ys)"
    using sort_returns by blast
  from ys(3) have "sorted_wrt (\<lambda>a b. \<not> swap a b) ys"
    by (intro adjacent_sorted) (rule bubble_pass_unswapped_adjacent)
  with ys show ?thesis by blast
qed

lemma sort_Some:
  assumes "bubble_sort swap xs = Some ys"
  shows "mset ys = mset xs" and "sorted_wrt (\<lambda>a b. \<not> swap a b) ys"
  using sort_correct[of xs] assms by auto

lemma pass_sorted: "sorted_wrt (\<lambda>a b. \<not> swap a b) xs \<Longrightarrow> bubble_pass swap xs = (xs, False)"
proof (induction xs)
  case (Cons a xs)
  then show ?case by (cases xs) auto
qed simp

lemma sort_sorted: "sorted_wrt (\<lambda>a b. \<not> swap a b) xs \<Longrightarrow> bubble_sort swap xs = Some xs"
  by (simp add: bubble_sort.simps[of swap xs] pass_sorted)

end

end
