(* ===== verification/Hw_Table.thy ===== *)
theory Hw_Table
  imports State
begin

text \<open>
  The tables of the output port lookup in hardware (routes, ARP, destination filters) share one
  register protocol: the entry registers are latches, and a write to the table's address register
  copies them into the row it names. The locale states it once; each table is an instance.
\<close>

fun table_log :: "(nat \<Rightarrow> 'r \<Rightarrow> (hw_reg \<times> u32) list) \<Rightarrow> nat \<Rightarrow> 'r list \<Rightarrow> (hw_reg \<times> u32) list" where
  "table_log row_log j [] = []"
| "table_log row_log j (r # rows) = row_log j r @ table_log row_log (Suc j) rows"

lemma table_log_append:
  "table_log row_log j (xs @ ys) = table_log row_log j xs @ table_log row_log (j + length xs) ys"
  by (induction xs arbitrary: j) simp_all

text \<open>\<open>replay ws latch tab\<close> is the table after the register writes \<open>ws\<close>.\<close>

locale hw_table =
  fixes row_log :: "nat \<Rightarrow> 'r \<Rightarrow> (hw_reg \<times> u32) list"
    and replay :: "(hw_reg \<times> u32) list \<Rightarrow> 'r \<Rightarrow> (nat \<Rightarrow> 'r) \<Rightarrow> (nat \<Rightarrow> 'r)"
  assumes replay_Nil: "replay [] latch tab = tab"
    and replay_row: "j < 2 ^ 32 \<Longrightarrow> replay (row_log j r @ ws) latch tab = replay ws r (tab(j := r))"
begin

lemma replay_table:
  "j + length rows \<le> 2 ^ 32 \<Longrightarrow>
   replay (table_log row_log j rows) latch tab n =
     (if j \<le> n \<and> n < j + length rows then rows ! (n - j) else tab n)"
proof (induction rows arbitrary: j latch tab)
  case (Cons r rows)
  from Cons.prems have "j < 2 ^ 32" by simp
  from replay_row[OF this, of r "table_log row_log (Suc j) rows"] Cons.IH[of "Suc j"] Cons.prems
  show ?case by (auto simp: nth_Cons' Suc_le_eq)
qed (auto simp: replay_Nil)

text \<open>Writing a table of a given depth forgets what the hardware held before.\<close>

lemma replay_full:
  "length rows \<le> 2 ^ 32 \<Longrightarrow> n < length rows \<Longrightarrow> replay (table_log row_log 0 rows) latch tab n = rows ! n"
  by (simp add: replay_table)

end

end
