(* ===== verification/Rtable.thy ===== *)
theory Rtable
  imports Ports Bubble Hw_Table
begin

text \<open>
  The routing table, \<^verbatim>\<open>or_rtable.c\<close>: longest prefix match (\<open>get_next_hop\<close>), adding,
  deleting, activating and deactivating routes, the sort that follows every change
  (\<open>trigger_rtable_modified\<close>) and the copy of the active routes into the hardware
  table (\<open>write_rtable_to_hw\<close>).
\<close>

section \<open>Lookup\<close>

definition bits_matched :: "u32 \<Rightarrow> int" where
  "bits_matched msk = int (length (filter (\<lambda>i. drop_bit i msk AND 1 \<noteq> 0) [0..<32]))"

definition route_matches :: "u32 \<Rightarrow> rtable_entry \<Rightarrow> bool" where
  "route_matches destination re \<longleftrightarrow>
     ntohl (rt_ip re) AND ntohl (rt_mask re) = ntohl destination AND ntohl (rt_mask re)"

text \<open>The \<open>while (n)\<close> loop over the table, with \<open>lpm\<close> and \<open>most_bits_matched\<close>.\<close>

fun lpm_walk :: "u32 \<Rightarrow> rtable_entry list \<Rightarrow> rtable_entry option \<Rightarrow> int \<Rightarrow> rtable_entry option" where
  "lpm_walk destination [] lpm most = lpm"
| "lpm_walk destination (re # n) lpm most =
     (if rt_is_active re \<and> route_matches destination re \<and> bits_matched (ntohl (rt_mask re)) > most
      then lpm_walk destination n (Some re) (bits_matched (ntohl (rt_mask re)))
      else lpm_walk destination n lpm most)"

text \<open>\<open>None\<close> is the return value 1, \<open>Some\<close> the return value 0 with \<open>next_hop\<close> and \<open>next_hop_iface\<close>.\<close>

definition get_next_hop :: "router_state \<Rightarrow> nat \<Rightarrow> u32 \<Rightarrow> (u32 \<times> string) option" where
  "get_next_hop rs len destination =
     (case lpm_walk destination (rtable rs) None (- 1) of
        None \<Rightarrow> None
      | Some lpm \<Rightarrow> Some (if rt_gw lpm = 0 then destination else rt_gw lpm, strncpy (rt_iface lpm) len))"

section \<open>The hardware copy\<close>

text \<open>The table depth is the constant \<open>ROUTE_TABLE_DEPTH\<close> of \<^verbatim>\<open>cam_router.xml\<close>.\<close>

abbreviation (input) ROUTE_TABLE_DEPTH :: nat where "ROUTE_TABLE_DEPTH \<equiv> 32"

definition write_route_row :: "u32 \<Rightarrow> u32 \<Rightarrow> u32 \<Rightarrow> u32 \<Rightarrow> nat \<Rightarrow> router_state \<Rightarrow> router_state" where
  "write_route_row ip msk gw port i rs =
     writeReg ROUTE_TABLE_WR_ADDR (word_of_nat i)
       (writeReg ROUTE_TABLE_ENTRY_OUTPUT_PORT port
         (writeReg ROUTE_TABLE_ENTRY_NEXT_HOP_IP gw
           (writeReg ROUTE_TABLE_ENTRY_MASK msk
             (writeReg ROUTE_TABLE_ENTRY_IP ip rs))))"

text \<open>\<open>write_route_rows i k cur\<close>: the last \<open>k\<close> rounds of the loop, from row \<open>i\<close>, with the node pointer
  \<open>cur\<close> on an active entry or at the end.\<close>

fun write_route_rows :: "nat \<Rightarrow> nat \<Rightarrow> rtable_entry list \<Rightarrow> router_state \<Rightarrow> router_state outcome" where
  "write_route_rows i 0 cur rs = Some rs"
| "write_route_rows i (Suc k) [] rs = write_route_rows (Suc i) k [] (write_route_row 0 0 0 0 i rs)"
| "write_route_rows i (Suc k) (entry # cur) rs = do {
     port \<leftarrow> getOneHotPortNumber (rt_iface entry);
     write_route_rows (Suc i) k (dropWhile (\<lambda>e. \<not> rt_is_active e) cur)
       (write_route_row (ntohl (rt_ip entry)) (ntohl (rt_mask entry)) (ntohl (rt_gw entry)) port i rs) }"

definition write_rtable_to_hw :: "router_state \<Rightarrow> router_state outcome" where
  "write_rtable_to_hw rs =
     write_route_rows 0 ROUTE_TABLE_DEPTH (dropWhile (\<lambda>e. \<not> rt_is_active e) (rtable rs)) rs"

section \<open>Sorting after a change\<close>

definition rtable_swap :: "rtable_entry \<Rightarrow> rtable_entry \<Rightarrow> bool" where
  "rtable_swap a b \<longleftrightarrow>
     ntohl (rt_mask a) < ntohl (rt_mask b) \<or>
     (rt_mask a = rt_mask b \<and> ntohl (rt_ip a) < ntohl (rt_ip b)) \<or>
     (rt_mask a = rt_mask b \<and> rt_ip a = rt_ip b \<and> \<not> rt_is_static a \<and> rt_is_static b)"

definition trigger_rtable_modified :: "router_state \<Rightarrow> router_state outcome" where
  "trigger_rtable_modified rs = do {
     t \<leftarrow> bubble_sort rtable_swap (rtable rs);
     let rs = rs\<lparr>rtable := t\<rparr>;
     if is_netfpga rs then write_rtable_to_hw rs else Some rs }"

section \<open>Changing routes\<close>

definition add_route ::
  "router_state \<Rightarrow> u32 \<Rightarrow> u32 \<Rightarrow> u32 \<Rightarrow> string \<Rightarrow> (int \<times> router_state) outcome" where
  "add_route rs dest gateway msk interface = do {
     let entry = \<lparr>rt_ip = dest, rt_gw = gateway, rt_mask = msk, rt_iface = strncpy interface IF_LEN,
                  rt_is_static = True, rt_is_active = True\<rparr>;
     rs \<leftarrow> trigger_rtable_modified (rs\<lparr>rtable := rtable rs @ [entry]\<rparr>);
     Some (0, rs) }"

definition del_route :: "router_state \<Rightarrow> u32 \<Rightarrow> u32 \<Rightarrow> (int \<times> router_state) outcome" where
  "del_route rs dest msk = do {
     let hit = (\<lambda>e. dest = rt_ip e \<and> msk = rt_mask e);
     let removed_routes = int (length (filter hit (rtable rs)));
     rs \<leftarrow> trigger_rtable_modified (rs\<lparr>rtable := filter (\<lambda>e. \<not> hit e) (rtable rs)\<rparr>);
     Some (removed_routes, rs) }"

fun deactivate_walk :: "string \<Rightarrow> rtable_entry list \<Rightarrow> rtable_entry list" where
  "deactivate_walk interface [] = []"
| "deactivate_walk interface (entry # cur) =
     (if strncmp_eq (rt_iface entry) interface (length interface)
      then if rt_is_static entry
           then entry\<lparr>rt_is_active := False\<rparr> # deactivate_walk interface cur
           else deactivate_walk interface cur
      else entry # deactivate_walk interface cur)"

definition deactivate_routes :: "router_state \<Rightarrow> string \<Rightarrow> (int \<times> router_state) outcome" where
  "deactivate_routes rs interface = do {
     rs \<leftarrow> trigger_rtable_modified (rs\<lparr>rtable := deactivate_walk interface (rtable rs)\<rparr>);
     Some (0, rs) }"

definition activate_routes :: "router_state \<Rightarrow> string \<Rightarrow> (int \<times> router_state) outcome" where
  "activate_routes rs interface = do {
     rs \<leftarrow> trigger_rtable_modified (rs\<lparr>rtable :=
       map (\<lambda>entry. if strncmp_eq (rt_iface entry) interface (length interface)
                    then entry\<lparr>rt_is_active := True\<rparr> else entry) (rtable rs)\<rparr>);
     Some (0, rs) }"

section \<open>Longest prefix match\<close>

text \<open>\<open>is_lpm\<close>: what a route must satisfy to be the longest match, first in the table among equals.\<close>

definition candidate :: "u32 \<Rightarrow> rtable_entry \<Rightarrow> bool" where
  "candidate d e \<longleftrightarrow> rt_is_active e \<and> route_matches d e"

definition prefix_bits :: "rtable_entry \<Rightarrow> int" where
  "prefix_bits e = bits_matched (ntohl (rt_mask e))"

definition is_lpm :: "u32 \<Rightarrow> rtable_entry list \<Rightarrow> rtable_entry \<Rightarrow> bool" where
  "is_lpm d t e \<longleftrightarrow> (\<exists>xs ys. t = xs @ e # ys \<and> candidate d e \<and>
     (\<forall>x\<in>set xs. candidate d x \<longrightarrow> prefix_bits x < prefix_bits e) \<and>
     (\<forall>y\<in>set ys. candidate d y \<longrightarrow> prefix_bits y \<le> prefix_bits e))"

lemma bits_matched_nonneg: "0 \<le> bits_matched m"
  by (simp add: bits_matched_def)

lemma lpm_walk_Cons:
  "lpm_walk d (re # n) lpm most =
     (if candidate d re \<and> most < prefix_bits re then lpm_walk d n (Some re) (prefix_bits re)
      else lpm_walk d n lpm most)"
  by (simp add: candidate_def prefix_bits_def)

declare lpm_walk.simps(2) [simp del]

lemma is_lpm_here:
  "candidate d e \<Longrightarrow> (\<And>x. x \<in> set t \<Longrightarrow> candidate d x \<Longrightarrow> prefix_bits x \<le> prefix_bits e) \<Longrightarrow>
   is_lpm d (e # t) e"
  unfolding is_lpm_def by (rule exI[of _ "[]"]) auto

lemma is_lpm_later:
  assumes "is_lpm d t e" and "candidate d r \<Longrightarrow> prefix_bits r < prefix_bits e"
  shows "is_lpm d (r # t) e"
proof -
  from assms(1) obtain xs ys where "t = xs @ e # ys" "candidate d e"
    "\<forall>x\<in>set xs. candidate d x \<longrightarrow> prefix_bits x < prefix_bits e"
    "\<forall>y\<in>set ys. candidate d y \<longrightarrow> prefix_bits y \<le> prefix_bits e"
    by (auto simp: is_lpm_def)
  with assms(2) show ?thesis unfolding is_lpm_def by (intro exI[of _ "r # xs"] exI[of _ ys]) auto
qed

lemma lpm_walk_spec:
  "(lpm_walk d t lpm most = lpm \<and> (\<forall>x\<in>set t. candidate d x \<longrightarrow> prefix_bits x \<le> most)) \<or>
   (\<exists>e. lpm_walk d t lpm most = Some e \<and> is_lpm d t e \<and> most < prefix_bits e)"
proof (induction t arbitrary: lpm most)
  case (Cons re t)
  show ?case
  proof (cases "candidate d re \<and> most < prefix_bits re")
    case True
    with Cons.IH[of "Some re" "prefix_bits re"] show ?thesis
      by (auto simp: lpm_walk_Cons intro: is_lpm_here is_lpm_later)
  next
    case False
    from Cons.IH[of lpm most] show ?thesis
    proof
      assume "\<exists>e. lpm_walk d t lpm most = Some e \<and> is_lpm d t e \<and> most < prefix_bits e"
      then obtain e where e: "lpm_walk d t lpm most = Some e" "is_lpm d t e" "most < prefix_bits e"
        by blast
      with False have "is_lpm d (re # t) e" by (intro is_lpm_later) auto
      with e False show ?thesis by (auto simp: lpm_walk_Cons)
    qed (use False in \<open>auto simp: lpm_walk_Cons\<close>)
  qed
qed simp

lemma lpm_walk_None_iff: "lpm_walk d t None (- 1) = None \<longleftrightarrow> (\<forall>x\<in>set t. \<not> candidate d x)"
proof -
  have pos: "\<not> prefix_bits x \<le> - 1" for x
    using bits_matched_nonneg[of "ntohl (rt_mask x)"] by (simp add: prefix_bits_def)
  show ?thesis
    using lpm_walk_spec[of d t None "- 1"] by (auto simp: pos is_lpm_def)
qed

lemma lpm_walk_is_lpm: "lpm_walk d t None (- 1) = Some e \<Longrightarrow> is_lpm d t e"
  using lpm_walk_spec[of d t None "- 1"] by auto

section \<open>Sorted tables\<close>

text \<open>The swap test compares the keys (mask, address, static) in host order, largest first.\<close>

definition rkey :: "rtable_entry \<Rightarrow> u32 \<times> u32 \<times> bool" where
  "rkey e = (ntohl (rt_mask e), ntohl (rt_ip e), rt_is_static e)"

definition key_less :: "u32 \<times> u32 \<times> bool \<Rightarrow> u32 \<times> u32 \<times> bool \<Rightarrow> bool" where
  "key_less = (\<lambda>(m, i, s) (m', i', s'). m < m' \<or> m = m' \<and> (i < i' \<or> i = i' \<and> \<not> s \<and> s'))"

lemma rtable_swap_key: "rtable_swap a b \<longleftrightarrow> key_less (rkey a) (rkey b)"
  by (auto simp: rtable_swap_def key_less_def rkey_def)

interpretation routes: sort_order rtable_swap
  by unfold_locales (auto simp: rtable_swap_key key_less_def split: prod.splits)

definition routes_sorted :: "rtable_entry list \<Rightarrow> bool" where
  "routes_sorted = sorted_wrt (\<lambda>a b. \<not> rtable_swap a b)"

lemma sorted_mask_le:
  "routes_sorted (xs @ a # ys) \<Longrightarrow> b \<in> set ys \<Longrightarrow> ntohl (rt_mask b) \<le> ntohl (rt_mask a)"
  by (auto simp: routes_sorted_def sorted_wrt_append rtable_swap_def not_less)

text \<open>The masks of a routing table are prefix masks: a run of ones from the top.\<close>

definition prefix_mask :: "nat \<Rightarrow> u32" where
  "prefix_mask k = NOT (mask (32 - k))"

definition contiguous :: "rtable_entry \<Rightarrow> bool" where
  "contiguous e \<longleftrightarrow> (\<exists>k\<le>32. ntohl (rt_mask e) = prefix_mask k)"

lemma and_1_bit: "drop_bit i (m::u32) AND 1 \<noteq> 0 \<longleftrightarrow> bit m i"
  by (simp add: and_one_eq bit_iff_odd_drop_bit mod2_eq_if)

lemma bits_prefix_mask: "k \<le> 32 \<Longrightarrow> bits_matched (prefix_mask k) = int k"
proof -
  assume k: "k \<le> 32"
  have "filter (\<lambda>i. drop_bit i (prefix_mask k) AND 1 \<noteq> 0) [0..<32] = filter (\<lambda>i. 32 - k \<le> i) [0..<32]"
    by (rule filter_cong) (auto simp: and_1_bit prefix_mask_def bit_simps)
  also have "\<dots> = [32 - k..<32]"
  proof -
    have "[0..<32] = [0..<32 - k] @ [32 - k..<32]"
      using upt_add_eq_append[of 0 "32 - k" k] k by simp
    then show ?thesis by simp
  qed
  finally show ?thesis using k by (simp add: bits_matched_def)
qed

lemma prefix_mask_mono: "prefix_mask j \<le> prefix_mask k \<Longrightarrow> j \<le> 32 \<Longrightarrow> k \<le> 32 \<Longrightarrow> j \<le> k"
proof (rule ccontr)
  assume le: "prefix_mask j \<le> prefix_mask k" and j: "j \<le> 32" and k: "k \<le> 32" and "\<not> j \<le> k"
  then have kj: "k < j" by simp
  have "prefix_mask k \<le> prefix_mask j"
  proof -
    have "prefix_mask k AND prefix_mask j = prefix_mask k"
      using kj by (intro bit_word_eqI) (auto simp: prefix_mask_def bit_simps)
    then show ?thesis by (metis word_and_le1)
  qed
  with le have "prefix_mask j = prefix_mask k" by simp
  with bits_prefix_mask[OF j] bits_prefix_mask[OF k] kj show False by simp
qed

lemma contiguous_prefix_bits:
  "contiguous a \<Longrightarrow> contiguous b \<Longrightarrow> ntohl (rt_mask b) \<le> ntohl (rt_mask a) \<Longrightarrow> prefix_bits b \<le> prefix_bits a"
  unfolding contiguous_def prefix_bits_def using bits_prefix_mask prefix_mask_mono by fastforce

lemma is_lpmE:
  assumes "is_lpm d t e"
  obtains xs ys where "t = xs @ e # ys" "candidate d e"
    "\<forall>x\<in>set xs. candidate d x \<longrightarrow> prefix_bits x < prefix_bits e"
    "\<forall>y\<in>set ys. candidate d y \<longrightarrow> prefix_bits y \<le> prefix_bits e"
  using assms unfolding is_lpm_def by blast

lemma is_lpm_unique:
  assumes "is_lpm d t a" and "is_lpm d t b" shows "a = b"
proof -
  obtain xs ys where a: "t = xs @ a # ys" "candidate d a"
    "\<forall>x\<in>set xs. candidate d x \<longrightarrow> prefix_bits x < prefix_bits a"
    "\<forall>y\<in>set ys. candidate d y \<longrightarrow> prefix_bits y \<le> prefix_bits a"
    using assms(1) by (rule is_lpmE)
  obtain us vs where b: "t = us @ b # vs" "candidate d b"
    "\<forall>x\<in>set us. candidate d x \<longrightarrow> prefix_bits x < prefix_bits b"
    "\<forall>y\<in>set vs. candidate d y \<longrightarrow> prefix_bits y \<le> prefix_bits b"
    using assms(2) by (rule is_lpmE)
  from a(1) b(1) consider "a = b" | "a \<in> set us" "b \<in> set ys" | "b \<in> set xs" "a \<in> set vs"
    by (auto simp: append_eq_append_conv2 Cons_eq_append_conv append_eq_Cons_conv)
  then show "a = b"
  proof cases
    case 2 with a(2,4) b(2,3) show ?thesis by fastforce
  next
    case 3 with a(2,3) b(2,4) show ?thesis by fastforce
  qed
qed

text \<open>In a sorted table of prefix masks the first match in table order is the longest one.\<close>

lemma sorted_find_is_lpm:
  assumes "routes_sorted t" and "\<forall>e\<in>set t. contiguous e" and "find (candidate d) t = Some e"
  shows "lpm_walk d t None (- 1) = Some e"
proof -
  from assms(3) obtain xs ys where t: "t = xs @ e # ys" "candidate d e" "\<forall>x\<in>set xs. \<not> candidate d x"
    by (rule find_SomeE)
  have "prefix_bits y \<le> prefix_bits e" if "y \<in> set ys" for y
    using sorted_mask_le[of xs e ys y] assms(1,2) that t(1) by (auto intro!: contiguous_prefix_bits)
  with t have lpm: "is_lpm d t e" by (auto simp: is_lpm_def)
  from t have "lpm_walk d t None (- 1) \<noteq> None"
    by (auto simp: lpm_walk_None_iff)
  then obtain r where "lpm_walk d t None (- 1) = Some r" by blast
  with lpm_walk_is_lpm[of d t r] is_lpm_unique[OF lpm] show ?thesis by auto
qed

section \<open>What the hardware holds\<close>

text \<open>
  The route table of the hardware as the register interface defines it: the \<open>ENTRY\<close> registers
  are latches, a write to \<open>ROUTE_TABLE_WR_ADDR\<close> copies them into the row it names. A row is
  address, mask, next hop and one-hot output port.
\<close>

type_synonym hw_row = "u32 \<times> u32 \<times> u32 \<times> u32"

fun replay_routes :: "(hw_reg \<times> u32) list \<Rightarrow> hw_row \<Rightarrow> (nat \<Rightarrow> hw_row) \<Rightarrow> (nat \<Rightarrow> hw_row)" where
  "replay_routes [] latch tab = tab"
| "replay_routes ((r, v) # ws) (i, m, g, p) tab =
     (case r of
        ROUTE_TABLE_ENTRY_IP \<Rightarrow> replay_routes ws (v, m, g, p) tab
      | ROUTE_TABLE_ENTRY_MASK \<Rightarrow> replay_routes ws (i, v, g, p) tab
      | ROUTE_TABLE_ENTRY_NEXT_HOP_IP \<Rightarrow> replay_routes ws (i, m, v, p) tab
      | ROUTE_TABLE_ENTRY_OUTPUT_PORT \<Rightarrow> replay_routes ws (i, m, g, v) tab
      | ROUTE_TABLE_WR_ADDR \<Rightarrow> replay_routes ws (i, m, g, p) (tab(unat v := (i, m, g, p)))
      | _ \<Rightarrow> replay_routes ws (i, m, g, p) tab)"

definition row_log :: "nat \<Rightarrow> hw_row \<Rightarrow> (hw_reg \<times> u32) list" where
  "row_log j = (\<lambda>(i, m, g, p). [(ROUTE_TABLE_ENTRY_IP, i), (ROUTE_TABLE_ENTRY_MASK, m),
     (ROUTE_TABLE_ENTRY_NEXT_HOP_IP, g), (ROUTE_TABLE_ENTRY_OUTPUT_PORT, p),
     (ROUTE_TABLE_WR_ADDR, word_of_nat j)])"

abbreviation rows_log :: "nat \<Rightarrow> hw_row list \<Rightarrow> (hw_reg \<times> u32) list" where
  "rows_log \<equiv> table_log row_log"

interpretation route_table: hw_table row_log replay_routes
proof unfold_locales
  show "replay_routes (row_log j r @ ws) latch tab = replay_routes ws r (tab(j := r))" if "j < 2 ^ 32" for j r ws latch tab
    using that by (cases r; cases latch) (simp add: row_log_def unat_of_nat take_bit_nat_eq_self)
qed simp

definition route_row :: "rtable_entry \<Rightarrow> hw_row" where
  "route_row e = (ntohl (rt_ip e), ntohl (rt_mask e), ntohl (rt_gw e),
     the (getOneHotPortNumber (rt_iface e)))"

definition has_port :: "rtable_entry \<Rightarrow> bool" where
  "has_port e \<longleftrightarrow> getOneHotPortNumber (rt_iface e) \<noteq> None"

definition active_rows :: "nat \<Rightarrow> rtable_entry list \<Rightarrow> hw_row list" where
  "active_rows k t = (let rows = map route_row (take k (filter rt_is_active t))
     in rows @ replicate (k - length rows) (0, 0, 0, 0))"

lemma active_rows_Suc:
  "rt_is_active e \<Longrightarrow> active_rows (Suc k) (e # t) = route_row e # active_rows k t"
  "active_rows (Suc k) [] = (0, 0, 0, 0) # active_rows k []"
  "active_rows 0 t = []"
  by (simp_all add: active_rows_def)

lemma active_rows_dropWhile [simp]:
  "active_rows k (dropWhile (\<lambda>e. \<not> rt_is_active e) t) = active_rows k t"
  "filter rt_is_active (dropWhile (\<lambda>e. \<not> rt_is_active e) t) = filter rt_is_active t"
proof -
  show *: "filter rt_is_active (dropWhile (\<lambda>e. \<not> rt_is_active e) t) = filter rt_is_active t"
    by (induction t) auto
  show "active_rows k (dropWhile (\<lambda>e. \<not> rt_is_active e) t) = active_rows k t"
    by (simp add: active_rows_def *)
qed

lemma write_route_row_log:
  "write_route_row i m g p j rs = rs\<lparr>regs := regs rs @ row_log j (i, m, g, p)\<rparr>"
  by (simp add: write_route_row_def writeReg_def row_log_def)

lemma write_route_rows_log:
  "cur = [] \<or> rt_is_active (hd cur) \<Longrightarrow>
   write_route_rows i k cur rs =
     (if \<forall>e\<in>set (take k (filter rt_is_active cur)). has_port e
      then Some (rs\<lparr>regs := regs rs @ rows_log i (active_rows k cur)\<rparr>) else None)"
proof (induction i k cur rs rule: write_route_rows.induct)
  case (2 i k rs)
  then show ?case by (simp add: active_rows_Suc write_route_row_log)
next
  case (3 i k e cur rs)
  let ?cur = "dropWhile (\<lambda>e. \<not> rt_is_active e) cur"
  have at: "?cur = [] \<or> rt_is_active (hd ?cur)" using hd_dropWhile by blast
  show ?case
  proof (cases "getOneHotPortNumber (rt_iface e)")
    case None
    with "3.prems" show ?thesis by (simp add: has_port_def)
  next
    case (Some port)
    with "3.IH"[OF Some at] "3.prems" show ?thesis
      by (simp add: has_port_def active_rows_Suc write_route_row_log route_row_def)
  qed
qed (simp add: active_rows_Suc)

lemma write_rtable_to_hw_log:
  "write_rtable_to_hw rs =
     (if \<forall>e\<in>set (take 32 (filter rt_is_active (rtable rs))). has_port e
      then Some (rs\<lparr>regs := regs rs @ rows_log 0 (active_rows 32 (rtable rs))\<rparr>) else None)"
proof -
  let ?cur = "dropWhile (\<lambda>e. \<not> rt_is_active e) (rtable rs)"
  have "?cur = [] \<or> rt_is_active (hd ?cur)" using hd_dropWhile by blast
  from write_route_rows_log[OF this, of 0 32 rs] show ?thesis
    by (simp add: write_rtable_to_hw_def)
qed

lemma length_active_rows [simp]: "length (active_rows k t) = k"
  by (simp add: active_rows_def Let_def)

lemma nth_active_rows:
  "n < k \<Longrightarrow> active_rows k t ! n =
     (if n < length (filter rt_is_active t) then route_row (filter rt_is_active t ! n) else (0, 0, 0, 0))"
  by (simp add: active_rows_def Let_def nth_append)

lemma sort_router:
  "\<exists>t. bubble_sort rtable_swap (rtable rs) = Some t \<and> mset t = mset (rtable rs) \<and> routes_sorted t"
  using routes.sort_correct by (auto simp: routes_sorted_def)

text \<open>Every change of the table ends in the same way.\<close>

lemma trigger_rtable_modified_cases:
  "\<exists>t. mset t = mset (rtable rs) \<and> routes_sorted t \<and>
     trigger_rtable_modified rs =
       (if is_netfpga rs
        then if \<forall>e\<in>set (take 32 (filter rt_is_active t)). has_port e
             then Some (rs\<lparr>rtable := t, regs := regs rs @ rows_log 0 (active_rows 32 t)\<rparr>) else None
        else Some (rs\<lparr>rtable := t\<rparr>))"
proof -
  obtain t where "bubble_sort rtable_swap (rtable rs) = Some t" "mset t = mset (rtable rs)" "routes_sorted t"
    using sort_router by blast
  then show ?thesis
    by (intro exI[of _ t]) (auto simp: trigger_rtable_modified_def write_rtable_to_hw_log Let_def)
qed

lemma trigger_rtable_modified_returns:
  assumes "is_netfpga rs \<Longrightarrow> \<forall>e\<in>set (rtable rs). rt_is_active e \<longrightarrow> has_port e"
  obtains t log where "trigger_rtable_modified rs = Some (rs\<lparr>rtable := t, regs := regs rs @ log\<rparr>)"
    "mset t = mset (rtable rs)" "routes_sorted t"
    "log = (if is_netfpga rs then rows_log 0 (active_rows 32 t) else [])"
proof -
  obtain t where t: "mset t = mset (rtable rs)" "routes_sorted t"
    "trigger_rtable_modified rs =
       (if is_netfpga rs
        then if \<forall>e\<in>set (take 32 (filter rt_is_active t)). has_port e
             then Some (rs\<lparr>rtable := t, regs := regs rs @ rows_log 0 (active_rows 32 t)\<rparr>) else None
        else Some (rs\<lparr>rtable := t\<rparr>))"
    using trigger_rtable_modified_cases by blast
  have "set t = set (rtable rs)" using t(1) by (metis set_mset_mset)
  then have "\<forall>e\<in>set (take 32 (filter rt_is_active t)). has_port e" if "is_netfpga rs"
    using assms[OF that] by (auto dest!: in_set_takeD)
  with t show thesis 
    by (intro that[where t = t and log = "if is_netfpga rs then rows_log 0 (active_rows 32 t) else []"]) auto
qed

section \<open>The changes themselves\<close>

definition on_iface :: "string \<Rightarrow> rtable_entry \<Rightarrow> bool" where
  "on_iface i e \<longleftrightarrow> strncmp_eq (rt_iface e) i (length i)"

lemma on_iface_active [simp]: "on_iface i (e\<lparr>rt_is_active := b\<rparr>) = on_iface i e"
  by (simp add: on_iface_def)

lemma deactivate_walk_eq:
  "deactivate_walk i t =
     map (\<lambda>e. if strncmp_eq (rt_iface e) i (length i) then e\<lparr>rt_is_active := False\<rparr> else e)
       (filter (\<lambda>e. strncmp_eq (rt_iface e) i (length i) \<longrightarrow> rt_is_static e) t)"
  by (induction i t rule: deactivate_walk.induct) auto

lemma trigger_ok:
  assumes "trigger_rtable_modified rs = Some rs'"
  shows "mset (rtable rs') = mset (rtable rs)" and "routes_sorted (rtable rs')"
    and "rs' = rs\<lparr>rtable := rtable rs', regs := regs rs'\<rparr>"
    and "regs rs' = regs rs @ (if is_netfpga rs then rows_log 0 (active_rows 32 (rtable rs')) else [])"
proof -
  obtain t where t: "mset t = mset (rtable rs)" "routes_sorted t"
    "trigger_rtable_modified rs =
       (if is_netfpga rs
        then if \<forall>e\<in>set (take 32 (filter rt_is_active t)). has_port e
             then Some (rs\<lparr>rtable := t, regs := regs rs @ rows_log 0 (active_rows 32 t)\<rparr>) else None
        else Some (rs\<lparr>rtable := t\<rparr>))"
    using trigger_rtable_modified_cases by blast
  from t(3) assms have rs': "rs' = rs\<lparr>rtable := t,
      regs := regs rs @ (if is_netfpga rs then rows_log 0 (active_rows 32 t) else [])\<rparr>"
    by (simp split: if_splits)
  with t(1,2) show "mset (rtable rs') = mset (rtable rs)" "routes_sorted (rtable rs')"
    "rs' = rs\<lparr>rtable := rtable rs', regs := regs rs'\<rparr>"
    "regs rs' = regs rs @ (if is_netfpga rs then rows_log 0 (active_rows 32 (rtable rs')) else [])"
    by simp_all
qed

lemma trigger_set: "trigger_rtable_modified rs = Some rs' \<Longrightarrow> set (rtable rs') = set (rtable rs)"
  using trigger_ok(1) by (metis set_mset_mset)

text \<open>One branch of the lookup: the row the hardware matches first is the row of the route found.\<close>

definition row_matches :: "u32 \<Rightarrow> hw_row \<Rightarrow> bool" where
  "row_matches d = (\<lambda>(i, m, g, p). i AND m = ntohl d AND m)"

lemma row_matches_route [simp]: "row_matches d (route_row e) \<longleftrightarrow> route_matches d e"
  by (simp add: row_matches_def route_row_def route_matches_def)

lemma find_active: "find (route_matches d) (filter rt_is_active t) = find (candidate d) t"
  by (induction t) (auto simp: candidate_def)

lemma first_row_is_lpm:
  assumes "routes_sorted t" and "\<forall>e\<in>set t. contiguous e" and "length (filter rt_is_active t) \<le> k"
    and "lpm_walk d t None (- 1) = Some e"
  shows "find (row_matches d) (active_rows k t) = Some (route_row e)"
proof -
  have "find (candidate d) t \<noteq> None"
    using assms(4) lpm_walk_None_iff[of d t] by (auto simp: find_None_set)
  then obtain r where r: "find (candidate d) t = Some r" by blast
  from sorted_find_is_lpm[OF assms(1,2) r] assms(4) have "r = e" by simp
  moreover have "find (row_matches d) (map route_row xs) = map_option route_row (find (route_matches d) xs)" for xs
    by (induction xs) auto
  ultimately show ?thesis
    using r assms(3) by (simp add: active_rows_def Let_def find_append find_active)
qed

section \<open>A table to evaluate on\<close>

definition route_ten :: rtable_entry where
  "route_ten = \<lparr>rt_ip = 10, rt_gw = 0, rt_mask = 255, rt_iface = ''eth1'', rt_is_static = True,
     rt_is_active = True\<rparr>"

definition ten_router :: router_state where
  "ten_router = idle_router\<lparr>rtable := [route_ten], is_netfpga := True\<rparr>"

lemma ten_contiguous: "contiguous route_ten"
  unfolding contiguous_def by (rule exI[of _ 8]) code_simp

lemma ten_has_port: "has_port route_ten"
  by code_simp

lemma ten_trigger:
  obtains rs' where "trigger_rtable_modified ten_router = Some rs'" "rtable rs' = [route_ten]"
    "get_next_hop rs' 32 (htonl 0x0A000005) = Some (htonl 0x0A000005, ''eth1'')"
proof -
  have "map_option (\<lambda>rs. (rtable rs, get_next_hop rs 32 (htonl 0x0A000005)))
      (trigger_rtable_modified ten_router) = Some ([route_ten], Some (htonl 0x0A000005, ''eth1''))"
    by code_simp
  then show thesis using that by (auto simp: map_option_case split: option.splits)
qed

section \<open>Properties\<close>

text \<open>
  C4. \<open>get_next_hop\<close> is a longest prefix match: it reports failure exactly when no active
  route covers the destination, and otherwise returns the gateway (the destination itself when
  the gateway is 0) and the interface of the first active route of maximal prefix length.
\<close>

theorem get_next_hop_lpm:
  "case get_next_hop rs len d of
     None \<Rightarrow> \<forall>e\<in>set (rtable rs). \<not> candidate d e
   | Some (hop, out) \<Rightarrow> \<exists>e. is_lpm d (rtable rs) e \<and>
       hop = (if rt_gw e = 0 then d else rt_gw e) \<and> out = take len (rt_iface e)"
  using lpm_walk_None_iff[of d "rtable rs"] lpm_walk_is_lpm[of d "rtable rs"]
  by (auto simp: get_next_hop_def strncpy_def split: option.splits)

theorem get_next_hop_lpm_witness:
  "get_next_hop ten_router 32 (htonl 0x0A000005) = Some (htonl 0x0A000005, ''eth1'') \<and>
   (\<exists>e. is_lpm (htonl 0x0A000005) (rtable ten_router) e \<and> ''eth1'' = take 32 (rt_iface e))"
proof -
  have hit: "get_next_hop ten_router 32 (htonl 0x0A000005) = Some (htonl 0x0A000005, ''eth1'')" by code_simp
  with get_next_hop_lpm[where rs = ten_router and len = 32 and d = "htonl 0x0A000005"] show ?thesis by auto
qed

text \<open>
  Sorting after a change always ends, also when the routes are mirrored into hardware,
  provided every active route names one of the eight ports. It permutes the table into
  the order (mask, address, static) from the largest down, and changes nothing else of the router
  but the hardware log.
\<close>

theorem trigger_sorts:
  assumes "is_netfpga rs \<Longrightarrow> \<forall>e\<in>set (rtable rs). rt_is_active e \<longrightarrow> has_port e"
  shows "\<exists>rs'. trigger_rtable_modified rs = Some rs' \<and> mset (rtable rs') = mset (rtable rs) \<and>
    routes_sorted (rtable rs') \<and> rs' = rs\<lparr>rtable := rtable rs', regs := regs rs'\<rparr> \<and>
    (\<not> is_netfpga rs \<longrightarrow> regs rs' = regs rs)"
proof -
  obtain t log where "trigger_rtable_modified rs = Some (rs\<lparr>rtable := t, regs := regs rs @ log\<rparr>)"
    "mset t = mset (rtable rs)" "routes_sorted t"
    "log = (if is_netfpga rs then rows_log 0 (active_rows 32 t) else [])"
    using trigger_rtable_modified_returns[OF assms] by blast
  then show ?thesis by simp
qed

theorem trigger_sorts_witness:
  "\<exists>rs'. trigger_rtable_modified ten_router = Some rs' \<and> routes_sorted (rtable rs')"
  using trigger_sorts[of ten_router] ten_has_port by (auto simp: ten_router_def)

text \<open>
  C16. After a change of the routing table on the NetFPGA, replaying the register writes gives a
  hardware table whose 32 rows are the first 32 active routes of the sorted software table, in that
  order and in host byte order, followed by zero rows, whatever the hardware held before.
\<close>

theorem hardware_mirrors_routes:
  assumes "is_netfpga rs" and "trigger_rtable_modified rs = Some rs'" and "n < 32"
  shows "\<exists>log. regs rs' = regs rs @ log \<and>
    replay_routes log latch tab n =
      (if n < length (filter rt_is_active (rtable rs'))
       then route_row (filter rt_is_active (rtable rs') ! n) else (0, 0, 0, 0))"
proof -
  from trigger_ok(4)[OF assms(2)] assms(1)
  have "regs rs' = regs rs @ rows_log 0 (active_rows 32 (rtable rs'))" by simp
  with route_table.replay_full[of "active_rows 32 (rtable rs')" n latch tab] assms(3)
  show ?thesis by (simp add: nth_active_rows)
qed

theorem hardware_mirrors_routes_witness:
  "\<exists>rs' log. trigger_rtable_modified ten_router = Some rs' \<and> regs rs' = log \<and>
     replay_routes log (1, 1, 1, 1) (\<lambda>_. (1, 1, 1, 1)) 0 = route_row route_ten"
proof -
  obtain rs' where t: "trigger_rtable_modified ten_router = Some rs'" "rtable rs' = [route_ten]"
    by (rule ten_trigger)
  have "is_netfpga ten_router" "regs ten_router = []" "rt_is_active route_ten" by code_simp+
  with hardware_mirrors_routes[of ten_router rs' 0 "(1, 1, 1, 1)" "\<lambda>_. (1, 1, 1, 1)"] t
  show ?thesis by auto
qed

text \<open>The hardware table that the writes of a change leave behind.\<close>

lemma trigger_replayed:
  assumes "is_netfpga rs" and "trigger_rtable_modified rs = Some rs'"
  obtains log where "regs rs' = regs rs @ log" "map (replay_routes log latch tab) [0..<32] = active_rows 32 (rtable rs')"
proof (rule that)
  show "regs rs' = regs rs @ rows_log 0 (active_rows 32 (rtable rs'))" using trigger_ok(4)[OF assms(2)] assms(1) by simp
  show "map (replay_routes (rows_log 0 (active_rows 32 (rtable rs'))) latch tab) [0..<32] = active_rows 32 (rtable rs')"
    by (rule nth_equalityI) (simp_all add: route_table.replay_full)
qed

lemma no_row_is_miss:
  assumes "lpm_walk d t None (- 1) = None" and "length (filter rt_is_active t) \<le> k"
  shows "find (row_matches d) (active_rows k t) = (if length (filter rt_is_active t) < k then Some (0, 0, 0, 0) else None)"
proof -
  have "find (row_matches d) (map route_row xs) = map_option route_row (find (route_matches d) xs)" for xs
    by (induction xs) auto
  moreover have "find (candidate d) t = None" using assms(1) lpm_walk_None_iff[of d t] by (auto simp: find_None_set)
  moreover have "row_matches d (0, 0, 0, 0)" by (simp add: row_matches_def)
  moreover have "find (row_matches d) (replicate n (0, 0, 0, 0)) = (if n = 0 then None else Some (0, 0, 0, 0))" for n
    using calculation(3) by (cases n) auto
  ultimately show ?thesis using assms(2) by (simp add: active_rows_def Let_def find_append find_active)
qed

text \<open>
  C11. Hardware and software forward alike. After a change of a routing table with prefix masks and at most 32 active routes on the NetFPGA, replay the register writes of the change, whatever the hardware
  held before: if \<open>get_next_hop\<close> finds a next hop for a destination, the first of the 32 hardware rows that matches it is the row of the route it chose; if it finds none,
  no row of a route matches, and the hardware stops at the first of the zero rows behind them, which has no output port, if there is one.
\<close>

theorem hardware_lookup_agrees:
  assumes "is_netfpga rs" and "trigger_rtable_modified rs = Some rs'" and "\<forall>e\<in>set (rtable rs). contiguous e"
    and "length (filter rt_is_active (rtable rs)) \<le> 32"
  shows "\<exists>log. regs rs' = regs rs @ log \<and>
    (case get_next_hop rs' len d of
       Some (hop, out) \<Rightarrow> \<exists>e. find (row_matches d) (map (replay_routes log latch tab) [0..<32]) = Some (route_row e) \<and>
         is_lpm d (rtable rs') e \<and> hop = (if rt_gw e = 0 then d else rt_gw e) \<and> out = take len (rt_iface e)
     | None \<Rightarrow> find (row_matches d) (map (replay_routes log latch tab) [0..<32]) =
         (if length (filter rt_is_active (rtable rs)) < 32 then Some (0, 0, 0, 0) else None))"
proof -
  obtain log where log: "regs rs' = regs rs @ log" "map (replay_routes log latch tab) [0..<32] = active_rows 32 (rtable rs')"
    using trigger_replayed[OF assms(1,2)] .
  have len: "length (filter rt_is_active (rtable rs')) = length (filter rt_is_active (rtable rs))"
    using length_filter_mset[OF trigger_ok(1)[OF assms(2)]] by simp
  show ?thesis
  proof (cases "lpm_walk d (rtable rs') None (- 1)")
    case None
    with no_row_is_miss[OF None, of 32] assms(4) log len show ?thesis by (auto simp: get_next_hop_def)
  next
    case (Some e)
    have "find (row_matches d) (active_rows 32 (rtable rs')) = Some (route_row e)"
      using first_row_is_lpm[OF trigger_ok(2)[OF assms(2)] _ _ Some] assms(3,4) len trigger_set[OF assms(2)] by simp
    with Some lpm_walk_is_lpm[OF Some] log show ?thesis by (auto simp: get_next_hop_def strncpy_def)
  qed
qed

theorem hardware_lookup_agrees_witness:
  "\<exists>rs' e. trigger_rtable_modified ten_router = Some rs' \<and>
     find (row_matches (htonl 0x0A000005)) (map (replay_routes (regs rs') (1, 1, 1, 1) (\<lambda>_. (1, 1, 1, 1))) [0..<32]) = Some (route_row e) \<and>
     ''eth1'' = take 32 (rt_iface e)"
proof -
  obtain rs' where t: "trigger_rtable_modified ten_router = Some rs'"
    "get_next_hop rs' 32 (htonl 0x0A000005) = Some (htonl 0x0A000005, ''eth1'')"
    by (rule ten_trigger)
  have "\<forall>e\<in>set (rtable ten_router). contiguous e" by (simp add: ten_router_def ten_contiguous)
  moreover have "length (filter rt_is_active (rtable ten_router)) \<le> 32" by (simp add: ten_router_def)
  moreover have "is_netfpga ten_router" "regs ten_router = []" by code_simp+
  ultimately show ?thesis
    using hardware_lookup_agrees[where rs = ten_router and rs' = rs' and len = 32 and d = "htonl 0x0A000005"
        and latch = "(1, 1, 1, 1)" and tab = "\<lambda>_. (1, 1, 1, 1)"] t by auto
qed

text \<open>
  \<open>add_route\<close> adds exactly one active static route, \<open>del_route\<close> removes exactly the routes with
  that destination and mask and returns how many there were; so deleting a route that was not there
  before undoes adding it, up to the order of the table.
\<close>

theorem del_add_route:
  assumes "add_route rs dest gw msk ifc = Some (ret, rs')" and "del_route rs' dest msk = Some (n, rs'')"
  shows "ret = 0 \<and>
    mset (rtable rs') = add_mset \<lparr>rt_ip = dest, rt_gw = gw, rt_mask = msk, rt_iface = take 32 ifc,
      rt_is_static = True, rt_is_active = True\<rparr> (mset (rtable rs)) \<and>
    mset (rtable rs'') = mset (filter (\<lambda>e. rt_ip e \<noteq> dest \<or> rt_mask e \<noteq> msk) (rtable rs)) \<and>
    n = 1 + int (length (filter (\<lambda>e. rt_ip e = dest \<and> rt_mask e = msk) (rtable rs)))"
proof -
  let ?e = "\<lparr>rt_ip = dest, rt_gw = gw, rt_mask = msk, rt_iface = take 32 ifc,
      rt_is_static = True, rt_is_active = True\<rparr>"
  from assms(1) have "trigger_rtable_modified (rs\<lparr>rtable := rtable rs @ [?e]\<rparr>) = Some rs'" and "ret = 0"
    by (auto simp: add_route_def strncpy_def split: bind_splits)
  moreover from trigger_ok(1)[OF this(1)] have add: "mset (rtable rs') = mset (?e # rtable rs)" by simp
  moreover from assms(2) have del: "trigger_rtable_modified (rs'\<lparr>rtable :=
      filter (\<lambda>e. rt_ip e \<noteq> dest \<or> rt_mask e \<noteq> msk) (rtable rs')\<rparr>) = Some rs''"
    and n: "n = int (length (filter (\<lambda>e. rt_ip e = dest \<and> rt_mask e = msk) (rtable rs')))"
    by (auto simp: del_route_def eq_commute split: bind_splits)
  moreover from trigger_ok(1)[OF del] add
  have "mset (rtable rs'') = mset (filter (\<lambda>e. rt_ip e \<noteq> dest \<or> rt_mask e \<noteq> msk) (rtable rs))"
    by simp
  ultimately show ?thesis
    using length_filter_mset[OF add, of "\<lambda>e. rt_ip e = dest \<and> rt_mask e = msk"] by simp
qed

theorem del_add_route_witness:
  "\<exists>ret rs' rs'' n. add_route idle_router 10 0 255 ''eth1'' = Some (ret, rs') \<and>
     del_route rs' 10 255 = Some (n, rs'') \<and> ret = 0 \<and> n = 1 \<and> rtable rs'' = []"
proof -
  have "(do { (r, rs) \<leftarrow> add_route idle_router 10 0 255 ''eth1''; del_route rs 10 255 }) \<noteq> None" by code_simp
  then obtain ret rs' n rs'' where "add_route idle_router 10 0 255 ''eth1'' = Some (ret, rs')"
    "del_route rs' 10 255 = Some (n, rs'')"
    by (auto split: bind_splits)
  with del_add_route[OF this] show ?thesis by (auto simp: idle_router_def)
qed

text \<open>
  Taking an interface down leaves no candidate route through it, keeps every route of the other
  interfaces, and bringing it up again restores exactly the static routes: the dynamic ones are gone.
\<close>

theorem deactivate_activate_routes:
  assumes "deactivate_routes rs i = Some (ret, rs')" and "activate_routes rs' i = Some (ret', rs'')"
  shows "(\<forall>e\<in>set (rtable rs'). on_iface i e \<longrightarrow> \<not> candidate d e) \<and>
    filter_mset (\<lambda>e. \<not> on_iface i e) (mset (rtable rs')) =
      filter_mset (\<lambda>e. \<not> on_iface i e) (mset (rtable rs)) \<and>
    mset (rtable rs'') = mset (map (\<lambda>e. if on_iface i e then e\<lparr>rt_is_active := True\<rparr> else e)
      (filter (\<lambda>e. on_iface i e \<longrightarrow> rt_is_static e) (rtable rs)))"
proof -
  let ?off = "\<lambda>e. if on_iface i e then e\<lparr>rt_is_active := False\<rparr> else e"
  let ?up = "\<lambda>e. if on_iface i e then e\<lparr>rt_is_active := True\<rparr> else e"
  let ?keep = "\<lambda>t. filter (\<lambda>e. on_iface i e \<longrightarrow> rt_is_static e) t"
  from assms(1) have "trigger_rtable_modified (rs\<lparr>rtable := map ?off (?keep (rtable rs))\<rparr>) = Some rs'"
    by (auto simp: deactivate_routes_def deactivate_walk_eq on_iface_def split: bind_splits)
  from trigger_ok(1)[OF this] have ms: "mset (rtable rs') = mset (map ?off (?keep (rtable rs)))" by simp
  then have "set (rtable rs') = set (map ?off (?keep (rtable rs)))" by (metis set_mset_mset)
  then have "\<forall>e\<in>set (rtable rs'). on_iface i e \<longrightarrow> \<not> candidate d e" by (auto simp: candidate_def)
  moreover have "filter (\<lambda>e. \<not> on_iface i e) (map ?off (?keep t)) = filter (\<lambda>e. \<not> on_iface i e) t" for t
    by (induction t) auto
  then have "filter_mset (\<lambda>e. \<not> on_iface i e) (mset (rtable rs')) =
      filter_mset (\<lambda>e. \<not> on_iface i e) (mset (rtable rs))"
    by (simp only: ms flip: mset_filter)
  moreover from assms(2) have "trigger_rtable_modified (rs'\<lparr>rtable := map ?up (rtable rs')\<rparr>) = Some rs''"
    by (auto simp: activate_routes_def on_iface_def split: bind_splits)
  from trigger_ok(1)[OF this] ms
  have up: "mset (rtable rs'') = image_mset ?up (mset (map ?off (?keep (rtable rs))))" by simp
  have "map ?up (map ?off (?keep t)) = map ?up (?keep t)" for t by (induction t) auto
  with up have "mset (rtable rs'') = mset (map ?up (?keep (rtable rs)))" by (simp only: flip: mset_map)
  ultimately show ?thesis by blast
qed

theorem deactivate_activate_routes_witness:
  "\<exists>ret rs' ret' rs''. deactivate_routes ten_router ''eth1'' = Some (ret, rs') \<and>
     activate_routes rs' ''eth1'' = Some (ret', rs'') \<and> rtable rs'' = [route_ten]"
proof -
  have "(do { (r, rs) \<leftarrow> deactivate_routes ten_router ''eth1''; activate_routes rs ''eth1'' }) \<noteq> None"
    by code_simp
  then obtain ret rs' ret' rs'' where "deactivate_routes ten_router ''eth1'' = Some (ret, rs')"
    "activate_routes rs' ''eth1'' = Some (ret', rs'')"
    by (auto split: bind_splits)
  with deactivate_activate_routes[OF this, of 10] show ?thesis
    by (auto simp: ten_router_def route_ten_def on_iface_def)
qed

end
