(* ===== verification/Iface.thy ===== *)
theory Iface
  imports Rtable
begin

text \<open>
  The interface table, \<^verbatim>\<open>or_iface.c\<close>, with \<open>get_interface\<close> and \<open>find_srcip\<close> of
  \<^verbatim>\<open>or_main.c\<close>: lookups, changes of an address, the neighbours of an interface and the
  MAC registers of the hardware. Bringing interfaces up and down is in \<open>Iface_Control\<close>, because
  it floods link states.
\<close>

section \<open>Lookup and update\<close>

definition iface_match_ip :: "router_state \<Rightarrow> u32 \<Rightarrow> bool" where
  "iface_match_ip rs ip = list_ex (\<lambda>entry. ie_is_active entry \<and> ie_ip entry = ip) (if_list rs)"

definition named :: "string \<Rightarrow> iface_entry \<Rightarrow> bool" where
  "named interface sr_if \<longleftrightarrow> strncmp_eq interface (ie_name sr_if) SR_NAMELEN"

definition get_iface :: "router_state \<Rightarrow> string \<Rightarrow> iface_entry option" where
  "get_iface rs interface = find (named interface) (if_list rs)"

definition get_interface :: "router_state \<Rightarrow> string \<Rightarrow> iface_entry option" where
  "get_interface rs name = find (\<lambda>vns_if. strncmp_eq (ie_name vns_if) name SR_NAMELEN) (if_list rs)"

text \<open>A write through the pointer that \<open>get_iface\<close> returned.\<close>

definition set_iface :: "router_state \<Rightarrow> string \<Rightarrow> (iface_entry \<Rightarrow> iface_entry) \<Rightarrow> router_state" where
  "set_iface rs interface f = rs\<lparr>if_list := update_first (named interface) f (if_list rs)\<rparr>"

definition iface_update :: "router_state \<Rightarrow> string \<Rightarrow> u32 \<Rightarrow> u32 \<Rightarrow> int \<times> router_state" where
  "iface_update rs interface ip msk =
     (case get_iface rs interface of
        None \<Rightarrow> (0, rs)
      | Some _ \<Rightarrow> (1, set_iface rs interface (\<lambda>iface. iface\<lparr>ie_ip := ip, ie_mask := msk\<rparr>)))"

definition iface_is_active :: "router_state \<Rightarrow> string \<Rightarrow> (bool \<times> router_state) outcome" where
  "iface_is_active rs interface = do {
     rs \<leftarrow> acquire IfList Rd rs;
     let retval = (case get_iface rs interface of None \<Rightarrow> False | Some entry \<Rightarrow> ie_is_active entry);
     rs \<leftarrow> release IfList rs;
     Some (retval, rs) }"

definition get_nbr_by_rid :: "iface_entry \<Rightarrow> u32 \<Rightarrow> nbr_router option" where
  "get_nbr_by_rid iface rid = find (\<lambda>nbr. nbr_router_id nbr = rid) (ie_nbr_routers iface)"

text \<open>\<open>None\<close> is the failed assertion: a route through an interface the router does not have.\<close>

definition find_srcip :: "router_state \<Rightarrow> u32 \<Rightarrow> (u32 \<times> router_state) outcome" where
  "find_srcip rs dest = do {
     rs \<leftarrow> acquire IfList Rd rs;
     rs \<leftarrow> acquire RtableLock Rd rs;
     srcip \<leftarrow> (case get_next_hop rs 32 dest of
                 None \<Rightarrow> Some 0
               | Some (_, iface) \<Rightarrow> map_option ie_ip (get_iface rs iface));
     rs \<leftarrow> release RtableLock rs;
     rs \<leftarrow> release IfList rs;
     Some (srcip, rs) }"

section \<open>MAC registers\<close>

definition mac_hi :: "mac \<Rightarrow> u32" where
  "mac_hi m = (case m of Mac a b _ _ _ _ \<Rightarrow> push_bit 8 (ucast a) OR ucast b)"

definition mac_lo :: "mac \<Rightarrow> u32" where
  "mac_lo m = (case m of Mac _ _ c d e f \<Rightarrow>
     push_bit 24 (ucast c) OR push_bit 16 (ucast d) OR push_bit 8 (ucast e) OR ucast f)"

definition write_hw_iface_mac :: "router_state \<Rightarrow> nat \<Rightarrow> u32 \<Rightarrow> u32 \<Rightarrow> router_state" where
  "write_hw_iface_mac rs port hi lo =
     (if port \<le> 3 then writeReg (MAC_LO port) lo (writeReg (MAC_HI port) hi rs) else rs)"

text \<open>The contents of a register after the writes of the log, from the contents at reset.\<close>

definition reg_value :: "(hw_reg \<Rightarrow> u32) \<Rightarrow> (hw_reg \<times> u32) list \<Rightarrow> hw_reg \<Rightarrow> u32" where
  "reg_value init log = fold (\<lambda>(r, v) m. m(r := v)) log init"

definition read_hw_iface_mac :: "(hw_reg \<Rightarrow> u32) \<Rightarrow> nat \<Rightarrow> u32 \<times> u32" where
  "read_hw_iface_mac readReg port =
     (if port \<le> 3 then (readReg (MAC_HI port), readReg (MAC_LO port)) else (0, 0))"

definition set_hw_iface :: "router_state \<Rightarrow> nat \<Rightarrow> u32 \<Rightarrow> router_state" where
  "set_hw_iface rs queue command =
     (if queue \<le> 3 then writeReg (MAC_GRP_CONTROL queue) command rs else rs)"

section \<open>Lemmas\<close>

lemma get_interface_eq: "get_interface rs name = get_iface rs name"
  by (simp add: get_interface_def get_iface_def named_def[abs_def] strncmp_eq_sym)

lemma get_iface_named: "get_iface rs n = Some ie \<Longrightarrow> named n ie \<and> ie \<in> set (if_list rs)"
  unfolding get_iface_def by (auto dest: find_Some_iff_set)

lemma get_iface_set_iface:
  assumes "\<And>ie. ie_name (f ie) = ie_name ie"
  shows "get_iface (set_iface rs n f) m =
    (if take 32 n = take 32 m then map_option f (get_iface rs m) else get_iface rs m)"
proof -
  have "named n ie = named m ie" if "take 32 n = take 32 m" for ie
    using that by (simp add: named_def strncmp_eq_def)
  moreover have "named n ie \<Longrightarrow> \<not> named m ie" if "take 32 n \<noteq> take 32 m" for ie
    using that by (auto simp: named_def strncmp_eq_def)
  ultimately show ?thesis
    using assms by (auto simp: get_iface_def set_iface_def named_def
        intro!: find_update_first find_update_first_other)
qed

text \<open>The six bytes of an address can be read back from the two registers.\<close>

definition mac_of :: "u32 \<times> u32 \<Rightarrow> mac" where
  "mac_of = (\<lambda>(hi, lo). Mac (byteN 1 hi) (byteN 0 hi) (byteN 3 lo) (byteN 2 lo) (byteN 1 lo) (byteN 0 lo))"

lemma mac_hi_le32: "mac_hi (Mac a b c d e f) = le32 b a 0 0"
  by (simp add: mac_hi_def le32_def or.commute)

lemma mac_lo_le32: "mac_lo (Mac a b c d e f) = le32 f e d c"
  by (simp add: mac_lo_def le32_def ac_simps)

lemma mac_of_words [simp]: "mac_of (mac_hi m, mac_lo m) = m"
  by (cases m) (simp add: mac_of_def mac_hi_le32 mac_lo_le32)

lemma read_write_iface_mac:
  "port \<le> 3 \<Longrightarrow> read_hw_iface_mac (reg_value init (regs (write_hw_iface_mac rs port hi lo))) q =
     (if q = port then (hi, lo) else read_hw_iface_mac (reg_value init (regs rs)) q)"
  by (auto simp: read_hw_iface_mac_def write_hw_iface_mac_def reg_value_def)

end
