(* ===== verification/Arp.thy ===== *)
theory Arp
  imports Iface
begin

text \<open>
  ARP and the sending side, \<^verbatim>\<open>or_arp.c\<close> with \<open>send_packet\<close> and \<open>send_ip\<close> of \<^verbatim>\<open>or_main.c\<close>: the cache of
  hardware addresses and its copy in hardware, the queue of packets that wait for an address,
  requests and replies. The periodic thread is in \<open>Arp_Thread\<close>, because it sends ICMP errors.
\<close>

section \<open>Sending a frame\<close>

text \<open>Short frames are padded to 60 bytes. The driver's return value comes from \<open>tx_result\<close>.\<close>

definition pad_frame :: "byte list \<Rightarrow> byte list" where
  "pad_frame packet = (if length packet < 60 then packet @ replicate (60 - length packet) 0 else packet)"

definition send_packet :: "router_state \<Rightarrow> byte list \<Rightarrow> string \<Rightarrow> (int \<times> router_state) outcome" where
  "send_packet rs packet iface = do {
     rs \<leftarrow> acquire WriteLock Wr rs;
     let result = tx_result rs (length (sent rs));
     let rs = rs\<lparr>sent := sent rs @ [(iface, pad_frame packet)]\<rparr>;
     rs \<leftarrow> release WriteLock rs;
     Some (result, rs) }"

section \<open>The cache\<close>

definition in_arp_cache :: "router_state \<Rightarrow> u32 \<Rightarrow> arp_cache_entry option" where
  "in_arp_cache rs next_hop = find (\<lambda>arp_entry. next_hop = ac_ip arp_entry) (arp_cache rs)"

definition get_from_arp_cache :: "router_state \<Rightarrow> u32 \<Rightarrow> arp_cache_entry option" where
  "get_from_arp_cache rs next_hop = in_arp_cache rs next_hop"

abbreviation (input) ARP_TABLE_DEPTH :: nat where "ARP_TABLE_DEPTH \<equiv> 32"

definition write_arp_cache_entry_to_hw ::
  "arp_cache_entry option \<Rightarrow> nat \<Rightarrow> router_state \<Rightarrow> router_state" where
  "write_arp_cache_entry_to_hw entry row rs =
     writeReg ARP_TABLE_WR_ADDR (word_of_nat row)
       (case entry of
          Some e \<Rightarrow> writeReg ARP_TABLE_ENTRY_NEXT_HOP_IP (ntohl (ac_ip e))
                      (writeReg ARP_TABLE_ENTRY_MAC_LO (mac_lo (ac_arp_ha e))
                        (writeReg ARP_TABLE_ENTRY_MAC_HI (mac_hi (ac_arp_ha e)) rs))
        | None \<Rightarrow> writeReg ARP_TABLE_ENTRY_NEXT_HOP_IP 0
                    (writeReg ARP_TABLE_ENTRY_MAC_LO 0 (writeReg ARP_TABLE_ENTRY_MAC_HI 0 rs)))"

text \<open>The first loop writes the static entries and leaves \<open>i\<close> at the next free row.\<close>

fun write_arp_static :: "nat \<Rightarrow> arp_cache_entry list \<Rightarrow> router_state \<Rightarrow> nat \<times> router_state" where
  "write_arp_static i [] rs = (i, rs)"
| "write_arp_static i (entry # cur) rs =
     (if i < ARP_TABLE_DEPTH
      then if ac_is_static entry \<noteq> 0
           then write_arp_static (Suc i) cur (write_arp_cache_entry_to_hw (Some entry) i rs)
           else write_arp_static i cur rs
      else (i, rs))"

text \<open>The second loop writes the other entries and then zero rows.\<close>

function write_arp_rest :: "nat \<Rightarrow> arp_cache_entry list \<Rightarrow> router_state \<Rightarrow> router_state" where
  "write_arp_rest i cur rs =
     (if i < ARP_TABLE_DEPTH
      then case cur of
             entry # cur' \<Rightarrow>
               (if ac_is_static entry = 0
                then write_arp_rest (Suc i) cur' (write_arp_cache_entry_to_hw (Some entry) i rs)
                else write_arp_rest i cur' rs)
           | [] \<Rightarrow> write_arp_rest (Suc i) [] (write_arp_cache_entry_to_hw None i rs)
      else rs)"
  by pat_completeness auto
termination
  by (relation "measures [\<lambda>(i, cur, rs). length cur, \<lambda>(i, cur, rs). ARP_TABLE_DEPTH - i]") auto

definition write_arp_cache_to_hw :: "router_state \<Rightarrow> router_state" where
  "write_arp_cache_to_hw rs =
     (case write_arp_static 0 (arp_cache rs) rs of (i, rs) \<Rightarrow> write_arp_rest i (arp_cache rs) rs)"

definition trigger_arp_cache_modified :: "router_state \<Rightarrow> router_state" where
  "trigger_arp_cache_modified rs = (if is_netfpga rs then write_arp_cache_to_hw rs else rs)"

definition update_arp_cache :: "router_state \<Rightarrow> u32 \<Rightarrow> mac \<Rightarrow> int \<Rightarrow> router_state" where
  "update_arp_cache rs remote_ip remote_mac is_static =
     (let ttl = (if is_static = 1 then 0 else clock rs);
          c = (case in_arp_cache rs remote_ip of
                 Some _ \<Rightarrow> update_first (\<lambda>e. remote_ip = ac_ip e)
                   (\<lambda>e. e\<lparr>ac_arp_ha := remote_mac, ac_TTL := ttl, ac_is_static := is_static\<rparr>)
                   (arp_cache rs)
               | None \<Rightarrow> arp_cache rs @
                   [\<lparr>ac_ip = remote_ip, ac_arp_ha = remote_mac, ac_TTL = ttl, ac_is_static = is_static\<rparr>])
      in trigger_arp_cache_modified (rs\<lparr>arp_cache := c\<rparr>))"

definition del_arp_cache :: "router_state \<Rightarrow> u32 \<Rightarrow> int \<times> router_state" where
  "del_arp_cache rs ip =
     (int (length (filter (\<lambda>e. ac_ip e = ip) (arp_cache rs))),
      rs\<lparr>arp_cache := filter (\<lambda>e. ac_ip e \<noteq> ip) (arp_cache rs)\<rparr>)"

definition arp_expired :: "router_state \<Rightarrow> arp_cache_entry \<Rightarrow> bool" where
  "arp_expired rs e \<longleftrightarrow> ac_is_static e \<noteq> 1 \<and> clock rs - ac_TTL e > uint (arp_ttl rs)"

definition expire_arp_cache :: "router_state \<Rightarrow> router_state" where
  "expire_arp_cache rs =
     (let timedout_entry = list_ex (arp_expired rs) (arp_cache rs);
          rs = rs\<lparr>arp_cache := filter (\<lambda>e. \<not> arp_expired rs e) (arp_cache rs)\<rparr>
      in if timedout_entry then trigger_arp_cache_modified rs else rs)"

section \<open>Requests and replies\<close>

definition send_arp_request :: "router_state \<Rightarrow> u32 \<Rightarrow> string \<Rightarrow> router_state outcome" where
  "send_arp_request rs tip interface = do {
     inter \<leftarrow> get_interface rs interface;
     let request_packet = replicate (14 + 28) 0;
     eth \<leftarrow> get_eth_hdr request_packet;
     request_packet \<leftarrow> put_eth_hdr request_packet
       (populate_eth_hdr eth (Some (Mac 0xFF 0xFF 0xFF 0xFF 0xFF 0xFF)) (ie_addr inter) ETH_TYPE_ARP);
     arp \<leftarrow> get_arp_hdr request_packet;
     request_packet \<leftarrow> put_arp_hdr request_packet
       (populate_arp_hdr arp None tip (ie_addr inter) (ie_ip inter) ARP_OP_REQUEST);
     (_, rs) \<leftarrow> send_packet rs request_packet interface;
     Some rs }"

text \<open>The reply is built in memory that is not cleared, but both headers are written in full.\<close>

definition send_arp_reply :: "router_state \<Rightarrow> byte list \<Rightarrow> iface_entry \<Rightarrow> router_state outcome" where
  "send_arp_reply rs packet iface = do {
     eth \<leftarrow> get_eth_hdr packet;
     arp_req \<leftarrow> get_arp_hdr packet;
     let new_packet = replicate (14 + 28) 0;
     new_eth \<leftarrow> get_eth_hdr new_packet;
     new_packet \<leftarrow> put_eth_hdr new_packet
       (populate_eth_hdr new_eth (Some (eth_shost eth)) (ie_addr iface) ETH_TYPE_ARP);
     new_arp \<leftarrow> get_arp_hdr new_packet;
     new_packet \<leftarrow> put_arp_hdr new_packet
       (populate_arp_hdr new_arp (Some (arp_sha arp_req)) (arp_sip arp_req) (ie_addr iface) (ie_ip iface)
          ARP_OP_REPLY);
     (_, rs) \<leftarrow> send_packet rs new_packet (ie_name iface);
     Some rs }"

section \<open>The queue\<close>

definition get_from_arp_queue :: "router_state \<Rightarrow> u32 \<Rightarrow> arp_queue_entry option" where
  "get_from_arp_queue rs next_hop = find (\<lambda>aqe. aq_next_hop aqe = next_hop) (arp_queue rs)"

definition arp_queue_entry_add_packet :: "byte list \<Rightarrow> arp_queue_entry \<Rightarrow> arp_queue_entry" where
  "arp_queue_entry_add_packet packet aqe = aqe\<lparr>aq_head := aq_head aqe @ [packet]\<rparr>"

definition arp_queue_add ::
  "router_state \<Rightarrow> byte list \<Rightarrow> string \<Rightarrow> u32 \<Rightarrow> router_state outcome" where
  "arp_queue_add rs packet out_iface_name next_hop =
     (case get_from_arp_queue rs next_hop of
        None \<Rightarrow> do {
          let aqe = \<lparr>aq_out_iface_name = strncpy out_iface_name IF_LEN, aq_next_hop = next_hop,
                     aq_requests = 1, aq_last_req_time = clock rs, aq_head = []\<rparr>;
          rs \<leftarrow> send_arp_request rs next_hop out_iface_name;
          Some (rs\<lparr>arp_queue := arp_queue rs @ [arp_queue_entry_add_packet packet aqe]\<rparr>) }
      | Some _ \<Rightarrow>
          Some (rs\<lparr>arp_queue := update_first (\<lambda>aqe. aq_next_hop aqe = next_hop)
                     (arp_queue_entry_add_packet packet) (arp_queue rs)\<rparr>))"

definition send_ip :: "router_state \<Rightarrow> byte list \<Rightarrow> u32 \<Rightarrow> string \<Rightarrow> (int \<times> router_state) outcome" where
  "send_ip rs packet next_hop out_iface =
     (case get_from_arp_cache rs next_hop of
        Some ace \<Rightarrow> do {
          packet \<leftarrow> mem_st packet 0 (mac_bytes (ac_arp_ha ace));
          (r, rs) \<leftarrow> send_packet rs packet out_iface;
          Some (if r \<noteq> 0 then 1 else 0, rs) }
      | None \<Rightarrow> do {
          rs \<leftarrow> arp_queue_add rs packet out_iface next_hop;
          Some (0, rs) })"

text \<open>
  The inner loop of \<open>send_queued_packets\<close> and \<open>update_arp_queue\<close> on the queue entry at position \<open>i\<close>.
  The current packet is always the head of its list; whether there is a next one is read before
  sending, which may append to the same list.
\<close>

definition set_entry :: "nat \<Rightarrow> (arp_queue_entry \<Rightarrow> arp_queue_entry) \<Rightarrow> router_state \<Rightarrow> router_state" where
  "set_entry i f rs = rs\<lparr>arp_queue := (arp_queue rs)[i := f (arp_queue rs ! i)]\<rparr>"

definition drop_entry :: "nat \<Rightarrow> router_state \<Rightarrow> router_state" where
  "drop_entry i rs = rs\<lparr>arp_queue := take i (arp_queue rs) @ drop (Suc i) (arp_queue rs)\<rparr>"

partial_function (option) send_entry_packets :: "nat \<Rightarrow> router_state \<Rightarrow> router_state outcome" where
  "send_entry_packets i rs =
     (case aq_head (arp_queue rs ! i) of
        [] \<Rightarrow> Some rs
      | packet # next_packets \<Rightarrow> do {
          (r, rs) \<leftarrow> send_ip rs packet (aq_next_hop (arp_queue rs ! i)) (aq_out_iface_name (arp_queue rs ! i));
          let rs = set_entry i (\<lambda>aqe. aqe\<lparr>aq_head := tl (aq_head aqe)\<rparr>) rs;
          if next_packets = [] then Some rs else send_entry_packets i rs })"

partial_function (option) send_queued_from :: "u32 \<Rightarrow> nat \<Rightarrow> router_state \<Rightarrow> router_state outcome" where
  "send_queued_from dest_ip i rs =
     (if i < length (arp_queue rs)
      then let more = Suc i < length (arp_queue rs)
           in if dest_ip = aq_next_hop (arp_queue rs ! i)
              then do {
                rs \<leftarrow> send_entry_packets i rs;
                let rs = drop_entry i rs;
                if more then send_queued_from dest_ip i rs else Some rs }
              else send_queued_from dest_ip (Suc i) rs
      else Some rs)"

declare send_entry_packets.simps [code] send_queued_from.simps [code]

definition send_queued_packets :: "router_state \<Rightarrow> u32 \<Rightarrow> router_state outcome" where
  "send_queued_packets rs dest_ip = send_queued_from dest_ip 0 rs"

definition update_arp_queue :: "router_state \<Rightarrow> arp_hdr \<Rightarrow> router_state outcome" where
  "update_arp_queue rs arp_header = send_queued_from (arp_sip arp_header) 0 rs"

section \<open>Handlers\<close>

definition process_arp_request :: "router_state \<Rightarrow> byte list \<Rightarrow> router_state outcome" where
  "process_arp_request rs packet = do {
     arp \<leftarrow> get_arp_hdr packet;
     rs \<leftarrow> acquire IfList Rd rs;
     rs \<leftarrow> (case find (\<lambda>ie. ie_ip ie = arp_tip arp) (if_list rs) of
              Some iface \<Rightarrow> send_arp_reply rs packet iface
            | None \<Rightarrow> Some rs);
     release IfList rs }"

definition process_arp_reply :: "router_state \<Rightarrow> byte list \<Rightarrow> router_state outcome" where
  "process_arp_reply rs packet = do {
     arp \<leftarrow> get_arp_hdr packet;
     rs \<leftarrow> acquire ArpCache Wr rs;
     let rs = update_arp_cache rs (arp_sip arp) (arp_sha arp) 0;
     rs \<leftarrow> release ArpCache rs;
     rs \<leftarrow> acquire ArpCache Rd rs;
     rs \<leftarrow> acquire ArpQueue Wr rs;
     rs \<leftarrow> send_queued_packets rs (arp_sip arp);
     rs \<leftarrow> release ArpQueue rs;
     release ArpCache rs }"

definition process_arp_packet :: "router_state \<Rightarrow> byte list \<Rightarrow> router_state outcome" where
  "process_arp_packet rs packet = do {
     arp_packet \<leftarrow> get_arp_hdr packet;
     if ntohs (arp_op arp_packet) = ARP_OP_REQUEST then process_arp_request rs packet
     else if ntohs (arp_op arp_packet) = ARP_OP_REPLY then process_arp_reply rs packet
     else Some rs }"

section \<open>Frames\<close>

lemma send_packet_eq:
  "lock_free WriteLock rs \<Longrightarrow>
   send_packet rs p i = Some (tx_result rs (length (sent rs)), rs\<lparr>sent := sent rs @ [(i, pad_frame p)]\<rparr>)"
  by (simp add: send_packet_def acquire_free Let_def release_def)

definition arp_frame :: "mac \<Rightarrow> mac \<Rightarrow> u16 \<Rightarrow> mac \<Rightarrow> u32 \<Rightarrow> mac \<Rightarrow> u32 \<Rightarrow> byte list" where
  "arp_frame dst src op sha sip tha tip =
     enc_eth \<lparr>eth_dhost = dst, eth_shost = src, eth_type = htons ETH_TYPE_ARP\<rparr> @
     enc_arp \<lparr>arp_hrd = htons ARP_HRD_ETHERNET, arp_pro = htons ARP_PRO_IP, arp_hln = 6, arp_pln = 4,
       arp_op = htons op, arp_sha = sha, arp_sip = sip, arp_tha = tha, arp_tip = tip\<rparr>"

abbreviation mac_bcast :: mac where "mac_bcast \<equiv> Mac 0xFF 0xFF 0xFF 0xFF 0xFF 0xFF"

abbreviation mac_zero :: mac where "mac_zero \<equiv> Mac 0 0 0 0 0 0"

definition arp_request_frame :: "iface_entry \<Rightarrow> u32 \<Rightarrow> byte list" where
  "arp_request_frame ie tip =
     pad_frame (arp_frame mac_bcast (ie_addr ie) ARP_OP_REQUEST (ie_addr ie) (ie_ip ie) mac_zero tip)"

definition arp_reply_frame :: "iface_entry \<Rightarrow> mac \<Rightarrow> mac \<Rightarrow> u32 \<Rightarrow> byte list" where
  "arp_reply_frame ie dst tha tip =
     pad_frame (arp_frame dst (ie_addr ie) ARP_OP_REPLY (ie_addr ie) (ie_ip ie) tha tip)"

lemma replicate_42: "replicate (14 + 28) (0::byte) = [] @ replicate 14 0 @ replicate 28 0"
  by (simp flip: replicate_add)

lemma get_arp_hdr_at:
  "ntohs (eth_type h) = ETH_TYPE_ARP \<Longrightarrow> length b = 28 \<Longrightarrow> get_arp_hdr (enc_eth h @ b @ c) = Some (dec_arp b)"
  using eth_wire.get_at[of "[]" 0 "enc_eth h" "b @ c"] arp_wire.get_at[of "enc_eth h" 14 b c]
  by (simp add: get_arp_hdr_def get_eth_hdr_def eth_wire.enc_length eth_wire.dec_enc)

lemma zero_headers:
  "dec_eth (replicate 14 0) = \<lparr>eth_dhost = mac_zero, eth_shost = mac_zero, eth_type = 0\<rparr>"
  "dec_arp (replicate 28 0) = \<lparr>arp_hrd = 0, arp_pro = 0, arp_hln = 0, arp_pln = 0, arp_op = 0,
     arp_sha = mac_zero, arp_sip = 0, arp_tha = mac_zero, arp_tip = 0\<rparr>"
  by (simp_all add: dec_eth_def dec_arp_def codec le16_def le32_def)

lemma build_arp_frame:
  "do { eth \<leftarrow> get_eth_hdr (replicate (14 + 28) 0);
        p \<leftarrow> put_eth_hdr (replicate (14 + 28) 0) (populate_eth_hdr eth (Some dst) src ETH_TYPE_ARP);
        arp \<leftarrow> get_arp_hdr p;
        p \<leftarrow> put_arp_hdr p (populate_arp_hdr arp tha tip sha sip op);
        f p } =
   f (arp_frame dst src op sha sip (case tha of None \<Rightarrow> mac_zero | Some t \<Rightarrow> t) tip)"
  unfolding replicate_42 hdr_defs
  by (simp add: eth_wire.get_at[of "[]", simplified] eth_wire.put_at[of "[]", simplified] zero_headers
      get_arp_hdr_at[of _ _ "[]", simplified] arp_wire.put_at[of _ _ _ "[]", simplified] eth_wire.enc_length
      populate_eth_hdr_def populate_arp_hdr_def arp_frame_def split: option.splits)

lemma send_arp_request_eq:
  "lock_free WriteLock rs \<Longrightarrow> send_arp_request rs tip i =
     (case get_iface rs i of None \<Rightarrow> None
      | Some ie \<Rightarrow> Some (rs\<lparr>sent := sent rs @ [(i, arp_request_frame ie tip)]\<rparr>))"
  unfolding send_arp_request_def get_interface_eq Let_def build_arp_frame
  by (simp add: send_packet_eq arp_request_frame_def split: option.split)

lemma send_arp_reply_eq:
  "lock_free WriteLock rs \<Longrightarrow> get_eth_hdr p = Some eth \<Longrightarrow> get_arp_hdr p = Some arp \<Longrightarrow>
   send_arp_reply rs p ie =
     Some (rs\<lparr>sent := sent rs @ [(ie_name ie, arp_reply_frame ie (eth_shost eth) (arp_sha arp) (arp_sip arp))]\<rparr>)"
  unfolding send_arp_reply_def Let_def build_arp_frame
  by (simp add: send_packet_eq arp_reply_frame_def)

section \<open>The hardware copy of the cache\<close>

text \<open>A row of the hardware table is the two words of the address and the next hop.\<close>

type_synonym arp_row = "u32 \<times> u32 \<times> u32"

fun replay_arp :: "(hw_reg \<times> u32) list \<Rightarrow> arp_row \<Rightarrow> (nat \<Rightarrow> arp_row) \<Rightarrow> (nat \<Rightarrow> arp_row)" where
  "replay_arp [] latch tab = tab"
| "replay_arp ((r, v) # ws) (hi, lo, ip) tab =
     (case r of
        ARP_TABLE_ENTRY_MAC_HI \<Rightarrow> replay_arp ws (v, lo, ip) tab
      | ARP_TABLE_ENTRY_MAC_LO \<Rightarrow> replay_arp ws (hi, v, ip) tab
      | ARP_TABLE_ENTRY_NEXT_HOP_IP \<Rightarrow> replay_arp ws (hi, lo, v) tab
      | ARP_TABLE_WR_ADDR \<Rightarrow> replay_arp ws (hi, lo, ip) (tab(unat v := (hi, lo, ip)))
      | _ \<Rightarrow> replay_arp ws (hi, lo, ip) tab)"

definition arp_row_log :: "nat \<Rightarrow> arp_row \<Rightarrow> (hw_reg \<times> u32) list" where
  "arp_row_log j = (\<lambda>(hi, lo, ip). [(ARP_TABLE_ENTRY_MAC_HI, hi), (ARP_TABLE_ENTRY_MAC_LO, lo),
     (ARP_TABLE_ENTRY_NEXT_HOP_IP, ip), (ARP_TABLE_WR_ADDR, word_of_nat j)])"

interpretation arp_table: hw_table arp_row_log replay_arp
proof unfold_locales
  show "replay_arp (arp_row_log j r @ ws) latch tab = replay_arp ws r (tab(j := r))" if "j < 2 ^ 32" for j r ws latch tab
    using that by (cases r; cases latch) (simp add: arp_row_log_def unat_of_nat take_bit_nat_eq_self)
qed simp

definition arp_row :: "arp_cache_entry \<Rightarrow> arp_row" where
  "arp_row e = (mac_hi (ac_arp_ha e), mac_lo (ac_arp_ha e), ntohl (ac_ip e))"

text \<open>Static entries come first, then the learnt ones, then zero rows, up to the depth of the table.\<close>

definition arp_rows :: "arp_cache_entry list \<Rightarrow> arp_row list" where
  "arp_rows c = take 32 (map arp_row (filter (\<lambda>e. ac_is_static e \<noteq> 0) c @
     filter (\<lambda>e. ac_is_static e = 0) c) @ replicate 32 (0, 0, 0))"

lemma write_arp_entry_log:
  "write_arp_cache_entry_to_hw e j rs =
     rs\<lparr>regs := regs rs @ arp_row_log j (case e of None \<Rightarrow> (0, 0, 0) | Some e \<Rightarrow> arp_row e)\<rparr>"
  by (simp add: write_arp_cache_entry_to_hw_def writeReg_def arp_row_log_def arp_row_def split: option.split)

lemma write_arp_static_log:
  assumes "i \<le> 32"
  shows "write_arp_static i c rs =
     (let rows = map arp_row (take (32 - i) (filter (\<lambda>e. ac_is_static e \<noteq> 0) c))
      in (i + length rows, rs\<lparr>regs := regs rs @ table_log arp_row_log i rows\<rparr>))"
  using assms
proof (induction i c rs rule: write_arp_static.induct)
  case (2 i e c rs)
  show ?case
  proof (cases "i < 32")
    case True
    then have "32 - i = Suc (32 - Suc i)" by simp
    with True 2 show ?thesis by (auto simp: Let_def write_arp_entry_log)
  next
    case False
    with 2 have "i = 32" by simp
    then show ?thesis by (simp add: Let_def)
  qed
qed (simp add: Let_def)

declare write_arp_rest.simps [simp del]

lemma take_replicate_Suc: "take k (xs @ replicate (Suc k) z) = take k (xs @ replicate k z)"
  by (simp add: min_def del: replicate_Suc)

lemma write_arp_rest_log:
  assumes "i \<le> 32"
  shows "write_arp_rest i c rs = rs\<lparr>regs := regs rs @ table_log arp_row_log i
     (take (32 - i) (map arp_row (filter (\<lambda>e. ac_is_static e = 0) c) @ replicate (32 - i) (0, 0, 0)))\<rparr>"
  using assms
proof (induction i c rs rule: write_arp_rest.induct)
  case (1 i c rs)
  show ?case
  proof (cases "i < 32")
    case True
    then have s: "32 - i = Suc (32 - Suc i)" by simp
    have le: "Suc i \<le> 32" using True by simp
    show ?thesis
    proof (cases c)
      case Nil
      from "1.IH"(1)[OF True Nil le] Nil s True show ?thesis
        by (simp add: write_arp_rest.simps[of i] write_arp_entry_log)
    next
      case (Cons e c')
      show ?thesis
      proof (cases "ac_is_static e = 0")
        case st: True
        from "1.IH"(2)[OF True Cons st le] Cons s True st show ?thesis
          by (simp add: write_arp_rest.simps[of i] write_arp_entry_log take_replicate_Suc
            del: replicate_Suc)
      next
        case st: False
        from "1.IH"(3)[OF True Cons st "1.prems"] Cons True st show ?thesis
          by (simp add: write_arp_rest.simps[of i])
      qed
    qed
  next
    case False
    with "1.prems" show ?thesis by (subst write_arp_rest.simps) simp
  qed
qed


lemma write_arp_cache_to_hw_log:
  "write_arp_cache_to_hw rs = rs\<lparr>regs := regs rs @ table_log arp_row_log 0 (arp_rows (arp_cache rs))\<rparr>"
proof -
  let ?st = "filter (\<lambda>e. ac_is_static e \<noteq> 0) (arp_cache rs)"
  let ?rest = "filter (\<lambda>e. ac_is_static e = 0) (arp_cache rs)"
  let ?s = "map arp_row (take 32 ?st)"
  have le: "length ?s \<le> 32" by simp
  have "arp_rows (arp_cache rs) = ?s @ take (32 - length ?s) (map arp_row ?rest @ replicate (32 - length ?s) (0, 0, 0))"
    by (auto simp: arp_rows_def take_map min_def)
  then show ?thesis
    using write_arp_static_log[of 0 "arp_cache rs" rs] write_arp_rest_log[OF le, of "arp_cache rs"]
    by (simp add: write_arp_cache_to_hw_def Let_def table_log_append)
qed

lemma length_arp_rows [simp]: "length (arp_rows c) = 32"
  by (simp add: arp_rows_def)

lemma trigger_arp_eq:
  "trigger_arp_cache_modified rs =
     rs\<lparr>regs := regs rs @ (if is_netfpga rs then table_log arp_row_log 0 (arp_rows (arp_cache rs)) else [])\<rparr>"
  by (simp add: trigger_arp_cache_modified_def write_arp_cache_to_hw_log)

section \<open>The cache as a table\<close>

definition arp_lookup :: "router_state \<Rightarrow> u32 \<Rightarrow> (mac \<times> int) option" where
  "arp_lookup rs ip = map_option (\<lambda>e. (ac_arp_ha e, ac_is_static e)) (in_arp_cache rs ip)"

definition arp_insert :: "router_state \<Rightarrow> u32 \<Rightarrow> mac \<times> int \<Rightarrow> router_state" where
  "arp_insert rs ip = (\<lambda>(m, s). update_arp_cache rs ip m s)"

definition arp_delete :: "router_state \<Rightarrow> u32 \<Rightarrow> router_state" where
  "arp_delete rs ip = snd (del_arp_cache rs ip)"

lemma update_arp_cache_cache:
  "arp_cache (update_arp_cache rs ip m s) =
     (let ttl = (if s = 1 then 0 else clock rs)
      in if in_arp_cache rs ip = None
         then arp_cache rs @ [\<lparr>ac_ip = ip, ac_arp_ha = m, ac_TTL = ttl, ac_is_static = s\<rparr>]
         else update_first (\<lambda>e. ip = ac_ip e)
           (\<lambda>e. e\<lparr>ac_arp_ha := m, ac_TTL := ttl, ac_is_static := s\<rparr>) (arp_cache rs))"
  by (auto simp: update_arp_cache_def trigger_arp_eq Let_def split: option.splits)

lemma in_arp_cache_update:
  "in_arp_cache (update_arp_cache rs ip m s) j =
     (if j = ip then Some \<lparr>ac_ip = ip, ac_arp_ha = m, ac_TTL = (if s = 1 then 0 else clock rs), ac_is_static = s\<rparr>
      else in_arp_cache rs j)"
proof (cases "in_arp_cache rs ip")
  case None
  then show ?thesis
    by (auto simp: in_arp_cache_def update_arp_cache_cache[unfolded in_arp_cache_def] Let_def find_append split: option.splits)
next
  case (Some e)
  then have [simp]: "ac_ip e = ip" by (auto simp: in_arp_cache_def dest: find_Some_iff_set)
  from Some show ?thesis
    by (cases "j = ip") (auto simp: in_arp_cache_def update_arp_cache_cache[unfolded in_arp_cache_def] Let_def
        find_update_first find_update_first_other)
qed


interpretation arp_cache: lookup_table arp_lookup arp_insert arp_delete
proof unfold_locales
  show "arp_lookup (arp_insert rs k v) j = (if j = k then Some v else arp_lookup rs j)" for rs k v j
    by (cases v) (simp add: arp_lookup_def arp_insert_def in_arp_cache_update)
  show "arp_lookup (arp_delete rs k) j = (if j = k then None else arp_lookup rs j)" for rs k j
    by (auto simp: arp_lookup_def arp_delete_def del_arp_cache_def in_arp_cache_def find_None_set find_filter)
qed

lemma update_arp_cache_frame:
  "update_arp_cache rs ip m s =
     rs\<lparr>arp_cache := arp_cache (update_arp_cache rs ip m s), regs := regs (update_arp_cache rs ip m s)\<rparr>"
  by (simp add: update_arp_cache_def trigger_arp_eq Let_def)

section \<open>Sending through the cache\<close>

definition frame_to :: "mac \<Rightarrow> byte list \<Rightarrow> byte list" where
  "frame_to m packet = pad_frame (mac_bytes m @ drop 6 packet)"

lemma send_ip_known:
  assumes "in_arp_cache rs nh = Some ace" and "lock_free WriteLock rs" and "6 \<le> length p"
  shows "send_ip rs p nh i = Some (if tx_result rs (length (sent rs)) \<noteq> 0 then 1 else 0,
     rs\<lparr>sent := sent rs @ [(i, frame_to (ac_arp_ha ace) p)]\<rparr>)"
  using assms by (simp add: send_ip_def get_from_arp_cache_def mem_st_def send_packet_eq frame_to_def)

lemma send_ip_unknown:
  assumes "in_arp_cache rs nh = None" and "lock_free WriteLock rs"
  shows "send_ip rs p nh i =
    (case get_from_arp_queue rs nh of
       Some _ \<Rightarrow> Some (0, rs\<lparr>arp_queue := update_first (\<lambda>aqe. aq_next_hop aqe = nh)
                     (arp_queue_entry_add_packet p) (arp_queue rs)\<rparr>)
     | None \<Rightarrow> (case get_iface rs i of
         None \<Rightarrow> None
       | Some ie \<Rightarrow> Some (0, rs\<lparr>sent := sent rs @ [(i, arp_request_frame ie nh)],
           arp_queue := arp_queue rs @ [\<lparr>aq_out_iface_name = take 32 i, aq_next_hop = nh,
             aq_requests = 1, aq_last_req_time = clock rs, aq_head = [p]\<rparr>]\<rparr>)))"
  using assms
  by (simp add: send_ip_def get_from_arp_cache_def arp_queue_add_def send_arp_request_eq strncpy_def
      arp_queue_entry_add_packet_def Let_def split: option.split)

lemma send_entry_packets_known:
  assumes "i < length (arp_queue rs)" and "in_arp_cache rs (aq_next_hop (arp_queue rs ! i)) = Some ace"
    and "lock_free WriteLock rs" and "\<forall>p\<in>set (aq_head (arp_queue rs ! i)). 6 \<le> length p"
  shows "send_entry_packets i rs =
    Some (rs\<lparr>sent := sent rs @ map (\<lambda>p. (aq_out_iface_name (arp_queue rs ! i), frame_to (ac_arp_ha ace) p))
                 (aq_head (arp_queue rs ! i)),
             arp_queue := (arp_queue rs)[i := (arp_queue rs ! i)\<lparr>aq_head := []\<rparr>]\<rparr>)"
  using assms
proof (induction "aq_head (arp_queue rs ! i)" arbitrary: rs)
  case Nil
  from Nil.hyps have h: "aq_head (arp_queue rs ! i) = []" by simp
  then have e: "(arp_queue rs ! i)\<lparr>aq_head := []\<rparr> = arp_queue rs ! i" by simp
  have "send_entry_packets i rs = Some rs" using h by (simp add: send_entry_packets.simps[of i rs])
  then show ?case unfolding e list_update_id using h by simp
next
  case (Cons p ps)
  let ?e = "arp_queue rs ! i"
  let ?rs = "rs\<lparr>sent := sent rs @ [(aq_out_iface_name ?e, frame_to (ac_arp_ha ace) p)],
    arp_queue := (arp_queue rs)[i := ?e\<lparr>aq_head := ps\<rparr>]\<rparr>"
  have hd: "aq_head ?e = p # ps" using Cons.hyps(2) by simp
  have p: "6 \<le> length p" using Cons.prems(4) hd by simp
  have e: "arp_queue ?rs ! i = ?e\<lparr>aq_head := ps\<rparr>" using Cons.prems(1) by simp
  have step: "send_entry_packets i rs = (if ps = [] then Some ?rs else send_entry_packets i ?rs)"
    using hd Cons.prems(1)
    by (simp add: send_entry_packets.simps[of i rs] send_ip_known[OF Cons.prems(2,3) p] set_entry_def Let_def)
  have cache: "in_arp_cache ?rs (aq_next_hop (arp_queue ?rs ! i)) = Some ace"
    using Cons.prems(1,2) by (simp add: in_arp_cache_def)
  have "send_entry_packets i ?rs = Some (?rs\<lparr>sent := sent ?rs @
      map (\<lambda>p. (aq_out_iface_name (arp_queue ?rs ! i), frame_to (ac_arp_ha ace) p)) (aq_head (arp_queue ?rs ! i)),
      arp_queue := (arp_queue ?rs)[i := (arp_queue ?rs ! i)\<lparr>aq_head := []\<rparr>]\<rparr>)"
  proof (rule Cons.hyps(1))
    show "ps = aq_head (arp_queue ?rs ! i)" using e by simp
    show "i < length (arp_queue ?rs)" using Cons.prems(1) by simp
    show "lock_free WriteLock ?rs" using Cons.prems(3) by (simp add: lock_free_def)
    show "\<forall>p\<in>set (aq_head (arp_queue ?rs ! i)). 6 \<le> length p" using Cons.prems(4) hd e by simp
  qed (rule cache)
  then show ?case using step hd Cons.prems(1) by (cases ps) simp_all
qed

definition waiting :: "u32 \<Rightarrow> arp_queue_entry \<Rightarrow> bool" where
  "waiting ip aqe \<longleftrightarrow> aq_next_hop aqe = ip"

definition entry_frames :: "mac \<Rightarrow> arp_queue_entry \<Rightarrow> (string \<times> byte list) list" where
  "entry_frames m aqe = map (\<lambda>p. (aq_out_iface_name aqe, frame_to m p)) (aq_head aqe)"

lemma drop_entry_queue:
  "i < length q \<Longrightarrow> take i (q[i := e]) @ drop (Suc i) (q[i := e]) = take i q @ drop (Suc i) q"
  by simp

lemma send_queued_from_known:
  assumes "in_arp_cache rs ip = Some ace" and "lock_free WriteLock rs"
    and "\<forall>aqe\<in>set (arp_queue rs). \<forall>p\<in>set (aq_head aqe). 6 \<le> length p"
  shows "send_queued_from ip i rs =
    Some (rs\<lparr>sent := sent rs @ concat (map (entry_frames (ac_arp_ha ace)) (filter (waiting ip) (drop i (arp_queue rs)))),
             arp_queue := take i (arp_queue rs) @ filter (\<lambda>e. \<not> waiting ip e) (drop i (arp_queue rs))\<rparr>)"
  using assms
proof (induction "length (arp_queue rs) - i" arbitrary: rs i)
  case 0
  then show ?case by (simp add: send_queued_from.simps[of ip i rs])
next
  case (Suc k)
  let ?q = "arp_queue rs" and ?e = "arp_queue rs ! i"
  from Suc.hyps(2) have i: "i < length ?q" by simp
  then have dr: "drop i ?q = ?e # drop (Suc i) ?q" by (simp add: Cons_nth_drop_Suc)
  show ?case
  proof (cases "ip = aq_next_hop ?e")
    case False
    with i have "send_queued_from ip i rs = send_queued_from ip (Suc i) rs"
      by (simp add: send_queued_from.simps[of ip i rs])
    also have "\<dots> = Some (rs\<lparr>sent := sent rs @ concat (map (entry_frames (ac_arp_ha ace)) (filter (waiting ip) (drop (Suc i) ?q))),
             arp_queue := take (Suc i) ?q @ filter (\<lambda>e. \<not> waiting ip e) (drop (Suc i) ?q)\<rparr>)"
      by (rule Suc.hyps(1)) (use Suc in simp_all)
    finally show ?thesis using False i dr by (simp add: waiting_def take_Suc_conv_app_nth)
  next
    case True
    let ?rs = "rs\<lparr>sent := sent rs @ entry_frames (ac_arp_ha ace) ?e, arp_queue := take i ?q @ drop (Suc i) ?q\<rparr>"
    have "send_entry_packets i rs = Some (rs\<lparr>sent := sent rs @ entry_frames (ac_arp_ha ace) ?e,
        arp_queue := ?q[i := ?e\<lparr>aq_head := []\<rparr>]\<rparr>)"
      unfolding entry_frames_def using Suc.prems nth_mem[OF i] i True
      by (intro send_entry_packets_known) (simp_all del: nth_mem)
    with i True have step: "send_queued_from ip i rs = (if Suc i < length ?q then send_queued_from ip i ?rs else Some ?rs)"
      by (subst send_queued_from.simps) (simp add: drop_entry_def Let_def)
    have "send_queued_from ip i ?rs = Some (?rs\<lparr>sent := sent ?rs @ concat (map (entry_frames (ac_arp_ha ace)) (filter (waiting ip) (drop i (arp_queue ?rs)))),
             arp_queue := take i (arp_queue ?rs) @ filter (\<lambda>e. \<not> waiting ip e) (drop i (arp_queue ?rs))\<rparr>)"
    proof (rule Suc.hyps(1))
      show "k = length (arp_queue ?rs) - i" using Suc.hyps(2) i by simp
      show "in_arp_cache ?rs ip = Some ace" using Suc.prems(1) by (simp add: in_arp_cache_def)
      show "lock_free WriteLock ?rs" using Suc.prems(2) by (simp add: lock_free_def)
      show "\<forall>aqe\<in>set (arp_queue ?rs). \<forall>p\<in>set (aq_head aqe). 6 \<le> length p"
        using Suc.prems(3) by (auto dest: in_set_takeD in_set_dropD)
    qed
    with step i dr True show ?thesis by (cases "Suc i < length ?q") (simp_all add: waiting_def)
  qed
qed

section \<open>Invariant of the queue\<close>

text \<open>Every next hop is queued once, with at least one packet, between one and five requests sent.\<close>

definition arp_queue_ok :: "router_state \<Rightarrow> bool" where
  "arp_queue_ok rs \<longleftrightarrow> distinct (map aq_next_hop (arp_queue rs)) \<and>
     (\<forall>aqe\<in>set (arp_queue rs). 1 \<le> aq_requests aqe \<and> aq_requests aqe \<le> 5 \<and> aq_head aqe \<noteq> [] \<and>
        (\<forall>p\<in>set (aq_head aqe). 34 \<le> length p))"

lemma update_first_set: "y \<in> set (update_first P f xs) \<Longrightarrow> y \<in> set xs \<or> (\<exists>x\<in>set xs. P x \<and> y = f x)"
  by (induction xs) (auto split: if_splits)

lemma arp_queue_ok_add_packet:
  assumes "arp_queue_ok rs" and "34 \<le> length p"
  shows "arp_queue_ok (rs\<lparr>arp_queue := update_first P (arp_queue_entry_add_packet p) (arp_queue rs)\<rparr>)"
proof -
  have "map aq_next_hop (update_first P (arp_queue_entry_add_packet p) (arp_queue rs)) = map aq_next_hop (arp_queue rs)"
    by (rule map_update_first) (simp add: arp_queue_entry_add_packet_def)
  with assms show ?thesis
    by (auto simp: arp_queue_ok_def arp_queue_entry_add_packet_def dest!: update_first_set)
qed

lemma send_ip_queue_ok:
  assumes "arp_queue_ok rs" and "34 \<le> length p" and "lock_free WriteLock rs"
    and "send_ip rs p nh i = Some (r, rs')"
  shows "arp_queue_ok rs'"
proof (cases "in_arp_cache rs nh")
  case (Some ace)
  have "6 \<le> length p" using assms(2) by simp
  from send_ip_known[OF Some assms(3) this] assms(1,4) show ?thesis by (auto simp: arp_queue_ok_def)
next
  case None
  show ?thesis
  proof (cases "get_from_arp_queue rs nh")
    case (Some aqe)
    with send_ip_unknown[OF None assms(3)] assms(4)
    have "rs' = rs\<lparr>arp_queue := update_first (\<lambda>aqe. aq_next_hop aqe = nh) (arp_queue_entry_add_packet p) (arp_queue rs)\<rparr>"
      by simp
    with arp_queue_ok_add_packet[OF assms(1,2)] show ?thesis by simp
  next
    case q: None
    then have "nh \<notin> set (map aq_next_hop (arp_queue rs))"
      by (auto simp: get_from_arp_queue_def find_None_set)
    with send_ip_unknown[OF None assms(3)] assms q show ?thesis
      by (auto simp: arp_queue_ok_def split: option.splits)
  qed
qed

lemma arp_lookup_sel:
  "arp_lookup (rs\<lparr>held := h, sent := s, arp_queue := q\<rparr>) = arp_lookup rs"
  by (simp add: arp_lookup_def in_arp_cache_def fun_eq_iff)

section \<open>A router to evaluate on\<close>

definition eth1 :: iface_entry where
  "eth1 = \<lparr>ie_name = ''eth1'', ie_addr = Mac 0 1 2 3 4 5, ie_ip = htonl 0x0A000001, ie_mask = 255, ie_speed = 0,
     ie_is_active = True, ie_last_sent_hello = 0, ie_nbr_routers = [], ie_is_wan = 0\<rparr>"

definition lan_router :: router_state where
  "lan_router = idle_router\<lparr>if_list := [eth1],
     arp_queue := [\<lparr>aq_out_iface_name = ''eth1'', aq_next_hop = htonl 0x0A000002, aq_requests = 1,
                     aq_last_req_time = 0, aq_head = [replicate 60 7, replicate 34 8]\<rparr>]\<rparr>"

text \<open>A reply for 10.0.0.2 and a request for 10.0.0.1.\<close>

definition arp_example :: "u16 \<Rightarrow> byte list" where
  "arp_example op = arp_frame (Mac 0 1 2 3 4 5) (Mac 9 9 9 9 9 9) op (Mac 9 9 9 9 9 9) (htonl 0x0A000002)
     (Mac 0 1 2 3 4 5) (htonl 0x0A000001)"

lemma lan_queue_ok: "arp_queue_ok lan_router"
  by (simp add: arp_queue_ok_def lan_router_def)

lemma arp_example_hdr:
  "get_arp_hdr (arp_example op) = Some \<lparr>arp_hrd = htons 1, arp_pro = htons 0x800, arp_hln = 6, arp_pln = 4,
     arp_op = htons op, arp_sha = Mac 9 9 9 9 9 9, arp_sip = htonl 0x0A000002, arp_tha = Mac 0 1 2 3 4 5,
     arp_tip = htonl 0x0A000001\<rparr>"
  "get_eth_hdr (arp_example op) =
     Some \<lparr>eth_dhost = Mac 0 1 2 3 4 5, eth_shost = Mac 9 9 9 9 9 9, eth_type = htons 0x806\<rparr>"
  unfolding arp_example_def arp_frame_def
  by (simp_all add: get_arp_hdr_at[where c = "[]", simplified] arp_wire.enc_length arp_wire.dec_enc
      get_eth_hdr_def eth_wire.get_at[of "[]", simplified] eth_wire.enc_length eth_wire.dec_enc)

section \<open>Properties\<close>

text \<open>
  C23. The ARP cache is a map: after any sequence of \<open>update_arp_cache\<close> calls, looking an address up
  gives the hardware address (and the static flag) of the last call for it, and what was there before
  for every other address.
\<close>

theorem arp_cache_is_map:
  "arp_lookup (fold (\<lambda>(ip, m, s) rs. update_arp_cache rs ip m s) kvs rs) = arp_lookup rs ++ map_of (rev kvs)"
proof -
  have "(\<lambda>(ip, m, s) rs. update_arp_cache rs ip m s) = (\<lambda>(k, v) rs. arp_insert rs k v)"
    by (auto simp: arp_insert_def fun_eq_iff)
  then show ?thesis by (simp only: arp_cache.lookup_inserts)
qed

text \<open>
  C24. \<open>send_ip\<close> with a known next hop puts one frame on the wire, the packet with the cached hardware
  address as its destination, padded to 60 bytes. With an unknown one the packet is kept at the end of the
  queue entry of that next hop, and a broadcast request for the address goes out only when the entry is new.
\<close>

theorem send_ip_resolves:
  assumes "lock_free WriteLock rs" and "34 \<le> length p" and "get_iface rs i = Some ie"
  shows "\<exists>r rs'. send_ip rs p nh i = Some (r, rs') \<and>
    (case in_arp_cache rs nh of
       Some ace \<Rightarrow> sent rs' = sent rs @ [(i, frame_to (ac_arp_ha ace) p)] \<and> arp_queue rs' = arp_queue rs
     | None \<Rightarrow> (case get_from_arp_queue rs nh of
         Some aqe \<Rightarrow> sent rs' = sent rs \<and>
           get_from_arp_queue rs' nh = Some (aqe\<lparr>aq_head := aq_head aqe @ [p]\<rparr>)
       | None \<Rightarrow> sent rs' = sent rs @ [(i, arp_request_frame ie nh)] \<and>
           arp_queue rs' = arp_queue rs @ [\<lparr>aq_out_iface_name = take 32 i, aq_next_hop = nh,
             aq_requests = 1, aq_last_req_time = clock rs, aq_head = [p]\<rparr>])) \<and>
    (arp_queue_ok rs \<longrightarrow> arp_queue_ok rs')"
proof (cases "in_arp_cache rs nh")
  case (Some ace)
  have "6 \<le> length p" using assms(2) by simp
  from send_ip_known[OF Some assms(1) this] Some show ?thesis
    by (auto simp: arp_queue_ok_def)
next
  case None
  note u = send_ip_unknown[OF None assms(1), of p i]
  show ?thesis
  proof (cases "get_from_arp_queue rs nh")
    case q: None
    with u assms(3) have s: "send_ip rs p nh i = Some (0, rs\<lparr>sent := sent rs @ [(i, arp_request_frame ie nh)],
           arp_queue := arp_queue rs @ [\<lparr>aq_out_iface_name = take 32 i, aq_next_hop = nh,
             aq_requests = 1, aq_last_req_time = clock rs, aq_head = [p]\<rparr>]\<rparr>)" by simp
    with send_ip_queue_ok[OF _ assms(2,1) s] None q show ?thesis by simp
  next
    case q: (Some aqe)
    with u have s: "send_ip rs p nh i = Some (0, rs\<lparr>arp_queue := update_first (\<lambda>aqe. aq_next_hop aqe = nh)
                     (arp_queue_entry_add_packet p) (arp_queue rs)\<rparr>)" (is "_ = Some (0, ?rs)") by simp
    have "get_from_arp_queue ?rs nh = Some (aqe\<lparr>aq_head := aq_head aqe @ [p]\<rparr>)"
      using q by (simp add: get_from_arp_queue_def find_update_first arp_queue_entry_add_packet_def)
    with send_ip_queue_ok[OF _ assms(2,1) s] None q s show ?thesis by simp
  qed
qed

theorem send_ip_resolves_witness:
  "\<exists>r rs'. send_ip lan_router (replicate 40 0) (htonl 0x0A000003) ''eth1'' = Some (r, rs') \<and>
     sent rs' = [(''eth1'', arp_request_frame eth1 (htonl 0x0A000003))] \<and> arp_queue_ok rs'"
proof -
  have "lock_free WriteLock lan_router" "34 \<le> length (replicate 40 (0::byte))" "get_iface lan_router ''eth1'' = Some eth1"
    "in_arp_cache lan_router (htonl 0x0A000003) = None" "get_from_arp_queue lan_router (htonl 0x0A000003) = None"
    "sent lan_router = []"
    by (simp_all add: lan_router_def idle_router_def lock_free_def get_iface_def named_def eth1_def
        in_arp_cache_def get_from_arp_queue_def)
  with send_ip_resolves[of lan_router "replicate 40 0" "''eth1''" eth1 "htonl 0x0A000003"] lan_queue_ok
  show ?thesis by auto
qed

text \<open>
  C7. An ARP reply is learnt, and every packet that waited for its address is sent, in order, to that hardware
  address; its queue entry is gone, the other entries and all locks are as before. In particular the
  nested loops over the queue end.
\<close>

theorem process_arp_reply_flushes:
  assumes "held rs = []" and "get_arp_hdr p = Some arp" and "arp_queue_ok rs"
  shows "\<exists>rs'. process_arp_reply rs p = Some rs' \<and>
    arp_lookup rs' = (arp_lookup rs)(arp_sip arp \<mapsto> (arp_sha arp, 0)) \<and>
    sent rs' = sent rs @ concat (map (entry_frames (arp_sha arp)) (filter (waiting (arp_sip arp)) (arp_queue rs))) \<and>
    arp_queue rs' = filter (\<lambda>e. \<not> waiting (arp_sip arp) e) (arp_queue rs) \<and>
    held rs' = [] \<and> arp_queue_ok rs'"
proof -
  let ?ip = "arp_sip arp"
  let ?u = "\<lambda>rs. update_arp_cache rs ?ip (arp_sha arp) 0"
  let ?rs = "(?u rs)\<lparr>held := [(ArpQueue, Wr), (ArpCache, Rd)]\<rparr>"
  have u: "?u (rs\<lparr>held := h\<rparr>) = (?u rs)\<lparr>held := h\<rparr>" for h
    by (simp add: update_arp_cache_def trigger_arp_eq Let_def in_arp_cache_def split: option.split)
  have uf: "sent (?u rs) = sent rs" "arp_queue (?u rs) = arp_queue rs" "held (?u rs) = []"
    using assms(1) by (subst update_arp_cache_frame, simp)+
  have start: "process_arp_reply rs p = do {
      rs \<leftarrow> send_queued_packets ?rs ?ip; rs \<leftarrow> release ArpQueue rs; release ArpCache rs }"
    using assms(1,2) u[of "[(ArpCache, Wr)]"] uf
    by (simp add: process_arp_reply_def acquire_def release_def)
  have "in_arp_cache ?rs ?ip = Some \<lparr>ac_ip = ?ip, ac_arp_ha = arp_sha arp, ac_TTL = clock rs, ac_is_static = 0\<rparr>"
    using in_arp_cache_update[of rs ?ip "arp_sha arp" 0 ?ip] by (simp add: in_arp_cache_def)
  moreover have "lock_free WriteLock ?rs" by (simp add: lock_free_def)
  moreover have "\<forall>aqe\<in>set (arp_queue ?rs). \<forall>p\<in>set (aq_head aqe). 6 \<le> length p"
    using assms(3) uf by (fastforce simp: arp_queue_ok_def)
  ultimately have "send_queued_packets ?rs ?ip = Some (?rs\<lparr>sent := sent rs @ concat (map (entry_frames (arp_sha arp))
      (filter (waiting ?ip) (arp_queue rs))), arp_queue := filter (\<lambda>e. \<not> waiting ?ip e) (arp_queue rs)\<rparr>)"
    using send_queued_from_known[of ?rs ?ip _ 0] uf by (simp add: send_queued_packets_def)
  then have end': "process_arp_reply rs p = Some ((?u rs)\<lparr>held := [], sent := sent rs @ concat (map (entry_frames (arp_sha arp))
      (filter (waiting ?ip) (arp_queue rs))), arp_queue := filter (\<lambda>e. \<not> waiting ?ip e) (arp_queue rs)\<rparr>)"
    by (simp add: start release_def)
  have "arp_lookup (?u rs) = (arp_lookup rs)(?ip \<mapsto> (arp_sha arp, 0))"
    using arp_cache.lookup_insert[of rs ?ip "(arp_sha arp, 0)"] by (auto simp: arp_insert_def)
  moreover have "arp_queue_ok (rs\<lparr>arp_queue := filter P (arp_queue rs)\<rparr>)" for P
    using assms(3) by (auto simp: arp_queue_ok_def distinct_map_filter)
  ultimately show ?thesis using end' by (simp add: arp_lookup_sel arp_queue_ok_def)
qed

theorem process_arp_reply_flushes_witness:
  "\<exists>rs'. process_arp_reply lan_router (arp_example 2) = Some rs' \<and>
     sent rs' = [(''eth1'', frame_to (Mac 9 9 9 9 9 9) (replicate 60 7)),
                 (''eth1'', frame_to (Mac 9 9 9 9 9 9) (replicate 34 8))] \<and> arp_queue rs' = []"
proof -
  have "held lan_router = []" by (simp add: lan_router_def idle_router_def)
  from process_arp_reply_flushes[OF this arp_example_hdr(1) lan_queue_ok, of 2]
  show ?thesis by (auto simp: lan_router_def idle_router_def waiting_def entry_frames_def)
qed

text \<open>
  An ARP request for the address of an interface is answered out of that interface, to the sender's hardware
  address, with the interface's own addresses; any other request is ignored. Nothing but the wire changes.
\<close>

theorem process_arp_request_replies:
  assumes "held rs = []" and "get_arp_hdr p = Some arp" and "get_eth_hdr p = Some eth"
  shows "process_arp_request rs p = Some (rs\<lparr>sent := sent rs @
    (case find (\<lambda>ie. ie_ip ie = arp_tip arp) (if_list rs) of None \<Rightarrow> []
     | Some ie \<Rightarrow> [(ie_name ie, arp_reply_frame ie (eth_shost eth) (arp_sha arp) (arp_sip arp))])\<rparr>)"
proof -
  let ?rs = "rs\<lparr>held := [(IfList, Rd)]\<rparr>"
  have "lock_free WriteLock ?rs" by (simp add: lock_free_def)
  from send_arp_reply_eq[OF this assms(3,2)] assms show ?thesis
    by (simp add: process_arp_request_def acquire_def release_def split: option.split)
qed

theorem process_arp_request_replies_witness:
  "process_arp_request lan_router (arp_example 1) = Some (lan_router\<lparr>sent :=
     [(''eth1'', arp_reply_frame eth1 (Mac 9 9 9 9 9 9) (Mac 9 9 9 9 9 9) (htonl 0x0A000002))]\<rparr>)"
proof -
  have "held lan_router = []" by (simp add: lan_router_def idle_router_def)
  from process_arp_request_replies[OF this arp_example_hdr, of 1] show ?thesis
    by (simp add: lan_router_def idle_router_def eth1_def)
qed

text \<open>
  On the NetFPGA every change of the cache is followed by a copy into hardware: replaying the register writes of
  \<open>update_arp_cache\<close> gives 32 rows, the static entries of the new cache first, then the learnt ones, then zeros.
\<close>

theorem hardware_mirrors_arp:
  assumes "is_netfpga rs" and "n < 32"
  shows "\<exists>log. regs (update_arp_cache rs ip m s) = regs rs @ log \<and>
    replay_arp log latch tab n = arp_rows (arp_cache (update_arp_cache rs ip m s)) ! n"
proof -
  have "regs (update_arp_cache rs ip m s) =
      regs rs @ table_log arp_row_log 0 (arp_rows (arp_cache (update_arp_cache rs ip m s)))"
    using assms(1) by (simp add: update_arp_cache_def trigger_arp_eq Let_def)
  with arp_table.replay_full[of "arp_rows (arp_cache (update_arp_cache rs ip m s))" n latch tab] assms(2)
  show ?thesis by simp
qed

theorem hardware_mirrors_arp_witness:
  "\<exists>log. regs (update_arp_cache (idle_router\<lparr>is_netfpga := True\<rparr>) 10 (Mac 1 2 3 4 5 6) 0) = log \<and>
     replay_arp log (0, 0, 0) (\<lambda>_. (7, 7, 7)) 0 = (0x0102, 0x03040506, 0x0A000000) \<and>
     replay_arp log (0, 0, 0) (\<lambda>_. (7, 7, 7)) 1 = (0, 0, 0)"
proof -
  let ?rs = "idle_router\<lparr>is_netfpga := True\<rparr>"
  have rows: "arp_rows (arp_cache (update_arp_cache ?rs 10 (Mac 1 2 3 4 5 6) 0)) ! 0 = (0x0102, 0x03040506, 0x0A000000)"
    "arp_rows (arp_cache (update_arp_cache ?rs 10 (Mac 1 2 3 4 5 6) 0)) ! 1 = (0, 0, 0)"
    by code_simp+
  have rs: "is_netfpga ?rs" "regs ?rs = []" by (simp_all add: idle_router_def)
  from hardware_mirrors_arp[OF rs(1), of 0 10 "Mac 1 2 3 4 5 6" 0 "(0, 0, 0)" "\<lambda>_. (7, 7, 7)"]
    hardware_mirrors_arp[OF rs(1), of 1 10 "Mac 1 2 3 4 5 6" 0 "(0, 0, 0)" "\<lambda>_. (7, 7, 7)"] rows rs(2)
  show ?thesis by auto
qed

text \<open>
  Expiry removes exactly the entries that are not static and were not refreshed for longer than the configured time to
  live: static entries are always found, learnt ones are found while they are young, and nothing else changes.
\<close>

theorem expire_arp_cache_exact:
  "arp_cache (expire_arp_cache rs) =
     filter (\<lambda>e. ac_is_static e = 1 \<or> clock rs - ac_TTL e \<le> uint (arp_ttl rs)) (arp_cache rs) \<and>
   expire_arp_cache rs = rs\<lparr>arp_cache := arp_cache (expire_arp_cache rs), regs := regs (expire_arp_cache rs)\<rparr> \<and>
   regs (expire_arp_cache rs) = regs rs @
     (if is_netfpga rs \<and> arp_cache (expire_arp_cache rs) \<noteq> arp_cache rs
      then table_log arp_row_log 0 (arp_rows (arp_cache (expire_arp_cache rs))) else [])"
proof -
  have f: "filter (\<lambda>e. \<not> arp_expired rs e) c =
      filter (\<lambda>e. ac_is_static e = 1 \<or> clock rs - ac_TTL e \<le> uint (arp_ttl rs)) c" for c
    by (rule filter_cong) (auto simp: arp_expired_def)
  have "filter (\<lambda>e. \<not> arp_expired rs e) (arp_cache rs) = arp_cache rs \<longleftrightarrow> \<not> list_ex (arp_expired rs) (arp_cache rs)"
    by (auto simp: list_ex_iff filter_id_conv)
  then show ?thesis
    unfolding f[symmetric]
    by (cases "list_ex (arp_expired rs) (arp_cache rs)") (simp_all add: expire_arp_cache_def Let_def trigger_arp_eq)
qed

end
