(* ===== verification/Checksums.thy ===== *)
theory Checksums
  imports Headers
begin

text \<open>
  The one's complement checksums of the router: \<open>compute_ip_checksum\<close> and
  \<open>verify_checksum\<close> of \<^verbatim>\<open>or_ip.c\<close>, \<open>compute_icmp_checksum\<close> of \<^verbatim>\<open>or_icmp.c\<close> and
  \<open>compute_pwospf_checksum\<close> of \<^verbatim>\<open>or_pwospf.c\<close>. The lemmas read the accumulators
  as natural numbers and show that none of them can overflow, that folding keeps the
  value modulo 65535, and that a stored checksum verifies.
\<close>

section \<open>The loops\<close>

definition ld16 :: "byte list \<Rightarrow> nat \<Rightarrow> u16 outcome" where
  "ld16 p off = map_option (\<lambda>bs. le16_at bs 0) (mem_ld p off 2)"

text \<open>\<open>for (i = i; k more rounds; ++i) if (use i) sum += ntohs(s_ptr[i])\<close>\<close>

fun sum_shorts ::
  "(nat \<Rightarrow> bool) \<Rightarrow> byte list \<Rightarrow> nat \<Rightarrow> nat \<Rightarrow> nat \<Rightarrow> 'w::len word \<Rightarrow> 'w word outcome" where
  "sum_shorts use p off i 0 acc = Some acc"
| "sum_shorts use p off i (Suc k) acc =
     (if use i then do { w \<leftarrow> ld16 p (off + 2 * i);
                         sum_shorts use p off (Suc i) k (acc + ucast (ntohs w)) }
      else sum_shorts use p off (Suc i) k acc)"

text \<open>The carry folding of the three \<open>compute\<close> functions, whose \<open>sum\<close> is an \<open>unsigned long\<close>, and of
  \<open>compute_nat_checksums\<close>, whose \<open>sum\<close> has 32 bits; \<open>acc\<close> is that \<open>sum\<close>.\<close>

definition ones_complement :: "'w::len word \<Rightarrow> u16" where
  "ones_complement acc =
     (let acc = drop_bit 16 acc + (acc AND 0xFFFF);
          acc = acc + drop_bit 16 acc;
          s_sum = (ucast (acc AND 0xFFFF) :: u16)
      in NOT s_sum)"

definition compute_ip_checksum :: "byte list \<Rightarrow> (u16 \<times> byte list) outcome" where
  "compute_ip_checksum p = do {
     ip \<leftarrow> get_ip_hdr p;
     p \<leftarrow> put_ip_hdr p (ip\<lparr>ip_sum := 0\<rparr>);
     acc \<leftarrow> sum_shorts (\<lambda>i. i \<noteq> 5) p ETH_HDR_LEN 0 (unat (ip_hl ip) * 2) (0 :: 64 word);
     Some (ones_complement acc, p) }"

definition verify_checksum :: "byte list \<Rightarrow> nat \<Rightarrow> nat \<Rightarrow> int outcome" where
  "verify_checksum p off data_length = do {
     sum_2_comp \<leftarrow> sum_shorts (\<lambda>i. True) p off 0 (data_length div 2) (0 :: u32);
     let sum_1_comp = (ucast (drop_bit 16 sum_2_comp + (sum_2_comp AND 0xFFFF)) :: u16);
     Some (if sum_1_comp = 0xFFFF then 0 else 1) }"

definition compute_icmp_checksum :: "byte list \<Rightarrow> int \<Rightarrow> (u16 \<times> byte list) outcome" where
  "compute_icmp_checksum p payload_len = do {
     icmp \<leftarrow> get_icmp_hdr p;
     p \<leftarrow> put_icmp_hdr p (icmp\<lparr>icmp_sum := 0\<rparr>);
     acc \<leftarrow> sum_shorts (\<lambda>i. i \<noteq> 1) p (ETH_HDR_LEN + IP_HDR_LEN) 0 (nat ((4 + payload_len) div 2)) (0 :: 64 word);
     Some (ones_complement acc, p) }"

text \<open>The argument \<open>off\<close> is where the \<open>pwospf_hdr\<close> starts in the buffer.\<close>

definition compute_pwospf_checksum :: "byte list \<Rightarrow> nat \<Rightarrow> (u16 \<times> byte list) outcome" where
  "compute_pwospf_checksum p off = do {
     pwospf \<leftarrow> get_struct dec_pwospf 24 p off;
     p \<leftarrow> put_struct enc_pwospf p off (pwospf\<lparr>pwospf_sum := 0\<rparr>);
     acc \<leftarrow> sum_shorts (\<lambda>i. i < 8 \<or> 11 < i) p off 0 (unat (ntohs (pwospf_len pwospf)) div 2) (0 :: 64 word);
     Some (ones_complement acc, p) }"

text \<open>\<open>x->sum = htons(compute_x_checksum(x))\<close>, as every sender writes it.\<close>

definition store_ip_checksum :: "byte list \<Rightarrow> byte list outcome" where
  "store_ip_checksum p = do {
     (c, p) \<leftarrow> compute_ip_checksum p;
     ip \<leftarrow> get_ip_hdr p;
     put_ip_hdr p (ip\<lparr>ip_sum := htons c\<rparr>) }"

definition store_icmp_checksum :: "byte list \<Rightarrow> int \<Rightarrow> byte list outcome" where
  "store_icmp_checksum p payload_len = do {
     (c, p) \<leftarrow> compute_icmp_checksum p payload_len;
     icmp \<leftarrow> get_icmp_hdr p;
     put_icmp_hdr p (icmp\<lparr>icmp_sum := htons c\<rparr>) }"

definition store_pwospf_checksum :: "byte list \<Rightarrow> nat \<Rightarrow> byte list outcome" where
  "store_pwospf_checksum p off = do {
     (c, p) \<leftarrow> compute_pwospf_checksum p off;
     pwospf \<leftarrow> get_struct dec_pwospf 24 p off;
     put_struct enc_pwospf p off (pwospf\<lparr>pwospf_sum := htons c\<rparr>) }"

section \<open>The sums as natural numbers\<close>

definition be16 :: "byte list \<Rightarrow> nat \<Rightarrow> nat" where
  "be16 p off = 256 * unat (p ! off) + unat (p ! Suc off)"

fun nat_sum :: "(nat \<Rightarrow> bool) \<Rightarrow> byte list \<Rightarrow> nat \<Rightarrow> nat \<Rightarrow> nat \<Rightarrow> nat" where
  "nat_sum use p off i 0 = 0"
| "nat_sum use p off i (Suc k) =
     (if use i then be16 p (off + 2 * i) else 0) + nat_sum use p off (Suc i) k"

lemma ld16_Some: "off + 2 \<le> length p \<Longrightarrow> \<exists>w. ld16 p off = Some w \<and> unat (ntohs w) = be16 p off"
  by (auto simp: ld16_def mem_ld_def le16_at_def unat_htons_le16 be16_def nth_append)

lemma be16_less: "be16 p off < 65536"
  unfolding be16_def using unat_byte_less[of "p ! off"] unat_byte_less[of "p ! Suc off"] by linarith

lemma nat_sum_le: "nat_sum use p off i k \<le> 65535 * k"
proof (induction k arbitrary: i)
  case (Suc k)
  have "be16 p (off + 2 * i) \<le> 65535" using be16_less[of p "off + 2 * i"] by simp
  with Suc[of "Suc i"] show ?case by auto
qed simp

lemma sum_shorts_nat:
  fixes acc :: "'w::len word"
  assumes "off + 2 * (i + k) \<le> length p" and "unat acc + 65535 * k < 2 ^ LENGTH('w)" and "16 \<le> LENGTH('w)"
  shows "\<exists>s. sum_shorts use p off i k acc = Some s \<and> unat s = unat acc + nat_sum use p off i k"
  using assms(1,2)
proof (induction k arbitrary: i acc)
  case (Suc k)
  show ?case
  proof (cases "use i")
    case True
    obtain w where w: "ld16 p (off + 2 * i) = Some w" "unat (ntohs w) = be16 p (off + 2 * i)"
      using ld16_Some[of "off + 2 * i" p] Suc.prems(1) by auto
    have "(65536::nat) \<le> 2 ^ LENGTH('w)" using power_increasing[OF assms(3), of "2::nat"] by simp
    then have "unat (ucast (ntohs w) :: 'w word) = be16 p (off + 2 * i)"
      using w(2) be16_less[of p "off + 2 * i"] by (simp add: unsigned_ucast_eq take_bit_nat_eq_self)
    then have add: "unat (acc + ucast (ntohs w)) = unat acc + be16 p (off + 2 * i)"
      using Suc.prems(2) be16_less[of p "off + 2 * i"] by (simp add: unat_word_ariths)
    have "unat (acc + ucast (ntohs w)) + 65535 * k < 2 ^ LENGTH('w)"
      using add Suc.prems(2) be16_less[of p "off + 2 * i"] by simp
    with Suc.IH[of "Suc i" "acc + ucast (ntohs w)"] Suc.prems(1) True w(1) add show ?thesis by auto
  next
    case False
    with Suc.IH[of "Suc i" acc] Suc.prems show ?thesis by auto
  qed
qed simp

section \<open>Folding\<close>

text \<open>What folding does to a sum below \<open>2 ^ 32\<close>: the residue modulo 65535, with 65535 for a nonzero multiple.\<close>

definition residue :: "nat \<Rightarrow> nat" where
  "residue n = (if n = 0 then 0 else Suc ((n - 1) mod 65535))"

lemma residue_fold: "n < 65536 * 65536 \<Longrightarrow> m = n div 65536 + n mod 65536 \<Longrightarrow>
   (m + m div 65536) mod 65536 = residue n"
proof (cases "n = 0")
  case False
  assume n: "n < 65536 * 65536" and m: "m = n div 65536 + n mod 65536"
  define h l where "h = n div 65536" and "l = n mod 65536"
  have nhl: "n = 65536 * h + l" "h \<le> 65535" "l \<le> 65535"
    using n by (auto simp: h_def l_def less_mult_imp_div_less)
  have mhl: "m = h + l" using m by (simp add: h_def l_def)
  have pos: "0 < m" using False nhl mhl by auto
  show ?thesis
  proof (cases "m < 65536")
    case True
    have "n - 1 = (m - 1) + 65535 * h" using nhl mhl pos by simp
    then have "(n - 1) mod 65535 = (m - 1) mod 65535" by simp
    with True pos False show ?thesis by (simp add: residue_def)
  next
    case False
    then have dm: "m div 65536 = 1" using nhl mhl by auto
    have "n - 1 = (m - 65536) + (h + 1) * 65535" using nhl mhl False by simp
    then have "(n - 1) mod 65535 = (m - 65536) mod 65535" by (simp only: mod_mult_self1)
    also have "\<dots> = m - 65536" using nhl mhl by simp
    finally have "(n - 1) mod 65535 = m - 65536" .
    moreover have "(m + 1) mod 65536 = m + 1 - 65536"
      using False nhl mhl by (simp add: mod_if)
    ultimately show ?thesis using dm False \<open>n \<noteq> 0\<close> by (simp add: residue_def)
  qed
qed (simp add: residue_def)

lemma residue_le: "residue n \<le> 65535"
  by (simp add: residue_def Suc_le_eq)

lemma residue_dvd: "\<exists>k. n = residue n + 65535 * k"
proof (cases "n = 0")
  case False
  have "n - 1 = (n - 1) mod 65535 + 65535 * ((n - 1) div 65535)" by simp
  with False have "n = residue n + 65535 * ((n - 1) div 65535)" unfolding residue_def by simp
  then show ?thesis by blast
qed (simp add: residue_def)

lemma unat_low16:
  fixes w :: "'w::len word"
  assumes "16 \<le> LENGTH('w)"
  shows "unat (w AND 0xFFFF) = unat w mod 65536"
proof -
  have "w AND 0xFFFF = take_bit 16 w"
    by (simp add: take_bit_eq_mask mask_eq_exp_minus_1)
  then have "unat (w AND 0xFFFF) = take_bit 16 (unat w)"
    by (simp only: unsigned_take_bit_eq)
  then show ?thesis by (simp add: take_bit_eq_mod)
qed

lemma unat_drop16: "unat (drop_bit 16 (w::'a::len word)) = unat w div 65536"
proof -
  have "unat (drop_bit 16 w) = drop_bit 16 (take_bit LENGTH('a) (unat w))"
    by (simp only: unsigned_drop_bit_eq)
  then show ?thesis by (simp add: drop_bit_eq_div take_bit_nat_eq_self)
qed

lemma unat_not16: "unat (NOT (w::u16)) = 65535 - unat w"
proof -
  have "NOT w = - 1 - w" by (simp add: not_eq_complement)
  moreover have "w \<le> - 1" by simp
  ultimately have "unat (NOT w) = unat (- 1 :: u16) - unat w" by (simp only: unat_sub)
  moreover have "unat (- 1 :: u16) = 65535" by (simp add: unsigned_minus_1_eq_mask mask_eq_exp_minus_1)
  ultimately show ?thesis by simp
qed

lemma unat_ones_complement:
  fixes acc :: "'w::len word"
  assumes "unat acc < 65536 * 65536" and "18 \<le> LENGTH('w)"
  shows "unat (ones_complement acc) = 65535 - residue (unat acc)"
proof -
  let ?m = "unat acc div 65536 + unat acc mod 65536"
  have big: "(262144::nat) \<le> 2 ^ LENGTH('w)" using power_increasing[OF assms(2), of "2::nat"] by simp
  have l16: "16 \<le> LENGTH('w)" using assms(2) by simp
  have m: "?m < 131072" using assms(1) by (simp add: less_mult_imp_div_less)
  let ?a1 = "drop_bit 16 acc + (acc AND 0xFFFF)"
  have a1: "unat ?a1 = ?m" using m big by (simp add: unat_word_ariths unat_low16[OF l16] unat_drop16)
  have "?m + ?m div 65536 < 2 ^ LENGTH('w)" using m big by linarith
  moreover have "unat (?a1 + drop_bit 16 ?a1) = (unat ?a1 + unat ?a1 div 65536) mod 2 ^ LENGTH('w)"
    by (simp only: unat_word_ariths(1)[of ?a1] unat_drop16)
  ultimately have "unat (?a1 + drop_bit 16 ?a1) = ?m + ?m div 65536"
    unfolding a1 by (simp only: mod_less)
  then have "unat (ucast ((?a1 + drop_bit 16 ?a1) AND 0xFFFF) :: u16) = (?m + ?m div 65536) mod 65536"
    by (simp add: unsigned_ucast_eq unat_low16[OF l16] take_bit_eq_mod)
  also have "\<dots> = residue (unat acc)" using residue_fold[OF assms(1) refl] .
  finally show ?thesis by (simp add: ones_complement_def Let_def unat_not16)
qed

text \<open>Adding the complement makes the sum a nonzero multiple of 65535, which one fold turns into 65535.\<close>

lemma fold_complement:
  assumes "n < 65535 * 65536" and "t = n + (65535 - residue n)"
  shows "(t div 65536 + t mod 65536) mod 65536 = 65535"
proof -
  obtain k where k: "n = residue n + 65535 * k" using residue_dvd by blast
  with residue_le[of n] assms have t: "t = 65536 * k + (65535 - k)" and "k < 65536" by auto
  then have "t div 65536 = k" "t mod 65536 = 65535 - k"
    by (simp_all only: div_mult_self4 mod_mult_self4 div_less mod_less)
  with \<open>k < 65536\<close> show ?thesis by simp
qed

section \<open>A stored checksum verifies\<close>

text \<open>Rewriting the two bytes that hold the checksum changes the sum over all words accordingly.\<close>

lemma nat_sum_cong:
  "(\<And>j. i \<le> j \<Longrightarrow> j < i + k \<Longrightarrow> use j = use' j) \<Longrightarrow>
   (\<And>j. i \<le> j \<Longrightarrow> j < i + k \<Longrightarrow> use j \<Longrightarrow> be16 p (off + 2 * j) = be16 q (off + 2 * j)) \<Longrightarrow>
   nat_sum use p off i k = nat_sum use' q off i k"
  by (induction k arbitrary: i) auto

lemma nat_sum_split_at:
  "i \<le> c \<Longrightarrow> c < i + k \<Longrightarrow>
   nat_sum (\<lambda>j. True) p off i k = nat_sum (\<lambda>j. j \<noteq> c) p off i k + be16 p (off + 2 * c)"
proof (induction k arbitrary: i)
  case (Suc k)
  show ?case
  proof (cases "i = c")
    case True
    have "nat_sum (\<lambda>j. True) p off (Suc i) k = nat_sum (\<lambda>j. j \<noteq> c) p off (Suc i) k"
      by (rule nat_sum_cong) (use True in auto)
    with True show ?thesis by simp
  next
    case False
    with Suc.prems Suc.IH[of "Suc i"] show ?thesis by simp
  qed
qed simp

lemma verify_checksum_nat:
  assumes "off + 2 * k \<le> length p" and "n div 2 = k" and "k < 65536"
  shows "verify_checksum p off n =
    Some (if (nat_sum (\<lambda>j. True) p off 0 k div 65536 + nat_sum (\<lambda>j. True) p off 0 k mod 65536)
             mod 65536 = 65535 then 0 else 1)"
proof -
  obtain s :: u32 where s: "sum_shorts (\<lambda>i. True) p off 0 k 0 = Some s"
    "unat s = nat_sum (\<lambda>j. True) p off 0 k"
    using sum_shorts_nat[of off 0 k p "0::u32" "\<lambda>i. True"] assms by auto
  let ?m = "unat s div 65536 + unat s mod 65536"
  have "unat s div 65536 < 65536" using unat_u32_less[of s] by (simp add: less_mult_imp_div_less)
  then have m: "?m < 131072" by (metis add_strict_mono mod_less_divisor numeral_Bit0 zero_less_numeral)
  have "unat (drop_bit 16 s + (s AND 0xFFFF)) = ?m"
    using m by (simp add: unat_word_ariths unat_low16 unat_drop16)
  then have "unat (ucast (drop_bit 16 s + (s AND 0xFFFF)) :: u16) = ?m mod 65536"
    by (simp add: unsigned_ucast_eq take_bit_eq_mod)
  then have "((ucast (drop_bit 16 s + (s AND 0xFFFF)) :: u16) = 0xFFFF) = (?m mod 65536 = 65535)"
    by (simp add: word_unat_eq_iff)
  with s assms(2) show ?thesis by (simp add: verify_checksum_def)
qed

lemma put_ip_sum:
  assumes "get_ip_hdr p = Some h"
  shows "put_ip_hdr p (h\<lparr>ip_sum := x\<rparr>) = mem_st p 24 (enc16 x)"
proof -
  have "put_struct enc_ip p 14 (h\<lparr>ip_sum := x\<rparr>) = mem_st p (14 + 10) (enc16 x)"
    by (rule ip_wire.put_field) (use assms in \<open>simp_all add: get_ip_hdr_def enc_ip_def codec\<close>)
  then show ?thesis by (simp add: put_ip_hdr_def)
qed

lemma put_icmp_sum:
  assumes "get_icmp_hdr p = Some h"
  shows "put_icmp_hdr p (h\<lparr>icmp_sum := x\<rparr>) = mem_st p 36 (enc16 x)"
proof -
  have "put_struct enc_icmp p 34 (h\<lparr>icmp_sum := x\<rparr>) = mem_st p (34 + 2) (enc16 x)"
    by (rule icmp_wire.put_field) (use assms in \<open>simp_all add: get_icmp_hdr_def enc_icmp_def codec\<close>)
  then show ?thesis by (simp add: put_icmp_hdr_def)
qed

lemma put_pwospf_sum:
  assumes "get_struct dec_pwospf 24 p off = Some h"
  shows "put_struct enc_pwospf p off (h\<lparr>pwospf_sum := x\<rparr>) = mem_st p (off + 12) (enc16 x)"
  by (rule pwospf_wire.put_field[OF assms]) (simp_all add: enc_pwospf_def codec)

lemma length_enc16 [simp]: "length (enc16 x) = 2"
  by (simp add: enc16_def)

lemma be16_mem_st_same: "mem_st p off (enc16 (htons c)) = Some q \<Longrightarrow> be16 q off = unat c"
proof -
  assume st: "mem_st p off (enc16 (htons c)) = Some q"
  then have "off + 2 \<le> length p" by (simp add: mem_st_def split: if_splits)
  then have "q ! off = byteN 0 (htons c)" "q ! Suc off = byteN 1 (htons c)"
    using mem_st_nth[OF st] by (auto simp: enc16_def)
  moreover have "unat c = 256 * unat (byteN 1 c) + unat (byteN 0 c)"
    using unat_le16[of "byteN 0 c" "byteN 1 c"] by simp
  ultimately show ?thesis by (simp add: be16_def htons_def)
qed

lemma be16_mem_st_other:
  "mem_st p off (enc16 x) = Some q \<Longrightarrow> i + 2 \<le> off \<or> off + 2 \<le> i \<Longrightarrow> i + 2 \<le> length p \<Longrightarrow>
   be16 q i = be16 p i"
  by (auto simp: be16_def mem_st_nth)

text \<open>Writing at a word of a region the complement of the sum over the others makes the region verify.\<close>

lemma complement_verifies:
  assumes len: "off + 2 * k \<le> length p" and c: "c < k" and k: "k < 65536"
    and st: "mem_st p (off + 2 * c) (enc16 (htons v)) = Some q"
    and v: "unat v = 65535 - residue (nat_sum (\<lambda>j. j \<noteq> c) p off 0 k)"
  shows "verify_checksum q off (2 * k) = Some 0"
proof -
  let ?n = "nat_sum (\<lambda>j. j \<noteq> c) p off 0 k"
  have others: "nat_sum (\<lambda>j. j \<noteq> c) q off 0 k = ?n"
    by (rule nat_sum_cong) (use len in \<open>auto intro!: be16_mem_st_other[OF st]\<close>)
  have "nat_sum (\<lambda>j. True) q off 0 k = ?n + (65535 - residue ?n)"
    using nat_sum_split_at[of 0 c k q off] c others be16_mem_st_same[OF st] v by simp
  moreover have "?n < 65535 * 65536"
    using nat_sum_le[of "\<lambda>j. j \<noteq> c" p off 0 k] k by simp
  ultimately have "(nat_sum (\<lambda>j. True) q off 0 k div 65536 + nat_sum (\<lambda>j. True) q off 0 k mod 65536)
      mod 65536 = 65535"
    by (intro fold_complement) auto
  then show ?thesis using verify_checksum_nat[of off k q "2 * k"] len k mem_st_length[OF st] by simp
qed

lemma compute_ip_checksum_eq:
  assumes h: "get_ip_hdr p = Some h" and hl: "ip_hl h = 5"
  shows "\<exists>c p1. compute_ip_checksum p = Some (c, p1) \<and> mem_st p 24 (enc16 0) = Some p1 \<and>
    unat c = 65535 - residue (nat_sum (\<lambda>j. j \<noteq> 5) p1 14 0 10)"
proof -
  have len: "34 \<le> length p" using h get_ip_None_iff[of p] by (cases "length p < 34") auto
  obtain p1 where p1: "mem_st p 24 (enc16 0) = Some p1" using len by (simp add: mem_st_def)
  then have "34 \<le> length p1" using len mem_st_length by metis
  then obtain s :: "64 word" where s: "sum_shorts (\<lambda>i. i \<noteq> 5) p1 14 0 10 0 = Some s"
    "unat s = nat_sum (\<lambda>j. j \<noteq> 5) p1 14 0 10"
    using sum_shorts_nat[of 14 0 10 p1 "0 :: 64 word" "\<lambda>i. i \<noteq> 5"] by auto
  have "unat s < 65536 * 65536" using s(2) nat_sum_le[of "\<lambda>j. j \<noteq> 5" p1 14 0 10] by simp
  with s p1 h hl show ?thesis
    by (simp add: compute_ip_checksum_def put_ip_sum unat_ones_complement)
qed

lemma store_ip_checksum_frame:
  assumes h: "get_ip_hdr p = Some h" and hl: "ip_hl h = 5"
  shows "\<exists>q x. store_ip_checksum p = Some q \<and> verify_checksum q 14 20 = Some 0 \<and>
    get_ip_hdr q = Some (h\<lparr>ip_sum := x\<rparr>) \<and> mem_st p 24 (enc16 x) = Some q"
proof -
  obtain c p1 where c: "compute_ip_checksum p = Some (c, p1)" "mem_st p 24 (enc16 0) = Some p1"
    "unat c = 65535 - residue (nat_sum (\<lambda>j. j \<noteq> 5) p1 14 0 10)"
    using compute_ip_checksum_eq[OF h hl] by blast
  have len: "34 \<le> length p" using h get_ip_None_iff[of p] by (cases "length p < 34") auto
  have h1: "get_ip_hdr p1 = Some (h\<lparr>ip_sum := 0\<rparr>)"
    using c(2) put_ip_sum[OF h, of 0] get_ip_put_ip by simp
  have lp1: "length p1 = length p" using mem_st_length[OF c(2)] .
  then obtain q where q: "mem_st p1 24 (enc16 (htons c)) = Some q" using len by (simp add: mem_st_def)
  have put: "put_ip_hdr p1 (h\<lparr>ip_sum := htons c\<rparr>) = Some q"
    using put_ip_sum[OF h1, of "htons c"] q by simp
  have "verify_checksum q 14 (2 * 10) = Some 0"
    by (rule complement_verifies[where c = 5 and p = p1]) (use q c(3) len lp1 in auto)
  moreover have "mem_st p 24 (enc16 (htons c)) = Some q"
    using mem_st_twice[OF c(2), of "enc16 (htons c)"] q by simp
  ultimately show ?thesis
    using c(1) h1 put get_ip_put_ip[OF put] by (auto simp: store_ip_checksum_def)
qed

lemma compute_icmp_checksum_eq:
  assumes h: "get_icmp_hdr p = Some h" and len: "38 + n \<le> length p" and n: "n < 131068"
  shows "\<exists>c p1. compute_icmp_checksum p (int n) = Some (c, p1) \<and> mem_st p 36 (enc16 0) = Some p1 \<and>
    unat c = 65535 - residue (nat_sum (\<lambda>j. j \<noteq> 1) p1 34 0 ((4 + n) div 2))"
proof -
  obtain p1 where p1: "mem_st p 36 (enc16 0) = Some p1" using len by (simp add: mem_st_def)
  have l1: "length p1 = length p" using mem_st_length[OF p1] .
  let ?k = "(4 + n) div 2"
  have k: "?k < 65536" and "34 + 2 * ?k \<le> length p1" using n len l1 by auto
  then obtain s :: "64 word" where s: "sum_shorts (\<lambda>i. i \<noteq> 1) p1 34 0 ?k 0 = Some s"
    "unat s = nat_sum (\<lambda>j. j \<noteq> 1) p1 34 0 ?k"
    using sum_shorts_nat[of 34 0 ?k p1 "0 :: 64 word" "\<lambda>i. i \<noteq> 1"] by auto
  have "unat s < 65536 * 65536" using s(2) nat_sum_le[of "\<lambda>j. j \<noteq> 1" p1 34 0 ?k] k by simp
  moreover have "nat ((4 + int n) div 2) = ?k" by (simp add: nat_div_distrib nat_add_distrib)
  ultimately show ?thesis using s p1 h
    by (simp add: compute_icmp_checksum_def put_icmp_sum unat_ones_complement)
qed

lemma store_icmp_checksum_frame:
  assumes h: "get_icmp_hdr p = Some h" and len: "38 + n \<le> length p" and n: "n < 131068"
  shows "\<exists>q x. store_icmp_checksum p (int n) = Some q \<and> verify_checksum q 34 (2 * ((4 + n) div 2)) = Some 0 \<and>
    get_icmp_hdr q = Some (h\<lparr>icmp_sum := x\<rparr>) \<and> mem_st p 36 (enc16 x) = Some q"
proof -
  let ?k = "(4 + n) div 2"
  obtain c p1 where c: "compute_icmp_checksum p (int n) = Some (c, p1)" "mem_st p 36 (enc16 0) = Some p1"
    "unat c = 65535 - residue (nat_sum (\<lambda>j. j \<noteq> 1) p1 34 0 ?k)"
    using compute_icmp_checksum_eq[OF assms] by blast
  have h1: "get_icmp_hdr p1 = Some (h\<lparr>icmp_sum := 0\<rparr>)"
    using c(2) put_icmp_sum[OF h, of 0] get_icmp_put_icmp by simp
  have lp1: "length p1 = length p" using mem_st_length[OF c(2)] .
  then obtain q where q: "mem_st p1 36 (enc16 (htons c)) = Some q" using len by (simp add: mem_st_def)
  have put: "put_icmp_hdr p1 (h\<lparr>icmp_sum := htons c\<rparr>) = Some q"
    using put_icmp_sum[OF h1, of "htons c"] q by simp
  have "verify_checksum q 34 (2 * ?k) = Some 0"
    by (rule complement_verifies[where c = 1 and p = p1]) (use q c(3) len lp1 n in auto)
  moreover have "mem_st p 36 (enc16 (htons c)) = Some q"
    using mem_st_twice[OF c(2), of "enc16 (htons c)"] q by simp
  ultimately show ?thesis
    using c(1) h1 put get_icmp_put_icmp[OF put] by (auto simp: store_icmp_checksum_def)
qed

lemma fold_65535_iff:
  assumes "t \<le> 65535 * (65535 :: nat)"
  shows "(t div 65536 + t mod 65536) mod 65536 = 65535 \<longleftrightarrow> t \<noteq> 0 \<and> 65535 dvd t"
proof -
  define h l where "h = t div 65536" and "l = t mod 65536"
  have t: "t = 65536 * h + l" "l \<le> 65535" by (auto simp: h_def l_def)
  then have h: "h \<le> 65534" using assms by linarith
  have "t = 65535 * h + (h + l)" using t(1) by simp
  then have "65535 dvd t \<longleftrightarrow> 65535 dvd h + l" by (metis dvd_add_right_iff dvd_triv_left)
  moreover have "65535 dvd h + l \<longleftrightarrow> h + l = 0 \<or> h + l = 65535"
  proof
    assume "65535 dvd h + l"
    then obtain k where k: "h + l = 65535 * k" by blast
    with t(2) h have "k \<le> 1" by linarith
    then have "k = 0 \<or> k = 1" by auto
    with k show "h + l = 0 \<or> h + l = 65535" by auto
  qed auto
  moreover have "h + l = 0 \<longleftrightarrow> t = 0" using t(1) by auto
  moreover have "(h + l) mod 65536 = 65535 \<longleftrightarrow> h + l = 65535"
    using t(2) h by (cases "h + l < 65536") (auto simp: mod_if)
  ultimately show ?thesis unfolding h_def[symmetric] l_def[symmetric] by auto
qed

section \<open>Headers in front of a payload\<close>

lemma ld16_append: "ld16 (a @ r) (length a + m) = ld16 r m"
  by (simp add: ld16_def mem_ld_def)

lemma sum_shorts_append: "sum_shorts use (a @ r) (length a + k) i n acc = sum_shorts use r k i n acc"
  by (induction n arbitrary: i acc) (simp_all add: ld16_append add.assoc)

lemma verify_checksum_append:
  "length a = off \<Longrightarrow> verify_checksum (a @ r) (off + k) n = verify_checksum r k n"
  by (auto simp: verify_checksum_def sum_shorts_append)

lemma store_ip_checksum_at:
  assumes "length a = 14" and "ip_hl h = 5"
  shows "\<exists>x. store_ip_checksum (a @ enc_ip h @ c) = Some (a @ enc_ip (h\<lparr>ip_sum := x\<rparr>) @ c) \<and>
    verify_checksum (enc_ip (h\<lparr>ip_sum := x\<rparr>) @ c) 0 20 = Some 0"
proof -
  let ?p = "a @ enc_ip h @ c"
  have g: "get_ip_hdr ?p = Some h"
    using ip_wire.get_at[of a 14 "enc_ip h" c] assms(1)
    by (simp add: get_ip_hdr_def ip_wire.enc_length ip_wire.dec_enc)
  then obtain q x where q: "store_ip_checksum ?p = Some q" "verify_checksum q 14 20 = Some 0"
    "mem_st ?p 24 (enc16 x) = Some q" using store_ip_checksum_frame[OF _ assms(2)] by blast
  have "q = a @ enc_ip (h\<lparr>ip_sum := x\<rparr>) @ c"
    using q(3) put_ip_sum[OF g, of x] ip_wire.put_at[of a 14 "enc_ip h" c] assms(1)
    by (simp add: put_ip_hdr_def ip_wire.enc_length)
  with q verify_checksum_append[of a 14 "enc_ip (h\<lparr>ip_sum := x\<rparr>) @ c" 0 20] assms(1) show ?thesis by auto
qed

lemma store_icmp_checksum_at:
  assumes "length a = 34" and "length c = n" and "n < 131068"
  shows "\<exists>x. store_icmp_checksum (a @ enc_icmp h @ c) (int n) = Some (a @ enc_icmp (h\<lparr>icmp_sum := x\<rparr>) @ c) \<and>
    verify_checksum (enc_icmp (h\<lparr>icmp_sum := x\<rparr>) @ c) 0 (4 + n - n mod 2) = Some 0"
proof -
  let ?p = "a @ enc_icmp h @ c"
  have g: "get_icmp_hdr ?p = Some h"
    using icmp_wire.get_at[of a 34 "enc_icmp h" c] assms(1)
    by (simp add: get_icmp_hdr_def icmp_wire.enc_length icmp_wire.dec_enc)
  have w: "2 * ((4 + n) div 2) = 4 + n - n mod 2" by presburger
  have "38 + n \<le> length ?p" using assms by (simp add: icmp_wire.enc_length)
  from store_icmp_checksum_frame[OF g this assms(3)] w
  obtain q x where q: "store_icmp_checksum ?p (int n) = Some q" "verify_checksum q 34 (4 + n - n mod 2) = Some 0"
    "mem_st ?p 36 (enc16 x) = Some q" by auto
  have "q = a @ enc_icmp (h\<lparr>icmp_sum := x\<rparr>) @ c"
    using q(3) put_icmp_sum[OF g, of x] icmp_wire.put_at[of a 34 "enc_icmp h" c] assms(1)
    by (simp add: put_icmp_hdr_def icmp_wire.enc_length)
  with q verify_checksum_append[of a 34 "enc_icmp (h\<lparr>icmp_sum := x\<rparr>) @ c" 0] assms(1) show ?thesis by auto
qed

section \<open>Properties\<close>

text \<open>
  \<open>verify_checksum\<close> accepts a region of fewer than 65536 words exactly when the sum of its
  big-endian words is a nonzero multiple of 65535: the 32-bit accumulator does not overflow and the
  single fold loses nothing.
\<close>

theorem verify_checksum_exact:
  assumes "off + n \<le> length p" and "n < 131072"
  shows "verify_checksum p off n =
    Some (if nat_sum (\<lambda>j. True) p off 0 (n div 2) \<noteq> 0 \<and> 65535 dvd nat_sum (\<lambda>j. True) p off 0 (n div 2)
          then 0 else 1)"
proof -
  have k: "off + 2 * (n div 2) \<le> length p" "n div 2 < 65536" using assms by auto
  have "nat_sum (\<lambda>j. True) p off 0 (n div 2) \<le> 65535 * 65535"
    using nat_sum_le[of "\<lambda>j. True" p off 0 "n div 2"] k(2) by simp
  from fold_65535_iff[OF this] verify_checksum_nat[OF k(1) refl k(2)] show ?thesis by simp
qed

theorem verify_checksum_exact_witness:
  "verify_checksum [0x12, 0x34, 0xED, 0xCB] 0 4 = Some 0 \<and> verify_checksum [0, 0, 0, 0] 0 4 = Some 1"
proof -
  have "nat_sum (\<lambda>j. True) [0x12, 0x34, 0xED, 0xCB] 0 0 (Suc (Suc 0)) = 65535" by (simp add: be16_def)
  moreover have "nat_sum (\<lambda>j. True) [0, 0, 0, 0] 0 0 (Suc (Suc 0)) = 0" by (simp add: be16_def)
  moreover have "(4::nat) div 2 = Suc (Suc 0)" by simp
  ultimately show ?thesis
    using verify_checksum_exact[of 0 4 "[0x12, 0x34, 0xED, 0xCB]"] verify_checksum_exact[of 0 4 "[0, 0, 0, 0]"]
    by (simp only: list.size) simp
qed

text \<open>
  Storing the IP checksum makes a header without options verify, and writes nothing but the two bytes
  of the checksum field.
\<close>

theorem store_ip_checksum_verifies:
  assumes "get_ip_hdr p = Some h" and "ip_hl h = 5"
  shows "\<exists>q x. store_ip_checksum p = Some q \<and> verify_checksum q 14 20 = Some 0 \<and>
    get_ip_hdr q = Some (h\<lparr>ip_sum := x\<rparr>) \<and> q = take 24 p @ enc16 x @ drop 26 p"
  using store_ip_checksum_frame[OF assms] by (auto simp: mem_st_def split: if_splits)

theorem store_ip_checksum_verifies_witness:
  "\<exists>q. store_ip_checksum (replicate 14 0 @ enc_ip (populate_ip 8 1 10 20)) = Some q \<and>
     verify_checksum q 14 20 = Some 0"
proof -
  let ?h = "populate_ip 8 1 10 20"
  have "get_ip_hdr (replicate 14 0 @ enc_ip ?h) = Some ?h"
    using ip_wire.get_at[of "replicate 14 0" 14 "enc_ip ?h" "[]"]
    by (simp add: get_ip_hdr_def ip_wire.enc_length ip_wire.dec_enc)
  moreover have "ip_hl ?h = 5" by (simp add: populate_ip_def)
  ultimately show ?thesis using store_ip_checksum_verifies by blast
qed

text \<open>
  Storing the ICMP checksum over a header and \<open>n\<close> bytes of payload makes the whole words of that
  message verify; for an odd \<open>n\<close> the last byte is not covered by the sum.
\<close>

theorem store_icmp_checksum_verifies:
  assumes "get_icmp_hdr p = Some h" and "38 + n \<le> length p" and "n < 131068"
  shows "\<exists>q x. store_icmp_checksum p (int n) = Some q \<and> verify_checksum q 34 (4 + n - n mod 2) = Some 0 \<and>
    get_icmp_hdr q = Some (h\<lparr>icmp_sum := x\<rparr>) \<and> q = take 36 p @ enc16 x @ drop 38 p"
proof -
  have "2 * ((4 + n) div 2) = 4 + n - n mod 2" by presburger
  with store_icmp_checksum_frame[OF assms] show ?thesis by (auto simp: mem_st_def split: if_splits)
qed

theorem store_icmp_checksum_verifies_witness:
  "\<exists>q. store_icmp_checksum (replicate 34 0 @ [8, 0, 0, 0] @ [1, 2, 3]) 3 = Some q \<and> verify_checksum q 34 6 = Some 0"
proof -
  let ?p = "replicate 34 0 @ [8, 0, 0, 0] @ [1, 2, 3] :: byte list"
  have "get_icmp_hdr ?p = Some (dec_icmp [8, 0, 0, 0])"
    using icmp_wire.get_at[of "replicate 34 0" 34 "[8, 0, 0, 0]" "[1, 2, 3]"] by (simp add: get_icmp_hdr_def)
  from store_icmp_checksum_verifies[OF this, of 3] show ?thesis by auto
qed

end
