(* ===== verification/Pwospf.thy ===== *)
theory Pwospf
  imports Arp Checksums
begin

text \<open>
  The link state protocol, \<^verbatim>\<open>or_pwospf.c\<close>, with \<open>get_router_by_rid\<close> and \<open>dijkstra_trigger\<close> of
  \<^verbatim>\<open>or_dijkstra.c\<close>: hello packets and the neighbours of an interface, link state updates and the database of routers,
  flooding, and the rounds of the four threads. This theory holds the definitions; \<open>Link_State\<close> has the properties.

  A router of the database is named by its position in \<open>pwospf_router_list\<close>.
\<close>

section \<open>The database\<close>

definition has_rid :: "u32 \<Rightarrow> pwospf_router \<Rightarrow> bool" where
  "has_rid rid r \<longleftrightarrow> pr_router_id r = rid"

definition get_router_by_rid :: "u32 \<Rightarrow> pwospf_router list \<Rightarrow> pwospf_router option" where
  "get_router_by_rid rid rl = find (has_rid rid) rl"

text \<open>A write through the pointer that \<open>get_router_by_rid\<close> returned.\<close>

definition set_router :: "u32 \<Rightarrow> (pwospf_router \<Rightarrow> pwospf_router) \<Rightarrow> router_state \<Rightarrow> router_state" where
  "set_router rid f rs = rs\<lparr>pwospf_router_list := update_first (has_rid rid) f (pwospf_router_list rs)\<rparr>"

definition dijkstra_trigger :: "router_state \<Rightarrow> router_state" where
  "dijkstra_trigger rs = cond_signal DijkstraCond (rs\<lparr>dijkstra_dirty := 1\<rparr>)"

section \<open>Validity\<close>

text \<open>
  Checking a packet clears its checksum field, because \<open>compute_pwospf_checksum\<close> does. The last test compares the
  router id in host order with the router's own in network order.
\<close>

definition is_pwospf_packet_valid :: "router_state \<Rightarrow> byte list \<Rightarrow> (bool \<times> byte list) outcome" where
  "is_pwospf_packet_valid rs packet = do {
     pwospf \<leftarrow> get_pwospf_hdr packet;
     if pwospf_ver pwospf \<noteq> 2 then Some (False, packet)
     else do {
       let pckt_sum = htons (pwospf_sum pwospf);
       (s, packet) \<leftarrow> compute_pwospf_checksum packet (ETH_HDR_LEN + IP_HDR_LEN);
       Some (pckt_sum = s \<and> ntohs (pwospf_atype pwospf) = 0 \<and> ntohl (pwospf_aid pwospf) = area_id rs \<and>
             ntohl (pwospf_rid pwospf) \<noteq> router_id rs, packet) } }"

section \<open>Advertisements\<close>

definition construct_pwospf_lsu_adv :: "router_state \<Rightarrow> (pwospf_lsu_adv list \<times> u32) outcome" where
  "construct_pwospf_lsu_adv rs = do {
     r \<leftarrow> get_router_by_rid (router_id rs) (pwospf_router_list rs);
     let num = word_of_nat (length (pr_interface_list r));
     let iface_adv = map (\<lambda>iface. \<lparr>adv_sub = pi_subnet iface, adv_mask = pi_mask iface, adv_rid = pi_router_id iface\<rparr>)
                         (pr_interface_list r);
     Some (iface_adv, num) }"

text \<open>The packet is cleared memory that the header, the update header and the advertisements fill completely.\<close>

definition construct_pwospf_lsu_packet :: "router_state \<Rightarrow> (byte list \<times> router_state) outcome" where
  "construct_pwospf_lsu_packet rs = do {
     our_router \<leftarrow> get_router_by_rid (router_id rs) (pwospf_router_list rs);
     (iface_adv, num) \<leftarrow> construct_pwospf_lsu_adv rs;
     let len = 24 + 8 + 12 * length iface_adv;
     let packet = enc_pwospf (populate_pwospf PWOSPF_TYPE_LINK_STATE_UPDATE (word_of_nat len) (router_id rs) (area_id rs)) @
                  enc_lsu (populate_pwospf_lsu (pr_seq our_router) num) @ concat (map enc_adv iface_adv);
     packet \<leftarrow> store_pwospf_checksum packet 0;
     Some (packet, set_router (router_id rs) (\<lambda>r. r\<lparr>pr_last_update := clock rs, pr_seq := pr_seq r + 1\<rparr>) rs) }"

section \<open>Flooding\<close>

text \<open>The IP packet that carries the link state update \<open>pwospf\<close> to the neighbour \<open>nbr\<close> of \<open>iface\<close>.\<close>

definition lsu_packet :: "byte list \<Rightarrow> iface_entry \<Rightarrow> nbr_router \<Rightarrow> byte list outcome" where
  "lsu_packet pwospf iface nbr = do {
     h \<leftarrow> get_struct dec_pwospf 24 pwospf 0;
     let plen = ntohs (pwospf_len h);
     let packet = replicate (14 + 20 + unat plen) 0;
     content \<leftarrow> mem_ld pwospf 0 (unat plen);
     packet \<leftarrow> mem_st packet (ETH_HDR_LEN + IP_HDR_LEN) content;
     packet \<leftarrow> put_ip_hdr packet (populate_ip plen IP_PROTO_PWOSPF (ie_ip iface) (nbr_ip nbr));
     packet \<leftarrow> store_ip_checksum packet;
     eth \<leftarrow> get_eth_hdr packet;
     put_eth_hdr packet (populate_eth_hdr eth None (ie_addr iface) ETH_TYPE_IP) }"

definition queue_lsu :: "byte list \<Rightarrow> u32 option \<Rightarrow> iface_entry \<Rightarrow> nbr_router \<Rightarrow> router_state \<Rightarrow> router_state outcome" where
  "queue_lsu pwospf src_ip iface nbr rs =
     (if src_ip = Some (nbr_ip nbr) then Some rs
      else do {
        packet \<leftarrow> lsu_packet pwospf iface nbr;
        rs \<leftarrow> acquire LsuQueue Wr rs;
        let rs = rs\<lparr>pwospf_lsu_queue := pwospf_lsu_queue rs @
                   [\<lparr>lq_ip = ie_ip iface, lq_iface = strncpy (ie_name iface) IF_LEN, lq_packet = packet\<rparr>]\<rparr>;
        release LsuQueue rs })"

definition broadcast_pwospf_lsu_packet :: "router_state \<Rightarrow> byte list \<Rightarrow> u32 option \<Rightarrow> router_state outcome" where
  "broadcast_pwospf_lsu_packet rs pwospf src_ip =
     run_all (\<lambda>iface rs. if ie_is_active iface then run_all (queue_lsu pwospf src_ip iface) (ie_nbr_routers iface) rs else Some rs)
       (if_list rs) rs"

text \<open>\<open>None\<close> after a failed assertion: the router's own entry is missing from the database.\<close>

definition start_lsu_bcast_flood :: "router_state \<Rightarrow> router_state outcome" where
  "start_lsu_bcast_flood rs =
     (if pwospf_lsu_broadcast rs = 0 then Some rs
      else do {
        (pwospf, rs) \<leftarrow> construct_pwospf_lsu_packet rs;
        rs \<leftarrow> broadcast_pwospf_lsu_packet rs pwospf None;
        our_router \<leftarrow> get_router_by_rid (router_id rs) (pwospf_router_list rs);
        Some (set_router (router_id rs) (\<lambda>r. r\<lparr>pr_last_update := clock rs\<rparr>) rs) })"

section \<open>Active links\<close>

text \<open>Two advertisements describe one link when subnet and mask agree and both name a router.\<close>

definition same_link :: "pwospf_interface \<Rightarrow> pwospf_interface \<Rightarrow> bool" where
  "same_link pi_this pi_another \<longleftrightarrow>
     pi_subnet pi_this = pi_subnet pi_another \<and> pi_mask pi_this = pi_mask pi_another \<and>
     \<not> (pi_router_id pi_this = 0 \<or> pi_router_id pi_another = 0)"

definition set_active :: "bool \<Rightarrow> nat \<Rightarrow> nat \<Rightarrow> pwospf_router list \<Rightarrow> pwospf_router list" where
  "set_active b k i rl = rl[k := (rl ! k)\<lparr>pr_interface_list :=
     (pr_interface_list (rl ! k))[i := (pr_interface_list (rl ! k) ! i)\<lparr>pi_is_active := b\<rparr>]\<rparr>]"

fun rid_index :: "u32 \<Rightarrow> pwospf_router list \<Rightarrow> nat option" where
  "rid_index rid [] = None"
| "rid_index rid (r # rl) = (if has_rid rid r then Some 0 else map_option Suc (rid_index rid rl))"

text \<open>The loop over the interfaces of the other router, at position \<open>q\<close>, for interface \<open>i\<close> of the router at \<open>k\<close>.\<close>

definition match_another :: "nat \<Rightarrow> nat \<Rightarrow> nat \<Rightarrow> pwospf_router list \<Rightarrow> pwospf_router list" where
  "match_another k i q rl =
     fold (\<lambda>j rl. if same_link (pr_interface_list (rl ! k) ! i) (pr_interface_list (rl ! q) ! j)
                  then set_active True q j (set_active True k i rl) else rl)
       [0..<length (pr_interface_list (rl ! q))] rl"

definition determine_active_interface :: "nat \<Rightarrow> nat \<Rightarrow> pwospf_router list \<Rightarrow> pwospf_router list" where
  "determine_active_interface k i rl =
     (let rl = set_active False k i rl
      in case rid_index (pi_router_id (pr_interface_list (rl ! k) ! i)) rl of
           None \<Rightarrow> rl
         | Some q \<Rightarrow> match_another k i q rl)"

definition determine_active_interfaces :: "nat \<Rightarrow> pwospf_router list \<Rightarrow> pwospf_router list" where
  "determine_active_interfaces k rl =
     fold (determine_active_interface k) [0..<length (pr_interface_list (rl ! k))] rl"

definition propagate_pwospf_changes :: "router_state \<Rightarrow> router_state outcome" where
  "propagate_pwospf_changes rs =
     (let rs = rs\<lparr>pwospf_router_list :=
                 fold determine_active_interfaces [0..<length (pwospf_router_list rs)] (pwospf_router_list rs)\<rparr>;
          rs = dijkstra_trigger rs
      in start_lsu_bcast_flood rs)"

section \<open>Static routes in the database\<close>

definition default_route_present :: "router_state \<Rightarrow> pwospf_interface option" where
  "default_route_present rs =
     map_option (\<lambda>re. \<lparr>pi_subnet = rt_ip re AND rt_mask re, pi_mask = rt_mask re, pi_router_id = 0, pi_is_active = False\<rparr>)
       (find (\<lambda>re. rt_is_static re \<and> rt_ip re = 0 \<and> rt_mask re = 0) (rtable rs))"

definition is_route_present :: "pwospf_router \<Rightarrow> pwospf_interface \<Rightarrow> bool" where
  "is_route_present router iface =
     list_ex (\<lambda>pi. pi_subnet pi = pi_subnet iface \<and> pi_mask pi = pi_mask iface \<and> pi_router_id pi = pi_router_id iface)
       (pr_interface_list router)"

section \<open>Hello packets\<close>

definition on_subnet :: "iface_entry \<Rightarrow> pwospf_interface \<Rightarrow> bool" where
  "on_subnet iface pi \<longleftrightarrow> pi_subnet pi = (ie_ip iface AND ie_mask iface) \<and> pi_mask pi = ie_mask iface"

text \<open>The loop over the neighbours does not stop at a match, so the last one counts.\<close>

definition update_last :: "('a \<Rightarrow> bool) \<Rightarrow> ('a \<Rightarrow> 'a) \<Rightarrow> 'a list \<Rightarrow> 'a list" where
  "update_last P f xs = rev (update_first P f (rev xs))"

definition link_neighbor :: "iface_entry \<Rightarrow> u32 \<Rightarrow> pwospf_interface list \<Rightarrow> pwospf_interface list outcome" where
  "link_neighbor iface rid il =
     (if list_ex (\<lambda>pi. on_subnet iface pi \<and> pi_router_id pi = 0) il
      then Some (update_first (\<lambda>pi. on_subnet iface pi \<and> pi_router_id pi = 0) (\<lambda>pi. pi\<lparr>pi_router_id := rid\<rparr>) il)
      else if il = [] then None
      else Some (il @ [\<lparr>pi_subnet = ie_ip iface AND ie_mask iface, pi_mask = ie_mask iface, pi_router_id = rid,
                        pi_is_active = False\<rparr>]))"

text \<open>
  The caller holds the routing table and the interface list for reading. When the masks differ the function returns with the
  mutex of the database still locked.
\<close>

definition process_pwospf_hello_packet :: "router_state \<Rightarrow> byte list \<Rightarrow> string \<Rightarrow> router_state outcome" where
  "process_pwospf_hello_packet rs packet interface = do {
     iphdr \<leftarrow> get_ip_hdr packet;
     pwospf \<leftarrow> get_pwospf_hdr packet;
     hello_hdr \<leftarrow> get_pwospf_hello_hdr packet;
     if pwospf_hello_interval rs \<noteq> ntohs (hello_hint hello_hdr) then Some rs
     else do {
       rs \<leftarrow> release RtableLock rs;
       rs \<leftarrow> release IfList rs;
       rs \<leftarrow> acquire IfList Wr rs;
       rs \<leftarrow> acquire RtableLock Rd rs;
       rs \<leftarrow> acquire RouterList Wr rs;
       iface \<leftarrow> get_iface rs interface;
       if ie_mask iface \<noteq> hello_mask hello_hdr then Some rs
       else do {
         let known = (\<lambda>nbr. nbr_ip nbr = ip_src iphdr \<and> nbr_router_id nbr = pwospf_rid pwospf);
         if list_ex known (ie_nbr_routers iface)
         then release RouterList (set_iface rs interface (\<lambda>ie. ie\<lparr>ie_nbr_routers :=
                update_last known (\<lambda>nbr. nbr\<lparr>nbr_last_rcvd_hello := clock rs\<rparr>) (ie_nbr_routers ie)\<rparr>))
         else do {
           let nbr = \<lparr>nbr_router_id = pwospf_rid pwospf, nbr_ip = ip_src iphdr, nbr_last_rcvd_hello = clock rs\<rparr>;
           let rs = set_iface rs interface (\<lambda>ie. ie\<lparr>ie_nbr_routers := ie_nbr_routers ie @ [nbr]\<rparr>);
           r \<leftarrow> get_router_by_rid (router_id rs) (pwospf_router_list rs);
           il \<leftarrow> link_neighbor iface (pwospf_rid pwospf) (pr_interface_list r);
           let rs = set_router (router_id rs) (\<lambda>r. r\<lparr>pr_interface_list := il\<rparr>) rs;
           rs \<leftarrow> propagate_pwospf_changes rs;
           rs \<leftarrow> release RouterList rs;
           Some (cond_signal LsuBcastCond rs) } } } }"

text \<open>Unlinking a neighbour that timed out from the router's own entry.\<close>

definition unlink_neighbor :: "iface_entry \<Rightarrow> u32 \<Rightarrow> pwospf_interface list \<Rightarrow> pwospf_interface list outcome" where
  "unlink_neighbor iface rid il =
     (let count = length (filter (on_subnet iface) il)
      in if count = 0 then None
         else if count = 1 then Some (update_first (on_subnet iface) (\<lambda>pi. pi\<lparr>pi_router_id := 0\<rparr>) il)
         else Some (remove_first (\<lambda>pi. on_subnet iface pi \<and> rid = pi_router_id pi) il))"

definition nbr_timed_out :: "router_state \<Rightarrow> nbr_router \<Rightarrow> bool" where
  "nbr_timed_out rs nbr \<longleftrightarrow> clock rs - nbr_last_rcvd_hello nbr > 3 * uint (pwospf_hello_interval rs)"

text \<open>The loop returns whether a neighbour timed out, the neighbours that are left, and the state.\<close>

fun timeout_neighbors ::
  "iface_entry \<Rightarrow> nbr_router list \<Rightarrow> router_state \<Rightarrow> (bool \<times> nbr_router list \<times> router_state) outcome" where
  "timeout_neighbors iface [] rs = Some (False, [], rs)"
| "timeout_neighbors iface (nbr # cur) rs =
     (if nbr_timed_out rs nbr
      then do {
        our_router \<leftarrow> get_router_by_rid (router_id rs) (pwospf_router_list rs);
        il \<leftarrow> unlink_neighbor iface (nbr_router_id nbr) (pr_interface_list our_router);
        (_, rest, rs) \<leftarrow> timeout_neighbors iface cur (set_router (router_id rs) (\<lambda>r. r\<lparr>pr_interface_list := il\<rparr>) rs);
        Some (True, rest, rs) }
      else do {
        (t, rest, rs) \<leftarrow> timeout_neighbors iface cur rs;
        Some (t, nbr # rest, rs) })"

text \<open>The interface at position \<open>k\<close> of the list.\<close>

definition determine_timedout_interface :: "nat \<Rightarrow> router_state \<Rightarrow> (bool \<times> router_state) outcome" where
  "determine_timedout_interface k rs = do {
     let iface = if_list rs ! k;
     (t, nbrs, rs) \<leftarrow> timeout_neighbors iface (ie_nbr_routers iface) rs;
     Some (t, rs\<lparr>if_list := (if_list rs)[k := (if_list rs ! k)\<lparr>ie_nbr_routers := nbrs\<rparr>]\<rparr>) }"

definition hello_packet :: "router_state \<Rightarrow> iface_entry \<Rightarrow> byte list outcome" where
  "hello_packet rs ie = do {
     let packet = replicate (14 + 20 + 24 + 8) 0;
     packet \<leftarrow> put_pwospf_hello_hdr packet (populate_pwospf_hello (ie_mask ie) (pwospf_hello_interval rs));
     packet \<leftarrow> put_pwospf_hdr packet (populate_pwospf PWOSPF_TYPE_HELLO (24 + 8) (router_id rs) (area_id rs));
     packet \<leftarrow> store_pwospf_checksum packet (ETH_HDR_LEN + IP_HDR_LEN);
     packet \<leftarrow> put_ip_hdr packet (populate_ip (24 + 8) IP_PROTO_PWOSPF (ie_ip ie) (htonl PWOSPF_HELLO_TIP));
     packet \<leftarrow> store_ip_checksum packet;
     eth \<leftarrow> get_eth_hdr packet;
     put_eth_hdr packet (populate_eth_hdr eth (Some mac_bcast) (ie_addr ie) ETH_TYPE_IP) }"

definition hello_on_iface :: "nat \<Rightarrow> bool \<times> router_state \<Rightarrow> (bool \<times> router_state) outcome" where
  "hello_on_iface k = (\<lambda>(timedout, rs). do {
     let ie = if_list rs ! k;
     if ie_is_active ie then do {
       packet \<leftarrow> hello_packet rs ie;
       (_, rs) \<leftarrow> send_packet rs packet (ie_name ie);
       let rs = rs\<lparr>if_list := (if_list rs)[k := ie\<lparr>ie_last_sent_hello := clock rs\<rparr>]\<rparr>;
       rs \<leftarrow> acquire RouterList Wr rs;
       (t, rs) \<leftarrow> determine_timedout_interface k rs;
       rs \<leftarrow> release RouterList rs;
       Some (timedout \<or> t, rs) }
     else Some (timedout, rs) })"

definition broadcast_pwospf_hello_packet :: "router_state \<Rightarrow> router_state outcome" where
  "broadcast_pwospf_hello_packet rs = do {
     (interface_has_timedout, rs) \<leftarrow> run_all hello_on_iface [0..<length (if_list rs)] (False, rs);
     if interface_has_timedout then do {
       rs \<leftarrow> acquire RouterList Wr rs;
       rs \<leftarrow> propagate_pwospf_changes rs;
       rs \<leftarrow> release RouterList rs;
       Some (cond_signal LsuBcastCond rs) }
     else Some rs }"

section \<open>Link state updates\<close>

definition adv_matches :: "pwospf_lsu_adv \<Rightarrow> pwospf_interface \<Rightarrow> bool" where
  "adv_matches adv pi \<longleftrightarrow>
     pi_subnet pi = (adv_sub adv AND adv_mask adv) \<and> pi_mask pi = adv_mask adv \<and> pi_router_id pi = adv_rid adv"

text \<open>The walk over the advertisements of a packet, from number \<open>i\<close> on; beyond the packet it faults.\<close>

fun read_advs :: "byte list \<Rightarrow> nat \<Rightarrow> nat \<Rightarrow> pwospf_lsu_adv list outcome" where
  "read_advs packet i 0 = Some []"
| "read_advs packet i (Suc n) = do {
     adv \<leftarrow> get_pwospf_lsu_data packet i;
     rest \<leftarrow> read_advs packet (Suc i) n;
     Some (adv # rest) }"

text \<open>The first list of a router masks the advertised address; an addition to an existing list does not.\<close>

definition first_adv :: "pwospf_lsu_adv \<Rightarrow> pwospf_interface" where
  "first_adv adv = \<lparr>pi_subnet = adv_sub adv AND adv_mask adv, pi_mask = adv_mask adv, pi_router_id = adv_rid adv,
                    pi_is_active = False\<rparr>"

definition new_adv :: "pwospf_lsu_adv \<Rightarrow> pwospf_interface" where
  "new_adv adv = \<lparr>pi_subnet = adv_sub adv AND adv_sub adv, pi_mask = adv_mask adv, pi_router_id = adv_rid adv,
                  pi_is_active = False\<rparr>"

fun add_advs :: "pwospf_lsu_adv list \<Rightarrow> pwospf_interface list \<Rightarrow> bool \<times> pwospf_interface list" where
  "add_advs [] il = (False, il)"
| "add_advs (adv # advs) il =
     (if list_ex (adv_matches adv) il then add_advs advs il
      else (True, snd (add_advs advs (il @ [new_adv adv]))))"

definition drop_missing :: "pwospf_lsu_adv list \<Rightarrow> pwospf_interface list \<Rightarrow> bool \<times> pwospf_interface list" where
  "drop_missing advs il =
     (list_ex (\<lambda>pi. \<not> list_ex (\<lambda>adv. adv_matches adv pi) advs) il,
      filter (\<lambda>pi. list_ex (\<lambda>adv. adv_matches adv pi) advs) il)"

definition populate_pwospf_router_interface_list ::
  "pwospf_interface list \<Rightarrow> byte list \<Rightarrow> (bool \<times> pwospf_interface list) outcome" where
  "populate_pwospf_router_interface_list il packet = do {
     lsu \<leftarrow> get_pwospf_lsu_hdr packet;
     advs \<leftarrow> read_advs packet 0 (unat (ntohl (lsu_num lsu)));
     Some (if il = [] then (True, map first_adv advs)
           else let (added, il) = add_advs advs il; (dropped, il) = drop_missing advs il in (added \<or> dropped, il)) }"

definition add_new_router_neighbor :: "router_state \<Rightarrow> byte list \<Rightarrow> router_state outcome" where
  "add_new_router_neighbor rs packet = do {
     pwospf \<leftarrow> get_pwospf_hdr packet;
     lsu \<leftarrow> get_pwospf_lsu_hdr packet;
     (_, il) \<leftarrow> populate_pwospf_router_interface_list [] packet;
     let new_router = \<lparr>pr_addr = next_addr rs, pr_router_id = pwospf_rid pwospf, pr_area_id = ntohl (pwospf_aid pwospf),
           pr_seq = ntohs (lsu_seq lsu), pr_last_update = clock rs, pr_distance = 0, pr_shortest_path_found = False,
           pr_interface_list = il, pr_prev_router = None\<rparr>;
     Some (rs\<lparr>pwospf_router_list := pwospf_router_list rs @ [new_router], next_addr := Suc (next_addr rs)\<rparr>) }"

text \<open>A copy of the update with its time to live set to \<open>ttl\<close> and a new checksum.\<close>

definition rebroadcast_copy :: "byte list \<Rightarrow> u16 \<Rightarrow> byte list outcome" where
  "rebroadcast_copy packet ttl = do {
     pwospf \<leftarrow> get_pwospf_hdr packet;
     copy \<leftarrow> mem_ld packet (ETH_HDR_LEN + IP_HDR_LEN) (unat (ntohs (pwospf_len pwospf)));
     copy \<leftarrow> mem_st copy (24 + 2) (enc16 (htons ttl));
     store_pwospf_checksum copy 0 }"

text \<open>The changes of the database: whether to pass the packet on, whether its contents are new, and the state.\<close>

definition update_database :: "router_state \<Rightarrow> byte list \<Rightarrow> (bool \<times> bool \<times> router_state) outcome" where
  "update_database rs packet = do {
     pwospf \<leftarrow> get_pwospf_hdr packet;
     lsu \<leftarrow> get_pwospf_lsu_hdr packet;
     (case get_router_by_rid (pwospf_rid pwospf) (pwospf_router_list rs) of
        Some router \<Rightarrow>
          (if pr_seq router \<noteq> ntohs (lsu_seq lsu) \<and> ntohs (lsu_seq lsu) > pr_seq router
           then do {
             (changed, il) \<leftarrow> populate_pwospf_router_interface_list (pr_interface_list router) packet;
             Some (True, changed, set_router (pwospf_rid pwospf) (\<lambda>r. r\<lparr>pr_last_update := clock rs,
               pr_seq := htons (lsu_seq lsu), pr_interface_list := il\<rparr>) rs) }
           else Some (False, False, rs))
      | None \<Rightarrow> do {
          rs \<leftarrow> add_new_router_neighbor rs packet;
          Some (True, True, rs) }) }"

definition process_pwospf_lsu_packet :: "router_state \<Rightarrow> byte list \<Rightarrow> router_state outcome" where
  "process_pwospf_lsu_packet rs packet = do {
     pwospf \<leftarrow> get_pwospf_hdr packet;
     if router_id rs = pwospf_rid pwospf then Some rs
     else do {
       rs \<leftarrow> release RtableLock rs;
       rs \<leftarrow> acquire RtableLock Wr rs;
       rs \<leftarrow> acquire RouterList Wr rs;
       (rebroadcast_packet, update_neighbors, rs) \<leftarrow> update_database rs packet;
       lsu \<leftarrow> get_pwospf_lsu_hdr packet;
       let ttl = ntohs (lsu_ttl lsu) - 1;
       let bcast = (rebroadcast_packet \<and> ttl > 0);
       rs \<leftarrow> (if bcast then do {
                 copy \<leftarrow> rebroadcast_copy packet ttl;
                 ip \<leftarrow> get_ip_hdr packet;
                 broadcast_pwospf_lsu_packet rs copy (Some (ip_src ip)) }
              else Some rs);
       rs \<leftarrow> (if update_neighbors then propagate_pwospf_changes rs else Some rs);
       rs \<leftarrow> release RouterList rs;
       Some (if update_neighbors \<or> bcast then cond_signal LsuBcastCond rs else rs) } }"

definition process_pwospf_packet :: "router_state \<Rightarrow> byte list \<Rightarrow> string \<Rightarrow> router_state outcome" where
  "process_pwospf_packet rs packet interface = do {
     (valid, packet) \<leftarrow> is_pwospf_packet_valid rs packet;
     if \<not> valid then Some rs
     else do {
       pwospf \<leftarrow> get_pwospf_hdr packet;
       if pwospf_type pwospf = PWOSPF_TYPE_HELLO then process_pwospf_hello_packet rs packet interface
       else if pwospf_type pwospf = PWOSPF_TYPE_LINK_STATE_UPDATE then process_pwospf_lsu_packet rs packet
       else Some rs } }"

section \<open>One round of each thread\<close>

definition pwospf_hello_round :: "router_state \<Rightarrow> router_state outcome" where
  "pwospf_hello_round rs = do {
     rs \<leftarrow> acquire IfList Wr rs;
     rs \<leftarrow> broadcast_pwospf_hello_packet rs;
     release IfList rs }"

text \<open>The differences of times are compared as unsigned 32-bit numbers.\<close>

definition pwospf_lsu_round :: "router_state \<Rightarrow> router_state outcome" where
  "pwospf_lsu_round rs = do {
     rs \<leftarrow> acquire RouterList Wr rs;
     let our_router = get_router_by_rid (router_id rs) (pwospf_router_list rs);
     rs \<leftarrow> release RouterList rs;
     (case our_router of
        None \<Rightarrow> Some rs
      | Some r \<Rightarrow>
          (if word_of_int (clock rs - pr_last_update r) > pwospf_lsu_interval rs
           then do {
             rs \<leftarrow> acquire RouterList Wr rs;
             rs \<leftarrow> start_lsu_bcast_flood rs;
             rs \<leftarrow> release RouterList rs;
             Some (cond_signal LsuBcastCond rs) }
           else Some rs)) }"

definition lsu_timed_out :: "router_state \<Rightarrow> pwospf_router \<Rightarrow> bool" where
  "lsu_timed_out rs rl_entry \<longleftrightarrow> pr_router_id rl_entry \<noteq> router_id rs \<and>
     word_of_int (clock rs - pr_last_update rl_entry) > pwospf_lsu_interval rs * 3"

definition pwospf_lsu_timeout_round :: "router_state \<Rightarrow> router_state outcome" where
  "pwospf_lsu_timeout_round rs = do {
     rs \<leftarrow> acquire RouterList Wr rs;
     let timeout_occured = list_ex (lsu_timed_out rs) (pwospf_router_list rs);
     let rs = rs\<lparr>pwospf_router_list := filter (\<lambda>r. \<not> lsu_timed_out rs r) (pwospf_router_list rs)\<rparr>;
     rs \<leftarrow> (if timeout_occured then propagate_pwospf_changes rs else Some rs);
     rs \<leftarrow> release RouterList rs;
     Some (if timeout_occured then cond_signal LsuBcastCond rs else rs) }"

definition send_lsu :: "pwospf_lsu_queue_entry \<Rightarrow> router_state \<Rightarrow> router_state outcome" where
  "send_lsu lqe rs = do {
     ip \<leftarrow> get_ip_hdr (lq_packet lqe);
     (case get_next_hop rs IF_LEN (ip_dst ip) of
        None \<Rightarrow> Some rs
      | Some (next_hop, next_hop_iface) \<Rightarrow>
          map_option snd (send_ip rs (lq_packet lqe) next_hop next_hop_iface)) }"

text \<open>After the condition variable was signalled.\<close>

definition pwospf_lsu_bcast_round :: "router_state \<Rightarrow> router_state outcome" where
  "pwospf_lsu_bcast_round rs = do {
     rs \<leftarrow> acquire LsuBcast Wr rs;
     rs \<leftarrow> acquire LsuQueue Wr rs;
     let lsu_queue = pwospf_lsu_queue rs;
     let rs = rs\<lparr>pwospf_lsu_queue := []\<rparr>;
     rs \<leftarrow> release LsuQueue rs;
     rs \<leftarrow> acquire ArpCache Rd rs;
     rs \<leftarrow> acquire ArpQueue Wr rs;
     rs \<leftarrow> acquire IfList Rd rs;
     rs \<leftarrow> acquire RtableLock Rd rs;
     rs \<leftarrow> run_all send_lsu lsu_queue rs;
     rs \<leftarrow> release RtableLock rs;
     rs \<leftarrow> release IfList rs;
     rs \<leftarrow> release ArpQueue rs;
     rs \<leftarrow> release ArpCache rs;
     release LsuBcast rs }"

end
