(* ===== verification/Hop_Graph.thy ===== *)
theory Hop_Graph
  imports Main
begin

text \<open>
  Shortest paths by number of hops, as an interface: \<open>E\<close> is the relation between neighbours, \<open>s\<close> the source and \<open>M\<close> the
  distance that stands for \<open>not reached\<close>. The locale shows that marking a vertex of least distance and lowering the
  distances of its neighbours keeps \<open>labelled\<close>, and what the labels mean when nothing is left to mark.
\<close>

locale hop_graph =
  fixes E :: "'v \<Rightarrow> 'v \<Rightarrow> bool" and s :: 'v and M :: nat
  assumes M_pos: "0 < M"
begin

definition hops :: "nat \<Rightarrow> 'v \<Rightarrow> bool" where
  "hops n v \<longleftrightarrow> (E ^^ n) s v"

lemma hops_0 [simp]: "hops 0 v \<longleftrightarrow> v = s"
  by (auto simp: hops_def)

lemma hops_Suc: "hops (Suc n) v \<longleftrightarrow> (\<exists>u. hops n u \<and> E u v)"
  by (auto simp: hops_def relcompp_apply)

text \<open>\<open>S\<close> is the set of vertices that were marked and whose neighbours were lowered.\<close>

definition labelled :: "'v set \<Rightarrow> ('v \<Rightarrow> nat) \<Rightarrow> bool" where
  "labelled S D \<longleftrightarrow> D s = 0 \<and> (\<forall>v. D v \<le> M) \<and> (\<forall>v. D v < M \<longrightarrow> hops (D v) v) \<and>
     (\<forall>v\<in>S. \<forall>n. hops n v \<longrightarrow> D v \<le> n) \<and> (\<forall>v\<in>S. \<forall>w. E v w \<longrightarrow> D w \<le> Suc (D v))"

definition lower :: "'v set \<Rightarrow> 'v \<Rightarrow> ('v \<Rightarrow> nat) \<Rightarrow> 'v \<Rightarrow> nat" where
  "lower F u D v = (if E u v \<and> v \<notin> F \<and> Suc (D u) < D v then Suc (D u) else D v)"

definition nearest :: "'v set \<Rightarrow> ('v \<Rightarrow> nat) \<Rightarrow> 'v \<Rightarrow> bool" where
  "nearest S D u \<longleftrightarrow> u \<notin> S \<and> (\<forall>v. v \<notin> S \<longrightarrow> D u \<le> D v)"

lemma labelled_init: "labelled {} (\<lambda>v. if v = s then 0 else M)"
  by (auto simp: labelled_def M_pos)

text \<open>A path that ends outside of \<open>S\<close> leaves it over an edge, unless it starts outside.\<close>

lemma leaves:
  assumes "hops n u" and "u \<notin> S" and "s \<in> S"
  shows "\<exists>m x y. m < n \<and> hops m x \<and> x \<in> S \<and> E x y \<and> y \<notin> S"
  using assms
proof (induction n arbitrary: u)
  case 0
  then show ?case by simp
next
  case (Suc n)
  then obtain x where x: "hops n x" "E x u" by (auto simp: hops_Suc)
  show ?case
  proof (cases "x \<in> S")
    case True
    with x Suc.prems(2) show ?thesis by (intro exI[of _ n]) auto
  next
    case False
    from Suc.IH[OF x(1) False Suc.prems(3)] show ?thesis by (meson less_Suc_eq)
  qed
qed

lemma nearest_exact:
  assumes "labelled S D" and "nearest S D u" and "hops n u"
  shows "D u \<le> n"
proof (cases "s \<in> S")
  case False
  with assms(1,2) show ?thesis by (auto simp: labelled_def nearest_def)
next
  case True
  from assms(2) have u: "u \<notin> S" and min: "\<And>v. v \<notin> S \<Longrightarrow> D u \<le> D v" by (auto simp: nearest_def)
  from leaves[OF assms(3) u True] obtain m x y where
    m: "m < n" "hops m x" "x \<in> S" "E x y" "y \<notin> S" by blast
  with assms(1) have "D x \<le> m" "D y \<le> Suc (D x)" by (auto simp: labelled_def)
  with min[OF m(5)] m(1) show ?thesis by linarith
qed

lemma lower_step:
  assumes l: "labelled S D" and u: "nearest S D u" and small: "D u < M"
  shows "labelled (insert u S) (lower (insert u S) u D)"
proof -
  let ?D = "lower (insert u S) u D"
  note d = l[unfolded labelled_def]
  have exact: "D v \<le> n" if "v \<in> insert u S" "hops n v" for v n
    using that d nearest_exact[OF l u] by blast
  have fixed: "?D v = D v" if "v \<in> insert u S" for v using that by (simp add: lower_def)
  have le: "?D v \<le> D v" for v by (simp add: lower_def)
  have hu: "hops (D u) u" using d small by blast
  have 1: "?D s = 0" using d le[of s] by auto
  have 2: "?D v \<le> M" for v using d le[of v] by (meson le_trans)
  have 3: "hops (?D v) v" if "?D v < M" for v
  proof (cases "E u v \<and> v \<notin> insert u S \<and> Suc (D u) < D v")
    case True
    with hu show ?thesis by (auto simp: lower_def hops_Suc)
  next
    case False
    then have "?D v = D v" by (auto simp: lower_def)
    with d that show ?thesis by simp
  qed
  have 4: "?D v \<le> n" if "v \<in> insert u S" "hops n v" for v n
    using exact[OF that] fixed[OF that(1)] by simp
  have 5: "?D w \<le> Suc (?D v)" if "v \<in> insert u S" "E v w" for v w
  proof (cases "v = u")
    case False
    with that d have "D w \<le> Suc (D v)" by blast
    with le[of w] fixed[OF that(1)] show ?thesis by linarith
  next
    case True
    have "hops (Suc (D u)) w" using hu that True by (auto simp: hops_Suc)
    with exact[of w "Suc (D u)"] have "w \<in> insert u S \<Longrightarrow> D w \<le> Suc (D u)" by blast
    with that True fixed[of u] show ?thesis by (auto simp: lower_def)
  qed
  show ?thesis unfolding labelled_def using 1 2 3 4 5 by blast
qed

text \<open>When no unmarked vertex has a label below \<open>M\<close>, every label is the least number of hops, or \<open>M\<close> if there are no fewer.\<close>

lemma labelled_final:
  assumes l: "labelled S D" and fin: "\<forall>v. v \<notin> S \<longrightarrow> \<not> D v < M"
  shows "(D v < M \<longrightarrow> hops (D v) v) \<and> (\<forall>n. hops n v \<longrightarrow> D v \<le> n)"
proof -
  have "D v \<le> n" if "hops n v" for n
  proof (cases "v \<in> S")
    case True
    with l that show ?thesis by (auto simp: labelled_def)
  next
    case False
    have "D v \<le> D w" if "w \<notin> S" for w
      using fin that l unfolding labelled_def by (meson le_trans linorder_not_less)
    with False have "nearest S D v" by (simp add: nearest_def)
    from nearest_exact[OF l this that] show ?thesis .
  qed
  with l show ?thesis by (auto simp: labelled_def)
qed

end

end
