(* ===== verification/Dijkstra.thy ===== *)
theory Dijkstra
  imports Pwospf Hop_Graph
begin

text \<open>
  The computation of the dynamic routes, \<^verbatim>\<open>or_dijkstra.c\<close>: shortest paths over the active links of the database, the first hop
  to every router, the list of wrapped routes, and the round of \<open>dijkstra_thread\<close> that replaces the dynamic routes of the
  routing table.

  A pointer \<open>prev_router\<close> is the address of another router; following one that no longer is in the database faults.
\<close>

section \<open>Shortest paths\<close>

abbreviation (input) INFINITE :: u32 where "INFINITE \<equiv> 0xFFFFFFFF"

definition init_router :: "u32 \<Rightarrow> pwospf_router \<Rightarrow> pwospf_router" where
  "init_router our_router_id r =
     (if pr_router_id r = our_router_id then r\<lparr>pr_distance := 0, pr_shortest_path_found := True\<rparr>
      else if pr_router_id r \<noteq> 0 then r\<lparr>pr_distance := INFINITE, pr_shortest_path_found := False\<rparr>
      else r)"

text \<open>\<open>k\<close> is the position of the first router of the list.\<close>

fun shortest_from :: "nat \<Rightarrow> pwospf_router list \<Rightarrow> nat option \<Rightarrow> u32 \<Rightarrow> nat option" where
  "shortest_from k [] shortest_router shortest_distance = shortest_router"
| "shortest_from k (r # cur) shortest_router shortest_distance =
     (if \<not> pr_shortest_path_found r \<and> pr_distance r < shortest_distance
      then shortest_from (Suc k) cur (Some k) (pr_distance r)
      else shortest_from (Suc k) cur shortest_router shortest_distance)"

definition get_shortest :: "pwospf_router list \<Rightarrow> nat option" where
  "get_shortest rl = shortest_from 0 rl None INFINITE"

definition update_neighbor :: "nat \<Rightarrow> pwospf_interface \<Rightarrow> pwospf_router list \<Rightarrow> pwospf_router list" where
  "update_neighbor w i rl =
     (if pi_router_id i \<noteq> 0 \<and> pi_is_active i
      then case rid_index (pi_router_id i) rl of
             None \<Rightarrow> rl
           | Some v \<Rightarrow>
               (if \<not> pr_shortest_path_found (rl ! v) \<and> pr_distance (rl ! w) + 1 < pr_distance (rl ! v)
                then rl[v := (rl ! v)\<lparr>pr_distance := pr_distance (rl ! w) + 1, pr_prev_router := Some (pr_addr (rl ! w))\<rparr>]
                else rl)
      else rl)"

definition update_neighbor_distance :: "nat \<Rightarrow> pwospf_router list \<Rightarrow> pwospf_router list" where
  "update_neighbor_distance w rl = fold (update_neighbor w) (pr_interface_list (rl ! w)) rl"

definition mark_found :: "nat \<Rightarrow> pwospf_router list \<Rightarrow> pwospf_router list" where
  "mark_found w rl = rl[w := (rl ! w)\<lparr>pr_shortest_path_found := True\<rparr>]"

text \<open>What the updates leave alone, and that the loop marks one more router in every round.\<close>

definition unfound :: "pwospf_router list \<Rightarrow> nat set" where
  "unfound rl = {k. k < length rl \<and> \<not> pr_shortest_path_found (rl ! k)}"

lemma map_same_update: "f y = f (xs ! k) \<Longrightarrow> map f (xs[k := y]) = map f xs"
  by (cases "k < length xs") (simp_all add: map_update list_update_same_conv list_update_beyond)

lemma update_neighbor_found:
  "map pr_shortest_path_found (update_neighbor w i rl) = map pr_shortest_path_found rl"
  by (auto simp: update_neighbor_def intro!: map_same_update split: option.split)

lemma update_neighbor_distance_found:
  "map pr_shortest_path_found (update_neighbor_distance w rl) = map pr_shortest_path_found rl"
proof -
  have "map pr_shortest_path_found (fold (update_neighbor w) il rl) = map pr_shortest_path_found rl" for il
    by (induction il arbitrary: rl) (simp_all add: update_neighbor_found)
  then show ?thesis by (simp add: update_neighbor_distance_def)
qed

lemma unfound_map: "map pr_shortest_path_found rl = map pr_shortest_path_found rl' \<Longrightarrow> unfound rl = unfound rl'"
  unfolding unfound_def by (metis (no_types, opaque_lifting) length_map nth_map)

lemma shortest_from_result:
  "shortest_from k rl sr sd = Some j \<Longrightarrow>
     (sr = Some j) \<or> (k \<le> j \<and> j - k < length rl \<and> \<not> pr_shortest_path_found (rl ! (j - k)))"
proof (induction rl arbitrary: k sr sd)
  case (Cons r cur)
  show ?case
  proof (cases "\<not> pr_shortest_path_found r \<and> pr_distance r < sd")
    case True
    with Cons.prems Cons.IH[of "Suc k" "Some k" "pr_distance r"] show ?thesis
      by (auto simp: nth_Cons' Suc_diff_le)
  next
    case False
    with Cons.prems Cons.IH[of "Suc k" sr sd] show ?thesis by (auto simp: nth_Cons')
  qed
qed simp

lemma get_shortest_unfound: "get_shortest rl = Some j \<Longrightarrow> j \<in> unfound rl"
  using shortest_from_result[of 0 rl None INFINITE j] by (auto simp: get_shortest_def unfound_def)

lemma finite_unfound [simp]: "finite (unfound rl)"
  by (auto simp: unfound_def)

lemma unfound_mark: "unfound (mark_found w rl) = unfound rl - {w}"
  by (cases "w < length rl") (auto simp: unfound_def mark_found_def nth_list_update)

function spf_loop :: "nat option \<Rightarrow> pwospf_router list \<Rightarrow> pwospf_router list" where
  "spf_loop r_shortest rl =
     (case r_shortest of
        None \<Rightarrow> rl
      | Some w \<Rightarrow>
          let rl = update_neighbor_distance w (mark_found w rl)
          in spf_loop (get_shortest rl) rl)"
  by pat_completeness auto
termination
proof (relation "measure (\<lambda>(r, rl). case r of None \<Rightarrow> 0 | Some w \<Rightarrow> Suc (card (unfound (mark_found w rl))))")
  fix r :: "nat option" and rl w and x :: "pwospf_router list"
  assume r: "r = Some w" and x: "x = update_neighbor_distance w (mark_found w rl)"
  have u: "unfound x = unfound (mark_found w rl)"
    unfolding x by (rule unfound_map[OF update_neighbor_distance_found])
  show "((get_shortest x, x), r, rl)
      \<in> measure (\<lambda>(r, rl). case r of None \<Rightarrow> 0 | Some w \<Rightarrow> Suc (card (unfound (mark_found w rl))))"
  proof (cases "get_shortest x")
    case (Some j)
    then have "j \<in> unfound x" by (rule get_shortest_unfound)
    then have "card (unfound x - {j}) < card (unfound x)" by (intro psubset_card_mono) auto
    with Some r u show ?thesis by (simp add: unfound_mark[of j])
  qed (simp add: r)
qed auto

declare spf_loop.simps [simp del]

section \<open>Routes\<close>

record route_wrapper =
  rw_entry :: rtable_entry
  rw_distance :: u16
  rw_next_rid :: u32
  rw_directly_connected :: bool

definition get_route_wrapper :: "route_wrapper list \<Rightarrow> u32 \<Rightarrow> u32 \<Rightarrow> route_wrapper option" where
  "get_route_wrapper hp subnet msk =
     find (\<lambda>w. rt_ip (rw_entry w) = (subnet AND msk) \<and> rt_mask (rw_entry w) = msk) hp"

definition router_at :: "pwospf_router list \<Rightarrow> nat \<Rightarrow> pwospf_router option" where
  "router_at rl a = find (\<lambda>r. pr_addr r = a) rl"

text \<open>\<open>while (cur_router->prev_router->distance != 0) cur_router = cur_router->prev_router\<close>\<close>

partial_function (option) walk_back :: "pwospf_router list \<Rightarrow> pwospf_router \<Rightarrow> pwospf_router outcome" where
  "walk_back rl cur_router = do {
     a \<leftarrow> pr_prev_router cur_router;
     prev \<leftarrow> router_at rl a;
     if pr_distance prev \<noteq> 0 then walk_back rl prev else Some cur_router }"

declare walk_back.simps [code]

definition next_rid :: "pwospf_router list \<Rightarrow> pwospf_router \<Rightarrow> pwospf_interface \<Rightarrow> u32 outcome" where
  "next_rid rl r i =
     (case pr_prev_router r of
        None \<Rightarrow> Some (pi_router_id i)
      | Some _ \<Rightarrow> map_option pr_router_id (walk_back rl r))"

definition add_route_wrapper ::
  "u32 \<Rightarrow> pwospf_router list \<Rightarrow> pwospf_router \<Rightarrow> pwospf_interface \<Rightarrow> route_wrapper list \<Rightarrow> route_wrapper list outcome" where
  "add_route_wrapper our_rid rl r i hp =
     (case get_route_wrapper hp (pi_subnet i) (pi_mask i) of
        Some wrapper \<Rightarrow>
          (if pr_distance r \<ge> ucast (rw_distance wrapper) then Some hp
           else do {
             rid \<leftarrow> next_rid rl r i;
             Some (update_first (\<lambda>w. rt_ip (rw_entry w) = (pi_subnet i AND pi_mask i) \<and> rt_mask (rw_entry w) = pi_mask i)
               (\<lambda>w. w\<lparr>rw_distance := ucast (pr_distance r), rw_next_rid := rid,
                      rw_directly_connected := (rw_directly_connected w \<or> our_rid = pr_router_id r)\<rparr>) hp) })
      | None \<Rightarrow> do {
          rid \<leftarrow> next_rid rl r i;
          Some (hp @ [\<lparr>rw_entry = \<lparr>rt_ip = pi_subnet i AND pi_mask i, rt_gw = 0, rt_mask = pi_mask i, rt_iface = '''',
                                  rt_is_static = False, rt_is_active = False\<rparr>,
                       rw_distance = ucast (pr_distance r), rw_next_rid = rid,
                       rw_directly_connected = (our_rid = pr_router_id r)\<rparr>]) })"

definition add_route_wrappers ::
  "u32 \<Rightarrow> pwospf_router list \<Rightarrow> pwospf_router \<Rightarrow> route_wrapper list \<Rightarrow> route_wrapper list outcome" where
  "add_route_wrappers our_rid rl r hp = run_all (add_route_wrapper our_rid rl r) (pr_interface_list r) hp"

definition build_route_wrapper_list :: "u32 \<Rightarrow> pwospf_router list \<Rightarrow> route_wrapper list outcome" where
  "build_route_wrapper_list our_rid rl = run_all (add_route_wrappers our_rid rl) rl []"

definition get_iface_by_rid :: "u32 \<Rightarrow> iface_entry list \<Rightarrow> iface_entry option" where
  "get_iface_by_rid rid il =
     (if rid = 0 then None else find (\<lambda>i. list_ex (\<lambda>nbr. nbr_router_id nbr = rid) (ie_nbr_routers i)) il)"

definition get_iface_by_subnet_mask :: "u32 \<Rightarrow> u32 \<Rightarrow> iface_entry list \<Rightarrow> iface_entry option" where
  "get_iface_by_subnet_mask subnet msk il =
     find (\<lambda>i. (ie_ip i AND ie_mask i) = subnet \<and> ie_mask i = msk) il"

text \<open>\<open>Some None\<close> is a wrapper for which there is no interface; \<open>None\<close> the failed assertion that the next router is a neighbour.\<close>

definition unwrap_route :: "iface_entry list \<Rightarrow> route_wrapper \<Rightarrow> rtable_entry option outcome" where
  "unwrap_route il wrapper =
     (case (case get_iface_by_rid (rw_next_rid wrapper) il of
              None \<Rightarrow> get_iface_by_subnet_mask (rt_ip (rw_entry wrapper)) (rt_mask (rw_entry wrapper)) il
            | Some iface \<Rightarrow> Some iface) of
        None \<Rightarrow> Some None
      | Some iface \<Rightarrow> do {
          gw \<leftarrow> (if rw_directly_connected wrapper then Some 0
                else map_option nbr_ip (get_nbr_by_rid iface (rw_next_rid wrapper)));
          Some (Some ((rw_entry wrapper)\<lparr>rt_iface := strncpy (ie_name iface) IF_LEN, rt_gw := gw,
                        rt_is_active := True, rt_is_static := False\<rparr>)) })"

fun unwrap_routes :: "iface_entry list \<Rightarrow> route_wrapper list \<Rightarrow> rtable_entry list outcome" where
  "unwrap_routes il [] = Some []"
| "unwrap_routes il (wrapper # cur) = do {
     r \<leftarrow> unwrap_route il wrapper;
     rest \<leftarrow> unwrap_routes il cur;
     Some (case r of None \<Rightarrow> rest | Some e \<Rightarrow> e # rest) }"

definition shortest_paths :: "u32 \<Rightarrow> pwospf_router list \<Rightarrow> pwospf_router list" where
  "shortest_paths our_router_id rl =
     (let rl = map (init_router our_router_id) rl in spf_loop (rid_index our_router_id rl) rl)"

definition compute_rtable ::
  "u32 \<Rightarrow> pwospf_router list \<Rightarrow> iface_entry list \<Rightarrow> (rtable_entry list \<times> pwospf_router list) outcome" where
  "compute_rtable our_router_id rl il = do {
     let rl = shortest_paths our_router_id rl;
     route_wrapper_list \<leftarrow> build_route_wrapper_list our_router_id rl;
     route_list \<leftarrow> unwrap_routes il route_wrapper_list;
     Some (route_list, rl) }"

text \<open>One round of \<open>dijkstra_thread\<close> after its wait, which either timed out or was signalled.\<close>

definition dijkstra_round :: "bool \<Rightarrow> router_state \<Rightarrow> router_state outcome" where
  "dijkstra_round timedout rs =
     (if timedout \<and> dijkstra_dirty rs = 0 then Some rs
      else do {
        let rs = rs\<lparr>dijkstra_dirty := 0\<rparr>;
        rs \<leftarrow> acquire IfList Rd rs;
        rs \<leftarrow> acquire RtableLock Wr rs;
        rs \<leftarrow> acquire RouterList Wr rs;
        let static_routes = filter rt_is_static (rtable rs);
        (dijkstra_rtable, rl) \<leftarrow> compute_rtable (router_id rs) (pwospf_router_list rs) (if_list rs);
        rs \<leftarrow> trigger_rtable_modified (rs\<lparr>rtable := static_routes @ dijkstra_rtable, pwospf_router_list := rl\<rparr>);
        rs \<leftarrow> release RouterList rs;
        rs \<leftarrow> release RtableLock rs;
        release IfList rs })"

section \<open>The graph of active links\<close>

text \<open>
  Routers are positions in the database. There is an edge from \<open>w\<close> to \<open>v\<close> when \<open>w\<close> has an active link whose router id is that of
  \<open>v\<close>. Distances and marks are not part of the graph: \<open>topology\<close> is what is.
\<close>

definition topology :: "pwospf_router list \<Rightarrow> (u32 \<times> nat \<times> pwospf_interface list) list" where
  "topology rl = map (\<lambda>r. (pr_router_id r, pr_addr r, pr_interface_list r)) rl"

definition leads :: "pwospf_router list \<Rightarrow> pwospf_interface \<Rightarrow> nat \<Rightarrow> bool" where
  "leads rl i v \<longleftrightarrow> pi_router_id i \<noteq> 0 \<and> pi_is_active i \<and> rid_index (pi_router_id i) rl = Some v"

definition edge :: "pwospf_router list \<Rightarrow> nat \<Rightarrow> nat \<Rightarrow> bool" where
  "edge rl w v \<longleftrightarrow> w < length rl \<and> (\<exists>i\<in>set (pr_interface_list (rl ! w)). leads rl i v)"

abbreviation M32 :: nat where "M32 \<equiv> 4294967295"

interpretation hg: hop_graph "edge rl" src M32 for rl src
  by unfold_locales simp

definition dist :: "pwospf_router list \<Rightarrow> nat \<Rightarrow> nat" where
  "dist rl v = (if v < length rl then unat (pr_distance (rl ! v)) else M32)"

definition found :: "pwospf_router list \<Rightarrow> nat set" where
  "found rl = {v. v < length rl \<and> pr_shortest_path_found (rl ! v)}"

lemma topology_length: "topology rl = topology rl' \<Longrightarrow> length rl = length rl'"
  unfolding topology_def by (drule arg_cong[of _ _ length]) simp

lemma topology_nth:
  assumes "topology rl = topology rl'" and "v < length rl"
  shows "pr_router_id (rl ! v) = pr_router_id (rl' ! v) \<and> pr_addr (rl ! v) = pr_addr (rl' ! v) \<and>
    pr_interface_list (rl ! v) = pr_interface_list (rl' ! v)"
proof -
  have "v < length rl'" using assms(2) unfolding topology_length[OF assms(1)] .
  then have "topology rl' ! v = (pr_router_id (rl' ! v), pr_addr (rl' ! v), pr_interface_list (rl' ! v))" 
    by (simp add: topology_def)
  moreover have "topology rl ! v = (pr_router_id (rl ! v), pr_addr (rl ! v), pr_interface_list (rl ! v))" 
    using assms(2) by (simp add: topology_def)
  ultimately show ?thesis using assms(1) by simp
qed

lemma rid_index_map: "map pr_router_id rl = map pr_router_id rl' \<Longrightarrow> rid_index rid rl = rid_index rid rl'"
proof (induction rl arbitrary: rl')
  case (Cons r rl)
  then show ?case by (cases rl') (auto simp: has_rid_def)
qed simp

lemma topology_rid_index: "topology rl = topology rl' \<Longrightarrow> rid_index rid rl = rid_index rid rl'"
proof (rule rid_index_map)
  assume "topology rl = topology rl'"
  then have "map fst (topology rl) = map fst (topology rl')" by simp
  then show "map pr_router_id rl = map pr_router_id rl'" by (simp add: topology_def comp_def)
qed

lemma topology_leads: "topology rl = topology rl' \<Longrightarrow> leads rl = leads rl'"
  unfolding leads_def fun_eq_iff using topology_rid_index[of rl rl'] by simp

lemma topology_edge:
  assumes "topology rl = topology rl'"
  shows "edge rl = edge rl'"
proof (intro ext)
  fix w v
  show "edge rl w v = edge rl' w v"
    using topology_nth[OF assms, of w] unfolding edge_def topology_leads[OF assms] topology_length[OF assms] by auto
qed

lemma rid_index_Some:
  "rid_index rid rl = Some v \<Longrightarrow> v < length rl \<and> pr_router_id (rl ! v) = rid \<and> (\<forall>u<v. pr_router_id (rl ! u) \<noteq> rid)"
proof (induction rl arbitrary: v)
  case (Cons r rl)
  show ?case
  proof (cases "has_rid rid r")
    case True
    with Cons.prems show ?thesis by (auto simp: has_rid_def)
  next
    case False
    with Cons.prems obtain v' where v': "rid_index rid rl = Some v'" "v = Suc v'" by auto
    with Cons.IH[OF v'(1)] False show ?thesis by (auto simp: has_rid_def nth_Cons' less_Suc_eq_0_disj)
  qed
qed simp

lemma rid_index_None: "rid_index rid rl = None \<longleftrightarrow> rid \<notin> set (map pr_router_id rl)"
  by (induction rl) (auto simp: has_rid_def)

lemma rid_index_distinct:
  "distinct (map pr_router_id rl) \<Longrightarrow> v < length rl \<Longrightarrow> pr_router_id (rl ! v) = rid \<Longrightarrow> rid_index rid rl = Some v"
proof -
  assume a: "distinct (map pr_router_id rl)" "v < length rl" "pr_router_id (rl ! v) = rid"
  then have "rid_index rid rl \<noteq> None" unfolding rid_index_None by (metis length_map nth_map nth_mem not_Some_eq)
  then obtain u where u: "rid_index rid rl = Some u" by auto
  from rid_index_Some[OF this] a have "u = v" by (metis distinct_conv_nth length_map nth_map)
  with u show ?thesis by simp
qed

section \<open>One relaxation\<close>

lemma update_neighbor_topology [simp]: "topology (update_neighbor w i rl) = topology rl"
  by (auto simp: update_neighbor_def topology_def intro!: map_same_update split: option.split)

lemma found_map: "map pr_shortest_path_found rl = map pr_shortest_path_found rl' \<Longrightarrow> found rl = found rl'"
  unfolding found_def by (metis (no_types, opaque_lifting) length_map nth_map)

lemma update_neighbor_marks [simp]: "found (update_neighbor w i rl) = found rl"
  by (rule found_map[OF update_neighbor_found])

lemma Suc_unat: "unat (d :: u32) < M32 \<Longrightarrow> unat (d + 1) = Suc (unat d)"
  by (simp add: unat_word_ariths)

lemma update_neighbor_nth:
  assumes "w \<in> found rl" and "dist rl w < M32" and "v < length rl"
  shows "update_neighbor w i rl ! v =
    (if leads rl i v \<and> v \<notin> found rl \<and> Suc (dist rl w) < dist rl v
     then (rl ! v)\<lparr>pr_distance := pr_distance (rl ! w) + 1, pr_prev_router := Some (pr_addr (rl ! w))\<rparr> else rl ! v)"
proof -
  have w: "w < length rl" using assms(1) by (simp add: found_def)
  then have "unat (pr_distance (rl ! w) + 1) = Suc (dist rl w)"
    using assms(2) by (simp add: dist_def Suc_unat)
  then have "pr_distance (rl ! w) + 1 < pr_distance (rl ! u) \<longleftrightarrow> Suc (dist rl w) < dist rl u" if "u < length rl" for u
    using that by (simp add: word_less_nat_alt dist_def)
  then show ?thesis using assms(3) unfolding update_neighbor_def
    by (auto simp: leads_def found_def nth_list_update dest: rid_index_Some split: option.split)
qed

lemma update_neighbor_length [simp]: "length (update_neighbor w i rl) = length rl"
  using topology_length[OF update_neighbor_topology[of w i rl]] .

lemma update_neighbor_dist:
  assumes "w \<in> found rl" and "dist rl w < M32"
  shows "dist (update_neighbor w i rl) v =
    (if leads rl i v \<and> v \<notin> found rl \<and> Suc (dist rl w) < dist rl v then Suc (dist rl w) else dist rl v)"
proof (cases "v < length rl")
  case True
  have "w < length rl" using assms(1) by (simp add: found_def)
  with True assms show ?thesis
    by (simp add: dist_def update_neighbor_nth[OF assms True] Suc_unat)
next
  case False
  then have "\<not> leads rl i v" by (auto simp: leads_def dest: rid_index_Some)
  with False show ?thesis by (simp add: dist_def)
qed

text \<open>The predecessors: a router that was reached points to a marked neighbour that is one hop closer.\<close>

definition prev_ok :: "pwospf_router list \<Rightarrow> nat \<Rightarrow> bool" where
  "prev_ok rl s \<longleftrightarrow> (\<forall>v<length rl. v \<noteq> s \<longrightarrow> dist rl v < M32 \<longrightarrow>
     (\<exists>u\<in>found rl. pr_prev_router (rl ! v) = Some (pr_addr (rl ! u)) \<and> edge rl u v \<and> dist rl v = Suc (dist rl u)))"

lemma update_neighbor_prev_ok:
  assumes w: "w \<in> found rl" "dist rl w < M32" and i: "i \<in> set (pr_interface_list (rl ! w))" and p: "prev_ok rl s"
  shows "prev_ok (update_neighbor w i rl) s"
  unfolding prev_ok_def update_neighbor_length update_neighbor_marks
proof (intro allI impI)
  let ?rl = "update_neighbor w i rl"
  fix v assume v: "v < length rl" "v \<noteq> s" "dist ?rl v < M32"
  have e: "edge ?rl = edge rl" by (rule topology_edge) simp
  have same: "dist ?rl u = dist rl u \<and> pr_addr (?rl ! u) = pr_addr (rl ! u)" if "u \<in> found rl" for u
    using that update_neighbor_dist[OF w, of i u] topology_nth[OF update_neighbor_topology[of w i rl], of u]
    by (auto simp: found_def)
  show "\<exists>u\<in>found rl. pr_prev_router (?rl ! v) = Some (pr_addr (?rl ! u)) \<and> edge ?rl u v \<and> dist ?rl v = Suc (dist ?rl u)"
  proof (cases "leads rl i v \<and> v \<notin> found rl \<and> Suc (dist rl w) < dist rl v")
    case True
    then have "edge rl w v" using i w(1) by (auto simp: edge_def found_def)
    moreover from True have "pr_prev_router (?rl ! v) = Some (pr_addr (rl ! w))" "dist ?rl v = Suc (dist rl w)"
      using update_neighbor_nth[OF w v(1), of i] update_neighbor_dist[OF w, of i v] by simp_all
    ultimately show ?thesis using same[OF w(1)] unfolding e by (intro bexI[OF _ w(1)]) simp
  next
    case False
    then have n: "?rl ! v = rl ! v" "dist ?rl v = dist rl v"
      using update_neighbor_nth[OF w v(1), of i] update_neighbor_dist[OF w, of i v] by auto
    with p v obtain u where u: "u \<in> found rl" "pr_prev_router (rl ! v) = Some (pr_addr (rl ! u))" "edge rl u v"
      "dist rl v = Suc (dist rl u)" unfolding prev_ok_def by metis
    with same[OF u(1)] n show ?thesis unfolding e by (intro bexI[OF _ u(1)]) simp
  qed
qed

lemma update_neighbors_fold:
  assumes "w \<in> found rl" and "dist rl w < M32" and "set il \<subseteq> set (pr_interface_list (rl ! w))"
  shows "topology (fold (update_neighbor w) il rl) = topology rl \<and> found (fold (update_neighbor w) il rl) = found rl \<and>
    dist (fold (update_neighbor w) il rl) = (\<lambda>v. if (\<exists>i\<in>set il. leads rl i v) \<and> v \<notin> found rl \<and> Suc (dist rl w) < dist rl v
      then Suc (dist rl w) else dist rl v) \<and>
    (prev_ok rl s \<longrightarrow> prev_ok (fold (update_neighbor w) il rl) s)"
  using assms
proof (induction il arbitrary: rl)
  case (Cons i il)
  let ?rl = "update_neighbor w i rl"
  have w: "w \<in> found ?rl" "dist ?rl w = dist rl w"
    using Cons.prems(1) update_neighbor_dist[OF Cons.prems(1,2)] by auto
  have il: "pr_interface_list (?rl ! w) = pr_interface_list (rl ! w)"
    using topology_nth[OF update_neighbor_topology[of w i rl], of w] Cons.prems(1) by (simp add: found_def)
  have l: "leads ?rl = leads rl" by (rule topology_leads) simp
  have p: "prev_ok rl s \<Longrightarrow> prev_ok ?rl s"
    by (rule update_neighbor_prev_ok[OF Cons.prems(1,2)]) (use Cons.prems(3) in auto)
  have "set il \<subseteq> set (pr_interface_list (?rl ! w))" using Cons.prems(3) il by simp
  note IH = Cons.IH[OF w(1) _ this]
  have "dist (fold (update_neighbor w) il ?rl) v = (if (\<exists>i\<in>set (i # il). leads rl i v) \<and> v \<notin> found rl \<and> Suc (dist rl w) < dist rl v
      then Suc (dist rl w) else dist rl v)" for v
    using IH w(2) Cons.prems(2) l update_neighbor_dist[OF Cons.prems(1,2), of i v] by auto
  with IH w(2) Cons.prems(2) p show ?case by (auto simp: fun_eq_iff)
qed auto

lemma update_neighbor_distance_lower:
  assumes "w \<in> found rl" and "dist rl w < M32"
  shows "topology (update_neighbor_distance w rl) = topology rl \<and> found (update_neighbor_distance w rl) = found rl \<and>
    dist (update_neighbor_distance w rl) = hg.lower rl (found rl) w (dist rl) \<and>
    (prev_ok rl s \<longrightarrow> prev_ok (update_neighbor_distance w rl) s)"
proof -
  have "edge rl w v \<longleftrightarrow> (\<exists>i\<in>set (pr_interface_list (rl ! w)). leads rl i v)" for v
    using assms(1) by (auto simp: edge_def found_def)
  with update_neighbors_fold[OF assms, of "pr_interface_list (rl ! w)" s] show ?thesis
    by (auto simp: update_neighbor_distance_def hg.lower_def fun_eq_iff)
qed

lemma mark_found_simps:
  assumes "w < length rl"
  shows "topology (mark_found w rl) = topology rl \<and> found (mark_found w rl) = insert w (found rl) \<and>
    dist (mark_found w rl) = dist rl"
proof -
  have "topology (mark_found w rl) = topology rl"
    unfolding mark_found_def topology_def by (rule map_same_update) simp
  moreover have "found (mark_found w rl) = insert w (found rl)"
    using assms by (auto simp: mark_found_def found_def nth_list_update split: if_splits)
  moreover have "dist (mark_found w rl) = dist rl"
    using assms by (auto simp: mark_found_def dist_def nth_list_update fun_eq_iff)
  ultimately show ?thesis by simp
qed

lemma mark_found_prev_ok:
  assumes "w < length rl" and "prev_ok rl s"
  shows "prev_ok (mark_found w rl) s"
proof -
  have e: "edge (mark_found w rl) = edge rl" "dist (mark_found w rl) = dist rl" "found rl \<subseteq> found (mark_found w rl)"
    using mark_found_simps[OF assms(1)] topology_edge[of "mark_found w rl" rl] by auto
  have n: "pr_prev_router (mark_found w rl ! v) = pr_prev_router (rl ! v)" "pr_addr (mark_found w rl ! v) = pr_addr (rl ! v)" for v
    by (cases "v = w"; simp add: mark_found_def assms(1))+
  show ?thesis using assms(2) e(3) unfolding prev_ok_def e(1,2) n by (auto simp: mark_found_def)
qed

section \<open>The loop\<close>

lemma shortest_from_None:
  "shortest_from k rl sr sd = None \<Longrightarrow> sr = None \<and> (\<forall>r\<in>set rl. pr_shortest_path_found r \<or> sd \<le> pr_distance r)"
proof (induction rl arbitrary: k sr sd)
  case (Cons r rl)
  show ?case
  proof (cases "\<not> pr_shortest_path_found r \<and> pr_distance r < sd")
    case True
    with Cons.prems Cons.IH[of "Suc k" "Some k" "pr_distance r"] show ?thesis by simp
  next
    case False
    with Cons.prems Cons.IH[of "Suc k" sr sd] show ?thesis by auto
  qed
qed simp

lemma shortest_from_Some:
  "shortest_from k rl sr sd = Some j \<Longrightarrow>
     (sr = Some j \<and> (\<forall>r\<in>set rl. pr_shortest_path_found r \<or> sd \<le> pr_distance r)) \<or>
     (k \<le> j \<and> j - k < length rl \<and> \<not> pr_shortest_path_found (rl ! (j - k)) \<and> pr_distance (rl ! (j - k)) < sd \<and>
      (\<forall>r\<in>set rl. pr_shortest_path_found r \<or> pr_distance (rl ! (j - k)) \<le> pr_distance r))"
proof (induction rl arbitrary: k sr sd)
  case (Cons r rl)
  show ?case
  proof (cases "\<not> pr_shortest_path_found r \<and> pr_distance r < sd")
    case True
    with Cons.prems have "shortest_from (Suc k) rl (Some k) (pr_distance r) = Some j" by simp
    from Cons.IH[OF this] True show ?thesis
      by (elim disjE) (auto simp: nth_Cons' Suc_diff_le)
  next
    case False
    with Cons.prems have "shortest_from (Suc k) rl sr sd = Some j" by simp
    from Cons.IH[OF this] False show ?thesis
      by (elim disjE) (auto simp: nth_Cons' Suc_diff_le)
  qed
qed simp

lemma get_shortest_None:
  assumes "get_shortest rl = None" and "v \<notin> found rl"
  shows "\<not> dist rl v < M32"
proof (cases "v < length rl")
  case True
  with assms(2) have "rl ! v \<in> set rl" "\<not> pr_shortest_path_found (rl ! v)" by (auto simp: found_def)
  with shortest_from_None[OF assms(1)[unfolded get_shortest_def]] have "INFINITE \<le> pr_distance (rl ! v)" by auto
  then have "\<not> unat (pr_distance (rl ! v)) < M32" by (simp add: word_le_nat_alt)
  with True show ?thesis by (simp add: dist_def)
qed (simp add: dist_def)

lemma get_shortest_Some:
  assumes "get_shortest rl = Some j"
  shows "j < length rl \<and> dist rl j < M32 \<and> hg.nearest (found rl) (dist rl) j"
proof -
  from shortest_from_Some[OF assms[unfolded get_shortest_def]]
  have j: "j < length rl" "\<not> pr_shortest_path_found (rl ! j)" "pr_distance (rl ! j) < INFINITE"
    and min: "\<And>r. r \<in> set rl \<Longrightarrow> pr_shortest_path_found r \<or> pr_distance (rl ! j) \<le> pr_distance r" by auto
  have d: "dist rl j < M32" using j(1,3) by (simp add: dist_def word_less_nat_alt)
  have "dist rl j \<le> dist rl v" if "v \<notin> found rl" for v
    using that min[of "rl ! v"] j(1) d by (auto simp: dist_def found_def word_le_nat_alt)
  with j d show ?thesis by (auto simp: hg.nearest_def found_def)
qed

text \<open>The invariant at the head of the loop, for a database with the topology of \<open>rl0\<close> and the router \<open>w\<close> that is to be marked.\<close>

definition spf_ok :: "pwospf_router list \<Rightarrow> nat \<Rightarrow> nat option \<Rightarrow> pwospf_router list \<Rightarrow> bool" where
  "spf_ok rl0 s r rl \<longleftrightarrow> topology rl = topology rl0 \<and> prev_ok rl s \<and>
     (case r of
        None \<Rightarrow> hg.labelled rl0 s (found rl) (dist rl) \<and> (\<forall>v. v \<notin> found rl \<longrightarrow> \<not> dist rl v < M32)
      | Some w \<Rightarrow> w < length rl \<and> dist rl w < M32 \<and> hg.labelled rl0 s (found rl - {w}) (dist rl) \<and>
          hg.nearest (found rl - {w}) (dist rl) w)"

lemma spf_step:
  assumes "spf_ok rl0 s (Some w) rl" and rl': "rl' = update_neighbor_distance w (mark_found w rl)"
  shows "spf_ok rl0 s (get_shortest rl') rl'"
proof -
  let ?m = "mark_found w rl"
  from assms(1) have t: "topology rl = topology rl0" and p: "prev_ok rl s" and w: "w < length rl" "dist rl w < M32"
    and l: "hg.labelled rl0 s (found rl - {w}) (dist rl)" and n: "hg.nearest (found rl - {w}) (dist rl) w"
    by (auto simp: spf_ok_def)
  note m = mark_found_simps[OF w(1)]
  have wf: "w \<in> found ?m" "dist ?m w < M32" using m w by auto
  note u = update_neighbor_distance_lower[OF wf, of s, folded rl']
  have t': "topology rl' = topology rl0" using u m t by simp
  have p': "prev_ok rl' s" using u mark_found_prev_ok[OF w(1) p] by simp
  have f: "found rl' = insert w (found rl - {w})" using u m by auto
  have "edge ?m = edge rl0" using topology_edge[of ?m rl0] m t by simp
  then have "dist rl' = hg.lower rl0 (insert w (found rl - {w})) w (dist rl)"
    using u m by (auto simp: hg.lower_def fun_eq_iff)
  then have l': "hg.labelled rl0 s (found rl') (dist rl')"
    using hg.lower_step[OF l n w(2)] f by simp
  show ?thesis
  proof (cases "get_shortest rl'")
    case None
    with t' p' l' get_shortest_None[OF None] show ?thesis by (simp add: spf_ok_def)
  next
    case (Some j)
    note g = get_shortest_Some[OF Some]
    then have "found rl' - {j} = found rl'" by (auto simp: hg.nearest_def)
    with Some g t' p' l' show ?thesis by (simp add: spf_ok_def)
  qed
qed

lemma spf_loop_ok: "spf_ok rl0 s r rl \<Longrightarrow> spf_ok rl0 s None (spf_loop r rl)"
proof (induction r rl rule: spf_loop.induct)
  case (1 r rl)
  show ?case
  proof (cases r)
    case None
    with "1.prems" show ?thesis by (simp add: spf_loop.simps[of None rl])
  next
    case (Some w)
    with "1.IH"[OF Some refl spf_step[OF "1.prems"[unfolded Some] refl]] show ?thesis
      unfolding Some by (simp add: spf_loop.simps[of "Some w" rl] Let_def)
  qed
qed

lemma init_topology: "topology (map (init_router rid) rl) = topology rl"
  by (auto simp: topology_def init_router_def)

text \<open>What the computation needs of the database: different, nonzero router ids, and an entry for this router.\<close>

definition database_ok :: "u32 \<Rightarrow> pwospf_router list \<Rightarrow> bool" where
  "database_ok our_rid rl \<longleftrightarrow> distinct (map pr_router_id rl) \<and> distinct (map pr_addr rl) \<and>
     0 \<notin> set (map pr_router_id rl) \<and> our_rid \<in> set (map pr_router_id rl)"

lemma init_spf_ok:
  assumes db: "database_ok our_rid rl" and s: "rid_index our_rid rl = Some s"
  shows "spf_ok rl s (Some s) (map (init_router our_rid) rl)"
proof -
  let ?rl = "map (init_router our_rid) rl"
  have sl: "s < length rl" "pr_router_id (rl ! s) = our_rid" using rid_index_Some[OF s] by auto
  have other: "pr_router_id (rl ! v) \<noteq> our_rid \<and> pr_router_id (rl ! v) \<noteq> 0" if "v < length rl" "v \<noteq> s" for v
    using that db sl by (force simp: database_ok_def distinct_conv_nth in_set_conv_nth)
  have d: "dist ?rl = (\<lambda>v. if v = s then 0 else M32)"
    using sl other by (auto simp: dist_def init_router_def fun_eq_iff)
  have f: "found ?rl - {s} = {}" using other by (fastforce simp: found_def init_router_def split: if_splits)
  have "prev_ok ?rl s" by (simp add: prev_ok_def d)
  moreover have "hg.nearest (found ?rl - {s}) (dist ?rl) s" unfolding f d by (simp add: hg.nearest_def)
  moreover have "hg.labelled rl s (found ?rl - {s}) (dist ?rl)" unfolding f d by (rule hg.labelled_init)
  ultimately show ?thesis using sl d by (simp add: spf_ok_def init_topology)
qed

lemma shortest_paths_ok:
  assumes "database_ok our_rid rl" and "rid_index our_rid rl = Some s"
  shows "spf_ok rl s None (shortest_paths our_rid rl)"
proof -
  have "rid_index our_rid (map (init_router our_rid) rl) = Some s"
    using topology_rid_index[OF init_topology] assms(2) by simp
  with spf_loop_ok[OF init_spf_ok[OF assms]] show ?thesis by (simp add: shortest_paths_def Let_def)
qed

text \<open>Every router that was reached has a first hop, a neighbour of the source on a shortest path.\<close>

lemma router_at_nth: "distinct (map pr_addr rl) \<Longrightarrow> u < length rl \<Longrightarrow> router_at rl (pr_addr (rl ! u)) = Some (rl ! u)"
  unfolding router_at_def by (subst find_Some_iff) (force simp: distinct_conv_nth intro!: exI[of _ u])

lemma walk_back_first_hop:
  assumes a: "distinct (map pr_addr rl)" and p: "prev_ok rl s" and z: "\<And>v. dist rl v = 0 \<longleftrightarrow> v = s"
    and v: "v < length rl" "dist rl v = Suc n" "Suc n < M32"
  shows "\<exists>h<length rl. walk_back rl (rl ! v) = Some (rl ! h) \<and> edge rl s h \<and> (edge rl ^^ n) h v"
  using v
proof (induction n arbitrary: v)
  case 0
  have "v \<noteq> s" using 0 z by force
  with p 0 obtain u where u: "u \<in> found rl" "pr_prev_router (rl ! v) = Some (pr_addr (rl ! u))" "edge rl u v" "dist rl u = 0"
    unfolding prev_ok_def by (metis Suc_inject)
  then have us: "u = s" "u < length rl" using z by (auto simp: found_def)
  then have "pr_distance (rl ! u) = 0" using u(4) by (simp add: dist_def unat_eq_0)
  then have "walk_back rl (rl ! v) = Some (rl ! v)"
    by (simp add: walk_back.simps[of rl "rl ! v"] u(2) router_at_nth[OF a us(2)])
  with u(3) us "0.prems"(1) show ?case by auto
next
  case (Suc n)
  have "v \<noteq> s" using Suc.prems z by force
  with p Suc.prems obtain u where u: "u \<in> found rl" "pr_prev_router (rl ! v) = Some (pr_addr (rl ! u))" "edge rl u v"
    "dist rl u = Suc n" unfolding prev_ok_def by (metis Suc_inject)
  then have ul: "u < length rl" by (auto simp: found_def)
  with u(4) have "pr_distance (rl ! u) \<noteq> 0" by (auto simp: dist_def)
  then have "walk_back rl (rl ! v) = walk_back rl (rl ! u)"
    by (simp add: walk_back.simps[of rl "rl ! v"] u(2) router_at_nth[OF a ul])
  with Suc.IH[OF ul u(4)] Suc.prems(3) u(3) show ?case by (auto intro: relpowp_Suc_I)
qed

section \<open>Routes by distance\<close>

text \<open>\<open>hop_dist\<close> is the distance a wrapper keeps, 16 bits of the router's distance.\<close>

abbreviation hop_dist :: "pwospf_router \<Rightarrow> u16" where "hop_dist r \<equiv> ucast (pr_distance r)"

definition iface_key :: "pwospf_interface \<Rightarrow> u32 \<times> u32" where
  "iface_key i = (pi_subnet i AND pi_mask i, pi_mask i)"

definition wrapper_key :: "route_wrapper \<Rightarrow> u32 \<times> u32" where
  "wrapper_key w = (rt_ip (rw_entry w), rt_mask (rw_entry w))"

text \<open>\<open>ps\<close> are the advertisements seen so far: a router and one of its interfaces.\<close>

definition best_for :: "u32 \<Rightarrow> pwospf_router list \<Rightarrow> (pwospf_router \<times> pwospf_interface) list \<Rightarrow> route_wrapper \<Rightarrow>
    pwospf_router \<times> pwospf_interface \<Rightarrow> bool" where
  "best_for our_rid rl ps w = (\<lambda>(r, i). wrapper_key w = iface_key i \<and> rw_distance w = hop_dist r \<and>
     next_rid rl r i = Some (rw_next_rid w) \<and> (rw_directly_connected w \<longleftrightarrow> our_rid = pr_router_id r) \<and>
     (\<forall>(r', i')\<in>set ps. iface_key i' = iface_key i \<longrightarrow> pr_distance r \<le> pr_distance r'))"

definition wrappers_ok :: "u32 \<Rightarrow> pwospf_router list \<Rightarrow> (pwospf_router \<times> pwospf_interface) list \<Rightarrow> route_wrapper list \<Rightarrow> bool" where
  "wrappers_ok our_rid rl ps hp \<longleftrightarrow> distinct (map wrapper_key hp) \<and>
     set (map wrapper_key hp) = set (map (iface_key \<circ> snd) ps) \<and>
     (\<forall>w\<in>set hp. \<exists>ri\<in>set ps. best_for our_rid rl ps w ri)"

text \<open>Distances that survive the 16 bits: below 65535, or infinite.\<close>

definition short_dist :: "pwospf_router \<Rightarrow> bool" where
  "short_dist r \<longleftrightarrow> pr_distance r < 0xFFFF \<or> pr_distance r = INFINITE"

lemma unat_hop_dist: "unat (hop_dist r) = unat (pr_distance r) mod 65536"
  by (simp add: unsigned_ucast_eq take_bit_eq_mod)

lemma hop_dist_ge:
  assumes "short_dist r" and "short_dist r'"
  shows "pr_distance r \<ge> ucast (hop_dist r') \<longleftrightarrow> pr_distance r' \<le> pr_distance r"
proof -
  have u: "unat (ucast (hop_dist r') :: u32) = unat (pr_distance r') mod 65536"
    by (simp add: unsigned_ucast_eq take_bit_eq_mod unat_mod)
  have "unat (pr_distance x) < 65535 \<or> unat (pr_distance x) = 4294967295" if "short_dist x" for x
    using that by (auto simp: short_dist_def word_less_nat_alt)
  from this[OF assms(1)] this[OF assms(2)] show ?thesis unfolding word_le_nat_alt u by auto
qed

lemma get_route_wrapper_key: "get_route_wrapper hp (pi_subnet i) (pi_mask i) = find (\<lambda>w. wrapper_key w = iface_key i) hp"
  by (simp add: get_route_wrapper_def wrapper_key_def iface_key_def)

lemma update_first_split:
  "\<forall>x\<in>set xs. \<not> P x \<Longrightarrow> P w \<Longrightarrow> update_first P f (xs @ w # ys) = xs @ f w # ys"
  by (induction xs) auto

definition advertised :: "pwospf_router \<Rightarrow> (pwospf_router \<times> pwospf_interface) list" where
  "advertised r = map (Pair r) (pr_interface_list r)"

text \<open>What the routers that are wrapped have to satisfy.\<close>

definition wrappable :: "u32 \<Rightarrow> pwospf_router list \<Rightarrow> pwospf_router \<times> pwospf_interface \<Rightarrow> bool" where
  "wrappable our_rid rl = (\<lambda>(r, i). short_dist r \<and> (our_rid = pr_router_id r \<longrightarrow> pr_distance r = 0) \<and> next_rid rl r i \<noteq> None)"

lemma best_for_extend:
  assumes "best_for our_rid rl ps w (r0, i0)"
    and "iface_key i = iface_key i0 \<Longrightarrow> pr_distance r0 \<le> pr_distance r"
  shows "best_for our_rid rl (ps @ [(r, i)]) w (r0, i0)"
  using assms by (auto simp: best_for_def)

lemma wrappers_extend:
  assumes "\<forall>w\<in>set hp. \<exists>ri\<in>set ps. best_for our_rid rl ps w ri" and "iface_key i \<notin> set (map wrapper_key hp)"
  shows "\<forall>w\<in>set hp. \<exists>ri\<in>set (ps @ [(r, i)]). best_for our_rid rl (ps @ [(r, i)]) w ri"
proof
  fix w assume w: "w \<in> set hp"
  with assms(1) obtain r0 i0 where b: "(r0, i0) \<in> set ps" "best_for our_rid rl ps w (r0, i0)" by fast
  then have "iface_key i0 = wrapper_key w" by (simp add: best_for_def)
  with assms(2) w have "iface_key i \<noteq> iface_key i0" by force
  with best_for_extend[OF b(2)] b(1) show "\<exists>ri\<in>set (ps @ [(r, i)]). best_for our_rid rl (ps @ [(r, i)]) w ri"
    by (intro bexI[of _ "(r0, i0)"]) auto
qed

lemma add_route_wrapper_new:
  assumes ok: "wrappers_ok our_rid rl ps hp" and nr: "next_rid rl r i = Some nr"
    and new: "find (\<lambda>w. wrapper_key w = iface_key i) hp = None"
  shows "\<exists>hp'. add_route_wrapper our_rid rl r i hp = Some hp' \<and> wrappers_ok our_rid rl (ps @ [(r, i)]) hp'"
proof -
  let ?w = "\<lparr>rw_entry = \<lparr>rt_ip = pi_subnet i AND pi_mask i, rt_gw = 0, rt_mask = pi_mask i, rt_iface = '''',
      rt_is_static = False, rt_is_active = False\<rparr>, rw_distance = hop_dist r, rw_next_rid = nr,
      rw_directly_connected = (our_rid = pr_router_id r)\<rparr>"
  have k: "iface_key i \<notin> set (map wrapper_key hp)" using new by (force simp: find_None_set)
  have wk: "wrapper_key ?w = iface_key i" by (simp add: wrapper_key_def iface_key_def)
  have "iface_key i' \<noteq> iface_key i" if "(r', i') \<in> set ps" for r' i'
    using that ok k by (force simp: wrappers_ok_def)
  then have "best_for our_rid rl (ps @ [(r, i)]) ?w (r, i)" using nr wk by (fastforce simp: best_for_def)
  then have "wrappers_ok our_rid rl (ps @ [(r, i)]) (hp @ [?w])"
    using ok k wk wrappers_extend[OF _ k] by (auto simp: wrappers_ok_def)
  moreover have "add_route_wrapper our_rid rl r i hp = Some (hp @ [?w])"
    using new nr by (simp add: add_route_wrapper_def get_route_wrapper_key)
  ultimately show ?thesis by blast
qed

lemma add_route_wrapper_old:
  assumes ok: "wrappers_ok our_rid rl ps hp" and nr: "next_rid rl r i = Some nr"
    and old: "find (\<lambda>w. wrapper_key w = iface_key i) hp = Some w"
    and ps: "\<forall>ri\<in>set (ps @ [(r, i)]). wrappable our_rid rl ri"
  shows "\<exists>hp'. add_route_wrapper our_rid rl r i hp = Some hp' \<and> wrappers_ok our_rid rl (ps @ [(r, i)]) hp'"
proof -
  from old obtain xs ys where hp: "hp = xs @ w # ys" "wrapper_key w = iface_key i" "\<forall>x\<in>set xs. wrapper_key x \<noteq> iface_key i"
    by (rule find_SomeE)
  from ok hp have d: "iface_key i \<notin> set (map wrapper_key xs)" "iface_key i \<notin> set (map wrapper_key ys)"
    by (force simp: wrappers_ok_def)+
  have all: "\<forall>x\<in>set hp. \<exists>ri\<in>set ps. best_for our_rid rl ps x ri" using ok by (simp add: wrappers_ok_def)
  then obtain r0 i0 where b: "(r0, i0) \<in> set ps" "best_for our_rid rl ps w (r0, i0)" using hp(1) by fastforce
  have w0: "wrappable our_rid rl (r0, i0)" "wrappable our_rid rl (r, i)" using ps b(1) by auto
  have dist: "rw_distance w = hop_dist r0" "iface_key i0 = iface_key i" using b(2) hp(2) by (auto simp: best_for_def)
  have others: "\<forall>x\<in>set xs \<union> set ys. \<exists>ri\<in>set (ps @ [(r, i)]). best_for our_rid rl (ps @ [(r, i)]) x ri"
    using wrappers_extend[of xs ps our_rid rl i r] wrappers_extend[of ys ps our_rid rl i r] all d hp(1) by auto
  have cmp: "pr_distance r \<ge> ucast (rw_distance w) \<longleftrightarrow> pr_distance r0 \<le> pr_distance r"
    using hop_dist_ge w0 dist(1) by (simp add: wrappable_def)
  have keys: "set (map wrapper_key hp) = set (map (iface_key \<circ> snd) (ps @ [(r, i)]))"
    using ok hp(1,2) by (auto simp: wrappers_ok_def)
  show ?thesis
  proof (cases "pr_distance r0 \<le> pr_distance r")
    case True
    then have "best_for our_rid rl (ps @ [(r, i)]) w (r0, i0)" by (intro best_for_extend[OF b(2)])
    then have "\<exists>ri\<in>set (ps @ [(r, i)]). best_for our_rid rl (ps @ [(r, i)]) w ri"
      using b(1) by (intro bexI[of _ "(r0, i0)"]) auto
    with others have "\<forall>x\<in>set hp. \<exists>ri\<in>set (ps @ [(r, i)]). best_for our_rid rl (ps @ [(r, i)]) x ri"
      unfolding hp(1) by simp
    with keys ok have "wrappers_ok our_rid rl (ps @ [(r, i)]) hp" by (simp add: wrappers_ok_def)
    moreover have "add_route_wrapper our_rid rl r i hp = Some hp"
      using old cmp True by (simp add: add_route_wrapper_def get_route_wrapper_key)
    ultimately show ?thesis by blast
  next
    case False
    let ?f = "\<lambda>w. w\<lparr>rw_distance := hop_dist r, rw_next_rid := nr,
      rw_directly_connected := (rw_directly_connected w \<or> our_rid = pr_router_id r)\<rparr>"
    have "update_first (\<lambda>w. wrapper_key w = iface_key i) ?f hp = xs @ ?f w # ys"
      unfolding hp(1) using hp(2,3) by (intro update_first_split) auto
    then have add: "add_route_wrapper our_rid rl r i hp = Some (xs @ ?f w # ys)"
      using old cmp False nr
      by (simp add: add_route_wrapper_def get_route_wrapper_key) (simp add: wrapper_key_def iface_key_def)
    have k: "wrapper_key (?f w) = wrapper_key w" by (simp add: wrapper_key_def)
    have direct: "\<not> rw_directly_connected w" using b(2) w0(1) False by (auto simp: best_for_def wrappable_def)
    have "pr_distance r \<le> pr_distance r'" if "(r', i') \<in> set ps" "iface_key i' = iface_key i" for r' i'
      using that b(2) dist(2) False by (fastforce simp: best_for_def)
    then have "best_for our_rid rl (ps @ [(r, i)]) (?f w) (r, i)"
      using nr hp(2) k direct by (auto simp: best_for_def)
    then have "\<exists>ri\<in>set (ps @ [(r, i)]). best_for our_rid rl (ps @ [(r, i)]) (?f w) ri"
      by (intro bexI[of _ "(r, i)"]) auto
    with others have "\<forall>x\<in>set (xs @ ?f w # ys). \<exists>ri\<in>set (ps @ [(r, i)]). best_for our_rid rl (ps @ [(r, i)]) x ri"
      by simp
    moreover have "map wrapper_key (xs @ ?f w # ys) = map wrapper_key hp" using hp(1) k by simp
    ultimately have "wrappers_ok our_rid rl (ps @ [(r, i)]) (xs @ ?f w # ys)"
      using keys ok unfolding wrappers_ok_def by simp
    with add show ?thesis by blast
  qed
qed

lemma add_route_wrappers_ok:
  assumes ok: "wrappers_ok our_rid rl ps hp" and ps: "\<forall>ri\<in>set (ps @ advertised r). wrappable our_rid rl ri"
  shows "\<exists>hp'. add_route_wrappers our_rid rl r hp = Some hp' \<and> wrappers_ok our_rid rl (ps @ advertised r) hp'"
proof -
  let ?P = "\<lambda>pre hp. set pre \<subseteq> set (pr_interface_list r) \<and> wrappers_ok our_rid rl (ps @ map (Pair r) pre) hp"
  have "\<exists>hp'. run_all (add_route_wrapper our_rid rl r) (pr_interface_list r) hp = Some hp' \<and> ?P (pr_interface_list r) hp'"
  proof (rule run_all_total[where P = ?P])
    show "?P [] hp" using ok by simp
  next
    fix pre i hp assume p: "?P pre hp" and i: "i \<in> set (pr_interface_list r)"
    have w: "\<forall>ri\<in>set ((ps @ map (Pair r) pre) @ [(r, i)]). wrappable our_rid rl ri"
      using ps p i by (auto simp: advertised_def)
    then obtain nr where nr: "next_rid rl r i = Some nr" by (auto simp: wrappable_def)
    note new = add_route_wrapper_new[OF conjunct2[OF p] nr] and old = add_route_wrapper_old[OF conjunct2[OF p] nr _ w]
    have "\<exists>hp'. add_route_wrapper our_rid rl r i hp = Some hp' \<and> wrappers_ok our_rid rl ((ps @ map (Pair r) pre) @ [(r, i)]) hp'"
      using new old by (cases "find (\<lambda>w. wrapper_key w = iface_key i) hp") blast+
    with p i show "\<exists>hp'. add_route_wrapper our_rid rl r i hp = Some hp' \<and> ?P (pre @ [i]) hp'" by auto
  qed
  then show ?thesis by (auto simp: add_route_wrappers_def advertised_def)
qed

lemma build_route_wrapper_list_ok:
  assumes "\<forall>ri\<in>set (concat (map advertised rl)). wrappable our_rid rl' ri"
  shows "\<exists>hp. run_all (add_route_wrappers our_rid rl') rl [] = Some hp \<and>
    wrappers_ok our_rid rl' (concat (map advertised rl)) hp"
proof -
  let ?P = "\<lambda>pre hp. set pre \<subseteq> set rl \<and> wrappers_ok our_rid rl' (concat (map advertised pre)) hp"
  have "\<exists>hp. run_all (add_route_wrappers our_rid rl') rl [] = Some hp \<and> ?P rl hp"
  proof (rule run_all_total[where P = ?P])
    show "?P [] []" by (simp add: wrappers_ok_def)
  next
    fix pre r hp assume p: "?P pre hp" and r: "r \<in> set rl"
    have "\<forall>ri\<in>set (concat (map advertised pre) @ advertised r). wrappable our_rid rl' ri" using assms p r by auto
    from add_route_wrappers_ok[OF conjunct2[OF p] this] p r
    show "\<exists>hp'. add_route_wrappers our_rid rl' r hp = Some hp' \<and> ?P (pre @ [r]) hp'" by auto
  qed
  then show ?thesis by auto
qed

section \<open>Distances are small\<close>

lemma dist_closed:
  assumes "prev_ok rl s" and "v < length rl" and "dist rl v < M32" and "k \<le> dist rl v" and "dist rl s = 0"
  shows "\<exists>u<length rl. dist rl u = k"
  using assms(2-4)
proof (induction "dist rl v" arbitrary: v)
  case 0
  then show ?case by auto
next
  case (Suc n)
  show ?case
  proof (cases "k = Suc n")
    case True
    with Suc show ?thesis by auto
  next
    case False
    have "v \<noteq> s" using Suc.hyps(2) assms(5) by auto
    with assms(1) Suc.prems obtain u where u: "u \<in> found rl" "dist rl v = Suc (dist rl u)" unfolding prev_ok_def by metis
    with Suc.hyps(2) Suc.prems False Suc.hyps(1)[of u] show ?thesis by (auto simp: found_def)
  qed
qed

lemma dist_less_length:
  assumes "prev_ok rl s" and "v < length rl" and "dist rl v < M32" and "dist rl s = 0"
  shows "dist rl v < length rl"
proof -
  have "{..dist rl v} \<subseteq> dist rl ` {..<length rl}" using dist_closed[OF assms(1-3) _ assms(4)] by (force simp: image_iff)
  then have "card {..dist rl v} \<le> card (dist rl ` {..<length rl})" by (intro card_mono) auto
  also have "\<dots> \<le> length rl" using card_image_le[of "{..<length rl}" "dist rl"] by simp
  finally show ?thesis by simp
qed

section \<open>The computed routes\<close>

text \<open>No stale predecessors: the source, and every router that is not reached, has none.\<close>

definition no_stale_prev :: "u32 \<Rightarrow> pwospf_router list \<Rightarrow> bool" where
  "no_stale_prev our_rid rl \<longleftrightarrow> (\<forall>r\<in>set (shortest_paths our_rid rl).
     pr_router_id r = our_rid \<or> pr_distance r = INFINITE \<longrightarrow> pr_prev_router r = None)"

text \<open>The router's own entry advertises the subnet of every interface.\<close>

definition ifaces_advertised :: "u32 \<Rightarrow> pwospf_router list \<Rightarrow> iface_entry list \<Rightarrow> bool" where
  "ifaces_advertised our_rid rl il \<longleftrightarrow> (\<forall>ie\<in>set il. \<exists>r\<in>set rl. pr_router_id r = our_rid \<and>
     (\<exists>i\<in>set (pr_interface_list r). iface_key i = (ie_ip ie AND ie_mask ie, ie_mask ie)))"

lemma dist_zero:
  assumes "spf_ok rl s None rl'"
  shows "dist rl' v = 0 \<longleftrightarrow> v = s"
proof -
  have l: "hg.labelled rl s (found rl') (dist rl')" using assms by (simp add: spf_ok_def)
  then have "dist rl' s = 0" by (simp add: hg.labelled_def)
  moreover have "hg.hops rl s (dist rl' v) v" if "dist rl' v = 0" proof -
    from l have "dist rl' v < M32 \<longrightarrow> hg.hops rl s (dist rl' v) v" unfolding hg.labelled_def by blast
    with that show ?thesis by simp
  qed
  ultimately show ?thesis by (metis hg.hops_0)
qed

lemma next_rid_reached:
  assumes ok: "spf_ok rl s None rl'" and db: "database_ok our_rid rl"
    and v: "v < length rl" "v \<noteq> s" "dist rl' v < M32"
  shows "\<exists>h<length rl. next_rid rl' (rl' ! v) i = Some (pr_router_id (rl ! h)) \<and> edge rl s h \<and> (edge rl ^^ (dist rl' v - 1)) h v"
proof -
  from ok have t: "topology rl' = topology rl" and p: "prev_ok rl' s" by (auto simp: spf_ok_def)
  note len = topology_length[OF t] and e = topology_edge[OF t]
  have "map (fst \<circ> snd) (topology rl') = map (fst \<circ> snd) (topology rl)" using t by simp
  then have "map pr_addr rl' = map pr_addr rl" by (simp add: topology_def comp_def)
  then have a: "distinct (map pr_addr rl')" using db by (simp add: database_ok_def)
  obtain n where n: "dist rl' v = Suc n" using dist_zero[OF ok, of v] v(2) by (cases "dist rl' v") auto
  from walk_back_first_hop[OF a p dist_zero[OF ok] _ n] v(1,3) n len
  obtain h where h: "h < length rl" "walk_back rl' (rl' ! v) = Some (rl' ! h)" "edge rl s h" "(edge rl ^^ n) h v"
    unfolding e by auto
  have "pr_prev_router (rl' ! v) \<noteq> None" using p v len unfolding prev_ok_def by (metis not_None_eq)
  with h n topology_nth[OF t, of h] len show ?thesis by (auto simp: next_rid_def intro!: exI[of _ h])
qed

lemma infinite_iff: "d = INFINITE \<longleftrightarrow> \<not> unat d < M32" for d :: u32
proof -
  have "d = INFINITE \<longleftrightarrow> unat d = M32" by (simp add: word_unat_eq_iff)
  with unat_u32_less[of d] show ?thesis by linarith
qed

lemma all_wrappable:
  assumes ok: "spf_ok rl s None (shortest_paths our_rid rl)" and db: "database_ok our_rid rl"
    and s: "rid_index our_rid rl = Some s" and len: "length rl < 65535" and stale: "no_stale_prev our_rid rl"
  shows "\<forall>ri\<in>set (concat (map advertised (shortest_paths our_rid rl))). wrappable our_rid (shortest_paths our_rid rl) ri"
proof
  let ?rl = "shortest_paths our_rid rl"
  from ok have t: "topology ?rl = topology rl" and p: "prev_ok ?rl s" by (auto simp: spf_ok_def)
  note l = topology_length[OF t]
  fix ri assume "ri \<in> set (concat (map advertised ?rl))"
  then obtain v i where v: "v < length rl" "ri = (?rl ! v, i)" using l by (auto simp: advertised_def in_set_conv_nth)
  have "dist ?rl v = unat (pr_distance (?rl ! v))" using v(1) l by (simp add: dist_def)
  then have d: "pr_distance (?rl ! v) = INFINITE \<longleftrightarrow> \<not> dist ?rl v < M32"
    using infinite_iff[of "pr_distance (?rl ! v)"] by simp
  have "short_dist (?rl ! v)"
  proof (cases "dist ?rl v < M32")
    case True
    from dist_less_length[OF p _ True] v(1) l dist_zero[OF ok, of s] len have "dist ?rl v < 65535" by simp
    then show ?thesis using v(1) l by (simp add: short_dist_def dist_def word_less_nat_alt)
  qed (use d in \<open>simp add: short_dist_def\<close>)
  moreover have "pr_distance (?rl ! v) = 0" if "our_rid = pr_router_id (?rl ! v)"
  proof -
    have "rid_index our_rid rl = Some v"
      using db that v(1) topology_nth[OF t, of v] l by (intro rid_index_distinct) (auto simp: database_ok_def)
    with s dist_zero[OF ok, of v] v(1) l show ?thesis by (simp add: dist_def unat_eq_0)
  qed
  moreover have "next_rid ?rl (?rl ! v) i \<noteq> None"
  proof (cases "dist ?rl v < M32 \<and> v \<noteq> s")
    case True
    with next_rid_reached[OF ok db v(1), of i] show ?thesis by auto
  next
    case False
    have "?rl ! v \<in> set ?rl" using v(1) l by simp
    moreover have "pr_router_id (?rl ! v) = our_rid \<or> pr_distance (?rl ! v) = INFINITE"
      using False d rid_index_Some[OF s] topology_nth[OF t, of s] l by auto
    ultimately have "pr_prev_router (?rl ! v) = None" using stale unfolding no_stale_prev_def by blast
    then show ?thesis by (simp add: next_rid_def)
  qed
  ultimately show "wrappable our_rid ?rl ri" using v(2) by (simp add: wrappable_def)
qed

text \<open>What a computed route has to do with the graph, for a database with source \<open>s\<close> and distances \<open>d\<close>.\<close>

definition good_route :: "pwospf_router list \<Rightarrow> nat \<Rightarrow> (nat \<Rightarrow> nat) \<Rightarrow> iface_entry list \<Rightarrow> rtable_entry \<Rightarrow> bool" where
  "good_route rl s d il e \<longleftrightarrow> rt_is_active e \<and> \<not> rt_is_static e \<and>
     (\<exists>v<length rl. \<exists>i\<in>set (pr_interface_list (rl ! v)). (rt_ip e, rt_mask e) = iface_key i \<and>
       (\<forall>v'<length rl. \<forall>i'\<in>set (pr_interface_list (rl ! v')). iface_key i' = iface_key i \<longrightarrow> d v \<le> d v') \<and>
       (\<exists>ie\<in>set il. rt_iface e = take 32 (ie_name ie) \<and>
         (if v = s then rt_gw e = 0
          else \<exists>nbr\<in>set (ie_nbr_routers ie). rt_gw e = nbr_ip nbr \<and>
            (d v < M32 \<longrightarrow> (\<exists>h. edge rl s h \<and> (edge rl ^^ (d v - 1)) h v \<and> nbr_router_id nbr = pr_router_id (rl ! h))))))"

lemma unwrap_route_good:
  assumes ok: "spf_ok rl s None rl'" and db: "database_ok our_rid rl" and s: "rid_index our_rid rl = Some s"
    and adv: "ifaces_advertised our_rid rl il"
    and best: "best_for our_rid rl' (concat (map advertised rl')) w (r, i)" and ri: "(r, i) \<in> set (concat (map advertised rl'))"
  shows "\<exists>re. unwrap_route il w = Some re \<and>
    (\<forall>e. re = Some e \<longrightarrow> good_route rl s (dist rl') il e \<and> (rt_ip e, rt_mask e) = wrapper_key w)"
proof (cases "(case get_iface_by_rid (rw_next_rid w) il of
              None \<Rightarrow> get_iface_by_subnet_mask (rt_ip (rw_entry w)) (rt_mask (rw_entry w)) il | Some iface \<Rightarrow> Some iface)")
  case None
  then show ?thesis by (simp add: unwrap_route_def)
next
  case (Some ie)
  from ok have t: "topology rl' = topology rl" by (simp add: spf_ok_def)
  note len = topology_length[OF t]
  from ri obtain v where v: "v < length rl" "r = rl' ! v" "i \<in> set (pr_interface_list r)"
    using len by (fastforce simp: advertised_def in_set_conv_nth[of _ rl'])
  have iv: "i \<in> set (pr_interface_list (rl ! v))" using v topology_nth[OF t, of v] len by auto
  have min: "dist rl' v \<le> dist rl' v'" if "v' < length rl" "i' \<in> set (pr_interface_list (rl ! v'))" "iface_key i' = iface_key i" for v' i'
  proof -
    have "(rl' ! v', i') \<in> set (concat (map advertised rl'))"
      using that topology_nth[OF t, of v'] len by (auto simp: advertised_def intro!: bexI[of _ "rl' ! v'"])
    with best that(3) have "pr_distance r \<le> pr_distance (rl' ! v')" by (fastforce simp: best_for_def)
    then show ?thesis using that(1) v(1,2) len by (simp add: dist_def word_le_nat_alt)
  qed
  have rid_s: "our_rid = pr_router_id r \<longleftrightarrow> v = s"
  proof
    assume "our_rid = pr_router_id r"
    then have "rid_index our_rid rl = Some v"
      using db v topology_nth[OF t, of v] len by (intro rid_index_distinct) (auto simp: database_ok_def)
    with s show "v = s" by simp
  qed (use rid_index_Some[OF s] topology_nth[OF t, of s] len v in auto)
  have direct: "rw_directly_connected w \<longleftrightarrow> v = s" and key: "wrapper_key w = iface_key i"
    and nr: "next_rid rl' r i = Some (rw_next_rid w)" using best rid_s by (auto simp: best_for_def)
  have ie: "ie \<in> set il"
    using Some by (auto simp: get_iface_by_rid_def get_iface_by_subnet_mask_def dest: find_Some_iff_set split: option.splits if_splits)
  have nbr: "\<exists>nbr\<in>set (ie_nbr_routers ie). get_nbr_by_rid ie (rw_next_rid w) = Some nbr \<and> nbr_router_id nbr = rw_next_rid w" if "v \<noteq> s"
  proof (cases "get_iface_by_rid (rw_next_rid w) il")
    case None
    with Some have "wrapper_key w = (ie_ip ie AND ie_mask ie, ie_mask ie)"
      by (auto simp: get_iface_by_subnet_mask_def wrapper_key_def dest: find_Some_iff_set)
    with adv ie key obtain q i' where q: "q \<in> set rl" "pr_router_id q = our_rid" "i' \<in> set (pr_interface_list q)" "iface_key i' = iface_key i"
      unfolding ifaces_advertised_def by metis
    then obtain v' where v': "v' < length rl" "rl ! v' = q" by (auto simp: in_set_conv_nth)
    with q(2) db have "rid_index our_rid rl = Some v'" by (intro rid_index_distinct) (auto simp: database_ok_def)
    with s v' q have "dist rl' v \<le> dist rl' s" using min[of v' i'] by auto
    with dist_zero[OF ok, of s] dist_zero[OF ok, of v] that show ?thesis by simp
  next
    case (Some ie')
    with \<open>(case get_iface_by_rid _ _ of None \<Rightarrow> _ | Some iface \<Rightarrow> _) = Some ie\<close> have "get_iface_by_rid (rw_next_rid w) il = Some ie" by simp
    then have "list_ex (\<lambda>nbr. nbr_router_id nbr = rw_next_rid w) (ie_nbr_routers ie)"
      by (auto simp: get_iface_by_rid_def dest: find_Some_iff_set split: if_splits)
    then obtain nbr where "get_nbr_by_rid ie (rw_next_rid w) = Some nbr"
      by (cases "get_nbr_by_rid ie (rw_next_rid w)") (auto simp: get_nbr_by_rid_def list_ex_iff find_None_set)
    then show ?thesis by (auto simp: get_nbr_by_rid_def dest: find_Some_iff_set)
  qed
  have hop: "\<exists>h. edge rl s h \<and> (edge rl ^^ (dist rl' v - 1)) h v \<and> rw_next_rid w = pr_router_id (rl ! h)" if "v \<noteq> s" "dist rl' v < M32"
    using next_rid_reached[OF ok db v(1) that, of i] nr v(2) by auto
  obtain g where g: "(if rw_directly_connected w then Some 0
                else map_option nbr_ip (get_nbr_by_rid ie (rw_next_rid w))) = Some g"
    using nbr direct by (cases "v = s") auto
  define e where "e = (rw_entry w)\<lparr>rt_iface := take 32 (ie_name ie), rt_gw := g, rt_is_active := True, rt_is_static := False\<rparr>"
  have e: "unwrap_route il w = Some (Some e)" "(rt_ip e, rt_mask e) = wrapper_key w" "rt_is_active e" "\<not> rt_is_static e"
    "rt_iface e = take 32 (ie_name ie)"
    "if v = s then rt_gw e = 0 else map_option nbr_ip (get_nbr_by_rid ie (rw_next_rid w)) = Some (rt_gw e)"
    using Some g direct by (auto simp: unwrap_route_def strncpy_def wrapper_key_def e_def split: if_splits)
  have "good_route rl s (dist rl') il e"
    unfolding good_route_def
  proof (intro conjI exI[of _ v] bexI[of _ i] bexI[of _ ie])
    show "if v = s then rt_gw e = 0 else \<exists>nbr\<in>set (ie_nbr_routers ie). rt_gw e = nbr_ip nbr \<and>
        (dist rl' v < M32 \<longrightarrow> (\<exists>h. edge rl s h \<and> (edge rl ^^ (dist rl' v - 1)) h v \<and> nbr_router_id nbr = pr_router_id (rl ! h)))"
    proof (cases "v = s")
      case False
      then obtain nbr' where n: "nbr' \<in> set (ie_nbr_routers ie)" "get_nbr_by_rid ie (rw_next_rid w) = Some nbr'"
        "nbr_router_id nbr' = rw_next_rid w" using nbr by blast
      with e(6) False have "rt_gw e = nbr_ip nbr'" by simp
      with n hop[OF False] False show ?thesis by (auto intro!: bexI[OF _ n(1)])
    qed (use e(6) in simp)
  qed (use e key v iv min ie in auto)
  with e show ?thesis by auto
qed

lemma unwrap_routes_all:
  assumes "\<forall>w\<in>set hp. \<exists>re. unwrap_route il w = Some re \<and> (\<forall>e. re = Some e \<longrightarrow> Q e \<and> (rt_ip e, rt_mask e) = wrapper_key w)"
  shows "\<exists>es. unwrap_routes il hp = Some es \<and> (\<forall>e\<in>set es. Q e) \<and>
    set (map (\<lambda>e. (rt_ip e, rt_mask e)) es) \<subseteq> set (map wrapper_key hp) \<and>
    (distinct (map wrapper_key hp) \<longrightarrow> distinct (map (\<lambda>e. (rt_ip e, rt_mask e)) es))"
  using assms
proof (induction hp)
  case (Cons w hp)
  then obtain es where es: "unwrap_routes il hp = Some es" "\<forall>e\<in>set es. Q e"
    "set (map (\<lambda>e. (rt_ip e, rt_mask e)) es) \<subseteq> set (map wrapper_key hp)"
    "distinct (map wrapper_key hp) \<longrightarrow> distinct (map (\<lambda>e. (rt_ip e, rt_mask e)) es)" by auto
  from Cons.prems obtain re where re: "unwrap_route il w = Some re"
    "\<forall>e. re = Some e \<longrightarrow> Q e \<and> (rt_ip e, rt_mask e) = wrapper_key w" by auto
  show ?case
  proof (cases re)
    case None
    with es re show ?thesis by auto
  next
    case (Some e)
    with re have e: "Q e" "(rt_ip e, rt_mask e) = wrapper_key w" by auto
    with es re Some show ?thesis by (fastforce simp: subset_iff)
  qed
qed simp

section \<open>A network to evaluate on\<close>

text \<open>This router, 1, is connected to router 2 over the subnet 10.0.1.0/24, and router 2 to router 3 over 10.0.2.0/24.\<close>

definition link_to :: "u32 \<Rightarrow> u32 \<Rightarrow> pwospf_interface" where
  "link_to net rid = \<lparr>pi_subnet = htonl net, pi_mask = htonl 0xFFFFFF00, pi_router_id = rid, pi_is_active = True\<rparr>"

definition a_router :: "nat \<Rightarrow> u32 \<Rightarrow> pwospf_interface list \<Rightarrow> pwospf_router" where
  "a_router addr rid il = \<lparr>pr_addr = addr, pr_router_id = rid, pr_area_id = 0, pr_seq = 1, pr_last_update = 0,
     pr_distance = 0, pr_shortest_path_found = False, pr_interface_list = il, pr_prev_router = None\<rparr>"

definition three_routers :: "pwospf_router list" where
  "three_routers = [a_router 1 1 [link_to 0x0A000100 2], a_router 2 2 [link_to 0x0A000100 1, link_to 0x0A000200 3],
     a_router 3 3 [link_to 0x0A000200 2, link_to 0x0A000300 0]]"

definition to_router_two :: iface_entry where
  "to_router_two = eth1\<lparr>ie_name := ''eth0'', ie_ip := htonl 0x0A000101, ie_mask := htonl 0xFFFFFF00,
     ie_nbr_routers := [\<lparr>nbr_router_id = 2, nbr_ip = htonl 0x0A000102, nbr_last_rcvd_hello = 0\<rparr>]\<rparr>"

section \<open>Properties\<close>

text \<open>
  C5. The loop of \<open>compute_rtable\<close> computes shortest paths over the active links of the database: it ends, changes nothing but
  distances, marks and predecessors, every finite distance is the length of a path from this router, and no path is shorter than
  the distance of its end. In particular a router with distance 0xFFFFFFFF is not reachable in fewer hops than that.
\<close>

theorem shortest_paths_exact:
  assumes "database_ok our_rid rl" and "rid_index our_rid rl = Some s" and "v < length rl"
  shows "topology (shortest_paths our_rid rl) = topology rl \<and>
    (pr_distance (shortest_paths our_rid rl ! v) \<noteq> INFINITE \<longrightarrow>
       (edge rl ^^ unat (pr_distance (shortest_paths our_rid rl ! v))) s v) \<and>
    (\<forall>n. (edge rl ^^ n) s v \<longrightarrow> unat (pr_distance (shortest_paths our_rid rl ! v)) \<le> n)"
proof -
  let ?rl = "shortest_paths our_rid rl"
  note ok = shortest_paths_ok[OF assms(1,2), unfolded spf_ok_def, simplified]
  have "dist ?rl v = unat (pr_distance (?rl ! v))"
    using assms(3) topology_length[OF conjunct1[OF ok]] by (simp add: dist_def)
  with ok hg.labelled_final[of rl s "found ?rl" "dist ?rl" v] infinite_iff[of "pr_distance (?rl ! v)"] show ?thesis
    by (simp add: hg.hops_def)
qed

theorem shortest_paths_exact_witness:
  "map pr_distance (shortest_paths 1 three_routers) = [0, 1, 2] \<and> (edge three_routers ^^ 2) 0 2"
proof -
  have d: "map pr_distance (shortest_paths 1 three_routers) = [0, 1, 2]" by code_simp
  have 1: "database_ok 1 three_routers" "rid_index 1 three_routers = Some 0" "2 < length three_routers" by code_simp+
  have "pr_distance (shortest_paths 1 three_routers ! 2) = 2" by code_simp
  with shortest_paths_exact[OF 1] d show ?thesis by simp
qed

text \<open>
  C10. The routes that \<open>compute_rtable\<close> returns: one per advertised network at most, all active and dynamic. The route to a network
  goes to the advertising router that is fewest hops away; the gateway is zero when that is this router itself, and otherwise the
  address of a neighbour that is the first hop of a shortest path to it. The computation does not fault when no predecessor is stale
  and this router advertises the subnets of its own interfaces.
\<close>

theorem compute_rtable_shortest:
  assumes "database_ok our_rid rl" and "rid_index our_rid rl = Some s" and "length rl < 65535"
    and "no_stale_prev our_rid rl" and "ifaces_advertised our_rid rl il"
  shows "\<exists>es. compute_rtable our_rid rl il = Some (es, shortest_paths our_rid rl) \<and>
    distinct (map (\<lambda>e. (rt_ip e, rt_mask e)) es) \<and>
    (\<forall>e\<in>set es. good_route rl s (dist (shortest_paths our_rid rl)) il e)"
proof -
  let ?rl = "shortest_paths our_rid rl"
  note ok = shortest_paths_ok[OF assms(1,2)]
  from build_route_wrapper_list_ok[OF all_wrappable[OF ok assms(1-4)]]
  obtain hp where hp: "build_route_wrapper_list our_rid ?rl = Some hp"
    "wrappers_ok our_rid ?rl (concat (map advertised ?rl)) hp" by (auto simp: build_route_wrapper_list_def)
  have "\<forall>w\<in>set hp. \<exists>re. unwrap_route il w = Some re \<and>
      (\<forall>e. re = Some e \<longrightarrow> good_route rl s (dist ?rl) il e \<and> (rt_ip e, rt_mask e) = wrapper_key w)"
  proof
    fix w assume "w \<in> set hp"
    with hp(2) obtain r i where "(r, i) \<in> set (concat (map advertised ?rl))"
      "best_for our_rid ?rl (concat (map advertised ?rl)) w (r, i)" unfolding wrappers_ok_def by fast
    then show "\<exists>re. unwrap_route il w = Some re \<and>
        (\<forall>e. re = Some e \<longrightarrow> good_route rl s (dist ?rl) il e \<and> (rt_ip e, rt_mask e) = wrapper_key w)"
      by (intro unwrap_route_good[OF ok assms(1,2,5)])
  qed
  from unwrap_routes_all[OF this] hp show ?thesis by (auto simp: compute_rtable_def wrappers_ok_def)
qed

theorem compute_rtable_shortest_witness:
  "\<exists>es. compute_rtable 1 three_routers [to_router_two] = Some (es, shortest_paths 1 three_routers) \<and>
     map (\<lambda>e. (ntohl (rt_ip e), ntohl (rt_gw e))) es = [(0x0A000100, 0), (0x0A000200, 0x0A000102), (0x0A000300, 0x0A000102)]"
proof -
  have 1: "database_ok 1 three_routers" "rid_index 1 three_routers = Some 0"
    "no_stale_prev 1 three_routers" "ifaces_advertised 1 three_routers [to_router_two]" by code_simp+
  have l: "length three_routers < 65535" by (simp add: three_routers_def)
  have 2: "map_option (\<lambda>(es, rl). map (\<lambda>e. (ntohl (rt_ip e), ntohl (rt_gw e))) es) (compute_rtable 1 three_routers [to_router_two]) =
      Some [(0x0A000100, 0), (0x0A000200, 0x0A000102), (0x0A000300, 0x0A000102)]" by code_simp
  from compute_rtable_shortest[OF 1(1,2) l 1(3,4)] 2 show ?thesis by auto
qed

text \<open>
  A round of \<open>dijkstra_thread\<close> that finds work replaces exactly the dynamic routes: the static ones stay, the new dynamic ones are
  those of \<open>compute_rtable\<close>, the dirty flag is cleared and all locks are free again. A round that timed out with nothing to do changes
  nothing.
\<close>

theorem dijkstra_round_replaces:
  assumes "held rs = []"
    and "is_netfpga rs \<Longrightarrow> \<forall>e\<in>set (filter rt_is_static (rtable rs) @ es). rt_is_active e \<longrightarrow> has_port e"
    and "compute_rtable (router_id rs) (pwospf_router_list rs) (if_list rs) = Some (es, rl)"
  shows "\<exists>rs'. dijkstra_round timedout rs = Some rs' \<and> held rs' = [] \<and>
    (if timedout \<and> dijkstra_dirty rs = 0 then rs' = rs
     else mset (rtable rs') = mset (filter rt_is_static (rtable rs)) + mset es \<and> routes_sorted (rtable rs') \<and>
       dijkstra_dirty rs' = 0 \<and> pwospf_router_list rs' = rl)"
proof (cases "timedout \<and> dijkstra_dirty rs = 0")
  case True
  with assms(1) show ?thesis by (simp add: dijkstra_round_def)
next
  case False
  let ?rs = "rs\<lparr>dijkstra_dirty := 0, held := [(RouterList, Wr), (RtableLock, Wr), (IfList, Rd)],
    rtable := filter rt_is_static (rtable rs) @ es, pwospf_router_list := rl\<rparr>"
  have "is_netfpga ?rs \<Longrightarrow> \<forall>e\<in>set (rtable ?rs). rt_is_active e \<longrightarrow> has_port e" using assms(2) by simp
  then obtain t log where t: "trigger_rtable_modified ?rs = Some (?rs\<lparr>rtable := t, regs := regs ?rs @ log\<rparr>)"
    "mset t = mset (rtable ?rs)" "routes_sorted t"
    by (rule trigger_rtable_modified_returns)
  have "dijkstra_round timedout rs = Some (?rs\<lparr>rtable := t, regs := regs ?rs @ log, held := []\<rparr>)"
    unfolding dijkstra_round_def if_not_P[OF False]
    using assms(1,3) t(1) by (simp add: acquire_def release_def Let_def)
  with t show ?thesis unfolding if_not_P[OF False] by simp
qed

theorem dijkstra_round_replaces_witness:
  "\<exists>rs'. dijkstra_round False (idle_router\<lparr>router_id := 1, pwospf_router_list := three_routers, if_list := [to_router_two],
       rtable := [route_ten]\<rparr>) = Some rs' \<and> length (rtable rs') = 4 \<and> route_ten \<in> set (rtable rs')"
proof -
  let ?rs = "idle_router\<lparr>router_id := 1, pwospf_router_list := three_routers, if_list := [to_router_two], rtable := [route_ten]\<rparr>"
  have 1: "held ?rs = []" "\<not> is_netfpga ?rs" "router_id ?rs = 1" "pwospf_router_list ?rs = three_routers" "if_list ?rs = [to_router_two]"
    "filter rt_is_static (rtable ?rs) = [route_ten]" by (simp_all add: idle_router_def route_ten_def)
  have "map_option (length \<circ> fst) (compute_rtable 1 three_routers [to_router_two]) = Some 3" by code_simp
  then obtain es rl where c: "compute_rtable 1 three_routers [to_router_two] = Some (es, rl)" "length es = 3" by auto
  from dijkstra_round_replaces[of ?rs es rl False] 1 c
  obtain rs' where rs': "dijkstra_round False ?rs = Some rs'" "mset (rtable rs') = mset [route_ten] + mset es" by auto
  then have "size (mset (rtable rs')) = size (mset [route_ten] + mset es)" "set_mset (mset (rtable rs')) = set_mset (mset [route_ten] + mset es)" by simp_all
  then have "length (rtable rs') = 4" "route_ten \<in> set (rtable rs')" using c(2) by auto
  with rs'(1) show ?thesis by blast
qed

text \<open>
  Predecessors are never reset, and an entry that timed out is freed while others still point to it. When router 2 is gone and its
  neighbour, router 3, is no longer reachable, the next computation follows the pointer to freed memory.
\<close>

theorem compute_rtable_dangling:
  "\<exists>r3. r3 \<in> set (shortest_paths 1 three_routers) \<and> pr_router_id r3 = 3 \<and>
     compute_rtable 1 [a_router 1 1 [link_to 0x0A000100 0], r3] [to_router_two\<lparr>ie_nbr_routers := []\<rparr>] = None"
proof -
  have "pr_router_id (shortest_paths 1 three_routers ! 2) = 3"
    "compute_rtable 1 [a_router 1 1 [link_to 0x0A000100 0], shortest_paths 1 three_routers ! 2] [to_router_two\<lparr>ie_nbr_routers := []\<rparr>] = None"
    "2 < length (shortest_paths 1 three_routers)"
    by code_simp+
  then show ?thesis by (metis nth_mem)
qed

end
