(* ===== verification/Link_State.thy ===== *)
theory Link_State
  imports Dijkstra
begin

text \<open>
  Properties of the link state protocol of \<open>Pwospf\<close>: the packets it builds are accepted by other routers and say what the sender
  knows, floods reach every neighbour once, links are active when both ends advertise them, old updates change nothing,
  and silent neighbours and routers are removed.
\<close>

section \<open>Packets on the wire\<close>

text \<open>The checksum of a PWOSPF header followed by the bytes \<open>c\<close>; the checksum field counts as zero.\<close>

definition pw_sum :: "pwospf_hdr \<Rightarrow> byte list \<Rightarrow> u16 outcome" where
  "pw_sum h c = map_option ones_complement
     (sum_shorts (\<lambda>i. i < 8 \<or> 11 < i) (enc_pwospf (h\<lparr>pwospf_sum := 0\<rparr>) @ c) 0 0 (unat (ntohs (pwospf_len h)) div 2) (0 :: 64 word))"

lemma pw_sum_field [simp]: "pw_sum (h\<lparr>pwospf_sum := x\<rparr>) c = pw_sum h c"
  by (simp add: pw_sum_def)

lemma compute_pwospf_at:
  assumes "length a = off"
  shows "compute_pwospf_checksum (a @ enc_pwospf h @ c) off =
    map_option (\<lambda>s. (s, a @ enc_pwospf (h\<lparr>pwospf_sum := 0\<rparr>) @ c)) (pw_sum h c)"
proof -
  have "get_struct dec_pwospf 24 (a @ enc_pwospf h @ c) off = Some h"
    using pwospf_wire.get_at[of a off "enc_pwospf h" c] assms by (simp add: pwospf_wire.enc_length pwospf_wire.dec_enc)
  moreover have "put_struct enc_pwospf (a @ enc_pwospf h @ c) off (h\<lparr>pwospf_sum := 0\<rparr>) = Some (a @ enc_pwospf (h\<lparr>pwospf_sum := 0\<rparr>) @ c)"
    using pwospf_wire.put_at[of a off "enc_pwospf h" c] assms by (simp add: pwospf_wire.enc_length)
  moreover have "sum_shorts u (a @ r) off 0 k acc = sum_shorts u r 0 0 k acc" for u r k and acc :: "64 word"
    using sum_shorts_append[of u a r 0] assms by simp
  ultimately show ?thesis
    by (simp add: compute_pwospf_checksum_def pw_sum_def map_conv_bind_option comp_def)
qed

lemma pw_sum_Some:
  assumes "unat (ntohs (pwospf_len h)) \<le> 24 + length c"
  obtains s where "pw_sum h c = Some s"
proof -
  let ?k = "unat (ntohs (pwospf_len h)) div 2" and ?p = "enc_pwospf (h\<lparr>pwospf_sum := 0\<rparr>) @ c"
  have "0 + 2 * (0 + ?k) \<le> length ?p" using assms by (simp add: pwospf_wire.enc_length)
  moreover have "\<exists>s. sum_shorts (\<lambda>i. i < 8 \<or> 11 < i) ?p 0 i k acc = Some s" if "2 * (i + k) \<le> length ?p" for i k and acc :: "64 word"
    using that
  proof (induction k arbitrary: i acc)
    case (Suc k)
    then obtain w where "ld16 ?p (2 * i) = Some w" using ld16_Some[of "2 * i" ?p] by auto
    with Suc.IH[of "Suc i"] Suc.prems show ?case by auto
  qed simp
  ultimately obtain s where "sum_shorts (\<lambda>i. i < 8 \<or> 11 < i) ?p 0 0 ?k (0 :: 64 word) = Some s" by force
  with that show thesis by (simp add: pw_sum_def)
qed

lemma store_pwospf_at:
  assumes "length a = off" and "pw_sum h c = Some s"
  shows "store_pwospf_checksum (a @ enc_pwospf h @ c) off = Some (a @ enc_pwospf (h\<lparr>pwospf_sum := htons s\<rparr>) @ c)"
proof -
  let ?h = "h\<lparr>pwospf_sum := 0\<rparr>"
  have "get_struct dec_pwospf 24 (a @ enc_pwospf ?h @ c) off = Some ?h"
    using pwospf_wire.get_at[of a off "enc_pwospf ?h" c] assms by (simp add: pwospf_wire.enc_length pwospf_wire.dec_enc)
  moreover have "put_struct enc_pwospf (a @ enc_pwospf ?h @ c) off (?h\<lparr>pwospf_sum := x\<rparr>) = Some (a @ enc_pwospf (?h\<lparr>pwospf_sum := x\<rparr>) @ c)" for x
    using pwospf_wire.put_at[of a off "enc_pwospf ?h" c] assms by (simp add: pwospf_wire.enc_length)
  ultimately show ?thesis using assms by (simp add: store_pwospf_checksum_def compute_pwospf_at)
qed

text \<open>A PWOSPF packet with the IP and Ethernet headers in front.\<close>

definition pwospf_frame :: "mac \<Rightarrow> mac \<Rightarrow> ip_hdr \<Rightarrow> pwospf_hdr \<Rightarrow> byte list \<Rightarrow> byte list" where
  "pwospf_frame dst src ip h c =
     enc_eth \<lparr>eth_dhost = dst, eth_shost = src, eth_type = htons ETH_TYPE_IP\<rparr> @ enc_ip ip @ enc_pwospf h @ c"

lemma pwospf_frame_simps [simp]:
  "get_ip_hdr (pwospf_frame dst src ip h c) = Some ip"
  "get_pwospf_hdr (pwospf_frame dst src ip h c) = Some h"
  "length (pwospf_frame dst src ip h c) = 58 + length c"
  "get_struct d n (pwospf_frame dst src ip h c) (58 + k) = get_struct d n c k"
proof -
  let ?e = "enc_eth \<lparr>eth_dhost = dst, eth_shost = src, eth_type = htons ETH_TYPE_IP\<rparr>"
  show "get_ip_hdr (pwospf_frame dst src ip h c) = Some ip"
    using ip_wire.get_at[of ?e 14 "enc_ip ip" "enc_pwospf h @ c"]
    by (simp add: pwospf_frame_def hdr_defs eth_wire.enc_length ip_wire.enc_length ip_wire.dec_enc)
  show "get_pwospf_hdr (pwospf_frame dst src ip h c) = Some h"
    using pwospf_wire.get_at[of "?e @ enc_ip ip" 34 "enc_pwospf h" c]
    by (simp add: pwospf_frame_def hdr_defs eth_wire.enc_length ip_wire.enc_length pwospf_wire.enc_length pwospf_wire.dec_enc)
  show "length (pwospf_frame dst src ip h c) = 58 + length c"
    by (simp add: pwospf_frame_def eth_wire.enc_length ip_wire.enc_length pwospf_wire.enc_length)
  show "get_struct d n (pwospf_frame dst src ip h c) (58 + k) = get_struct d n c k"
    by (simp add: pwospf_frame_def get_struct_def mem_ld_def eth_wire.enc_length ip_wire.enc_length pwospf_wire.enc_length)
qed

lemma pwospf_valid_frame:
  assumes "pwospf_ver h = 2" and "pw_sum h c = Some s"
  shows "is_pwospf_packet_valid rs (pwospf_frame dst src ip h c) =
    Some (htons (pwospf_sum h) = s \<and> ntohs (pwospf_atype h) = 0 \<and> ntohl (pwospf_aid h) = area_id rs \<and> ntohl (pwospf_rid h) \<noteq> router_id rs,
          pwospf_frame dst src ip (h\<lparr>pwospf_sum := 0\<rparr>) c)"
proof -
  let ?a = "enc_eth \<lparr>eth_dhost = dst, eth_shost = src, eth_type = htons ETH_TYPE_IP\<rparr> @ enc_ip ip"
  have "compute_pwospf_checksum (pwospf_frame dst src ip h c) 34 = Some (s, pwospf_frame dst src ip (h\<lparr>pwospf_sum := 0\<rparr>) c)"
    using compute_pwospf_at[of ?a 34 h c] assms(2)
    by (simp add: pwospf_frame_def eth_wire.enc_length ip_wire.enc_length)
  with assms(1) show ?thesis by (simp add: is_pwospf_packet_valid_def)
qed

section \<open>Building the packets\<close>

lemma store_ip_frame:
  assumes "length z = 14" and "length y = 20" and "ip_hl ip = 5"
  shows "\<exists>x. verify_checksum (pwospf_frame (case d of None \<Rightarrow> eth_dhost (dec_eth z) | Some m \<Rightarrow> m) src (ip\<lparr>ip_sum := x\<rparr>) h c) 14 20 = Some 0 \<and>
    do { p \<leftarrow> put_ip_hdr (z @ y @ enc_pwospf h @ c) ip;
         p \<leftarrow> store_ip_checksum p;
         eth \<leftarrow> get_eth_hdr p;
         put_eth_hdr p (populate_eth_hdr eth d src ETH_TYPE_IP) } =
    Some (pwospf_frame (case d of None \<Rightarrow> eth_dhost (dec_eth z) | Some m \<Rightarrow> m) src (ip\<lparr>ip_sum := x\<rparr>) h c)"
proof -
  let ?r = "enc_pwospf h @ c"
  let ?d = "case d of None \<Rightarrow> eth_dhost (dec_eth z) | Some m \<Rightarrow> m"
  obtain x where x: "store_ip_checksum (z @ enc_ip ip @ ?r) = Some (z @ enc_ip (ip\<lparr>ip_sum := x\<rparr>) @ ?r)"
    "verify_checksum (enc_ip (ip\<lparr>ip_sum := x\<rparr>) @ ?r) 0 20 = Some 0"
    using store_ip_checksum_at[OF assms(1,3)] by blast
  let ?q = "enc_ip (ip\<lparr>ip_sum := x\<rparr>) @ ?r" and ?e = "\<lparr>eth_dhost = ?d, eth_shost = src, eth_type = htons ETH_TYPE_IP\<rparr>"
  have "put_ip_hdr (z @ y @ ?r) ip = Some (z @ enc_ip ip @ ?r)"
    using ip_wire.put_at[of z 14 y ?r ip] assms by (simp add: put_ip_hdr_def)
  moreover have "get_eth_hdr (z @ ?q) = Some (dec_eth z)" "put_eth_hdr (z @ ?q) ?e = Some (enc_eth ?e @ ?q)"
    using eth_wire.get_at[of "[]" 0 z ?q] eth_wire.put_at[of "[]" 0 z ?q ?e] assms(1) by (simp_all add: hdr_defs)
  moreover have "populate_eth_hdr (dec_eth z) d src ETH_TYPE_IP = ?e" by (simp add: populate_eth_hdr_def split: option.split)
  moreover have "verify_checksum (enc_eth ?e @ ?q) 14 20 = Some 0"
    using verify_checksum_append[of "enc_eth ?e" 14 ?q 0 20] x(2) by (simp add: eth_wire.enc_length)
  ultimately show ?thesis using x(1) by (intro exI[of _ x]) (simp add: pwospf_frame_def)
qed

text \<open>A hello packet, as its receivers see it.\<close>

lemma hello_packet_eq:
  "\<exists>x s. hello_packet rs ie = Some (pwospf_frame mac_bcast (ie_addr ie)
      ((populate_ip 32 IP_PROTO_PWOSPF (ie_ip ie) (htonl PWOSPF_HELLO_TIP))\<lparr>ip_sum := x\<rparr>)
      ((populate_pwospf PWOSPF_TYPE_HELLO 32 (router_id rs) (area_id rs))\<lparr>pwospf_sum := htons s\<rparr>)
      (enc_hello (populate_pwospf_hello (ie_mask ie) (pwospf_hello_interval rs)))) \<and>
    pw_sum (populate_pwospf PWOSPF_TYPE_HELLO 32 (router_id rs) (area_id rs))
      (enc_hello (populate_pwospf_hello (ie_mask ie) (pwospf_hello_interval rs))) = Some s \<and>
    verify_checksum (the (hello_packet rs ie)) 14 20 = Some 0"
proof -
  let ?z = "replicate 14 (0::byte)" and ?y = "replicate 20 (0::byte)"
  let ?h = "populate_pwospf PWOSPF_TYPE_HELLO 32 (router_id rs) (area_id rs)"
  let ?c = "enc_hello (populate_pwospf_hello (ie_mask ie) (pwospf_hello_interval rs))"
  have z: "replicate (14 + 20 + 24 + 8) (0::byte) = (?z @ ?y @ replicate 24 0) @ replicate 8 0 @ []"
    by (simp flip: replicate_add)
  have 1: "put_pwospf_hello_hdr (replicate (14 + 20 + 24 + 8) 0) (populate_pwospf_hello (ie_mask ie) (pwospf_hello_interval rs)) =
      Some (?z @ ?y @ replicate 24 0 @ ?c)"
    unfolding z put_pwospf_hello_hdr_def by (subst hello_wire.put_at) simp_all
  have 2: "put_pwospf_hdr (?z @ ?y @ replicate 24 0 @ ?c) ?h = Some ((?z @ ?y) @ enc_pwospf ?h @ ?c)"
    using pwospf_wire.put_at[of "?z @ ?y" 34 "replicate 24 0" ?c ?h] by (simp add: put_pwospf_hdr_def)
  have "unat (ntohs (pwospf_len ?h)) \<le> 24 + length ?c" by (simp add: populate_pwospf_def hello_wire.enc_length)
  then obtain s where s: "pw_sum ?h ?c = Some s" by (rule pw_sum_Some)
  have 3: "store_pwospf_checksum ((?z @ ?y) @ enc_pwospf ?h @ ?c) 34 = Some ((?z @ ?y) @ enc_pwospf (?h\<lparr>pwospf_sum := htons s\<rparr>) @ ?c)"
    by (rule store_pwospf_at) (simp_all add: s)
  from store_ip_frame[of ?z ?y "populate_ip 32 IP_PROTO_PWOSPF (ie_ip ie) (htonl PWOSPF_HELLO_TIP)" "Some mac_bcast" "ie_addr ie"
      "?h\<lparr>pwospf_sum := htons s\<rparr>" ?c] 1 2 3 s
  show ?thesis by (auto simp: hello_packet_def populate_ip_def)
qed

lemma lsu_packet_eq:
  assumes "unat (ntohs (pwospf_len h)) = 24 + length c"
  shows "\<exists>x. lsu_packet (enc_pwospf h @ c) ie nbr = Some (pwospf_frame mac_zero (ie_addr ie)
      ((populate_ip (ntohs (pwospf_len h)) IP_PROTO_PWOSPF (ie_ip ie) (nbr_ip nbr))\<lparr>ip_sum := x\<rparr>) h c) \<and>
    verify_checksum (the (lsu_packet (enc_pwospf h @ c) ie nbr)) 14 20 = Some 0"
proof -
  let ?z = "replicate 14 (0::byte)" and ?y = "replicate 20 (0::byte)" and ?n = "unat (ntohs (pwospf_len h))"
  have l: "length (enc_pwospf h @ c) = ?n" using assms by (simp add: pwospf_wire.enc_length)
  have 1: "get_struct dec_pwospf 24 (enc_pwospf h @ c) 0 = Some h"
    using pwospf_wire.get_at[of "[]" 0 "enc_pwospf h" c] by (simp add: pwospf_wire.enc_length pwospf_wire.dec_enc)
  have 2: "mem_ld (enc_pwospf h @ c) 0 ?n = Some (enc_pwospf h @ c)" unfolding mem_ld_def using l by simp
  have z: "replicate (14 + 20 + ?n) (0::byte) = (?z @ ?y) @ replicate ?n 0" by (simp flip: replicate_add)
  have 3: "mem_st (replicate (14 + 20 + ?n) 0) (14 + 20) (enc_pwospf h @ c) = Some (?z @ ?y @ enc_pwospf h @ c)"
    unfolding z mem_st_def using l by simp
  from store_ip_frame[of ?z ?y "populate_ip (ntohs (pwospf_len h)) IP_PROTO_PWOSPF (ie_ip ie) (nbr_ip nbr)" None "ie_addr ie" h c]
  show ?thesis using 1 2 3 by (auto simp: lsu_packet_def populate_ip_def Let_def zero_headers)
qed

section \<open>Flooding\<close>

definition lsu_entry :: "byte list \<Rightarrow> iface_entry \<Rightarrow> nbr_router \<Rightarrow> pwospf_lsu_queue_entry" where
  "lsu_entry pwospf ie nbr = \<lparr>lq_ip = ie_ip ie, lq_iface = take 32 (ie_name ie), lq_packet = the (lsu_packet pwospf ie nbr)\<rparr>"

text \<open>One entry for every neighbour of an active interface, but not for the neighbour with address \<open>src_ip\<close>.\<close>

definition lsu_entries :: "iface_entry list \<Rightarrow> byte list \<Rightarrow> u32 option \<Rightarrow> pwospf_lsu_queue_entry list" where
  "lsu_entries il pwospf src_ip = concat (map (\<lambda>ie.
     map (lsu_entry pwospf ie) (filter (\<lambda>nbr. src_ip \<noteq> Some (nbr_ip nbr)) (ie_nbr_routers ie))) (filter ie_is_active il))"

lemma queue_lsu_eq:
  assumes "lock_free LsuQueue rs" and "lsu_packet pwospf ie nbr \<noteq> None"
  shows "queue_lsu pwospf src ie nbr rs = Some (rs\<lparr>pwospf_lsu_queue := pwospf_lsu_queue rs @
    (if src = Some (nbr_ip nbr) then [] else [lsu_entry pwospf ie nbr])\<rparr>)"
  using assms by (auto simp: queue_lsu_def acquire_free release_def lsu_entry_def strncpy_def)

lemma queue_lsus_eq:
  assumes "lock_free LsuQueue rs" and "\<And>nbr. lsu_packet pwospf ie nbr \<noteq> None"
  shows "run_all (queue_lsu pwospf src ie) nbrs rs = Some (rs\<lparr>pwospf_lsu_queue := pwospf_lsu_queue rs @
    map (lsu_entry pwospf ie) (filter (\<lambda>nbr. src \<noteq> Some (nbr_ip nbr)) nbrs)\<rparr>)"
  using assms(1)
proof (induction nbrs arbitrary: rs)
  case (Cons nbr nbrs)
  let ?rs = "rs\<lparr>pwospf_lsu_queue := pwospf_lsu_queue rs @ (if src = Some (nbr_ip nbr) then [] else [lsu_entry pwospf ie nbr])\<rparr>"
  have "lock_free LsuQueue ?rs" using Cons.prems by (simp add: lock_free_def)
  from Cons.IH[OF this] queue_lsu_eq[OF Cons.prems assms(2), where src = src and nbr = nbr] show ?case by simp
qed simp

lemma broadcast_lsu_eq:
  assumes "lock_free LsuQueue rs" and "\<And>ie nbr. lsu_packet pwospf ie nbr \<noteq> None"
  shows "broadcast_pwospf_lsu_packet rs pwospf src =
    Some (rs\<lparr>pwospf_lsu_queue := pwospf_lsu_queue rs @ lsu_entries (if_list rs) pwospf src\<rparr>)"
proof -
  have "run_all (\<lambda>iface rs. if ie_is_active iface then run_all (queue_lsu pwospf src iface) (ie_nbr_routers iface) rs else Some rs) il rs =
      Some (rs\<lparr>pwospf_lsu_queue := pwospf_lsu_queue rs @ lsu_entries il pwospf src\<rparr>)" for il
    using assms(1)
  proof (induction il arbitrary: rs)
    case (Cons ie il)
    let ?rs = "rs\<lparr>pwospf_lsu_queue := pwospf_lsu_queue rs @ map (lsu_entry pwospf ie)
      (filter (\<lambda>nbr. src \<noteq> Some (nbr_ip nbr)) (ie_nbr_routers ie))\<rparr>"
    have "lock_free LsuQueue ?rs" using Cons.prems by (simp add: lock_free_def)
    from Cons.IH[OF this] Cons.IH[OF Cons.prems] queue_lsus_eq[OF Cons.prems assms(2), where ie = ie and src = src and nbrs = "ie_nbr_routers ie"]
    show ?case by (simp add: lsu_entries_def)
  qed (simp add: lsu_entries_def)
  then show ?thesis by (simp add: broadcast_pwospf_lsu_packet_def)
qed

definition adv_of :: "pwospf_interface \<Rightarrow> pwospf_lsu_adv" where
  "adv_of pi = \<lparr>adv_sub = pi_subnet pi, adv_mask = pi_mask pi, adv_rid = pi_router_id pi\<rparr>"

text \<open>The link state update of a router with the entry \<open>r\<close>, with checksum field \<open>x\<close>.\<close>

definition own_lsu_hdr :: "router_state \<Rightarrow> pwospf_router \<Rightarrow> pwospf_hdr" where
  "own_lsu_hdr rs r = populate_pwospf PWOSPF_TYPE_LINK_STATE_UPDATE
     (word_of_nat (32 + 12 * length (pr_interface_list r))) (router_id rs) (area_id rs)"

definition own_lsu_data :: "pwospf_router \<Rightarrow> byte list" where
  "own_lsu_data r = enc_lsu (populate_pwospf_lsu (pr_seq r) (word_of_nat (length (pr_interface_list r)))) @
     concat (map (enc_adv \<circ> adv_of) (pr_interface_list r))"

lemma length_own_lsu_data: "length (own_lsu_data r) = 8 + 12 * length (pr_interface_list r)"
proof -
  have "length (concat (map (enc_adv \<circ> adv_of) il)) = 12 * length il" for il
    by (induction il) (simp_all add: adv_wire.enc_length)
  then show ?thesis by (simp add: own_lsu_data_def lsu_wire.enc_length)
qed

definition small_router :: "pwospf_router \<Rightarrow> bool" where
  "small_router r \<longleftrightarrow> 32 + 12 * length (pr_interface_list r) < 65536"

lemma unat_word16: "n < 65536 \<Longrightarrow> unat (word_of_nat n :: u16) = n"
  by (simp add: unat_of_nat)

lemma own_lsu_len:
  assumes "small_router r"
  shows "unat (ntohs (pwospf_len (own_lsu_hdr rs r))) = 24 + length (own_lsu_data r)"
  unfolding own_lsu_hdr_def populate_pwospf_def pwospf_hdr.select_convs htons_htons length_own_lsu_data
  using unat_word16[OF assms[unfolded small_router_def]] by (simp only:)

lemma construct_lsu_eq:
  assumes "get_router_by_rid (router_id rs) (pwospf_router_list rs) = Some r" and "small_router r"
  shows "\<exists>s. pw_sum (own_lsu_hdr rs r) (own_lsu_data r) = Some s \<and> construct_pwospf_lsu_packet rs =
    Some (enc_pwospf ((own_lsu_hdr rs r)\<lparr>pwospf_sum := htons s\<rparr>) @ own_lsu_data r,
      set_router (router_id rs) (\<lambda>r. r\<lparr>pr_last_update := clock rs, pr_seq := pr_seq r + 1\<rparr>) rs)"
proof -
  have "unat (ntohs (pwospf_len (own_lsu_hdr rs r))) \<le> 24 + length (own_lsu_data r)" using own_lsu_len[OF assms(2)] by simp
  then obtain s where s: "pw_sum (own_lsu_hdr rs r) (own_lsu_data r) = Some s" by (rule pw_sum_Some)
  from store_pwospf_at[of "[]" 0, OF _ this] assms(1) s show ?thesis
    by (simp add: construct_pwospf_lsu_packet_def construct_pwospf_lsu_adv_def own_lsu_hdr_def own_lsu_data_def Let_def
        adv_of_def comp_def)
qed

definition own_lsu :: "router_state \<Rightarrow> pwospf_router \<Rightarrow> byte list" where
  "own_lsu rs r = enc_pwospf ((own_lsu_hdr rs r)\<lparr>pwospf_sum := htons (the (pw_sum (own_lsu_hdr rs r) (own_lsu_data r)))\<rparr>) @ own_lsu_data r"

lemma own_lsu_packet: "small_router r \<Longrightarrow> lsu_packet (own_lsu rs r) ie nbr \<noteq> None"
  using lsu_packet_eq[of "(own_lsu_hdr rs r)\<lparr>pwospf_sum := x\<rparr>" "own_lsu_data r" for x] own_lsu_len[of r rs]
  by (fastforce simp: own_lsu_def)

lemma get_router_by_rid_update:
  "(\<And>r. pr_router_id (f r) = pr_router_id r) \<Longrightarrow>
   get_router_by_rid rid (update_first (has_rid rid) f rl) = map_option f (get_router_by_rid rid rl)"
  unfolding get_router_by_rid_def by (rule find_update_first) (auto simp: has_rid_def)

lemma update_first_twice:
  "(\<And>r. P r \<Longrightarrow> P (f r)) \<Longrightarrow> update_first P g (update_first P f xs) = update_first P (g \<circ> f) xs"
  by (induction xs) auto

lemma start_flood_eq:
  assumes "get_router_by_rid (router_id rs) (pwospf_router_list rs) = Some r" and "small_router r" and "lock_free LsuQueue rs"
  shows "start_lsu_bcast_flood rs = Some (if pwospf_lsu_broadcast rs = 0 then rs
    else rs\<lparr>pwospf_lsu_queue := pwospf_lsu_queue rs @ lsu_entries (if_list rs) (own_lsu rs r) None,
      pwospf_router_list := update_first (has_rid (router_id rs))
        (\<lambda>r. r\<lparr>pr_last_update := clock rs, pr_seq := pr_seq r + 1\<rparr>) (pwospf_router_list rs)\<rparr>)"
proof -
  let ?rs = "set_router (router_id rs) (\<lambda>r. r\<lparr>pr_last_update := clock rs, pr_seq := pr_seq r + 1\<rparr>) rs"
  have c: "construct_pwospf_lsu_packet rs = Some (own_lsu rs r, ?rs)"
    using construct_lsu_eq[OF assms(1,2)] by (auto simp: own_lsu_def)
  have "lock_free LsuQueue ?rs" using assms(3) by (simp add: set_router_def lock_free_def)
  from broadcast_lsu_eq[OF this own_lsu_packet[OF assms(2)]]
  have b: "broadcast_pwospf_lsu_packet ?rs (own_lsu rs r) None = Some (?rs\<lparr>pwospf_lsu_queue := pwospf_lsu_queue rs @
      lsu_entries (if_list rs) (own_lsu rs r) None\<rparr>)" by (simp add: set_router_def)
  have "get_router_by_rid (router_id rs) (pwospf_router_list ?rs) = Some (r\<lparr>pr_last_update := clock rs, pr_seq := pr_seq r + 1\<rparr>)"
    using assms(1) by (simp add: set_router_def get_router_by_rid_update)
  moreover have "update_first (has_rid (router_id rs)) (\<lambda>r. r\<lparr>pr_last_update := clock rs\<rparr>) (pwospf_router_list ?rs) = pwospf_router_list ?rs"
  proof -
    have "((\<lambda>r. r\<lparr>pr_last_update := clock rs\<rparr>) \<circ> (\<lambda>r. r\<lparr>pr_last_update := clock rs, pr_seq := pr_seq r + 1\<rparr>)) =
        (\<lambda>r :: pwospf_router. r\<lparr>pr_last_update := clock rs, pr_seq := pr_seq r + 1\<rparr>)"
      by (rule ext, rule pwospf_router.equality) simp_all
    then show ?thesis unfolding set_router_def by simp (subst update_first_twice, simp_all add: has_rid_def)
  qed
  ultimately show ?thesis using c b by (simp add: start_lsu_bcast_flood_def set_router_def)
qed

section \<open>Active links\<close>

text \<open>\<open>link_at rl k i\<close> is interface \<open>i\<close> of the router at position \<open>k\<close>; the loops change only \<open>is_active\<close>.\<close>

abbreviation link_at :: "pwospf_router list \<Rightarrow> nat \<Rightarrow> nat \<Rightarrow> pwospf_interface" where
  "link_at rl k i \<equiv> pr_interface_list (rl ! k) ! i"

definition valid_link :: "pwospf_router list \<Rightarrow> nat \<Rightarrow> nat \<Rightarrow> bool" where
  "valid_link rl k i \<longleftrightarrow> k < length rl \<and> i < length (pr_interface_list (rl ! k))"

definition inactive :: "pwospf_router \<Rightarrow> pwospf_router" where
  "inactive r = r\<lparr>pr_interface_list := map (pi_is_active_update (\<lambda>_. False)) (pr_interface_list r)\<rparr>"

lemma set_active_inactive: "map inactive (set_active b k i rl) = map inactive rl"
  unfolding set_active_def by (rule map_same_update) (simp add: inactive_def map_same_update)

lemma inactive_fields:
  assumes "map inactive rl' = map inactive rl"
  shows "length rl' = length rl \<and> (k < length rl \<longrightarrow> length (pr_interface_list (rl' ! k)) = length (pr_interface_list (rl ! k)) \<and>
    (\<forall>i<length (pr_interface_list (rl ! k)). pi_is_active_update (\<lambda>_. False) (link_at rl' k i) = pi_is_active_update (\<lambda>_. False) (link_at rl k i)))"
proof -
  have l: "length rl' = length rl" using map_eq_imp_length_eq[OF assms] .
  moreover have "length (pr_interface_list (rl' ! k)) = length (pr_interface_list (rl ! k)) \<and>
    (\<forall>i<length (pr_interface_list (rl ! k)). pi_is_active_update (\<lambda>_. False) (link_at rl' k i) = pi_is_active_update (\<lambda>_. False) (link_at rl k i))"
    if "k < length rl"
  proof -
    have "inactive (rl' ! k) = inactive (rl ! k)" using arg_cong[OF assms, of "\<lambda>xs. xs ! k"] that l by simp
    then have e: "map (pi_is_active_update (\<lambda>_. False)) (pr_interface_list (rl' ! k)) = map (pi_is_active_update (\<lambda>_. False)) (pr_interface_list (rl ! k))"
      unfolding inactive_def by (metis pwospf_router.select_convs(8) pwospf_router.surjective pwospf_router.update_convs(8))
    then show ?thesis by (metis length_map nth_map)
  qed
  ultimately show ?thesis by simp
qed

lemma inactive_valid: "map inactive rl' = map inactive rl \<Longrightarrow> valid_link rl' k i = valid_link rl k i"
  using inactive_fields[of rl' rl k] by (auto simp: valid_link_def)

lemma inactive_link:
  assumes "map inactive rl' = map inactive rl" and "valid_link rl k i"
  shows "pi_subnet (link_at rl' k i) = pi_subnet (link_at rl k i) \<and> pi_mask (link_at rl' k i) = pi_mask (link_at rl k i) \<and>
    pi_router_id (link_at rl' k i) = pi_router_id (link_at rl k i)"
proof -
  have "pi_is_active_update (\<lambda>_. False) (link_at rl' k i) = pi_is_active_update (\<lambda>_. False) (link_at rl k i)"
    using inactive_fields[OF assms(1), of k] assms(2) by (auto simp: valid_link_def)
  then show ?thesis by (metis pwospf_interface.select_convs(1-3) pwospf_interface.surjective pwospf_interface.update_convs(4))
qed

lemma inactive_rid_index: "map inactive rl' = map inactive rl \<Longrightarrow> rid_index rid rl' = rid_index rid rl"
proof (rule rid_index_map)
  assume "map inactive rl' = map inactive rl"
  then have "map (pr_router_id \<circ> inactive) rl' = map (pr_router_id \<circ> inactive) rl" by (metis map_map)
  then show "map pr_router_id rl' = map pr_router_id rl" by (simp add: inactive_def comp_def)
qed

text \<open>Interface \<open>i\<close> of router \<open>k\<close> names the router \<open>q\<close>, whose interface \<open>j\<close> is on the same link.\<close>

definition points :: "pwospf_router list \<Rightarrow> nat \<Rightarrow> nat \<Rightarrow> nat \<Rightarrow> nat \<Rightarrow> bool" where
  "points rl k i q j \<longleftrightarrow> rid_index (pi_router_id (link_at rl k i)) rl = Some q \<and> valid_link rl q j \<and>
     same_link (link_at rl k i) (link_at rl q j)"

lemma inactive_points:
  assumes "map inactive rl' = map inactive rl" and "valid_link rl k i"
  shows "points rl' k i q j = points rl k i q j"
  using inactive_link[OF assms] inactive_link[OF assms(1), of q j] inactive_valid[OF assms(1), of q j]
    inactive_rid_index[OF assms(1)]
  by (auto simp: points_def same_link_def)

lemma set_active_nth:
  assumes "valid_link rl k i" and "valid_link rl a b"
  shows "pi_is_active (link_at (set_active v k i rl) a b) = (if (a, b) = (k, i) then v else pi_is_active (link_at rl a b))"
  using assms by (auto simp: set_active_def valid_link_def nth_list_update)

lemma match_another_result:
  assumes k: "valid_link rl k i" and q: "q < length rl"
  shows "map inactive (match_another k i q rl) = map inactive rl \<and>
    (\<forall>a b. valid_link rl a b \<longrightarrow> pi_is_active (link_at (match_another k i q rl) a b) =
      (pi_is_active (link_at rl a b) \<or> (\<exists>j<length (pr_interface_list (rl ! q)). same_link (link_at rl k i) (link_at rl q j) \<and>
         ((a, b) = (k, i) \<or> (a, b) = (q, j)))))"
proof -
  let ?f = "\<lambda>j rl. if same_link (link_at rl k i) (link_at rl q j) then set_active True q j (set_active True k i rl) else rl"
  have "map inactive (fold ?f [0..<n] rl) = map inactive rl \<and>
    (\<forall>a b. valid_link rl a b \<longrightarrow> pi_is_active (link_at (fold ?f [0..<n] rl) a b) =
      (pi_is_active (link_at rl a b) \<or> (\<exists>j<n. same_link (link_at rl k i) (link_at rl q j) \<and> ((a, b) = (k, i) \<or> (a, b) = (q, j)))))"
    if "n \<le> length (pr_interface_list (rl ! q))" for n
    using that
  proof (induction n)
    case (Suc n)
    let ?r = "fold ?f [0..<n] rl"
    from Suc have ih: "map inactive ?r = map inactive rl" and
      act: "\<And>a b. valid_link rl a b \<Longrightarrow> pi_is_active (link_at ?r a b) =
        (pi_is_active (link_at rl a b) \<or> (\<exists>j<n. same_link (link_at rl k i) (link_at rl q j) \<and> ((a, b) = (k, i) \<or> (a, b) = (q, j))))" by auto
    have vq: "valid_link rl q n" using q Suc.prems by (simp add: valid_link_def)
    note vr = inactive_valid[OF ih]
    have sl: "same_link (link_at ?r k i) (link_at ?r q n) = same_link (link_at rl k i) (link_at rl q n)"
      using inactive_link[OF ih k] inactive_link[OF ih vq] by (simp add: same_link_def)
    have vs: "valid_link (set_active True k i ?r) a b = valid_link rl a b" for a b
      using inactive_valid[OF trans[OF set_active_inactive ih]] .
    have "pi_is_active (link_at (?f n ?r) a b) = (pi_is_active (link_at ?r a b) \<or>
        same_link (link_at rl k i) (link_at rl q n) \<and> ((a, b) = (k, i) \<or> (a, b) = (q, n)))" if "valid_link rl a b" for a b
      using sl set_active_nth[of "set_active True k i ?r" q n a b True] set_active_nth[of ?r k i a b True] vs vr k vq that
      by auto
    with act ih show ?case by (auto simp: set_active_inactive less_Suc_eq)
  qed simp
  from this[OF order_refl] show ?thesis by (simp add: match_another_def)
qed

lemma determine_active_interface_result:
  assumes k: "valid_link rl k i"
  shows "map inactive (determine_active_interface k i rl) = map inactive rl \<and>
    (\<forall>a b. valid_link rl a b \<longrightarrow> pi_is_active (link_at (determine_active_interface k i rl) a b) =
      (points rl k i a b \<or> (if (a, b) = (k, i) then \<exists>q j. points rl k i q j else pi_is_active (link_at rl a b))))"
proof -
  let ?r = "set_active False k i rl"
  note ih = set_active_inactive[of False k i rl]
  have id: "pi_router_id (link_at ?r k i) = pi_router_id (link_at rl k i)" using inactive_link[OF ih k] by simp
  show ?thesis
  proof (cases "rid_index (pi_router_id (link_at rl k i)) rl")
    case None
    then show ?thesis
      using ih set_active_nth[OF k] id inactive_rid_index[OF ih]
      by (auto simp: determine_active_interface_def points_def)
  next
    case (Some q)
    then have q: "q < length rl" by (auto dest: rid_index_Some)
    have d: "determine_active_interface k i rl = match_another k i q ?r"
      using Some id inactive_rid_index[OF ih] by (simp add: determine_active_interface_def)
    have lr: "length ?r = length rl" "length (pr_interface_list (?r ! q)) = length (pr_interface_list (rl ! q))"
      using inactive_fields[OF ih, of q] q by auto
    have vk: "valid_link ?r k i" using inactive_valid[OF ih] k by simp
    have p: "points rl k i q' j \<longleftrightarrow> q' = q \<and> j < length (pr_interface_list (rl ! q)) \<and> same_link (link_at ?r k i) (link_at ?r q j)" for q' j
      using Some q inactive_link[OF ih k] inactive_link[OF ih, of q j] by (auto simp: points_def valid_link_def same_link_def)
    from match_another_result[OF vk, of q] q lr ih inactive_valid[OF ih] set_active_nth[OF k] show ?thesis
      unfolding d p by auto
  qed
qed

text \<open>All interfaces of all routers, in the order of the loops.\<close>

definition all_links :: "pwospf_router list \<Rightarrow> (nat \<times> nat) list" where
  "all_links rl = concat (map (\<lambda>k. map (Pair k) [0..<length (pr_interface_list (rl ! k))]) [0..<length rl])"

definition later :: "nat \<times> nat \<Rightarrow> nat \<times> nat \<Rightarrow> bool" where
  "later p p' \<longleftrightarrow> fst p < fst p' \<or> fst p = fst p' \<and> snd p < snd p'"

lemma set_all_links: "(k, i) \<in> set (all_links rl) \<longleftrightarrow> valid_link rl k i"
  by (auto simp: all_links_def valid_link_def intro!: bexI[of _ k])

lemma sorted_links: "sorted_wrt later (concat (map (\<lambda>k. map (Pair k) [0..<f k]) [0..<n]))"
  by (induction n) (auto simp: sorted_wrt_append sorted_wrt_map later_def)

lemma sorted_all_links: "sorted_wrt later (all_links rl)"
  unfolding all_links_def by (rule sorted_links)

lemma determine_active_fold:
  assumes "sorted_wrt later ps" and "\<forall>(k, i)\<in>set ps. valid_link rl k i"
  shows "map inactive (fold (\<lambda>(k, i). determine_active_interface k i) ps rl) = map inactive rl \<and>
    (\<forall>a b. valid_link rl a b \<longrightarrow> pi_is_active (link_at (fold (\<lambda>(k, i). determine_active_interface k i) ps rl) a b) =
      ((\<exists>(k, i)\<in>set ps. points rl k i a b \<and> ((a, b) \<in> set ps \<longrightarrow> later (a, b) (k, i))) \<or>
       (if (a, b) \<in> set ps then \<exists>q j. points rl a b q j else pi_is_active (link_at rl a b))))"
  using assms
proof (induction ps rule: rev_induct)
  case (snoc p ps)
  obtain k i where p: "p = (k, i)" by (cases p)
  let ?f = "\<lambda>(k, i). determine_active_interface k i"
  let ?r = "fold ?f ps rl"
  from snoc.prems have s: "sorted_wrt later ps" "\<forall>(k, i)\<in>set ps. valid_link rl k i" "valid_link rl k i"
    and l: "\<forall>x\<in>set ps. later x (k, i)" by (auto simp: sorted_wrt_append p)
  from snoc.IH[OF s(1,2)] have ih: "map inactive ?r = map inactive rl"
    and act: "\<And>a b. valid_link rl a b \<Longrightarrow> pi_is_active (link_at ?r a b) =
      ((\<exists>(k, i)\<in>set ps. points rl k i a b \<and> ((a, b) \<in> set ps \<longrightarrow> later (a, b) (k, i))) \<or>
       (if (a, b) \<in> set ps then \<exists>q j. points rl a b q j else pi_is_active (link_at rl a b)))" by auto
  have vr: "valid_link ?r k i" using inactive_valid[OF ih] s(3) by simp
  note pt = inactive_points[OF ih s(3)]
  from determine_active_interface_result[OF vr] ih
  have res: "map inactive (?f p ?r) = map inactive rl"
    "\<And>a b. valid_link rl a b \<Longrightarrow> pi_is_active (link_at (?f p ?r) a b) =
      (points rl k i a b \<or> (if (a, b) = (k, i) then \<exists>q j. points rl k i q j else pi_is_active (link_at ?r a b)))"
    unfolding pt by (auto simp: p inactive_valid[OF ih])
  have new: "(k, i) \<notin> set ps" using l by (auto simp: later_def)
  have "pi_is_active (link_at (?f p ?r) a b) =
      ((\<exists>(k', i')\<in>set (ps @ [p]). points rl k' i' a b \<and> ((a, b) \<in> set (ps @ [p]) \<longrightarrow> later (a, b) (k', i'))) \<or>
       (if (a, b) \<in> set (ps @ [p]) then \<exists>q j. points rl a b q j else pi_is_active (link_at rl a b)))" if v: "valid_link rl a b" for a b
  proof (cases "(a, b) = (k, i)")
    case True
    then have "\<not> later (a, b) x" if "x \<in> set (ps @ [p])" for x using that l p by (auto simp: later_def)
    with True res(2)[OF v] p show ?thesis by auto
  next
    case False
    have "(a, b) \<in> set ps \<Longrightarrow> later (a, b) (k, i)" using l by auto
    with False res(2)[OF v] act[OF v] p show ?thesis by auto
  qed
  with res(1) show ?case by simp
qed simp

lemma determine_all_active:
  "fold determine_active_interfaces [0..<length rl] rl = fold (\<lambda>(k, i). determine_active_interface k i) (all_links rl) rl"
proof -
  let ?f = "\<lambda>(k, i). determine_active_interface k i"
  let ?l = "\<lambda>n. concat (map (\<lambda>k. map (Pair k) [0..<length (pr_interface_list (rl ! k))]) [0..<n])"
  have "fold determine_active_interfaces [0..<n] rl = fold ?f (?l n) rl" if "n \<le> length rl" for n
    using that
  proof (induction n)
    case (Suc n)
    let ?r = "fold ?f (?l n) rl"
    have "\<forall>(k, i)\<in>set (?l n). valid_link rl k i" using Suc.prems by (auto simp: valid_link_def)
    from conjunct1[OF determine_active_fold[OF sorted_links this]] have "map inactive ?r = map inactive rl" .
    then have "length (pr_interface_list (?r ! n)) = length (pr_interface_list (rl ! n))"
      using inactive_fields[of ?r rl n] Suc.prems by simp
    with Suc show ?case by (simp add: determine_active_interfaces_def fold_map comp_def)
  qed simp
  from this[OF order_refl] show ?thesis by (simp add: all_links_def)
qed

lemma active_links_exact:
  assumes "valid_link rl a b"
  shows "pi_is_active (link_at (fold determine_active_interfaces [0..<length rl] rl) a b) \<longleftrightarrow>
    (\<exists>q j. points rl a b q j) \<or> (\<exists>k i. valid_link rl k i \<and> later (a, b) (k, i) \<and> points rl k i a b)"
proof -
  have "\<forall>(k, i)\<in>set (all_links rl). valid_link rl k i" using set_all_links by auto
  from determine_active_fold[OF sorted_all_links this] assms set_all_links[of a b rl]
  show ?thesis unfolding determine_all_active by (auto simp: set_all_links split: prod.splits)
qed

lemma propagate_links:
  "map inactive (fold determine_active_interfaces [0..<length rl] rl) = map inactive rl"
proof -
  have "\<forall>(k, i)\<in>set (all_links rl). valid_link rl k i" using set_all_links by auto
  from determine_active_fold[OF sorted_all_links this] show ?thesis unfolding determine_all_active by simp
qed

section \<open>Propagating a change\<close>

lemma inactive_sel [simp]: "pr_router_id (inactive r) = pr_router_id r" "length (pr_interface_list (inactive r)) = length (pr_interface_list r)"
  by (simp_all add: inactive_def)

lemma get_router_inactive:
  assumes "map inactive rl' = map inactive rl" and "get_router_by_rid rid rl = Some r"
  obtains r' where "get_router_by_rid rid rl' = Some r'" "inactive r' = inactive r"
  using assms
proof (induction rl arbitrary: rl' thesis)
  case (Cons x rl)
  then obtain x' rl'' where l: "rl' = x' # rl''" "inactive x' = inactive x" "map inactive rl'' = map inactive rl"
    by (metis (no_types, lifting) map_eq_Cons_conv)
  then have "has_rid rid x' = has_rid rid x" by (metis has_rid_def inactive_sel(1))
  with Cons l show ?case by (auto simp: get_router_by_rid_def split: if_splits)
qed (simp add: get_router_by_rid_def)

text \<open>Nothing but the database, the queue of updates and the trigger of the route computation changes.\<close>

lemma propagate_eq:
  assumes r: "get_router_by_rid (router_id rs) (pwospf_router_list rs) = Some r" and s: "small_router r" and f: "lock_free LsuQueue rs"
  shows "\<exists>r' rl q. get_router_by_rid (router_id rs) (fold determine_active_interfaces [0..<length (pwospf_router_list rs)] (pwospf_router_list rs)) = Some r' \<and>
    inactive r' = inactive r \<and>
    propagate_pwospf_changes rs = Some (rs\<lparr>dijkstra_dirty := 1, signals := signals rs @ [DijkstraCond],
      pwospf_router_list := rl, pwospf_lsu_queue := pwospf_lsu_queue rs @ q\<rparr>) \<and>
    (if pwospf_lsu_broadcast rs = 0
     then rl = fold determine_active_interfaces [0..<length (pwospf_router_list rs)] (pwospf_router_list rs) \<and> q = []
     else rl = update_first (has_rid (router_id rs)) (\<lambda>r. r\<lparr>pr_last_update := clock rs, pr_seq := pr_seq r + 1\<rparr>)
            (fold determine_active_interfaces [0..<length (pwospf_router_list rs)] (pwospf_router_list rs)) \<and>
          q = lsu_entries (if_list rs) (own_lsu rs r') None)"
proof -
  let ?rl = "fold determine_active_interfaces [0..<length (pwospf_router_list rs)] (pwospf_router_list rs)"
  obtain r' where r': "get_router_by_rid (router_id rs) ?rl = Some r'" "inactive r' = inactive r"
    using get_router_inactive[OF propagate_links r] by blast
  let ?rs = "dijkstra_trigger (rs\<lparr>pwospf_router_list := ?rl\<rparr>)"
  have 1: "small_router r'" using s inactive_sel(2)[of r] inactive_sel(2)[of r'] r'(2) by (simp add: small_router_def)
  have 2: "get_router_by_rid (router_id ?rs) (pwospf_router_list ?rs) = Some r'" and 3: "lock_free LsuQueue ?rs"
    using r'(1) f by (simp_all add: dijkstra_trigger_def cond_signal_def lock_free_def)
  have o: "own_lsu ?rs r' = own_lsu rs r'"
    by (simp add: own_lsu_def own_lsu_hdr_def dijkstra_trigger_def cond_signal_def)
  note flood = start_flood_eq[OF 2 1 3, unfolded o]
  show ?thesis
  proof (cases "pwospf_lsu_broadcast rs = 0")
    case True
    with flood r' show ?thesis
      by (intro exI[of _ r'] exI[of _ ?rl] exI[of _ "[]"]) (simp add: propagate_pwospf_changes_def dijkstra_trigger_def cond_signal_def)
  next
    case False
    with flood r' show ?thesis
      by (intro exI[of _ r'] exI[of _ "update_first (has_rid (router_id rs)) (\<lambda>r. r\<lparr>pr_last_update := clock rs, pr_seq := pr_seq r + 1\<rparr>) ?rl"]
          exI[of _ "lsu_entries (if_list rs) (own_lsu rs r') None"]) (simp add: propagate_pwospf_changes_def dijkstra_trigger_def cond_signal_def)
  qed
qed

section \<open>Links learnt from an update\<close>

definition link_key :: "pwospf_interface \<Rightarrow> u32 \<times> u32 \<times> u32" where
  "link_key pi = (pi_subnet pi, pi_mask pi, pi_router_id pi)"

definition adv_key :: "pwospf_lsu_adv \<Rightarrow> u32 \<times> u32 \<times> u32" where
  "adv_key adv = (adv_sub adv AND adv_mask adv, adv_mask adv, adv_rid adv)"

definition masked_adv :: "pwospf_lsu_adv \<Rightarrow> bool" where
  "masked_adv adv \<longleftrightarrow> (adv_sub adv AND adv_mask adv) = adv_sub adv"

lemma adv_matches_key: "adv_matches adv pi \<longleftrightarrow> link_key pi = adv_key adv"
  by (auto simp: adv_matches_def link_key_def adv_key_def)

lemma first_adv_key [simp]: "link_key (first_adv adv) = adv_key adv"
  by (simp add: first_adv_def link_key_def adv_key_def)

lemma new_adv_key: "link_key (new_adv adv) = adv_key adv \<longleftrightarrow> masked_adv adv"
  by (auto simp: new_adv_def link_key_def adv_key_def masked_adv_def)

lemma add_advs_keys:
  assumes "\<forall>adv\<in>set advs. masked_adv adv"
  shows "link_key ` set (snd (add_advs advs il)) = link_key ` set il \<union> adv_key ` set advs \<and>
    (fst (add_advs advs il) \<longleftrightarrow> \<not> adv_key ` set advs \<subseteq> link_key ` set il)"
  using assms
proof (induction advs arbitrary: il)
  case (Cons adv advs)
  show ?case
  proof (cases "list_ex (adv_matches adv) il")
    case True
    then have "adv_key adv \<in> link_key ` set il" by (force simp: list_ex_iff adv_matches_key)
    with Cons True show ?thesis by auto
  next
    case False
    then have "adv_key adv \<notin> link_key ` set il" by (force simp: list_ex_iff adv_matches_key)
    moreover have "link_key (new_adv adv) = adv_key adv" using Cons.prems new_adv_key by simp
    ultimately show ?thesis using Cons False by auto
  qed
qed simp

lemma drop_missing_keys:
  "link_key ` set (snd (drop_missing advs il)) = link_key ` set il \<inter> adv_key ` set advs \<and>
   (fst (drop_missing advs il) \<longleftrightarrow> \<not> link_key ` set il \<subseteq> adv_key ` set advs)"
  by (auto simp: drop_missing_def list_ex_iff adv_matches_key image_iff) (metis+)

text \<open>With masked advertisements the links are afterwards exactly those of the packet, and \<open>changed\<close> says whether they were others.\<close>

lemma populate_exact:
  assumes "get_pwospf_lsu_hdr packet = Some lsu" and "read_advs packet 0 (unat (ntohl (lsu_num lsu))) = Some advs"
    and "\<forall>adv\<in>set advs. masked_adv adv"
  shows "\<exists>changed il'. populate_pwospf_router_interface_list il packet = Some (changed, il') \<and>
    link_key ` set il' = adv_key ` set advs \<and> (changed \<longleftrightarrow> il = [] \<or> link_key ` set il \<noteq> adv_key ` set advs)"
proof (cases "il = []")
  case True
  have "link_key ` set (map first_adv advs) = adv_key ` set advs" by (simp add: image_image)
  with True assms(1,2) show ?thesis
    by (intro exI[of _ True] exI[of _ "map first_adv advs"]) (simp add: populate_pwospf_router_interface_list_def del: set_map)
next
  case False
  obtain a il1 where a: "add_advs advs il = (a, il1)" by fastforce
  obtain d il2 where d: "drop_missing advs il1 = (d, il2)" by fastforce
  from add_advs_keys[OF assms(3), of il] a have k1: "link_key ` set il1 = link_key ` set il \<union> adv_key ` set advs"
    "a \<longleftrightarrow> \<not> adv_key ` set advs \<subseteq> link_key ` set il" by auto
  from drop_missing_keys[of advs il1] d k1 have k2: "link_key ` set il2 = adv_key ` set advs"
    "d \<longleftrightarrow> \<not> link_key ` set il \<subseteq> adv_key ` set advs" by auto
  have "populate_pwospf_router_interface_list il packet = Some (a \<or> d, il2)"
    using False assms(1,2) a d by (simp add: populate_pwospf_router_interface_list_def)
  with k1(2) k2 False show ?thesis by blast
qed

text \<open>The advertisements of a packet that this program built.\<close>

lemma read_advs_concat:
  assumes "length z = 66 + 12 * i"
  shows "read_advs (z @ concat (map enc_adv advs)) i (length advs) = Some advs"
  using assms
proof (induction advs arbitrary: z i)
  case (Cons adv advs)
  have "get_pwospf_lsu_data (z @ enc_adv adv @ concat (map enc_adv advs)) i = Some adv"
    using adv_wire.get_at[of z "66 + 12 * i" "enc_adv adv"] Cons.prems
    by (simp add: get_pwospf_lsu_data_def adv_wire.enc_length adv_wire.dec_enc add.commute)
  moreover have "length (z @ enc_adv adv) = 66 + 12 * Suc i" using Cons.prems by (simp add: adv_wire.enc_length)
  ultimately show ?case using Cons.IH[of "z @ enc_adv adv" "Suc i"] by simp
qed simp

lemma unat_word32: "n < 4294967296 \<Longrightarrow> unat (word_of_nat n :: u32) = n"
  by (simp add: unat_of_nat)

lemma lsu_frame_advs:
  assumes "length advs < 4294967296"
  shows "get_pwospf_lsu_hdr (pwospf_frame d s ip h (enc_lsu \<lparr>lsu_seq = sq, lsu_ttl = t, lsu_num = htonl (word_of_nat (length advs))\<rparr> @
      concat (map enc_adv advs))) = Some \<lparr>lsu_seq = sq, lsu_ttl = t, lsu_num = htonl (word_of_nat (length advs))\<rparr> \<and>
    read_advs (pwospf_frame d s ip h (enc_lsu \<lparr>lsu_seq = sq, lsu_ttl = t, lsu_num = htonl (word_of_nat (length advs))\<rparr> @
      concat (map enc_adv advs))) 0 (unat (ntohl (htonl (word_of_nat (length advs))))) = Some advs"
proof -
  let ?l = "\<lparr>lsu_seq = sq, lsu_ttl = t, lsu_num = htonl (word_of_nat (length advs))\<rparr>"
  let ?z = "enc_eth \<lparr>eth_dhost = d, eth_shost = s, eth_type = htons ETH_TYPE_IP\<rparr> @ enc_ip ip @ enc_pwospf h @ enc_lsu ?l"
  have "read_advs (?z @ concat (map enc_adv advs)) 0 (length advs) = Some advs"
    by (rule read_advs_concat) (simp add: eth_wire.enc_length ip_wire.enc_length pwospf_wire.enc_length lsu_wire.enc_length)
  moreover have "get_struct dec_lsu 8 (enc_lsu ?l @ concat (map enc_adv advs)) 0 = Some ?l"
    using lsu_wire.get_at[of "[]" 0 "enc_lsu ?l"] by (simp add: lsu_wire.enc_length lsu_wire.dec_enc)
  moreover from this have "get_pwospf_lsu_hdr (pwospf_frame d s ip h (enc_lsu ?l @ concat (map enc_adv advs))) = Some ?l"
    using pwospf_frame_simps(4)[of dec_lsu 8 d s ip h "enc_lsu ?l @ concat (map enc_adv advs)" 0]
    by (simp add: get_pwospf_lsu_hdr_def del: pwospf_frame_simps)
  ultimately show ?thesis using unat_word32[OF assms] by (simp add: pwospf_frame_def)
qed

section \<open>Properties\<close>

text \<open>
  C17. Links become active when both ends know of them: after \<open>propagate_pwospf_changes\<close> a link is active exactly when the
  router it names has a link with the same subnet and mask that names a router too, or when some link later in the database
  names its router and matches it. Nothing of the links but the flag changes.
\<close>

theorem propagate_activates_links:
  assumes "get_router_by_rid (router_id rs) (pwospf_router_list rs) = Some r" and "small_router r" and "lock_free LsuQueue rs"
    and "valid_link (pwospf_router_list rs) a b"
  shows "\<exists>rs'. propagate_pwospf_changes rs = Some rs' \<and>
    (pi_is_active (link_at (pwospf_router_list rs') a b) \<longleftrightarrow>
       (\<exists>q j. points (pwospf_router_list rs) a b q j) \<or>
       (\<exists>k i. valid_link (pwospf_router_list rs) k i \<and> later (a, b) (k, i) \<and> points (pwospf_router_list rs) k i a b)) \<and>
    link_key (link_at (pwospf_router_list rs') a b) = link_key (link_at (pwospf_router_list rs) a b)"
proof -
  let ?rl = "fold determine_active_interfaces [0..<length (pwospf_router_list rs)] (pwospf_router_list rs)"
  from propagate_eq[OF assms(1-3)] obtain rs' where rs': "propagate_pwospf_changes rs = Some rs'"
    "pwospf_router_list rs' = ?rl \<or> pwospf_router_list rs' =
      update_first (has_rid (router_id rs)) (\<lambda>r. r\<lparr>pr_last_update := clock rs, pr_seq := pr_seq r + 1\<rparr>) ?rl"
    by (auto split: if_splits)
  have "map pr_interface_list (pwospf_router_list rs') = map pr_interface_list ?rl"
    using rs'(2) by (elim disjE) (simp_all add: map_update_first)
  moreover have "a < length ?rl" using assms(4) map_eq_imp_length_eq[OF propagate_links] by (simp add: valid_link_def)
  ultimately have "pr_interface_list (pwospf_router_list rs' ! a) = pr_interface_list (?rl ! a)"
    by (metis length_map nth_map)
  with rs'(1) active_links_exact[OF assms(4)] inactive_link[OF propagate_links assms(4)] show ?thesis
    by (auto simp: link_key_def)
qed

theorem propagate_activates_links_witness:
  "\<exists>rs'. propagate_pwospf_changes (idle_router\<lparr>router_id := 1, pwospf_router_list := three_routers\<rparr>) = Some rs' \<and>
     pi_is_active (link_at (pwospf_router_list rs') 0 0) \<and> \<not> pi_is_active (link_at (pwospf_router_list rs') 2 1)"
proof -
  let ?rs = "idle_router\<lparr>router_id := 1, pwospf_router_list := three_routers\<rparr>"
  have 1: "get_router_by_rid (router_id ?rs) (pwospf_router_list ?rs) = Some (a_router 1 1 [link_to 0x0A000100 2])"
    "pwospf_router_list ?rs = three_routers" by code_simp+
  have 2: "small_router (a_router 1 1 [link_to 0x0A000100 2])" "lock_free LsuQueue ?rs"
    by (simp_all add: small_router_def a_router_def lock_free_def idle_router_def)
  have v: "valid_link three_routers 0 0" "valid_link three_routers 2 1" "points three_routers 0 0 1 0"
    "pi_router_id (link_at three_routers 2 1) = 0" "rid_index 0 three_routers = None" by code_simp+
  have no: "\<not> points three_routers k i 2 1" for k i using v(4) by (simp add: points_def same_link_def)
  have no': "\<not> points three_routers 2 1 q j" for q j using v(4,5) by (simp add: points_def)
  from propagate_activates_links[OF 1(1) 2, of 0 0] propagate_activates_links[OF 1(1) 2, of 2 1] v no no'
  show ?thesis unfolding 1(2) by auto
qed

text \<open>The locks that \<open>process_ip_packet\<close> holds when it hands a packet on.\<close>

abbreviation ip_locks :: "(lock \<times> mode) list" where
  "ip_locks \<equiv> [(RtableLock, Rd), (IfList, Rd), (ArpQueue, Wr), (ArpCache, Rd)]"

text \<open>The packet of a hello that has passed the validity check, with its fields.\<close>

lemma hello_packet_valid:
  assumes "hello_packet rsA ieA = Some p" and "area_id rs = area_id rsA" and "ntohl (router_id rsA) \<noteq> router_id rs"
  shows "\<exists>p' ip h. process_pwospf_packet rs p i = process_pwospf_hello_packet rs p' i \<and> verify_checksum p 14 20 = Some 0 \<and>
    get_ip_hdr p' = Some ip \<and> ip_src ip = ie_ip ieA \<and> ip_dst ip = htonl PWOSPF_HELLO_TIP \<and>
    get_pwospf_hdr p' = Some h \<and> pwospf_rid h = router_id rsA \<and>
    get_pwospf_hello_hdr p' = Some (populate_pwospf_hello (ie_mask ieA) (pwospf_hello_interval rsA))"
proof -
  let ?h = "populate_pwospf PWOSPF_TYPE_HELLO 32 (router_id rsA) (area_id rsA)"
  let ?l = "populate_pwospf_hello (ie_mask ieA) (pwospf_hello_interval rsA)"
  let ?ip = "\<lambda>x. (populate_ip 32 IP_PROTO_PWOSPF (ie_ip ieA) (htonl PWOSPF_HELLO_TIP))\<lparr>ip_sum := x\<rparr>"
  from hello_packet_eq[of rsA ieA] assms(1) obtain x s where
    p: "p = pwospf_frame mac_bcast (ie_addr ieA) (?ip x) (?h\<lparr>pwospf_sum := htons s\<rparr>) (enc_hello ?l)"
    and s: "pw_sum ?h (enc_hello ?l) = Some s" and v: "verify_checksum p 14 20 = Some 0" by auto
  let ?p = "pwospf_frame mac_bcast (ie_addr ieA) (?ip x) (?h\<lparr>pwospf_sum := 0\<rparr>) (enc_hello ?l)"
  let ?k = "?h\<lparr>pwospf_sum := htons s\<rparr>"
  have k: "pwospf_ver ?k = 2" "pw_sum ?k (enc_hello ?l) = Some s" using s by (simp_all add: populate_pwospf_def[THEN arg_cong, of pwospf_ver])
  have "is_pwospf_packet_valid rs p = Some (htons (pwospf_sum ?k) = s \<and> ntohs (pwospf_atype ?k) = 0 \<and>
      ntohl (pwospf_aid ?k) = area_id rs \<and> ntohl (pwospf_rid ?k) \<noteq> router_id rs, pwospf_frame mac_bcast (ie_addr ieA) (?ip x) (?k\<lparr>pwospf_sum := 0\<rparr>) (enc_hello ?l))"
    unfolding p by (rule pwospf_valid_frame[OF k])
  then have "is_pwospf_packet_valid rs p = Some (True, ?p)" using assms(2,3) by (simp add: populate_pwospf_def)
  then have "process_pwospf_packet rs p i = process_pwospf_hello_packet rs ?p i"
    by (simp add: process_pwospf_packet_def populate_pwospf_def)
  moreover have "get_pwospf_hello_hdr ?p = Some ?l"
    using pwospf_frame_simps(4)[of dec_hello 8 mac_bcast "ie_addr ieA" "?ip x" "?h\<lparr>pwospf_sum := 0\<rparr>" "enc_hello ?l" 0]
      hello_wire.get_at[of "[]" 0 "enc_hello ?l" "[]"]
    by (simp add: get_pwospf_hello_hdr_def hello_wire.enc_length hello_wire.dec_enc del: pwospf_frame_simps)
  ultimately show ?thesis using v by (intro exI[of _ ?p]) (simp add: populate_ip_def populate_pwospf_def)
qed

text \<open>The relocking at the start of the hello handler.\<close>

abbreviation hello_locks :: "(lock \<times> mode) list" where
  "hello_locks \<equiv> [(RouterList, Wr), (RtableLock, Rd), (IfList, Wr), (ArpQueue, Wr), (ArpCache, Rd)]"

lemma hello_relock:
  assumes "held rs = ip_locks"
  shows "do { rs \<leftarrow> release RtableLock rs; rs \<leftarrow> release IfList rs; rs \<leftarrow> acquire IfList Wr rs;
      rs \<leftarrow> acquire RtableLock Rd rs; rs \<leftarrow> acquire RouterList Wr rs; f rs } = f (rs\<lparr>held := hello_locks\<rparr>)"
  using assms by (simp add: release_def acquire_def)

lemma hello_new_neighbor:
  assumes "get_ip_hdr p = Some ip" "get_pwospf_hdr p = Some h" "get_pwospf_hello_hdr p = Some l" "ntohs (hello_hint l) = pwospf_hello_interval rs"
    and "held rs = ip_locks" and "get_iface rs i = Some ie" and "ie_mask ie = hello_mask l"
    and "\<not> list_ex (\<lambda>nbr. nbr_ip nbr = ip_src ip \<and> nbr_router_id nbr = pwospf_rid h) (ie_nbr_routers ie)"
    and "get_router_by_rid (router_id rs) (pwospf_router_list rs) = Some r" and "link_neighbor ie (pwospf_rid h) (pr_interface_list r) = Some il"
  shows "process_pwospf_hello_packet rs p i = do {
    rs \<leftarrow> propagate_pwospf_changes (rs\<lparr>held := hello_locks, if_list := update_first (named i) (\<lambda>ie. ie\<lparr>ie_nbr_routers := ie_nbr_routers ie @
        [\<lparr>nbr_router_id = pwospf_rid h, nbr_ip = ip_src ip, nbr_last_rcvd_hello = clock rs\<rparr>]\<rparr>) (if_list rs),
      pwospf_router_list := update_first (has_rid (router_id rs)) (\<lambda>r. r\<lparr>pr_interface_list := il\<rparr>) (pwospf_router_list rs)\<rparr>);
    rs \<leftarrow> release RouterList rs;
    Some (cond_signal LsuBcastCond rs) }"
proof -
  have "get_iface (rs\<lparr>held := hello_locks\<rparr>) i = Some ie" using assms(6) by (simp add: get_iface_def)
  with assms(1-4,7-10) show ?thesis
    unfolding process_pwospf_hello_packet_def by (simp add: hello_relock[OF assms(5)] set_iface_def set_router_def)
qed

lemma link_neighbor_ok:
  assumes "il \<noteq> []"
  obtains il' where "link_neighbor ie rid il = Some il'" "length il' \<le> Suc (length il)"
    "\<exists>pi\<in>set il'. on_subnet ie pi \<and> pi_router_id pi = rid"
proof (cases "list_ex (\<lambda>pi. on_subnet ie pi \<and> pi_router_id pi = 0) il")
  case True
  let ?P = "\<lambda>pi. on_subnet ie pi \<and> pi_router_id pi = 0"
  from True have "find ?P il \<noteq> None" by (auto simp: list_ex_iff find_None_set)
  then obtain pi where "find ?P il = Some pi" by auto
  then obtain xs ys where il: "il = xs @ pi # ys" "?P pi" "\<forall>x\<in>set xs. \<not> ?P x" by (rule find_SomeE)
  then have "update_first ?P (\<lambda>pi. pi\<lparr>pi_router_id := rid\<rparr>) il = xs @ pi\<lparr>pi_router_id := rid\<rparr> # ys"
    using update_first_split[of xs ?P pi] by simp
  with True il that[of "xs @ pi\<lparr>pi_router_id := rid\<rparr> # ys"] show thesis by (simp add: link_neighbor_def on_subnet_def)
next
  case False
  let ?n = "\<lparr>pi_subnet = ie_ip ie AND ie_mask ie, pi_mask = ie_mask ie, pi_router_id = rid, pi_is_active = False\<rparr>"
  have "link_neighbor ie rid il = Some (il @ [?n])" using False assms by (simp add: link_neighbor_def)
  moreover have "on_subnet ie ?n" by (simp add: on_subnet_def)
  ultimately show thesis using that[of "il @ [?n]"] by auto
qed

text \<open>What the router's own entry keeps when a change is propagated.\<close>

lemma inactive_keys: "inactive r' = inactive r \<Longrightarrow> map link_key (pr_interface_list r') = map link_key (pr_interface_list r)"
proof -
  have "map link_key (pr_interface_list (inactive x)) = map link_key (pr_interface_list x)" for x
    by (simp add: inactive_def link_key_def comp_def)
  then show "inactive r' = inactive r \<Longrightarrow> ?thesis" by metis
qed

lemma propagate_own:
  assumes "get_router_by_rid (router_id rs) (pwospf_router_list rs) = Some r" and "small_router r" and "lock_free LsuQueue rs"
  shows "\<exists>r' rl q. propagate_pwospf_changes rs = Some (rs\<lparr>dijkstra_dirty := 1, signals := signals rs @ [DijkstraCond],
      pwospf_router_list := rl, pwospf_lsu_queue := pwospf_lsu_queue rs @ q\<rparr>) \<and>
    get_router_by_rid (router_id rs) rl = Some r' \<and> map link_key (pr_interface_list r') = map link_key (pr_interface_list r)"
proof -
  from propagate_eq[OF assms] obtain r' rl q where
    r': "get_router_by_rid (router_id rs) (fold determine_active_interfaces [0..<length (pwospf_router_list rs)] (pwospf_router_list rs)) = Some r'"
      "inactive r' = inactive r"
    and p: "propagate_pwospf_changes rs = Some (rs\<lparr>dijkstra_dirty := 1, signals := signals rs @ [DijkstraCond],
      pwospf_router_list := rl, pwospf_lsu_queue := pwospf_lsu_queue rs @ q\<rparr>)"
    and l: "rl = fold determine_active_interfaces [0..<length (pwospf_router_list rs)] (pwospf_router_list rs) \<or>
      rl = update_first (has_rid (router_id rs)) (\<lambda>r. r\<lparr>pr_last_update := clock rs, pr_seq := pr_seq r + 1\<rparr>)
            (fold determine_active_interfaces [0..<length (pwospf_router_list rs)] (pwospf_router_list rs))"
    by (auto split: if_splits)
  from l r'(1) obtain r'' where "get_router_by_rid (router_id rs) rl = Some r''" "pr_interface_list r'' = pr_interface_list r'"
    by (elim disjE) (simp_all add: get_router_by_rid_update)
  with p inactive_keys[OF r'(2)] show ?thesis by (intro exI[of _ r''] exI[of _ rl] exI[of _ q]) simp
qed

text \<open>
  C21. Neighbour discovery: the hello packet that one router builds on an interface makes it a neighbour of a router that receives it
  and uses the same area, hello interval and mask. The new neighbour is stored with the sender's id and address and the time,
  the receiver's own entry of the database gets a link to it on that subnet, the route computation and the flooding thread are
  signalled, and the locks of the caller are held afterwards (the interface list for writing). The sender's IP header has a valid checksum.
\<close>

theorem hello_makes_neighbor:
  assumes "hello_packet rsA ieA = Some p" and "area_id rs = area_id rsA" and "pwospf_hello_interval rs = pwospf_hello_interval rsA"
    and "ntohl (router_id rsA) \<noteq> router_id rs" and "held rs = ip_locks"
    and "get_iface rs i = Some ie" and "ie_mask ie = ie_mask ieA"
    and "\<not> list_ex (\<lambda>nbr. nbr_ip nbr = ie_ip ieA \<and> nbr_router_id nbr = router_id rsA) (ie_nbr_routers ie)"
    and "get_router_by_rid (router_id rs) (pwospf_router_list rs) = Some r" and "pr_interface_list r \<noteq> []"
    and "44 + 12 * length (pr_interface_list r) < 65536"
  shows "verify_checksum p 14 20 = Some 0 \<and> (\<exists>rs' r'. process_pwospf_packet rs p i = Some rs' \<and>
    get_iface rs' i = Some (ie\<lparr>ie_nbr_routers := ie_nbr_routers ie @
      [\<lparr>nbr_router_id = router_id rsA, nbr_ip = ie_ip ieA, nbr_last_rcvd_hello = clock rs\<rparr>]\<rparr>) \<and>
    get_router_by_rid (router_id rs) (pwospf_router_list rs') = Some r' \<and>
    (ie_ip ie AND ie_mask ie, ie_mask ie, router_id rsA) \<in> link_key ` set (pr_interface_list r') \<and>
    signals rs' = signals rs @ [DijkstraCond, LsuBcastCond] \<and>
    held rs' = [(RtableLock, Rd), (IfList, Wr), (ArpQueue, Wr), (ArpCache, Rd)])"
proof -
  from hello_packet_valid[OF assms(1,2,4)] obtain p' ip h where
    p': "process_pwospf_packet rs p i = process_pwospf_hello_packet rs p' i" "verify_checksum p 14 20 = Some 0"
    "get_ip_hdr p' = Some ip" "ip_src ip = ie_ip ieA" "get_pwospf_hdr p' = Some h" "pwospf_rid h = router_id rsA"
    "get_pwospf_hello_hdr p' = Some (populate_pwospf_hello (ie_mask ieA) (pwospf_hello_interval rsA))" by blast
  let ?nbr = "\<lparr>nbr_router_id = router_id rsA, nbr_ip = ie_ip ieA, nbr_last_rcvd_hello = clock rs\<rparr>"
  obtain il where il: "link_neighbor ie (router_id rsA) (pr_interface_list r) = Some il" "length il \<le> Suc (length (pr_interface_list r))"
    "\<exists>pi\<in>set il. on_subnet ie pi \<and> pi_router_id pi = router_id rsA" using link_neighbor_ok[OF assms(10)] by blast
  let ?rs2 = "rs\<lparr>held := hello_locks, if_list := update_first (named i) (\<lambda>ie. ie\<lparr>ie_nbr_routers := ie_nbr_routers ie @ [?nbr]\<rparr>) (if_list rs),
      pwospf_router_list := update_first (has_rid (router_id rs)) (\<lambda>r. r\<lparr>pr_interface_list := il\<rparr>) (pwospf_router_list rs)\<rparr>"
  have r: "get_router_by_rid (router_id ?rs2) (pwospf_router_list ?rs2) = Some (r\<lparr>pr_interface_list := il\<rparr>)"
    "small_router (r\<lparr>pr_interface_list := il\<rparr>)" "lock_free LsuQueue ?rs2"
    using assms(9,11) il(2) by (simp_all add: set_router_def set_iface_def get_router_by_rid_update small_router_def lock_free_def)
  from propagate_own[OF r] obtain r' rl q where
    pr: "propagate_pwospf_changes ?rs2 = Some (?rs2\<lparr>dijkstra_dirty := 1, signals := signals ?rs2 @ [DijkstraCond],
      pwospf_router_list := rl, pwospf_lsu_queue := pwospf_lsu_queue ?rs2 @ q\<rparr>)"
    and r': "get_router_by_rid (router_id ?rs2) rl = Some r'" "map link_key (pr_interface_list r') = map link_key il" by auto
  let ?rs3 = "?rs2\<lparr>dijkstra_dirty := 1, signals := signals ?rs2 @ [DijkstraCond],
      pwospf_router_list := rl, pwospf_lsu_queue := pwospf_lsu_queue ?rs2 @ q\<rparr>"
  let ?rs4 = "cond_signal LsuBcastCond (?rs3\<lparr>held := tl hello_locks\<rparr>)"
  have rel: "release RouterList ?rs3 = Some (?rs3\<lparr>held := tl hello_locks\<rparr>)" by (simp add: release_def)
  have "process_pwospf_hello_packet rs p' i = do { rs \<leftarrow> propagate_pwospf_changes ?rs2; rs \<leftarrow> release RouterList rs; Some (cond_signal LsuBcastCond rs) }"
    using hello_new_neighbor[OF p'(3,5,7) _ assms(5,6)] assms(3,7,8,9) p'(4,6) il(1) by (simp add: populate_pwospf_hello_def)
  then have "process_pwospf_packet rs p i = Some ?rs4"
    unfolding p'(1) pr bind.simps rel .
  moreover have "find (named i) (if_list ?rs4) = Some (ie\<lparr>ie_nbr_routers := ie_nbr_routers ie @ [?nbr]\<rparr>)"
    using assms(6) by (auto simp: get_iface_def cond_signal_def named_def intro!: trans[OF find_update_first])
  moreover have "(ie_ip ie AND ie_mask ie, ie_mask ie, router_id rsA) \<in> link_key ` set (pr_interface_list r')"
  proof -
    from il(3) have "(ie_ip ie AND ie_mask ie, ie_mask ie, router_id rsA) \<in> link_key ` set il"
      by (force simp: on_subnet_def link_key_def)
    then show ?thesis using r'(2) by (metis list.set_map)
  qed
  moreover have "get_router_by_rid (router_id rs) (pwospf_router_list ?rs4) = Some r'"
    using r'(1) by (simp add: cond_signal_def set_router_def set_iface_def)
  ultimately show ?thesis using p'(2)
    by (intro conjI exI[of _ ?rs4] exI[of _ r']) (simp_all add: get_iface_def cond_signal_def set_router_def set_iface_def)
qed

definition one_link_router :: "u32 \<Rightarrow> u32 \<Rightarrow> router_state" where
  "one_link_router rid peer = idle_router\<lparr>router_id := rid, held := ip_locks,
     if_list := [eth1\<lparr>ie_mask := 0x00FFFFFF, ie_nbr_routers := []\<rparr>],
     pwospf_router_list := [a_router 1 rid [link_to 0x0A000000 peer]]\<rparr>"

theorem hello_makes_neighbor_witness:
  "\<exists>p rs'. hello_packet (one_link_router 1 0) (eth1\<lparr>ie_mask := 0x00FFFFFF, ie_ip := ie_ip eth1 + 0x01000000\<rparr>) = Some p \<and>
     process_pwospf_packet (one_link_router 2 0) p ''eth1'' = Some rs' \<and>
     map_option (\<lambda>ie. map nbr_router_id (ie_nbr_routers ie)) (get_iface rs' ''eth1'') = Some [1]"
proof -
  let ?ieA = "eth1\<lparr>ie_mask := 0x00FFFFFF, ie_ip := ie_ip eth1 + 0x01000000\<rparr>" and ?ie = "eth1\<lparr>ie_mask := 0x00FFFFFF, ie_nbr_routers := []\<rparr>"
  let ?r = "a_router 1 2 [link_to 0x0A000000 0]"
  obtain p where p: "hello_packet (one_link_router 1 0) ?ieA = Some p" using hello_packet_eq by blast
  have 1: "area_id (one_link_router 2 0) = area_id (one_link_router 1 0)"
    "pwospf_hello_interval (one_link_router 2 0) = pwospf_hello_interval (one_link_router 1 0)"
    "ntohl (router_id (one_link_router 1 0)) \<noteq> router_id (one_link_router 2 0)" "held (one_link_router 2 0) = ip_locks"
    "get_iface (one_link_router 2 0) ''eth1'' = Some ?ie" "ie_mask ?ie = ie_mask ?ieA"
    "\<not> list_ex (\<lambda>nbr. nbr_ip nbr = ie_ip ?ieA \<and> nbr_router_id nbr = router_id (one_link_router 1 0)) (ie_nbr_routers ?ie)"
    "get_router_by_rid (router_id (one_link_router 2 0)) (pwospf_router_list (one_link_router 2 0)) = Some ?r"
    by code_simp+
  have "pr_interface_list ?r \<noteq> []" "44 + 12 * length (pr_interface_list ?r) < 65536" by (simp_all add: a_router_def)
  from hello_makes_neighbor[OF p 1 this] p show ?thesis by (force simp: one_link_router_def idle_router_def)
qed

text \<open>An update that is passed on: the time to live is one less, and the checksum is right.\<close>

lemma rebroadcast_copy_eq:
  assumes "unat (ntohs (pwospf_len h)) = 32 + length c"
  shows "\<exists>s. pw_sum h (enc_lsu (l\<lparr>lsu_ttl := htons t\<rparr>) @ c) = Some s \<and>
    rebroadcast_copy (pwospf_frame d sr ip h (enc_lsu l @ c)) t =
      Some (enc_pwospf (h\<lparr>pwospf_sum := htons s\<rparr>) @ enc_lsu (l\<lparr>lsu_ttl := htons t\<rparr>) @ c)"
proof -
  let ?e = "enc_eth \<lparr>eth_dhost = d, eth_shost = sr, eth_type = htons ETH_TYPE_IP\<rparr> @ enc_ip ip"
  let ?l = "l\<lparr>lsu_ttl := htons t\<rparr>"
  have len: "unat (ntohs (pwospf_len h)) \<le> 24 + length (enc_lsu ?l @ c)" using assms by (simp add: lsu_wire.enc_length)
  then obtain s where s: "pw_sum h (enc_lsu ?l @ c) = Some s" by (rule pw_sum_Some)
  have 1: "mem_ld (pwospf_frame d sr ip h (enc_lsu l @ c)) 34 (unat (ntohs (pwospf_len h))) = Some (enc_pwospf h @ enc_lsu l @ c)"
    unfolding pwospf_frame_def mem_ld_def assms
    by (simp add: eth_wire.enc_length ip_wire.enc_length pwospf_wire.enc_length lsu_wire.enc_length)
  have 2: "mem_st (enc_pwospf h @ enc_lsu l @ c) 26 (enc16 (htons t)) = Some (enc_pwospf h @ enc_lsu ?l @ c)"
    by (simp add: mem_st_def pwospf_wire.enc_length lsu_wire.enc_length) (simp add: enc_lsu_def enc16_def enc32_def)
  from store_pwospf_at[of "[]" 0, OF _ s] s 1 2 show ?thesis by (simp add: rebroadcast_copy_def)
qed

text \<open>A new update of another router, in the database.\<close>

lemma update_database_learns:
  assumes h: "get_pwospf_hdr p = Some h" and l: "get_pwospf_lsu_hdr p = Some l"
    and a: "read_advs p 0 (unat (ntohl (lsu_num l))) = Some advs" "\<forall>adv\<in>set advs. masked_adv adv"
    and new: "pred_option (\<lambda>old. pr_seq old < ntohs (lsu_seq l)) (get_router_by_rid (pwospf_rid h) (pwospf_router_list rs))"
  shows "\<exists>changed rl n r'. update_database rs p = Some (True, changed, rs\<lparr>pwospf_router_list := rl, next_addr := n\<rparr>) \<and>
    get_router_by_rid (pwospf_rid h) rl = Some r' \<and> link_key ` set (pr_interface_list r') = adv_key ` set advs \<and>
    pr_seq r' = ntohs (lsu_seq l) \<and> pr_last_update r' = clock rs \<and>
    (\<forall>rid. rid \<noteq> pwospf_rid h \<longrightarrow> get_router_by_rid rid rl = get_router_by_rid rid (pwospf_router_list rs))"
proof (cases "get_router_by_rid (pwospf_rid h) (pwospf_router_list rs)")
  case None
  obtain il where il: "populate_pwospf_router_interface_list [] p = Some (True, il)" "link_key ` set il = adv_key ` set advs"
    using populate_exact[OF l a, of "[]"] by auto
  let ?r = "\<lparr>pr_addr = next_addr rs, pr_router_id = pwospf_rid h, pr_area_id = ntohl (pwospf_aid h),
      pr_seq = ntohs (lsu_seq l), pr_last_update = clock rs, pr_distance = 0, pr_shortest_path_found = False,
      pr_interface_list = il, pr_prev_router = None\<rparr>"
  have "get_router_by_rid rid (pwospf_router_list rs @ [?r]) = (if rid = pwospf_rid h then Some ?r else get_router_by_rid rid (pwospf_router_list rs))" for rid
    using None by (auto simp: get_router_by_rid_def find_append has_rid_def split: option.split)
  with None h l il show ?thesis
    by (intro exI[of _ True] exI[of _ "pwospf_router_list rs @ [?r]"] exI[of _ "Suc (next_addr rs)"] exI[of _ ?r])
      (simp add: update_database_def add_new_router_neighbor_def)
next
  case (Some old)
  obtain c il where il: "populate_pwospf_router_interface_list (pr_interface_list old) p = Some (c, il)" "link_key ` set il = adv_key ` set advs"
    using populate_exact[OF l a, of "pr_interface_list old"] by auto
  let ?f = "\<lambda>r. r\<lparr>pr_last_update := clock rs, pr_seq := htons (lsu_seq l), pr_interface_list := il\<rparr>"
  let ?rl = "update_first (has_rid (pwospf_rid h)) ?f (pwospf_router_list rs)"
  have "get_router_by_rid rid ?rl = get_router_by_rid rid (pwospf_router_list rs)" if "rid \<noteq> pwospf_rid h" for rid
    unfolding get_router_by_rid_def using that by (intro find_update_first_other) (auto simp: has_rid_def)
  with Some h l il new show ?thesis
    by (intro exI[of _ c] exI[of _ ?rl] exI[of _ "next_addr rs"] exI[of _ "?f old"])
      (auto simp: update_database_def set_router_def get_router_by_rid_update)
qed

lemma propagate_keeps:
  assumes "get_router_by_rid (router_id rs) (pwospf_router_list rs) = Some r" and "small_router r" and "lock_free LsuQueue rs"
  shows "\<exists>rl q. propagate_pwospf_changes rs = Some (rs\<lparr>dijkstra_dirty := 1, signals := signals rs @ [DijkstraCond],
      pwospf_router_list := rl, pwospf_lsu_queue := pwospf_lsu_queue rs @ q\<rparr>) \<and>
    (\<forall>rid x. rid \<noteq> router_id rs \<longrightarrow> get_router_by_rid rid (pwospf_router_list rs) = Some x \<longrightarrow>
      (\<exists>x'. get_router_by_rid rid rl = Some x' \<and> map link_key (pr_interface_list x') = map link_key (pr_interface_list x) \<and>
        pr_seq x' = pr_seq x \<and> pr_last_update x' = pr_last_update x))"
proof -
  let ?rl = "fold determine_active_interfaces [0..<length (pwospf_router_list rs)] (pwospf_router_list rs)"
  from propagate_eq[OF assms] obtain rl q where
    p: "propagate_pwospf_changes rs = Some (rs\<lparr>dijkstra_dirty := 1, signals := signals rs @ [DijkstraCond],
      pwospf_router_list := rl, pwospf_lsu_queue := pwospf_lsu_queue rs @ q\<rparr>)"
    and l: "rl = ?rl \<or> rl = update_first (has_rid (router_id rs)) (\<lambda>r. r\<lparr>pr_last_update := clock rs, pr_seq := pr_seq r + 1\<rparr>) ?rl"
    by (auto split: if_splits)
  have o: "get_router_by_rid rid rl = get_router_by_rid rid ?rl" if "rid \<noteq> router_id rs" for rid
    using l that unfolding get_router_by_rid_def by (elim disjE) (auto simp: has_rid_def intro!: find_update_first_other)
  have "\<exists>x'. get_router_by_rid rid rl = Some x' \<and> map link_key (pr_interface_list x') = map link_key (pr_interface_list x) \<and>
        pr_seq x' = pr_seq x \<and> pr_last_update x' = pr_last_update x"
    if rid: "rid \<noteq> router_id rs" and x: "get_router_by_rid rid (pwospf_router_list rs) = Some x" for rid x
  proof -
    obtain x' where x': "get_router_by_rid rid ?rl = Some x'" "inactive x' = inactive x"
      using get_router_inactive[OF propagate_links x] by blast
    have "pr_seq (inactive y) = pr_seq y" "pr_last_update (inactive y) = pr_last_update y" for y by (simp_all add: inactive_def)
    then have "pr_seq x' = pr_seq x" "pr_last_update x' = pr_last_update x" using x'(2) by metis+
    with x' o[OF rid] inactive_keys[OF x'(2)] show ?thesis by auto
  qed
  with p show ?thesis by blast
qed

abbreviation lsu_locks :: "(lock \<times> mode) list" where
  "lsu_locks \<equiv> [(RouterList, Wr), (RtableLock, Wr), (IfList, Rd), (ArpQueue, Wr), (ArpCache, Rd)]"

lemma lsu_relock:
  assumes "held rs = ip_locks"
  shows "do { rs \<leftarrow> release RtableLock rs; rs \<leftarrow> acquire RtableLock Wr rs; rs \<leftarrow> acquire RouterList Wr rs; f rs } =
    f (rs\<lparr>held := lsu_locks\<rparr>)"
  using assms by (simp add: release_def acquire_def)

text \<open>The update packet of a router, as its neighbours see it.\<close>

lemma own_lsu_valid:
  assumes "small_router r" and "lsu_packet (own_lsu rsA r) ieA nbr = Some p"
    and "area_id rs = area_id rsA" and "ntohl (router_id rsA) \<noteq> router_id rs"
  shows "\<exists>ip. ip_src ip = ie_ip ieA \<and> verify_checksum p 14 20 = Some 0 \<and> process_pwospf_packet rs p i =
    process_pwospf_lsu_packet rs (pwospf_frame mac_zero (ie_addr ieA) ip ((own_lsu_hdr rsA r)\<lparr>pwospf_sum := 0\<rparr>) (own_lsu_data r))"
proof -
  let ?h = "own_lsu_hdr rsA r" and ?c = "own_lsu_data r"
  have len: "unat (ntohs (pwospf_len ?h)) = 24 + length ?c" by (rule own_lsu_len[OF assms(1)])
  then obtain s where s: "pw_sum ?h ?c = Some s" using pw_sum_Some[of ?h ?c] by auto
  let ?k = "?h\<lparr>pwospf_sum := htons s\<rparr>"
  have o: "own_lsu rsA r = enc_pwospf ?k @ ?c" by (simp add: own_lsu_def s)
  have "unat (ntohs (pwospf_len ?k)) = 24 + length ?c" using len by simp
  from lsu_packet_eq[OF this, of ieA nbr] assms(2) obtain x where
    p: "p = pwospf_frame mac_zero (ie_addr ieA) ((populate_ip (ntohs (pwospf_len ?k)) IP_PROTO_PWOSPF (ie_ip ieA) (nbr_ip nbr))\<lparr>ip_sum := x\<rparr>) ?k ?c"
    and v: "verify_checksum p 14 20 = Some 0" unfolding o by auto
  let ?ip = "(populate_ip (ntohs (pwospf_len ?k)) IP_PROTO_PWOSPF (ie_ip ieA) (nbr_ip nbr))\<lparr>ip_sum := x\<rparr>"
  have f: "pwospf_ver ?k = 2" "pwospf_type ?k = 4" "pwospf_atype ?k = 0" "pwospf_aid ?k = htonl (area_id rsA)" "pwospf_rid ?k = router_id rsA"
    by (simp_all add: own_lsu_hdr_def populate_pwospf_def)
  have "pw_sum ?k ?c = Some s" using s by simp
  from pwospf_valid_frame[OF f(1) this] have "is_pwospf_packet_valid rs p =
      Some (True, pwospf_frame mac_zero (ie_addr ieA) ?ip (?h\<lparr>pwospf_sum := 0\<rparr>) ?c)"
    unfolding p using f assms(3,4) by simp
  then have "process_pwospf_packet rs p i = process_pwospf_lsu_packet rs (pwospf_frame mac_zero (ie_addr ieA) ?ip (?h\<lparr>pwospf_sum := 0\<rparr>) ?c)"
    using f(2) by (simp add: process_pwospf_packet_def)
  with v show ?thesis by (intro exI[of _ ?ip]) (simp add: populate_ip_def)
qed

lemma propagate_ids:
  assumes "get_router_by_rid (router_id rs) (pwospf_router_list rs) = Some r" and "small_router r" and "lock_free LsuQueue rs"
  shows "\<exists>rs'. propagate_pwospf_changes rs = Some rs' \<and> held rs' = held rs \<and> signals rs' = signals rs @ [DijkstraCond] \<and>
    map pr_router_id (pwospf_router_list rs') = map pr_router_id (pwospf_router_list rs)"
proof -
  let ?rl = "fold determine_active_interfaces [0..<length (pwospf_router_list rs)] (pwospf_router_list rs)"
  have "map (pr_router_id \<circ> inactive) ?rl = map (pr_router_id \<circ> inactive) (pwospf_router_list rs)"
    using arg_cong[OF propagate_links, of "map pr_router_id"] by simp
  then have "map pr_router_id ?rl = map pr_router_id (pwospf_router_list rs)" by (simp add: comp_def)
  moreover have "map pr_router_id (update_first P (\<lambda>r. r\<lparr>pr_last_update := c, pr_seq := pr_seq r + 1\<rparr>) l) = map pr_router_id l" for P c l
    by (rule map_update_first) simp
  ultimately show ?thesis using propagate_eq[OF assms] by (auto simp: map_update_first split: if_splits)
qed

lemma maybe_propagate:
  assumes "get_router_by_rid (router_id rs) (pwospf_router_list rs) = Some r" and "small_router r" and "lock_free LsuQueue rs"
    and "rid \<noteq> router_id rs" and "get_router_by_rid rid (pwospf_router_list rs) = Some x"
  shows "\<exists>rs' x' q. (if ch then propagate_pwospf_changes rs else Some rs) = Some rs' \<and> held rs' = held rs \<and>
    get_router_by_rid rid (pwospf_router_list rs') = Some x' \<and> map link_key (pr_interface_list x') = map link_key (pr_interface_list x) \<and>
    pr_seq x' = pr_seq x \<and> pr_last_update x' = pr_last_update x \<and> pwospf_lsu_queue rs' = pwospf_lsu_queue rs @ q"
proof (cases ch)
  case True
  with propagate_keeps[OF assms(1-3)] assms(4,5) show ?thesis by fastforce
next
  case False
  with assms(5) show ?thesis by (intro exI[of _ rs] exI[of _ x] exI[of _ "[]"]) simp
qed

text \<open>The fields of the update, after the check cleared its checksum.\<close>

lemma own_lsu_contents:
  assumes "small_router r" and "list_all (\<lambda>pi. pi_subnet pi AND pi_mask pi = pi_subnet pi) (pr_interface_list r)"
  shows "\<exists>l c advs. own_lsu_data r = enc_lsu l @ c \<and> l = populate_pwospf_lsu (pr_seq r) (word_of_nat (length (pr_interface_list r))) \<and>
    (\<forall>d s ip h. get_pwospf_lsu_hdr (pwospf_frame d s ip h (enc_lsu l @ c)) = Some l \<and>
      read_advs (pwospf_frame d s ip h (enc_lsu l @ c)) 0 (unat (ntohl (lsu_num l))) = Some advs) \<and>
    (\<forall>adv\<in>set advs. masked_adv adv) \<and> adv_key ` set advs = link_key ` set (pr_interface_list r) \<and>
    unat (ntohs (pwospf_len (own_lsu_hdr rs r))) = 32 + length c"
proof -
  let ?l = "populate_pwospf_lsu (pr_seq r) (word_of_nat (length (pr_interface_list r)))" and ?advs = "map adv_of (pr_interface_list r)"
  let ?c = "concat (map enc_adv ?advs)"
  have data: "own_lsu_data r = enc_lsu ?l @ ?c" by (simp add: own_lsu_data_def)
  have "length ?advs < 4294967296" using assms(1) by (simp add: small_router_def)
  note lsu_frame_advs[OF this, where sq = "htons (pr_seq r)" and t = "htons 64"]
  then have l: "get_pwospf_lsu_hdr (pwospf_frame d s ip h (enc_lsu ?l @ ?c)) = Some ?l \<and>
      read_advs (pwospf_frame d s ip h (enc_lsu ?l @ ?c)) 0 (unat (ntohl (lsu_num ?l))) = Some ?advs" for d s ip h
    by (simp add: populate_pwospf_lsu_def)
  have "\<forall>adv\<in>set ?advs. masked_adv adv" using assms(2) by (auto simp: list_all_iff masked_adv_def adv_of_def)
  moreover have "adv_key ` set ?advs = link_key ` set (pr_interface_list r)"
    using assms(2) by (auto simp: list_all_iff adv_key_def adv_of_def link_key_def image_iff)
  moreover have "unat (ntohs (pwospf_len (own_lsu_hdr rs r))) = 32 + length ?c"
    using own_lsu_len[OF assms(1), of rs] by (simp add: data lsu_wire.enc_length)
  ultimately show ?thesis using data l by blast
qed

text \<open>
  C6. Link state updates carry a router's links over the network: the packet that a router \<open>A\<close> floods, when a router that does not
  know \<open>A\<close> or has only older updates of it processes it, makes the links of \<open>A\<close> in the receiver's database those that
  \<open>A\<close> has in its own (as subnet, mask and router id, the subnets masked), with the sequence number of the update and the time of arrival.
  The receiver queues a copy with the time to live 63 for each of its neighbours but the sender, and then holds the locks of
  its caller, the routing table for writing.
\<close>

theorem lsu_teaches_links:
  assumes A: "small_router rA" "lsu_packet (own_lsu rsA rA) ieA nbr = Some p"
      "list_all (\<lambda>pi. pi_subnet pi AND pi_mask pi = pi_subnet pi) (pr_interface_list rA)"
    and B: "area_id rs = area_id rsA" "ntohl (router_id rsA) \<noteq> router_id rs" "router_id rsA \<noteq> router_id rs" "held rs = ip_locks"
      "get_router_by_rid (router_id rs) (pwospf_router_list rs) = Some r" "small_router r"
      "pred_option (\<lambda>old. pr_seq old < pr_seq rA) (get_router_by_rid (router_id rsA) (pwospf_router_list rs))"
  shows "\<exists>rs' r' copy q. process_pwospf_packet rs p i = Some rs' \<and>
    get_router_by_rid (router_id rsA) (pwospf_router_list rs') = Some r' \<and>
    link_key ` set (pr_interface_list r') = link_key ` set (pr_interface_list rA) \<and>
    pr_seq r' = pr_seq rA \<and> pr_last_update r' = clock rs \<and>
    pwospf_lsu_queue rs' = pwospf_lsu_queue rs @ lsu_entries (if_list rs) copy (Some (ie_ip ieA)) @ q \<and>
    drop 28 copy = drop 28 (own_lsu rsA rA) \<and> mem_ld copy 26 2 = Some (enc16 (htons 63)) \<and>
    held rs' = [(RtableLock, Wr), (IfList, Rd), (ArpQueue, Wr), (ArpCache, Rd)]"
proof -
  let ?h = "(own_lsu_hdr rsA rA)\<lparr>pwospf_sum := 0\<rparr>"
  from own_lsu_contents[OF A(1,3), of rsA] obtain l c advs where data: "own_lsu_data rA = enc_lsu l @ c"
    and lq: "l = populate_pwospf_lsu (pr_seq rA) (word_of_nat (length (pr_interface_list rA)))"
    and adv: "\<And>d s ip h. get_pwospf_lsu_hdr (pwospf_frame d s ip h (enc_lsu l @ c)) = Some l"
      "\<And>d s ip h. read_advs (pwospf_frame d s ip h (enc_lsu l @ c)) 0 (unat (ntohl (lsu_num l))) = Some advs"
    and m: "\<forall>adv\<in>set advs. masked_adv adv" and k: "adv_key ` set advs = link_key ` set (pr_interface_list rA)"
    and len: "unat (ntohs (pwospf_len ?h)) = 32 + length c" by auto
  from own_lsu_valid[OF A(1,2) B(1,2)] obtain ip where ip: "ip_src ip = ie_ip ieA" "process_pwospf_packet rs p i =
    process_pwospf_lsu_packet rs (pwospf_frame mac_zero (ie_addr ieA) ip ?h (enc_lsu l @ c))" unfolding data by blast
  let ?p = "pwospf_frame mac_zero (ie_addr ieA) ip ?h (enc_lsu l @ c)"
  have h: "get_pwospf_hdr ?p = Some ?h" "pwospf_rid ?h = router_id rsA" by (simp_all add: own_lsu_hdr_def populate_pwospf_def)
  let ?rs1 = "rs\<lparr>held := lsu_locks\<rparr>"
  have new: "pred_option (\<lambda>old. pr_seq old < ntohs (lsu_seq l)) (get_router_by_rid (pwospf_rid ?h) (pwospf_router_list ?rs1))"
    using B(7) h(2) by (simp add: lq populate_pwospf_lsu_def)
  from update_database_learns[OF h(1) adv m new] obtain ch rl n r1 where
    db: "update_database ?rs1 ?p = Some (True, ch, ?rs1\<lparr>pwospf_router_list := rl, next_addr := n\<rparr>)"
    and r1: "get_router_by_rid (router_id rsA) rl = Some r1" "link_key ` set (pr_interface_list r1) = link_key ` set (pr_interface_list rA)"
      "pr_seq r1 = pr_seq rA" "pr_last_update r1 = clock rs"
    and own: "get_router_by_rid (router_id rs) rl = Some r"
    unfolding h(2) k using B(3,5) by (auto simp: lq populate_pwospf_lsu_def)
  let ?l' = "l\<lparr>lsu_ttl := htons 63\<rparr>"
  from rebroadcast_copy_eq[OF len, where l = l and t = 63 and d = mac_zero and sr = "ie_addr ieA" and ip = ip] obtain s where
    cp: "rebroadcast_copy ?p 63 = Some (enc_pwospf (?h\<lparr>pwospf_sum := htons s\<rparr>) @ enc_lsu ?l' @ c)" by blast
  let ?copy = "enc_pwospf (?h\<lparr>pwospf_sum := htons s\<rparr>) @ enc_lsu ?l' @ c"
  have pk: "lsu_packet ?copy ie nb \<noteq> None" for ie nb
    using lsu_packet_eq[of "?h\<lparr>pwospf_sum := htons s\<rparr>" "enc_lsu ?l' @ c" ie nb] len by (auto simp: lsu_wire.enc_length)
  let ?rs2 = "?rs1\<lparr>pwospf_router_list := rl, next_addr := n\<rparr>"
  have free: "lock_free LsuQueue ?rs2" by (simp add: lock_free_def)
  let ?q = "lsu_entries (if_list rs) ?copy (Some (ie_ip ieA))"
  let ?rs3 = "?rs2\<lparr>pwospf_lsu_queue := pwospf_lsu_queue rs @ ?q\<rparr>"
  have bc: "broadcast_pwospf_lsu_packet ?rs2 ?copy (Some (ie_ip ieA)) = Some ?rs3"
    using broadcast_lsu_eq[OF free pk] by simp
  have run: "process_pwospf_lsu_packet rs ?p = do {
      rs \<leftarrow> (if ch then propagate_pwospf_changes ?rs3 else Some ?rs3);
      rs \<leftarrow> release RouterList rs;
      Some (cond_signal LsuBcastCond rs) }"
    unfolding process_pwospf_lsu_packet_def using h adv(1) B(3) db cp bc ip(1)
    by (simp add: lsu_relock[OF B(4)] lq populate_pwospf_lsu_def Let_def)
  have "get_router_by_rid (router_id ?rs3) (pwospf_router_list ?rs3) = Some r" "lock_free LsuQueue ?rs3" "router_id rsA \<noteq> router_id ?rs3"
    "get_router_by_rid (router_id rsA) (pwospf_router_list ?rs3) = Some r1" using own B(3) r1(1) by (simp_all add: lock_free_def)
  from maybe_propagate[OF this(1) B(6) this(2-4), of ch] obtain rs4 r' q where rs4: "(if ch then propagate_pwospf_changes ?rs3 else Some ?rs3) = Some rs4" "held rs4 = lsu_locks"
    "get_router_by_rid (router_id rsA) (pwospf_router_list rs4) = Some r'" "map link_key (pr_interface_list r') = map link_key (pr_interface_list r1)"
    "pr_seq r' = pr_seq r1" "pr_last_update r' = pr_last_update r1" "pwospf_lsu_queue rs4 = pwospf_lsu_queue rs @ ?q @ q" by auto
  have "process_pwospf_packet rs p i = Some (cond_signal LsuBcastCond (rs4\<lparr>held := tl lsu_locks\<rparr>))"
    unfolding ip(2) run rs4(1) by (simp add: release_head[OF rs4(2)])
  moreover have "link_key ` set (pr_interface_list r') = link_key ` set (pr_interface_list rA)" using rs4(4) r1(2) by (metis list.set_map)
  moreover have "drop 28 ?copy = drop 28 (own_lsu rsA rA)" "mem_ld ?copy 26 2 = Some (enc16 (htons 63))"
    by (simp_all add: own_lsu_def data pwospf_wire.enc_length mem_ld_def lsu_wire.enc_length) (simp_all add: enc_lsu_def enc16_def)
  ultimately show ?thesis using rs4 r1
    by (intro exI[of _ "cond_signal LsuBcastCond (rs4\<lparr>held := tl lsu_locks\<rparr>)"] exI[of _ r'] exI[of _ ?copy] exI[of _ q])
      (simp add: cond_signal_def)
qed

theorem lsu_teaches_links_witness:
  "\<exists>p rs'. lsu_packet (own_lsu (one_link_router 1 2) (a_router 1 1 [link_to 0x0A000000 2])) eth1
        \<lparr>nbr_router_id = 2, nbr_ip = htonl 0x0A000002, nbr_last_rcvd_hello = 0\<rparr> = Some p \<and>
     process_pwospf_packet (one_link_router 2 1) p ''eth1'' = Some rs' \<and>
     map_option (\<lambda>r. link_key ` set (pr_interface_list r)) (get_router_by_rid 1 (pwospf_router_list rs')) =
       Some {(htonl 0x0A000000, htonl 0xFFFFFF00, 2)}"
proof -
  let ?nbr = "\<lparr>nbr_router_id = 2, nbr_ip = htonl 0x0A000002, nbr_last_rcvd_hello = 0\<rparr>"
  let ?A = "one_link_router 1 2" and ?B = "one_link_router 2 1" and ?rA = "a_router 1 1 [link_to 0x0A000000 2]"
  have s: "small_router (a_router 1 x [y])" for x y by (simp add: small_router_def a_router_def)
  obtain p where p: "lsu_packet (own_lsu ?A ?rA) eth1 ?nbr = Some p" using own_lsu_packet[OF s] by blast
  have 1: "list_all (\<lambda>pi. pi_subnet pi AND pi_mask pi = pi_subnet pi) (pr_interface_list ?rA)"
    "area_id ?B = area_id ?A" "ntohl (router_id ?A) \<noteq> router_id ?B" "router_id ?A \<noteq> router_id ?B" "held ?B = ip_locks"
    "get_router_by_rid (router_id ?B) (pwospf_router_list ?B) = Some (a_router 1 2 [link_to 0x0A000000 1])" by code_simp+
  have 2: "pred_option (\<lambda>old. pr_seq old < pr_seq ?rA) (get_router_by_rid (router_id ?A) (pwospf_router_list ?B))"
    by (simp add: one_link_router_def idle_router_def get_router_by_rid_def has_rid_def a_router_def)
  have "link_key ` set (pr_interface_list ?rA) = {(htonl 0x0A000000, htonl 0xFFFFFF00, 2)}" "router_id ?A = 1"
    by (simp_all add: a_router_def link_to_def link_key_def one_link_router_def idle_router_def)
  with lsu_teaches_links[OF s p 1 s 2, of "''eth1''"] p show ?thesis by fastforce
qed

text \<open>
  Old news changes nothing: an update of a known router whose sequence number is not greater than the one in the database is
  not passed on and leaves the whole state of the receiver as it was, except that its caller now holds the routing table for writing.
\<close>

theorem stale_lsu_ignored:
  assumes "get_pwospf_hdr p = Some h" and "get_pwospf_lsu_hdr p = Some l" and "held rs = ip_locks" and "router_id rs \<noteq> pwospf_rid h"
    and "get_router_by_rid (pwospf_rid h) (pwospf_router_list rs) = Some old" and "ntohs (lsu_seq l) \<le> pr_seq old"
  shows "process_pwospf_lsu_packet rs p = Some (rs\<lparr>held := [(RtableLock, Wr), (IfList, Rd), (ArpQueue, Wr), (ArpCache, Rd)]\<rparr>)"
proof -
  let ?rs = "rs\<lparr>held := lsu_locks\<rparr>"
  have "update_database ?rs p = Some (False, False, ?rs)"
    using assms(1,2,5,6) by (auto simp: update_database_def)
  moreover have "release RouterList ?rs = Some (rs\<lparr>held := tl lsu_locks\<rparr>)" by (simp add: release_def)
  ultimately show ?thesis
    unfolding process_pwospf_lsu_packet_def using assms(1,2,4) by (simp add: lsu_relock[OF assms(3)])
qed

definition an_update :: "byte list" where
  "an_update = pwospf_frame mac_zero mac_zero (populate_ip 44 IP_PROTO_PWOSPF 1 2)
     (populate_pwospf PWOSPF_TYPE_LINK_STATE_UPDATE 44 7 0)
     (enc_lsu \<lparr>lsu_seq = htons 1, lsu_ttl = htons 64, lsu_num = htonl (word_of_nat (length [adv_of (link_to 0x0A000000 1)]))\<rparr> @
      concat (map enc_adv [adv_of (link_to 0x0A000000 1)]))"

theorem stale_lsu_ignored_witness:
  "process_pwospf_lsu_packet (idle_router\<lparr>held := ip_locks, pwospf_router_list := [a_router 1 7 []]\<rparr>) an_update =
     Some (idle_router\<lparr>held := tl lsu_locks, pwospf_router_list := [a_router 1 7 []]\<rparr>)"
proof -
  let ?l = "\<lparr>lsu_seq = htons 1, lsu_ttl = htons 64, lsu_num = htonl (word_of_nat (length [adv_of (link_to 0x0A000000 1)]))\<rparr>"
  let ?rs = "idle_router\<lparr>held := ip_locks, pwospf_router_list := [a_router 1 7 []]\<rparr>"
  have l: "get_pwospf_lsu_hdr an_update = Some ?l" unfolding an_update_def by (rule conjunct1[OF lsu_frame_advs]) simp
  have h: "get_pwospf_hdr an_update = Some (populate_pwospf PWOSPF_TYPE_LINK_STATE_UPDATE 44 7 0)" by (simp add: an_update_def)
  have "held ?rs = ip_locks" "router_id ?rs \<noteq> pwospf_rid (populate_pwospf PWOSPF_TYPE_LINK_STATE_UPDATE 44 7 0)"
    "get_router_by_rid (pwospf_rid (populate_pwospf PWOSPF_TYPE_LINK_STATE_UPDATE 44 7 0)) (pwospf_router_list ?rs) = Some (a_router 1 7 [])"
    "ntohs (lsu_seq ?l) \<le> pr_seq (a_router 1 7 [])"
    by (simp_all add: populate_pwospf_def idle_router_def get_router_by_rid_def has_rid_def a_router_def)
  from stale_lsu_ignored[OF h l this] show ?thesis by simp
qed

text \<open>
  Silent routers leave the database: one round of the timeout thread removes exactly the routers, other than this one, whose last
  update is more than three update intervals old, and keeps the others in order; when it removes one it starts the route
  computation and the flood. Every lock is released.
\<close>

theorem lsu_timeout_removes:
  assumes "held rs = []" and "get_router_by_rid (router_id rs) (pwospf_router_list rs) = Some r" and "small_router r"
  shows "\<exists>rs'. pwospf_lsu_timeout_round rs = Some rs' \<and> held rs' = [] \<and>
    map pr_router_id (pwospf_router_list rs') = map pr_router_id (filter (\<lambda>r. \<not> lsu_timed_out rs r) (pwospf_router_list rs)) \<and>
    signals rs' = signals rs @ (if list_ex (lsu_timed_out rs) (pwospf_router_list rs) then [DijkstraCond, LsuBcastCond] else []) \<and>
    get_router_by_rid (router_id rs) (pwospf_router_list rs') \<noteq> None"
proof -
  let ?rl = "filter (\<lambda>r. \<not> lsu_timed_out rs r) (pwospf_router_list rs)"
  let ?rs = "rs\<lparr>held := [(RouterList, Wr)], pwospf_router_list := ?rl\<rparr>"
  have "get_router_by_rid (router_id rs) (filter (\<lambda>r. \<not> lsu_timed_out rs r) l) = get_router_by_rid (router_id rs) l" for l
    by (induction l) (auto simp: get_router_by_rid_def has_rid_def lsu_timed_out_def)
  with assms(2) have r: "get_router_by_rid (router_id ?rs) (pwospf_router_list ?rs) = Some r" by simp
  have t: "lsu_timed_out (rs\<lparr>held := x\<rparr>) = lsu_timed_out rs" for x by (simp add: lsu_timed_out_def fun_eq_iff)
  have run: "pwospf_lsu_timeout_round rs = do {
      rs' \<leftarrow> (if list_ex (lsu_timed_out rs) (pwospf_router_list rs) then propagate_pwospf_changes ?rs else Some ?rs);
      rs' \<leftarrow> release RouterList rs';
      Some (if list_ex (lsu_timed_out rs) (pwospf_router_list rs) then cond_signal LsuBcastCond rs' else rs') }"
    using assms(1) by (simp add: pwospf_lsu_timeout_round_def acquire_def t Let_def)
  have "lock_free LsuQueue ?rs" by (simp add: lock_free_def)
  from propagate_ids[OF r assms(3) this] obtain rs' where p: "propagate_pwospf_changes ?rs = Some rs'" "held rs' = [(RouterList, Wr)]"
    "map pr_router_id (pwospf_router_list rs') = map pr_router_id ?rl" "signals rs' = signals rs @ [DijkstraCond]" by auto
  have g: "get_router_by_rid x l = None \<longleftrightarrow> x \<notin> set (map pr_router_id l)" for x l
    by (induction l) (auto simp: get_router_by_rid_def has_rid_def)
  have "router_id rs \<in> set (map pr_router_id ?rl)" using r g[of "router_id rs" ?rl] by simp
  then have own: "get_router_by_rid (router_id rs) (pwospf_router_list rs') \<noteq> None" unfolding g p(3) by simp
  have rel: "release RouterList rs' = Some (rs'\<lparr>held := []\<rparr>)" "release RouterList ?rs = Some (?rs\<lparr>held := []\<rparr>)"
    using p(2) by (simp_all add: release_def)
  show ?thesis
  proof (cases "list_ex (lsu_timed_out rs) (pwospf_router_list rs)")
    case True
    then have "pwospf_lsu_timeout_round rs = Some (cond_signal LsuBcastCond (rs'\<lparr>held := []\<rparr>))"
      using run p(1) rel(1) by simp
    with p True own show ?thesis by (simp add: cond_signal_def)
  next
    case False
    then have "pwospf_lsu_timeout_round rs = Some (?rs\<lparr>held := []\<rparr>)"
      using run rel(2) by simp
    with r False show ?thesis by simp
  qed
qed

theorem lsu_timeout_removes_witness:
  "\<exists>rs'. pwospf_lsu_timeout_round (idle_router\<lparr>router_id := 1, clock := 91, pwospf_router_list := three_routers[1 := (three_routers ! 1)\<lparr>pr_last_update := 80\<rparr>]\<rparr>) = Some rs' \<and>
     map pr_router_id (pwospf_router_list rs') = [1, 2]"
proof -
  let ?rs = "idle_router\<lparr>router_id := 1, clock := 91, pwospf_router_list := three_routers[1 := (three_routers ! 1)\<lparr>pr_last_update := 80\<rparr>]\<rparr>"
  let ?r = "a_router 1 1 [link_to 0x0A000100 2]"
  have "held ?rs = []" "get_router_by_rid (router_id ?rs) (pwospf_router_list ?rs) = Some ?r" by code_simp+
  moreover have "small_router ?r" by (simp add: small_router_def a_router_def)
  moreover have "map pr_router_id (filter (\<lambda>r. \<not> lsu_timed_out ?rs r) (pwospf_router_list ?rs)) = [1, 2]" by code_simp
  ultimately show ?thesis using lsu_timeout_removes[of ?rs ?r] by fastforce
qed

text \<open>
  What an address that is not masked does: when an update of a router whose links are known advertises a new link with host bits set
  in its address, the link is not in the database afterwards, and the update still counts as a change (so that the routes are computed
  and the links flooded again), each time such an update arrives.
\<close>

lemma unmasked_link_dropped:
  assumes "get_pwospf_lsu_hdr p = Some l" and "read_advs p 0 (unat (ntohl (lsu_num l))) = Some advs" and "adv \<in> set advs"
    and "list_all (\<lambda>a. adv_key a = adv_key adv \<longrightarrow> \<not> masked_adv a) advs" and "il \<noteq> []" and "adv_key adv \<notin> link_key ` set il"
  shows "\<exists>il'. populate_pwospf_router_interface_list il p = Some (True, il') \<and> adv_key adv \<notin> link_key ` set il'"
proof -
  have nomatch: "adv_key adv \<notin> link_key ` set (snd (add_advs as xs))" if "set as \<subseteq> set advs" "adv_key adv \<notin> link_key ` set xs" for as xs
    using that
  proof (induction as arbitrary: xs)
    case (Cons a as)
    have "link_key (new_adv a) \<noteq> adv_key adv"
      using Cons.prems(1) assms(4) by (auto simp: list_all_iff new_adv_def link_key_def adv_key_def masked_adv_def)
    with Cons show ?case by auto
  qed simp
  have added: "fst (add_advs as xs)" if "adv \<in> set as" "adv_key adv \<notin> link_key ` set xs" for as xs
    using that
  proof (induction as arbitrary: xs)
    case (Cons a as)
    have "\<not> list_ex (adv_matches adv) xs" using Cons.prems(2) by (force simp: list_ex_iff adv_matches_key)
    with Cons show ?case by auto
  qed simp
  let ?il = "snd (drop_missing advs (snd (add_advs advs il)))"
  have "populate_pwospf_router_interface_list il p = Some (True, ?il)"
    using assms(1,2,5) added[OF assms(3,6)] by (auto simp: populate_pwospf_router_interface_list_def Let_def split: prod.splits)
  moreover have "adv_key adv \<notin> link_key ` set ?il"
    using nomatch[OF subset_refl assms(6)] drop_missing_keys[of advs "snd (add_advs advs il)"] by auto
  ultimately show ?thesis by blast
qed

definition unmasked_update :: "byte list" where
  "unmasked_update = pwospf_frame mac_zero mac_zero (populate_ip 44 IP_PROTO_PWOSPF 1 2)
     (populate_pwospf PWOSPF_TYPE_LINK_STATE_UPDATE 44 7 0)
     (enc_lsu \<lparr>lsu_seq = htons 2, lsu_ttl = htons 64, lsu_num = htonl (word_of_nat (length [adv_of (link_to 0x0A000001 1)]))\<rparr> @
      concat (map enc_adv [adv_of (link_to 0x0A000001 1)]))"

lemma unmasked_link_dropped_witness:
  "\<exists>il'. populate_pwospf_router_interface_list [link_to 0x0A000200 0] unmasked_update = Some (True, il') \<and>
     (htonl 0x0A000000, htonl 0xFFFFFF00, 1) \<notin> link_key ` set il'"
proof -
  let ?advs = "[adv_of (link_to 0x0A000001 1)]"
  have "length ?advs < 4294967296" by simp
  note u = lsu_frame_advs[OF this, of mac_zero mac_zero "populate_ip 44 IP_PROTO_PWOSPF 1 2"
      "populate_pwospf PWOSPF_TYPE_LINK_STATE_UPDATE 44 7 0" "htons 2" "htons 64", folded unmasked_update_def]
  have k: "adv_key (adv_of (link_to 0x0A000001 1)) = (htonl 0x0A000000, htonl 0xFFFFFF00, 1)"
    "\<not> masked_adv (adv_of (link_to 0x0A000001 1))" "link_key (link_to 0x0A000200 0) \<noteq> (htonl 0x0A000000, htonl 0xFFFFFF00, 1)"
    by code_simp+
  show ?thesis
    using unmasked_link_dropped[OF conjunct1[OF u], of ?advs "adv_of (link_to 0x0A000001 1)" "[link_to 0x0A000200 0]"] conjunct2[OF u] k by simp
qed

end
