(* ===== verification/Nat_Table.thy ===== *)
theory Nat_Table
  imports Arp Checksums
begin

text \<open>
  Network address translation, \<^verbatim>\<open>or_nat.c\<close> with \<open>populate_nat_packet\<close> of \<^verbatim>\<open>or_utils.c\<close>: the table of
  external and internal (address, port) pairs, the rewriting of packets in both directions and the
  incremental update of their checksums. A pointer to an entry is its position in the table. The
  rolling average of hits, a \<open>double\<close>, is in \<open>Nat_Control\<close>, with the maintenance thread that sorts by it.
\<close>

section \<open>Header pointers\<close>

definition get_nat_tcp_hdr :: "byte list \<Rightarrow> nat_tcp_hdr outcome" where
  "get_nat_tcp_hdr p = get_struct dec_nat_tcp 20 p (ETH_HDR_LEN + 20)"

definition put_nat_tcp_hdr :: "byte list \<Rightarrow> nat_tcp_hdr \<Rightarrow> byte list outcome" where
  "put_nat_tcp_hdr p h = put_struct enc_nat_tcp p (ETH_HDR_LEN + 20) h"

definition get_nat_udp_hdr :: "byte list \<Rightarrow> nat_udp_hdr outcome" where
  "get_nat_udp_hdr p = get_struct dec_nat_udp 8 p (ETH_HDR_LEN + 20)"

definition put_nat_udp_hdr :: "byte list \<Rightarrow> nat_udp_hdr \<Rightarrow> byte list outcome" where
  "put_nat_udp_hdr p h = put_struct enc_nat_udp p (ETH_HDR_LEN + 20) h"

definition get_nat_icmp_hdr :: "byte list \<Rightarrow> nat_icmp_hdr outcome" where
  "get_nat_icmp_hdr p = get_struct dec_nat_icmp 8 p (ETH_HDR_LEN + 20)"

definition put_nat_icmp_hdr :: "byte list \<Rightarrow> nat_icmp_hdr \<Rightarrow> byte list outcome" where
  "put_nat_icmp_hdr p h = put_struct enc_nat_icmp p (ETH_HDR_LEN + 20) h"

text \<open>The \<open>i\<close>-th 16-bit word of the transport header quoted by an ICMP error.\<close>

definition get_nat_port_list_from_icmp_data :: "byte list \<Rightarrow> nat \<Rightarrow> u16 outcome" where
  "get_nat_port_list_from_icmp_data p i = ld16 p (ETH_HDR_LEN + 20 + 8 + 20 + 2 * i)"

definition get_ip_hdr_from_icmp_data :: "byte list \<Rightarrow> ip_hdr outcome" where
  "get_ip_hdr_from_icmp_data p = get_struct dec_ip 20 p (ETH_HDR_LEN + 20 + 8)"

definition get_icmp_hdr_from_icmp_data :: "byte list \<Rightarrow> nat_icmp_hdr outcome" where
  "get_icmp_hdr_from_icmp_data p = get_struct dec_nat_icmp 8 p (ETH_HDR_LEN + 20 + 8 + 20)"

definition get_nat_echo_id_from_icmp_data :: "byte list \<Rightarrow> u16 outcome" where
  "get_nat_echo_id_from_icmp_data p = map_option nicmp_opt1 (get_icmp_hdr_from_icmp_data p)"

section \<open>Checksums\<close>

text \<open>The three cached sums; \<open>s_ptr\<close> walks the two halves of the address as they lie in memory.\<close>

definition compute_nat_checksums :: "nat_ip_port_pair \<Rightarrow> nat_ip_port_pair" where
  "compute_nat_checksums pair =
     (let s0 = (ucast (ntohs (ucast (np_ip pair))) :: u32);
          s1 = (ucast (ntohs (ucast (drop_bit 16 (np_ip pair)))) :: u32);
          port = (ucast (ntohs (np_port pair)) :: u32)
      in pair\<lparr>np_checksum := htons (ones_complement (s0 + s1 + port)),
              np_checksum_ip := htons (ones_complement (s0 + s1)),
              np_checksum_port := NOT (np_port pair)\<rparr>)"

definition nat_checksum :: "u16 \<Rightarrow> u16 \<Rightarrow> u16 \<Rightarrow> u16" where
  "nat_checksum old pos neg =
     (let w = (ucast old + ucast pos :: u32);
          w = drop_bit 16 w + (w AND 0xFFFF);
          w = w - ucast neg;
          w = (if w > 0xFFFF then w - 1 else w)
      in ucast (w AND 0xFFFF))"

section \<open>Looking entries up\<close>

datatype nat_type = NAT_EXTERNAL | NAT_INTERNAL

abbreviation echo_type :: "byte \<Rightarrow> bool" where
  "echo_type t \<equiv> t = ICMP_TYPE_ECHO_REQUEST \<or> t = ICMP_TYPE_ECHO_REPLY"

abbreviation error_type :: "byte \<Rightarrow> bool" where
  "error_type t \<equiv> t = ICMP_TYPE_TIME_EXCEEDED \<or> t = ICMP_TYPE_DESTINATION_UNREACHABLE"

definition get_nat_port_from_icmp :: "byte list \<Rightarrow> nat_type \<Rightarrow> u16 outcome" where
  "get_nat_port_from_icmp packet ty = do {
     icmp \<leftarrow> get_nat_icmp_hdr packet;
     if echo_type (nicmp_type icmp) then Some (nicmp_opt1 icmp)
     else if error_type (nicmp_type icmp) then do {
       ip_data \<leftarrow> get_ip_hdr_from_icmp_data packet;
       if ip_p ip_data = IP_PROTO_UDP \<or> ip_p ip_data = IP_PROTO_TCP
       then get_nat_port_list_from_icmp_data packet (case ty of NAT_EXTERNAL \<Rightarrow> 0 | NAT_INTERNAL \<Rightarrow> 1)
       else if ip_p ip_data = IP_PROTO_ICMP then get_nat_echo_id_from_icmp_data packet
       else Some 0 }
     else Some 0 }"

definition get_nat_ip_port_pair :: "byte list \<Rightarrow> nat_type \<Rightarrow> (u32 \<times> u16) outcome" where
  "get_nat_ip_port_pair packet ty = do {
     ip \<leftarrow> get_ip_hdr packet;
     let addr = (case ty of NAT_EXTERNAL \<Rightarrow> ip_dst ip | NAT_INTERNAL \<Rightarrow> ip_src ip);
     if ip_p ip = IP_PROTO_TCP then do {
       tcp \<leftarrow> get_nat_tcp_hdr packet;
       Some (addr, case ty of NAT_EXTERNAL \<Rightarrow> tcp_dport tcp | NAT_INTERNAL \<Rightarrow> tcp_sport tcp) }
     else if ip_p ip = IP_PROTO_UDP then do {
       udp \<leftarrow> get_nat_udp_hdr packet;
       Some (addr, case ty of NAT_EXTERNAL \<Rightarrow> udp_dport udp | NAT_INTERNAL \<Rightarrow> udp_sport udp) }
     else if ip_p ip = IP_PROTO_ICMP then do {
       port \<leftarrow> get_nat_port_from_icmp packet ty;
       Some (addr, port) }
     else Some (0, 0) }"

definition found_nat_table_match :: "nat_entry \<Rightarrow> u32 \<times> u16 \<Rightarrow> nat_type \<Rightarrow> bool" where
  "found_nat_table_match ne nipp ty =
     (let side = (case ty of NAT_EXTERNAL \<Rightarrow> ne_ext ne | NAT_INTERNAL \<Rightarrow> ne_int ne)
      in np_ip side = fst nipp \<and> np_port side = snd nipp)"

definition get_nat_table_entry :: "router_state \<Rightarrow> byte list \<Rightarrow> nat_type \<Rightarrow> nat option outcome" where
  "get_nat_table_entry rs packet ty = do {
     pair \<leftarrow> get_nat_ip_port_pair packet ty;
     Some (find (\<lambda>i. found_nat_table_match (nat_table rs ! i) pair ty) [0..<length (nat_table rs)]) }"

section \<open>Creating entries\<close>

definition get_src_port_number_from_icmp :: "byte list \<Rightarrow> u16 outcome" where
  "get_src_port_number_from_icmp packet = do {
     icmp \<leftarrow> get_nat_icmp_hdr packet;
     if echo_type (nicmp_type icmp) then Some (nicmp_opt1 icmp)
     else if error_type (nicmp_type icmp) then get_nat_port_list_from_icmp_data packet 0
     else Some 0 }"

definition get_src_port_number :: "byte list \<Rightarrow> byte \<Rightarrow> u16 outcome" where
  "get_src_port_number packet ip_protocol =
     (if ip_protocol = IP_PROTO_TCP then map_option tcp_sport (get_nat_tcp_hdr packet)
      else if ip_protocol = IP_PROTO_UDP then map_option udp_sport (get_nat_udp_hdr packet)
      else if ip_protocol = IP_PROTO_ICMP then get_src_port_number_from_icmp packet
      else Some 0)"

definition is_unique_nat_ext_port :: "router_state \<Rightarrow> u16 \<Rightarrow> bool" where
  "is_unique_nat_ext_port rs port = (\<not> list_ex (\<lambda>ne. np_port (ne_ext ne) = port) (nat_table rs))"

text \<open>The \<open>while(1)\<close> that draws random ports until one is acceptable.\<close>

partial_function (option) draw_port :: "router_state \<Rightarrow> (u16 \<times> router_state) outcome" where
  "draw_port rs =
     (let port = rand rs (rand_pos rs);
          rs' = rs\<lparr>rand_pos := Suc (rand_pos rs)\<rparr>
      in if port > 1024 \<and> is_unique_nat_ext_port rs port then Some (port, rs') else draw_port rs')"

declare draw_port.simps [code]

abbreviation nat_pair :: "u32 \<Rightarrow> u16 \<Rightarrow> nat_ip_port_pair" where
  "nat_pair ip port \<equiv> \<lparr>np_ip = ip, np_port = port, np_checksum = 0, np_checksum_ip = 0, np_checksum_port = 0\<rparr>"

definition create_nat_table_entry :: "router_state \<Rightarrow> byte list \<Rightarrow> u32 \<Rightarrow> (nat \<times> router_state) outcome" where
  "create_nat_table_entry rs packet ext_ip = do {
     ip \<leftarrow> get_ip_hdr packet;
     (port, rs) \<leftarrow> draw_port rs;
     src_port \<leftarrow> get_src_port_number packet (ip_p ip);
     let ne = \<lparr>ne_ext = compute_nat_checksums (nat_pair ext_ip (htons port)),
               ne_int = compute_nat_checksums (nat_pair (ip_src ip) src_port),
               ne_last_hits = 0, ne_last_hits_time = clock rs, ne_hits = 0, ne_hw_row = 0xFF, ne_is_static = 0\<rparr>;
     let rs = cond_signal NatTableCond (rs\<lparr>nat_table := nat_table rs @ [ne]\<rparr>);
     Some (length (nat_table rs) - 1, rs) }"

definition hit :: "nat \<Rightarrow> router_state \<Rightarrow> router_state" where
  "hit i rs = rs\<lparr>nat_table := (nat_table rs)[i := (nat_table rs ! i)\<lparr>ne_hits := ne_hits (nat_table rs ! i) + 1\<rparr>]\<rparr>"

section \<open>Rewriting packets\<close>

text \<open>The part of \<open>populate_nat_packet\<close> for ICMP errors, which quote the packet they are about.\<close>

definition populate_nat_error :: "byte list \<Rightarrow> nat_entry \<Rightarrow> nat_type \<Rightarrow> byte list outcome" where
  "populate_nat_error packet ne ty = do {
     data_ip \<leftarrow> get_ip_hdr_from_icmp_data packet;
     let data_ip = (case ty of
         NAT_EXTERNAL \<Rightarrow> data_ip\<lparr>ip_dst := np_ip (ne_ext ne),
           ip_sum := nat_checksum (ip_sum data_ip) (np_checksum_ip (ne_ext ne)) (np_checksum_ip (ne_int ne))\<rparr>
       | NAT_INTERNAL \<Rightarrow> data_ip\<lparr>ip_src := np_ip (ne_int ne),
           ip_sum := nat_checksum (ip_sum data_ip) (np_checksum_ip (ne_int ne)) (np_checksum_ip (ne_ext ne))\<rparr>);
     ip \<leftarrow> get_ip_hdr packet;
     packet \<leftarrow> put_ip_hdr packet (ip\<lparr>ip_sum := 0\<rparr>);
     packet \<leftarrow> put_struct enc_ip packet (ETH_HDR_LEN + 20 + 8) data_ip;
     if ip_p data_ip = IP_PROTO_TCP \<or> ip_p data_ip = IP_PROTO_UDP
     then (case ty of
         NAT_EXTERNAL \<Rightarrow> mem_st packet (ETH_HDR_LEN + 20 + 8 + 20 + 2) (enc16 (np_port (ne_ext ne)))
       | NAT_INTERNAL \<Rightarrow> mem_st packet (ETH_HDR_LEN + 20 + 8 + 20) (enc16 (np_port (ne_int ne))))
     else if ip_p data_ip = IP_PROTO_ICMP then do {
       icmp_data \<leftarrow> get_icmp_hdr_from_icmp_data packet;
       if echo_type (nicmp_type icmp_data)
       then put_struct enc_nat_icmp packet (ETH_HDR_LEN + 20 + 8 + 20) (case ty of
           NAT_EXTERNAL \<Rightarrow> icmp_data\<lparr>nicmp_opt1 := np_port (ne_ext ne),
             nicmp_sum := nat_checksum (nicmp_sum icmp_data) (np_checksum_port (ne_ext ne)) (np_checksum_port (ne_int ne))\<rparr>
         | NAT_INTERNAL \<Rightarrow> icmp_data\<lparr>nicmp_opt1 := np_port (ne_int ne),
             nicmp_sum := nat_checksum (nicmp_sum icmp_data) (np_checksum_port (ne_int ne)) (np_checksum_port (ne_ext ne))\<rparr>)
       else Some packet }
     else Some packet }"

definition populate_nat_packet :: "byte list \<Rightarrow> nat_entry \<Rightarrow> nat_type \<Rightarrow> byte list outcome" where
  "populate_nat_packet packet ne ty = do {
     ip \<leftarrow> get_ip_hdr packet;
     packet \<leftarrow> put_ip_hdr packet (case ty of
         NAT_EXTERNAL \<Rightarrow> ip\<lparr>ip_src := np_ip (ne_ext ne)\<rparr>
       | NAT_INTERNAL \<Rightarrow> ip\<lparr>ip_dst := np_ip (ne_int ne)\<rparr>);
     if ip_p ip = IP_PROTO_TCP then do {
       tcp \<leftarrow> get_nat_tcp_hdr packet;
       put_nat_tcp_hdr packet (case ty of
           NAT_EXTERNAL \<Rightarrow> tcp\<lparr>tcp_sport := np_port (ne_ext ne)\<rparr>
         | NAT_INTERNAL \<Rightarrow> tcp\<lparr>tcp_dport := np_port (ne_int ne)\<rparr>) }
     else if ip_p ip = IP_PROTO_UDP then do {
       udp \<leftarrow> get_nat_udp_hdr packet;
       put_nat_udp_hdr packet (case ty of
           NAT_EXTERNAL \<Rightarrow> udp\<lparr>udp_sport := np_port (ne_ext ne)\<rparr>
         | NAT_INTERNAL \<Rightarrow> udp\<lparr>udp_dport := np_port (ne_int ne)\<rparr>) }
     else if ip_p ip = IP_PROTO_ICMP then do {
       icmp \<leftarrow> get_nat_icmp_hdr packet;
       if echo_type (nicmp_type icmp)
       then put_nat_icmp_hdr packet (icmp\<lparr>nicmp_opt1 := (case ty of
           NAT_EXTERNAL \<Rightarrow> np_port (ne_ext ne) | NAT_INTERNAL \<Rightarrow> np_port (ne_int ne))\<rparr>)
       else if error_type (nicmp_type icmp) then populate_nat_error packet ne ty
       else Some packet }
     else Some packet }"

text \<open>
  The checksum of the transport header after rewriting, with the pair of cached sums that is added and the one that is
  subtracted: the same code twice in the source, once per direction.
\<close>

definition fix_transport_sum :: "byte list \<Rightarrow> nat_ip_port_pair \<Rightarrow> nat_ip_port_pair \<Rightarrow> byte list outcome" where
  "fix_transport_sum packet pos neg = do {
     ip \<leftarrow> get_ip_hdr packet;
     if ip_p ip = IP_PROTO_TCP then do {
       tcp \<leftarrow> get_nat_tcp_hdr packet;
       put_nat_tcp_hdr packet (tcp\<lparr>tcp_sum := nat_checksum (tcp_sum tcp) (np_checksum pos) (np_checksum neg)\<rparr>) }
     else if ip_p ip = IP_PROTO_UDP then do {
       udp \<leftarrow> get_nat_udp_hdr packet;
       put_nat_udp_hdr packet (udp\<lparr>udp_sum := nat_checksum (udp_sum udp) (np_checksum pos) (np_checksum neg)\<rparr>) }
     else if ip_p ip = IP_PROTO_ICMP then do {
       icmp \<leftarrow> get_nat_icmp_hdr packet;
       if echo_type (nicmp_type icmp)
       then put_nat_icmp_hdr packet
              (icmp\<lparr>nicmp_sum := nat_checksum (nicmp_sum icmp) (np_checksum_port pos) (np_checksum_port neg)\<rparr>)
       else if error_type (nicmp_type icmp)
       then store_icmp_checksum packet (int (unat (ntohs (ip_len ip))) - (20 + 4))
       else Some packet }
     else Some packet }"

definition fix_ip_sum :: "byte list \<Rightarrow> u16 \<Rightarrow> u16 \<Rightarrow> byte list outcome" where
  "fix_ip_sum packet pos neg = do {
     ip \<leftarrow> get_ip_hdr packet;
     put_ip_hdr packet (ip\<lparr>ip_sum := nat_checksum (ip_sum ip) pos neg\<rparr>) }"

text \<open>A packet that arrives on the external interface.\<close>

definition process_nat_ext_packet :: "router_state \<Rightarrow> byte list \<Rightarrow> (byte list \<times> router_state) outcome" where
  "process_nat_ext_packet rs packet = do {
     found \<leftarrow> get_nat_table_entry rs packet NAT_EXTERNAL;
     (case found of
        None \<Rightarrow> Some (packet, rs)
      | Some i \<Rightarrow> do {
          let rs = hit i rs;
          let ne = nat_table rs ! i;
          packet \<leftarrow> populate_nat_packet packet ne NAT_INTERNAL;
          packet \<leftarrow> fix_transport_sum packet (ne_int ne) (ne_ext ne);
          packet \<leftarrow> fix_ip_sum packet (np_checksum_ip (ne_int ne)) (np_checksum (ne_ext ne));
          Some (packet, rs) }) }"

text \<open>A packet that leaves through it; for other protocols \<open>ne\<close> is still \<open>NULL\<close> when its hits are counted.\<close>

definition process_nat_int_packet ::
  "router_state \<Rightarrow> byte list \<Rightarrow> u32 \<Rightarrow> (byte list \<times> router_state) outcome" where
  "process_nat_int_packet rs packet ext_ip = do {
     ip \<leftarrow> get_ip_hdr packet;
     if ip_p ip = IP_PROTO_TCP \<or> ip_p ip = IP_PROTO_UDP \<or> ip_p ip = IP_PROTO_ICMP then do {
       found \<leftarrow> get_nat_table_entry rs packet NAT_INTERNAL;
       (i, rs) \<leftarrow> (case found of Some i \<Rightarrow> Some (i, rs) | None \<Rightarrow> create_nat_table_entry rs packet ext_ip);
       packet \<leftarrow> populate_nat_packet packet (nat_table rs ! i) NAT_EXTERNAL;
       let rs = hit i rs;
       let ne = nat_table rs ! i;
       packet \<leftarrow> fix_transport_sum packet (ne_ext ne) (ne_int ne);
       packet \<leftarrow> fix_ip_sum packet (np_checksum_ip (ne_ext ne)) (np_checksum (ne_int ne));
       Some (packet, rs) }
     else None }"

section \<open>Arithmetic modulo 65535\<close>

text \<open>\<open>host16\<close> is the value of a 16-bit field in network byte order, \<open>cong\<close> equality of checksums.\<close>

definition host16 :: "u16 \<Rightarrow> int" where
  "host16 w = int (unat (ntohs w))"

definition cong :: "int \<Rightarrow> int \<Rightarrow> bool" where
  "cong a b \<longleftrightarrow> a mod 65535 = b mod 65535"

lemma cong_refl [simp]: "cong a a" and cong_sym: "cong a b \<Longrightarrow> cong b a"
  and cong_trans: "cong a b \<Longrightarrow> cong b c \<Longrightarrow> cong a c"
  by (simp_all add: cong_def)

lemma cong_add: "cong a b \<Longrightarrow> cong c d \<Longrightarrow> cong (a + c) (b + d)"
  unfolding cong_def by (rule mod_add_cong)

lemma cong_diff: "cong a b \<Longrightarrow> cong c d \<Longrightarrow> cong (a - c) (b - d)"
  unfolding cong_def by (rule mod_diff_cong)

lemma cong_mult: "cong a b \<Longrightarrow> cong (k * a) (k * b)"
  unfolding cong_def by (rule mod_mult_cong) simp

lemma cong_shift: "a = b + 65535 * k \<Longrightarrow> cong a b"
  by (simp add: cong_def)

lemma unat_ucast_u16 [simp]: "unat (ucast (w::u16) :: u32) = unat w"
proof -
  have "unat w < 2 ^ LENGTH(32)" using unat_u16_less[of w] by (rule less_le_trans) simp
  then show ?thesis by (simp only: unsigned_ucast_eq take_bit_nat_eq_self)
qed

lemma nat_checksum_unat:
  "let s = unat old + unat pos; f = s div 65536 + s mod 65536
   in unat (nat_checksum old pos neg) = (if unat neg \<le> f then f - unat neg else f + 65535 - unat neg)"
proof -
  define s where "s = unat old + unat pos"
  define f where "f = s div 65536 + s mod 65536"
  have s: "s \<le> 131070" using unat_u16_less[of old] unat_u16_less[of pos] unfolding s_def by linarith
  have f: "f \<le> 65535"
  proof -
    have "s = 65536 * (s div 65536) + s mod 65536" "s mod 65536 < 65536" by simp_all
    moreover have "s div 65536 < 2" using s by (intro less_mult_imp_div_less) simp
    ultimately show ?thesis using s unfolding f_def by linarith
  qed
  define w where "w = (ucast old + ucast pos :: u32)"
  have w: "unat w = s"
    using s by (simp add: w_def s_def unat_word_ariths)
  define v where "v = drop_bit 16 w + (w AND 0xFFFF)"
  have v: "unat v = f"
    using f by (simp add: v_def f_def unat_word_ariths unat_low16 unat_drop16 w)
  define n where "n = (ucast neg :: u32)"
  have n: "unat n = unat neg" by (simp add: n_def)
  have neg: "unat neg \<le> 65535" using unat_u16_less[of neg] by linarith
  have def: "nat_checksum old pos neg = ucast ((if v - n > 0xFFFF then v - n - 1 else v - n) AND 0xFFFF)"
    by (simp add: nat_checksum_def Let_def w_def v_def n_def)
  have low: "unat (ucast (x AND 0xFFFF :: u32) :: u16) = unat x mod 65536" for x
    by (simp add: unsigned_ucast_eq unat_low16 take_bit_eq_mod)
  show ?thesis
  proof (cases "unat neg \<le> f")
    case True
    then have "n \<le> v" using v n by (simp add: word_le_nat_alt)
    then have vn: "unat (v - n) = f - unat neg" using v n by (simp add: unat_sub)
    then have "\<not> v - n > 0xFFFF" using f by (simp add: word_less_nat_alt)
    with vn f True show ?thesis unfolding def low Let_def s_def[symmetric] f_def[symmetric] by (simp add: low)
  next
    case False
    then have "\<not> n \<le> v" using v n by (simp add: word_le_nat_alt)
    then have vn: "unat (v - n) = 4294967296 + f - unat neg"
      using v n by (simp add: unat_sub_if_size word_size word_le_nat_alt)
    then have gt: "v - n > 0xFFFF" using neg by (simp add: word_less_nat_alt)
    have "unat (v - n - 1) = unat (v - n) - 1"
      using gt by (intro unat_minus_one) auto
    then have "unat (v - n - 1) = (f + 65535 - unat neg) + 65536 * 65535"
      using vn neg by linarith
    moreover have "f + 65535 - unat neg < 65536" using False by linarith
    ultimately have "unat (v - n - 1) mod 65536 = f + 65535 - unat neg" by (simp only: mod_mult_self2 mod_less)
    with gt False show ?thesis unfolding def Let_def s_def[symmetric] f_def[symmetric] by (simp add: low)
  qed
qed

lemma nat_checksum_cong: "cong (int (unat (nat_checksum old pos neg))) (int (unat old) + int (unat pos) - int (unat neg))"
proof -
  define s where "s = unat old + unat pos"
  define f where "f = s div 65536 + s mod 65536"
  have "unat (nat_checksum old pos neg) = (if unat neg \<le> f then f - unat neg else f + 65535 - unat neg)"
    using nat_checksum_unat[of old pos neg] by (simp add: Let_def s_def f_def)
  then have "int (unat (nat_checksum old pos neg)) =
      int f - int (unat neg) + 65535 * (if unat neg \<le> f then 0 else 1)"
    using unat_u16_less[of neg] by (simp only: split: if_split) linarith
  then have c: "cong (int (unat (nat_checksum old pos neg))) (int f - int (unat neg))"
    by (rule cong_shift)
  have "cong (int f) (int s)"
  proof (rule cong_sym, rule cong_shift)
    have "s = 65536 * (s div 65536) + s mod 65536" by simp
    then have "s = f + 65535 * (s div 65536)" unfolding f_def by linarith
    from arg_cong[OF this, of int] show "int s = int f + 65535 * int (s div 65536)"
      by (simp only: of_nat_add of_nat_mult of_nat_numeral)
  qed
  from cong_trans[OF c cong_diff[OF this cong_refl]] show ?thesis by (simp only: s_def of_nat_add)
qed

lemma host16_cong: "cong (host16 w) (256 * int (unat w))"
proof -
  obtain a b where w: "w = le16 a b" by (metis le16_byteN)
  show ?thesis
    unfolding host16_def w unat_htons_le16 unat_le16
    by (rule cong_sym, rule cong_shift[where k = "int (unat b)"]) simp
qed

lemma host16_nat_checksum: "cong (host16 (nat_checksum old pos neg)) (host16 old + host16 pos - host16 neg)"
proof -
  have "cong (host16 (nat_checksum old pos neg)) (256 * (int (unat old) + int (unat pos) - int (unat neg)))"
    using host16_cong cong_mult[OF nat_checksum_cong] by (rule cong_trans)
  also have "256 * (int (unat old) + int (unat pos) - int (unat neg)) =
      256 * int (unat old) + 256 * int (unat pos) - 256 * int (unat neg)" by (simp add: algebra_simps)
  finally show ?thesis
    by (rule cong_trans) (intro cong_sym[OF cong_diff] cong_add host16_cong)
qed


section \<open>The cached sums\<close>

definition ip_words :: "u32 \<Rightarrow> int" where
  "ip_words ip = host16 (ucast ip) + host16 (ucast (drop_bit 16 ip))"

definition sums_ok :: "nat_ip_port_pair \<Rightarrow> bool" where
  "sums_ok pair \<longleftrightarrow> pair = compute_nat_checksums pair"

lemma compute_nat_checksums_ok: "sums_ok (compute_nat_checksums pair)"
  by (simp add: sums_ok_def compute_nat_checksums_def Let_def)

lemma complement_cong:
  fixes acc :: u32
  assumes "unat acc < 65536 * 65536"
  shows "cong (host16 (htons (ones_complement acc))) (- int (unat acc))"
proof -
  have "unat (ones_complement acc) = 65535 - residue (unat acc)"
    using assms by (intro unat_ones_complement) simp_all
  moreover obtain k where k: "unat acc = residue (unat acc) + 65535 * k" using residue_dvd by blast
  moreover from arg_cong[OF k, of int] have "int (unat acc) = int (residue (unat acc)) + 65535 * int k"
    by (simp only: of_nat_add of_nat_mult of_nat_numeral)
  ultimately have "int (unat (ones_complement acc)) = - int (unat acc) + 65535 * (int k + 1)"
    using residue_le[of "unat acc"] by (simp only: of_nat_diff of_nat_numeral) (simp add: algebra_simps)
  then have "cong (int (unat (ones_complement acc))) (- int (unat acc))" by (rule cong_shift)
  then show ?thesis by (simp only: host16_def htons_htons)
qed

lemma sums_cong:
  assumes "sums_ok pair"
  shows "cong (host16 (np_checksum pair)) (- (ip_words (np_ip pair) + host16 (np_port pair)))"
    and "cong (host16 (np_checksum_ip pair)) (- ip_words (np_ip pair))"
    and "cong (host16 (np_checksum_port pair)) (- host16 (np_port pair))"
proof -
  let ?s0 = "ucast (ntohs (ucast (np_ip pair))) :: u32"
  let ?s1 = "ucast (ntohs (ucast (drop_bit 16 (np_ip pair)))) :: u32"
  let ?p = "ucast (ntohs (np_port pair)) :: u32"
  have b: "unat ?s0 \<le> 65535" "unat ?s1 \<le> 65535" "unat ?p \<le> 65535"
    by (simp_all only: unat_ucast_u16 less_Suc_eq_le[symmetric]) (simp_all add: unat_u16_less[simplified])
  have s2: "unat (?s0 + ?s1) = unat ?s0 + unat ?s1" by (rule unat_add_lem[THEN iffD1]) (use b in simp)
  have s3: "unat (?s0 + ?s1 + ?p) = unat ?s0 + unat ?s1 + unat ?p"
    by (subst unat_add_lem[THEN iffD1]) (use b s2 in simp_all)
  from assms have c: "np_checksum pair = htons (ones_complement (?s0 + ?s1 + ?p))"
    "np_checksum_ip pair = htons (ones_complement (?s0 + ?s1))" "np_checksum_port pair = NOT (np_port pair)"
    using arg_cong[OF assms[unfolded sums_ok_def], of np_checksum]
      arg_cong[OF assms[unfolded sums_ok_def], of np_checksum_ip]
      arg_cong[OF assms[unfolded sums_ok_def], of np_checksum_port]
    by (simp_all add: compute_nat_checksums_def Let_def)
  have "cong (host16 (np_checksum pair)) (- int (unat (?s0 + ?s1 + ?p)))"
    unfolding c by (rule complement_cong) (use s3 b in simp)
  then show "cong (host16 (np_checksum pair)) (- (ip_words (np_ip pair) + host16 (np_port pair)))"
    by (simp only: s3 ip_words_def host16_def unat_ucast_u16 of_nat_add)
  have "cong (host16 (np_checksum_ip pair)) (- int (unat (?s0 + ?s1)))"
    unfolding c by (rule complement_cong) (use s2 b in simp)
  then show "cong (host16 (np_checksum_ip pair)) (- ip_words (np_ip pair))"
    by (simp only: s2 ip_words_def host16_def unat_ucast_u16 of_nat_add)
  have "int (unat (NOT (np_port pair))) = - int (unat (np_port pair)) + 65535 * 1"
    unfolding unat_not16 using unat_u16_less[of "np_port pair"] by linarith
  then have "cong (256 * int (unat (NOT (np_port pair)))) (256 * (- int (unat (np_port pair))))"
    by (intro cong_mult cong_shift)
  from cong_trans[OF cong_trans[OF host16_cong this]] show "cong (host16 (np_checksum_port pair)) (- host16 (np_port pair))"
    unfolding c using cong_mult[OF cong_sym[OF host16_cong], of "-1" "np_port pair"] by simp
qed

section \<open>Sums under stores\<close>

lemma nat_sum_store:
  assumes "mem_st p (off + 2 * c) (enc16 x) = Some q" and "c < k" and "off + 2 * k \<le> length p"
  shows "int (nat_sum (\<lambda>j. True) q off 0 k) =
    int (nat_sum (\<lambda>j. True) p off 0 k) - int (be16 p (off + 2 * c)) + host16 x"
proof -
  have o: "nat_sum (\<lambda>j. j \<noteq> c) q off 0 k = nat_sum (\<lambda>j. j \<noteq> c) p off 0 k"
    by (rule nat_sum_cong) (use assms in \<open>auto intro!: be16_mem_st_other\<close>)
  have "int (be16 q (off + 2 * c)) = host16 x"
    using be16_mem_st_same[of p "off + 2 * c" "htons x" q] assms(1) by (simp add: host16_def)
  with o nat_sum_split_at[of 0 c k q off] nat_sum_split_at[of 0 c k p off] assms(2) show ?thesis by simp
qed

lemma nat_sum_store_before:
  "mem_st p a (enc16 x) = Some q \<Longrightarrow> a + 2 \<le> off \<Longrightarrow> off + 2 * k \<le> length p \<Longrightarrow>
   nat_sum (\<lambda>j. True) q off 0 k = nat_sum (\<lambda>j. True) p off 0 k"
  by (rule nat_sum_cong) (auto intro!: be16_mem_st_other)

lemma enc32_split: "enc32 v = enc16 (ucast v) @ enc16 (ucast (drop_bit 16 v))"
  by (simp add: enc32_def enc16_def byteN_def) (auto intro!: bit_word_eqI simp: bit_simps)

lemma mem_st_enc32:
  "mem_st p a (enc32 v) = do { q \<leftarrow> mem_st p a (enc16 (ucast v)); mem_st q (a + 2) (enc16 (ucast (drop_bit 16 v))) }"
  by (auto simp: enc32_split mem_st_def min_def eval_nat_numeral)

abbreviation wsum :: "byte list \<Rightarrow> nat \<Rightarrow> nat \<Rightarrow> nat" where
  "wsum p off k \<equiv> nat_sum (\<lambda>j. True) p off 0 k"

lemma wsum_store32:
  assumes "mem_st p (off + 2 * c) (enc32 v) = Some q" and "Suc c < k" and "off + 2 * k \<le> length p"
  shows "int (wsum q off k) =
    int (wsum p off k) - int (be16 p (off + 2 * c)) - int (be16 p (off + 2 * Suc c)) + ip_words v"
proof -
  obtain r where r: "mem_st p (off + 2 * c) (enc16 (ucast v)) = Some r"
    "mem_st r (off + 2 * Suc c) (enc16 (ucast (drop_bit 16 v))) = Some q"
    using assms(1) by (auto simp: mem_st_enc32 split: bind_splits)
  have l: "length r = length p" using mem_st_length[OF r(1)] .
  have "be16 r (off + 2 * Suc c) = be16 p (off + 2 * Suc c)"
    by (rule be16_mem_st_other[OF r(1)]) (use assms in auto)
  with nat_sum_store[OF r(1), of k] nat_sum_store[OF r(2), of k] assms l show ?thesis
    by (simp add: ip_words_def)
qed

lemma rewrite_preserves_sum:
  assumes p1: "mem_st p (off + 2 * i) (enc32 nip) = Some p1"
    and p2: "mem_st p1 (off + 2 * j) (enc16 nport) = Some p2"
    and p3: "mem_st p2 (off + 2 * m) (enc16 (nat_checksum old cp cn)) = Some p3"
    and idx: "Suc i < j" "j < k" "Suc i < m" "m < k" "j \<noteq> m" "off + 2 * k \<le> length p"
    and old_ip: "int (be16 p (off + 2 * i)) + int (be16 p (off + 2 * Suc i)) = ip_words oip"
    and old_port: "int (be16 p (off + 2 * j)) = host16 oport"
    and old_sum: "int (be16 p (off + 2 * m)) = host16 old"
    and cp: "cong (host16 cp) (- (ip_words nip + host16 nport))"
    and cn: "cong (host16 cn) (- (ip_words oip + host16 oport))"
  shows "cong (int (wsum p3 off k)) (int (wsum p off k))"
proof -
  have l: "length p1 = length p" "length p2 = length p" using mem_st_length[OF p1] mem_st_length[OF p2] by simp_all
  have b1: "be16 p1 (off + 2 * n) = be16 p (off + 2 * n)" if "Suc i < n" "n < k" for n
  proof -
    obtain r where r: "mem_st p (off + 2 * i) (enc16 (ucast nip)) = Some r"
      "mem_st r (off + 2 * i + 2) (enc16 (ucast (drop_bit 16 nip))) = Some p1"
      using p1 by (auto simp: mem_st_enc32 split: bind_splits)
    have "be16 p1 (off + 2 * n) = be16 r (off + 2 * n)"
      by (rule be16_mem_st_other[OF r(2)]) (use that idx mem_st_length[OF r(1)] in auto)
    also have "\<dots> = be16 p (off + 2 * n)"
      by (rule be16_mem_st_other[OF r(1)]) (use that idx in auto)
    finally show ?thesis .
  qed
  have bj: "int (be16 p1 (off + 2 * j)) = host16 oport" using b1[OF idx(1,2)] old_port by simp
  have "be16 p2 (off + 2 * m) = be16 p1 (off + 2 * m)"
    by (rule be16_mem_st_other[OF p2]) (use idx l in auto)
  then have bm: "int (be16 p2 (off + 2 * m)) = host16 old"
    using b1[OF idx(3,4)] old_sum by simp
  have "int (wsum p3 off k) = int (wsum p2 off k) - host16 old + host16 (nat_checksum old cp cn)"
    using nat_sum_store[OF p3, of k] idx l bm by simp
  moreover have "int (wsum p2 off k) = int (wsum p1 off k) - host16 oport + host16 nport"
    using nat_sum_store[OF p2, of k] idx l bj by simp
  moreover have "int (wsum p1 off k) = int (wsum p off k) - ip_words oip + ip_words nip"
    using wsum_store32[OF p1, of k] idx old_ip by simp
  ultimately have e: "int (wsum p3 off k) = (int (wsum p off k) - ip_words oip + ip_words nip - host16 oport + host16 nport
      - host16 old) + host16 (nat_checksum old cp cn)" by simp
  have "cong (host16 (nat_checksum old cp cn))
      (host16 old + - (ip_words nip + host16 nport) - - (ip_words oip + host16 oport))"
    by (rule cong_trans[OF host16_nat_checksum]) (intro cong_add cong_diff cong_refl cp cn)
  from cong_add[OF cong_refl this, of "int (wsum p off k) - ip_words oip + ip_words nip - host16 oport + host16 nport - host16 old"]
  show ?thesis unfolding e by (simp add: algebra_simps)
qed

lemma ip_words_le32: "ip_words (le32 a b c d) = int (256 * unat a + unat b) + int (256 * unat c + unat d)"
proof -
  have "ucast (le32 a b c d) = le16 a b" "ucast (drop_bit 16 (le32 a b c d)) = le16 c d"
    by (rule bit_word_eqI, auto simp: le32_def le16_def bit_simps dest: bit_imp_le_length)+
  then show ?thesis by (simp only: ip_words_def host16_def unat_htons_le16)
qed

lemma host16_le16: "host16 (le16 a b) = int (256 * unat a + unat b)"
  by (simp only: host16_def unat_htons_le16)

lemma put_ip_addr:
  assumes "get_ip_hdr p = Some h"
  shows "put_ip_hdr p (h\<lparr>ip_src := x\<rparr>) = mem_st p 26 (enc32 x)" "put_ip_hdr p (h\<lparr>ip_dst := x\<rparr>) = mem_st p 30 (enc32 x)"
proof -
  have "put_struct enc_ip p 14 (h\<lparr>ip_src := x\<rparr>) = mem_st p (14 + 12) (enc32 x)"
    by (rule ip_wire.put_field) (use assms in \<open>simp_all add: get_ip_hdr_def enc_ip_def codec\<close>)
  then show "put_ip_hdr p (h\<lparr>ip_src := x\<rparr>) = mem_st p 26 (enc32 x)" by (simp add: put_ip_hdr_def)
  have "put_struct enc_ip p 14 (h\<lparr>ip_dst := x\<rparr>) = mem_st p (14 + 16) (enc32 x)"
    by (rule ip_wire.put_field) (use assms in \<open>simp_all add: get_ip_hdr_def enc_ip_def codec\<close>)
  then show "put_ip_hdr p (h\<lparr>ip_dst := x\<rparr>) = mem_st p 30 (enc32 x)" by (simp add: put_ip_hdr_def)
qed

lemma put_tcp_field:
  assumes "get_nat_tcp_hdr p = Some h"
  shows "put_nat_tcp_hdr p (h\<lparr>tcp_sport := x\<rparr>) = mem_st p 34 (enc16 x)"
    "put_nat_tcp_hdr p (h\<lparr>tcp_dport := x\<rparr>) = mem_st p 36 (enc16 x)"
    "put_nat_tcp_hdr p (h\<lparr>tcp_sum := x\<rparr>) = mem_st p 50 (enc16 x)"
proof -
  have g: "get_struct dec_nat_tcp 20 p 34 = Some h" using assms by (simp add: get_nat_tcp_hdr_def)
  have "put_struct enc_nat_tcp p 34 (h\<lparr>tcp_sport := x\<rparr>) = mem_st p (34 + 0) (enc16 x)"
    by (rule nat_tcp_wire.put_field[OF g]) (simp_all add: enc_nat_tcp_def codec)
  then show "put_nat_tcp_hdr p (h\<lparr>tcp_sport := x\<rparr>) = mem_st p 34 (enc16 x)" by (simp add: put_nat_tcp_hdr_def)
  have "put_struct enc_nat_tcp p 34 (h\<lparr>tcp_dport := x\<rparr>) = mem_st p (34 + 2) (enc16 x)"
    by (rule nat_tcp_wire.put_field[OF g]) (simp_all add: enc_nat_tcp_def codec)
  then show "put_nat_tcp_hdr p (h\<lparr>tcp_dport := x\<rparr>) = mem_st p 36 (enc16 x)" by (simp add: put_nat_tcp_hdr_def)
  have "put_struct enc_nat_tcp p 34 (h\<lparr>tcp_sum := x\<rparr>) = mem_st p (34 + 16) (enc16 x)"
    by (rule nat_tcp_wire.put_field[OF g]) (simp_all add: enc_nat_tcp_def codec)
  then show "put_nat_tcp_hdr p (h\<lparr>tcp_sum := x\<rparr>) = mem_st p 50 (enc16 x)" by (simp add: put_nat_tcp_hdr_def)
qed

lemma put_udp_field:
  assumes "get_nat_udp_hdr p = Some h"
  shows "put_nat_udp_hdr p (h\<lparr>udp_sport := x\<rparr>) = mem_st p 34 (enc16 x)"
    "put_nat_udp_hdr p (h\<lparr>udp_dport := x\<rparr>) = mem_st p 36 (enc16 x)"
    "put_nat_udp_hdr p (h\<lparr>udp_sum := x\<rparr>) = mem_st p 40 (enc16 x)"
proof -
  have g: "get_struct dec_nat_udp 8 p 34 = Some h" using assms by (simp add: get_nat_udp_hdr_def)
  have "put_struct enc_nat_udp p 34 (h\<lparr>udp_sport := x\<rparr>) = mem_st p (34 + 0) (enc16 x)"
    by (rule nat_udp_wire.put_field[OF g]) (simp_all add: enc_nat_udp_def codec)
  then show "put_nat_udp_hdr p (h\<lparr>udp_sport := x\<rparr>) = mem_st p 34 (enc16 x)" by (simp add: put_nat_udp_hdr_def)
  have "put_struct enc_nat_udp p 34 (h\<lparr>udp_dport := x\<rparr>) = mem_st p (34 + 2) (enc16 x)"
    by (rule nat_udp_wire.put_field[OF g]) (simp_all add: enc_nat_udp_def codec)
  then show "put_nat_udp_hdr p (h\<lparr>udp_dport := x\<rparr>) = mem_st p 36 (enc16 x)" by (simp add: put_nat_udp_hdr_def)
  have "put_struct enc_nat_udp p 34 (h\<lparr>udp_sum := x\<rparr>) = mem_st p (34 + 6) (enc16 x)"
    by (rule nat_udp_wire.put_field[OF g]) (simp_all add: enc_nat_udp_def codec)
  then show "put_nat_udp_hdr p (h\<lparr>udp_sum := x\<rparr>) = mem_st p 40 (enc16 x)" by (simp add: put_nat_udp_hdr_def)
qed

lemma nat_get_put [wire]:
  "put_ip_hdr p h = Some q \<Longrightarrow> get_nat_tcp_hdr q = get_nat_tcp_hdr p"
  "put_ip_hdr p h = Some q \<Longrightarrow> get_nat_udp_hdr q = get_nat_udp_hdr p"
  "put_ip_hdr p h = Some q \<Longrightarrow> get_nat_icmp_hdr q = get_nat_icmp_hdr p"
  "put_nat_tcp_hdr p t = Some q \<Longrightarrow> get_ip_hdr q = get_ip_hdr p"
  "put_nat_udp_hdr p u = Some q \<Longrightarrow> get_ip_hdr q = get_ip_hdr p"
  "put_nat_icmp_hdr p i = Some q \<Longrightarrow> get_ip_hdr q = get_ip_hdr p"
  "put_nat_tcp_hdr p t = Some q \<Longrightarrow> get_nat_tcp_hdr q = Some t"
  "put_nat_udp_hdr p u = Some q \<Longrightarrow> get_nat_udp_hdr q = Some u"
  "put_nat_icmp_hdr p i = Some q \<Longrightarrow> get_nat_icmp_hdr q = Some i"
  unfolding hdr_defs get_nat_tcp_hdr_def put_nat_tcp_hdr_def get_nat_udp_hdr_def put_nat_udp_hdr_def
    get_nat_icmp_hdr_def put_nat_icmp_hdr_def
  by (auto intro: ip_wire.get_put_other nat_tcp_wire.get_put_other nat_udp_wire.get_put_other
      nat_icmp_wire.get_put_other nat_tcp_wire.get_put nat_udp_wire.get_put nat_icmp_wire.get_put)

section \<open>Translating a packet\<close>

text \<open>The side of an entry that a direction writes into the packet, and the one it replaces.\<close>

definition new_side :: "nat_type \<Rightarrow> nat_entry \<Rightarrow> nat_ip_port_pair" where
  "new_side ty ne = (case ty of NAT_EXTERNAL \<Rightarrow> ne_ext ne | NAT_INTERNAL \<Rightarrow> ne_int ne)"

definition old_side :: "nat_type \<Rightarrow> nat_entry \<Rightarrow> nat_ip_port_pair" where
  "old_side ty ne = (case ty of NAT_EXTERNAL \<Rightarrow> ne_int ne | NAT_INTERNAL \<Rightarrow> ne_ext ne)"

text \<open>Where the rewritten address, the rewritten port and the transport checksum lie, in words from byte 26.\<close>

definition addr_word :: "nat_type \<Rightarrow> nat" where "addr_word ty = (case ty of NAT_EXTERNAL \<Rightarrow> 0 | NAT_INTERNAL \<Rightarrow> 2)"

definition port_word :: "nat_type \<Rightarrow> nat" where "port_word ty = (case ty of NAT_EXTERNAL \<Rightarrow> 4 | NAT_INTERNAL \<Rightarrow> 5)"

definition sum_word :: "byte \<Rightarrow> nat" where "sum_word proto = (if proto = IP_PROTO_TCP then 12 else 7)"

text \<open>The address and port of a TCP or UDP packet that a direction looks up, and its checksum.\<close>

definition packet_pair :: "nat_type \<Rightarrow> byte list \<Rightarrow> int \<times> int" where
  "packet_pair ty p = (let a = 26 + 2 * addr_word ty in
     (int (be16 p a) + int (be16 p (a + 2)), int (be16 p (26 + 2 * port_word ty))))"

lemma ip_addr_words:
  assumes "get_ip_hdr p = Some ip"
  shows "int (be16 p 26) + int (be16 p 28) = ip_words (ip_src ip)" "int (be16 p 30) + int (be16 p 32) = ip_words (ip_dst ip)"
proof -
  have l: "34 \<le> length p" using assms get_ip_None_iff[of p] by (cases "length p < 34") auto
  then have "ip = dec_ip (take 20 (drop 14 p))" using assms by (simp add: get_ip_hdr_def get_struct_def mem_ld_def)
  with l show "int (be16 p 26) + int (be16 p 28) = ip_words (ip_src ip)"
    "int (be16 p 30) + int (be16 p 32) = ip_words (ip_dst ip)"
    by (simp_all add: dec_ip_def le32_at_def ip_words_le32 be16_def)
qed

lemma tcp_words:
  assumes "get_nat_tcp_hdr p = Some h"
  shows "int (be16 p 34) = host16 (tcp_sport h)" "int (be16 p 36) = host16 (tcp_dport h)" "int (be16 p 50) = host16 (tcp_sum h)"
proof -
  have l: "54 \<le> length p" using nat_tcp_wire.get_SomeD[of p 34 h] assms by (simp add: get_nat_tcp_hdr_def)
  then have "h = dec_nat_tcp (take 20 (drop 34 p))" using assms by (simp add: get_nat_tcp_hdr_def get_struct_def mem_ld_def)
  with l show "int (be16 p 34) = host16 (tcp_sport h)" "int (be16 p 36) = host16 (tcp_dport h)"
    "int (be16 p 50) = host16 (tcp_sum h)"
    by (simp_all add: dec_nat_tcp_def le16_at_def host16_le16 be16_def)
qed

lemma udp_words:
  assumes "get_nat_udp_hdr p = Some h"
  shows "int (be16 p 34) = host16 (udp_sport h)" "int (be16 p 36) = host16 (udp_dport h)" "int (be16 p 40) = host16 (udp_sum h)"
proof -
  have l: "42 \<le> length p" using nat_udp_wire.get_SomeD[of p 34 h] assms by (simp add: get_nat_udp_hdr_def)
  then have "h = dec_nat_udp (take 8 (drop 34 p))" using assms by (simp add: get_nat_udp_hdr_def get_struct_def mem_ld_def)
  with l show "int (be16 p 34) = host16 (udp_sport h)" "int (be16 p 36) = host16 (udp_dport h)"
    "int (be16 p 40) = host16 (udp_sum h)"
    by (simp_all add: dec_nat_udp_def le16_at_def host16_le16 be16_def)
qed

text \<open>A translation of a TCP or UDP packet is four stores.\<close>

definition nat_stores :: "nat_type \<Rightarrow> nat_entry \<Rightarrow> byte \<Rightarrow> byte list \<Rightarrow> byte list \<Rightarrow> bool" where
  "nat_stores ty ne proto p q \<longleftrightarrow> (\<exists>p1 p2 p3 old x.
     mem_st p (26 + 2 * addr_word ty) (enc32 (np_ip (new_side ty ne))) = Some p1 \<and>
     mem_st p1 (26 + 2 * port_word ty) (enc16 (np_port (new_side ty ne))) = Some p2 \<and>
     mem_st p2 (26 + 2 * sum_word proto)
       (enc16 (nat_checksum old (np_checksum (new_side ty ne)) (np_checksum (old_side ty ne)))) = Some p3 \<and>
     mem_st p3 24 (enc16 x) = Some q \<and> int (be16 p (26 + 2 * sum_word proto)) = host16 old)"

lemmas nat_side_defs = new_side_def old_side_def addr_word_def port_word_def sum_word_def

definition set_addr :: "nat_type \<Rightarrow> u32 \<Rightarrow> ip_hdr \<Rightarrow> ip_hdr" where
  "set_addr ty a ip = (case ty of NAT_EXTERNAL \<Rightarrow> ip\<lparr>ip_src := a\<rparr> | NAT_INTERNAL \<Rightarrow> ip\<lparr>ip_dst := a\<rparr>)"

lemma set_addr_p [simp]: "ip_p (set_addr ty a ip) = ip_p ip"
  by (simp add: set_addr_def split: nat_type.split)

lemma put_set_addr:
  "get_ip_hdr p = Some ip \<Longrightarrow> put_ip_hdr p (set_addr ty a ip) = mem_st p (26 + 2 * addr_word ty) (enc32 a)"
  by (cases ty) (simp_all add: set_addr_def addr_word_def put_ip_addr)

lemma populate_nat_packet_addr:
  assumes "get_ip_hdr p = Some ip" and "populate_nat_packet p ne ty = Some q"
  obtains p1 where "put_ip_hdr p (set_addr ty (np_ip (new_side ty ne)) ip) = Some p1"
    "get_ip_hdr p1 = Some (set_addr ty (np_ip (new_side ty ne)) ip)"
proof -
  from assms obtain p1 where "put_ip_hdr p (set_addr ty (np_ip (new_side ty ne)) ip) = Some p1"
    by (cases ty) (auto simp: populate_nat_packet_def set_addr_def new_side_def split: bind_splits)
  with get_ip_put_ip that show thesis by blast
qed

lemma nat_stores_tcp:
  assumes ip: "get_ip_hdr p = Some ip" and proto: "ip_p ip = IP_PROTO_TCP"
    and q1: "populate_nat_packet p ne ty = Some q1"
    and q2: "fix_transport_sum q1 (new_side ty ne) (old_side ty ne) = Some q2" and q3: "fix_ip_sum q2 a b = Some q3"
  shows "nat_stores ty ne (ip_p ip) p q3"
proof -
  let ?n = "new_side ty ne" and ?o = "old_side ty ne"
  obtain p1 where p1: "put_ip_hdr p (set_addr ty (np_ip ?n) ip) = Some p1" and ip1: "get_ip_hdr p1 = Some (set_addr ty (np_ip ?n) ip)"
    using populate_nat_packet_addr[OF ip q1] .
  define h :: "nat_tcp_hdr \<Rightarrow> nat_tcp_hdr" where "h = (\<lambda>t. case ty of NAT_EXTERNAL \<Rightarrow> t\<lparr>tcp_sport := np_port ?n\<rparr> | NAT_INTERNAL \<Rightarrow> t\<lparr>tcp_dport := np_port ?n\<rparr>)"
  from q1 ip proto p1 obtain tcp where tcp: "get_nat_tcp_hdr p1 = Some tcp" and put1: "put_nat_tcp_hdr p1 (h tcp) = Some q1"
    by (cases ty) (auto simp: populate_nat_packet_def set_addr_def new_side_def h_def split: bind_splits)
  have tq: "get_nat_tcp_hdr q1 = Some (h tcp)" and iq: "get_ip_hdr q1 = Some (set_addr ty (np_ip ?n) ip)"
    using nat_get_put(7)[OF put1] nat_get_put(4)[OF put1] ip1 by simp_all
  have hs: "tcp_sum (h tcp) = tcp_sum tcp" by (simp add: h_def split: nat_type.split)
  have s1: "mem_st p1 (26 + 2 * port_word ty) (enc16 (np_port ?n)) = Some q1"
    using put1 put_tcp_field[OF tcp] by (cases ty) (simp_all add: h_def port_word_def)
  have s2: "mem_st q1 50 (enc16 (nat_checksum (tcp_sum tcp) (np_checksum ?n) (np_checksum ?o))) = Some q2"
    using q2 iq tq proto hs put_tcp_field(3)[OF tq] by (simp add: fix_transport_sum_def)
  from q3 obtain i2 where "get_ip_hdr q2 = Some i2" "put_ip_hdr q2 (i2\<lparr>ip_sum := nat_checksum (ip_sum i2) a b\<rparr>) = Some q3"
    by (auto simp: fix_ip_sum_def split: bind_splits)
  with put_ip_sum have s3: "mem_st q2 24 (enc16 (nat_checksum (ip_sum i2) a b)) = Some q3" by metis
  have "get_nat_tcp_hdr p = Some tcp" using nat_get_put(1)[OF p1] tcp by simp
  from tcp_words(3)[OF this] p1 put_set_addr[OF ip] s1 s2 s3 proto show ?thesis
    unfolding nat_stores_def by (auto simp: sum_word_def)
qed

lemma nat_stores_udp:
  assumes ip: "get_ip_hdr p = Some ip" and proto: "ip_p ip = IP_PROTO_UDP"
    and q1: "populate_nat_packet p ne ty = Some q1"
    and q2: "fix_transport_sum q1 (new_side ty ne) (old_side ty ne) = Some q2" and q3: "fix_ip_sum q2 a b = Some q3"
  shows "nat_stores ty ne (ip_p ip) p q3"
proof -
  let ?n = "new_side ty ne" and ?o = "old_side ty ne"
  obtain p1 where p1: "put_ip_hdr p (set_addr ty (np_ip ?n) ip) = Some p1" and ip1: "get_ip_hdr p1 = Some (set_addr ty (np_ip ?n) ip)"
    using populate_nat_packet_addr[OF ip q1] .
  define h :: "nat_udp_hdr \<Rightarrow> nat_udp_hdr" where "h = (\<lambda>t. case ty of NAT_EXTERNAL \<Rightarrow> t\<lparr>udp_sport := np_port ?n\<rparr> | NAT_INTERNAL \<Rightarrow> t\<lparr>udp_dport := np_port ?n\<rparr>)"
  from q1 ip proto p1 obtain udp where udp: "get_nat_udp_hdr p1 = Some udp" and put1: "put_nat_udp_hdr p1 (h udp) = Some q1"
    by (cases ty) (auto simp: populate_nat_packet_def set_addr_def new_side_def h_def split: bind_splits)
  have tq: "get_nat_udp_hdr q1 = Some (h udp)" and iq: "get_ip_hdr q1 = Some (set_addr ty (np_ip ?n) ip)"
    using nat_get_put(8)[OF put1] nat_get_put(5)[OF put1] ip1 by simp_all
  have hs: "udp_sum (h udp) = udp_sum udp" by (simp add: h_def split: nat_type.split)
  have s1: "mem_st p1 (26 + 2 * port_word ty) (enc16 (np_port ?n)) = Some q1"
    using put1 put_udp_field[OF udp] by (cases ty) (simp_all add: h_def port_word_def)
  have s2: "mem_st q1 40 (enc16 (nat_checksum (udp_sum udp) (np_checksum ?n) (np_checksum ?o))) = Some q2"
    using q2 iq tq proto hs put_udp_field(3)[OF tq] by (simp add: fix_transport_sum_def)
  from q3 obtain i2 where "get_ip_hdr q2 = Some i2" "put_ip_hdr q2 (i2\<lparr>ip_sum := nat_checksum (ip_sum i2) a b\<rparr>) = Some q3"
    by (auto simp: fix_ip_sum_def split: bind_splits)
  with put_ip_sum have s3: "mem_st q2 24 (enc16 (nat_checksum (ip_sum i2) a b)) = Some q3" by metis
  have "get_nat_udp_hdr p = Some udp" using nat_get_put(2)[OF p1] udp by simp
  from udp_words(3)[OF this] p1 put_set_addr[OF ip] s1 s2 s3 proto show ?thesis
    unfolding nat_stores_def by (auto simp: sum_word_def)
qed

lemma nat_stores_preserve:
  assumes "nat_stores ty ne proto p q" and "sums_ok (ne_ext ne)" and "sums_ok (ne_int ne)"
    and "packet_pair ty p = (ip_words (np_ip (old_side ty ne)), host16 (np_port (old_side ty ne)))"
    and "sum_word proto < k" and "26 + 2 * k \<le> length p"
  shows "cong (int (wsum q 26 k)) (int (wsum p 26 k))"
proof -
  let ?n = "new_side ty ne" and ?o = "old_side ty ne"
  have ok: "sums_ok ?n" "sums_ok ?o" using assms(2,3) by (cases ty; simp add: new_side_def old_side_def)+
  obtain p1 p2 p3 old x where st:
    "mem_st p (26 + 2 * addr_word ty) (enc32 (np_ip ?n)) = Some p1"
    "mem_st p1 (26 + 2 * port_word ty) (enc16 (np_port ?n)) = Some p2"
    "mem_st p2 (26 + 2 * sum_word proto) (enc16 (nat_checksum old (np_checksum ?n) (np_checksum ?o))) = Some p3"
    "mem_st p3 24 (enc16 x) = Some q" "int (be16 p (26 + 2 * sum_word proto)) = host16 old"
    using assms(1) unfolding nat_stores_def by blast
  have len: "length p3 = length p" using st(1-3) by (metis mem_st_length)
  have "cong (int (wsum p3 26 k)) (int (wsum p 26 k))"
  proof (rule rewrite_preserves_sum[OF st(1-3) _ _ _ _ _ assms(6) _ _ st(5)])
    show "Suc (addr_word ty) < port_word ty" "port_word ty < k" "Suc (addr_word ty) < sum_word proto"
      "sum_word proto < k" "port_word ty \<noteq> sum_word proto"
      using assms(5) by (cases ty; auto simp: nat_side_defs split: if_splits)+
    show "int (be16 p (26 + 2 * addr_word ty)) + int (be16 p (26 + 2 * Suc (addr_word ty))) = ip_words (np_ip ?o)"
      "int (be16 p (26 + 2 * port_word ty)) = host16 (np_port ?o)"
      using assms(4) by (simp_all add: packet_pair_def Let_def)
    show "cong (host16 (np_checksum ?n)) (- (ip_words (np_ip ?n) + host16 (np_port ?n)))"
      "cong (host16 (np_checksum ?o)) (- (ip_words (np_ip ?o) + host16 (np_port ?o)))"
      using sums_cong(1) ok by blast+
  qed
  moreover have "wsum q 26 k = wsum p3 26 k"
    by (rule nat_sum_store_before[OF st(4)]) (use assms(6) len in simp_all)
  ultimately show ?thesis by simp
qed

section \<open>Lookups\<close>

definition other :: "nat_type \<Rightarrow> nat_type" where
  "other ty = (case ty of NAT_EXTERNAL \<Rightarrow> NAT_INTERNAL | NAT_INTERNAL \<Rightarrow> NAT_EXTERNAL)"

definition nat_ok :: "router_state \<Rightarrow> bool" where
  "nat_ok rs \<longleftrightarrow> (\<forall>ne\<in>set (nat_table rs). sums_ok (ne_ext ne) \<and> sums_ok (ne_int ne))"

abbreviation transport :: "ip_hdr \<Rightarrow> bool" where
  "transport ip \<equiv> ip_p ip = IP_PROTO_TCP \<or> ip_p ip = IP_PROTO_UDP"

lemma lookup_pair_words:
  assumes "get_ip_hdr p = Some ip" and "transport ip" and "get_nat_ip_port_pair p (other ty) = Some (a, b)"
  shows "packet_pair ty p = (ip_words a, host16 b)"
  using assms ip_addr_words[OF assms(1)] tcp_words[of p] udp_words[of p]
  by (cases ty) (auto simp: get_nat_ip_port_pair_def other_def packet_pair_def Let_def addr_word_def port_word_def
      split: bind_splits)

lemma found_entry:
  assumes "get_nat_table_entry rs p ty = Some (Some i)"
  obtains pair where "get_nat_ip_port_pair p ty = Some pair" "i < length (nat_table rs)"
    "found_nat_table_match (nat_table rs ! i) pair ty"
    "\<forall>j<i. \<not> found_nat_table_match (nat_table rs ! j) pair ty"
proof -
  from assms obtain pair where pair: "get_nat_ip_port_pair p ty = Some pair"
    "find (\<lambda>i. found_nat_table_match (nat_table rs ! i) pair ty) [0..<length (nat_table rs)] = Some i"
    by (auto simp: get_nat_table_entry_def split: bind_splits)
  with that show thesis by (auto simp: find_Some_iff)
qed

lemma old_side_other: "found_nat_table_match ne pair (other ty) \<longleftrightarrow> (np_ip (old_side ty ne), np_port (old_side ty ne)) = pair"
  by (cases ty; cases pair) (auto simp: found_nat_table_match_def other_def old_side_def Let_def)

lemma hit_simps [simp]:
  "i < length (nat_table rs) \<Longrightarrow> ne_ext (nat_table (hit i rs) ! j) = ne_ext (nat_table rs ! j)"
  "i < length (nat_table rs) \<Longrightarrow> ne_int (nat_table (hit i rs) ! j) = ne_int (nat_table rs ! j)"
  "length (nat_table (hit i rs)) = length (nat_table rs)"
  by (cases "j = i"; simp add: hit_def)+

lemma sides_cong:
  "ne_ext a = ne_ext b \<Longrightarrow> ne_int a = ne_int b \<Longrightarrow> new_side ty a = new_side ty b \<and> old_side ty a = old_side ty b"
  by (cases ty) (simp_all add: new_side_def old_side_def)

lemma hit_nat_ok: "i < length (nat_table rs) \<Longrightarrow> nat_ok rs \<Longrightarrow> nat_ok (hit i rs)"
  by (simp add: nat_ok_def all_set_conv_all_nth)

lemma draw_port_result:
  assumes "draw_port rs = Some r"
  shows "(\<exists>n. snd r = rs\<lparr>rand_pos := n\<rparr>) \<and> fst r > 1024 \<and> is_unique_nat_ext_port rs (fst r)"
proof (rule draw_port.raw_induct[OF _ assms])
  fix draw and rs :: router_state and r :: "u16 \<times> router_state"
  assume ih: "\<And>rs r. draw rs = Some r \<Longrightarrow>
      (\<exists>n. snd r = rs\<lparr>rand_pos := n\<rparr>) \<and> fst r > 1024 \<and> is_unique_nat_ext_port rs (fst r)"
    and body: "(let port = rand rs (rand_pos rs); rs' = rs\<lparr>rand_pos := Suc (rand_pos rs)\<rparr>
      in if port > 1024 \<and> is_unique_nat_ext_port rs port then Some (port, rs') else draw rs') = Some r"
  show "(\<exists>n. snd r = rs\<lparr>rand_pos := n\<rparr>) \<and> fst r > 1024 \<and> is_unique_nat_ext_port rs (fst r)"
  proof (cases "rand rs (rand_pos rs) > 1024 \<and> is_unique_nat_ext_port rs (rand rs (rand_pos rs))")
    case True
    with body show ?thesis by (auto simp: Let_def)
  next
    case False
    with body have "draw (rs\<lparr>rand_pos := Suc (rand_pos rs)\<rparr>) = Some r" by (auto simp: Let_def)
    from ih[OF this] show ?thesis by (auto simp: is_unique_nat_ext_port_def)
  qed
qed

lemma draw_port_returns:
  assumes "rand_pos rs \<le> n" and "rand rs n > 1024" and "is_unique_nat_ext_port rs (rand rs n)"
  shows "\<exists>r. draw_port rs = Some r"
  using assms
proof (induction "n - rand_pos rs" arbitrary: rs)
  case 0
  then have "n = rand_pos rs" by simp
  with 0 show ?case by (simp add: draw_port.simps[of rs])
next
  case (Suc d)
  have "\<exists>r. draw_port (rs\<lparr>rand_pos := Suc (rand_pos rs)\<rparr>) = Some r"
    by (rule Suc.hyps(1)) (use Suc in \<open>auto simp: is_unique_nat_ext_port_def\<close>)
  then show ?case by (subst draw_port.simps) (auto simp: Let_def)
qed

abbreviation fresh_entry :: "u32 \<Rightarrow> u16 \<Rightarrow> u32 \<Rightarrow> u16 \<Rightarrow> int \<Rightarrow> nat_entry" where
  "fresh_entry ext port src sp now \<equiv> \<lparr>ne_ext = compute_nat_checksums (nat_pair ext (htons port)),
     ne_int = compute_nat_checksums (nat_pair src sp), ne_last_hits = 0,
     ne_last_hits_time = now, ne_hits = 0, ne_hw_row = 0xFF, ne_is_static = 0\<rparr>"

lemma create_eq:
  "get_ip_hdr p = Some ip \<Longrightarrow> draw_port rs = Some (port, rs1) \<Longrightarrow> get_src_port_number p (ip_p ip) = Some sp \<Longrightarrow>
   create_nat_table_entry rs p ext = Some (length (nat_table rs1),
     cond_signal NatTableCond (rs1\<lparr>nat_table := nat_table rs1 @ [fresh_entry ext port (ip_src ip) sp (clock rs1)]\<rparr>))"
  by (simp add: create_nat_table_entry_def Let_def cond_signal_def)

lemma create_result:
  assumes "create_nat_table_entry rs p ext = Some (i, rs')" and "get_ip_hdr p = Some ip"
  obtains port sp where "get_src_port_number p (ip_p ip) = Some sp" "i = length (nat_table rs)"
    "1024 < port" "is_unique_nat_ext_port rs port"
    "nat_table rs' = nat_table rs @ [fresh_entry ext port (ip_src ip) sp (clock rs)]"
proof -
  obtain port rs1 where d: "draw_port rs = Some (port, rs1)"
    using assms by (cases "draw_port rs") (auto simp: create_nat_table_entry_def)
  obtain sp where sp: "get_src_port_number p (ip_p ip) = Some sp"
    using assms d by (cases "get_src_port_number p (ip_p ip)") (auto simp: create_nat_table_entry_def)
  from draw_port_result[OF d] obtain n where "rs1 = rs\<lparr>rand_pos := n\<rparr>" "1024 < port" "is_unique_nat_ext_port rs port"
    by auto
  with create_eq[OF assms(2) d sp, of ext] assms(1) sp that show thesis by (auto simp: cond_signal_def)
qed

text \<open>The entry an outgoing packet uses, looked up or created: its internal side is the packet's source.\<close>

definition nat_entry_for :: "router_state \<Rightarrow> byte list \<Rightarrow> u32 \<Rightarrow> (nat \<times> router_state) outcome" where
  "nat_entry_for rs p ext = do {
     found \<leftarrow> get_nat_table_entry rs p NAT_INTERNAL;
     (case found of Some i \<Rightarrow> Some (i, rs) | None \<Rightarrow> create_nat_table_entry rs p ext) }"

lemma compute_nat_checksums_sel [simp]:
  "np_ip (compute_nat_checksums x) = np_ip x" "np_port (compute_nat_checksums x) = np_port x"
  by (simp_all add: compute_nat_checksums_def Let_def)

lemma src_port_pair:
  assumes "get_ip_hdr p = Some ip" and "transport ip" and "get_src_port_number p (ip_p ip) = Some sp"
  shows "get_nat_ip_port_pair p NAT_INTERNAL = Some (ip_src ip, sp)"
  using assms by (auto simp: get_nat_ip_port_pair_def get_src_port_number_def)

lemma nat_entry_for_result:
  assumes "nat_entry_for rs p ext = Some (i, rs')" and "get_ip_hdr p = Some ip" and "transport ip" and "nat_ok rs"
  shows "i < length (nat_table rs') \<and> nat_ok rs' \<and>
    get_nat_ip_port_pair p NAT_INTERNAL = Some (np_ip (ne_int (nat_table rs' ! i)), np_port (ne_int (nat_table rs' ! i)))"
proof -
  from assms(1) obtain found where f: "get_nat_table_entry rs p NAT_INTERNAL = Some found"
    "(case found of Some i \<Rightarrow> Some (i, rs) | None \<Rightarrow> create_nat_table_entry rs p ext) = Some (i, rs')"
    by (auto simp: nat_entry_for_def split: bind_splits)
  show ?thesis
  proof (cases found)
    case (Some j)
    with f have "get_nat_table_entry rs p NAT_INTERNAL = Some (Some i)" "rs' = rs" by auto
    then obtain pair where "get_nat_ip_port_pair p NAT_INTERNAL = Some pair" "i < length (nat_table rs)"
      "found_nat_table_match (nat_table rs ! i) pair NAT_INTERNAL" using found_entry by blast
    with assms(4) \<open>rs' = rs\<close> show ?thesis by (cases pair) (auto simp: found_nat_table_match_def Let_def)
  next
    case None
    with f(2) have "create_nat_table_entry rs p ext = Some (i, rs')" by simp
    then show ?thesis
      by (rule create_result[OF _ assms(2)])
        (use assms src_port_pair[OF assms(2,3)] compute_nat_checksums_ok in \<open>auto simp: nat_ok_def\<close>)
  qed
qed

text \<open>The steps both directions share once they have the entry.\<close>

definition translate :: "nat_type \<Rightarrow> nat_entry \<Rightarrow> byte list \<Rightarrow> byte list outcome" where
  "translate ty ne p = do {
     p \<leftarrow> populate_nat_packet p ne ty;
     p \<leftarrow> fix_transport_sum p (new_side ty ne) (old_side ty ne);
     fix_ip_sum p (np_checksum_ip (new_side ty ne)) (np_checksum (old_side ty ne)) }"

lemma populate_cong:
  "ne_ext a = ne_ext b \<Longrightarrow> ne_int a = ne_int b \<Longrightarrow> populate_nat_packet p a ty = populate_nat_packet p b ty"
  unfolding populate_nat_packet_def populate_nat_error_def by (simp only:)

lemma translate_cong: "ne_ext a = ne_ext b \<Longrightarrow> ne_int a = ne_int b \<Longrightarrow> translate ty a p = translate ty b p"
  using populate_cong[of a b p ty] sides_cong[of a b ty] by (simp add: translate_def)

lemma process_nat_int_eq:
  assumes "get_ip_hdr p = Some ip" and "transport ip \<or> ip_p ip = IP_PROTO_ICMP"
    and "nat_entry_for rs p ext = Some (i, rs1)" and "i < length (nat_table rs1)"
  shows "process_nat_int_packet rs p ext =
    map_option (\<lambda>q. (q, hit i rs1)) (translate NAT_EXTERNAL (nat_table rs1 ! i) p)"
proof -
  let ?ne = "nat_table rs1 ! i" and ?ne' = "nat_table (hit i rs1) ! i"
  have s: "ne_ext ?ne' = ne_ext ?ne" "ne_int ?ne' = ne_int ?ne" using assms(4) by simp_all
  have p: "ip_p ip = IP_PROTO_TCP \<or> ip_p ip = IP_PROTO_UDP \<or> ip_p ip = IP_PROTO_ICMP" using assms(2) by blast
  obtain found where f: "get_nat_table_entry rs p NAT_INTERNAL = Some found"
    "(case found of Some i \<Rightarrow> Some (i, rs) | None \<Rightarrow> create_nat_table_entry rs p ext) = Some (i, rs1)"
    using assms(3) by (auto simp: nat_entry_for_def split: bind_splits)
  show ?thesis
    unfolding process_nat_int_packet_def translate_def new_side_def old_side_def
    using p by (simp add: assms(1) f s Let_def map_option_bind comp_def del: disj_not1)
      (simp add: map_conv_bind_option comp_def)
qed

lemma process_nat_int_transport:
  assumes "process_nat_int_packet rs p ext = Some (q, rs')" and "get_ip_hdr p = Some ip" and "transport ip" and "nat_ok rs"
  obtains i rs1 where "nat_entry_for rs p ext = Some (i, rs1)" "i < length (nat_table rs1)" "nat_ok rs1"
    "translate NAT_EXTERNAL (nat_table rs1 ! i) p = Some q" "rs' = hit i rs1"
    "get_nat_ip_port_pair p NAT_INTERNAL = Some (np_ip (ne_int (nat_table rs1 ! i)), np_port (ne_int (nat_table rs1 ! i)))"
proof -
  have "nat_entry_for rs p ext \<noteq> None"
    using assms(1-3) by (auto simp: process_nat_int_packet_def nat_entry_for_def split: bind_splits option.splits)
  then obtain i rs1 where f: "nat_entry_for rs p ext = Some (i, rs1)" by auto
  note r = nat_entry_for_result[OF f assms(2-4)]
  have "map_option (\<lambda>q. (q, hit i rs1)) (translate NAT_EXTERNAL (nat_table rs1 ! i) p) = Some (q, rs')"
    using process_nat_int_eq[OF assms(2) _ f] r assms(1,3) by simp
  then have "translate NAT_EXTERNAL (nat_table rs1 ! i) p = Some q" "rs' = hit i rs1"
    by (cases "translate NAT_EXTERNAL (nat_table rs1 ! i) p"; simp)+
  with f r that show thesis by blast
qed

lemma process_nat_ext_eq:
  assumes "get_nat_table_entry rs p NAT_EXTERNAL = Some (Some i)"
  shows "process_nat_ext_packet rs p = map_option (\<lambda>q. (q, hit i rs)) (translate NAT_INTERNAL (nat_table rs ! i) p)"
proof -
  let ?ne = "nat_table rs ! i" and ?ne' = "nat_table (hit i rs) ! i"
  have "i < length (nat_table rs)" using found_entry[OF assms] by blast
  then have s: "ne_ext ?ne' = ne_ext ?ne" "ne_int ?ne' = ne_int ?ne" by simp_all
  show ?thesis
    unfolding process_nat_ext_packet_def translate_def new_side_def old_side_def
    by (simp add: assms s populate_cong[OF s] Let_def map_option_bind comp_def)
      (simp add: map_conv_bind_option comp_def)
qed

lemma translate_stores:
  assumes "translate ty ne p = Some q" and "get_ip_hdr p = Some ip" and "transport ip"
  shows "nat_stores ty ne (ip_p ip) p q"
proof -
  obtain q1 q2 where "populate_nat_packet p ne ty = Some q1"
    "fix_transport_sum q1 (new_side ty ne) (old_side ty ne) = Some q2"
    "fix_ip_sum q2 (np_checksum_ip (new_side ty ne)) (np_checksum (old_side ty ne)) = Some q"
    using assms(1) by (auto simp: translate_def split: bind_splits)
  with assms(2,3) show ?thesis by (metis nat_stores_tcp nat_stores_udp)
qed

lemma translate_preserves:
  assumes "translate ty ne p = Some q" and "get_ip_hdr p = Some ip" and "transport ip"
    and "get_nat_ip_port_pair p (other ty) = Some (np_ip (old_side ty ne), np_port (old_side ty ne))"
    and "sums_ok (ne_ext ne)" and "sums_ok (ne_int ne)" and "sum_word (ip_p ip) < k" and "26 + 2 * k \<le> length p"
  shows "wsum q 26 k mod 65535 = wsum p 26 k mod 65535"
proof -
  have "cong (int (wsum q 26 k)) (int (wsum p 26 k))"
    using nat_stores_preserve[OF translate_stores[OF assms(1-3)] assms(5,6) lookup_pair_words[OF assms(2-4)] assms(7,8)] .
  then show ?thesis unfolding cong_def by (metis nat_int of_nat_mod of_nat_numeral)
qed

text \<open>After a translation the packet carries the other side of the entry.\<close>

lemma get_fix_ip_sum:
  assumes "fix_ip_sum p a b = Some q" and "get_ip_hdr p = Some ip"
  shows "\<exists>x. get_ip_hdr q = Some (ip\<lparr>ip_sum := x\<rparr>)" "get_nat_tcp_hdr q = get_nat_tcp_hdr p" "get_nat_udp_hdr q = get_nat_udp_hdr p"
proof -
  from assms have put: "put_ip_hdr p (ip\<lparr>ip_sum := nat_checksum (ip_sum ip) a b\<rparr>) = Some q"
    by (simp add: fix_ip_sum_def)
  then show "\<exists>x. get_ip_hdr q = Some (ip\<lparr>ip_sum := x\<rparr>)" "get_nat_tcp_hdr q = get_nat_tcp_hdr p"
    "get_nat_udp_hdr q = get_nat_udp_hdr p"
    using get_ip_put_ip[OF put] nat_get_put(1,2)[OF put] by auto
qed

lemma set_addr_sel:
  "ip_src (set_addr ty a ip) = (case ty of NAT_EXTERNAL \<Rightarrow> a | NAT_INTERNAL \<Rightarrow> ip_src ip)"
  "ip_dst (set_addr ty a ip) = (case ty of NAT_EXTERNAL \<Rightarrow> ip_dst ip | NAT_INTERNAL \<Rightarrow> a)"
  by (cases ty; simp add: set_addr_def)+

lemma translated_pair:
  assumes "translate ty ne p = Some q" and "get_ip_hdr p = Some ip" and "transport ip"
  shows "get_nat_ip_port_pair q (other ty) = Some (np_ip (new_side ty ne), np_port (new_side ty ne))"
    and "\<exists>ip'. get_ip_hdr q = Some ip' \<and> ip_p ip' = ip_p ip"
proof -
  let ?n = "new_side ty ne"
  obtain q1 q2 where st: "populate_nat_packet p ne ty = Some q1"
    "fix_transport_sum q1 ?n (old_side ty ne) = Some q2" "fix_ip_sum q2 (np_checksum_ip ?n) (np_checksum (old_side ty ne)) = Some q"
    using assms(1) by (auto simp: translate_def split: bind_splits)
  obtain p1 where p1: "put_ip_hdr p (set_addr ty (np_ip ?n) ip) = Some p1" "get_ip_hdr p1 = Some (set_addr ty (np_ip ?n) ip)"
    using populate_nat_packet_addr[OF assms(2) st(1)] .
  have *: "get_nat_ip_port_pair q (other ty) = Some (np_ip ?n, np_port ?n) \<and> (\<exists>ip'. get_ip_hdr q = Some ip' \<and> ip_p ip' = ip_p ip)"
  proof (cases "ip_p ip = IP_PROTO_TCP")
    case True
    define h :: "nat_tcp_hdr \<Rightarrow> nat_tcp_hdr" where
      "h = (\<lambda>t. case ty of NAT_EXTERNAL \<Rightarrow> t\<lparr>tcp_sport := np_port ?n\<rparr> | NAT_INTERNAL \<Rightarrow> t\<lparr>tcp_dport := np_port ?n\<rparr>)"
    from st(1) assms(2) True p1(1) obtain tcp where put1: "put_nat_tcp_hdr p1 (h tcp) = Some q1"
      by (cases ty) (auto simp: populate_nat_packet_def set_addr_def new_side_def h_def split: bind_splits)
    note q1 = nat_get_put(4,7)[OF put1]
    from st(2) q1 p1(2) True obtain s where put2: "put_nat_tcp_hdr q1 ((h tcp)\<lparr>tcp_sum := s\<rparr>) = Some q2"
      by (auto simp: fix_transport_sum_def)
    note q2 = nat_get_put(4,7)[OF put2]
    have ip2: "get_ip_hdr q2 = Some (set_addr ty (np_ip ?n) ip)" using q1 q2 p1 by simp
    from get_fix_ip_sum[OF st(3) ip2] q2 True show ?thesis
      by (cases ty) (auto simp: get_nat_ip_port_pair_def other_def set_addr_sel h_def Let_def)
  next
    case False
    with assms(3) have udp: "ip_p ip = IP_PROTO_UDP" by simp
    define h :: "nat_udp_hdr \<Rightarrow> nat_udp_hdr" where
      "h = (\<lambda>t. case ty of NAT_EXTERNAL \<Rightarrow> t\<lparr>udp_sport := np_port ?n\<rparr> | NAT_INTERNAL \<Rightarrow> t\<lparr>udp_dport := np_port ?n\<rparr>)"
    from st(1) assms(2) udp p1(1) obtain u where put1: "put_nat_udp_hdr p1 (h u) = Some q1"
      by (cases ty) (auto simp: populate_nat_packet_def set_addr_def new_side_def h_def split: bind_splits)
    note q1 = nat_get_put(5,8)[OF put1]
    from st(2) q1 p1(2) udp obtain s where put2: "put_nat_udp_hdr q1 ((h u)\<lparr>udp_sum := s\<rparr>) = Some q2"
      by (auto simp: fix_transport_sum_def)
    note q2 = nat_get_put(5,8)[OF put2]
    have ip2: "get_ip_hdr q2 = Some (set_addr ty (np_ip ?n) ip)" using q1 q2 p1 by simp
    from get_fix_ip_sum[OF st(3) ip2] q2 udp show ?thesis
      by (cases ty) (auto simp: get_nat_ip_port_pair_def other_def set_addr_sel h_def Let_def)
  qed
  then show "get_nat_ip_port_pair q (other ty) = Some (np_ip ?n, np_port ?n)"
    "\<exists>ip'. get_ip_hdr q = Some ip' \<and> ip_p ip' = ip_p ip" by auto
qed

lemma translate_total:
  assumes "get_ip_hdr p = Some ip" and "transport ip" and "54 \<le> length p"
  shows "\<exists>q. translate ty ne p = Some q \<and> length q = length p"
proof -
  let ?n = "new_side ty ne" and ?o = "old_side ty ne"
  obtain p1 where p1: "put_ip_hdr p (set_addr ty (np_ip ?n) ip) = Some p1" using put_ip_ok[of p] assms(3) by auto
  have l1: "length p1 = length p" using put_ip_length[OF p1] .
  have ip1: "get_ip_hdr p1 = Some (set_addr ty (np_ip ?n) ip)" using get_ip_put_ip[OF p1] .
  have "\<exists>q1. populate_nat_packet p ne ty = Some q1 \<and> get_ip_hdr q1 = Some (set_addr ty (np_ip ?n) ip) \<and> length q1 = length p"
  proof (cases "ip_p ip = IP_PROTO_TCP")
    case True
    obtain tcp where tcp: "get_nat_tcp_hdr p1 = Some tcp"
      using nat_tcp_wire.get_ok[of 34 p1] l1 assms(3) by (auto simp: get_nat_tcp_hdr_def)
    obtain q1 where q1: "put_nat_tcp_hdr p1 (case ty of NAT_EXTERNAL \<Rightarrow> tcp\<lparr>tcp_sport := np_port (ne_ext ne)\<rparr>
        | NAT_INTERNAL \<Rightarrow> tcp\<lparr>tcp_dport := np_port (ne_int ne)\<rparr>) = Some q1"
      using nat_tcp_wire.put_ok[of 34 p1] l1 assms(3) by (auto simp: put_nat_tcp_hdr_def)
    from q1 nat_get_put(4)[OF q1] ip1 p1 tcp True assms(1) l1 nat_tcp_wire.put_length[of p1 34 _ q1] show ?thesis
      by (cases ty) (auto simp: populate_nat_packet_def set_addr_def new_side_def put_nat_tcp_hdr_def)
  next
    case False
    with assms(2) have udp: "ip_p ip = IP_PROTO_UDP" by simp
    obtain u where u: "get_nat_udp_hdr p1 = Some u"
      using nat_udp_wire.get_ok[of 34 p1] l1 assms(3) by (auto simp: get_nat_udp_hdr_def)
    obtain q1 where q1: "put_nat_udp_hdr p1 (case ty of NAT_EXTERNAL \<Rightarrow> u\<lparr>udp_sport := np_port (ne_ext ne)\<rparr>
        | NAT_INTERNAL \<Rightarrow> u\<lparr>udp_dport := np_port (ne_int ne)\<rparr>) = Some q1"
      using nat_udp_wire.put_ok[of 34 p1] l1 assms(3) by (auto simp: put_nat_udp_hdr_def)
    from q1 nat_get_put(5)[OF q1] ip1 p1 u udp assms(1) l1 nat_udp_wire.put_length[of p1 34 _ q1] show ?thesis
      by (cases ty) (auto simp: populate_nat_packet_def set_addr_def new_side_def put_nat_udp_hdr_def)
  qed
  then obtain q1 where q1: "populate_nat_packet p ne ty = Some q1" "get_ip_hdr q1 = Some (set_addr ty (np_ip ?n) ip)"
    "length q1 = length p" by blast
  have "\<exists>q2. fix_transport_sum q1 ?n ?o = Some q2 \<and> get_ip_hdr q2 = get_ip_hdr q1 \<and> length q2 = length p"
  proof (cases "ip_p ip = IP_PROTO_TCP")
    case True
    obtain t where t: "get_nat_tcp_hdr q1 = Some t"
      using nat_tcp_wire.get_ok[of 34 q1] q1(3) assms(3) by (auto simp: get_nat_tcp_hdr_def)
    obtain q2 where q2: "put_nat_tcp_hdr q1 (t\<lparr>tcp_sum := nat_checksum (tcp_sum t) (np_checksum ?n) (np_checksum ?o)\<rparr>) = Some q2"
      using nat_tcp_wire.put_ok[of 34 q1] q1(3) assms(3) by (auto simp: put_nat_tcp_hdr_def)
    with nat_get_put(4)[OF q2] t q1 True nat_tcp_wire.put_length[of q1 34 _ q2] show ?thesis
      by (auto simp: fix_transport_sum_def put_nat_tcp_hdr_def)
  next
    case False
    with assms(2) have udp: "ip_p ip = IP_PROTO_UDP" by simp
    obtain t where t: "get_nat_udp_hdr q1 = Some t"
      using nat_udp_wire.get_ok[of 34 q1] q1(3) assms(3) by (auto simp: get_nat_udp_hdr_def)
    obtain q2 where q2: "put_nat_udp_hdr q1 (t\<lparr>udp_sum := nat_checksum (udp_sum t) (np_checksum ?n) (np_checksum ?o)\<rparr>) = Some q2"
      using nat_udp_wire.put_ok[of 34 q1] q1(3) assms(3) by (auto simp: put_nat_udp_hdr_def)
    with nat_get_put(5)[OF q2] t q1 udp nat_udp_wire.put_length[of q1 34 _ q2] show ?thesis
      by (auto simp: fix_transport_sum_def put_nat_udp_hdr_def)
  qed
  then obtain q2 where q2: "fix_transport_sum q1 ?n ?o = Some q2" "get_ip_hdr q2 = get_ip_hdr q1" "length q2 = length p" by blast
  obtain q where "put_ip_hdr q2 ((set_addr ty (np_ip ?n) ip)\<lparr>ip_sum := nat_checksum (ip_sum (set_addr ty (np_ip ?n) ip))
      (np_checksum_ip ?n) (np_checksum ?o)\<rparr>) = Some q" using put_ip_ok[of q2] q2(3) assms(3) by auto
  with q1 q2 put_ip_length[OF this] show ?thesis by (auto simp: translate_def fix_ip_sum_def)
qed

section \<open>A packet to evaluate on\<close>

text \<open>A TCP segment from 10.0.0.2 port 1000 to 11.0.0.1 port 80, and the reply to its translation.\<close>

definition tcp_packet :: "u32 \<Rightarrow> u16 \<Rightarrow> u32 \<Rightarrow> u16 \<Rightarrow> byte list" where
  "tcp_packet src sport dst dport = replicate 14 0 @ enc_ip (populate_ip 20 6 src dst) @
     enc_nat_tcp \<lparr>tcp_sport = sport, tcp_dport = dport, tcp_seq = 1, tcp_ack = 2, tcp_unused1 = 3, tcp_sum = 4, tcp_unused2 = 5\<rparr>"

definition tcp_out :: "byte list" where
  "tcp_out = tcp_packet (htonl 0x0A000002) (htons 1000) (htonl 0x0B000001) (htons 80)"

definition nat_router :: router_state where
  "nat_router = idle_router\<lparr>rand := (\<lambda>i. word_of_nat (1000 + i * 50))\<rparr>"

abbreviation wan_ip :: u32 where "wan_ip \<equiv> 0x01000063"

lemma tcp_packet_hdr:
  "get_ip_hdr (tcp_packet src sport dst dport) = Some (populate_ip 20 6 src dst)"
  "get_nat_tcp_hdr (tcp_packet src sport dst dport) = Some \<lparr>tcp_sport = sport, tcp_dport = dport, tcp_seq = 1,
     tcp_ack = 2, tcp_unused1 = 3, tcp_sum = 4, tcp_unused2 = 5\<rparr>"
  "length (tcp_packet src sport dst dport) = 54"
proof -
  let ?t = "\<lparr>tcp_sport = sport, tcp_dport = dport, tcp_seq = 1, tcp_ack = 2, tcp_unused1 = 3, tcp_sum = 4, tcp_unused2 = 5\<rparr>"
  show "get_ip_hdr (tcp_packet src sport dst dport) = Some (populate_ip 20 6 src dst)"
    by (simp add: tcp_packet_def get_ip_hdr_def ip_wire.get_at ip_wire.enc_length ip_wire.dec_enc)
  show "length (tcp_packet src sport dst dport) = 54" by (simp add: tcp_packet_def ip_wire.enc_length nat_tcp_wire.enc_length)
  show "get_nat_tcp_hdr (tcp_packet src sport dst dport) = Some ?t"
    using nat_tcp_wire.get_at[of "replicate 14 0 @ enc_ip (populate_ip 20 6 src dst)" 34 "enc_nat_tcp ?t" "[]"]
    by (simp add: tcp_packet_def get_nat_tcp_hdr_def ip_wire.enc_length nat_tcp_wire.enc_length nat_tcp_wire.dec_enc)
qed

lemma tcp_packet_pair:
  "get_nat_ip_port_pair (tcp_packet src sport dst dport) NAT_INTERNAL = Some (src, sport)"
  "get_nat_ip_port_pair (tcp_packet src sport dst dport) NAT_EXTERNAL = Some (dst, dport)"
  by (simp_all add: get_nat_ip_port_pair_def tcp_packet_hdr populate_ip_def)

lemma tcp_transport: "transport (populate_ip 20 6 src dst)"
  by (simp add: populate_ip_def)

lemma nat_router_ok: "nat_ok nat_router"
  by (simp add: nat_ok_def nat_router_def idle_router_def)

lemma nat_router_draws: "draw_port nat_router = Some (1050, nat_router\<lparr>rand_pos := 2\<rparr>)"
  by (simp add: draw_port.simps nat_router_def idle_router_def is_unique_nat_ext_port_def)

lemma nat_router_entry:
  "nat_entry_for nat_router tcp_out wan_ip = Some (0, cond_signal NatTableCond (nat_router\<lparr>rand_pos := 2,
     nat_table := [fresh_entry wan_ip 1050 (htonl 0x0A000002) (htons 1000) 0]\<rparr>))"
proof -
  have s: "get_src_port_number tcp_out 6 = Some (htons 1000)"
    by (simp add: tcp_out_def get_src_port_number_def tcp_packet_hdr)
  have "get_nat_table_entry nat_router tcp_out NAT_INTERNAL = Some None"
    by (simp add: get_nat_table_entry_def tcp_out_def tcp_packet_pair nat_router_def idle_router_def)
  moreover have "create_nat_table_entry nat_router tcp_out wan_ip = Some (0, cond_signal NatTableCond (nat_router\<lparr>rand_pos := 2,
     nat_table := [fresh_entry wan_ip 1050 (htonl 0x0A000002) (htons 1000) 0]\<rparr>))"
    using create_eq[OF _ nat_router_draws, of tcp_out "populate_ip 20 6 (htonl 0x0A000002) (htonl 0x0B000001)" "htons 1000" wan_ip] s
    by (simp add: tcp_out_def tcp_packet_hdr populate_ip_def nat_router_def idle_router_def)
  ultimately show ?thesis by (simp add: nat_entry_for_def)
qed

lemma nat_router_out:
  obtains q rs' where "process_nat_int_packet nat_router tcp_out wan_ip = Some (q, rs')"
    "nat_table rs' = [(fresh_entry wan_ip 1050 (htonl 0x0A000002) (htons 1000) 0)\<lparr>ne_hits := 1\<rparr>]"
    "get_nat_ip_port_pair q NAT_INTERNAL = Some (wan_ip, htons 1050)"
proof -
  let ?e = "fresh_entry wan_ip 1050 (htonl 0x0A000002) (htons 1000) 0"
  have ip: "get_ip_hdr tcp_out = Some (populate_ip 20 6 (htonl 0x0A000002) (htonl 0x0B000001))"
    by (simp add: tcp_out_def tcp_packet_hdr)
  have tr: "transport (populate_ip 20 6 (htonl 0x0A000002) (htonl 0x0B000001)) \<or>
    ip_p (populate_ip 20 6 (htonl 0x0A000002) (htonl 0x0B000001)) = IP_PROTO_ICMP" by (simp add: populate_ip_def)
  obtain q where q: "translate NAT_EXTERNAL ?e tcp_out = Some q"
    using translate_total[OF ip tcp_transport, of NAT_EXTERNAL ?e] by (auto simp: tcp_out_def tcp_packet_hdr)
  have "get_nat_ip_port_pair q NAT_INTERNAL = Some (wan_ip, htons 1050)"
    using translated_pair(1)[OF q ip tcp_transport] by (simp add: other_def new_side_def)
  with q process_nat_int_eq[OF ip tr nat_router_entry] that show thesis
    by (simp add: cond_signal_def hit_def)
qed

section \<open>Properties\<close>

lemma translate_udp_sum:
  assumes "translate ty ne p = Some q" and "get_ip_hdr p = Some ip" and "ip_p ip = IP_PROTO_UDP" and "get_nat_udp_hdr p = Some u"
  shows "\<exists>u'. get_nat_udp_hdr q = Some u' \<and> udp_sum u' = nat_checksum (udp_sum u) (np_checksum (new_side ty ne)) (np_checksum (old_side ty ne))"
proof -
  let ?n = "new_side ty ne"
  obtain q1 q2 where st: "populate_nat_packet p ne ty = Some q1"
    "fix_transport_sum q1 ?n (old_side ty ne) = Some q2" "fix_ip_sum q2 (np_checksum_ip ?n) (np_checksum (old_side ty ne)) = Some q"
    using assms(1) by (auto simp: translate_def split: bind_splits)
  obtain p1 where p1: "put_ip_hdr p (set_addr ty (np_ip ?n) ip) = Some p1" "get_ip_hdr p1 = Some (set_addr ty (np_ip ?n) ip)"
    using populate_nat_packet_addr[OF assms(2) st(1)] .
  define h :: "nat_udp_hdr \<Rightarrow> nat_udp_hdr" where
    "h = (\<lambda>t. case ty of NAT_EXTERNAL \<Rightarrow> t\<lparr>udp_sport := np_port ?n\<rparr> | NAT_INTERNAL \<Rightarrow> t\<lparr>udp_dport := np_port ?n\<rparr>)"
  have "get_nat_udp_hdr p1 = Some u" using nat_get_put(2)[OF p1(1)] assms(4) by simp
  with st(1) assms(2,3) p1(1) have put1: "put_nat_udp_hdr p1 (h u) = Some q1"
    by (cases ty) (auto simp: populate_nat_packet_def set_addr_def new_side_def h_def split: bind_splits)
  note q1 = nat_get_put(5,8)[OF put1]
  have "udp_sum (h u) = udp_sum u" by (cases ty) (simp_all add: h_def)
  with st(2) q1 p1(2) assms(3) have
    put2: "put_nat_udp_hdr q1 ((h u)\<lparr>udp_sum := nat_checksum (udp_sum u) (np_checksum ?n) (np_checksum (old_side ty ne))\<rparr>) = Some q2"
    by (auto simp: fix_transport_sum_def)
  note q2 = nat_get_put(5,8)[OF put2]
  have ip2: "get_ip_hdr q2 = Some (set_addr ty (np_ip ?n) ip)" using q1 q2 p1 by simp
  from get_fix_ip_sum(3)[OF st(3) ip2] q2 show ?thesis by simp
qed

text \<open>
  C8. Source translation of a TCP or UDP packet keeps the checksum sum: the one's complement sum over addresses
  and segment, which includes the checksum field, is the same modulo 65535 before and after, although only
  the cached differences of \<open>compute_nat_checksums\<close> are applied; so a checksum that was right is right afterwards, and one that was wrong stays wrong.
  The cached sums of the table stay right, and the packet now carries the external
  address and port of an entry whose internal side is its original source. The field of a UDP packet is updated in any case, also when it is 0, that is when the
  packet has no checksum: then it is afterwards the checksum of nothing (\<open>udp_none_filled\<close>). The checksum of the IP header, which the code updates by another difference,
  is not part of the claim.
\<close>

theorem nat_int_keeps_checksum:
  assumes "process_nat_int_packet rs p ext = Some (q, rs')" and "nat_ok rs" and "get_ip_hdr p = Some ip" and "transport ip"
    and "sum_word (ip_p ip) < k" and "26 + 2 * k \<le> length p"
  shows "nat_sum (\<lambda>j. True) q 26 0 k mod 65535 = nat_sum (\<lambda>j. True) p 26 0 k mod 65535 \<and> nat_ok rs' \<and>
    (\<exists>ne\<in>set (nat_table rs').
       get_nat_ip_port_pair p NAT_INTERNAL = Some (np_ip (ne_int ne), np_port (ne_int ne)) \<and>
       get_nat_ip_port_pair q NAT_INTERNAL = Some (np_ip (ne_ext ne), np_port (ne_ext ne)) \<and>
       (ip_p ip = IP_PROTO_UDP \<longrightarrow> (\<exists>u u'. get_nat_udp_hdr p = Some u \<and> get_nat_udp_hdr q = Some u' \<and>
          udp_sum u' = nat_checksum (udp_sum u) (np_checksum (ne_ext ne)) (np_checksum (ne_int ne)))))"
proof -
  obtain i rs1 where r: "i < length (nat_table rs1)" "nat_ok rs1"
    "translate NAT_EXTERNAL (nat_table rs1 ! i) p = Some q" "rs' = hit i rs1"
    "get_nat_ip_port_pair p NAT_INTERNAL = Some (np_ip (ne_int (nat_table rs1 ! i)), np_port (ne_int (nat_table rs1 ! i)))"
    using process_nat_int_transport[OF assms(1,3,4,2)] by metis
  let ?ne = "nat_table rs1 ! i"
  have ok: "sums_ok (ne_ext ?ne)" "sums_ok (ne_int ?ne)" using r(1,2) by (simp_all add: nat_ok_def)
  have "nat_sum (\<lambda>j. True) q 26 0 k mod 65535 = nat_sum (\<lambda>j. True) p 26 0 k mod 65535"
    using translate_preserves[OF r(3) assms(3,4) _ ok assms(5,6)] r(5) by (simp add: other_def old_side_def)
  moreover have "nat_ok rs'" using r hit_nat_ok by simp
  moreover have "nat_table rs' ! i \<in> set (nat_table rs')" using r(1,4) by simp
  moreover have "\<exists>u u'. get_nat_udp_hdr p = Some u \<and> get_nat_udp_hdr q = Some u' \<and>
      udp_sum u' = nat_checksum (udp_sum u) (np_checksum (ne_ext ?ne)) (np_checksum (ne_int ?ne))" if udp: "ip_p ip = IP_PROTO_UDP"
  proof -
    obtain u where u: "get_nat_udp_hdr p = Some u"
      using r(5) assms(3) udp by (auto simp: get_nat_ip_port_pair_def split: bind_splits)
    from translate_udp_sum[OF r(3) assms(3) udp u] u show ?thesis by (simp add: new_side_def old_side_def)
  qed
  ultimately show ?thesis
    using translated_pair(1)[OF r(3) assms(3,4)] r(1,4,5) by (auto simp: other_def new_side_def intro!: bexI[of _ "nat_table rs' ! i"])
qed

theorem nat_int_keeps_checksum_witness:
  "\<exists>q rs'. process_nat_int_packet nat_router tcp_out wan_ip = Some (q, rs') \<and>
     nat_sum (\<lambda>j. True) q 26 0 14 mod 65535 = nat_sum (\<lambda>j. True) tcp_out 26 0 14 mod 65535 \<and> nat_ok rs'"
proof -
  obtain q rs' where o: "process_nat_int_packet nat_router tcp_out wan_ip = Some (q, rs')" by (rule nat_router_out)
  from nat_int_keeps_checksum[OF o nat_router_ok, of "populate_ip 20 6 (htonl 0x0A000002) (htonl 0x0B000001)" 14] o
  show ?thesis by (auto simp: tcp_out_def tcp_packet_hdr populate_ip_def sum_word_def)
qed

text \<open>A UDP packet without a checksum leaves with one that is not 0, and that is not its checksum.\<close>

lemma udp_none_filled: "nat_checksum 0 (np_checksum (ne_ext (fresh_entry wan_ip 1050 (htonl 0x0A000002) (htons 1000) 0)))
    (np_checksum (ne_int (fresh_entry wan_ip 1050 (htonl 0x0A000002) (htons 1000) 0))) \<noteq> 0"
  by code_simp

text \<open>
  Destination translation, of a packet that arrives on the external interface and matches an entry, keeps the same sum, and
  the packet then carries the internal address and port of that entry. A packet without an entry is untouched.
\<close>

theorem nat_ext_keeps_checksum:
  assumes "process_nat_ext_packet rs p = Some (q, rs')" and "nat_ok rs" and "get_ip_hdr p = Some ip" and "transport ip"
    and "sum_word (ip_p ip) < k" and "26 + 2 * k \<le> length p"
  shows "nat_sum (\<lambda>j. True) q 26 0 k mod 65535 = nat_sum (\<lambda>j. True) p 26 0 k mod 65535 \<and> nat_ok rs' \<and>
    (q = p \<and> rs' = rs \<or>
     (\<exists>ne\<in>set (nat_table rs').
       get_nat_ip_port_pair p NAT_EXTERNAL = Some (np_ip (ne_ext ne), np_port (ne_ext ne)) \<and>
       get_nat_ip_port_pair q NAT_EXTERNAL = Some (np_ip (ne_int ne), np_port (ne_int ne))))"
proof -
  obtain found where f: "get_nat_table_entry rs p NAT_EXTERNAL = Some found"
    using assms(1) by (auto simp: process_nat_ext_packet_def split: bind_splits)
  show ?thesis
  proof (cases found)
    case None
    with f assms(1,2) show ?thesis by (simp add: process_nat_ext_packet_def)
  next
    case (Some i)
    with f have fi: "get_nat_table_entry rs p NAT_EXTERNAL = Some (Some i)" by simp
    let ?ne = "nat_table rs ! i"
    obtain pair where m: "get_nat_ip_port_pair p NAT_EXTERNAL = Some pair" "i < length (nat_table rs)"
      "found_nat_table_match ?ne pair NAT_EXTERNAL" using found_entry[OF fi] .
    from process_nat_ext_eq[OF fi] assms(1) have t: "translate NAT_INTERNAL ?ne p = Some q" "rs' = hit i rs"
      by (cases "translate NAT_INTERNAL ?ne p"; simp)+
    have pair: "pair = (np_ip (ne_ext ?ne), np_port (ne_ext ?ne))"
      using m(3) by (cases pair) (simp add: found_nat_table_match_def Let_def)
    have ok: "sums_ok (ne_ext ?ne)" "sums_ok (ne_int ?ne)" using m(2) assms(2) by (simp_all add: nat_ok_def)
    have "nat_sum (\<lambda>j. True) q 26 0 k mod 65535 = nat_sum (\<lambda>j. True) p 26 0 k mod 65535"
      using translate_preserves[OF t(1) assms(3,4) _ ok assms(5,6)] m(1) pair by (simp add: other_def old_side_def)
    moreover have "nat_ok rs'" using t(2) m(2) assms(2) hit_nat_ok by simp
    moreover have "nat_table rs' ! i \<in> set (nat_table rs')" using m(2) t(2) by simp
    ultimately show ?thesis
      using translated_pair(1)[OF t(1) assms(3,4)] m(1,2) pair t(2)
      by (auto simp: other_def new_side_def intro!: bexI[of _ "nat_table rs' ! i"])
  qed
qed

theorem nat_ext_keeps_checksum_witness:
  "\<exists>q rs'. process_nat_ext_packet (nat_router\<lparr>nat_table := [fresh_entry wan_ip 1050 (htonl 0x0A000002) (htons 1000) 0]\<rparr>)
       (tcp_packet (htonl 0x0B000001) (htons 80) wan_ip (htons 1050)) = Some (q, rs') \<and>
     get_nat_ip_port_pair q NAT_EXTERNAL = Some (htonl 0x0A000002, htons 1000) \<and>
     nat_sum (\<lambda>j. True) q 26 0 14 mod 65535 =
       nat_sum (\<lambda>j. True) (tcp_packet (htonl 0x0B000001) (htons 80) wan_ip (htons 1050)) 26 0 14 mod 65535"
proof -
  let ?e = "fresh_entry wan_ip 1050 (htonl 0x0A000002) (htons 1000) 0"
  let ?rs = "nat_router\<lparr>nat_table := [?e]\<rparr>"
  let ?p = "tcp_packet (htonl 0x0B000001) (htons 80) wan_ip (htons 1050)"
  let ?ip = "populate_ip 20 6 (htonl 0x0B000001) wan_ip"
  have ok: "nat_ok ?rs" by (simp add: nat_ok_def compute_nat_checksums_ok)
  have f: "get_nat_table_entry ?rs ?p NAT_EXTERNAL = Some (Some 0)"
    by (simp add: get_nat_table_entry_def tcp_packet_pair found_nat_table_match_def)
  obtain q where t: "translate NAT_INTERNAL ?e ?p = Some q"
    using translate_total[OF tcp_packet_hdr(1) tcp_transport, of "htonl 0x0B000001" "htons 80" wan_ip "htons 1050" NAT_INTERNAL ?e]
    by (auto simp: tcp_packet_hdr)
  with process_nat_ext_eq[OF f] have o: "process_nat_ext_packet ?rs ?p = Some (q, hit 0 ?rs)" by simp
  have "get_nat_ip_port_pair q NAT_EXTERNAL = Some (htonl 0x0A000002, htons 1000)"
    using translated_pair(1)[OF t tcp_packet_hdr(1) tcp_transport] by (simp add: other_def new_side_def)
  with nat_ext_keeps_checksum[OF o ok tcp_packet_hdr(1), of 14] o show ?thesis
    by (auto simp: tcp_packet_hdr populate_ip_def sum_word_def)
qed

lemma nat_entry_for_cases:
  assumes "nat_entry_for rs p ext = Some (i, rs')" and "get_ip_hdr p = Some ip" and "transport ip"
  obtains "nat_table rs' = nat_table rs" "i < length (nat_table rs)"
  | port ne where "nat_table rs' = nat_table rs @ [ne]" "i = length (nat_table rs)" "np_ip (ne_ext ne) = ext" "np_port (ne_ext ne) = htons port"
      "1024 < port" "is_unique_nat_ext_port rs port"
      "\<forall>old\<in>set (nat_table rs). get_nat_ip_port_pair p NAT_INTERNAL \<noteq> Some (np_ip (ne_int old), np_port (ne_int old))"
proof -
  from assms(1) obtain found where f: "get_nat_table_entry rs p NAT_INTERNAL = Some found"
    "(case found of Some i \<Rightarrow> Some (i, rs) | None \<Rightarrow> create_nat_table_entry rs p ext) = Some (i, rs')"
    by (auto simp: nat_entry_for_def split: bind_splits)
  show thesis
  proof (cases found)
    case (Some j)
    with f found_entry[of rs p NAT_INTERNAL j] that(1) show thesis by auto
  next
    case None
    with f(2) have "create_nat_table_entry rs p ext = Some (i, rs')" by simp
    from create_result[OF this assms(2)] obtain port sp where c: "i = length (nat_table rs)" "1024 < port" "is_unique_nat_ext_port rs port"
      "nat_table rs' = nat_table rs @ [fresh_entry ext port (ip_src ip) sp (clock rs)]" by metis
    obtain pair where pair: "get_nat_ip_port_pair p NAT_INTERNAL = Some pair"
      "find (\<lambda>i. found_nat_table_match (nat_table rs ! i) pair NAT_INTERNAL) [0..<length (nat_table rs)] = None"
      using f(1) None by (auto simp: get_nat_table_entry_def split: bind_splits)
    then have "\<forall>old\<in>set (nat_table rs). get_nat_ip_port_pair p NAT_INTERNAL \<noteq> Some (np_ip (ne_int old), np_port (ne_int old))"
      by (auto simp: find_None_iff found_nat_table_match_def Let_def in_set_conv_nth)
    with c that(2) show thesis by simp
  qed
qed

text \<open>A packet for the external pair of an entry finds an entry with that pair.\<close>

lemma ext_entry_found:
  assumes "get_nat_ip_port_pair r NAT_EXTERNAL = Some (np_ip (ne_ext (nat_table rs ! i)), np_port (ne_ext (nat_table rs ! i)))" and "i < length (nat_table rs)"
  obtains j where "j < length (nat_table rs)" "get_nat_table_entry rs r NAT_EXTERNAL = Some (Some j)"
    "np_ip (ne_ext (nat_table rs ! j)) = np_ip (ne_ext (nat_table rs ! i))" "np_port (ne_ext (nat_table rs ! j)) = np_port (ne_ext (nat_table rs ! i))"
proof -
  let ?m = "\<lambda>j. found_nat_table_match (nat_table rs ! j) (np_ip (ne_ext (nat_table rs ! i)), np_port (ne_ext (nat_table rs ! i))) NAT_EXTERNAL"
  have e: "get_nat_table_entry rs r NAT_EXTERNAL = Some (find ?m [0..<length (nat_table rs)])" using assms(1) by (simp add: get_nat_table_entry_def)
  show thesis
  proof (cases "find ?m [0..<length (nat_table rs)]")
    case None
    then show ?thesis using assms(2) by (auto simp: find_None_iff found_nat_table_match_def)
  next
    case (Some j)
    with e that[of j] show ?thesis by (auto simp: find_Some_iff found_nat_table_match_def Let_def)
  qed
qed

text \<open>
  C22. Replies come back to the host that started the flow, unless the port search fails. If no two entries of the table share an external pair, an outgoing TCP or UDP packet is translated, and a packet
  then arrives that is addressed to the source which the translated packet shows, then it is rewritten to the original source address and port; or else there was no
  entry for that source, and the port drawn for the new one, although it passed the test of \<open>is_unique_nat_ext_port\<close>, is the external port of an older entry, whose
  internal host gets the packet. The second case is possible (\<open>nat_ext_port_collision\<close>), because the test compares the port in the wrong byte order.
\<close>

theorem nat_reply_reaches_host:
  assumes "process_nat_int_packet rs p ext = Some (q, rs1)" and "nat_ok rs" and "get_ip_hdr p = Some ip" and "transport ip"
    and "distinct (map (\<lambda>ne. (np_ip (ne_ext ne), np_port (ne_ext ne))) (nat_table rs))"
    and "get_ip_hdr r = Some rip" and "transport rip" and "54 \<le> length r"
    and "get_nat_ip_port_pair r NAT_EXTERNAL = get_nat_ip_port_pair q NAT_INTERNAL"
  shows "\<exists>r' rs2. process_nat_ext_packet rs1 r = Some (r', rs2) \<and>
    (get_nat_ip_port_pair r' NAT_EXTERNAL = get_nat_ip_port_pair p NAT_INTERNAL \<or>
     (\<exists>port. \<exists>old\<in>set (nat_table rs). 1024 < port \<and> is_unique_nat_ext_port rs port \<and> np_port (ne_ext old) = htons port \<and> np_ip (ne_ext old) = ext \<and>
        (\<forall>ne\<in>set (nat_table rs). get_nat_ip_port_pair p NAT_INTERNAL \<noteq> Some (np_ip (ne_int ne), np_port (ne_int ne))) \<and>
        get_nat_ip_port_pair r' NAT_EXTERNAL = Some (np_ip (ne_int old), np_port (ne_int old))))"
proof -
  obtain i rs0 where o: "nat_entry_for rs p ext = Some (i, rs0)" "i < length (nat_table rs0)"
    "translate NAT_EXTERNAL (nat_table rs0 ! i) p = Some q" "rs1 = hit i rs0"
    "get_nat_ip_port_pair p NAT_INTERNAL = Some (np_ip (ne_int (nat_table rs0 ! i)), np_port (ne_int (nat_table rs0 ! i)))"
    using process_nat_int_transport[OF assms(1,3,4,2)] by metis
  let ?ext = "\<lambda>ne. (np_ip (ne_ext ne), np_port (ne_ext ne))" and ?ne = "nat_table rs1 ! i"
  have sides: "ne_ext (nat_table rs1 ! j) = ne_ext (nat_table rs0 ! j)" "ne_int (nat_table rs1 ! j) = ne_int (nat_table rs0 ! j)"
    "length (nat_table rs1) = length (nat_table rs0)" if "j < length (nat_table rs0)" for j
    using o(2,4) that by (auto simp: hit_def nth_list_update)
  have pair: "get_nat_ip_port_pair r NAT_EXTERNAL = Some (?ext ?ne)"
    using translated_pair(1)[OF o(3) assms(3,4)] assms(9) sides(1)[OF o(2)] by (simp add: other_def new_side_def)
  obtain j where j: "j < length (nat_table rs0)" "?ext (nat_table rs0 ! j) = ?ext (nat_table rs0 ! i)"
      "get_nat_table_entry rs1 r NAT_EXTERNAL = Some (Some j)"
  proof (rule ext_entry_found[OF pair])
    show "i < length (nat_table rs1)" using o(2) sides(3) by simp
  qed (use that sides o(2) in auto)
  obtain r' where r': "translate NAT_INTERNAL (nat_table rs1 ! j) r = Some r'" using translate_total[OF assms(6-8)] by blast
  have run: "process_nat_ext_packet rs1 r = Some (r', hit j rs1)" using process_nat_ext_eq[OF j(3)] r' by simp
  have to: "get_nat_ip_port_pair r' NAT_EXTERNAL = Some (np_ip (ne_int (nat_table rs0 ! j)), np_port (ne_int (nat_table rs0 ! j)))"
    using translated_pair(1)[OF r' assms(6,7)] sides(2)[OF j(1)] by (simp add: other_def new_side_def)
  show ?thesis
  proof (cases "j = i")
    case True
    with run to o(5) show ?thesis by auto
  next
    case False
    show ?thesis
    proof (rule nat_entry_for_cases[OF o(1) assms(3,4)])
      assume "nat_table rs0 = nat_table rs" "i < length (nat_table rs)"
      then have "j = i" using nth_eq_iff_index_eq[OF assms(5), of j i] j(1,2) by simp
      with False show ?thesis by simp
    next
      fix port ne
      assume c: "nat_table rs0 = nat_table rs @ [ne]" "i = length (nat_table rs)" "np_ip (ne_ext ne) = ext" "np_port (ne_ext ne) = htons port"
        "1024 < port" "is_unique_nat_ext_port rs port"
        "\<forall>old\<in>set (nat_table rs). get_nat_ip_port_pair p NAT_INTERNAL \<noteq> Some (np_ip (ne_int old), np_port (ne_int old))"
      then have "j < length (nat_table rs)" using j(1) False by simp
      then have "nat_table rs0 ! j \<in> set (nat_table rs)" "?ext (nat_table rs0 ! j) = (ext, htons port)"
        using c(1-4) j(2) by (simp_all add: nth_append)
      with run to c(5-7) show ?thesis by (auto intro!: bexI[of _ "nat_table rs0 ! j"] exI[of _ port])
    qed
  qed
qed

theorem nat_reply_reaches_host_witness:
  "\<exists>q rs1 r' rs2. process_nat_int_packet nat_router tcp_out wan_ip = Some (q, rs1) \<and>
     process_nat_ext_packet rs1 (tcp_packet (htonl 0x0B000001) (htons 80) wan_ip (htons 1050)) = Some (r', rs2) \<and>
     get_nat_ip_port_pair r' NAT_EXTERNAL = Some (htonl 0x0A000002, htons 1000)"
proof -
  let ?r = "tcp_packet (htonl 0x0B000001) (htons 80) wan_ip (htons 1050)"
  let ?ip = "populate_ip 20 6 (htonl 0x0A000002) (htonl 0x0B000001)"
  obtain q rs1 where o: "process_nat_int_packet nat_router tcp_out wan_ip = Some (q, rs1)"
    "nat_table rs1 = [(fresh_entry wan_ip 1050 (htonl 0x0A000002) (htons 1000) 0)\<lparr>ne_hits := 1\<rparr>]"
    "get_nat_ip_port_pair q NAT_INTERNAL = Some (wan_ip, htons 1050)" by (rule nat_router_out)
  have ip: "get_ip_hdr tcp_out = Some ?ip" by (simp add: tcp_out_def tcp_packet_hdr)
  have none: "nat_table nat_router = []" by (simp add: nat_router_def idle_router_def)
  then have d: "distinct (map (\<lambda>ne. (np_ip (ne_ext ne), np_port (ne_ext ne))) (nat_table nat_router))" by simp
  have e: "get_nat_ip_port_pair ?r NAT_EXTERNAL = get_nat_ip_port_pair q NAT_INTERNAL" by (simp add: o(3) tcp_packet_pair)
  have l: "54 \<le> length ?r" by (simp add: tcp_packet_hdr)
  from nat_reply_reaches_host[OF o(1) nat_router_ok ip tcp_transport d tcp_packet_hdr(1) tcp_transport l e] o(1) none
  show ?thesis by (auto simp: tcp_out_def tcp_packet_pair)
qed

text \<open>
  C26. The search for a free external port ends as soon as the random generator draws an acceptable number, and outgoing TCP and
  UDP packets of at least 54 bytes are then always translated; a packet of a protocol other than TCP, UDP and ICMP makes the
  code use an entry it does not have.
\<close>

theorem nat_int_returns:
  assumes "get_ip_hdr p = Some ip" and "54 \<le> length p" and "nat_ok rs" and "rand_pos rs \<le> n" and "rand rs n > 1024"
    and "is_unique_nat_ext_port rs (rand rs n)"
  shows "(transport ip \<longrightarrow> process_nat_int_packet rs p ext \<noteq> None) \<and>
    (ip_p ip \<notin> {IP_PROTO_TCP, IP_PROTO_UDP, IP_PROTO_ICMP} \<longrightarrow> process_nat_int_packet rs p ext = None)"
proof (cases "transport ip")
  case True
  obtain port rs1 where d: "draw_port rs = Some (port, rs1)" using draw_port_returns[OF assms(4-6)] by auto
  obtain pair where pair: "get_nat_ip_port_pair p NAT_INTERNAL = Some pair"
    using True assms(1,2) nat_tcp_wire.get_ok[of 34 p] nat_udp_wire.get_ok[of 34 p]
    by (auto simp: get_nat_ip_port_pair_def get_nat_tcp_hdr_def get_nat_udp_hdr_def)
  obtain sp where sp: "get_src_port_number p (ip_p ip) = Some sp"
    using True assms(1,2) nat_tcp_wire.get_ok[of 34 p] nat_udp_wire.get_ok[of 34 p]
    by (auto simp: get_src_port_number_def get_nat_tcp_hdr_def get_nat_udp_hdr_def)
  have "\<exists>i rs1. nat_entry_for rs p ext = Some (i, rs1)"
    using create_eq[OF assms(1) d sp, of ext] pair
    by (auto simp: nat_entry_for_def get_nat_table_entry_def split: option.split)
  then obtain i rs1 where f: "nat_entry_for rs p ext = Some (i, rs1)" by blast
  have i: "i < length (nat_table rs1)" using nat_entry_for_result[OF f assms(1) True assms(3)] by blast
  have t: "transport ip \<or> ip_p ip = IP_PROTO_ICMP" using True by blast
  obtain q where "translate NAT_EXTERNAL (nat_table rs1 ! i) p = Some q" using translate_total[OF assms(1) True assms(2)] by blast
  with process_nat_int_eq[OF assms(1) t f i] True show ?thesis by auto
next
  case False
  with assms(1) show ?thesis by (simp add: process_nat_int_packet_def)
qed

theorem nat_int_returns_witness:
  "process_nat_int_packet nat_router tcp_out wan_ip \<noteq> None"
proof -
  have ip: "get_ip_hdr tcp_out = Some (populate_ip 20 6 (htonl 0x0A000002) (htonl 0x0B000001))"
    by (simp add: tcp_out_def tcp_packet_hdr)
  have r: "rand_pos nat_router \<le> 1" "1024 < rand nat_router 1" "is_unique_nat_ext_port nat_router (rand nat_router 1)"
    "54 \<le> length tcp_out"
    by (simp_all add: nat_router_def idle_router_def is_unique_nat_ext_port_def tcp_out_def tcp_packet_hdr)
  from nat_int_returns[OF ip r(4) nat_router_ok r(1-3), of wan_ip] tcp_transport show ?thesis by (simp add: populate_ip_def)
qed

text \<open>
  External ports are not always unique: \<open>is_unique_nat_ext_port\<close> compares the candidate in host order with ports stored in
  network order, so a port that is in use can be drawn again, and two internal hosts share one external pair.
\<close>

theorem nat_ext_port_collision:
  "\<exists>rs p q rs' a b. nat_ok rs \<and> distinct (map (\<lambda>ne. (np_ip (ne_ext ne), np_port (ne_ext ne))) (nat_table rs)) \<and>
     process_nat_int_packet rs p wan_ip = Some (q, rs') \<and> nat_table rs' = [a, b] \<and>
     np_ip (ne_ext a) = np_ip (ne_ext b) \<and> np_port (ne_ext a) = np_port (ne_ext b) \<and> np_ip (ne_int a) \<noteq> np_ip (ne_int b)"
proof -
  let ?a = "fresh_entry wan_ip 0x0500 (htonl 0x0A000009) (htons 1000) 0"
  let ?b = "fresh_entry wan_ip 0x0500 (htonl 0x0A000002) (htons 1000) 0"
  let ?rs = "idle_router\<lparr>rand := (\<lambda>_. 0x0500), nat_table := [?a]\<rparr>"
  let ?ip = "populate_ip 20 6 (htonl 0x0A000002) (htonl 0x0B000001)"
  have ip: "get_ip_hdr tcp_out = Some ?ip" by (simp add: tcp_out_def tcp_packet_hdr)
  have ok: "nat_ok ?rs" by (simp add: nat_ok_def compute_nat_checksums_ok)
  have h: "htons 0x0500 = (5::u16)" by code_simp
  have d: "draw_port ?rs = Some (0x0500, ?rs\<lparr>rand_pos := 1\<rparr>)"
    by (simp add: draw_port.simps idle_router_def is_unique_nat_ext_port_def h)
  have s: "get_src_port_number tcp_out (ip_p ?ip) = Some (htons 1000)"
    by (simp add: tcp_out_def get_src_port_number_def tcp_packet_hdr populate_ip_def)
  have n: "get_nat_table_entry ?rs tcp_out NAT_INTERNAL = Some None"
    by (simp add: get_nat_table_entry_def tcp_out_def tcp_packet_pair found_nat_table_match_def)
  from create_eq[OF ip d s, of wan_ip] n have f: "nat_entry_for ?rs tcp_out wan_ip = Some (1,
      cond_signal NatTableCond (?rs\<lparr>rand_pos := 1, nat_table := [?a, ?b]\<rparr>))"
    by (simp add: nat_entry_for_def populate_ip_def idle_router_def)
  have l: "54 \<le> length tcp_out" by (simp add: tcp_out_def tcp_packet_hdr)
  obtain q where q: "translate NAT_EXTERNAL ?b tcp_out = Some q" using translate_total[OF ip tcp_transport l] by blast
  have t: "transport ?ip \<or> ip_p ?ip = IP_PROTO_ICMP" by (simp add: populate_ip_def)
  have "process_nat_int_packet ?rs tcp_out wan_ip =
      Some (q, hit 1 (cond_signal NatTableCond (?rs\<lparr>rand_pos := 1, nat_table := [?a, ?b]\<rparr>)))"
    using process_nat_int_eq[OF ip t f] q by (simp add: cond_signal_def)
  with ok show ?thesis
    by (intro exI[of _ ?rs] exI[of _ tcp_out] exI[of _ q] exI[of _ ?a] exI[of _ "?b\<lparr>ne_hits := 1\<rparr>"] exI) (auto simp: hit_def cond_signal_def)
qed

end
