(* ===== verification/Icmp.thy ===== *)
theory Icmp
  imports Arp Checksums
begin

text \<open>
  ICMP, \<^verbatim>\<open>or_icmp.c\<close>: echo replies and error messages (\<open>send_icmp_packet\<close>), echo requests, and the
  queue of received echo replies that \<^verbatim>\<open>or_sping.c\<close> waits on.
\<close>

section \<open>Sending\<close>

text \<open>
  \<open>Some (1, rs)\<close> is the failure to find a next hop. An error message quotes the IP header and eight bytes of the
  packet it is about; reading them faults when the packet is shorter.
\<close>

definition send_icmp_packet ::
  "router_state \<Rightarrow> byte list \<Rightarrow> byte \<Rightarrow> byte \<Rightarrow> (int \<times> router_state) outcome" where
  "send_icmp_packet rs src_packet type code = do {
     ip \<leftarrow> get_ip_hdr src_packet;
     (case get_next_hop rs 32 (ip_src ip) of
        None \<Rightarrow> Some (1, rs)
      | Some (next_hop, iface) \<Rightarrow> do {
          iface_struct \<leftarrow> get_iface rs iface;
          payload \<leftarrow> (if type = ICMP_TYPE_ECHO_REPLY then mem_ld src_packet 38 (length src_packet - 38)
                      else map_option (\<lambda>bs. replicate 4 0 @ bs) (mem_ld src_packet ETH_HDR_LEN (20 + 8)));
          let new_packet = replicate (if type = ICMP_TYPE_ECHO_REPLY then length src_packet
                                      else 14 + 20 + 4 + 4 + 20 + 8) 0;
          new_packet \<leftarrow> populate_icmp new_packet type code payload;
          new_packet \<leftarrow> store_icmp_checksum new_packet (int (length payload));
          new_packet \<leftarrow> put_ip_hdr new_packet
            (populate_ip (word_of_nat (4 + length payload)) IP_PROTO_ICMP
              (if type = ICMP_TYPE_ECHO_REPLY \<or>
                  type = ICMP_TYPE_DESTINATION_UNREACHABLE \<and> code = ICMP_CODE_PORT_UNREACHABLE
               then ip_dst ip else ie_ip iface_struct) (ip_src ip));
          new_packet \<leftarrow> store_ip_checksum new_packet;
          new_eth \<leftarrow> get_eth_hdr new_packet;
          new_packet \<leftarrow> put_eth_hdr new_packet
            (populate_eth_hdr new_eth None (ie_addr iface_struct) ETH_TYPE_IP);
          send_ip rs new_packet next_hop (ie_name iface_struct) }) }"

definition send_icmp_echo_request_packet :: "router_state \<Rightarrow> u32 \<Rightarrow> u16 \<Rightarrow> (int \<times> router_state) outcome" where
  "send_icmp_echo_request_packet rs dst ident =
     (case get_next_hop rs 32 dst of
        None \<Rightarrow> Some (1, rs)
      | Some (next_hop, iface) \<Rightarrow> do {
          iface_struct \<leftarrow> get_iface rs iface;
          let icmp_payload = enc16 ident @ [0, 0] @ populate_padding (60 - 4);
          let packet = replicate (14 + 20 + 4 + 60) 0;
          packet \<leftarrow> populate_icmp packet ICMP_TYPE_ECHO_REQUEST ICMP_CODE_ECHO icmp_payload;
          packet \<leftarrow> store_icmp_checksum packet 60;
          packet \<leftarrow> put_ip_hdr packet (populate_ip (4 + 60) IP_PROTO_ICMP (ie_ip iface_struct) dst);
          packet \<leftarrow> store_ip_checksum packet;
          eth \<leftarrow> get_eth_hdr packet;
          packet \<leftarrow> put_eth_hdr packet (populate_eth_hdr eth None (ie_addr iface_struct) ETH_TYPE_IP);
          send_ip rs packet next_hop (ie_name iface_struct) })"

section \<open>Receiving\<close>

definition process_icmp_echo_reply_packet :: "router_state \<Rightarrow> byte list \<Rightarrow> (int \<times> router_state) outcome" where
  "process_icmp_echo_reply_packet rs packet = do {
     let sping_entry = \<lparr>sq_packet = packet, sq_arrival_time = clock rs\<rparr>;
     rs \<leftarrow> acquire SpingQueue Wr rs;
     let rs = cond_signal SpingCond (rs\<lparr>sping_queue := sping_queue rs @ [sping_entry]\<rparr>);
     rs \<leftarrow> release SpingQueue rs;
     Some (1, rs) }"

definition process_icmp_packet :: "router_state \<Rightarrow> byte list \<Rightarrow> router_state outcome" where
  "process_icmp_packet rs packet = do {
     icmp \<leftarrow> get_icmp_hdr packet;
     rs \<leftarrow> (if icmp_type icmp = ICMP_TYPE_ECHO_REQUEST
            then map_option snd (send_icmp_packet rs packet ICMP_TYPE_ECHO_REPLY ICMP_CODE_ECHO) else Some rs);
     (if icmp_type icmp = ICMP_TYPE_ECHO_REPLY
      then map_option snd (process_icmp_echo_reply_packet rs packet) else Some rs) }"

section \<open>Waiting for an echo reply\<close>

text \<open>The inner loop of \<open>wait_for_reply\<close>: whether a reply with this ident was there, and the queue without it.\<close>

fun sping_scan :: "u16 \<Rightarrow> sping_queue_entry list \<Rightarrow> (bool \<times> sping_queue_entry list) outcome" where
  "sping_scan ident [] = Some (False, [])"
| "sping_scan ident (se # sping_walker) = do {
     pckt_id \<leftarrow> ld16 (sq_packet se) 38;
     if pckt_id = ident then Some (True, sping_walker)
     else do { (found, rest) \<leftarrow> sping_scan ident sping_walker; Some (found, se # rest) } }"

text \<open>
  What happens to the waiting thread: the condition variable is signalled after other threads appended these entries, or
  the wait times out. The mutex is given up during the wait. An exhausted list of events is a thread that is still blocked.
\<close>

datatype wake = Signalled "sping_queue_entry list" | TimedOut

fun wait_loop :: "wake list \<Rightarrow> router_state \<Rightarrow> u16 \<Rightarrow> (int \<times> router_state) outcome" where
  "wait_loop [] rs ident = None"
| "wait_loop (TimedOut # ws) rs ident = Some (1, rs)"
| "wait_loop (Signalled es # ws) rs ident = do {
     (found, q) \<leftarrow> sping_scan ident (sping_queue rs @ es);
     let rs = rs\<lparr>sping_queue := q\<rparr>;
     if found then Some (0, rs) else wait_loop ws rs ident }"

definition wait_for_reply :: "wake list \<Rightarrow> router_state \<Rightarrow> u16 \<Rightarrow> (int \<times> router_state) outcome" where
  "wait_for_reply ws rs ident = do {
     rs \<leftarrow> acquire SpingQueue Wr rs;
     (response, rs) \<leftarrow> wait_loop ws rs ident;
     rs \<leftarrow> release SpingQueue rs;
     Some (response, rs) }"

text \<open>One round of \<open>sping_queue_cleanup_thread\<close>.\<close>

definition sping_queue_cleanup :: "router_state \<Rightarrow> router_state outcome" where
  "sping_queue_cleanup rs = do {
     rs \<leftarrow> acquire SpingQueue Wr rs;
     let rs = rs\<lparr>sping_queue := filter (\<lambda>sqe. \<not> clock rs - sq_arrival_time sqe > 30) (sping_queue rs)\<rparr>;
     release SpingQueue rs }"

section \<open>The frames\<close>

text \<open>An ICMP message in an IP packet in an Ethernet frame whose destination is still to be filled in.\<close>

definition icmp_frame :: "mac \<Rightarrow> ip_hdr \<Rightarrow> icmp_hdr \<Rightarrow> byte list \<Rightarrow> byte list" where
  "icmp_frame src ip icmp payload =
     enc_eth \<lparr>eth_dhost = mac_zero, eth_shost = src, eth_type = htons ETH_TYPE_IP\<rparr> @ enc_ip ip @ enc_icmp icmp @ payload"

lemma icmp_frame_simps [simp]:
  "get_ip_hdr (icmp_frame src ip icmp payload) = Some ip"
  "get_icmp_hdr (icmp_frame src ip icmp payload) = Some icmp"
  "length (icmp_frame src ip icmp payload) = 38 + length payload"
  using ip_wire.get_at[of "enc_eth \<lparr>eth_dhost = mac_zero, eth_shost = src, eth_type = htons ETH_TYPE_IP\<rparr>" 14 "enc_ip ip" "enc_icmp icmp @ payload"]
    icmp_wire.get_at[of "enc_eth \<lparr>eth_dhost = mac_zero, eth_shost = src, eth_type = htons ETH_TYPE_IP\<rparr> @ enc_ip ip" 34 "enc_icmp icmp" payload]
  by (simp_all add: icmp_frame_def hdr_defs eth_wire.enc_length ip_wire.enc_length icmp_wire.enc_length
      ip_wire.dec_enc icmp_wire.dec_enc)

definition well_summed :: "byte list \<Rightarrow> nat \<Rightarrow> bool" where
  "well_summed p n \<longleftrightarrow> verify_checksum p 14 20 = Some 0 \<and> verify_checksum p 34 (4 + n - n mod 2) = Some 0"

lemma build_icmp:
  assumes "length payload = n" and "n < 131068" and "ip_hl h = 5"
  shows "\<exists>x y. well_summed (icmp_frame src (h\<lparr>ip_sum := x\<rparr>) \<lparr>icmp_type = t, icmp_code = c, icmp_sum = y\<rparr> payload) n \<and>
    (\<forall>f. do { p \<leftarrow> populate_icmp (replicate (38 + n) 0) t c payload;
          p \<leftarrow> store_icmp_checksum p (int n);
          p \<leftarrow> put_ip_hdr p h;
          p \<leftarrow> store_ip_checksum p;
          eth \<leftarrow> get_eth_hdr p;
          p \<leftarrow> put_eth_hdr p (populate_eth_hdr eth None src ETH_TYPE_IP);
          f p } = f (icmp_frame src (h\<lparr>ip_sum := x\<rparr>) \<lparr>icmp_type = t, icmp_code = c, icmp_sum = y\<rparr> payload))"
proof -
  let ?z = "replicate 14 (0::byte)" and ?i = "\<lambda>y. \<lparr>icmp_type = t, icmp_code = c, icmp_sum = y\<rparr>"
  have z: "replicate (38 + n) (0::byte) = (?z @ replicate 20 0) @ replicate 4 0 @ replicate n 0"
    by (simp flip: replicate_add)
  have 1: "populate_icmp (replicate (38 + n) 0) t c payload = Some ((?z @ replicate 20 0) @ enc_icmp (?i 0) @ payload)"
    using assms(1) icmp_wire.put_at[of "?z @ replicate 20 0" 34 "replicate 4 0" "replicate n 0" "?i 0"]
    unfolding z by (simp add: populate_icmp_def put_icmp_hdr_def mem_st_def icmp_wire.enc_length)
  obtain y where y: "store_icmp_checksum ((?z @ replicate 20 0) @ enc_icmp (?i 0) @ payload) (int n) =
      Some ((?z @ replicate 20 0) @ enc_icmp (?i y) @ payload)"
    "verify_checksum (enc_icmp (?i y) @ payload) 0 (4 + n - n mod 2) = Some 0"
    using store_icmp_checksum_at[of "?z @ replicate 20 0" payload n "?i 0"] assms by auto
  have 2: "put_ip_hdr ((?z @ replicate 20 0) @ enc_icmp (?i y) @ payload) h = Some (?z @ enc_ip h @ enc_icmp (?i y) @ payload)"
    using ip_wire.put_at[of ?z 14 "replicate 20 0" "enc_icmp (?i y) @ payload" h] by (simp add: put_ip_hdr_def)
  obtain x where x: "store_ip_checksum (?z @ enc_ip h @ enc_icmp (?i y) @ payload) =
      Some (?z @ enc_ip (h\<lparr>ip_sum := x\<rparr>) @ enc_icmp (?i y) @ payload)"
    "verify_checksum (enc_ip (h\<lparr>ip_sum := x\<rparr>) @ enc_icmp (?i y) @ payload) 0 20 = Some 0"
    using store_ip_checksum_at[of ?z h] assms(3) by auto
  let ?r = "enc_ip (h\<lparr>ip_sum := x\<rparr>) @ enc_icmp (?i y) @ payload"
  let ?e = "\<lparr>eth_dhost = mac_zero, eth_shost = src, eth_type = htons ETH_TYPE_IP\<rparr>"
  have 3: "get_eth_hdr (?z @ ?r) = Some (dec_eth ?z)" "put_eth_hdr (?z @ ?r) ?e = Some (enc_eth ?e @ ?r)"
    using eth_wire.get_at[of "[]" 0 ?z ?r] eth_wire.put_at[of "[]" 0 ?z ?r ?e] by (simp_all add: hdr_defs)
  have "populate_eth_hdr (dec_eth ?z) None src ETH_TYPE_IP = ?e" by (simp add: populate_eth_hdr_def zero_headers)
  with 1 y(1) 2 x(1) 3 have "\<forall>f. do { p \<leftarrow> populate_icmp (replicate (38 + n) 0) t c payload;
          p \<leftarrow> store_icmp_checksum p (int n);
          p \<leftarrow> put_ip_hdr p h;
          p \<leftarrow> store_ip_checksum p;
          eth \<leftarrow> get_eth_hdr p;
          p \<leftarrow> put_eth_hdr p (populate_eth_hdr eth None src ETH_TYPE_IP);
          f p } = f (icmp_frame src (h\<lparr>ip_sum := x\<rparr>) (?i y) payload)"
    by (simp add: icmp_frame_def)
  moreover have "well_summed (icmp_frame src (h\<lparr>ip_sum := x\<rparr>) (?i y) payload) n"
    using x(2) y(2) verify_checksum_append[of "enc_eth ?e" 14 ?r 0 20]
      verify_checksum_append[of "enc_eth ?e @ enc_ip (h\<lparr>ip_sum := x\<rparr>)" 34 "enc_icmp (?i y) @ payload" 0]
    by (simp add: well_summed_def icmp_frame_def eth_wire.enc_length ip_wire.enc_length)
  ultimately show ?thesis by blast
qed

text \<open>The message that \<open>send_icmp_packet\<close> puts behind the ICMP header.\<close>

definition icmp_quote :: "byte \<Rightarrow> byte list \<Rightarrow> byte list" where
  "icmp_quote type p = (if type = ICMP_TYPE_ECHO_REPLY then drop 38 p else replicate 4 0 @ take 28 (drop 14 p))"

lemma send_icmp_packet_eq:
  assumes "get_ip_hdr p = Some ip" and "get_next_hop rs 32 (ip_src ip) = Some (nh, i)" and "get_iface rs i = Some ie"
    and "if type = ICMP_TYPE_ECHO_REPLY then 38 \<le> length p \<and> length p < 131106 else 42 \<le> length p"
  shows "\<exists>q x y. send_icmp_packet rs p type code = send_ip rs q nh (ie_name ie) \<and>
    q = icmp_frame (ie_addr ie)
      ((populate_ip (word_of_nat (4 + length (icmp_quote type p))) IP_PROTO_ICMP
         (if type = ICMP_TYPE_ECHO_REPLY \<or> type = ICMP_TYPE_DESTINATION_UNREACHABLE \<and> code = ICMP_CODE_PORT_UNREACHABLE
          then ip_dst ip else ie_ip ie) (ip_src ip))\<lparr>ip_sum := x\<rparr>)
      \<lparr>icmp_type = type, icmp_code = code, icmp_sum = y\<rparr> (icmp_quote type p) \<and>
    well_summed q (length (icmp_quote type p))"
proof -
  let ?n = "length (icmp_quote type p)"
  let ?h = "populate_ip (word_of_nat (4 + ?n)) IP_PROTO_ICMP
         (if type = ICMP_TYPE_ECHO_REPLY \<or> type = ICMP_TYPE_DESTINATION_UNREACHABLE \<and> code = ICMP_CODE_PORT_UNREACHABLE
          then ip_dst ip else ie_ip ie) (ip_src ip)"
  have q: "(if type = ICMP_TYPE_ECHO_REPLY then mem_ld p 38 (length p - 38)
      else map_option (\<lambda>bs. replicate 4 0 @ bs) (mem_ld p 14 (20 + 8))) = Some (icmp_quote type p)"
    using assms(4) by (auto simp: mem_ld_def icmp_quote_def)
  have n: "(if type = ICMP_TYPE_ECHO_REPLY then length p else 14 + 20 + 4 + 4 + 20 + 8) = 38 + ?n"
    using assms(4) by (auto simp: icmp_quote_def split: if_splits)
  have "?n < 131068" using assms(4) by (auto simp: icmp_quote_def split: if_splits)
  moreover have "ip_hl ?h = 5" by (simp add: populate_ip_def)
  ultimately obtain x y where w: "well_summed (icmp_frame (ie_addr ie) (?h\<lparr>ip_sum := x\<rparr>)
        \<lparr>icmp_type = type, icmp_code = code, icmp_sum = y\<rparr> (icmp_quote type p)) ?n"
    and b: "\<forall>f. do { p \<leftarrow> populate_icmp (replicate (38 + ?n) 0) type code (icmp_quote type p);
          p \<leftarrow> store_icmp_checksum p (int ?n);
          p \<leftarrow> put_ip_hdr p ?h;
          p \<leftarrow> store_ip_checksum p;
          eth \<leftarrow> get_eth_hdr p;
          p \<leftarrow> put_eth_hdr p (populate_eth_hdr eth None (ie_addr ie) ETH_TYPE_IP);
          (f p :: (int \<times> router_state) option) } = f (icmp_frame (ie_addr ie) (?h\<lparr>ip_sum := x\<rparr>)
        \<lparr>icmp_type = type, icmp_code = code, icmp_sum = y\<rparr> (icmp_quote type p))"
    using build_icmp[OF refl, of "icmp_quote type p" ?h "ie_addr ie" type code] by blast
  have "send_icmp_packet rs p type code = do { p \<leftarrow> populate_icmp (replicate (38 + ?n) 0) type code (icmp_quote type p);
          p \<leftarrow> store_icmp_checksum p (int ?n);
          p \<leftarrow> put_ip_hdr p ?h;
          p \<leftarrow> store_ip_checksum p;
          eth \<leftarrow> get_eth_hdr p;
          p \<leftarrow> put_eth_hdr p (populate_eth_hdr eth None (ie_addr ie) ETH_TYPE_IP);
          send_ip rs p nh (ie_name ie) }"
    unfolding send_icmp_packet_def assms(1) bind.bind_lunit assms(2) option.case prod.case assms(3) Let_def q n ..
  also note spec[OF b, of "\<lambda>p. send_ip rs p nh (ie_name ie)"]
  finally show ?thesis using w by blast
qed

lemma sping_scan_eq:
  assumes "\<forall>se\<in>set q. 40 \<le> length (sq_packet se)"
  shows "sping_scan ident q = Some (list_ex (\<lambda>se. ld16 (sq_packet se) 38 = Some ident) q,
    remove_first (\<lambda>se. ld16 (sq_packet se) 38 = Some ident) q)"
  using assms
proof (induction q)
  case (Cons se q)
  then obtain w where "ld16 (sq_packet se) 38 = Some w" using ld16_Some[of 38 "sq_packet se"] by force
  with Cons show ?case by simp
qed simp

lemma wait_loop_waits:
  assumes "\<forall>se\<in>set (sping_queue rs @ concat ess). 40 \<le> length (sq_packet se)"
    and "ess = [] \<or> \<not> list_ex (\<lambda>se. ld16 (sq_packet se) 38 = Some ident) (sping_queue rs @ concat ess)"
  shows "wait_loop (map Signalled ess @ ws) rs ident = wait_loop ws (rs\<lparr>sping_queue := sping_queue rs @ concat ess\<rparr>) ident"
  using assms
proof (induction ess arbitrary: rs)
  case (Cons es ess)
  let ?q = "sping_queue rs @ es" and ?P = "\<lambda>se. ld16 (sq_packet se) 38 = Some ident"
  have "\<not> list_ex ?P ?q" using Cons.prems(2) by simp
  moreover from this have "remove_first ?P ?q = ?q" by (intro remove_first_id) (simp add: list_ex_iff)
  moreover have "sping_scan ident ?q = Some (list_ex ?P ?q, remove_first ?P ?q)"
    using Cons.prems(1) by (intro sping_scan_eq) auto
  ultimately have "sping_scan ident ?q = Some (False, ?q)" by simp
  with Cons.IH[of "rs\<lparr>sping_queue := ?q\<rparr>"] Cons.prems show ?case by simp
qed simp

section \<open>A router to evaluate on\<close>

text \<open>A router with the route 10.0.0.0/8 and the hardware address of the host 10.0.0.2.\<close>

definition icmp_router :: router_state where
  "icmp_router = idle_router\<lparr>if_list := [eth1], rtable := [route_ten\<lparr>rt_iface := ''eth1'', rt_gw := 0\<rparr>],
     arp_cache := [\<lparr>ac_ip = htonl 0x0A000002, ac_arp_ha = Mac 9 9 9 9 9 9, ac_TTL = 0, ac_is_static = 1\<rparr>]\<rparr>"

definition ping :: "byte list" where
  "ping = icmp_frame (Mac 9 9 9 9 9 9) (populate_ip 12 IP_PROTO_ICMP (htonl 0x0A000002) (htonl 0x0A000001))
     \<lparr>icmp_type = 8, icmp_code = 0, icmp_sum = 0\<rparr> [1, 2, 3, 4, 5, 6, 7, 8]"

lemma icmp_router_simps:
  "get_next_hop icmp_router 32 (htonl 0x0A000002) = Some (htonl 0x0A000002, ''eth1'')"
  "get_iface icmp_router ''eth1'' = Some eth1"
  "in_arp_cache icmp_router (htonl 0x0A000002) = Some \<lparr>ac_ip = htonl 0x0A000002, ac_arp_ha = Mac 9 9 9 9 9 9, ac_TTL = 0, ac_is_static = 1\<rparr>"
  "lock_free WriteLock icmp_router" "sent icmp_router = []"
  by code_simp+

section \<open>Properties\<close>

text \<open>
  \<open>send_icmp_packet\<close> answers the sender of a packet: when there is a route back it hands exactly one
  well-formed message, with correct IP and ICMP checksums, to \<open>send_ip\<close>. An echo reply carries the payload of
  the request and comes from the address that was pinged; an error carries four zero bytes, the IP header and the
  first eight bytes behind it, and comes from the outgoing interface, a port unreachable from the address the
  packet was sent to. Without a route nothing happens and the call reports failure.
\<close>

theorem send_icmp_packet_answers:
  assumes "get_ip_hdr p = Some ip"
    and "if type = ICMP_TYPE_ECHO_REPLY then 38 \<le> length p \<and> length p < 131106 else 42 \<le> length p"
    and "\<forall>nh i. get_next_hop rs 32 (ip_src ip) = Some (nh, i) \<longrightarrow> get_iface rs i \<noteq> None"
  shows "case get_next_hop rs 32 (ip_src ip) of None \<Rightarrow> send_icmp_packet rs p type code = Some (1, rs)
    | Some (nh, i) \<Rightarrow> \<exists>ie q x y. get_iface rs i = Some ie \<and> send_icmp_packet rs p type code = send_ip rs q nh (ie_name ie) \<and>
        q = icmp_frame (ie_addr ie)
          ((populate_ip (word_of_nat (4 + length (icmp_quote type p))) IP_PROTO_ICMP
             (if type = ICMP_TYPE_ECHO_REPLY \<or> type = ICMP_TYPE_DESTINATION_UNREACHABLE \<and> code = ICMP_CODE_PORT_UNREACHABLE
              then ip_dst ip else ie_ip ie) (ip_src ip))\<lparr>ip_sum := x\<rparr>)
          \<lparr>icmp_type = type, icmp_code = code, icmp_sum = y\<rparr> (icmp_quote type p) \<and>
        well_summed q (length (icmp_quote type p))"
proof (cases "get_next_hop rs 32 (ip_src ip)")
  case None
  with assms(1) show ?thesis by (simp add: send_icmp_packet_def)
next
  case (Some a)
  obtain nh i where a: "a = (nh, i)" by (cases a)
  with Some assms(3) obtain ie where "get_iface rs i = Some ie" by auto
  with send_icmp_packet_eq[OF assms(1) Some[unfolded a] this assms(2)] show ?thesis
    unfolding Some a option.case prod.case by blast
qed

theorem send_icmp_packet_answers_witness:
  "\<exists>q x y. send_icmp_packet icmp_router ping 11 0 = send_ip icmp_router q (htonl 0x0A000002) ''eth1'' \<and>
     q = icmp_frame (Mac 0 1 2 3 4 5) ((populate_ip 36 1 (htonl 0x0A000001) (htonl 0x0A000002))\<lparr>ip_sum := x\<rparr>)
       \<lparr>icmp_type = 11, icmp_code = 0, icmp_sum = y\<rparr> (replicate 4 0 @ take 28 (drop 14 ping)) \<and> well_summed q 32"
proof -
  have ip: "get_ip_hdr ping = Some (populate_ip 12 IP_PROTO_ICMP (htonl 0x0A000002) (htonl 0x0A000001))" by (simp add: ping_def)
  have l: "length (icmp_quote 11 ping) = 32" "icmp_quote 11 ping = replicate 4 0 @ take 28 (drop 14 ping)"
    by (simp_all add: icmp_quote_def ping_def)
  have "if (11::byte) = ICMP_TYPE_ECHO_REPLY then 38 \<le> length ping \<and> length ping < 131106 else 42 \<le> length ping"
    by (simp add: ping_def)
  from send_icmp_packet_answers[OF ip this, of icmp_router 0] show ?thesis
    unfolding l(1) unfolding l(2) by (simp add: populate_ip_def icmp_router_simps eth1_def)
qed

text \<open>
  C25. An echo request whose sender is reachable and has its hardware address in the cache is answered at once: one frame, to that
  address, holding an echo reply with the same payload, from the address that was pinged. Nothing else changes.
\<close>

theorem echo_request_answered:
  assumes "get_icmp_hdr p = Some icmp" and "icmp_type icmp = ICMP_TYPE_ECHO_REQUEST" and "length p < 131106"
    and "get_ip_hdr p = Some ip" and "get_next_hop rs 32 (ip_src ip) = Some (nh, i)" and "get_iface rs i = Some ie"
    and "in_arp_cache rs nh = Some ace" and "lock_free WriteLock rs"
  shows "\<exists>q. process_icmp_packet rs p = Some (rs\<lparr>sent := sent rs @ [(ie_name ie, frame_to (ac_arp_ha ace) q)]\<rparr>) \<and>
    length q = length p \<and> drop 38 q = drop 38 p \<and> well_summed q (length p - 38) \<and>
    (\<exists>ip' icmp'. get_ip_hdr q = Some ip' \<and> ip_src ip' = ip_dst ip \<and> ip_dst ip' = ip_src ip \<and>
       get_icmp_hdr q = Some icmp' \<and> icmp_type icmp' = ICMP_TYPE_ECHO_REPLY)"
proof -
  have l: "38 \<le> length p" using assms(1) icmp_wire.get_SomeD[of p 34] by (simp add: get_icmp_hdr_def)
  then obtain q x y where q: "send_icmp_packet rs p 0 0 = send_ip rs q nh (ie_name ie)" "well_summed q (length p - 38)"
    "q = icmp_frame (ie_addr ie) ((populate_ip (word_of_nat (4 + length (icmp_quote 0 p))) IP_PROTO_ICMP (ip_dst ip) (ip_src ip))\<lparr>ip_sum := x\<rparr>)
      \<lparr>icmp_type = 0, icmp_code = 0, icmp_sum = y\<rparr> (drop 38 p)"
    using send_icmp_packet_eq[OF assms(4-6), of 0 0] assms(3) by (auto simp: icmp_quote_def)
  have ql: "length q = length p" using q(3) l by simp
  have d: "drop 38 q = drop 38 p"
    unfolding q(3) by (simp add: icmp_frame_def eth_wire.enc_length ip_wire.enc_length icmp_wire.enc_length)
  have "send_ip rs q nh (ie_name ie) = Some (if tx_result rs (length (sent rs)) \<noteq> 0 then 1 else 0,
     rs\<lparr>sent := sent rs @ [(ie_name ie, frame_to (ac_arp_ha ace) q)]\<rparr>)"
    using send_ip_known[OF assms(7,8)] ql l by simp
  then have "process_icmp_packet rs p = Some (rs\<lparr>sent := sent rs @ [(ie_name ie, frame_to (ac_arp_ha ace) q)]\<rparr>)"
    using assms(1,2) q(1) by (simp add: process_icmp_packet_def)
  moreover have "get_ip_hdr q = Some ((populate_ip (word_of_nat (4 + length (icmp_quote 0 p))) IP_PROTO_ICMP (ip_dst ip) (ip_src ip))\<lparr>ip_sum := x\<rparr>)"
    "get_icmp_hdr q = Some \<lparr>icmp_type = 0, icmp_code = 0, icmp_sum = y\<rparr>" unfolding q(3) by simp_all
  ultimately show ?thesis using ql d q(2) by (intro exI[of _ q]) (simp add: populate_ip_def)
qed

theorem echo_request_answered_witness:
  "\<exists>q. process_icmp_packet icmp_router ping = Some (icmp_router\<lparr>sent := [(''eth1'', frame_to (Mac 9 9 9 9 9 9) q)]\<rparr>) \<and>
     drop 38 q = [1, 2, 3, 4, 5, 6, 7, 8] \<and> well_summed q 8"
proof -
  have 1: "get_icmp_hdr ping = Some \<lparr>icmp_type = 8, icmp_code = 0, icmp_sum = 0\<rparr>" "length ping = 46"
    "get_ip_hdr ping = Some (populate_ip 12 IP_PROTO_ICMP (htonl 0x0A000002) (htonl 0x0A000001))" by (simp_all add: ping_def)
  have 2: "drop 38 ping = [1, 2, 3, 4, 5, 6, 7, 8]"
    by (simp add: ping_def icmp_frame_def eth_wire.enc_length ip_wire.enc_length icmp_wire.enc_length)
  have "ip_src (populate_ip 12 IP_PROTO_ICMP (htonl 0x0A000002) (htonl 0x0A000001)) = htonl 0x0A000002" by (simp add: populate_ip_def)
  with echo_request_answered[OF 1(1) _ _ 1(3), of icmp_router "htonl 0x0A000002" "''eth1''" eth1] icmp_router_simps 1(2) 2
  show ?thesis by (auto simp: eth1_def)
qed

text \<open>
  \<open>wait_for_reply\<close> looks at the queue of echo replies only when it is signalled. It then takes the first reply with the
  awaited identifier and leaves every other one in place, in order; when the wait times out nothing is taken.
\<close>

theorem wait_for_reply_takes_one:
  assumes "held rs = []" and "\<forall>se\<in>set (sping_queue rs @ concat ess @ es). 40 \<le> length (sq_packet se)"
    and "ess = [] \<or> \<not> list_ex (\<lambda>se. ld16 (sq_packet se) 38 = Some ident) (sping_queue rs @ concat ess)"
  shows "wait_for_reply (map Signalled ess @ TimedOut # ws) rs ident =
      Some (1, rs\<lparr>sping_queue := sping_queue rs @ concat ess\<rparr>) \<and>
    (list_ex (\<lambda>se. ld16 (sq_packet se) 38 = Some ident) (sping_queue rs @ concat ess @ es) \<longrightarrow>
     wait_for_reply (map Signalled ess @ Signalled es # ws) rs ident =
       Some (0, rs\<lparr>sping_queue := remove_first (\<lambda>se. ld16 (sq_packet se) 38 = Some ident) (sping_queue rs @ concat ess @ es)\<rparr>))"
proof -
  let ?h = "rs\<lparr>held := [(SpingQueue, Wr)]\<rparr>"
  have "\<forall>se\<in>set (sping_queue rs @ concat ess). 40 \<le> length (sq_packet se)" using assms(2) by auto
  with wait_loop_waits[of ?h ess ident] assms(3)
  have w: "wait_loop (map Signalled ess @ ws) ?h ident = wait_loop ws (?h\<lparr>sping_queue := sping_queue rs @ concat ess\<rparr>) ident" for ws by simp
  have s: "sping_scan ident (sping_queue rs @ concat ess @ es) = Some (list_ex (\<lambda>se. ld16 (sq_packet se) 38 = Some ident) (sping_queue rs @ concat ess @ es),
    remove_first (\<lambda>se. ld16 (sq_packet se) 38 = Some ident) (sping_queue rs @ concat ess @ es))" by (rule sping_scan_eq[OF assms(2)])
  show ?thesis unfolding wait_for_reply_def using assms(1) w s
    by (simp add: acquire_def release_def del: list_ex_append)
qed

theorem wait_for_reply_takes_one_witness:
  "wait_for_reply [Signalled [\<lparr>sq_packet = replicate 40 2, sq_arrival_time = 0\<rparr>],
       Signalled [\<lparr>sq_packet = replicate 40 1, sq_arrival_time = 0\<rparr>]] idle_router 0x0101 =
     Some (0, idle_router\<lparr>sping_queue := [\<lparr>sq_packet = replicate 40 2, sq_arrival_time = 0\<rparr>]\<rparr>)"
proof -
  let ?e = "\<lambda>b. \<lparr>sq_packet = replicate 40 b, sq_arrival_time = 0\<rparr>"
  have l: "ld16 (replicate 40 2) 38 = Some 0x0202" "ld16 (replicate 40 1) 38 = Some 0x0101" by code_simp+
  have "held idle_router = []" "sping_queue idle_router = []" by (simp_all add: idle_router_def)
  with wait_for_reply_takes_one[where rs = idle_router and ess = "[[?e 2]]" and es = "[?e 1]" and ident = "0x0101" and ws = "[]"] l show ?thesis by simp
qed

end
