(* ===== verification/Ip.thy ===== *)
theory Ip
  imports Link_State Nat_Table Icmp
begin

text \<open>
  The way of a packet through the router, \<^verbatim>\<open>or_ip.c\<close> with \<open>process_packet\<close> and \<open>integ_ip_output\<close> of \<^verbatim>\<open>or_main.c\<close>:
  the checks of the IP header, translation on WAN interfaces, delivery to the protocols of this router, forwarding, and the
  packets the router sends itself. The theorems follow a packet from the wire to the wire and say which locks the thread
  holds at the end.
\<close>

section \<open>Validity\<close>

abbreviation (input) IP_FRAG_MF :: u16 where "IP_FRAG_MF \<equiv> 0x2000"
abbreviation (input) IP_FRAG_OFFMASK :: u16 where "IP_FRAG_OFFMASK \<equiv> 0x1fff"

definition is_packet_valid :: "byte list \<Rightarrow> bool outcome" where
  "is_packet_valid packet = do {
     ip \<leftarrow> get_ip_hdr packet;
     if ip_v ip \<noteq> 4 then Some False
     else if ip_hl ip \<noteq> 5 then Some False
     else if ntohs (ip_off ip) AND IP_FRAG_MF \<noteq> 0 \<or> ntohs (ip_off ip) AND IP_FRAG_OFFMASK \<noteq> 0 then Some False
     else do {
       bad \<leftarrow> verify_checksum packet ETH_HDR_LEN (4 * unat (ip_hl ip));
       Some (bad = 0) } }"

section \<open>Packets for this router\<close>

definition process_local_packet :: "router_state \<Rightarrow> byte list \<Rightarrow> string \<Rightarrow> router_state outcome" where
  "process_local_packet rs packet interface = do {
     ip \<leftarrow> get_ip_hdr packet;
     if ip_p ip = IP_PROTO_TCP then Some (rs\<lparr>to_transport := to_transport rs @ [drop ETH_HDR_LEN packet]\<rparr>)
     else if ip_p ip = IP_PROTO_ICMP then process_icmp_packet rs packet
     else if ip_p ip = IP_PROTO_PWOSPF then process_pwospf_packet rs packet interface
     else if ip_p ip = IP_PROTO_UDP
     then map_option snd (send_icmp_packet rs packet ICMP_TYPE_DESTINATION_UNREACHABLE ICMP_CODE_PORT_UNREACHABLE)
     else map_option snd (send_icmp_packet rs packet ICMP_TYPE_DESTINATION_UNREACHABLE ICMP_CODE_PROTOCOL_UNREACHABLE) }"

section \<open>Forwarding\<close>

text \<open>The time to live, the checksum and the source hardware address of a packet that leaves through \<open>next_hop_iface\<close>.\<close>

definition rewrite_packet :: "router_state \<Rightarrow> byte list \<Rightarrow> string \<Rightarrow> byte list outcome" where
  "rewrite_packet rs packet next_hop_iface = do {
     ip \<leftarrow> get_ip_hdr packet;
     packet \<leftarrow> put_ip_hdr packet (ip\<lparr>ip_ttl := ip_ttl ip - 1, ip_sum := 0\<rparr>);
     packet \<leftarrow> store_ip_checksum packet;
     eth \<leftarrow> get_eth_hdr packet;
     sr_if \<leftarrow> get_iface rs next_hop_iface;
     put_eth_hdr packet (populate_eth_hdr eth None (ie_addr sr_if) ETH_TYPE_IP) }"

definition forward_packet :: "router_state \<Rightarrow> byte list \<Rightarrow> string \<Rightarrow> router_state outcome" where
  "forward_packet rs packet interface = do {
     ip \<leftarrow> get_ip_hdr packet;
     (case get_next_hop rs IF_LEN (ip_dst ip) of
        None \<Rightarrow> map_option snd (send_icmp_packet rs packet ICMP_TYPE_DESTINATION_UNREACHABLE ICMP_CODE_NET_UNKNOWN)
      | Some (next_hop, next_hop_iface) \<Rightarrow>
          (if strncmp_eq interface next_hop_iface IF_LEN
           then map_option snd (send_icmp_packet rs packet ICMP_TYPE_DESTINATION_UNREACHABLE ICMP_CODE_NET_UNREACHABLE)
           else do {
             iface \<leftarrow> get_iface rs next_hop_iface;
             (packet, rs) \<leftarrow> (if ie_is_wan iface \<noteq> 0 then do {
                 rs \<leftarrow> acquire NatTable Wr rs;
                 (packet, rs) \<leftarrow> process_nat_int_packet rs packet (ie_ip iface);
                 rs \<leftarrow> release NatTable rs;
                 Some (packet, rs) } else Some (packet, rs));
             ip \<leftarrow> get_ip_hdr packet;
             (if ip_ttl ip = 1
              then map_option snd (send_icmp_packet rs packet ICMP_TYPE_TIME_EXCEEDED ICMP_CODE_TTL_EXCEEDED)
              else do {
                packet_copy \<leftarrow> rewrite_packet rs packet next_hop_iface;
                map_option snd (send_ip rs packet_copy next_hop next_hop_iface) }) })) }"

section \<open>Dispatch\<close>

text \<open>The part of \<open>process_ip_packet\<close> between the locks.\<close>

definition handle_ip_packet :: "router_state \<Rightarrow> byte list \<Rightarrow> string \<Rightarrow> router_state outcome" where
  "handle_ip_packet rs packet interface = do {
     iface \<leftarrow> get_iface rs interface;
     (packet, rs) \<leftarrow> (if ie_is_wan iface = 1 then do {
         rs \<leftarrow> acquire NatTable Wr rs;
         (packet, rs) \<leftarrow> process_nat_ext_packet rs packet;
         rs \<leftarrow> release NatTable rs;
         Some (packet, rs) } else Some (packet, rs));
     ip \<leftarrow> get_ip_hdr packet;
     if iface_match_ip rs (ip_dst ip) then process_local_packet rs packet interface
     else if ip_dst ip = htonl PWOSPF_HELLO_TIP then process_pwospf_packet rs packet interface
     else forward_packet rs packet interface }"

definition process_ip_packet :: "router_state \<Rightarrow> byte list \<Rightarrow> string \<Rightarrow> router_state outcome" where
  "process_ip_packet rs packet interface = do {
     valid \<leftarrow> is_packet_valid packet;
     if \<not> valid then Some rs
     else do {
       rs \<leftarrow> acquire ArpCache Rd rs;
       rs \<leftarrow> acquire ArpQueue Wr rs;
       rs \<leftarrow> acquire IfList Rd rs;
       rs \<leftarrow> acquire RtableLock Rd rs;
       rs \<leftarrow> handle_ip_packet rs packet interface;
       rs \<leftarrow> release RtableLock rs;
       rs \<leftarrow> release IfList rs;
       rs \<leftarrow> release ArpQueue rs;
       release ArpCache rs } }"

definition process_packet :: "router_state \<Rightarrow> byte list \<Rightarrow> string \<Rightarrow> router_state outcome" where
  "process_packet rs packet interface = do {
     (active, rs) \<leftarrow> iface_is_active rs interface;
     if \<not> active then Some rs
     else do {
       ether_hdr \<leftarrow> get_eth_hdr packet;
       if ntohs (eth_type ether_hdr) = ETH_TYPE_IP then process_ip_packet rs packet interface
       else if ntohs (eth_type ether_hdr) = ETH_TYPE_ARP then process_arp_packet rs packet
       else Some rs } }"

section \<open>Packets of this router\<close>

text \<open>Without a route the function returns with its four locks held.\<close>

definition send_ip_packet :: "router_state \<Rightarrow> byte \<Rightarrow> u32 \<Rightarrow> u32 \<Rightarrow> byte list \<Rightarrow> (int \<times> router_state) outcome" where
  "send_ip_packet rs proto src dest payload = do {
     let new_packet = replicate (14 + 20 + length payload) 0;
     rs \<leftarrow> acquire ArpCache Rd rs;
     rs \<leftarrow> acquire ArpQueue Wr rs;
     rs \<leftarrow> acquire IfList Rd rs;
     rs \<leftarrow> acquire RtableLock Rd rs;
     new_packet \<leftarrow> mem_st new_packet (14 + 20) payload;
     new_packet \<leftarrow> put_ip_hdr new_packet (populate_ip (word_of_nat (length payload)) proto src dest);
     new_packet \<leftarrow> store_ip_checksum new_packet;
     (case get_next_hop rs 32 dest of
        None \<Rightarrow> Some (1, rs)
      | Some (next_hop, iface) \<Rightarrow> do {
          iface_struct \<leftarrow> get_iface rs iface;
          new_eth \<leftarrow> get_eth_hdr new_packet;
          new_packet \<leftarrow> put_eth_hdr new_packet (populate_eth_hdr new_eth None (ie_addr iface_struct) ETH_TYPE_IP);
          (ret, rs) \<leftarrow> send_ip rs new_packet next_hop (ie_name iface_struct);
          rs \<leftarrow> release RtableLock rs;
          rs \<leftarrow> release IfList rs;
          rs \<leftarrow> release ArpQueue rs;
          rs \<leftarrow> release ArpCache rs;
          Some (ret, rs) }) }"

text \<open>The entry point of the TCP stack, which also frees the payload.\<close>

definition integ_ip_output :: "router_state \<Rightarrow> byte list \<Rightarrow> byte \<Rightarrow> u32 \<Rightarrow> u32 \<Rightarrow> (int \<times> router_state) outcome" where
  "integ_ip_output rs payload proto src dest = send_ip_packet rs proto src dest payload"

section \<open>Common steps\<close>

lemma enc_eth_dhost: "mac_bytes m @ drop 6 (enc_eth e @ c) = enc_eth (e\<lparr>eth_dhost := m\<rparr>) @ c"
  by (cases e; cases m) (simp add: enc_eth_def)

lemma frame_hdrs:
  assumes "p = enc_eth eth @ enc_ip ip @ c"
  shows "get_eth_hdr p = Some eth" "get_ip_hdr p = Some ip"
  unfolding assms
  using eth_wire.get_at[of "[]" 0 "enc_eth eth" "enc_ip ip @ c"] ip_wire.get_at[of "enc_eth eth" 14 "enc_ip ip" c]
  by (simp_all add: hdr_defs eth_wire.enc_length ip_wire.enc_length eth_wire.dec_enc ip_wire.dec_enc)

lemma is_packet_valid_hl:
  assumes "get_ip_hdr p = Some ip" and "is_packet_valid p = Some True"
  shows "ip_v ip = 4" "ip_hl ip = 5" "verify_checksum p 14 20 = Some 0"
  using assms by (auto simp: is_packet_valid_def split: if_splits bind_splits)

lemma iface_is_active_eq:
  "held rs = [] \<Longrightarrow> get_iface rs i = Some ie \<Longrightarrow> iface_is_active rs i = Some (ie_is_active ie, rs)"
  by (simp add: iface_is_active_def acquire_def release_def get_iface_def)

lemma process_ip_packet_eq:
  assumes "held rs = []" and "is_packet_valid p = Some True"
    and "handle_ip_packet (rs\<lparr>held := ip_locks\<rparr>) p i = Some rs'" and "held rs' = [(RtableLock, m), (IfList, m'), (ArpQueue, Wr), (ArpCache, Rd)] @ h"
  shows "process_ip_packet rs p i = Some (rs'\<lparr>held := h\<rparr>)"
  using assms by (simp add: process_ip_packet_def acquire_def release_def)

lemma process_packet_ip:
  assumes "held rs = []" and "get_iface rs i = Some ie" and "ie_is_active ie" and "get_eth_hdr p = Some eth"
    and "ntohs (eth_type eth) = ETH_TYPE_IP"
  shows "process_packet rs p i = process_ip_packet rs p i"
  using assms by (simp add: process_packet_def iface_is_active_eq)

lemma rewrite_packet_eq:
  assumes "p = enc_eth eth @ enc_ip ip @ c" and "ip_hl ip = 5" and "get_iface rs i = Some ie"
  shows "\<exists>x. rewrite_packet rs p i = Some (enc_eth \<lparr>eth_dhost = eth_dhost eth, eth_shost = ie_addr ie, eth_type = htons ETH_TYPE_IP\<rparr> @
      enc_ip (ip\<lparr>ip_ttl := ip_ttl ip - 1, ip_sum := x\<rparr>) @ c) \<and>
    verify_checksum (enc_ip (ip\<lparr>ip_ttl := ip_ttl ip - 1, ip_sum := x\<rparr>) @ c) 0 20 = Some 0"
proof -
  let ?ip = "ip\<lparr>ip_ttl := ip_ttl ip - 1, ip_sum := 0\<rparr>"
  have 1: "put_ip_hdr p ?ip = Some (enc_eth eth @ enc_ip ?ip @ c)"
    unfolding assms(1) using ip_wire.put_at[of "enc_eth eth" 14 "enc_ip ip" c ?ip]
    by (simp add: put_ip_hdr_def eth_wire.enc_length ip_wire.enc_length)
  obtain x where x: "store_ip_checksum (enc_eth eth @ enc_ip ?ip @ c) = Some (enc_eth eth @ enc_ip (?ip\<lparr>ip_sum := x\<rparr>) @ c)"
    "verify_checksum (enc_ip (?ip\<lparr>ip_sum := x\<rparr>) @ c) 0 20 = Some 0"
    using store_ip_checksum_at[of "enc_eth eth" ?ip c] assms(2) by (auto simp: eth_wire.enc_length)
  let ?r = "enc_ip (?ip\<lparr>ip_sum := x\<rparr>) @ c"
  let ?e = "\<lparr>eth_dhost = eth_dhost eth, eth_shost = ie_addr ie, eth_type = htons ETH_TYPE_IP\<rparr>"
  have "put_eth_hdr (enc_eth eth @ ?r) ?e = Some (enc_eth ?e @ ?r)"
    using eth_wire.put_at[of "[]" 0 "enc_eth eth" ?r ?e] by (simp add: put_eth_hdr_def eth_wire.enc_length)
  moreover have "populate_eth_hdr eth None (ie_addr ie) ETH_TYPE_IP = ?e" by (simp add: populate_eth_hdr_def)
  ultimately show ?thesis
    using frame_hdrs[OF assms(1)] frame_hdrs(1)[OF refl, of eth "?ip\<lparr>ip_sum := x\<rparr>" c] 1 x assms(3)
    by (intro exI[of _ x]) (simp add: rewrite_packet_def)
qed

lemma held_cong_lookups:
  "get_iface (rs\<lparr>held := h\<rparr>) i = get_iface rs i" "iface_match_ip (rs\<lparr>held := h\<rparr>) a = iface_match_ip rs a"
  "get_next_hop (rs\<lparr>held := h\<rparr>) n a = get_next_hop rs n a" "in_arp_cache (rs\<lparr>held := h\<rparr>) a = in_arp_cache rs a"
  "rewrite_packet (rs\<lparr>held := h\<rparr>) p i = rewrite_packet rs p i"
  by (simp_all add: get_iface_def iface_match_ip_def get_next_hop_def in_arp_cache_def rewrite_packet_def)

section \<open>Properties\<close>

text \<open>
  C1. Forwarding, from the wire to the wire: a valid packet that arrives on an active interface and is for somebody else, with a
  route out of another interface and a next hop whose hardware address is cached, leaves that interface as one frame to
  that address. Its IP header differs in the time to live, which is one less, and the checksum, which is right; what
  follows the header is unchanged. Nothing else of the router changes and all locks are free. A time to live of 0 becomes 255.
\<close>

theorem forwards_packet:
  assumes "held rs = []" and "p = enc_eth eth @ enc_ip ip @ c" and "ntohs (eth_type eth) = ETH_TYPE_IP" and "is_packet_valid p = Some True"
    and "get_iface rs i = Some ie" and "ie_is_active ie" and "ie_is_wan ie \<noteq> 1"
    and "\<not> iface_match_ip rs (ip_dst ip)" and "ip_dst ip \<noteq> htonl PWOSPF_HELLO_TIP"
    and "get_next_hop rs 32 (ip_dst ip) = Some (nh, i')" and "\<not> strncmp_eq i i' 32" and "get_iface rs i' = Some ie'" and "ie_is_wan ie' = 0"
    and "ip_ttl ip \<noteq> 1" and "in_arp_cache rs nh = Some ace"
  shows "\<exists>x. process_packet rs p i = Some (rs\<lparr>sent := sent rs @ [(i', pad_frame
      (enc_eth \<lparr>eth_dhost = ac_arp_ha ace, eth_shost = ie_addr ie', eth_type = htons ETH_TYPE_IP\<rparr> @
       enc_ip (ip\<lparr>ip_ttl := ip_ttl ip - 1, ip_sum := x\<rparr>) @ c))]\<rparr>) \<and>
    verify_checksum (enc_ip (ip\<lparr>ip_ttl := ip_ttl ip - 1, ip_sum := x\<rparr>) @ c) 0 20 = Some 0"
proof -
  note h = frame_hdrs[OF assms(2)]
  from rewrite_packet_eq[OF assms(2) is_packet_valid_hl(2)[OF h(2) assms(4)] assms(12)] obtain x where
    rw: "rewrite_packet rs p i' = Some (enc_eth \<lparr>eth_dhost = eth_dhost eth, eth_shost = ie_addr ie', eth_type = htons ETH_TYPE_IP\<rparr> @
      enc_ip (ip\<lparr>ip_ttl := ip_ttl ip - 1, ip_sum := x\<rparr>) @ c)"
    and v: "verify_checksum (enc_ip (ip\<lparr>ip_ttl := ip_ttl ip - 1, ip_sum := x\<rparr>) @ c) 0 20 = Some 0" by blast
  let ?q = "enc_eth \<lparr>eth_dhost = eth_dhost eth, eth_shost = ie_addr ie', eth_type = htons ETH_TYPE_IP\<rparr> @
      enc_ip (ip\<lparr>ip_ttl := ip_ttl ip - 1, ip_sum := x\<rparr>) @ c"
  let ?rs = "rs\<lparr>held := ip_locks\<rparr>"
  have s: "send_ip ?rs ?q nh i' = Some (if tx_result ?rs (length (sent ?rs)) \<noteq> 0 then 1 else 0,
      ?rs\<lparr>sent := sent ?rs @ [(i', frame_to (ac_arp_ha ace) ?q)]\<rparr>)"
    by (rule send_ip_known) (use assms(15) in \<open>simp_all add: held_cong_lookups lock_free_def eth_wire.enc_length\<close>)
  have "forward_packet ?rs p i = Some (?rs\<lparr>sent := sent rs @ [(i', frame_to (ac_arp_ha ace) ?q)]\<rparr>)"
    unfolding forward_packet_def using h assms(10-14) rw s by (simp add: held_cong_lookups)
  then have "handle_ip_packet ?rs p i = Some (?rs\<lparr>sent := sent rs @ [(i', frame_to (ac_arp_ha ace) ?q)]\<rparr>)"
    unfolding handle_ip_packet_def using h assms(5,7,8,9) by (simp add: held_cong_lookups)
  from process_ip_packet_eq[OF assms(1,4) this, of Rd Rd "[]"] process_packet_ip[OF assms(1,5,6) h(1) assms(3)]
  have "process_packet rs p i = Some (rs\<lparr>sent := sent rs @ [(i', frame_to (ac_arp_ha ace) ?q)]\<rparr>)" using assms(1) by simp
  with v show ?thesis unfolding frame_to_def enc_eth_dhost by auto
qed

definition transit_router :: router_state where
  "transit_router = icmp_router\<lparr>rtable := [route_ten\<lparr>rt_iface := ''eth1'', rt_gw := 0\<rparr>],
     if_list := [eth1, eth1\<lparr>ie_name := ''eth2'', ie_addr := Mac 0 1 2 3 4 6, ie_ip := htonl 0x0B000001\<rparr>]\<rparr>"

text \<open>From 11.0.0.2 to 10.0.0.2.\<close>

definition transit_ip :: "byte \<Rightarrow> u16 \<Rightarrow> ip_hdr" where
  "transit_ip ttl s = (populate_ip 8 IP_PROTO_UDP (htonl 0x0B000002) (htonl 0x0A000002))\<lparr>ip_ttl := ttl, ip_sum := htons s\<rparr>"

definition transit_eth :: eth_hdr where
  "transit_eth = \<lparr>eth_dhost = Mac 0 1 2 3 4 6, eth_shost = Mac 7 7 7 7 7 7, eth_type = htons ETH_TYPE_IP\<rparr>"

theorem forwards_packet_witness:
  "\<exists>x. process_packet transit_router (enc_eth transit_eth @ enc_ip (transit_ip 64 0x25CE) @ [1, 2, 3, 4, 5, 6, 7, 8]) ''eth2'' =
     Some (transit_router\<lparr>sent := [(''eth1'', pad_frame
      (enc_eth \<lparr>eth_dhost = Mac 9 9 9 9 9 9, eth_shost = Mac 0 1 2 3 4 5, eth_type = htons ETH_TYPE_IP\<rparr> @
       enc_ip ((transit_ip 63 0)\<lparr>ip_sum := x\<rparr>) @ [1, 2, 3, 4, 5, 6, 7, 8]))]\<rparr>)"
proof -
  let ?p = "enc_eth transit_eth @ enc_ip (transit_ip 64 0x25CE) @ [1, 2, 3, 4, 5, 6, 7, 8]"
  let ?ie = "eth1\<lparr>ie_name := ''eth2'', ie_addr := Mac 0 1 2 3 4 6, ie_ip := htonl 0x0B000001\<rparr>"
  have 1: "held transit_router = []" "ntohs (eth_type transit_eth) = ETH_TYPE_IP" "is_packet_valid ?p = Some True"
    "get_iface transit_router ''eth2'' = Some ?ie" "ie_is_active ?ie" "ie_is_wan ?ie \<noteq> 1"
    "\<not> iface_match_ip transit_router (ip_dst (transit_ip 64 0x25CE))" "ip_dst (transit_ip 64 0x25CE) \<noteq> htonl PWOSPF_HELLO_TIP"
    "get_next_hop transit_router 32 (ip_dst (transit_ip 64 0x25CE)) = Some (htonl 0x0A000002, ''eth1'')" "\<not> strncmp_eq ''eth2'' ''eth1'' 32"
    "get_iface transit_router ''eth1'' = Some eth1" "ie_is_wan eth1 = 0" "ip_ttl (transit_ip 64 0x25CE) \<noteq> 1"
    "in_arp_cache transit_router (htonl 0x0A000002) = Some \<lparr>ac_ip = htonl 0x0A000002, ac_arp_ha = Mac 9 9 9 9 9 9, ac_TTL = 0, ac_is_static = 1\<rparr>"
    by code_simp+
  have "(transit_ip 64 0x25CE)\<lparr>ip_ttl := ip_ttl (transit_ip 64 0x25CE) - 1, ip_sum := x\<rparr> = (transit_ip 63 0)\<lparr>ip_sum := x\<rparr>" for x
    by (simp add: transit_ip_def)
  moreover have "sent transit_router = []" "ie_addr eth1 = Mac 0 1 2 3 4 5" by code_simp+
  ultimately show ?thesis using forwards_packet[OF 1(1) refl 1(2-14)] by auto
qed

text \<open>What stops a packet on its way, as the type and code of the ICMP message.\<close>

definition forward_error :: "router_state \<Rightarrow> ip_hdr \<Rightarrow> string \<Rightarrow> (byte \<times> byte) option" where
  "forward_error rs ip i =
     (case get_next_hop rs 32 (ip_dst ip) of
        None \<Rightarrow> Some (ICMP_TYPE_DESTINATION_UNREACHABLE, ICMP_CODE_NET_UNKNOWN)
      | Some (nh, i') \<Rightarrow>
          if strncmp_eq i i' 32 then Some (ICMP_TYPE_DESTINATION_UNREACHABLE, ICMP_CODE_NET_UNREACHABLE)
          else (case get_iface rs i' of None \<Rightarrow> None
            | Some ie' \<Rightarrow> if ie_is_wan ie' = 0 \<and> ip_ttl ip = 1 then Some (ICMP_TYPE_TIME_EXCEEDED, ICMP_CODE_TTL_EXCEEDED) else None))"

text \<open>
  C9. A packet that cannot be forwarded is reported to its sender: when it has no route, when the route leads back out of the
  interface it came in on, and when its time to live is 1 on arrival, exactly one frame goes out, an ICMP message of the
  right type and code with the IP header and the first eight bytes of the packet, correctly summed, to the next hop towards the sender;
  the packet itself is dropped.
\<close>

theorem undeliverable_reported:
  assumes "held rs = []" and "p = enc_eth eth @ enc_ip ip @ c" and "ntohs (eth_type eth) = ETH_TYPE_IP" and "is_packet_valid p = Some True"
    and "get_iface rs i = Some ie" and "ie_is_active ie" and "ie_is_wan ie \<noteq> 1" and "8 \<le> length c"
    and "\<not> iface_match_ip rs (ip_dst ip)" and "ip_dst ip \<noteq> htonl PWOSPF_HELLO_TIP" and "forward_error rs ip i = Some (ty, co)"
    and "get_next_hop rs 32 (ip_src ip) = Some (nh, i')" and "get_iface rs i' = Some ie'" and "in_arp_cache rs nh = Some ace"
  shows "\<exists>q x y. process_packet rs p i = Some (rs\<lparr>sent := sent rs @ [(ie_name ie', frame_to (ac_arp_ha ace) q)]\<rparr>) \<and>
    q = icmp_frame (ie_addr ie') ((populate_ip 36 IP_PROTO_ICMP (ie_ip ie') (ip_src ip))\<lparr>ip_sum := x\<rparr>)
      \<lparr>icmp_type = ty, icmp_code = co, icmp_sum = y\<rparr> (replicate 4 0 @ take 28 (drop 14 p)) \<and> well_summed q 32"
proof -
  note h = frame_hdrs[OF assms(2)]
  have l: "42 \<le> length p" using assms(2,8) by (simp add: eth_wire.enc_length ip_wire.enc_length)
  have ty: "ty \<noteq> ICMP_TYPE_ECHO_REPLY" "\<not> (ty = ICMP_TYPE_DESTINATION_UNREACHABLE \<and> co = ICMP_CODE_PORT_UNREACHABLE)"
    using assms(11) by (auto simp: forward_error_def split: option.splits if_splits)
  let ?rs = "rs\<lparr>held := ip_locks\<rparr>"
  have n: "icmp_quote ty p = replicate 4 0 @ take 28 (drop 14 p)" "length (icmp_quote ty p) = 32" using ty(1) l by (simp_all add: icmp_quote_def)
  have "get_next_hop ?rs 32 (ip_src ip) = Some (nh, i')" "get_iface ?rs i' = Some ie'"
    "if ty = ICMP_TYPE_ECHO_REPLY then 38 \<le> length p \<and> length p < 131106 else 42 \<le> length p"
    using assms(12,13) ty(1) l by (simp_all add: held_cong_lookups)
  from send_icmp_packet_eq[OF h(2) this, of co] obtain q x y where
    q: "send_icmp_packet ?rs p ty co = send_ip ?rs q nh (ie_name ie')" "q = icmp_frame (ie_addr ie')
      ((populate_ip 36 IP_PROTO_ICMP (ie_ip ie') (ip_src ip))\<lparr>ip_sum := x\<rparr>) \<lparr>icmp_type = ty, icmp_code = co, icmp_sum = y\<rparr> (icmp_quote ty p)"
    "well_summed q 32" unfolding n(2) using ty by auto
  have "6 \<le> length q" using q(2) n(2) by simp
  from send_ip_known[OF _ _ this, of ?rs nh ace "ie_name ie'"] assms(14)
  have s: "map_option snd (send_icmp_packet ?rs p ty co) = Some (?rs\<lparr>sent := sent rs @ [(ie_name ie', frame_to (ac_arp_ha ace) q)]\<rparr>)"
    by (simp add: q(1) held_cong_lookups lock_free_def)
  have "forward_packet ?rs p i = map_option snd (send_icmp_packet ?rs p ty co)"
    unfolding forward_packet_def using h(2) assms(11)
    by (auto simp: forward_error_def held_cong_lookups split: option.splits if_splits)
  then have "handle_ip_packet ?rs p i = Some (?rs\<lparr>sent := sent rs @ [(ie_name ie', frame_to (ac_arp_ha ace) q)]\<rparr>)"
    unfolding handle_ip_packet_def using h assms(5,7,9,10) s by (simp add: held_cong_lookups)
  from process_ip_packet_eq[OF assms(1,4) this, of Rd Rd "[]"] process_packet_ip[OF assms(1,5,6) h(1) assms(3)]
  have "process_packet rs p i = Some (rs\<lparr>sent := sent rs @ [(ie_name ie', frame_to (ac_arp_ha ace) q)]\<rparr>)" using assms(1) by simp
  with q(2,3) show ?thesis unfolding n(1) by blast
qed

theorem undeliverable_reported_witness:
  "\<exists>q. process_packet (transit_router\<lparr>rtable := [route_ten\<lparr>rt_iface := ''eth1'', rt_gw := 0\<rparr>, route_ten\<lparr>rt_ip := htonl 0x0B000000, rt_iface := ''eth2'', rt_gw := htonl 0x0A000002\<rparr>]\<rparr>)
        (enc_eth transit_eth @ enc_ip (transit_ip 1 0x64CE) @ [1, 2, 3, 4, 5, 6, 7, 8]) ''eth2'' =
     Some (transit_router\<lparr>rtable := [route_ten\<lparr>rt_iface := ''eth1'', rt_gw := 0\<rparr>, route_ten\<lparr>rt_ip := htonl 0x0B000000, rt_iface := ''eth2'', rt_gw := htonl 0x0A000002\<rparr>],
       sent := [(''eth2'', frame_to (Mac 9 9 9 9 9 9) q)]\<rparr>) \<and> get_icmp_hdr q \<noteq> None \<and> well_summed q 32"
proof -
  let ?p = "enc_eth transit_eth @ enc_ip (transit_ip 1 0x64CE) @ [1, 2, 3, 4, 5, 6, 7, 8]"
  let ?rs = "transit_router\<lparr>rtable := [route_ten\<lparr>rt_iface := ''eth1'', rt_gw := 0\<rparr>, route_ten\<lparr>rt_ip := htonl 0x0B000000, rt_iface := ''eth2'', rt_gw := htonl 0x0A000002\<rparr>]\<rparr>"
  let ?ie = "eth1\<lparr>ie_name := ''eth2'', ie_addr := Mac 0 1 2 3 4 6, ie_ip := htonl 0x0B000001\<rparr>"
  have 1: "held ?rs = []" "ntohs (eth_type transit_eth) = ETH_TYPE_IP" "is_packet_valid ?p = Some True"
    "get_iface ?rs ''eth2'' = Some ?ie" "ie_is_active ?ie" "ie_is_wan ?ie \<noteq> 1" "8 \<le> length [1, 2, 3, 4, 5, 6, 7, 8 :: byte]"
    "\<not> iface_match_ip ?rs (ip_dst (transit_ip 1 0x64CE))" "ip_dst (transit_ip 1 0x64CE) \<noteq> htonl PWOSPF_HELLO_TIP"
    "forward_error ?rs (transit_ip 1 0x64CE) ''eth2'' = Some (11, 0)"
    "get_next_hop ?rs 32 (ip_src (transit_ip 1 0x64CE)) = Some (htonl 0x0A000002, ''eth2'')"
    "in_arp_cache ?rs (htonl 0x0A000002) = Some \<lparr>ac_ip = htonl 0x0A000002, ac_arp_ha = Mac 9 9 9 9 9 9, ac_TTL = 0, ac_is_static = 1\<rparr>"
    by code_simp+
  have "sent ?rs = []" "ie_name ?ie = ''eth2''" by code_simp+
  with undeliverable_reported[OF 1(1) refl 1(2-11) 1(4,12)] show ?thesis by auto
qed

section \<open>Locks\<close>

text \<open>Every operation below the dispatcher returns with the locks its caller held.\<close>

lemma send_packet_held: "send_packet rs p i = Some (r, rs') \<Longrightarrow> held rs' = held rs"
  by (auto simp: send_packet_def acquire_def release_def Let_def split: if_splits)

lemma send_arp_request_held: "send_arp_request rs a i = Some rs' \<Longrightarrow> held rs' = held rs"
  by (auto simp: send_arp_request_def Let_def dest: send_packet_held split: bind_splits)

lemma send_arp_reply_held: "send_arp_reply rs p ie = Some rs' \<Longrightarrow> held rs' = held rs"
  by (auto simp: send_arp_reply_def Let_def dest: send_packet_held split: bind_splits)

lemma send_ip_held: "send_ip rs p nh i = Some (r, rs') \<Longrightarrow> held rs' = held rs"
  by (auto simp: send_ip_def arp_queue_add_def Let_def dest!: send_packet_held send_arp_request_held split: bind_splits option.splits)

lemma send_icmp_held: "send_icmp_packet rs p ty co = Some (r, rs') \<Longrightarrow> held rs' = held rs"
  by (auto simp: send_icmp_packet_def Let_def dest: send_ip_held split: bind_splits option.splits)

lemma process_icmp_held: "process_icmp_packet rs p = Some rs' \<Longrightarrow> held rs' = held rs"
  by (auto simp: process_icmp_packet_def process_icmp_echo_reply_packet_def acquire_def release_def cond_signal_def Let_def
      dest: send_icmp_held split: bind_splits if_splits)

lemma nat_ext_held: "process_nat_ext_packet rs p = Some (q, rs') \<Longrightarrow> held rs' = held rs"
  by (auto simp: process_nat_ext_packet_def hit_def Let_def split: bind_splits option.splits)

lemma draw_port_held: "draw_port rs = Some (n, rs') \<Longrightarrow> held rs' = held rs"
  by (drule draw_port_result) auto

lemma nat_int_held: "process_nat_int_packet rs p a = Some (q, rs') \<Longrightarrow> held rs' = held rs"
  by (auto simp: process_nat_int_packet_def create_nat_table_entry_def cond_signal_def hit_def Let_def
      dest!: draw_port_held split: bind_splits option.splits if_splits)

lemma send_entry_packets_held: "send_entry_packets i rs = Some rs' \<Longrightarrow> held rs' = held rs"
proof (erule send_entry_packets.raw_induct[rotated])
  fix f i and rs rs' :: router_state
  assume "\<And>i rs rs'. f i rs = Some rs' \<Longrightarrow> held rs' = held rs"
    and "(case aq_head (arp_queue rs ! i) of [] \<Rightarrow> Some rs
      | packet # next_packets \<Rightarrow> do {
          (r, rs) \<leftarrow> send_ip rs packet (aq_next_hop (arp_queue rs ! i)) (aq_out_iface_name (arp_queue rs ! i));
          let rs = set_entry i (\<lambda>aqe. aqe\<lparr>aq_head := tl (aq_head aqe)\<rparr>) rs;
          if next_packets = [] then Some rs else f i rs }) = Some rs'"
  then show "held rs' = held rs"
    by (auto simp: set_entry_def Let_def dest!: send_ip_held split: list.splits bind_splits if_splits)
qed

lemma send_queued_from_held: "send_queued_from a i rs = Some rs' \<Longrightarrow> held rs' = held rs"
proof (erule send_queued_from.raw_induct[rotated])
  fix f a i and rs rs' :: router_state
  assume "\<And>a i rs rs'. f a i rs = Some rs' \<Longrightarrow> held rs' = held rs"
    and "(if i < length (arp_queue rs)
      then let more = Suc i < length (arp_queue rs)
           in if a = aq_next_hop (arp_queue rs ! i)
              then do {
                rs \<leftarrow> send_entry_packets i rs;
                let rs = drop_entry i rs;
                if more then f a i rs else Some rs }
              else f a (Suc i) rs
      else Some rs) = Some rs'"
  then show "held rs' = held rs"
    by (auto simp: drop_entry_def Let_def dest!: send_entry_packets_held split: bind_splits if_splits)
qed

lemma update_arp_cache_held: "held (update_arp_cache rs a m s) = held rs"
  by (subst update_arp_cache_frame) simp

lemma process_arp_held: "held rs = [] \<Longrightarrow> process_arp_packet rs p = Some rs' \<Longrightarrow> held rs' = []"
  by (auto simp: process_arp_packet_def process_arp_request_def process_arp_reply_def send_queued_packets_def acquire_def release_def
      update_arp_cache_held dest!: send_arp_reply_held send_queued_from_held split: bind_splits if_splits option.splits)

lemma queue_lsu_held: "queue_lsu pw src ie nbr rs = Some rs' \<Longrightarrow> held rs' = held rs"
  by (auto simp: queue_lsu_def acquire_def release_def Let_def split: bind_splits if_splits)

lemma broadcast_lsu_held: "broadcast_pwospf_lsu_packet rs pw src = Some rs' \<Longrightarrow> held rs' = held rs"
  unfolding broadcast_pwospf_lsu_packet_def
  by (erule run_all_invariant[where P = "\<lambda>s. held s = held rs"])
    (auto split: if_splits elim!: run_all_invariant[where P = "\<lambda>s. held s = held rs"] dest: queue_lsu_held)

lemma start_flood_held: "start_lsu_bcast_flood rs = Some rs' \<Longrightarrow> held rs' = held rs"
  by (auto simp: start_lsu_bcast_flood_def construct_pwospf_lsu_packet_def set_router_def Let_def dest!: broadcast_lsu_held
      split: bind_splits if_splits)

lemma propagate_held: "propagate_pwospf_changes rs = Some rs' \<Longrightarrow> held rs' = held rs"
  by (auto simp: propagate_pwospf_changes_def dijkstra_trigger_def cond_signal_def Let_def dest!: start_flood_held)

lemma update_database_held: "update_database rs p = Some (a, b, rs') \<Longrightarrow> held rs' = held rs"
  by (auto simp: update_database_def add_new_router_neighbor_def set_router_def Let_def split: bind_splits if_splits option.splits)

lemma lsu_held:
  assumes "held rs = ip_locks @ h" and "RouterList \<notin> fst ` set h" and "process_pwospf_lsu_packet rs p = Some rs'"
  shows "\<exists>m. held rs' = [(RtableLock, m), (IfList, Rd), (ArpQueue, Wr), (ArpCache, Rd)] @ h"
  using assms
  by (auto simp: process_pwospf_lsu_packet_def acquire_def release_def cond_signal_def Let_def dest!: update_database_held broadcast_lsu_held propagate_held
      split: bind_splits if_splits)

text \<open>
  The packets on which the hello handler returns early, with the mutex of the router database locked: IP packets that are handed to PWOSPF (sent to the group of hello packets, or, with its protocol number,
  to an address of the router), that are valid, of type hello, with the interval of the router and another mask than that of the interface.
\<close>

definition bad_hello :: "router_state \<Rightarrow> iface_entry \<Rightarrow> byte list \<Rightarrow> bool" where
  "bad_hello rs ie p \<longleftrightarrow>
     map_option fst (is_pwospf_packet_valid rs p) = Some True \<and> map_option pwospf_type (get_pwospf_hdr p) = Some PWOSPF_TYPE_HELLO \<and>
     (case get_pwospf_hello_hdr p of None \<Rightarrow> False
      | Some l \<Rightarrow> ntohs (hello_hint l) = pwospf_hello_interval rs \<and> hello_mask l \<noteq> ie_mask ie)"

definition mismatched_hello :: "router_state \<Rightarrow> iface_entry \<Rightarrow> byte list \<Rightarrow> bool" where
  "mismatched_hello rs ie p \<longleftrightarrow>
     (case (get_eth_hdr p, get_ip_hdr p) of
        (Some eth, Some ip) \<Rightarrow> ntohs (eth_type eth) = ETH_TYPE_IP \<and> is_packet_valid p = Some True \<and>
          (if iface_match_ip rs (ip_dst ip) then ip_p ip = IP_PROTO_PWOSPF else ip_dst ip = htonl PWOSPF_HELLO_TIP) \<and> bad_hello rs ie p
      | _ \<Rightarrow> False)"

lemma bad_hello_held [simp]: "bad_hello (rs\<lparr>held := h\<rparr>) ie p = bad_hello rs ie p"
proof -
  have "is_pwospf_packet_valid (rs\<lparr>held := h\<rparr>) p = is_pwospf_packet_valid rs p"
    by (cases "get_pwospf_hdr p") (simp_all add: is_pwospf_packet_valid_def Let_def)
  then show ?thesis by (simp add: bad_hello_def split: option.split)
qed

text \<open>The locks with which the handlers of IP packets return.\<close>

definition returns_holding :: "bool \<Rightarrow> router_state \<Rightarrow> bool" where
  "returns_holding leak rs' \<longleftrightarrow>
     (if leak then held rs' = hello_locks else \<exists>m m'. held rs' = [(RtableLock, m), (IfList, m'), (ArpQueue, Wr), (ArpCache, Rd)])"

lemma returns_holding_same: "held rs = ip_locks \<Longrightarrow> held rs' = held rs \<Longrightarrow> returns_holding False rs'"
  by (simp add: returns_holding_def)

lemma hello_held:
  assumes "held rs = ip_locks" and "get_iface rs i = Some ie" and "process_pwospf_hello_packet rs p i = Some rs'"
  shows "\<exists>l. get_pwospf_hello_hdr p = Some l \<and> returns_holding (ntohs (hello_hint l) = pwospf_hello_interval rs \<and> hello_mask l \<noteq> ie_mask ie) rs'"
proof -
  have g: "get_iface (rs\<lparr>held := hello_locks\<rparr>) i = Some ie" using assms(2) by (simp add: held_cong_lookups)
  obtain l where l: "get_pwospf_hello_hdr p = Some l" using assms(3) by (auto simp: process_pwospf_hello_packet_def split: bind_splits)
  from assms(3) have "returns_holding (ntohs (hello_hint l) = pwospf_hello_interval rs \<and> hello_mask l \<noteq> ie_mask ie) rs'"
    unfolding process_pwospf_hello_packet_def hello_relock[OF assms(1)] g using assms(1) l
    by (auto simp: returns_holding_def set_iface_def set_router_def release_def cond_signal_def Let_def dest!: propagate_held split: bind_splits if_splits)
  with l show ?thesis by blast
qed

lemma valid_keeps:
  assumes "is_pwospf_packet_valid rs p = Some (v, q)"
  shows "get_pwospf_hello_hdr q = get_pwospf_hello_hdr p" "map_option pwospf_type (get_pwospf_hdr q) = map_option pwospf_type (get_pwospf_hdr p)"
proof -
  have "mem_ld q 58 8 = mem_ld p 58 8" if "compute_pwospf_checksum p 34 = Some (s, q)" for s
    using that mem_ld_st_other[of p 34 _ q 58 8]
    by (auto simp: compute_pwospf_checksum_def put_struct_def pwospf_wire.enc_length split: bind_splits)
  then show "get_pwospf_hello_hdr q = get_pwospf_hello_hdr p"
    using assms by (fastforce simp: is_pwospf_packet_valid_def get_pwospf_hello_hdr_def get_struct_def split: bind_splits if_splits)
  have "map_option pwospf_type (get_pwospf_hdr q) = map_option pwospf_type (get_pwospf_hdr p)" if "compute_pwospf_checksum p 34 = Some (s, q)" for s
    using that pwospf_wire.get_put[of p 34 _ q]
    by (auto simp: compute_pwospf_checksum_def get_pwospf_hdr_def split: bind_splits)
  then show "map_option pwospf_type (get_pwospf_hdr q) = map_option pwospf_type (get_pwospf_hdr p)"
    using assms by (fastforce simp: is_pwospf_packet_valid_def split: bind_splits if_splits)
qed

lemma pwospf_held:
  assumes "held rs = ip_locks" and "get_iface rs i = Some ie" and "process_pwospf_packet rs p i = Some rs'"
  shows "returns_holding (bad_hello rs ie p) rs'"
proof -
  from assms(3) obtain v q where v: "is_pwospf_packet_valid rs p = Some (v, q)" by (auto simp: process_pwospf_packet_def split: bind_splits)
  note keeps = valid_keeps[OF v]
  show ?thesis
  proof (cases v)
    case False
    with v assms(1,3) show ?thesis by (simp add: process_pwospf_packet_def bad_hello_def returns_holding_def)
  next
    case True
    with v assms(3) obtain h where h: "get_pwospf_hdr q = Some h" "(if pwospf_type h = PWOSPF_TYPE_HELLO then process_pwospf_hello_packet rs q i
       else if pwospf_type h = PWOSPF_TYPE_LINK_STATE_UPDATE then process_pwospf_lsu_packet rs q else Some rs) = Some rs'"
      by (auto simp: process_pwospf_packet_def split: bind_splits)
    then have ty: "map_option pwospf_type (get_pwospf_hdr p) = Some (pwospf_type h)" using keeps(2) by simp
    show ?thesis
    proof (cases "pwospf_type h = PWOSPF_TYPE_HELLO")
      case hello: True
      with h have "process_pwospf_hello_packet rs q i = Some rs'" by simp
      from hello_held[OF assms(1,2) this] obtain l where "get_pwospf_hello_hdr p = Some l"
        "returns_holding (ntohs (hello_hint l) = pwospf_hello_interval rs \<and> hello_mask l \<noteq> ie_mask ie) rs'" using keeps(1) by auto
      with v True ty hello show ?thesis by (simp add: bad_hello_def)
    next
      case False
      then have "\<not> bad_hello rs ie p" using ty by (auto simp: bad_hello_def)
      with False h(2) lsu_held[of rs "[]" q rs'] assms(1) show ?thesis by (auto simp: returns_holding_def split: if_splits)
    qed
  qed
qed

lemma local_held:
  assumes "held rs = ip_locks" and "get_iface rs i = Some ie" and "get_ip_hdr p = Some ip" and "process_local_packet rs p i = Some rs'"
  shows "returns_holding (ip_p ip = IP_PROTO_PWOSPF \<and> bad_hello rs ie p) rs'"
proof (cases "ip_p ip = IP_PROTO_PWOSPF")
  case True
  with assms(3,4) have "process_pwospf_packet rs p i = Some rs'" by (simp add: process_local_packet_def)
  from pwospf_held[OF assms(1,2) this] True show ?thesis by simp
next
  case False
  with assms(3,4) have "held rs' = held rs"
    by (auto simp: process_local_packet_def dest: process_icmp_held send_icmp_held split: bind_splits if_splits)
  from returns_holding_same[OF assms(1) this] False show ?thesis by simp
qed

lemma forward_held: "forward_packet rs p i = Some rs' \<Longrightarrow> held rs' = held rs"
  by (auto simp: forward_packet_def acquire_def release_def dest!: send_icmp_held send_ip_held nat_int_held
      split: bind_splits option.splits if_splits)

lemma handle_held:
  assumes "held rs = ip_locks" and "get_iface rs i = Some ie" and "ie_is_wan ie \<noteq> 1" and "handle_ip_packet rs p i = Some rs'"
  shows "\<exists>ip. get_ip_hdr p = Some ip \<and>
    returns_holding ((if iface_match_ip rs (ip_dst ip) then ip_p ip = IP_PROTO_PWOSPF else ip_dst ip = htonl PWOSPF_HELLO_TIP) \<and> bad_hello rs ie p) rs'"
proof -
  from assms(2-4) obtain ip where ip: "get_ip_hdr p = Some ip" "(if iface_match_ip rs (ip_dst ip) then process_local_packet rs p i
     else if ip_dst ip = htonl PWOSPF_HELLO_TIP then process_pwospf_packet rs p i else forward_packet rs p i) = Some rs'"
    by (auto simp: handle_ip_packet_def split: bind_splits)
  consider "iface_match_ip rs (ip_dst ip)" | "\<not> iface_match_ip rs (ip_dst ip)" "ip_dst ip = htonl PWOSPF_HELLO_TIP"
    | "\<not> iface_match_ip rs (ip_dst ip)" "ip_dst ip \<noteq> htonl PWOSPF_HELLO_TIP" by blast
  then show ?thesis
  proof cases
    case 1
    with local_held[OF assms(1,2) ip(1), of rs'] ip show ?thesis by simp
  next
    case 2
    with pwospf_held[OF assms(1,2), of p rs'] ip show ?thesis by simp
  next
    case 3
    with forward_held[of rs p i rs'] returns_holding_same[OF assms(1), of rs'] ip show ?thesis by simp
  qed
qed

lemma process_ip_held:
  assumes "held rs = []" and "get_iface rs i = Some ie" and "ie_is_wan ie \<noteq> 1" and "is_packet_valid p = Some True" and "process_ip_packet rs p i = Some rs'"
  shows "\<exists>ip. get_ip_hdr p = Some ip \<and> held rs' = (if (if iface_match_ip rs (ip_dst ip) then ip_p ip = IP_PROTO_PWOSPF
    else ip_dst ip = htonl PWOSPF_HELLO_TIP) \<and> bad_hello rs ie p then [(RouterList, Wr)] else [])"
proof -
  from assms(1,4,5) obtain rs1 where h: "handle_ip_packet (rs\<lparr>held := ip_locks\<rparr>) p i = Some rs1"
      "do { rs \<leftarrow> release RtableLock rs1; rs \<leftarrow> release IfList rs; rs \<leftarrow> release ArpQueue rs; release ArpCache rs } = Some rs'"
    by (auto simp: process_ip_packet_def acquire_def split: bind_splits)
  have "held (rs\<lparr>held := ip_locks\<rparr>) = ip_locks" "get_iface (rs\<lparr>held := ip_locks\<rparr>) i = Some ie"
    using assms(2) by (simp_all add: held_cong_lookups)
  from handle_held[OF this assms(3) h(1)] obtain ip where ip: "get_ip_hdr p = Some ip"
    "returns_holding ((if iface_match_ip rs (ip_dst ip) then ip_p ip = IP_PROTO_PWOSPF else ip_dst ip = htonl PWOSPF_HELLO_TIP) \<and> bad_hello rs ie p) rs1"
    by (auto simp: held_cong_lookups)
  have "returns_holding leak rs1 \<Longrightarrow> held rs' = (if leak then [(RouterList, Wr)] else [])" for leak
    using h(2) by (auto simp: returns_holding_def release_def split: if_splits)
  with ip show ?thesis by blast
qed

text \<open>
  C15. Locks are given back: whatever packet arrives on an interface that is not the WAN, when \<open>process_packet\<close>
  returns the thread holds no lock, with one exception, which is exact: after a PWOSPF hello packet that is valid and has the interval of the router but not the mask of the interface (\<open>mismatched_hello\<close>), arriving on
  an active interface, it holds the mutex of the router database.
\<close>

theorem locks_released:
  assumes "held rs = []" and "get_iface rs i = Some ie" and "ie_is_wan ie \<noteq> 1" and "process_packet rs p i = Some rs'"
  shows "held rs' = (if ie_is_active ie \<and> mismatched_hello rs ie p then [(RouterList, Wr)] else [])"
proof (cases "ie_is_active ie")
  case False
  with assms show ?thesis by (auto simp: process_packet_def iface_is_active_eq)
next
  case True
  with assms(1,2,4) obtain eth where eth: "get_eth_hdr p = Some eth" "(if ntohs (eth_type eth) = ETH_TYPE_IP then process_ip_packet rs p i
      else if ntohs (eth_type eth) = ETH_TYPE_ARP then process_arp_packet rs p else Some rs) = Some rs'"
    by (auto simp: process_packet_def iface_is_active_eq split: bind_splits)
  show ?thesis
  proof (cases "ntohs (eth_type eth) = ETH_TYPE_IP \<and> is_packet_valid p = Some True")
    case valid: True
    then have "process_ip_packet rs p i = Some rs'" using eth(2) by simp
    with process_ip_held[OF assms(1-3), of p rs'] valid True eth(1) show ?thesis by (auto simp: mismatched_hello_def)
  next
    case no: False
    then have "\<not> mismatched_hello rs ie p" using eth(1) by (auto simp: mismatched_hello_def split: option.splits)
    moreover have "held rs' = []"
      using no eth(2) assms(1) process_arp_held[of rs p rs'] by (auto simp: process_ip_packet_def split: bind_splits if_splits)
    ultimately show ?thesis by simp
  qed
qed

theorem locks_released_witness:
  "\<exists>rs'. process_packet transit_router (enc_eth transit_eth @ enc_ip (transit_ip 64 0x25CE) @ [1, 2, 3, 4, 5, 6, 7, 8]) ''eth2'' = Some rs' \<and> held rs' = []"
proof -
  let ?p = "enc_eth transit_eth @ enc_ip (transit_ip 64 0x25CE) @ [1, 2, 3, 4, 5, 6, 7, 8]"
  let ?ie = "eth1\<lparr>ie_name := ''eth2'', ie_addr := Mac 0 1 2 3 4 6, ie_ip := htonl 0x0B000001\<rparr>"
  have 1: "held transit_router = []" "get_iface transit_router ''eth2'' = Some ?ie" "ie_is_wan ?ie \<noteq> 1"
    "process_packet transit_router ?p ''eth2'' \<noteq> None" "get_pwospf_hello_hdr ?p = None" by code_simp+
  then have "\<not> mismatched_hello transit_router ?ie ?p" by (simp add: mismatched_hello_def bad_hello_def split: option.splits)
  moreover obtain rs' where "process_packet transit_router ?p ''eth2'' = Some rs'" using 1(4) by blast
  ultimately show ?thesis using locks_released[OF 1(1-3)] by auto
qed

lemma hello_is_valid:
  assumes "hello_packet rsA ieA = Some p"
  shows "\<exists>eth. get_eth_hdr p = Some eth \<and> ntohs (eth_type eth) = ETH_TYPE_IP" "is_packet_valid p = Some True"
    "\<exists>ip. get_ip_hdr p = Some ip \<and> ip_dst ip = htonl PWOSPF_HELLO_TIP"
proof -
  let ?ip = "populate_ip 32 IP_PROTO_PWOSPF (ie_ip ieA) (htonl PWOSPF_HELLO_TIP)"
  from hello_packet_eq[of rsA ieA] assms obtain x h c where
    p: "p = pwospf_frame mac_bcast (ie_addr ieA) (?ip\<lparr>ip_sum := x\<rparr>) h c" and v: "verify_checksum p 14 20 = Some 0" by auto
  have i: "get_ip_hdr p = Some (?ip\<lparr>ip_sum := x\<rparr>)" unfolding p by simp
  have "get_eth_hdr p = Some \<lparr>eth_dhost = mac_bcast, eth_shost = ie_addr ieA, eth_type = htons ETH_TYPE_IP\<rparr>"
    unfolding p pwospf_frame_def by (rule frame_hdrs(1)[OF refl])
  then show "\<exists>eth. get_eth_hdr p = Some eth \<and> ntohs (eth_type eth) = ETH_TYPE_IP" by simp
  have "(0x4000 :: u16) AND 0x2000 = 0" "(0x4000 :: u16) AND 0x1fff = 0" by code_simp+
  with i v show "is_packet_valid p = Some True" by (simp add: is_packet_valid_def populate_ip_def)
  show "\<exists>ip. get_ip_hdr p = Some ip \<and> ip_dst ip = htonl PWOSPF_HELLO_TIP" unfolding i by (simp add: populate_ip_def)
qed

lemma handle_hello:
  assumes "hello_packet rsA ieA = Some p" and "get_iface rs i = Some ie" and "ie_is_wan ie \<noteq> 1" and "\<not> iface_match_ip rs (htonl PWOSPF_HELLO_TIP)"
  shows "handle_ip_packet rs p i = process_pwospf_packet rs p i"
  using hello_is_valid(3)[OF assms(1)] assms(2-4) by (auto simp: handle_ip_packet_def)

lemma wrong_mask_hello_steps:
  assumes "held rs = []" and "hello_packet rsA ieA = Some p" and "area_id rs = area_id rsA" and "pwospf_hello_interval rs = pwospf_hello_interval rsA"
    and "ntohl (router_id rsA) \<noteq> router_id rs" and "get_iface rs i = Some ie" and "ie_is_active ie" and "ie_is_wan ie \<noteq> 1"
    and "ie_mask ie \<noteq> ie_mask ieA" and "\<not> iface_match_ip rs (htonl PWOSPF_HELLO_TIP)"
  shows "process_packet rs p i = Some (rs\<lparr>held := [(RouterList, Wr)]\<rparr>)"
    and "process_packet (rs\<lparr>held := [(RouterList, Wr)]\<rparr>) p i = None"
proof -
  obtain eth where eth: "get_eth_hdr p = Some eth" "ntohs (eth_type eth) = ETH_TYPE_IP" using hello_is_valid(1)[OF assms(2)] by blast
  note v = hello_is_valid(2)[OF assms(2)]
  let ?rs = "\<lambda>h. rs\<lparr>held := h\<rparr>"
  have pw: "\<exists>p' ip hd. handle_ip_packet (?rs h) p i = process_pwospf_hello_packet (?rs h) p' i \<and> get_ip_hdr p' = Some ip \<and>
      get_pwospf_hdr p' = Some hd \<and> get_pwospf_hello_hdr p' = Some (populate_pwospf_hello (ie_mask ieA) (pwospf_hello_interval rsA))" for h
    using handle_hello[OF assms(2), of "?rs h" i ie] hello_packet_valid[OF assms(2), of "?rs h" i] assms(3,5,6,8,10)
    by (simp add: held_cong_lookups) blast
  from pw[of ip_locks] obtain p1 ip1 h1 where 1: "handle_ip_packet (?rs ip_locks) p i = process_pwospf_hello_packet (?rs ip_locks) p1 i"
    "get_ip_hdr p1 = Some ip1" "get_pwospf_hdr p1 = Some h1" "get_pwospf_hello_hdr p1 = Some (populate_pwospf_hello (ie_mask ieA) (pwospf_hello_interval rsA))"
    by blast
  have "process_pwospf_hello_packet (?rs ip_locks) p1 i = Some (?rs hello_locks)"
    using 1(2-4) assms(4,6,9) unfolding process_pwospf_hello_packet_def
    by (simp add: hello_relock populate_pwospf_hello_def held_cong_lookups)
  with 1(1) v assms(1) show "process_packet rs p i = Some (rs\<lparr>held := [(RouterList, Wr)]\<rparr>)"
    unfolding process_packet_ip[OF assms(1,6,7) eth] by (simp add: process_ip_packet_def acquire_def release_def)
  let ?h = "ip_locks @ [(RouterList, Wr)]"
  from pw[of ?h] obtain p2 ip2 h2 where 2: "handle_ip_packet (?rs ?h) p i = process_pwospf_hello_packet (?rs ?h) p2 i"
    "get_ip_hdr p2 = Some ip2" "get_pwospf_hdr p2 = Some h2" "get_pwospf_hello_hdr p2 = Some (populate_pwospf_hello (ie_mask ieA) (pwospf_hello_interval rsA))"
    by blast
  have "process_pwospf_hello_packet (?rs ?h) p2 i = None"
    using 2(2-4) assms(4) unfolding process_pwospf_hello_packet_def
    by (simp add: populate_pwospf_hello_def acquire_def release_def)
  with 2(1) v assms(6,7) eth show "process_packet (rs\<lparr>held := [(RouterList, Wr)]\<rparr>) p i = None"
    by (simp add: process_packet_def iface_is_active_def process_ip_packet_def acquire_def release_def held_cong_lookups)
qed

text \<open>
  C27. A hello packet from a neighbour with another mask stops the router: such a packet, well formed and of the same area and interval, is
  processed to the end but leaves the mutex of the router database locked, so that the same thread blocks for good when the next one arrives.
\<close>

theorem wrong_mask_hello_blocks:
  assumes "held rs = []" and "hello_packet rsA ieA = Some p" and "area_id rs = area_id rsA" and "pwospf_hello_interval rs = pwospf_hello_interval rsA"
    and "ntohl (router_id rsA) \<noteq> router_id rs" and "get_iface rs i = Some ie" and "ie_is_active ie" and "ie_is_wan ie \<noteq> 1"
    and "ie_mask ie \<noteq> ie_mask ieA" and "\<not> iface_match_ip rs (htonl PWOSPF_HELLO_TIP)"
  shows "process_packet rs p i = Some (rs\<lparr>held := [(RouterList, Wr)]\<rparr>) \<and>
    process_packet (rs\<lparr>held := [(RouterList, Wr)]\<rparr>) p i = None"
  using wrong_mask_hello_steps[OF assms] by simp

theorem wrong_mask_hello_blocks_witness:
  "\<exists>p. hello_packet (one_link_router 1 0) (eth1\<lparr>ie_mask := 0x0000FFFF\<rparr>) = Some p \<and>
     process_packet ((one_link_router 2 0)\<lparr>held := []\<rparr>) p ''eth1'' = Some ((one_link_router 2 0)\<lparr>held := [(RouterList, Wr)]\<rparr>) \<and>
     process_packet ((one_link_router 2 0)\<lparr>held := [(RouterList, Wr)]\<rparr>) p ''eth1'' = None"
proof -
  let ?A = "one_link_router 1 0" and ?B = "(one_link_router 2 0)\<lparr>held := []\<rparr>" and ?ieA = "eth1\<lparr>ie_mask := 0x0000FFFF\<rparr>"
  let ?ie = "eth1\<lparr>ie_mask := 0x00FFFFFF, ie_nbr_routers := []\<rparr>"
  obtain p where p: "hello_packet ?A ?ieA = Some p" using hello_packet_eq by blast
  have h: "held ?B = []" by simp
  have 1: "area_id ?B = area_id ?A" "pwospf_hello_interval ?B = pwospf_hello_interval ?A"
    "ntohl (router_id ?A) \<noteq> router_id ?B" "get_iface ?B ''eth1'' = Some ?ie" "ie_is_active ?ie" "ie_is_wan ?ie \<noteq> 1"
    "ie_mask ?ie \<noteq> ie_mask ?ieA" "\<not> iface_match_ip ?B (htonl PWOSPF_HELLO_TIP)" by code_simp+
  from wrong_mask_hello_blocks[OF h p 1] p show ?thesis by auto
qed

text \<open>
  What the router sends itself: with a route to the destination and a cached hardware address, \<open>send_ip_packet\<close> puts exactly one frame
  on the wire, with the payload behind a header that is correctly summed, and releases its locks. Without a route it reports 1 and returns
  with its four locks held, so that the next call of the same thread blocks for good.
\<close>

theorem send_ip_packet_result:
  assumes "held rs = []"
    and "\<forall>nh i. get_next_hop rs 32 dest = Some (nh, i) \<longrightarrow> get_iface rs i \<noteq> None \<and> in_arp_cache rs nh \<noteq> None"
  shows "case get_next_hop rs 32 dest of
      None \<Rightarrow> send_ip_packet rs proto src dest d = Some (1, rs\<lparr>held := ip_locks\<rparr>) \<and>
        send_ip_packet (rs\<lparr>held := ip_locks\<rparr>) proto src dest d = None
    | Some (nh, i) \<Rightarrow> \<exists>r x ie ace. get_iface rs i = Some ie \<and> in_arp_cache rs nh = Some ace \<and>
        send_ip_packet rs proto src dest d = Some (r, rs\<lparr>sent := sent rs @ [(ie_name ie, pad_frame
          (enc_eth \<lparr>eth_dhost = ac_arp_ha ace, eth_shost = ie_addr ie, eth_type = htons ETH_TYPE_IP\<rparr> @
           enc_ip ((populate_ip (word_of_nat (length d)) proto src dest)\<lparr>ip_sum := x\<rparr>) @ d))]\<rparr>) \<and>
        verify_checksum (enc_ip ((populate_ip (word_of_nat (length d)) proto src dest)\<lparr>ip_sum := x\<rparr>) @ d) 0 20 = Some 0"
proof -
  let ?z = "replicate 14 (0::byte)" and ?y = "replicate 20 (0::byte)" and ?ip = "populate_ip (word_of_nat (length d)) proto src dest"
  have z: "replicate (14 + 20 + length d) (0::byte) = (?z @ ?y) @ replicate (length d) 0" by (simp flip: replicate_add)
  have 1: "mem_st (replicate (14 + 20 + length d) 0) (14 + 20) d = Some (?z @ ?y @ d)" unfolding z mem_st_def by simp
  have 2: "put_ip_hdr (?z @ ?y @ d) ?ip = Some (?z @ enc_ip ?ip @ d)"
    using ip_wire.put_at[of ?z 14 ?y d ?ip] by (simp add: put_ip_hdr_def)
  obtain x where x: "store_ip_checksum (?z @ enc_ip ?ip @ d) = Some (?z @ enc_ip (?ip\<lparr>ip_sum := x\<rparr>) @ d)"
    "verify_checksum (enc_ip (?ip\<lparr>ip_sum := x\<rparr>) @ d) 0 20 = Some 0"
    using store_ip_checksum_at[of ?z ?ip d] by (auto simp: populate_ip_def)
  let ?r = "enc_ip (?ip\<lparr>ip_sum := x\<rparr>) @ d"
  show ?thesis
  proof (cases "get_next_hop rs 32 dest")
    case None
    with 1 2 x(1) assms(1) show ?thesis
      by (simp add: send_ip_packet_def acquire_def held_cong_lookups Let_def)
  next
    case (Some a)
    obtain nh i where a: "a = (nh, i)" by (cases a)
    with Some assms(2) obtain ie ace where ie: "get_iface rs i = Some ie" "in_arp_cache rs nh = Some ace" by auto
    let ?e = "\<lparr>eth_dhost = eth_dhost (dec_eth ?z), eth_shost = ie_addr ie, eth_type = htons ETH_TYPE_IP\<rparr>"
    have e: "get_eth_hdr (?z @ ?r) = Some (dec_eth ?z)" "put_eth_hdr (?z @ ?r) ?e = Some (enc_eth ?e @ ?r)"
      "populate_eth_hdr (dec_eth ?z) None (ie_addr ie) ETH_TYPE_IP = ?e"
      using eth_wire.get_at[of "[]" 0 ?z ?r] eth_wire.put_at[of "[]" 0 ?z ?r ?e] by (simp_all add: hdr_defs populate_eth_hdr_def)
    let ?rs = "rs\<lparr>held := ip_locks\<rparr>"
    have s: "send_ip ?rs (enc_eth ?e @ ?r) nh (ie_name ie) = Some (if tx_result ?rs (length (sent ?rs)) \<noteq> 0 then 1 else 0,
        ?rs\<lparr>sent := sent ?rs @ [(ie_name ie, frame_to (ac_arp_ha ace) (enc_eth ?e @ ?r))]\<rparr>)"
      by (rule send_ip_known) (use ie in \<open>simp_all add: held_cong_lookups lock_free_def eth_wire.enc_length\<close>)
    let ?n = "if tx_result rs (length (sent rs)) \<noteq> 0 then 1 else (0::int)"
    have "send_ip_packet rs proto src dest d = Some (?n, rs\<lparr>sent := sent rs @ [(ie_name ie, frame_to (ac_arp_ha ace) (enc_eth ?e @ ?r))]\<rparr>)"
      using 1 2 x(1) e s Some a ie assms(1) by (simp add: send_ip_packet_def acquire_def release_def held_cong_lookups Let_def)
    with x(2) ie show ?thesis unfolding Some a option.case prod.case frame_to_def enc_eth_dhost by auto
  qed
qed

theorem send_ip_packet_result_witness:
  "send_ip_packet transit_router 6 (htonl 0x0B000001) (htonl 0x0C000001) [1] = Some (1, transit_router\<lparr>held := ip_locks\<rparr>)"
proof -
  have "held transit_router = []" "get_next_hop transit_router 32 (htonl 0x0C000001) = None" by code_simp+
  with send_ip_packet_result[of transit_router "htonl 0x0C000001" 6 "htonl 0x0B000001" "[1]"] show ?thesis by auto
qed

end
