(* ===== verification/Arp_Thread.thy ===== *)
theory Arp_Thread
  imports Ip
begin

text \<open>
  The thread of \<^verbatim>\<open>or_arp.c\<close> that runs once a second: it expires cache entries, repeats the requests for addresses that packets
  wait for, and after five requests returns the packets to their senders as ICMP errors. The loops change the queue they
  walk over; the theorem shows that they end.
\<close>

section \<open>The queue of waiting packets\<close>

text \<open>A packet that is given up: its sender gets an ICMP error, unless the packet is an ICMP error itself or comes from this router.
  The time to live is restored first.\<close>

definition bounce_packet :: "router_state \<Rightarrow> byte list \<Rightarrow> router_state outcome" where
  "bounce_packet rs packet = do {
     ip \<leftarrow> get_ip_hdr packet;
     report \<leftarrow> (if ip_p ip \<noteq> IP_PROTO_ICMP then Some True
                else map_option (\<lambda>icmp. icmp_type icmp = ICMP_TYPE_ECHO_REPLY \<or> icmp_type icmp = ICMP_TYPE_ECHO_REQUEST)
                       (get_icmp_hdr packet));
     if report \<and> \<not> iface_match_ip rs (ip_src ip) then do {
       packet \<leftarrow> (if ip_ttl ip < 255 then do {
                    packet \<leftarrow> put_ip_hdr packet (ip\<lparr>ip_ttl := ip_ttl ip + 1, ip_sum := 0\<rparr>);
                    store_ip_checksum packet }
                  else Some packet);
       map_option snd (send_icmp_packet rs packet ICMP_TYPE_DESTINATION_UNREACHABLE ICMP_CODE_HOST_UNREACHABLE) }
     else Some rs }"

text \<open>The loop over the packets of the entry at position \<open>i\<close>. The next packet is read after the error has been sent, and the
  error may have been appended to the same list.\<close>

partial_function (option) bounce_packets :: "nat \<Rightarrow> router_state \<Rightarrow> router_state outcome" where
  "bounce_packets i rs =
     (case aq_head (arp_queue rs ! i) of
        [] \<Rightarrow> Some rs
      | packet # _ \<Rightarrow> do {
          rs \<leftarrow> bounce_packet rs packet;
          bounce_packets i (set_entry i (\<lambda>aqe. aqe\<lparr>aq_head := tl (aq_head aqe)\<rparr>) rs) })"

definition aqe_due :: "router_state \<Rightarrow> arp_queue_entry \<Rightarrow> bool" where
  "aqe_due rs aqe \<longleftrightarrow> clock rs - aq_last_req_time aqe > 1"

text \<open>The loop over the entries from position \<open>i\<close> on; whether there is a next entry is read first.\<close>

partial_function (option) process_arp_queue_from :: "nat \<Rightarrow> router_state \<Rightarrow> router_state outcome" where
  "process_arp_queue_from i rs =
     (if i < length (arp_queue rs)
      then let more = Suc i < length (arp_queue rs); aqe = arp_queue rs ! i
           in if aqe_due rs aqe
              then if aq_requests aqe < 5
                   then do {
                     let rs = set_entry i (\<lambda>aqe. aqe\<lparr>aq_last_req_time := clock rs, aq_requests := aq_requests aqe + 1\<rparr>) rs;
                     rs \<leftarrow> send_arp_request rs (aq_next_hop aqe) (aq_out_iface_name aqe);
                     if more then process_arp_queue_from (Suc i) rs else Some rs }
                   else do {
                     rs \<leftarrow> bounce_packets i rs;
                     let rs = drop_entry i rs;
                     if more then process_arp_queue_from i rs else Some rs }
              else if more then process_arp_queue_from (Suc i) rs else Some rs
      else Some rs)"

declare bounce_packets.simps [code] process_arp_queue_from.simps [code]

definition process_arp_queue :: "router_state \<Rightarrow> router_state outcome" where
  "process_arp_queue rs = process_arp_queue_from 0 rs"

text \<open>One round of the thread.\<close>

definition arp_round :: "router_state \<Rightarrow> router_state outcome" where
  "arp_round rs = do {
     rs \<leftarrow> acquire ArpCache Wr rs;
     rs \<leftarrow> release ArpCache (expire_arp_cache rs);
     rs \<leftarrow> acquire ArpCache Rd rs;
     rs \<leftarrow> acquire ArpQueue Wr rs;
     rs \<leftarrow> acquire IfList Rd rs;
     rs \<leftarrow> acquire RtableLock Rd rs;
     rs \<leftarrow> process_arp_queue rs;
     rs \<leftarrow> release RtableLock rs;
     rs \<leftarrow> release IfList rs;
     rs \<leftarrow> release ArpQueue rs;
     release ArpCache rs }"

section \<open>The loops end\<close>

text \<open>What the router must provide: every route leaves through one of its interfaces.\<close>

definition routes_known :: "router_state \<Rightarrow> bool" where
  "routes_known rs \<longleftrightarrow> list_all (\<lambda>re. get_iface rs (strncpy (rt_iface re) 32) \<noteq> None) (rtable rs)"

definition packet_fit :: "byte list \<Rightarrow> bool" where
  "packet_fit p \<longleftrightarrow> 42 \<le> length p \<and> map_option ip_hl (get_ip_hdr p) = Some 5"

definition entry_fit :: "router_state \<Rightarrow> arp_queue_entry \<Rightarrow> bool" where
  "entry_fit rs aqe \<longleftrightarrow> get_iface rs (aq_out_iface_name aqe) \<noteq> None \<and> aq_requests aqe \<le> 5 \<and> list_all packet_fit (aq_head aqe)"

definition queue_fit :: "router_state \<Rightarrow> bool" where
  "queue_fit rs \<longleftrightarrow> lock_free WriteLock rs \<and> routes_known rs \<and> list_all (entry_fit rs) (arp_queue rs)"

text \<open>A state that differs from \<open>rs\<close> only in what was sent and in the queue.\<close>

definition same_but_queue :: "router_state \<Rightarrow> router_state \<Rightarrow> bool" where
  "same_but_queue rs rs' \<longleftrightarrow> (\<exists>s q. rs' = rs\<lparr>sent := s, arp_queue := q\<rparr>)"

lemma same_but_queue_upd [intro, simp]:
  "same_but_queue rs (rs\<lparr>sent := s, arp_queue := q\<rparr>)" "same_but_queue rs (rs\<lparr>sent := s\<rparr>)"
  "same_but_queue rs (rs\<lparr>arp_queue := q\<rparr>)" "same_but_queue rs rs"
proof -
  show 1: "same_but_queue rs (rs\<lparr>sent := s, arp_queue := q\<rparr>)" for s q by (auto simp: same_but_queue_def)
  show "same_but_queue rs (rs\<lparr>sent := s\<rparr>)" "same_but_queue rs (rs\<lparr>arp_queue := q\<rparr>)" "same_but_queue rs rs"
    using 1[where s = s and q = "arp_queue rs"] 1[where s = "sent rs" and q = q] 1[where s = "sent rs" and q = "arp_queue rs"] by simp_all
qed

lemma same_but_queue_trans [trans]: "same_but_queue a b \<Longrightarrow> same_but_queue b c \<Longrightarrow> same_but_queue a c"
  unfolding same_but_queue_def by (elim exE, simp) blast

lemma same_but_queue_sel:
  assumes "same_but_queue rs rs'"
  shows "lock_free l rs' = lock_free l rs" "routes_known rs' = routes_known rs" "entry_fit rs' = entry_fit rs" "clock rs' = clock rs"
    "held rs' = held rs" "aqe_due rs' = aqe_due rs" "get_iface rs' i = get_iface rs i"
  using assms
  by (auto simp: same_but_queue_def lock_free_def routes_known_def entry_fit_def aqe_due_def get_iface_def fun_eq_iff)

lemma get_iface_ie_name:
  assumes "get_iface rs i = Some ie"
  shows "get_iface rs (ie_name ie) \<noteq> None" "get_iface rs (take 32 (ie_name ie)) \<noteq> None"
proof -
  have ie: "ie \<in> set (if_list rs)" using get_iface_named[OF assms] by simp
  have "strncmp_eq (take 32 n) n 32" for n by (simp add: strncmp_eq_def)
  with ie show "get_iface rs (ie_name ie) \<noteq> None" "get_iface rs (take 32 (ie_name ie)) \<noteq> None"
    by (auto simp: get_iface_def find_None_set named_def intro!: bexI[of _ ie])
qed

lemma routes_known_hop:
  assumes "routes_known rs" and "get_next_hop rs 32 a = Some (nh, i)"
  shows "get_iface rs i \<noteq> None"
proof -
  from assms(2) obtain re where re: "lpm_walk a (rtable rs) None (- 1) = Some re" "i = strncpy (rt_iface re) 32"
    by (auto simp: get_next_hop_def split: option.splits)
  from lpm_walk_is_lpm[OF re(1)] have "re \<in> set (rtable rs)" by (auto simp: is_lpm_def)
  with assms(1) re(2) show ?thesis by (auto simp: routes_known_def list_all_iff)
qed

text \<open>An ICMP error is never answered with another one.\<close>

definition reported :: "byte list \<Rightarrow> bool" where
  "reported p \<longleftrightarrow> (case get_ip_hdr p of None \<Rightarrow> False | Some ip \<Rightarrow> ip_p ip \<noteq> IP_PROTO_ICMP \<or>
     (case get_icmp_hdr p of None \<Rightarrow> False | Some icmp \<Rightarrow> icmp_type icmp = ICMP_TYPE_ECHO_REPLY \<or> icmp_type icmp = ICMP_TYPE_ECHO_REQUEST))"

text \<open>How the queue may grow while an error is sent.\<close>

definition grown :: "router_state \<Rightarrow> arp_queue_entry list \<Rightarrow> arp_queue_entry list \<Rightarrow> bool" where
  "grown rs q q' \<longleftrightarrow> q' = q \<or>
     (\<exists>p. packet_fit p \<and> \<not> reported p \<and> ((\<exists>nh. q' = update_first (\<lambda>aqe. aq_next_hop aqe = nh) (arp_queue_entry_add_packet p) q) \<or>
        (\<exists>i nh. get_iface rs i \<noteq> None \<and> q' = q @ [\<lparr>aq_out_iface_name = i, aq_next_hop = nh, aq_requests = 1, aq_last_req_time = clock rs, aq_head = [p]\<rparr>])))"

lemma send_ip_grown:
  assumes "lock_free WriteLock rs" and "get_iface rs i = Some ie" and "packet_fit p" and "\<not> reported p"
  shows "\<exists>r rs'. send_ip rs p nh (ie_name ie) = Some (r, rs') \<and> same_but_queue rs rs' \<and> grown rs (arp_queue rs) (arp_queue rs')"
proof (cases "in_arp_cache rs nh")
  case (Some ace)
  have "6 \<le> length p" using assms(3) by (simp add: packet_fit_def)
  from send_ip_known[OF Some assms(1) this] show ?thesis by (auto simp: grown_def)
next
  case None
  from get_iface_ie_name[OF assms(2)] obtain ie' where ie': "get_iface rs (ie_name ie) = Some ie'" by auto
  show ?thesis
  proof (cases "get_from_arp_queue rs nh")
    case None': None
    with send_ip_unknown[OF None assms(1), of p "ie_name ie"] ie' get_iface_ie_name(2)[OF assms(2)] assms(3,4)
    show ?thesis by (auto simp: grown_def)
  next
    case (Some e)
    with send_ip_unknown[OF None assms(1), of p "ie_name ie"] assms(3,4) show ?thesis by (auto simp: grown_def)
  qed
qed

lemma bounce_packet_total:
  assumes "lock_free WriteLock rs" and "routes_known rs" and "packet_fit p"
  shows "\<exists>rs'. bounce_packet rs p = Some rs' \<and> same_but_queue rs rs' \<and> grown rs (arp_queue rs) (arp_queue rs') \<and>
    (\<not> reported p \<longrightarrow> rs' = rs)"
proof -
  obtain ip icmp where ip: "get_ip_hdr p = Some ip" "get_icmp_hdr p = Some icmp"
    using assms(3) by (auto simp: packet_fit_def hdr_defs get_struct_def mem_ld_def)
  have rep: "(if ip_p ip \<noteq> IP_PROTO_ICMP then Some True
      else map_option (\<lambda>icmp. icmp_type icmp = ICMP_TYPE_ECHO_REPLY \<or> icmp_type icmp = ICMP_TYPE_ECHO_REQUEST) (get_icmp_hdr p)) = Some (reported p)"
    using ip by (auto simp: reported_def)
  show ?thesis
  proof (cases "reported p \<and> \<not> iface_match_ip rs (ip_src ip)")
    case False
    then have "bounce_packet rs p = Some rs" using ip(1) rep by (auto simp: bounce_packet_def)
    then show ?thesis by (simp add: grown_def)
  next
    case True
    have "\<exists>q. (if ip_ttl ip < 255 then do { p \<leftarrow> put_ip_hdr p (ip\<lparr>ip_ttl := ip_ttl ip + 1, ip_sum := 0\<rparr>); store_ip_checksum p } else Some p) = Some q \<and>
        42 \<le> length q"
    proof (cases "ip_ttl ip < 255")
      case True
      obtain p1 where p1: "put_ip_hdr p (ip\<lparr>ip_ttl := ip_ttl ip + 1, ip_sum := 0\<rparr>) = Some p1"
        using put_ip_ok[of p] assms(3) by (auto simp: packet_fit_def)
      have "get_ip_hdr p1 = Some (ip\<lparr>ip_ttl := ip_ttl ip + 1, ip_sum := 0\<rparr>)" by (rule get_ip_put_ip[OF p1])
      from store_ip_checksum_frame[OF this] ip(1) assms(3) obtain q x where "store_ip_checksum p1 = Some q" "mem_st p1 24 (enc16 x) = Some q"
        by (auto simp: packet_fit_def)
      with p1 True put_ip_length[OF p1] mem_st_length assms(3) show ?thesis by (auto simp: packet_fit_def)
    next
      case False
      with assms(3) show ?thesis by (simp add: packet_fit_def)
    qed
    then obtain q where q: "(if ip_ttl ip < 255 then do { p \<leftarrow> put_ip_hdr p (ip\<lparr>ip_ttl := ip_ttl ip + 1, ip_sum := 0\<rparr>); store_ip_checksum p } else Some p) = Some q"
      "42 \<le> length q" by blast
    then have "bounce_packet rs p = map_option snd (send_icmp_packet rs q 3 1)" using True ip(1) rep by (simp add: bounce_packet_def)
    moreover obtain ip' where ip': "get_ip_hdr q = Some ip'" using q(2) by (auto simp: hdr_defs get_struct_def mem_ld_def)
    ultimately show ?thesis
    proof (cases "get_next_hop rs 32 (ip_src ip')")
      case None
      then have "bounce_packet rs p = Some rs" using \<open>bounce_packet rs p = _\<close> ip' by (simp add: send_icmp_packet_def)
      then show ?thesis by (simp add: grown_def)
    next
      case (Some a)
      obtain nh i where a: "a = (nh, i)" by (cases a)
      then obtain ie where ie: "get_iface rs i = Some ie" using routes_known_hop[OF assms(2)] Some by blast
      have "if (3::byte) = ICMP_TYPE_ECHO_REPLY then 38 \<le> length q \<and> length q < 131106 else 42 \<le> length q" using q(2) by simp
      from send_icmp_packet_eq[OF ip' Some[unfolded a] ie this, of 1] obtain f x y where
        f: "send_icmp_packet rs q 3 1 = send_ip rs f nh (ie_name ie)"
        "f = icmp_frame (ie_addr ie) ((populate_ip (word_of_nat (4 + length (icmp_quote 3 q))) IP_PROTO_ICMP (ie_ip ie) (ip_src ip'))\<lparr>ip_sum := x\<rparr>)
          \<lparr>icmp_type = 3, icmp_code = 1, icmp_sum = y\<rparr> (icmp_quote 3 q)" by auto
      have "packet_fit f" "\<not> reported f" using f(2) q(2) by (simp_all add: packet_fit_def icmp_quote_def reported_def populate_ip_def)
      from send_ip_grown[OF assms(1) ie this, of nh] f(1) \<open>bounce_packet rs p = _\<close> True show ?thesis by auto
    qed
  qed
qed

abbreviation req_times :: "arp_queue_entry list \<Rightarrow> int list" where
  "req_times q \<equiv> map aq_last_req_time q"

lemma add_packet_sel [simp]:
  "aq_last_req_time (arp_queue_entry_add_packet p e) = aq_last_req_time e" "aq_head (arp_queue_entry_add_packet p e) = aq_head e @ [p]"
  "entry_fit rs (arp_queue_entry_add_packet p e) \<longleftrightarrow> entry_fit rs e \<and> packet_fit p"
  by (auto simp: arp_queue_entry_add_packet_def entry_fit_def)

lemma grown_fit:
  assumes "grown rs q q'" and "list_all (entry_fit rs) q"
  shows "list_all (entry_fit rs) q'" "\<exists>ts. req_times q' = req_times q @ ts \<and> set ts \<subseteq> {clock rs}"
proof -
  have u: "list_all (entry_fit rs) (update_first P (arp_queue_entry_add_packet p) q)" if "packet_fit p" for P p
    using assms(2) that by (induction q) auto
  from assms u show "list_all (entry_fit rs) q'" by (auto simp: grown_def entry_fit_def)
  have t: "req_times (update_first P (arp_queue_entry_add_packet p) q) = req_times q" for P p by (rule map_update_first) simp
  from assms(1) consider "req_times q' = req_times q" | "req_times q' = req_times q @ [clock rs]" by (auto simp: grown_def t)
  then show "\<exists>ts. req_times q' = req_times q @ ts \<and> set ts \<subseteq> {clock rs}" by cases auto
qed

lemma nth_update_first: "i < length q \<Longrightarrow> update_first P f q ! i = q ! i \<or> update_first P f q ! i = f (q ! i)"
  by (induction q arbitrary: i) (auto simp: nth_Cons' split: nat.splits)

lemma grown_nth:
  assumes "grown rs q q'" and "i < length q"
  shows "i < length q' \<and> (\<exists>ps. aq_head (q' ! i) = aq_head (q ! i) @ ps \<and> length ps \<le> 1 \<and> list_all (\<lambda>p. \<not> reported p) ps)"
proof -
  have u: "\<exists>ps. aq_head (update_first P (arp_queue_entry_add_packet p) q ! i) = aq_head (q ! i) @ ps \<and> length ps \<le> 1 \<and> list_all (\<lambda>p. \<not> reported p) ps"
    if "\<not> reported p" for P p
  proof -
    from nth_update_first[OF assms(2), of P "arp_queue_entry_add_packet p"] consider
      "update_first P (arp_queue_entry_add_packet p) q ! i = q ! i" | "update_first P (arp_queue_entry_add_packet p) q ! i = arp_queue_entry_add_packet p (q ! i)" by blast
    then show ?thesis using that by cases (auto intro: exI[of _ "[]"] exI[of _ "[p]"])
  qed
  from assms u show ?thesis by (auto simp: grown_def nth_append intro: exI[of _ "[]"])
qed

definition weight :: "byte list list \<Rightarrow> nat" where
  "weight hs = sum_list (map (\<lambda>p. if reported p then 2 else 1) hs)"

lemma weight_simps [simp]:
  "weight [] = 0" "weight (p # hs) = (if reported p then 2 else 1) + weight hs" "weight (hs @ ps) = weight hs + weight ps"
  by (simp_all add: weight_def)

lemma weight_unreported: "list_all (\<lambda>p. \<not> reported p) ps \<Longrightarrow> weight ps = length ps"
  by (induction ps) auto

lemma bounce_packets_total:
  assumes "queue_fit rs" and "i < length (arp_queue rs)"
  shows "\<exists>rs'. bounce_packets i rs = Some rs' \<and> same_but_queue rs rs' \<and> queue_fit rs' \<and>
    (\<exists>ts. req_times (arp_queue rs') = req_times (arp_queue rs) @ ts \<and> set ts \<subseteq> {clock rs})"
  using assms
proof (induction "weight (aq_head (arp_queue rs ! i))" arbitrary: rs rule: less_induct)
  case less
  show ?case
  proof (cases "aq_head (arp_queue rs ! i)")
    case Nil
    with less.prems show ?thesis by (simp add: bounce_packets.simps[of i rs])
  next
    case (Cons p hs)
    have "entry_fit rs (arp_queue rs ! i)" using less.prems by (simp add: queue_fit_def list_all_length)
    then have fit: "lock_free WriteLock rs" "routes_known rs" "list_all (entry_fit rs) (arp_queue rs)" "packet_fit p"
      using less.prems Cons by (auto simp: queue_fit_def entry_fit_def)
    from bounce_packet_total[OF fit(1,2,4)] obtain rs1 where
      r1: "bounce_packet rs p = Some rs1" "same_but_queue rs rs1" "grown rs (arp_queue rs) (arp_queue rs1)" "\<not> reported p \<Longrightarrow> rs1 = rs" by blast
    from grown_nth[OF r1(3) less.prems(2)] Cons obtain ps where
      ps: "i < length (arp_queue rs1)" "aq_head (arp_queue rs1 ! i) = p # hs @ ps" "length ps \<le> 1" "list_all (\<lambda>p. \<not> reported p) ps" by auto
    have ps0: "ps = []" if "\<not> reported p" using r1(4)[OF that] ps(2) Cons by simp
    let ?rs = "set_entry i (\<lambda>aqe. aqe\<lparr>aq_head := tl (aq_head aqe)\<rparr>) rs1"
    have s: "same_but_queue rs ?rs" using r1(2) same_but_queue_trans[of rs rs1 ?rs] by (simp add: set_entry_def)
    have "list_all (entry_fit rs) (arp_queue ?rs)"
    proof -
      have f: "list_all (entry_fit rs) (arp_queue rs1)" by (rule grown_fit(1)[OF r1(3) fit(3)])
      then have "entry_fit rs (arp_queue rs1 ! i)" using ps(1) by (simp add: list_all_length)
      with f ps(1,2) show ?thesis by (auto simp: set_entry_def entry_fit_def list_all_iff dest!: set_update_subset_insert[THEN subsetD])
    qed
    then have q: "queue_fit ?rs" using fit(1,2) by (simp add: queue_fit_def same_but_queue_sel[OF s])
    have "aq_head (arp_queue ?rs ! i) = hs @ ps" using ps by (simp add: set_entry_def)
    then have w: "weight (aq_head (arp_queue ?rs ! i)) < weight (aq_head (arp_queue rs ! i))"
      using Cons ps ps0 weight_unreported[OF ps(4)] by auto
    have "i < length (arp_queue ?rs)" using ps(1) by (simp add: set_entry_def)
    from less.hyps[OF w q this] obtain rs' where
      r': "bounce_packets i ?rs = Some rs'" "same_but_queue ?rs rs'" "queue_fit rs'" "\<exists>ts. req_times (arp_queue rs') = req_times (arp_queue ?rs) @ ts \<and> set ts \<subseteq> {clock rs}"
      by (auto simp: same_but_queue_sel[OF s])
    have "req_times (arp_queue ?rs) = req_times (arp_queue rs1)" by (simp add: set_entry_def map_update) (metis list_update_id map_update nth_map ps(1))
    with grown_fit(2)[OF r1(3) fit(3)] r'(4) have "\<exists>ts. req_times (arp_queue rs') = req_times (arp_queue rs) @ ts \<and> set ts \<subseteq> {clock rs}" by auto
    with r1(1) r' Cons s show ?thesis by (auto simp: bounce_packets.simps[of i rs] intro: same_but_queue_trans)
  qed
qed

definition late :: "router_state \<Rightarrow> int \<Rightarrow> bool" where
  "late rs t \<longleftrightarrow> clock rs - t > 1"

lemma due_late: "aqe_due rs e \<longleftrightarrow> late rs (aq_last_req_time e)"
  by (simp add: aqe_due_def late_def)

lemma late_same: "same_but_queue rs rs' \<Longrightarrow> late rs' = late rs"
  by (simp add: late_def fun_eq_iff same_but_queue_sel)

lemma late_count_drop:
  assumes "set ts \<subseteq> {clock rs}" and "i < length q" and "late rs (q ! i)"
  shows "length (filter (late rs) (drop i (take i (q @ ts) @ drop (Suc i) (q @ ts)))) < length (filter (late rs) (drop i q))"
proof -
  have ts: "filter (late rs) ts = []" using assms(1) by (auto simp: filter_empty_conv late_def)
  have "drop i q = q ! i # drop (Suc i) q" by (rule Cons_nth_drop_Suc[OF assms(2), symmetric])
  with assms(2,3) ts show ?thesis by simp
qed

definition late_from :: "router_state \<Rightarrow> nat \<Rightarrow> nat" where
  "late_from rs i = length (filter (late rs) (drop i (req_times (arp_queue rs))))"

text \<open>One pass of the loop, at position \<open>i\<close>: it is over with no entry due, or goes on with fewer entries ahead.\<close>

definition good_pass :: "nat \<Rightarrow> router_state \<Rightarrow> nat \<Rightarrow> router_state \<Rightarrow> bool" where
  "good_pass i rs i' rs' \<longleftrightarrow> same_but_queue rs rs' \<and> queue_fit rs' \<and> list_all (\<lambda>t. \<not> late rs t) (take i' (req_times (arp_queue rs'))) \<and>
     (process_arp_queue_from i rs = Some rs' \<and> list_all (\<lambda>t. \<not> late rs t) (req_times (arp_queue rs')) \<or>
      process_arp_queue_from i rs = process_arp_queue_from i' rs' \<and>
        (late_from rs' i' < late_from rs i \<or> late_from rs' i' = late_from rs i \<and> length (arp_queue rs') - i' < length (arp_queue rs) - i))"

lemma late_from_Suc: "i < length (arp_queue rs) \<Longrightarrow> late_from rs i = (if aqe_due rs (arp_queue rs ! i) then 1 else 0) + late_from rs (Suc i)"
  unfolding late_from_def by (subst Cons_nth_drop_Suc[of i "req_times (arp_queue rs)", symmetric]) (simp_all add: due_late)

lemma pass_idle:
  assumes "queue_fit rs" and "list_all (\<lambda>t. \<not> late rs t) (take i (req_times (arp_queue rs)))" and "i < length (arp_queue rs)"
    and "\<not> aqe_due rs (arp_queue rs ! i)"
  shows "good_pass i rs (Suc i) rs"
proof -
  have pre: "list_all (\<lambda>t. \<not> late rs t) (take (Suc i) (req_times (arp_queue rs)))"
    using assms(2-4) by (simp add: take_Suc_conv_app_nth due_late)
  show ?thesis
  proof (cases "Suc i < length (arp_queue rs)")
    case True
    with assms pre late_from_Suc[OF assms(3)] process_arp_queue_from.simps[of i rs] show ?thesis
      by (auto simp: good_pass_def intro: diff_less_mono2)
  next
    case False
    with assms pre process_arp_queue_from.simps[of i rs] show ?thesis by (simp add: good_pass_def)
  qed
qed

lemma pass_again:
  assumes "queue_fit rs" and "list_all (\<lambda>t. \<not> late rs t) (take i (req_times (arp_queue rs)))" and "i < length (arp_queue rs)"
    and "aqe_due rs (arp_queue rs ! i)" and "aq_requests (arp_queue rs ! i) < 5"
  shows "\<exists>rs'. good_pass i rs (Suc i) rs'"
proof -
  let ?e = "arp_queue rs ! i"
  let ?rs = "set_entry i (\<lambda>aqe. aqe\<lparr>aq_last_req_time := clock rs, aq_requests := aq_requests aqe + 1\<rparr>) rs"
  have fit: "lock_free WriteLock rs" "routes_known rs" "list_all (entry_fit rs) (arp_queue rs)" "entry_fit rs ?e"
    using assms(1,3) by (auto simp: queue_fit_def list_all_length)
  then obtain ie where ie: "get_iface ?rs (aq_out_iface_name ?e) = Some ie" by (auto simp: entry_fit_def set_entry_def get_iface_def)
  let ?rs1 = "?rs\<lparr>sent := sent rs @ [(aq_out_iface_name ?e, arp_request_frame ie (aq_next_hop ?e))]\<rparr>"
  have "lock_free WriteLock ?rs" using fit(1) by (simp add: set_entry_def lock_free_def)
  from send_arp_request_eq[OF this] ie have s: "send_arp_request ?rs (aq_next_hop ?e) (aq_out_iface_name ?e) = Some ?rs1"
    by (simp add: set_entry_def)
  have sb: "same_but_queue rs ?rs1" by (rule same_but_queue_trans[of rs ?rs]) (simp_all add: set_entry_def)
  have q: "arp_queue ?rs1 = (arp_queue rs)[i := ?e\<lparr>aq_last_req_time := clock rs, aq_requests := aq_requests ?e + 1\<rparr>]" by (simp add: set_entry_def)
  then have t: "req_times (arp_queue ?rs1) = (req_times (arp_queue rs))[i := clock rs]" by (simp add: map_update)
  have "entry_fit rs (?e\<lparr>aq_last_req_time := clock rs, aq_requests := aq_requests ?e + 1\<rparr>)" using fit(4) assms(5) by (simp add: entry_fit_def)
  with fit(3) have "list_all (entry_fit rs) (arp_queue ?rs1)"
    unfolding q by (auto simp: list_all_iff dest!: set_update_subset_insert[THEN subsetD])
  with fit(1,2) have qf: "queue_fit ?rs1" by (simp add: queue_fit_def same_but_queue_sel[OF sb])
  have "take (Suc i) (req_times (arp_queue ?rs1)) = take i (req_times (arp_queue rs)) @ [clock rs]"
    unfolding t using assms(3) by (simp add: take_Suc_conv_app_nth)
  then have pre: "list_all (\<lambda>t. \<not> late rs t) (take (Suc i) (req_times (arp_queue ?rs1)))" using assms(2) by (simp add: late_def)
  have lf: "late_from ?rs1 (Suc i) < late_from rs i"
    using late_from_Suc[OF assms(3)] assms(4) unfolding late_from_def late_same[OF sb] t by simp
  have run: "process_arp_queue_from i rs = (if Suc i < length (arp_queue rs) then process_arp_queue_from (Suc i) ?rs1 else Some ?rs1)"
    using process_arp_queue_from.simps[of i rs] assms(3-5) s by (simp add: Let_def)
  have "take (Suc i) (req_times (arp_queue ?rs1)) = req_times (arp_queue ?rs1)" if "\<not> Suc i < length (arp_queue rs)" using that q by simp
  with sb qf pre lf run show ?thesis by (intro exI[of _ ?rs1]) (auto simp: good_pass_def)
qed

lemma pass_give_up:
  assumes "queue_fit rs" and "list_all (\<lambda>t. \<not> late rs t) (take i (req_times (arp_queue rs)))" and "i < length (arp_queue rs)"
    and "aqe_due rs (arp_queue rs ! i)" and "\<not> aq_requests (arp_queue rs ! i) < 5"
  shows "\<exists>rs'. good_pass i rs i rs'"
proof -
  from bounce_packets_total[OF assms(1,3)] obtain rs1 ts where
    r1: "bounce_packets i rs = Some rs1" "same_but_queue rs rs1" "queue_fit rs1" "req_times (arp_queue rs1) = req_times (arp_queue rs) @ ts" "set ts \<subseteq> {clock rs}" by blast
  let ?rs = "drop_entry i rs1"
  have sb: "same_but_queue rs ?rs" using r1(2) same_but_queue_trans[of rs rs1 ?rs] by (simp add: drop_entry_def)
  have t: "req_times (arp_queue ?rs) = take i (req_times (arp_queue rs) @ ts) @ drop (Suc i) (req_times (arp_queue rs) @ ts)"
    unfolding r1(4)[symmetric] by (simp add: drop_entry_def take_map drop_map)
  have "list_all (entry_fit rs) (arp_queue ?rs)"
    using r1(3) by (auto simp: drop_entry_def queue_fit_def list_all_iff same_but_queue_sel[OF r1(2)] dest: in_set_takeD in_set_dropD)
  with r1(3) have qf: "queue_fit ?rs" by (simp add: queue_fit_def same_but_queue_sel[OF r1(2)] same_but_queue_sel[OF sb])
  have lf: "late_from ?rs i < late_from rs i"
    using late_count_drop[OF r1(5), of i "req_times (arp_queue rs)"] assms(3,4) by (simp add: late_from_def late_same[OF sb] t due_late)
  have pre: "list_all (\<lambda>t. \<not> late rs t) (take i (req_times (arp_queue ?rs)))" unfolding t using assms(2,3) by simp
  have run: "process_arp_queue_from i rs = (if Suc i < length (arp_queue rs) then process_arp_queue_from i ?rs else Some ?rs)"
    using process_arp_queue_from.simps[of i rs] assms(3-5) r1(1) by (simp add: Let_def)
  have "list_all (\<lambda>t. \<not> late rs t) (req_times (arp_queue ?rs))" if "\<not> Suc i < length (arp_queue rs)"
    unfolding t using that assms(2,3) r1(5) by (auto simp: list_all_iff late_def)
  with sb qf pre lf run show ?thesis by (intro exI[of _ ?rs]) (auto simp: good_pass_def)
qed

lemma process_arp_queue_from_total:
  assumes "queue_fit rs" and "list_all (\<lambda>t. \<not> late rs t) (take i (req_times (arp_queue rs)))"
  shows "\<exists>rs'. process_arp_queue_from i rs = Some rs' \<and> same_but_queue rs rs' \<and> queue_fit rs' \<and> list_all (\<lambda>t. \<not> late rs t) (req_times (arp_queue rs'))"
  using assms
proof (induction "(i, rs)" arbitrary: i rs rule: wf_induct_rule[OF wf_measures[of "[\<lambda>(i, rs). late_from rs i, \<lambda>(i, rs). length (arp_queue rs) - i]"]])
  case less: 1
  show ?case
  proof (cases "i < length (arp_queue rs)")
    case False
    then have "process_arp_queue_from i rs = Some rs" using process_arp_queue_from.simps[of i rs] by simp
    with less.prems False show ?thesis by simp
  next
    case True
    obtain i' rs1 where g: "good_pass i rs i' rs1"
      using pass_idle[OF less.prems True] pass_again[OF less.prems True] pass_give_up[OF less.prems True] by blast
    note sb = conjunct1[OF g[unfolded good_pass_def]]
    from g consider "process_arp_queue_from i rs = Some rs1" "list_all (\<lambda>t. \<not> late rs t) (req_times (arp_queue rs1))"
      | "process_arp_queue_from i rs = process_arp_queue_from i' rs1"
        "((i', rs1), i, rs) \<in> measures [\<lambda>(i, rs). late_from rs i, \<lambda>(i, rs). length (arp_queue rs) - i]" by (auto simp: good_pass_def)
    then show ?thesis
    proof cases
      case 1
      with g show ?thesis by (auto simp: good_pass_def)
    next
      case 2
      from g have "queue_fit rs1" "list_all (\<lambda>t. \<not> late rs1 t) (take i' (req_times (arp_queue rs1)))"
        by (simp_all add: good_pass_def late_same[OF sb])
      from less.hyps[OF 2(2) this] 2(1) late_same[OF sb] same_but_queue_trans[OF sb] show ?thesis by auto
    qed
  qed
qed

section \<open>Properties\<close>

text \<open>
  C14. The ARP thread gives up in time: when every route and every waiting entry names an interface of the router and the waiting packets
  have whole headers, one round of the thread ends, although the errors it sends may be queued again behind the packets it is
  looking at. Afterwards no request is older than a second, no entry has more than five requests, the queue is fit for the next
  round, all locks are free, and nothing but the cache, the queue, the registers and the frames sent has changed.
\<close>

theorem arp_round_ends:
  assumes "held rs = []" and "queue_fit rs"
  shows "\<exists>rs'. arp_round rs = Some rs' \<and> held rs' = [] \<and> queue_fit rs' \<and>
    list_all (\<lambda>aqe. clock rs - aq_last_req_time aqe \<le> 1 \<and> aq_requests aqe \<le> 5) (arp_queue rs') \<and>
    rs' = rs\<lparr>arp_cache := arp_cache rs', regs := regs rs', sent := sent rs', arp_queue := arp_queue rs'\<rparr>"
proof -
  have e: "\<exists>c w. expire_arp_cache x = x\<lparr>arp_cache := c, regs := w\<rparr>" for x
    by (intro exI[of _ "arp_cache (expire_arp_cache x)"] exI[of _ "regs (expire_arp_cache x)"])
      (simp add: expire_arp_cache_def trigger_arp_eq Let_def)
  obtain c w where x: "expire_arp_cache (rs\<lparr>held := [(ArpCache, Wr)]\<rparr>) = rs\<lparr>held := [(ArpCache, Wr)], arp_cache := c, regs := w\<rparr>"
    using e[of "rs\<lparr>held := [(ArpCache, Wr)]\<rparr>"] by auto
  let ?rs = "rs\<lparr>arp_cache := c, regs := w, held := ip_locks\<rparr>"
  have "queue_fit ?rs" using assms(2) by (simp add: queue_fit_def lock_free_def routes_known_def entry_fit_def[abs_def] get_iface_def)
  from process_arp_queue_from_total[OF this, of 0] obtain s q where
    p: "process_arp_queue ?rs = Some (?rs\<lparr>sent := s, arp_queue := q\<rparr>)" "queue_fit (?rs\<lparr>sent := s, arp_queue := q\<rparr>)"
      "list_all (\<lambda>t. \<not> late rs t) (req_times q)"
    by (auto simp: process_arp_queue_def same_but_queue_def late_def)
  let ?rs' = "rs\<lparr>arp_cache := c, regs := w, sent := s, arp_queue := q\<rparr>"
  have "arp_round rs = Some ?rs'"
    using assms(1) x p(1) by (simp add: arp_round_def acquire_def release_def)
  moreover have "queue_fit ?rs'" using p(2) assms(1)
    by (simp add: queue_fit_def lock_free_def routes_known_def entry_fit_def[abs_def] get_iface_def)
  moreover from this p(3) have "list_all (\<lambda>aqe. clock rs - aq_last_req_time aqe \<le> 1 \<and> aq_requests aqe \<le> 5) q"
    by (auto simp: list_all_iff late_def queue_fit_def entry_fit_def not_less)
  ultimately show ?thesis using assms(1) by (intro exI[of _ ?rs']) simp
qed

theorem arp_round_ends_witness:
  "\<exists>rs'. arp_round (lan_router\<lparr>clock := 9, arp_queue := [\<lparr>aq_out_iface_name = ''eth1'', aq_next_hop = htonl 0x0A000002, aq_requests = 5,
       aq_last_req_time = 0, aq_head = [enc_eth transit_eth @ enc_ip (transit_ip 64 0) @ [1, 2, 3, 4, 5, 6, 7, 8]]\<rparr>]\<rparr>) = Some rs' \<and> held rs' = []"
proof -
  let ?rs = "lan_router\<lparr>clock := 9, arp_queue := [\<lparr>aq_out_iface_name = ''eth1'', aq_next_hop = htonl 0x0A000002, aq_requests = 5,
       aq_last_req_time = 0, aq_head = [enc_eth transit_eth @ enc_ip (transit_ip 64 0) @ [1, 2, 3, 4, 5, 6, 7, 8]]\<rparr>]\<rparr>"
  have "held ?rs = []" "queue_fit ?rs" by code_simp+
  from arp_round_ends[OF this] show ?thesis by blast
qed

end
