(* ===== verification/Cstring.thy ===== *)
theory Cstring
  imports Prelude
begin

text \<open>
  The parts of the C library that the text interfaces of the router use: strings in buffers, white
  space, numbers as text, \<open>sscanf\<close>, \<open>inet_pton\<close> and \<open>inet_ntop\<close>. Nothing here is code of the
  repository; the definitions follow the C standard and POSIX.
\<close>

section \<open>Strings in buffers\<close>

abbreviation NUL :: char where "NUL \<equiv> CHR 0x00"
abbreviation LF :: char where "LF \<equiv> CHR 0x0A"
abbreviation CR :: char where "CR \<equiv> CHR 0x0D"
abbreviation TAB :: char where "TAB \<equiv> CHR 0x09"

text \<open>The string a buffer holds; a buffer with no zero in it is read past its end.\<close>

definition cstring :: "string \<Rightarrow> string outcome" where
  "cstring buf = (if NUL \<in> set buf then Some (takeWhile (\<lambda>c. c \<noteq> NUL) buf) else None)"

lemma cstring_NUL [simp]: "NUL \<notin> set s \<Longrightarrow> cstring (s @ NUL # rest) = Some s"
  by (auto simp: cstring_def takeWhile_append)

lemma cstring_no_NUL: "cstring buf = Some s \<Longrightarrow> NUL \<notin> set s"
  by (auto simp: cstring_def dest: set_takeWhileD split: if_splits)

lemma cstring_short: "cstring buf = Some s \<Longrightarrow> length s < length buf"
  by (induction buf arbitrary: s) (auto simp: cstring_def split: if_splits)

definition isspace :: "char \<Rightarrow> bool" where
  "isspace c \<longleftrightarrow> c = CHR '' '' \<or> c = TAB \<or> c = LF \<or> c = CHR 0x0B \<or> c = CHR 0x0C \<or> c = CR"

text \<open>A word is what the conversion \<open>%as\<close> reads: characters that are not white space, at least one.\<close>

definition is_word :: "string \<Rightarrow> bool" where
  "is_word s \<longleftrightarrow> s \<noteq> [] \<and> \<not> list_ex isspace s"

text \<open>Bytes and characters.\<close>

definition byte_of :: "char \<Rightarrow> byte" where
  "byte_of c = word_of_nat (of_char c)"

definition char_at :: "byte \<Rightarrow> char" where
  "char_at b = char_of (unat b)"

lemma char_at_byte_of [simp]: "char_at (byte_of c) = c"
proof -
  have "(of_char c :: nat) < 256" by (metis of_char_mod_256 mod_less_divisor zero_less_numeral)
  then show ?thesis by (simp add: char_at_def byte_of_def unat_of_nat)
qed

lemma byte_of_zero: "byte_of c = 0 \<longleftrightarrow> c = NUL"
proof -
  have "char_of (0::nat) = NUL" by code_simp
  then show ?thesis using char_at_byte_of[of c] by (auto simp: byte_of_def char_at_def)
qed

section \<open>Numbers\<close>

definition digit_char :: "nat \<Rightarrow> char" where
  "digit_char d = (if d < 10 then char_of (48 + d) else char_of (55 + d))"

definition digit_value :: "char \<Rightarrow> nat option" where
  "digit_value c =
     (let n = of_char c :: nat in
      if 48 \<le> n \<and> n \<le> 57 then Some (n - 48)
      else if 65 \<le> n \<and> n \<le> 70 then Some (n - 55)
      else if 97 \<le> n \<and> n \<le> 102 then Some (n - 87)
      else None)"

definition is_digit :: "nat \<Rightarrow> char \<Rightarrow> bool" where
  "is_digit b c = (case digit_value c of None \<Rightarrow> False | Some d \<Rightarrow> d < b)"

definition digits_value :: "nat \<Rightarrow> string \<Rightarrow> nat" where
  "digits_value b s = foldl (\<lambda>n c. b * n + the (digit_value c)) 0 s"

text \<open>\<open>%u\<close> of \<open>printf\<close>.\<close>

fun show_nat :: "nat \<Rightarrow> string" where
  "show_nat n = (if n < 10 then [digit_char n] else show_nat (n div 10) @ [digit_char (n mod 10)])"

declare show_nat.simps [simp del]

text \<open>\<open>%d\<close> of \<open>printf\<close>.\<close>

definition show_int :: "int \<Rightarrow> string" where
  "show_int z = (if z < 0 then CHR ''-'' # show_nat (nat (- z)) else show_nat (nat z))"

text \<open>\<open>%02X\<close> of \<open>printf\<close>.\<close>

definition show_byte :: "byte \<Rightarrow> string" where
  "show_byte w = [digit_char (unat w div 16), digit_char (unat w mod 16)]"

lemma of_char_digit_char: "d < 16 \<Longrightarrow> of_char (digit_char d) = (if d < 10 then 48 + d else 55 + d)"
  by (simp add: digit_char_def)

lemma digit_value_char [simp]: "d < 16 \<Longrightarrow> digit_value (digit_char d) = Some d"
  by (auto simp: digit_value_def of_char_digit_char Let_def)

lemma is_digit_char: "d < 16 \<Longrightarrow> is_digit b (digit_char d) \<longleftrightarrow> d < b"
  by (simp add: is_digit_def)

lemma digits_value_snoc [simp]: "digits_value b (s @ [c]) = b * digits_value b s + the (digit_value c)"
  by (simp add: digits_value_def)

lemma show_nat_value [simp]: "digits_value 10 (show_nat n) = n"
proof (induction n rule: show_nat.induct)
  case (1 n)
  show ?case
  proof (cases "n < 10")
    case True
    then show ?thesis by (simp add: show_nat.simps digits_value_def)
  next
    case False
    then show ?thesis by (subst show_nat.simps) (simp add: 1)
  qed
qed

lemma show_nat_digits: "c \<in> set (show_nat n) \<Longrightarrow> is_digit 10 c"
proof (induction n rule: show_nat.induct)
  case (1 n)
  then show ?case by (subst (asm) (2) show_nat.simps) (auto simp: is_digit_char split: if_splits)
qed

lemma show_nat_nonempty [simp]: "show_nat n \<noteq> []"
  by (subst show_nat.simps) simp

lemma show_nat_hd: "0 < n \<Longrightarrow> \<exists>d. 0 < d \<and> d < 10 \<and> hd (show_nat n) = digit_char d"
proof (induction n rule: show_nat.induct)
  case (1 n)
  show ?case
  proof (cases "n < 10")
    case True
    then show ?thesis using 1(2) by (subst show_nat.simps) auto
  next
    case False
    then show ?thesis using 1 by (subst show_nat.simps) (simp add: hd_append)
  qed
qed

lemma show_nat_length: "n < 10 ^ Suc k \<Longrightarrow> length (show_nat n) \<le> Suc k"
proof (induction k arbitrary: n)
  case 0
  then show ?case by (subst show_nat.simps) simp
next
  case (Suc k)
  have "length (show_nat (n div 10)) \<le> Suc k"
    by (rule Suc.IH) (use Suc.prems in \<open>simp add: less_mult_imp_div_less mult.commute\<close>)
  then show ?case by (subst show_nat.simps) simp
qed

text \<open>The digits are not white space, nor a dot, nor a sign.\<close>

lemma is_digit_code: "is_digit b c \<Longrightarrow> 48 \<le> (of_char c :: nat)"
  by (auto simp: is_digit_def digit_value_def Let_def split: if_splits option.splits)

lemma digit_not_special:
  assumes "is_digit b c"
  shows "\<not> isspace c" "c \<noteq> CHR ''.''" "c \<noteq> CHR ''-''" "c \<noteq> CHR ''+''" "c \<noteq> NUL"
  using is_digit_code[OF assms] by (auto simp: isspace_def)

section \<open>Addresses as text\<close>

fun split_on :: "char \<Rightarrow> string \<Rightarrow> string list" where
  "split_on d [] = [[]]"
| "split_on d (c # s) =
     (if c = d then [] # split_on d s
      else case split_on d s of [] \<Rightarrow> [[c]] | w # ws \<Rightarrow> (c # w) # ws)"

text \<open>An octet has one to three digits and no leading zero, and is at most 255.\<close>

definition octet :: "string \<Rightarrow> byte option" where
  "octet s =
     (if s \<noteq> [] \<and> length s \<le> 3 \<and> list_all (is_digit 10) s \<and> (length s = 1 \<or> hd s \<noteq> CHR ''0'')
         \<and> digits_value 10 s \<le> 255
      then Some (word_of_nat (digits_value 10 s)) else None)"

text \<open>The address is stored in network byte order: the first octet is its first byte.\<close>

definition inet_pton :: "string \<Rightarrow> u32 option" where
  "inet_pton s =
     (case split_on (CHR ''.'') s of
        [a, b, c, d] \<Rightarrow>
          do { a \<leftarrow> octet a; b \<leftarrow> octet b; c \<leftarrow> octet c; d \<leftarrow> octet d; Some (le32 a b c d) }
      | _ \<Rightarrow> None)"

definition inet_ntop :: "u32 \<Rightarrow> string" where
  "inet_ntop a =
     show_nat (unat (byteN 0 a)) @ CHR ''.'' # show_nat (unat (byteN 1 a)) @ CHR ''.'' #
     show_nat (unat (byteN 2 a)) @ CHR ''.'' # show_nat (unat (byteN 3 a))"

lemma split_on_word: "d \<notin> set s \<Longrightarrow> split_on d s = [s]"
  by (induction s) auto

lemma split_on_append: "d \<notin> set s \<Longrightarrow> split_on d (s @ d # t) = s # split_on d t"
  by (induction s) auto

lemma octet_show_nat [simp]: "octet (show_nat (unat (w::byte))) = Some w"
proof -
  have "length (show_nat (unat w)) \<le> Suc 2"
    by (rule show_nat_length) (rule less_trans[OF unat_byte_less], simp)
  moreover have "length (show_nat (unat w)) = 1 \<or> hd (show_nat (unat w)) \<noteq> CHR ''0''"
  proof (cases "unat w = 0")
    case False
    then obtain d where "0 < d" "d < 10" "hd (show_nat (unat w)) = digit_char d"
      using show_nat_hd[of "unat w"] by auto
    then have "of_char (hd (show_nat (unat w))) \<noteq> (of_char (CHR ''0'') :: nat)"
      by (simp add: of_char_digit_char)
    then show ?thesis by auto
  qed (simp add: show_nat.simps)
  moreover have "unat w \<le> 255" using unat_byte_less[of w] by linarith
  ultimately show ?thesis by (auto simp: octet_def list_all_iff show_nat_digits)
qed

lemma dot_free: "CHR ''.'' \<notin> set (show_nat n)"
  using digit_not_special(2) show_nat_digits by blast

lemma inet_pton_ntop [simp]: "inet_pton (inet_ntop a) = Some a"
  by (simp add: inet_pton_def inet_ntop_def split_on_append split_on_word dot_free)

lemma inet_ntop_word: "is_word (inet_ntop a)"
  by (auto simp: is_word_def inet_ntop_def list_ex_iff isspace_def[of "CHR ''.''"]
      dest: show_nat_digits digit_not_special(1))

lemma inet_ntop_length: "length (inet_ntop a) \<le> 15"
proof -
  have "length (show_nat (unat (w::byte))) \<le> 3" for w
    using show_nat_length[of "unat w" 2] less_trans[OF unat_byte_less, of 1000 w] by simp
  from this[of "byteN 0 a"] this[of "byteN 1 a"] this[of "byteN 2 a"] this[of "byteN 3 a"]
  show ?thesis by (simp add: inet_ntop_def)
qed

section \<open>Formatted input\<close>

text \<open>
  The directives of the format strings of the router. \<open>%as\<close> is the GNU conversion that stores a word
  in a fresh string. A number that does not fit its 32 bit variable is undefined
  behaviour, the outcome \<open>None\<close>. The list of the values assigned has the length that
  \<open>sscanf\<close> returns, apart from the value -1 at the end of the input, which no caller
  tells from 0.
\<close>

datatype directive = Lit char | Blank | Str_conv | Hex_conv nat | Unsigned_conv | Int_conv

datatype scanned = Str string | Num int

fun scan_format :: "string \<Rightarrow> directive list" where
  "scan_format [] = []"
| "scan_format (c # f) =
     (if c \<noteq> CHR ''%'' then (if isspace c then Blank else Lit c) # scan_format f
      else if take 2 f = ''as'' then Str_conv # scan_format (drop 2 f)
      else if take 2 f = ''2X'' then Hex_conv 2 # scan_format (drop 2 f)
      else if take 1 f = ''u'' then Unsigned_conv # scan_format (drop 1 f)
      else if take 1 f = ''d'' then Int_conv # scan_format (drop 1 f)
      else Lit c # scan_format f)"

definition scan_sign :: "string \<Rightarrow> bool \<times> string" where
  "scan_sign s =
     (if take 1 s = ''-'' then (True, drop 1 s) else if take 1 s = ''+'' then (False, drop 1 s) else (False, s))"

definition scan_prefix :: "nat \<Rightarrow> string \<Rightarrow> string" where
  "scan_prefix b s = (if b = 16 \<and> (take 2 s = ''0x'' \<or> take 2 s = ''0X'') then drop 2 s else s)"

text \<open>A number in the first \<open>w\<close> characters: its sign, its value and the characters it took.\<close>

definition scan_number :: "nat \<Rightarrow> nat \<Rightarrow> string \<Rightarrow> (bool \<times> nat \<times> nat) option" where
  "scan_number b w s =
     (let (neg, t) = scan_sign (take w s); t = scan_prefix b t; ds = takeWhile (is_digit b) t in
      if ds = [] then None
      else Some (neg, digits_value b ds, length (take w s) - length t + length ds))"

definition signed_value :: "bool \<Rightarrow> nat \<Rightarrow> int" where
  "signed_value neg n = (if neg then - int n else int n)"

fun sscan :: "directive list \<Rightarrow> string \<Rightarrow> scanned list outcome" where
  "sscan [] s = Some []"
| "sscan (Lit c # ds) s = (if take 1 s = [c] then sscan ds (drop 1 s) else Some [])"
| "sscan (Blank # ds) s = sscan ds (dropWhile isspace s)"
| "sscan (Str_conv # ds) s =
     (let t = dropWhile isspace s; w = takeWhile (\<lambda>c. \<not> isspace c) t in
      if w = [] then Some [] else map_option ((#) (Str w)) (sscan ds (drop (length w) t)))"
| "sscan (Hex_conv w # ds) s =
     (let t = dropWhile isspace s in
      case scan_number 16 w t of
        None \<Rightarrow> Some []
      | Some (neg, n, k) \<Rightarrow>
          if n < 2 ^ 32 then map_option ((#) (Num (signed_value neg n mod 2 ^ 32))) (sscan ds (drop k t)) else None)"
| "sscan (Unsigned_conv # ds) s =
     (let t = dropWhile isspace s in
      case scan_number 10 (length t) t of
        None \<Rightarrow> Some []
      | Some (neg, n, k) \<Rightarrow>
          if n < 2 ^ 32 then map_option ((#) (Num (signed_value neg n mod 2 ^ 32))) (sscan ds (drop k t)) else None)"
| "sscan (Int_conv # ds) s =
     (let t = dropWhile isspace s in
      case scan_number 10 (length t) t of
        None \<Rightarrow> Some []
      | Some (neg, n, k) \<Rightarrow>
          if - (2 ^ 31) \<le> signed_value neg n \<and> signed_value neg n < 2 ^ 31
          then map_option ((#) (Num (signed_value neg n))) (sscan ds (drop k t)) else None)"

definition sscanf :: "string \<Rightarrow> string \<Rightarrow> scanned list outcome" where
  "sscanf s f = sscan (scan_format f) s"

text \<open>A word is read up to the white space that follows it.\<close>

definition ends_word :: "string \<Rightarrow> bool" where
  "ends_word s \<longleftrightarrow> s = [] \<or> isspace (s ! 0)"

lemma sscan_word:
  assumes "is_word w" and "ends_word s"
  shows "sscan (Str_conv # ds) (w @ s) = map_option ((#) (Str w)) (sscan ds s)"
proof -
  have "dropWhile isspace (w @ s) = w @ s"
    using assms(1) by (cases w) (auto simp: is_word_def)
  moreover have "takeWhile (\<lambda>c. \<not> isspace c) (w @ s) = w"
    using assms by (cases s) (auto simp: is_word_def ends_word_def list_ex_iff takeWhile_append)
  ultimately show ?thesis using assms(1) by (simp add: is_word_def Let_def)
qed

lemma sscan_blank_word:
  assumes "is_word w"
  shows "sscan (Blank # ds) (CHR '' '' # w @ s) = sscan ds (w @ s)"
  using assms by (cases w) (auto simp: is_word_def isspace_def[of "CHR '' ''"])

lemma ends_word_simps [simp]: "ends_word []" "ends_word (CHR '' '' # s)"
  by (simp_all add: ends_word_def isspace_def)

lemma scan_number_digits:
  assumes "ds \<noteq> []" "list_all (is_digit b) ds" "length ds \<le> w" "length ds = w \<or> s = [] \<or> \<not> is_digit b (s ! 0)"
    and "length ds \<noteq> w \<longrightarrow> b = 10"
  shows "scan_number b w (ds @ s) = Some (False, digits_value b ds, length ds)"
proof -
  have no: "c \<in> set ds \<Longrightarrow> is_digit b c" for c using assms(2) by (simp add: list_all_iff)
  obtain c t where ds: "ds = c # t" using assms(1) by (cases ds) auto
  have sign: "scan_sign (take w (ds @ s)) = (False, take w (ds @ s))"
    using digit_not_special(3,4)[OF no[of c]] assms(3) by (cases w) (auto simp: scan_sign_def ds)
  have "\<not> is_digit b (CHR ''x'')" "\<not> is_digit b (CHR ''X'')"
    by (simp_all add: is_digit_def digit_value_def)
  then have prefix: "scan_prefix b (take w (ds @ s)) = take w (ds @ s)"
    using assms(3,5) no by (cases t; cases "length ds = w") (auto simp: scan_prefix_def ds)
  have "takeWhile (is_digit b) (take w (ds @ s)) = ds"
    using assms(2-4) by (cases s; cases "w - length ds") (auto simp: list_all_iff takeWhile_append)
  then show ?thesis using assms(1) unfolding scan_number_def Let_def sign prod.case prefix by simp
qed

lemma digits_skip: "ds \<noteq> [] \<Longrightarrow> list_all (is_digit b) ds \<Longrightarrow> dropWhile isspace (ds @ s) = ds @ s"
  by (cases ds) (auto dest: digit_not_special(1))

lemma sscan_unsigned:
  assumes "n < 2 ^ 32" and "s = [] \<or> \<not> is_digit 10 (s ! 0)"
  shows "sscan (Unsigned_conv # ds) (show_nat n @ s) = map_option ((#) (Num (int n))) (sscan ds s)"
proof -
  have "list_all (is_digit 10) (show_nat n)" by (simp add: list_all_iff show_nat_digits)
  then show ?thesis
    using assms by (simp add: digits_skip scan_number_digits signed_value_def Let_def)
qed

lemma sscan_hex:
  "sscan (Hex_conv 2 # ds) (show_byte w @ s) = map_option ((#) (Num (uint w))) (sscan ds s)"
proof -
  have w: "unat w div 16 < 16" using unat_byte_less[of w] by linarith
  then have d: "list_all (is_digit 16) (show_byte w)" by (simp add: show_byte_def is_digit_char)
  have "digits_value 16 (show_byte w) = unat w" using w by (simp add: digits_value_def show_byte_def)
  moreover have "unat w < 4294967296" by (rule less_trans[OF unat_byte_less]) simp
  moreover have "length (show_byte w) = 2" "show_byte w \<noteq> []" by (simp_all add: show_byte_def)
  ultimately show ?thesis
    using d uint_lt2p[of w] by (simp add: digits_skip scan_number_digits signed_value_def Let_def)
qed

lemma digit_space [simp]: "\<not> is_digit b (CHR '' '')" "\<not> is_digit b (CHR '':'')" "\<not> is_digit b LF"
  by (simp_all add: is_digit_def digit_value_def)

end
