(* ===== verification/Text_Utils.thy ===== *)
theory Text_Utils
  imports Cstring
begin

text \<open>
  The text helpers of \<^verbatim>\<open>or_utils.c\<close>: copies, growing concatenation, the URL encoding of the web
  interface, and the removal of line ends.
\<close>

section \<open>Copies and concatenation\<close>

text \<open>The fresh block of \<open>strlen(c)+1\<close> zeros, with the string copied over its start.\<close>

definition mallocCopy :: "string \<Rightarrow> string" where
  "mallocCopy c = strncpy c (length c) @ drop (length c) (replicate (length c + 1) NUL)"

text \<open>
  The loop that doubles the size until the two strings and the zero fit. The size is an \<open>int\<close>:
  doubling past its range is undefined, and a size of 0 stays 0, so the loop does not end.
\<close>

partial_function (option) grow :: "nat \<Rightarrow> nat \<Rightarrow> nat outcome" where
  "grow need sz =
     (if sz < need then (if 2 * sz < 2 ^ 31 then grow need (2 * sz) else None) else Some sz)"

definition my_strncat :: "string \<Rightarrow> string \<Rightarrow> nat \<Rightarrow> (string \<times> nat) outcome" where
  "my_strncat left right left_alloc_size =
     do { sz \<leftarrow> grow (length left + length right + 1) left_alloc_size;
          Some (left @ take (length right + 1) right, sz) }"

text \<open>The loop over the first \<open>strlen\<close> characters of the buffer.\<close>

definition cleanCRLFs :: "string \<Rightarrow> string outcome" where
  "cleanCRLFs buf =
     do { c \<leftarrow> cstring buf;
          Some (map (\<lambda>x. if x = CR \<or> x = LF then NUL else x) c @ drop (length c) buf) }"

section \<open>URL encoding\<close>

text \<open>The letters and digits; a character beyond ASCII is negative as a \<open>char\<close>, so it is none of them.\<close>

definition url_plain :: "char \<Rightarrow> bool" where
  "url_plain c =
     (let n = of_char c :: nat in (48 \<le> n \<and> n \<le> 57) \<or> (97 \<le> n \<and> n \<le> 122) \<or> (65 \<le> n \<and> n \<le> 90))"

fun urlencode :: "string \<Rightarrow> string" where
  "urlencode [] = []"
| "urlencode (c # s) =
     (if url_plain c then c # urlencode s
      else CHR ''%'' # digit_char (of_char c div 16 mod 16) # digit_char (of_char c mod 16) # urlencode s)"

text \<open>\<open>sscanf\<close> leaves the variable at 0 when the character is not a hexadecimal digit.\<close>

definition hex_or_0 :: "char \<Rightarrow> nat" where
  "hex_or_0 c = (case digit_value c of None \<Rightarrow> 0 | Some d \<Rightarrow> d)"

text \<open>The bytes written to the fresh block, before its final zero.\<close>

fun urldecode_bytes :: "string \<Rightarrow> string" where
  "urldecode_bytes [] = []"
| "urldecode_bytes (c # s) =
     (if c = CHR ''%'' \<and> 2 \<le> length s
      then char_of (16 * hex_or_0 (s ! 0) + hex_or_0 (s ! 1)) # urldecode_bytes (drop 2 s)
      else if c = CHR ''+'' then CHR '' '' # urldecode_bytes s
      else c # urldecode_bytes s)"

text \<open>The string the callers see ends at the first zero.\<close>

definition urldecode :: "string \<Rightarrow> string" where
  "urldecode str = takeWhile (\<lambda>c. c \<noteq> NUL) (urldecode_bytes str @ [NUL])"

section \<open>The largest element\<close>

definition getMax :: "int list \<Rightarrow> int" where
  "getMax int_array = foldl (\<lambda>mx x. if mx < x then x else mx) (- (2 ^ 31)) int_array"

section \<open>Properties\<close>

lemma cstring_mallocCopy: "NUL \<notin> set c \<Longrightarrow> cstring (mallocCopy c) = Some c"
  by (simp add: mallocCopy_def replicate_append_same[symmetric] del: replicate_Suc) simp

lemma grow_enough:
  assumes "0 < sz" and "need < 2 ^ 30"
  shows "\<exists>n. grow need sz = Some n \<and> need \<le> n \<and> (n = sz \<or> n < 2 * need)"
  using assms
proof (induction "need - sz" arbitrary: sz rule: less_induct)
  case less
  show ?case
  proof (cases "sz < need")
    case True
    then have "need - 2 * sz < need - sz" "2 * sz < 2 ^ 31" using less.prems by auto
    from less.hyps[OF this(1)] less.prems obtain n where
      "grow need (2 * sz) = Some n" "need \<le> n" "n = 2 * sz \<or> n < 2 * need" by auto
    then show ?thesis using True \<open>2 * sz < 2 ^ 31\<close> by (subst grow.simps) auto
  qed (simp add: grow.simps)
qed

text \<open>A size of 0 never grows.\<close>

lemma grow_positive: "grow need sz = Some n \<Longrightarrow> 0 < need \<Longrightarrow> 0 < sz"
proof -
  have "grow need sz = Some n \<Longrightarrow> 0 < need \<longrightarrow> 0 < sz"
    by (rule grow.raw_induct[where P = "\<lambda>need sz n. 0 < need \<longrightarrow> 0 < sz"]) (fastforce split: if_splits)+
  then show "grow need sz = Some n \<Longrightarrow> 0 < need \<Longrightarrow> 0 < sz" by simp
qed

lemma grow_zero: "0 < need \<Longrightarrow> grow need 0 = None"
  using grow_positive[of need 0] by (cases "grow need 0") auto

lemma cleanCRLFs_line:
  assumes "NUL \<notin> set l" "CR \<notin> set l" "LF \<notin> set l" and "e = CR \<or> e = LF"
    and "NUL \<notin> set t"
  shows "\<exists>buf. cleanCRLFs (l @ e # t @ NUL # r) = Some buf \<and> cstring buf = Some l \<and> length buf = length (l @ e # t @ NUL # r)"
proof -
  let ?f = "\<lambda>x. if x = CR \<or> x = LF then NUL else x"
  have "cstring ((l @ e # t) @ NUL # r) = Some (l @ e # t)" using assms by (intro cstring_NUL) auto
  moreover have "map ?f l = l" using assms by (intro map_idI) auto
  ultimately have "cleanCRLFs (l @ e # t @ NUL # r) = Some (l @ NUL # map ?f t @ NUL # r)"
    using assms(4) by (auto simp: cleanCRLFs_def)
  then show ?thesis using assms(1) by simp
qed

lemma url_code:
  "char_of (16 * hex_or_0 (digit_char (of_char c div 16 mod 16)) + hex_or_0 (digit_char (of_char c mod 16))) = c"
proof -
  have "(of_char c :: nat) < 256" by (metis of_char_mod_256 mod_less_divisor zero_less_numeral)
  then have "of_char c div 16 < (16 :: nat)" by linarith
  then show ?thesis by (simp add: hex_or_0_def)
qed

lemma url_plain_special: "url_plain c \<Longrightarrow> c \<noteq> CHR ''%'' \<and> c \<noteq> CHR ''+''"
  by (auto simp: url_plain_def)

lemma urldecode_urlencode_bytes: "urldecode_bytes (urlencode s) = s"
  by (induction s) (auto simp: url_code dest: url_plain_special)

lemma getMax_Max:
  assumes "xs \<noteq> []" and "\<And>x. x \<in> set xs \<Longrightarrow> - (2 ^ 31) \<le> x"
  shows "getMax xs = Max (set xs)"
proof -
  have "foldl (\<lambda>mx x. if mx < x then x else mx) a xs = Max (set (a # xs))" for a :: int
  proof -
    have "(\<lambda>mx x. if mx < x then x else mx) = (\<lambda>mx x. max x (mx::int))" by (auto simp: max_def fun_eq_iff)
    then show ?thesis unfolding Max.set_eq_fold by (simp add: foldl_conv_fold)
  qed
  then show ?thesis using assms by (simp add: getMax_def max_absorb2 order.trans[OF assms(2) Max_ge])
qed

lemma urlencode_length: "length (urlencode s) \<le> 3 * length s"
  by (induction s) auto

lemma urldecode_length: "length (urldecode_bytes s) \<le> length s"
  by (induction s rule: urldecode_bytes.induct) auto

text \<open>
  Decoding the URL encoding of any string gives the string back. The blocks the two functions
  allocate are large enough: the encoding has at most three characters for one of the string, and
  decoding never makes a string longer.
\<close>

theorem url_round_trip:
  assumes "NUL \<notin> set s"
  shows "urldecode (urlencode s) = s \<and> length (urlencode s) \<le> 3 * length s
    \<and> length (urldecode_bytes t) \<le> length t"
proof -
  have "takeWhile (\<lambda>c. c \<noteq> NUL) (s @ [NUL]) = s" using assms by (auto simp: takeWhile_append)
  then show ?thesis
    by (simp add: urldecode_def urldecode_urlencode_bytes urlencode_length urldecode_length)
qed

theorem url_round_trip_witness:
  "urldecode (urlencode ''ip route?'') = ''ip route?'' \<and> urlencode ''ip route?'' = ''ip%20route%3F''
    \<and> length (urldecode_bytes ''a%20b'') \<le> 5"
proof -
  have "urlencode ''ip route?'' = ''ip%20route%3F''" by code_simp
  then show ?thesis using url_round_trip[of "''ip route?''" "''a%20b''"] by simp
qed

end
