(* ===== verification/Output.thy ===== *)
theory Output
  imports State Text_Utils
begin

text \<open>
  The text of the software tables (\<open>sprint_arp_cache\<close>, \<open>sprint_if_list\<close>, \<open>sprint_pwospf_if_list\<close>,
  \<open>sprint_pwospf_router_list\<close> and \<open>sprint_rtable\<close> of \<^verbatim>\<open>or_output.c\<close>). Each allocates a buffer for the
  number of lines it expects and appends the lines to it with the macro \<open>COPY_STRING\<close>, which does not
  check the size; writing past the end is the outcome \<open>None\<close>.
\<close>

section \<open>Formatted output\<close>

text \<open>\<open>%-ns\<close> and \<open>%ns\<close>.\<close>

definition pad_right :: "nat \<Rightarrow> string \<Rightarrow> string" where
  "pad_right n s = s @ replicate (n - length s) (CHR '' '')"

definition pad_left :: "nat \<Rightarrow> string \<Rightarrow> string" where
  "pad_left n s = replicate (n - length s) (CHR '' '') @ s"

text \<open>\<open>snprintf\<close> keeps one byte for the zero.\<close>

definition snprintf :: "nat \<Rightarrow> string \<Rightarrow> string" where
  "snprintf n s = take (n - 1) s"

definition COPY_STRING :: "nat \<Rightarrow> string \<Rightarrow> string \<Rightarrow> string outcome" where
  "COPY_STRING cap str buf = (if length buf + length str \<le> cap then Some (buf @ str) else None)"

definition show_mac :: "mac \<Rightarrow> string" where
  "show_mac m = (case m of Mac a b c d e f \<Rightarrow>
     show_byte a @ '':'' @ show_byte b @ '':'' @ show_byte c @ '':'' @ show_byte d @ '':'' @ show_byte e @ '':'' @ show_byte f)"

definition yes_no :: "bool \<Rightarrow> string" where
  "yes_no b = (if b then ''Y'' else ''N'')"

text \<open>The cast of a time difference to \<open>int\<close>.\<close>

definition to_int32 :: "int \<Rightarrow> int" where
  "to_int32 z = sint (word_of_int z :: u32)"

section \<open>The ARP cache\<close>

definition ARP_CACHE_COL :: string where
  "ARP_CACHE_COL = ''IP Address      MAC               TTL'' @ [LF]"

abbreviation (input) ARP_CACHE_ENTRY_TO_STRING_LEN :: nat where "ARP_CACHE_ENTRY_TO_STRING_LEN \<equiv> 82"

text \<open>The remaining time is a whole number of seconds, printed as a floating point number.\<close>

definition arp_cache_line :: "router_state \<Rightarrow> arp_cache_entry \<Rightarrow> string" where
  "arp_cache_line rs entry =
     (let ttl = (if ac_is_static entry = 0
                 then snprintf 47 (show_int (uint (arp_ttl rs) - (clock rs - ac_TTL entry)) @ ''.000000'')
                 else snprintf 47 ''static'')
      in snprintf ARP_CACHE_ENTRY_TO_STRING_LEN
           (pad_right 15 (inet_ntop (ac_ip entry)) @ '' '' @ show_mac (ac_arp_ha entry) @ '' '' @ pad_right 46 ttl @ [LF]))"

definition sprint_arp_cache :: "router_state \<Rightarrow> string outcome" where
  "sprint_arp_cache rs =
     (let cap = length ARP_CACHE_COL + ARP_CACHE_ENTRY_TO_STRING_LEN * length (arp_cache rs) in
      do { buf \<leftarrow> COPY_STRING cap ARP_CACHE_COL [];
           run_all (\<lambda>entry. COPY_STRING cap (arp_cache_line rs entry)) (arp_cache rs) buf })"

section \<open>The interfaces\<close>

definition IFACE_COL :: string where
  "IFACE_COL = ''Name                  MAC               IP              Mask            Speed Up WAN'' @ [LF]"

abbreviation (input) IFACE_ENTRY_TO_STRING_LEN :: nat where "IFACE_ENTRY_TO_STRING_LEN \<equiv> 100"
abbreviation (input) IFACE_MAX_IFACE_LEN :: nat where "IFACE_MAX_IFACE_LEN \<equiv> 21"

definition iface_line :: "iface_entry \<Rightarrow> string" where
  "iface_line iface =
     (let if_name = snprintf IFACE_MAX_IFACE_LEN (ie_name iface) in
      snprintf IFACE_ENTRY_TO_STRING_LEN
        (pad_right 21 if_name @ '' '' @ show_mac (ie_addr iface) @ '' '' @ pad_right 15 (inet_ntop (ie_ip iface)) @ '' '' @
         pad_right 15 (inet_ntop (ie_mask iface)) @ '' '' @ pad_right 5 (show_int (sint (ie_speed iface))) @ '' '' @
         pad_right 2 (yes_no (ie_is_active iface)) @ '' '' @ pad_right 2 (yes_no (ie_is_wan iface = 1)) @ [LF]))"

definition sprint_if_list :: "router_state \<Rightarrow> string outcome" where
  "sprint_if_list rs =
     (let cap = length IFACE_COL + IFACE_ENTRY_TO_STRING_LEN * length (if_list rs) in
      do { buf \<leftarrow> COPY_STRING cap IFACE_COL [];
           run_all (\<lambda>iface. COPY_STRING cap (iface_line iface)) (if_list rs) buf })"

section \<open>The interfaces and their neighbours\<close>

definition PWOSPF_IFACE_COL :: string where
  "PWOSPF_IFACE_COL = ''Name IP                  Mask                LSH  NID                 NIP                 LRH  A'' @ [LF]"

abbreviation (input) PWOSPF_IFACE_ENTRY_TO_STRING_LEN :: nat where "PWOSPF_IFACE_ENTRY_TO_STRING_LEN \<equiv> 256"

definition hello_age :: "int \<Rightarrow> int \<Rightarrow> string" where
  "hello_age diff limit = snprintf 47 (if limit < to_int32 diff then ''EXP'' else show_int (to_int32 diff))"

definition pwospf_iface_columns ::
    "string \<Rightarrow> string \<Rightarrow> string \<Rightarrow> string \<Rightarrow> string \<Rightarrow> string \<Rightarrow> string \<Rightarrow> string \<Rightarrow> string" where
  "pwospf_iface_columns name ip msk lsh nid nip lrh act =
     snprintf PWOSPF_IFACE_ENTRY_TO_STRING_LEN
       (pad_right 5 name @ pad_right 20 ip @ pad_right 20 msk @ pad_right 5 lsh @ pad_right 20 nid @ pad_right 20 nip @
        pad_right 5 lrh @ pad_right 1 act @ '' '' @ [LF])"

definition nbr_age :: "router_state \<Rightarrow> nbr_router \<Rightarrow> string" where
  "nbr_age rs nbr = hello_age (clock rs - nbr_last_rcvd_hello nbr) (3 * uint (pwospf_hello_interval rs))"

text \<open>
  The variables \<open>nid\<close> and \<open>nip\<close> live outside the loop over the interfaces and keep the last neighbour printed.
\<close>

definition pwospf_iface_line :: "router_state \<Rightarrow> iface_entry \<Rightarrow> u32 \<Rightarrow> u32 \<Rightarrow> string" where
  "pwospf_iface_line rs iface nid nip =
     (let if_name = snprintf 21 (ie_name iface);
          lsent_hello = hello_age (clock rs - ie_last_sent_hello iface) (uint (pwospf_hello_interval rs));
          lrecv_hello = (case ie_nbr_routers iface of [] \<Rightarrow> '''' | nbr # _ \<Rightarrow> nbr_age rs nbr)
      in pwospf_iface_columns if_name (inet_ntop (ie_ip iface)) (inet_ntop (ie_mask iface)) lsent_hello
           (if nip \<noteq> 0 then inet_ntop nid else '''') (if nip \<noteq> 0 then inet_ntop nip else '''')
           (if nip \<noteq> 0 then lrecv_hello else '''') (yes_no (ie_is_active iface)))"

definition nbr_line :: "router_state \<Rightarrow> nbr_router \<Rightarrow> string" where
  "nbr_line rs nbr = pwospf_iface_columns '''' '''' '''' '''' (inet_ntop (nbr_router_id nbr)) (inet_ntop (nbr_ip nbr)) (nbr_age rs nbr) ''''"

fun sprint_pwospf_ifaces :: "nat \<Rightarrow> router_state \<Rightarrow> iface_entry list \<Rightarrow> u32 \<Rightarrow> u32 \<Rightarrow> string \<Rightarrow> string outcome" where
  "sprint_pwospf_ifaces cap rs [] nid nip buf = Some buf"
| "sprint_pwospf_ifaces cap rs (iface # ifs) nid nip buf =
     (let (nid, nip) = (case ie_nbr_routers iface of [] \<Rightarrow> (nid, nip) | nbr # _ \<Rightarrow> (nbr_router_id nbr, nbr_ip nbr)) in
      do { buf \<leftarrow> COPY_STRING cap (pwospf_iface_line rs iface nid nip) buf;
           buf \<leftarrow> run_all (\<lambda>nbr. COPY_STRING cap (nbr_line rs nbr)) (drop 1 (ie_nbr_routers iface)) buf;
           let (nid, nip) = (if ie_nbr_routers iface = [] then (nid, nip)
                             else (nbr_router_id (last (ie_nbr_routers iface)), nbr_ip (last (ie_nbr_routers iface))));
           sprint_pwospf_ifaces cap rs ifs nid nip buf })"

definition sprint_pwospf_if_list :: "router_state \<Rightarrow> string outcome" where
  "sprint_pwospf_if_list rs =
     (let cap = length PWOSPF_IFACE_COL + PWOSPF_IFACE_ENTRY_TO_STRING_LEN * length (if_list rs) in
      do { buf \<leftarrow> COPY_STRING cap PWOSPF_IFACE_COL [];
           sprint_pwospf_ifaces cap rs (if_list rs) 0 0 buf })"

section \<open>The database\<close>

definition PWOSPF_ROUTER_LIST_COL :: string where
  "PWOSPF_ROUTER_LIST_COL = ''RID                 AID  SEQ  LU   DIST SPF'' @ [LF]"

abbreviation (input) PWOSPF_ROUTER_LIST_TO_STRING_LEN :: nat where "PWOSPF_ROUTER_LIST_TO_STRING_LEN \<equiv> 160"

text \<open>The age is compared with three intervals as unsigned 32 bit numbers.\<close>

definition router_line :: "router_state \<Rightarrow> pwospf_router \<Rightarrow> string" where
  "router_line rs rle =
     (let diff = clock rs - pr_last_update rle;
          last_update = snprintf 47 (if pwospf_lsu_interval rs * 3 < word_of_int diff then ''EXP'' else show_int (to_int32 diff))
      in snprintf PWOSPF_ROUTER_LIST_TO_STRING_LEN
           (pad_right 20 (inet_ntop (pr_router_id rle)) @ pad_right 5 (show_int (sint (ntohl (pr_area_id rle)))) @
            pad_right 5 (show_nat (unat (pr_seq rle))) @ pad_right 5 last_update @
            pad_right 5 (show_int (sint (pr_distance rle))) @
            pad_right 5 (if pr_shortest_path_found rle then ''1'' else ''0'') @ [LF]))"

definition router_iface_line :: "pwospf_interface \<Rightarrow> string" where
  "router_iface_line iface =
     snprintf PWOSPF_ROUTER_LIST_TO_STRING_LEN
       (''          '' @ pad_right 20 (inet_ntop (pi_subnet iface)) @ pad_right 20 (inet_ntop (pi_mask iface)) @
        pad_right 20 (inet_ntop (pi_router_id iface)) @ pad_right 5 (if pi_is_active iface then ''1'' else ''0'') @ [LF])"

definition sprint_pwospf_router_list :: "router_state \<Rightarrow> string outcome" where
  "sprint_pwospf_router_list rs =
     (let num_entries = sum_list (map (\<lambda>pr. 1 + length (pr_interface_list pr)) (pwospf_router_list rs));
          cap = length PWOSPF_ROUTER_LIST_COL + (num_entries + 1) * PWOSPF_ROUTER_LIST_TO_STRING_LEN in
      do { buf \<leftarrow> COPY_STRING cap PWOSPF_ROUTER_LIST_COL [];
           run_all (\<lambda>rle buf. do {
               buf \<leftarrow> COPY_STRING cap (router_line rs rle) buf;
               run_all (\<lambda>iface. COPY_STRING cap (router_iface_line iface)) (pr_interface_list rle) buf })
             (pwospf_router_list rs) buf })"

section \<open>The routing table\<close>

definition RTABLE_COL :: string where
  "RTABLE_COL = ''Destination     Gateway         Mask            Iface              Static Active'' @ [LF]"

abbreviation (input) RTABLE_ENTRY_TO_STRING_LEN :: nat where "RTABLE_ENTRY_TO_STRING_LEN \<equiv> 82"
abbreviation (input) RTABLE_MAX_IFACE_LEN :: nat where "RTABLE_MAX_IFACE_LEN \<equiv> 18"

definition rtable_line :: "rtable_entry \<Rightarrow> string" where
  "rtable_line re =
     (let if_name = snprintf RTABLE_MAX_IFACE_LEN (rt_iface re) in
      snprintf RTABLE_ENTRY_TO_STRING_LEN
        (pad_right 15 (inet_ntop (rt_ip re)) @ '' '' @ pad_right 15 (inet_ntop (rt_gw re)) @ '' '' @
         pad_right 15 (inet_ntop (rt_mask re)) @ '' '' @ pad_right 18 if_name @ '' '' @
         pad_right 6 (yes_no (rt_is_static re)) @ '' '' @ pad_right 6 (yes_no (rt_is_active re)) @ [LF]))"

definition sprint_rtable :: "router_state \<Rightarrow> string outcome" where
  "sprint_rtable rs =
     (let cap = length RTABLE_COL + RTABLE_ENTRY_TO_STRING_LEN * length (rtable rs) in
      do { buf \<leftarrow> COPY_STRING cap RTABLE_COL [];
           run_all (\<lambda>re. COPY_STRING cap (rtable_line re)) (rtable rs) buf })"

section \<open>Lines and their buffer\<close>

lemma length_pad_right [simp]: "length (pad_right n s) = max n (length s)"
  by (simp add: pad_right_def)

lemma length_snprintf: "0 < n \<Longrightarrow> length (snprintf n s) < n"
  by (simp add: snprintf_def)

lemma COPY_STRING_Some: "length buf + length str \<le> cap \<Longrightarrow> COPY_STRING cap str buf = Some (buf @ str)"
  by (simp add: COPY_STRING_def)

lemma COPY_STRING_None: "\<not> length buf + length str \<le> cap \<Longrightarrow> COPY_STRING cap str buf = None"
  by (simp add: COPY_STRING_def)

lemma copy_lines:
  "run_all (\<lambda>x. COPY_STRING cap (line x)) xs buf =
     (if length buf + sum_list (map (length \<circ> line) xs) \<le> cap \<or> xs = []
      then Some (buf @ concat (map line xs)) else None)"
proof (induction xs arbitrary: buf)
  case (Cons x xs)
  show ?case
    by (cases "length buf + length (line x) \<le> cap") (auto simp: COPY_STRING_Some COPY_STRING_None Cons.IH)
qed simp

lemma lines_bound:
  "(\<And>x. x \<in> set xs \<Longrightarrow> length (line x) \<le> k) \<Longrightarrow> sum_list (map (length \<circ> line) xs) \<le> k * length xs"
  by (induction xs) (auto, fastforce)

text \<open>A buffer with room for the longest line for each entry is large enough.\<close>

lemma table_fits:
  assumes "\<And>x. x \<in> set xs \<Longrightarrow> length (line x) \<le> k" and "length col + k * length xs \<le> cap"
  shows "Option.bind (COPY_STRING cap col []) (run_all (\<lambda>x. COPY_STRING cap (line x)) xs) = Some (col @ concat (map line xs))"
  using lines_bound[of xs line k, OF assms(1)] assms(2) by (simp add: COPY_STRING_Some copy_lines)

lemma sprint_rtable_lines: "sprint_rtable rs = Some (RTABLE_COL @ concat (map rtable_line (rtable rs)))"
  unfolding sprint_rtable_def Let_def
  by (rule table_fits[where k = 82]) (auto simp: rtable_line_def intro!: less_imp_le length_snprintf)

lemma sprint_if_list_lines: "sprint_if_list rs = Some (IFACE_COL @ concat (map iface_line (if_list rs)))"
  unfolding sprint_if_list_def Let_def
  by (rule table_fits[where k = 100]) (auto simp: iface_line_def intro!: less_imp_le length_snprintf)

lemma sprint_arp_cache_lines:
  "sprint_arp_cache rs = Some (ARP_CACHE_COL @ concat (map (arp_cache_line rs) (arp_cache rs)))"
  unfolding sprint_arp_cache_def Let_def
  by (rule table_fits[where k = 82]) (auto simp: arp_cache_line_def Let_def intro!: less_imp_le length_snprintf)

definition router_lines :: "router_state \<Rightarrow> pwospf_router \<Rightarrow> string" where
  "router_lines rs rle = router_line rs rle @ concat (map router_iface_line (pr_interface_list rle))"

lemma router_lines_length: "length (router_lines rs rle) \<le> 160 * (1 + length (pr_interface_list rle))"
proof -
  have "length (router_line rs rle) \<le> 160" "\<And>i. length (router_iface_line i) \<le> 160"
    by (auto simp: router_line_def router_iface_line_def Let_def intro!: less_imp_le length_snprintf)
  then show ?thesis
    using lines_bound[of "pr_interface_list rle" router_iface_line 160]
    by (simp add: router_lines_def length_concat comp_def)
qed

lemma copy_router:
  assumes "length buf + length (router_lines rs rle) \<le> cap"
  shows "do { buf \<leftarrow> COPY_STRING cap (router_line rs rle) buf;
              run_all (\<lambda>iface. COPY_STRING cap (router_iface_line iface)) (pr_interface_list rle) buf } = Some (buf @ router_lines rs rle)"
  using assms by (simp add: router_lines_def COPY_STRING_Some copy_lines length_concat comp_def)

lemma sprint_router_list_lines:
  "sprint_pwospf_router_list rs = Some (PWOSPF_ROUTER_LIST_COL @ concat (map (router_lines rs) (pwospf_router_list rs)))"
proof -
  define cap where "cap = length PWOSPF_ROUTER_LIST_COL +
    (sum_list (map (\<lambda>pr. 1 + length (pr_interface_list pr)) (pwospf_router_list rs)) + 1) * 160"
  have "run_all (\<lambda>rle buf. do { buf \<leftarrow> COPY_STRING cap (router_line rs rle) buf;
          run_all (\<lambda>iface. COPY_STRING cap (router_iface_line iface)) (pr_interface_list rle) buf }) rl buf
        = Some (buf @ concat (map (router_lines rs) rl))"
    if "length buf + 160 * sum_list (map (\<lambda>pr. 1 + length (pr_interface_list pr)) rl) \<le> cap" for rl buf
    using that
  proof (induction rl arbitrary: buf)
    case (Cons r rl)
    then have "length buf + length (router_lines rs r) \<le> cap"
      using router_lines_length[of rs r] by simp
    moreover have "length (buf @ router_lines rs r) + 160 * sum_list (map (\<lambda>pr. 1 + length (pr_interface_list pr)) rl) \<le> cap"
      using Cons.prems router_lines_length[of rs r] by simp
    ultimately show ?case using Cons.IH by (simp add: copy_router del: bind_bind)
  qed simp
  then show ?thesis
    unfolding sprint_pwospf_router_list_def Let_def cap_def[symmetric]
    by (simp add: COPY_STRING_Some cap_def)
qed

text \<open>The columns of the neighbour table are never narrower than their widths.\<close>

lemma pwospf_iface_columns_length: "98 \<le> length (pwospf_iface_columns a b c d e f g h)"
proof -
  have "length (snprintf 256 s) = min 255 (length s)" for s by (simp add: snprintf_def)
  then show ?thesis unfolding pwospf_iface_columns_def by (simp del: take_append)
qed

lemma pwospf_iface_line_length: "98 \<le> length (pwospf_iface_line rs ie a b) \<and> length (pwospf_iface_line rs ie a b) \<le> 256"
  unfolding pwospf_iface_line_def Let_def using pwospf_iface_columns_length
  by (simp add: pwospf_iface_columns_def less_imp_le[OF length_snprintf])

lemma nbr_line_length: "98 \<le> length (nbr_line rs n)"
  unfolding nbr_line_def by (rule pwospf_iface_columns_length)

definition iface_rows :: "iface_entry \<Rightarrow> nat" where
  "iface_rows ie = max 1 (length (ie_nbr_routers ie))"

lemma nbr_lines_length: "98 * length ns \<le> sum_list (map (length \<circ> nbr_line rs) ns)"
  by (induction ns) (use nbr_line_length in \<open>auto intro: add_mono\<close>)

text \<open>The loop over the interfaces overruns a buffer that is too small for a line of 98 characters for each row.\<close>

lemma sprint_pwospf_ifaces_overflow:
  "cap < length buf + 98 * sum_list (map iface_rows ifs) \<Longrightarrow> ifs \<noteq> [] \<Longrightarrow> sprint_pwospf_ifaces cap rs ifs nid nip buf = None"
proof (induction ifs arbitrary: nid nip buf)
  case (Cons ie ifs)
  let ?p = "case ie_nbr_routers ie of [] \<Rightarrow> (nid, nip) | nbr # _ \<Rightarrow> (nbr_router_id nbr, nbr_ip nbr)"
  let ?line = "pwospf_iface_line rs ie (fst ?p) (snd ?p)" and ?ns = "drop 1 (ie_nbr_routers ie)"
  let ?buf = "(buf @ ?line) @ concat (map (nbr_line rs) ?ns)"
  have rows: "98 * iface_rows ie \<le> length ?line + sum_list (map (length \<circ> nbr_line rs) ?ns)"
    using pwospf_iface_line_length[of rs ie "fst ?p" "snd ?p"] nbr_lines_length[of ?ns rs]
    by (cases "ie_nbr_routers ie") (auto simp: iface_rows_def max_def)
  show ?case
  proof (cases "length (buf @ ?line) + sum_list (map (length \<circ> nbr_line rs) ?ns) \<le> cap \<and> length (buf @ ?line) \<le> cap")
    case True
    then have step: "sprint_pwospf_ifaces cap rs (ie # ifs) nid nip buf =
       sprint_pwospf_ifaces cap rs ifs (if ie_nbr_routers ie = [] then fst ?p else nbr_router_id (last (ie_nbr_routers ie)))
         (if ie_nbr_routers ie = [] then snd ?p else nbr_ip (last (ie_nbr_routers ie))) ?buf"
      by (simp add: COPY_STRING_Some copy_lines Let_def split_beta)
    have len: "length ?buf = length buf + length ?line + sum_list (map (length \<circ> nbr_line rs) ?ns)"
      by (simp add: length_concat comp_def)
    have "ifs \<noteq> []" using True rows Cons.prems(1) by auto
    moreover have "cap < length ?buf + 98 * sum_list (map iface_rows ifs)"
      using rows Cons.prems(1) unfolding len by simp
    ultimately show ?thesis unfolding step by (intro Cons.IH)
  next
    case False
    then show ?thesis
      by (cases "length (buf @ ?line) \<le> cap") (auto simp: COPY_STRING_Some COPY_STRING_None copy_lines Let_def split_beta)
  qed
qed simp

text \<open>One neighbour on each interface fits.\<close>

lemma sprint_pwospf_ifaces_fits:
  "length buf + 256 * length ifs \<le> cap \<Longrightarrow> (\<And>ie. ie \<in> set ifs \<Longrightarrow> length (ie_nbr_routers ie) \<le> 1) \<Longrightarrow>
   \<exists>lines. sprint_pwospf_ifaces cap rs ifs nid nip buf = Some (buf @ lines)"
proof (induction ifs arbitrary: nid nip buf)
  case (Cons ie ifs)
  let ?p = "case ie_nbr_routers ie of [] \<Rightarrow> (nid, nip) | nbr # _ \<Rightarrow> (nbr_router_id nbr, nbr_ip nbr)"
  let ?line = "pwospf_iface_line rs ie (fst ?p) (snd ?p)"
  have "length (ie_nbr_routers ie) \<le> 1" using Cons.prems(2) by simp
  then have step: "sprint_pwospf_ifaces cap rs (ie # ifs) nid nip buf =
       sprint_pwospf_ifaces cap rs ifs (if ie_nbr_routers ie = [] then fst ?p else nbr_router_id (last (ie_nbr_routers ie)))
         (if ie_nbr_routers ie = [] then snd ?p else nbr_ip (last (ie_nbr_routers ie))) (buf @ ?line)"
    using Cons.prems(1) pwospf_iface_line_length[of rs ie "fst ?p" "snd ?p"]
    by (simp add: COPY_STRING_Some Let_def split_beta)
  have "length (buf @ ?line) + 256 * length ifs \<le> cap"
    using Cons.prems(1) pwospf_iface_line_length[of rs ie "fst ?p" "snd ?p"] by simp
  from Cons.IH[OF this] Cons.prems(2) show ?case unfolding step by fastforce
qed simp

section \<open>Reading a line back\<close>

lemma dropWhile_blanks: "dropWhile isspace (replicate k (CHR '' '') @ s) = dropWhile isspace s"
  by (induction k) (simp_all add: isspace_def)

lemma sscan_column:
  assumes "is_word w"
  shows "sscan (Str_conv # Blank # ds) (pad_right n w @ CHR '' '' # s) = map_option ((#) (Str w)) (sscan (Blank # ds) s)"
proof -
  have "ends_word (replicate (n - length w) (CHR '' '') @ CHR '' '' # s)"
    by (cases "n - length w") (simp_all add: ends_word_def isspace_def)
  then show ?thesis
    using assms by (simp add: pad_right_def sscan_word dropWhile_blanks isspace_def[of "CHR '' ''"] del: sscan.simps(4))
qed

lemma sscan_skip_blanks: "is_word w \<Longrightarrow> sscan (Blank # ds) (pad_right n w @ s) = sscan ds (pad_right n w @ s)"
  by (cases w) (simp_all add: is_word_def pad_right_def)

lemma yes_no_word: "is_word (yes_no b)"
  by (simp add: yes_no_def is_word_def isspace_def)

lemma rtable_line_full:
  assumes "length (rt_iface re) \<le> 17"
  shows "rtable_line re =
    pad_right 15 (inet_ntop (rt_ip re)) @ CHR '' '' # pad_right 15 (inet_ntop (rt_gw re)) @ CHR '' '' #
    pad_right 15 (inet_ntop (rt_mask re)) @ CHR '' '' # pad_right 18 (rt_iface re) @ CHR '' '' #
    pad_right 6 (yes_no (rt_is_static re)) @ CHR '' '' # pad_right 6 (yes_no (rt_is_active re)) @ [LF]"
proof -
  have "length (pad_right 15 (inet_ntop a)) = 15" for a using inet_ntop_length[of a] by simp
  moreover have "length (pad_right 6 (yes_no b)) = 6" for b by (simp add: yes_no_def)
  ultimately show ?thesis using assms by (simp add: rtable_line_def snprintf_def Let_def del: length_pad_right)
    (simp del: length_pad_right add: length_pad_right[of 18])
qed

definition rtable_format :: string where
  "rtable_format = ''%as %as %as %as %as %as''"

lemma rtable_format_directives:
  "scan_format rtable_format = [Str_conv, Blank, Str_conv, Blank, Str_conv, Blank, Str_conv, Blank, Str_conv, Blank, Str_conv]"
  unfolding rtable_format_def by code_simp

text \<open>
  The printed routing table has one line of 81 characters for each route, after the header, and the buffer
  is large enough for any table. No column runs into the next: a line read back with \<open>sscanf\<close> gives
  the three addresses, the interface (of at most 17 characters) and the flags of the route.
\<close>

theorem rtable_printed:
  assumes "is_word (rt_iface re)" and "length (rt_iface re) \<le> 17"
  shows "sprint_rtable rs = Some (RTABLE_COL @ concat (map rtable_line (rtable rs)))
    \<and> length (rtable_line re) = 81
    \<and> sscanf (rtable_line re) rtable_format =
        Some [Str (inet_ntop (rt_ip re)), Str (inet_ntop (rt_gw re)), Str (inet_ntop (rt_mask re)), Str (rt_iface re),
              Str (yes_no (rt_is_static re)), Str (yes_no (rt_is_active re))]
    \<and> map inet_pton [inet_ntop (rt_ip re), inet_ntop (rt_gw re), inet_ntop (rt_mask re)] = [Some (rt_ip re), Some (rt_gw re), Some (rt_mask re)]"
proof -
  have "length (rtable_line re) = 81"
    using assms(2) inet_ntop_length[of "rt_ip re"] inet_ntop_length[of "rt_gw re"] inet_ntop_length[of "rt_mask re"]
    by (simp add: rtable_line_full yes_no_def)
  moreover have "sscan [Str_conv] (pad_right 6 (yes_no b) @ [LF]) = Some [Str (yes_no b)]" for b
    by (simp add: pad_right_def yes_no_def isspace_def Let_def)
  ultimately show ?thesis
    using assms(1) unfolding sscanf_def rtable_line_full[OF assms(2)] rtable_format_directives
    by (simp add: sscan_column sscan_skip_blanks inet_ntop_word yes_no_word sprint_rtable_lines del: sscan.simps)
qed

theorem rtable_printed_witness:
  "sprint_rtable idle_router = Some RTABLE_COL
    \<and> length (rtable_line \<lparr>rt_ip = 10, rt_gw = 0, rt_mask = 255, rt_iface = ''eth0'', rt_is_static = True, rt_is_active = False\<rparr>) = 81"
  using rtable_printed[of "\<lparr>rt_ip = 10, rt_gw = 0, rt_mask = 255, rt_iface = ''eth0'', rt_is_static = True, rt_is_active = False\<rparr>" idle_router]
  by (simp add: is_word_def isspace_def idle_router_def)

text \<open>
  The printed interface list, ARP cache and database never overrun the buffers allocated for them, whatever
  they hold: each is the header followed by the lines of its entries.
\<close>

theorem tables_fit:
  "sprint_if_list rs = Some (IFACE_COL @ concat (map iface_line (if_list rs)))
   \<and> sprint_arp_cache rs = Some (ARP_CACHE_COL @ concat (map (arp_cache_line rs) (arp_cache rs)))
   \<and> sprint_pwospf_router_list rs = Some (PWOSPF_ROUTER_LIST_COL @ concat (map (router_lines rs) (pwospf_router_list rs)))"
  by (simp add: sprint_if_list_lines sprint_arp_cache_lines sprint_router_list_lines)

text \<open>
  The buffer of the neighbour table has 256 bytes for an interface, but the table has a line of at least 98
  characters for every neighbour. With more neighbours than the buffer has room for (three on the only interface are
  enough), \<open>show pwospf iface\<close> writes past the end of the heap block. With at most one neighbour on each interface
  it does not.
\<close>

theorem neighbor_table_overflow:
  assumes "256 * length (if_list rs) < 98 * sum_list (map iface_rows (if_list rs))"
    and "list_all (\<lambda>ie. length (ie_nbr_routers ie) \<le> 1) (if_list rs')"
  shows "sprint_pwospf_if_list rs = None \<and> (\<exists>lines. sprint_pwospf_if_list rs' = Some (PWOSPF_IFACE_COL @ lines))"
proof
  have "if_list rs \<noteq> []" using assms(1) by auto
  with assms(1) show "sprint_pwospf_if_list rs = None"
    by (simp add: sprint_pwospf_if_list_def COPY_STRING_Some sprint_pwospf_ifaces_overflow)
  show "\<exists>lines. sprint_pwospf_if_list rs' = Some (PWOSPF_IFACE_COL @ lines)"
    using assms(2) unfolding sprint_pwospf_if_list_def Let_def
    by (simp add: COPY_STRING_Some) (rule sprint_pwospf_ifaces_fits, auto simp: list_all_iff)
qed

text \<open>An interface with \<open>n\<close> neighbours.\<close>

definition iface_with_neighbors :: "nat \<Rightarrow> iface_entry" where
  "iface_with_neighbors n = \<lparr>ie_name = ''eth0'', ie_addr = Mac 0 0 0 0 0 1, ie_ip = 1, ie_mask = 255, ie_speed = 0, ie_is_active = True,
     ie_last_sent_hello = 0, ie_nbr_routers = replicate n \<lparr>nbr_router_id = 7, nbr_ip = 7, nbr_last_rcvd_hello = 0\<rparr>, ie_is_wan = 0\<rparr>"

theorem neighbor_table_overflow_witness:
  "sprint_pwospf_if_list (idle_router\<lparr>if_list := [iface_with_neighbors 3]\<rparr>) = None
   \<and> (\<exists>lines. sprint_pwospf_if_list (idle_router\<lparr>if_list := [iface_with_neighbors 1]\<rparr>) = Some (PWOSPF_IFACE_COL @ lines))"
  by (rule neighbor_table_overflow) (simp_all add: iface_with_neighbors_def iface_rows_def)

text \<open>The neighbour of one interface is printed again for the next one when that has none.\<close>

lemma stale_neighbor_printed:
  "sprint_pwospf_if_list (idle_router\<lparr>if_list := [iface_with_neighbors 1, iface_with_neighbors 0]\<rparr>) =
   Some (PWOSPF_IFACE_COL @ pwospf_iface_line idle_router (iface_with_neighbors 1) 7 7 @ pwospf_iface_line idle_router (iface_with_neighbors 0) 7 7)"
proof -
  let ?i = "iface_with_neighbors 1" and ?j = "iface_with_neighbors 0"
  have line: "pwospf_iface_line (idle_router\<lparr>if_list := l\<rparr>) ie a b = pwospf_iface_line idle_router ie a b" for l ie a b
    by (simp add: pwospf_iface_line_def nbr_age_def split: list.split)
  have "ie_nbr_routers ?i = [\<lparr>nbr_router_id = 7, nbr_ip = 7, nbr_last_rcvd_hello = 0\<rparr>]" "ie_nbr_routers ?j = []"
    by (simp_all add: iface_with_neighbors_def)
  then show ?thesis
    using pwospf_iface_line_length[of idle_router ?i 7 7] pwospf_iface_line_length[of idle_router ?j 7 7]
    by (simp add: sprint_pwospf_if_list_def COPY_STRING_Some Let_def line)
qed
end
