(* ===== verification/Filters.thy ===== *)
theory Filters
  imports Bubble Hw_Table
begin

text \<open>
  The local IP filters of \<^verbatim>\<open>or_netfpga.c\<close>: the addresses whose packets the hardware hands to the software. The list is sorted
  by name and copied to the hardware after each change. The sort tests whether \<open>strcmp\<close> returns 1, which the C standard leaves
  open, so \<open>strcmp\<close> is an argument of the definitions.
\<close>

section \<open>Comparing names\<close>

text \<open>
  The C standard fixes the sign of the result of \<open>strcmp\<close> and nothing else. \<open>str_diff\<close> is the difference of the first bytes
  that differ, which some libraries return, and \<open>str_sign\<close> its sign, which others return. A string ends at its first zero byte.
\<close>

fun str_diff :: "string \<Rightarrow> string \<Rightarrow> int" where
  "str_diff [] [] = 0"
| "str_diff [] (b # bs) = - int (of_char b)"
| "str_diff (a # as) [] = int (of_char a)"
| "str_diff (a # as) (b # bs) =
     (if a \<noteq> b then int (of_char a) - int (of_char b) else if of_char a = (0 :: nat) then 0 else str_diff as bs)"

definition str_sign :: "string \<Rightarrow> string \<Rightarrow> int" where
  "str_sign a b = sgn (str_diff a b)"

lemma str_diff_sym: "str_diff b a = - str_diff a b"
  by (induction a b rule: str_diff.induct) auto

lemma of_char_inject: "of_char a = (of_char b :: nat) \<longleftrightarrow> a = b"
  by (metis char_of_char)

lemma str_diff_trans: "str_diff a b \<le> 0 \<Longrightarrow> str_diff b c \<le> 0 \<Longrightarrow> str_diff a c \<le> 0"
proof (induction a c arbitrary: b rule: str_diff.induct)
  case (3 x xs)
  then show ?case by (cases b) (auto split: if_splits)
next
  case (4 x xs y ys)
  note ih = "4.IH" and prems = "4.prems"
  show ?case
  proof (cases b)
    case Nil
    with prems show ?thesis by (auto simp flip: of_char_inject)
  next
    case (Cons z zs)
    with ih[of zs] prems show ?thesis
      by (auto split: if_splits)
  qed
qed auto

text \<open>Any \<open>strcmp\<close> that the standard allows.\<close>

locale c_strcmp =
  fixes cmp :: "string \<Rightarrow> string \<Rightarrow> int"
  assumes sign: "sgn (cmp a b) = sgn (str_diff a b)"
begin

lemma one_asym: "cmp a b = 1 \<Longrightarrow> cmp b a \<noteq> 1"
  using sign[of a b] sign[of b a] str_diff_sym[of a b] by (auto simp: sgn_if split: if_splits)

end

interpretation bytes: c_strcmp str_diff
  by unfold_locales simp

interpretation signs: c_strcmp str_sign
  by unfold_locales (simp add: str_sign_def)

section \<open>The filters\<close>

abbreviation (input) LOCAL_IP_FILTER_ENTRY_NAME_LEN :: nat where "LOCAL_IP_FILTER_ENTRY_NAME_LEN \<equiv> 32"
abbreviation (input) DST_IP_FILTER_TABLE_DEPTH :: nat where "DST_IP_FILTER_TABLE_DEPTH \<equiv> 32"

definition get_local_ip_filter_by_name :: "router_state \<Rightarrow> string \<Rightarrow> local_ip_filter_entry option" where
  "get_local_ip_filter_by_name rs name = find (\<lambda>entry. lf_name entry = name) (local_ip_filter_list rs)"

definition get_local_ip_filter_by_ip :: "router_state \<Rightarrow> u32 \<Rightarrow> local_ip_filter_entry option" where
  "get_local_ip_filter_by_ip rs ip = find (\<lambda>entry. lf_ip entry = ip) (local_ip_filter_list rs)"

text \<open>The sort swaps two entries only when \<open>strcmp\<close> returns exactly 1.\<close>

definition filter_swap :: "(string \<Rightarrow> string \<Rightarrow> int) \<Rightarrow> local_ip_filter_entry \<Rightarrow> local_ip_filter_entry \<Rightarrow> bool" where
  "filter_swap cmp a b \<longleftrightarrow> cmp (lf_name a) (lf_name b) = 1"

definition write_filter_row :: "u32 \<Rightarrow> nat \<Rightarrow> router_state \<Rightarrow> router_state" where
  "write_filter_row ip i rs =
     writeReg DST_IP_FILTER_TABLE_WR_ADDR (word_of_nat i) (writeReg DST_IP_FILTER_TABLE_ENTRY_IP ip rs)"

fun write_filter_rows :: "nat \<Rightarrow> nat \<Rightarrow> local_ip_filter_entry list \<Rightarrow> router_state \<Rightarrow> router_state" where
  "write_filter_rows i 0 cur rs = rs"
| "write_filter_rows i (Suc k) [] rs = write_filter_rows (Suc i) k [] (write_filter_row 0 i rs)"
| "write_filter_rows i (Suc k) (entry # cur) rs =
     write_filter_rows (Suc i) k cur (write_filter_row (ntohl (lf_ip entry)) i rs)"

definition trigger_local_ip_filters_change :: "(string \<Rightarrow> string \<Rightarrow> int) \<Rightarrow> router_state \<Rightarrow> router_state outcome" where
  "trigger_local_ip_filters_change cmp rs = do {
     rs \<leftarrow> acquire IpFilters Wr rs;
     l \<leftarrow> bubble_sort (filter_swap cmp) (local_ip_filter_list rs);
     let rs = rs\<lparr>local_ip_filter_list := l\<rparr>;
     let rs = (if is_netfpga rs then write_filter_rows 0 DST_IP_FILTER_TABLE_DEPTH l rs else rs);
     release IpFilters rs }"

definition add_local_ip_filter :: "(string \<Rightarrow> string \<Rightarrow> int) \<Rightarrow> router_state \<Rightarrow> u32 \<Rightarrow> string \<Rightarrow> (int \<times> router_state) outcome" where
  "add_local_ip_filter cmp rs ip name =
     (if get_local_ip_filter_by_ip rs ip \<noteq> None \<or> get_local_ip_filter_by_name rs name \<noteq> None then Some (1, rs)
      else do {
        let entry = \<lparr>lf_ip = ip, lf_name = strncpy name (LOCAL_IP_FILTER_ENTRY_NAME_LEN - 1)\<rparr>;
        rs \<leftarrow> acquire IpFilters Wr rs;
        let rs = rs\<lparr>local_ip_filter_list := local_ip_filter_list rs @ [entry]\<rparr>;
        rs \<leftarrow> release IpFilters rs;
        rs \<leftarrow> trigger_local_ip_filters_change cmp rs;
        Some (0, rs) })"

section \<open>The filter table in hardware\<close>

definition filter_row_log :: "nat \<Rightarrow> u32 \<Rightarrow> (hw_reg \<times> u32) list" where
  "filter_row_log j ip = [(DST_IP_FILTER_TABLE_ENTRY_IP, ip), (DST_IP_FILTER_TABLE_WR_ADDR, word_of_nat j)]"

fun replay_filters :: "(hw_reg \<times> u32) list \<Rightarrow> u32 \<Rightarrow> (nat \<Rightarrow> u32) \<Rightarrow> (nat \<Rightarrow> u32)" where
  "replay_filters [] latch tab = tab"
| "replay_filters ((r, v) # ws) latch tab =
     (case r of
        DST_IP_FILTER_TABLE_ENTRY_IP \<Rightarrow> replay_filters ws v tab
      | DST_IP_FILTER_TABLE_WR_ADDR \<Rightarrow> replay_filters ws latch (tab(unat v := latch))
      | _ \<Rightarrow> replay_filters ws latch tab)"

interpretation filter_table: hw_table filter_row_log replay_filters
proof unfold_locales
  show "replay_filters (filter_row_log j r @ ws) latch tab = replay_filters ws r (tab(j := r))" if "j < 2 ^ 32" for j r ws latch tab
    using that by (simp add: filter_row_log_def unat_of_nat take_bit_nat_eq_self)
qed simp

definition filter_rows :: "nat \<Rightarrow> local_ip_filter_entry list \<Rightarrow> u32 list" where
  "filter_rows k l = take k (map (ntohl \<circ> lf_ip) l @ replicate k 0)"

lemma write_filter_rows_log:
  "write_filter_rows i k l rs = rs\<lparr>regs := regs rs @ table_log filter_row_log i (filter_rows k l)\<rparr>"
proof (induction i k l rs rule: write_filter_rows.induct)
  case (2 i k rs)
  then show ?case by (simp add: filter_rows_def filter_row_log_def write_filter_row_def writeReg_def take_replicate)
next
  case (3 i k entry cur rs)
  have "take k (map (ntohl \<circ> lf_ip) cur @ 0 # replicate k 0) = take k (map (ntohl \<circ> lf_ip) cur @ replicate k 0)"
    by (simp flip: replicate_Suc replicate_append_same add: take_replicate)
  with 3 show ?case by (simp add: filter_rows_def filter_row_log_def write_filter_row_def writeReg_def)
qed (simp add: filter_rows_def)

section \<open>The sort\<close>

text \<open>It ends with every \<open>strcmp\<close>, and sorts by name with one that returns only -1, 0 and 1.\<close>

context c_strcmp
begin

lemma filters_returned: "\<exists>l'. bubble_sort (filter_swap cmp) l = Some l' \<and> mset l' = mset l"
proof -
  have "swap_test (filter_swap cmp)" by unfold_locales (auto simp: filter_swap_def dest: one_asym)
  from swap_test.sort_returns[OF this] show ?thesis by blast
qed

lemma trigger_filters:
  assumes "lock_free IpFilters rs"
  shows "\<exists>l. mset l = mset (local_ip_filter_list rs) \<and> bubble_sort (filter_swap cmp) (local_ip_filter_list rs) = Some l \<and>
    trigger_local_ip_filters_change cmp rs =
      Some (rs\<lparr>local_ip_filter_list := l, regs := regs rs @ (if is_netfpga rs then table_log filter_row_log 0 (filter_rows 32 l) else [])\<rparr>)"
proof -
  obtain l where l: "bubble_sort (filter_swap cmp) (local_ip_filter_list rs) = Some l" "mset l = mset (local_ip_filter_list rs)"
    using filters_returned by blast
  with acquire_free[OF assms] show ?thesis
    by (intro exI[of _ l]) (auto simp: trigger_local_ip_filters_change_def write_filter_rows_log release_def Let_def)
qed

end

interpretation by_name: sort_order "filter_swap str_sign"
proof unfold_locales
  show "filter_swap str_sign a b \<Longrightarrow> \<not> filter_swap str_sign b a" for a b
    using signs.one_asym by (auto simp: filter_swap_def)
  show "\<not> filter_swap str_sign a b \<Longrightarrow> \<not> filter_swap str_sign b c \<Longrightarrow> \<not> filter_swap str_sign a c" for a b c
    using str_diff_trans[of "lf_name a" "lf_name b" "lf_name c"] by (auto simp: filter_swap_def str_sign_def sgn_if split: if_splits)
qed

text \<open>With the byte difference the list can stay unsorted: the names of two ports differ by 2.\<close>

lemma filters_unsorted:
  "bubble_sort (filter_swap str_diff) [\<lparr>lf_ip = 1, lf_name = ''eth2''\<rparr>, \<lparr>lf_ip = 2, lf_name = ''eth0''\<rparr>] =
     Some [\<lparr>lf_ip = 1, lf_name = ''eth2''\<rparr>, \<lparr>lf_ip = 2, lf_name = ''eth0''\<rparr>]"
  by code_simp

section \<open>Properties\<close>

text \<open>
  The destination filters of the hardware are those of the software: adding a filter whose address and name are new keeps the
  addresses distinct, adds exactly that filter, and the register writes leave in the 32 rows of the hardware the addresses of
  the list, in its order, followed by zeros. This holds with every \<open>strcmp\<close> the C standard allows. A known address or name is
  refused and nothing changes.
\<close>

theorem add_filter_mirrored:
  assumes "\<forall>a b. sgn (cmp a b) = sgn (str_diff a b)" and "lock_free IpFilters rs" and "is_netfpga rs"
    and "distinct (map lf_ip (local_ip_filter_list rs))"
  shows "if get_local_ip_filter_by_ip rs ip \<noteq> None \<or> get_local_ip_filter_by_name rs name \<noteq> None
    then add_local_ip_filter cmp rs ip name = Some (1, rs)
    else \<exists>l w. add_local_ip_filter cmp rs ip name = Some (0, rs\<lparr>local_ip_filter_list := l, regs := regs rs @ w\<rparr>) \<and>
      mset l = mset (local_ip_filter_list rs) + {#\<lparr>lf_ip = ip, lf_name = take 31 name\<rparr>#} \<and> distinct (map lf_ip l) \<and>
      (\<forall>n<32. replay_filters w latch tab n = (if n < length l then ntohl (lf_ip (l ! n)) else 0))"
proof (cases "get_local_ip_filter_by_ip rs ip \<noteq> None \<or> get_local_ip_filter_by_name rs name \<noteq> None")
  case True
  then show ?thesis by (simp add: add_local_ip_filter_def)
next
  case False
  let ?e = "\<lparr>lf_ip = ip, lf_name = take 31 name\<rparr>"
  let ?rs = "rs\<lparr>local_ip_filter_list := local_ip_filter_list rs @ [?e]\<rparr>"
  have cmp: "c_strcmp cmp" using assms(1) by unfold_locales simp
  have "lock_free IpFilters ?rs" using assms(2) by (simp add: lock_free_def)
  from c_strcmp.trigger_filters[OF cmp this] assms(3) obtain l where l: "mset l = mset (local_ip_filter_list rs @ [?e])"
    "trigger_local_ip_filters_change cmp ?rs = Some (rs\<lparr>local_ip_filter_list := l, regs := regs rs @ table_log filter_row_log 0 (filter_rows 32 l)\<rparr>)"
    by auto
  have "add_local_ip_filter cmp rs ip name = Some (0, rs\<lparr>local_ip_filter_list := l, regs := regs rs @ table_log filter_row_log 0 (filter_rows 32 l)\<rparr>)"
    using False acquire_free[OF assms(2)] l(2)
    by (simp add: add_local_ip_filter_def strncpy_def release_def Let_def)
  moreover have "distinct (map lf_ip l)"
  proof -
    have "ip \<notin> lf_ip ` set (local_ip_filter_list rs)" using False by (auto simp: get_local_ip_filter_by_ip_def find_None_set)
    with assms(4) have "distinct (map lf_ip (local_ip_filter_list rs @ [?e]))" by simp
    moreover have "mset (map lf_ip l) = mset (map lf_ip (local_ip_filter_list rs @ [?e]))" using l(1) by (metis mset_map)
    ultimately show ?thesis using mset_eq_imp_distinct_iff by blast
  qed
  moreover have "replay_filters (table_log filter_row_log 0 (filter_rows 32 l)) latch tab n = (if n < length l then ntohl (lf_ip (l ! n)) else 0)"
    if "n < 32" for n
    using filter_table.replay_full[of "filter_rows 32 l" n latch tab] that by (auto simp: filter_rows_def nth_append)
  ultimately show ?thesis using False l(1)
    by (auto intro!: exI[of _ l] exI[of _ "table_log filter_row_log 0 (filter_rows 32 l)"])
qed

theorem add_filter_mirrored_witness:
  "\<exists>l w. add_local_ip_filter str_diff (idle_router\<lparr>is_netfpga := True\<rparr>) 7 ''eth0'' =
     Some (0, idle_router\<lparr>is_netfpga := True, local_ip_filter_list := l, regs := w\<rparr>) \<and> mset l = {#\<lparr>lf_ip = 7, lf_name = ''eth0''\<rparr>#}"
proof -
  let ?rs = "idle_router\<lparr>is_netfpga := True\<rparr>"
  have "lock_free IpFilters ?rs" "is_netfpga ?rs" "distinct (map lf_ip (local_ip_filter_list ?rs))"
    "\<not> (get_local_ip_filter_by_ip ?rs 7 \<noteq> None \<or> get_local_ip_filter_by_name ?rs ''eth0'' \<noteq> None)" "local_ip_filter_list ?rs = []" "regs ?rs = []"
    by (simp_all add: lock_free_def idle_router_def get_local_ip_filter_by_ip_def get_local_ip_filter_by_name_def)
  with add_filter_mirrored[of str_diff ?rs 7 "''eth0''" 0 "\<lambda>_. 0"] obtain l w where
    "add_local_ip_filter str_diff ?rs 7 ''eth0'' = Some (0, ?rs\<lparr>local_ip_filter_list := l, regs := regs ?rs @ w\<rparr>)"
    "mset l = mset (local_ip_filter_list ?rs) + {#\<lparr>lf_ip = 7, lf_name = take 31 ''eth0''\<rparr>#}" by auto
  with \<open>local_ip_filter_list ?rs = []\<close> \<open>regs ?rs = []\<close> show ?thesis by (intro exI[of _ l] exI[of _ w]) simp
qed

end
