(* ===== verification/Hw_Output.thy ===== *)
theory Hw_Output
  imports Output Rtable Arp Filters
begin

text \<open>
  Reading the hardware tables back (\<open>sprint_hw_rtable\<close>, \<open>sprint_hw_arp_cache\<close>, \<open>sprint_hw_iface\<close> and
  \<open>sprint_hw_local_ip_filter\<close> of \<^verbatim>\<open>or_output.c\<close>). The hardware is a parameter: the value a register has after
  the register writes so far. A reader names a row in the table's read address register and
  then finds the row in the entry registers.
\<close>

section \<open>Definitions\<close>

type_synonym hardware = "(hw_reg \<times> u32) list \<Rightarrow> hw_reg \<Rightarrow> u32"

definition readReg :: "hardware \<Rightarrow> hw_reg \<Rightarrow> router_state \<Rightarrow> u32" where
  "readReg hw r rs = hw (regs rs) r"

definition HW_RTABLE_COL :: string where
  "HW_RTABLE_COL = ''ROW  IP                  GW                  MASK                IFACE'' @ [LF]"

definition hw_rtable_line :: "nat \<Rightarrow> u32 \<Rightarrow> u32 \<Rightarrow> u32 \<Rightarrow> string \<Rightarrow> string" where
  "hw_rtable_line i ip gw msk iface =
     snprintf 160 (pad_right 5 (show_nat i) @ pad_right 20 (inet_ntop ip) @ pad_right 20 (inet_ntop gw) @
       pad_right 20 (inet_ntop msk) @ pad_right 20 iface @ [LF])"

definition print_hw_route :: "hardware \<Rightarrow> nat \<Rightarrow> nat \<Rightarrow> string \<times> router_state \<Rightarrow> (string \<times> router_state) outcome" where
  "print_hw_route hw cap i = (\<lambda>(buf, rs).
     let rs = writeReg ROUTE_TABLE_RD_ADDR (word_of_nat i) rs;
         ip = ntohl (readReg hw ROUTE_TABLE_ENTRY_IP rs);
         msk = ntohl (readReg hw ROUTE_TABLE_ENTRY_MASK rs);
         gw = ntohl (readReg hw ROUTE_TABLE_ENTRY_NEXT_HOP_IP rs);
         iface = getIfaceFromOneHotPortNumber 32 (readReg hw ROUTE_TABLE_ENTRY_OUTPUT_PORT rs)
     in do { buf \<leftarrow> COPY_STRING cap (hw_rtable_line i ip gw msk iface) buf; Some (buf, rs) })"

definition sprint_hw_rtable :: "hardware \<Rightarrow> router_state \<Rightarrow> (string \<times> router_state) outcome" where
  "sprint_hw_rtable hw rs =
     (let cap = length HW_RTABLE_COL + ROUTE_TABLE_DEPTH * 160 in
      do { buf \<leftarrow> COPY_STRING cap HW_RTABLE_COL [];
           run_all (print_hw_route hw cap) [0..<ROUTE_TABLE_DEPTH] (buf, rs) })"

definition HW_ARP_CACHE_COL :: string where
  "HW_ARP_CACHE_COL = ''MAC'' @ [TAB, TAB, TAB] @ ''GW'' @ [LF]"

text \<open>The six bytes of the two MAC registers, in the order they are printed.\<close>

definition show_mac_regs :: "u32 \<Rightarrow> u32 \<Rightarrow> string" where
  "show_mac_regs hi lo =
     show_mac (Mac (ucast (drop_bit 8 hi)) (ucast hi) (ucast (drop_bit 24 lo)) (ucast (drop_bit 16 lo)) (ucast (drop_bit 8 lo)) (ucast lo))"

definition hw_arp_line :: "u32 \<Rightarrow> u32 \<Rightarrow> u32 \<Rightarrow> string" where
  "hw_arp_line hi lo gw = snprintf 80 (show_mac_regs hi lo @ [TAB] @ pad_right 15 (inet_ntop gw) @ [LF])"

definition print_hw_arp :: "hardware \<Rightarrow> nat \<Rightarrow> nat \<Rightarrow> string \<times> router_state \<Rightarrow> (string \<times> router_state) outcome" where
  "print_hw_arp hw cap i = (\<lambda>(buf, rs).
     let rs = writeReg ARP_TABLE_RD_ADDR (word_of_nat i) rs;
         hi = readReg hw ARP_TABLE_ENTRY_MAC_HI rs;
         lo = readReg hw ARP_TABLE_ENTRY_MAC_LO rs;
         gw = htonl (readReg hw ARP_TABLE_ENTRY_NEXT_HOP_IP rs)
     in do { buf \<leftarrow> COPY_STRING cap (hw_arp_line hi lo gw) buf; Some (buf, rs) })"

definition sprint_hw_arp_cache :: "hardware \<Rightarrow> router_state \<Rightarrow> (string \<times> router_state) outcome" where
  "sprint_hw_arp_cache hw rs =
     (let cap = length HW_ARP_CACHE_COL + 32 * 80 in
      do { buf \<leftarrow> COPY_STRING cap HW_ARP_CACHE_COL [];
           run_all (print_hw_arp hw cap) [0..<32] (buf, rs) })"

definition HW_IFACE_COL :: string where
  "HW_IFACE_COL = ''Port'' @ [TAB] @ ''MAC'' @ [LF]"

definition hw_iface_line :: "string \<Rightarrow> u32 \<times> u32 \<Rightarrow> string" where
  "hw_iface_line name = (\<lambda>(hi, lo). snprintf 80 (pad_right 5 name @ [TAB] @ show_mac_regs hi lo @ [LF]))"

definition sprint_hw_iface :: "hardware \<Rightarrow> router_state \<Rightarrow> string outcome" where
  "sprint_hw_iface hw rs =
     (let cap = length HW_IFACE_COL + 4 * 80; names = [''eth0'', ''eth1'', ''eth2'', ''eth3''] in
      do { buf \<leftarrow> COPY_STRING cap HW_IFACE_COL [];
           run_all (\<lambda>i. COPY_STRING cap (hw_iface_line (names ! i) (read_hw_iface_mac (hw (regs rs)) i))) [0..<4] buf })"

definition HW_LOCAL_IP_FILTER_HEADER :: string where
  "HW_LOCAL_IP_FILTER_HEADER = ''Row IP             '' @ [LF]"

definition hw_filter_line :: "nat \<Rightarrow> u32 \<Rightarrow> string" where
  "hw_filter_line i ip = snprintf 21 (pad_left 3 (show_nat i) @ '' '' @ pad_left 15 (inet_ntop ip) @ [LF])"

definition print_hw_filter :: "hardware \<Rightarrow> nat \<Rightarrow> nat \<Rightarrow> string \<times> router_state \<Rightarrow> (string \<times> router_state) outcome" where
  "print_hw_filter hw cap i = (\<lambda>(buf, rs).
     let rs = writeReg DST_IP_FILTER_TABLE_RD_ADDR (word_of_nat i) rs;
         ip = htonl (readReg hw DST_IP_FILTER_TABLE_ENTRY_IP rs)
     in do { buf \<leftarrow> COPY_STRING cap (hw_filter_line i ip) buf; Some (buf, rs) })"

definition sprint_hw_local_ip_filter :: "hardware \<Rightarrow> router_state \<Rightarrow> (string \<times> router_state) outcome" where
  "sprint_hw_local_ip_filter hw rs =
     (let cap = (1 + 32) * 21 + 1 in
      if is_netfpga rs then
        do { buf \<leftarrow> COPY_STRING cap HW_LOCAL_IP_FILTER_HEADER [];
             run_all (print_hw_filter hw cap) [0..<32] (buf, rs) }
      else Some ([], rs))"

section \<open>What a reader finds\<close>

text \<open>
  The laws of a table that can be read back. The read address register does not change the table,
  and what the table held before a log of writes is one of its states.
\<close>

locale hw_reader = hw_table row_log replay
  for row_log :: "nat \<Rightarrow> 'r \<Rightarrow> (hw_reg \<times> u32) list"
    and replay :: "(hw_reg \<times> u32) list \<Rightarrow> 'r \<Rightarrow> (nat \<Rightarrow> 'r) \<Rightarrow> (nat \<Rightarrow> 'r)" +
  fixes rd :: hw_reg and row :: "(hw_reg \<Rightarrow> u32) \<Rightarrow> 'r" and hw :: hardware and latch :: 'r and tab :: "nat \<Rightarrow> 'r"
  assumes reads: "i < 2 ^ 32 \<Longrightarrow> row (hw (ws @ [(rd, word_of_nat i)])) = replay ws latch tab i"
    and replay_rd: "replay (ws @ [(rd, v)]) l t = replay ws l t"
    and replay_append: "\<exists>l t. replay (ws @ log) latch tab = replay log l t"
begin

lemma replay_reads: "replay (ws @ map (\<lambda>j. (rd, w j)) js) l t = replay ws l t"
  by (induction js rule: rev_induct) (simp_all add: replay_rd flip: append_assoc)

text \<open>After the table has been written, and any rows have been read, reading a row gives what was written to it.\<close>

lemma read_back:
  assumes "n < length rows" and "length rows \<le> 2 ^ 32"
  shows "row (hw ((ws @ table_log row_log 0 rows) @ map (\<lambda>j. (rd, word_of_nat j)) js @ [(rd, word_of_nat n)])) = rows ! n"
proof -
  have "n < 2 ^ 32" using assms by simp
  from reads[OF this, of "(ws @ table_log row_log 0 rows) @ map (\<lambda>j. (rd, word_of_nat j)) js"]
  have "row (hw ((ws @ table_log row_log 0 rows) @ map (\<lambda>j. (rd, word_of_nat j)) js @ [(rd, word_of_nat n)]))
      = replay (ws @ table_log row_log 0 rows) latch tab n"
    by (simp only: append_assoc replay_reads[of "ws @ table_log row_log 0 rows", simplified])
  also obtain l t where "replay (ws @ table_log row_log 0 rows) latch tab = replay (table_log row_log 0 rows) l t"
    using replay_append by blast
  also have "replay (table_log row_log 0 rows) l t n = rows ! n" using assms by (intro replay_full)
  finally show ?thesis .
qed

end


section \<open>A simulated hardware\<close>

text \<open>
  The register interface as the three tables define it: after a write to a read address register, the entry registers
  hold the row it names. Every other register holds what was written to it last.
\<close>

definition row_read :: "hw_reg \<Rightarrow> (hw_reg \<times> u32) list \<Rightarrow> nat" where
  "row_read rd ws = unat (reg_value (\<lambda>_. 0) ws rd)"

definition sim_hw :: hardware where
  "sim_hw ws r =
     (let route = replay_routes ws (0, 0, 0, 0) (\<lambda>_. (0, 0, 0, 0)) (row_read ROUTE_TABLE_RD_ADDR ws);
          arp = replay_arp ws (0, 0, 0) (\<lambda>_. (0, 0, 0)) (row_read ARP_TABLE_RD_ADDR ws)
      in case r of
           ROUTE_TABLE_ENTRY_IP \<Rightarrow> fst route
         | ROUTE_TABLE_ENTRY_MASK \<Rightarrow> fst (snd route)
         | ROUTE_TABLE_ENTRY_NEXT_HOP_IP \<Rightarrow> fst (snd (snd route))
         | ROUTE_TABLE_ENTRY_OUTPUT_PORT \<Rightarrow> snd (snd (snd route))
         | ARP_TABLE_ENTRY_MAC_HI \<Rightarrow> fst arp
         | ARP_TABLE_ENTRY_MAC_LO \<Rightarrow> fst (snd arp)
         | ARP_TABLE_ENTRY_NEXT_HOP_IP \<Rightarrow> snd (snd arp)
         | DST_IP_FILTER_TABLE_ENTRY_IP \<Rightarrow> replay_filters ws 0 (\<lambda>_. 0) (row_read DST_IP_FILTER_TABLE_RD_ADDR ws)
         | _ \<Rightarrow> reg_value (\<lambda>_. 0) ws r)"

definition route_regs :: "(hw_reg \<Rightarrow> u32) \<Rightarrow> hw_row" where
  "route_regs f = (f ROUTE_TABLE_ENTRY_IP, f ROUTE_TABLE_ENTRY_MASK, f ROUTE_TABLE_ENTRY_NEXT_HOP_IP, f ROUTE_TABLE_ENTRY_OUTPUT_PORT)"

definition arp_regs :: "(hw_reg \<Rightarrow> u32) \<Rightarrow> arp_row" where
  "arp_regs f = (f ARP_TABLE_ENTRY_MAC_HI, f ARP_TABLE_ENTRY_MAC_LO, f ARP_TABLE_ENTRY_NEXT_HOP_IP)"

lemma row_read_last: "i < 2 ^ 32 \<Longrightarrow> row_read rd (ws @ [(rd, word_of_nat i)]) = i"
  by (simp add: row_read_def reg_value_def unat_of_nat take_bit_nat_eq_self)

lemma replay_routes_append: "\<exists>l t. replay_routes (ws @ log) latch tab = replay_routes log l t"
proof (induction ws latch tab rule: replay_routes.induct)
  case (1 latch tab)
  show ?case by (simp del: split_paired_Ex) blast
next
  case (2 r v ws)
  then show ?case by (cases r) (simp_all del: split_paired_Ex fun_upd_apply add: fun_upd_def)
qed

lemma replay_arp_append: "\<exists>l t. replay_arp (ws @ log) latch tab = replay_arp log l t"
proof (induction ws latch tab rule: replay_arp.induct)
  case (1 latch tab)
  show ?case by (simp del: split_paired_Ex) blast
next
  case (2 r v ws)
  then show ?case by (cases r) (simp_all del: split_paired_Ex fun_upd_apply add: fun_upd_def)
qed

lemma replay_filters_append: "\<exists>l t. replay_filters (ws @ log) latch tab = replay_filters log l t"
proof (induction ws latch tab rule: replay_filters.induct)
  case (1 latch tab)
  show ?case by (simp del: split_paired_Ex) blast
next
  case (2 r v ws)
  then show ?case by (cases r) (simp_all del: split_paired_Ex fun_upd_apply add: fun_upd_def)
qed

lemma replay_routes_rd: "replay_routes (ws @ [(ROUTE_TABLE_RD_ADDR, v)]) l t = replay_routes ws l t"
  by (induction ws l t rule: replay_routes.induct) (simp_all add: fun_upd_def split_paired_all del: fun_upd_apply split: hw_reg.split)

lemma replay_arp_rd: "replay_arp (ws @ [(ARP_TABLE_RD_ADDR, v)]) l t = replay_arp ws l t"
  by (induction ws l t rule: replay_arp.induct) (simp_all add: fun_upd_def split_paired_all del: fun_upd_apply split: hw_reg.split)

lemma replay_filters_rd: "replay_filters (ws @ [(DST_IP_FILTER_TABLE_RD_ADDR, v)]) l t = replay_filters ws l t"
  by (induction ws l t rule: replay_filters.induct) (simp_all add: fun_upd_def split_paired_all del: fun_upd_apply split: hw_reg.split)

interpretation sim_routes: hw_reader row_log replay_routes ROUTE_TABLE_RD_ADDR route_regs sim_hw "(0, 0, 0, 0)" "\<lambda>_. (0, 0, 0, 0)"
  by unfold_locales
    (simp_all del: split_paired_Ex add: replay_routes_append replay_routes_rd route_regs_def sim_hw_def row_read_last)

interpretation sim_arp: hw_reader arp_row_log replay_arp ARP_TABLE_RD_ADDR arp_regs sim_hw "(0, 0, 0)" "\<lambda>_. (0, 0, 0)"
  by unfold_locales
    (simp_all del: split_paired_Ex add: replay_arp_append replay_arp_rd arp_regs_def sim_hw_def row_read_last)

interpretation sim_filters: hw_reader filter_row_log replay_filters DST_IP_FILTER_TABLE_RD_ADDR "\<lambda>f. f DST_IP_FILTER_TABLE_ENTRY_IP" sim_hw 0 "\<lambda>_. 0"
  by unfold_locales
    (simp_all add: replay_filters_append replay_filters_rd sim_hw_def row_read_last)

section \<open>The printed tables\<close>

text \<open>The loops over the rows: each writes the row number and prints what it then reads.\<close>

lemma run_print_rows:
  assumes pr: "\<And>i b rs. pr i (b, rs) =
      (let rs = writeReg rd (word_of_nat i) rs in do { b \<leftarrow> COPY_STRING cap (line i (hw (regs rs))) b; Some (b, rs) })"
    and len: "\<And>i f. length (line i f) \<le> k" and "length buf + k * n \<le> cap"
  shows "run_all pr [0..<n] (buf, rs) =
    Some (buf @ concat (map (\<lambda>i. line i (hw (regs rs @ map (\<lambda>j. (rd, word_of_nat j)) [0..<i] @ [(rd, word_of_nat i)]))) [0..<n]),
          rs\<lparr>regs := regs rs @ map (\<lambda>j. (rd, word_of_nat j)) [0..<n]\<rparr>)"
  using assms(3)
proof (induction n)
  case (Suc n)
  let ?w = "\<lambda>n. map (\<lambda>j. (rd, word_of_nat j)) [0..<n]"
  let ?l = "\<lambda>i. line i (hw (regs rs @ ?w i @ [(rd, word_of_nat i)]))"
  let ?b = "buf @ concat (map ?l [0..<n])"
  have "length ?b \<le> length buf + k * n"
    using lines_bound[of "[0..<n]" ?l k] len by (simp add: length_concat comp_def)
  then have "length ?b + length (?l n) \<le> cap" using len[of n "hw (regs rs @ ?w n @ [(rd, word_of_nat n)])"] Suc.prems by simp
  then show ?case
    using Suc by (simp add: run_all_append pr COPY_STRING_Some writeReg_def)
qed simp

lemma print_hw_route_row:
  "print_hw_route hw cap i (b, rs) =
     (let rs = writeReg ROUTE_TABLE_RD_ADDR (word_of_nat i) rs in
      do { b \<leftarrow> COPY_STRING cap ((\<lambda>(ip, m, gw, port). hw_rtable_line i (ntohl ip) (ntohl gw) (ntohl m) (getIfaceFromOneHotPortNumber 32 port))
                (route_regs (hw (regs rs)))) b; Some (b, rs) })"
  by (simp add: print_hw_route_def route_regs_def readReg_def Let_def)

text \<open>The line that \<open>show hw rtable\<close> prints for row \<open>i\<close> of a routing table.\<close>

definition hw_route_shown :: "rtable_entry list \<Rightarrow> nat \<Rightarrow> string" where
  "hw_route_shown t i =
     (let act = filter rt_is_active t in
      if i < length act then hw_rtable_line i (rt_ip (act ! i)) (rt_gw (act ! i)) (rt_mask (act ! i)) (rt_iface (act ! i))
      else hw_rtable_line i 0 0 0 [])"

lemma route_row_shown:
  assumes "list_all has_port t" and "i < 32"
  shows "(\<lambda>(ip, m, gw, port). hw_rtable_line i (ntohl ip) (ntohl gw) (ntohl m) (getIfaceFromOneHotPortNumber 32 port)) (active_rows 32 t ! i)
    = hw_route_shown t i"
proof (cases "i < length (filter rt_is_active t)")
  case True
  then have "filter rt_is_active t ! i \<in> set t" using nth_mem[OF True] by simp
  with assms(1) obtain p where "getOneHotPortNumber (rt_iface (filter rt_is_active t ! i)) = Some p"
    by (auto simp: list_all_iff has_port_def)
  with one_hot_inverse[OF _ this, of 32] True assms(2) show ?thesis
    by (simp add: nth_active_rows route_row_def hw_route_shown_def Let_def)
next
  case False
  with assms(2) show ?thesis by (simp add: nth_active_rows hw_route_shown_def getIfaceFromOneHotPortNumber_def)
qed

text \<open>
  C28. The hardware table read back is the software table. After the routing table has been written to
  hardware that follows the register protocol, \<open>show hw rtable\<close> prints the active routes in their order, row by row,
  with the addresses and interface names of the software table, and empty rows after them.
\<close>

theorem hw_routes_shown:
  assumes "hw_reader row_log replay_routes ROUTE_TABLE_RD_ADDR route_regs hw latch tab"
    and "is_netfpga rs" and "trigger_rtable_modified rs = Some rs'" and "list_all has_port (rtable rs')"
  shows "\<exists>rs''. sprint_hw_rtable hw rs' = Some (HW_RTABLE_COL @ concat (map (hw_route_shown (rtable rs')) [0..<32]), rs'')
    \<and> rtable rs'' = rtable rs'"
proof -
  let ?l = "\<lambda>i f. (\<lambda>(ip, m, gw, port). hw_rtable_line i (ntohl ip) (ntohl gw) (ntohl m) (getIfaceFromOneHotPortNumber 32 port)) (route_regs f)"
  let ?cap = "length HW_RTABLE_COL + 32 * 160" and ?rd = "\<lambda>j. (ROUTE_TABLE_RD_ADDR, word_of_nat j)"
  from trigger_ok(4)[OF assms(3)] assms(2)
  have regs: "regs rs' = regs rs @ rows_log 0 (active_rows 32 (rtable rs'))" by simp
  have "length (?l i f) \<le> 160" for i f
    by (auto simp: hw_rtable_line_def split_beta intro!: less_imp_le length_snprintf)
  from run_print_rows[where pr = "print_hw_route hw ?cap" and line = ?l and n = 32 and buf = HW_RTABLE_COL, OF print_hw_route_row this]
  have "sprint_hw_rtable hw rs' = Some (HW_RTABLE_COL @ concat (map (\<lambda>i. ?l i (hw (regs rs' @ map ?rd [0..<i] @ [?rd i]))) [0..<32]),
      rs'\<lparr>regs := regs rs' @ map ?rd [0..<32]\<rparr>)"
    by (simp add: sprint_hw_rtable_def COPY_STRING_Some)
  moreover have "?l i (hw (regs rs' @ map ?rd [0..<i] @ [?rd i])) = hw_route_shown (rtable rs') i" if "i < 32" for i
    using hw_reader.read_back[OF assms(1), of i "active_rows 32 (rtable rs')" "regs rs" "[0..<i]"] that
      route_row_shown[OF assms(4) that] by (simp add: regs)
  then have "map (\<lambda>i. ?l i (hw (regs rs' @ map ?rd [0..<i] @ [?rd i]))) [0..<32] = map (hw_route_shown (rtable rs')) [0..<32]"
    by (intro map_cong) simp_all
  ultimately show ?thesis by simp
qed

theorem hw_routes_shown_witness:
  "\<exists>rs' rs''. trigger_rtable_modified ten_router = Some rs'
    \<and> sprint_hw_rtable sim_hw rs' = Some (HW_RTABLE_COL @ concat (map (hw_route_shown [route_ten]) [0..<32]), rs'')"
proof -
  obtain rs' where t: "trigger_rtable_modified ten_router = Some rs'" "rtable rs' = [route_ten]"
    by (rule ten_trigger)
  have "is_netfpga ten_router" "has_port route_ten" by code_simp+
  with hw_routes_shown[OF sim_routes.hw_reader_axioms, of ten_router rs'] t show ?thesis by auto
qed

section \<open>Reading only moves the read address\<close>

lemma print_hw_arp_row:
  "print_hw_arp hw cap i (b, rs) =
     (let rs = writeReg ARP_TABLE_RD_ADDR (word_of_nat i) rs in
      do { b \<leftarrow> COPY_STRING cap ((\<lambda>(hi, lo, gw). hw_arp_line hi lo (htonl gw)) (arp_regs (hw (regs rs)))) b; Some (b, rs) })"
  by (simp add: print_hw_arp_def arp_regs_def readReg_def Let_def)

lemma print_hw_filter_row:
  "print_hw_filter hw cap i (b, rs) =
     (let rs = writeReg DST_IP_FILTER_TABLE_RD_ADDR (word_of_nat i) rs in
      do { b \<leftarrow> COPY_STRING cap (hw_filter_line i (htonl (hw (regs rs) DST_IP_FILTER_TABLE_ENTRY_IP))) b; Some (b, rs) })"
  by (simp add: print_hw_filter_def readReg_def Let_def)

lemma sprint_hw_rtable_ok: "\<exists>t log. sprint_hw_rtable hw rs = Some (t, rs\<lparr>regs := regs rs @ log\<rparr>)"
proof -
  let ?l = "\<lambda>i f. (\<lambda>(ip, m, gw, port). hw_rtable_line i (ntohl ip) (ntohl gw) (ntohl m) (getIfaceFromOneHotPortNumber 32 port)) (route_regs f)"
  have "length (?l i f) \<le> 160" for i f
    by (auto simp: hw_rtable_line_def split_beta intro!: less_imp_le length_snprintf)
  from run_print_rows[where pr = "print_hw_route hw (length HW_RTABLE_COL + 32 * 160)" and line = ?l and n = 32 and buf = HW_RTABLE_COL,
      OF print_hw_route_row this]
  show ?thesis by (simp add: sprint_hw_rtable_def COPY_STRING_Some) blast
qed

lemma sprint_hw_arp_cache_ok: "\<exists>t log. sprint_hw_arp_cache hw rs = Some (t, rs\<lparr>regs := regs rs @ log\<rparr>)"
proof -
  let ?l = "\<lambda>i f. (\<lambda>(hi, lo, gw). hw_arp_line hi lo (htonl gw)) (arp_regs f)"
  have "length (?l i f) \<le> 80" for i :: nat and f
    by (auto simp: hw_arp_line_def split_beta intro!: less_imp_le length_snprintf)
  from run_print_rows[where pr = "print_hw_arp hw (length HW_ARP_CACHE_COL + 32 * 80)" and line = ?l and n = 32 and buf = HW_ARP_CACHE_COL,
      OF print_hw_arp_row this]
  show ?thesis by (simp add: sprint_hw_arp_cache_def COPY_STRING_Some) blast
qed

lemma sprint_hw_filter_ok: "\<exists>t log. sprint_hw_local_ip_filter hw rs = Some (t, rs\<lparr>regs := regs rs @ log\<rparr>)"
proof -
  let ?l = "\<lambda>i f. hw_filter_line i (htonl (f DST_IP_FILTER_TABLE_ENTRY_IP))"
  have "length (hw_filter_line i ip) \<le> 21" for i ip
    by (auto simp: hw_filter_line_def intro!: less_imp_le length_snprintf)
  from run_print_rows[where pr = "print_hw_filter hw 694" and line = ?l and n = 32 and buf = HW_LOCAL_IP_FILTER_HEADER and cap = 694 and hw = hw,
      OF print_hw_filter_row this]
  have "\<exists>t log. run_all (print_hw_filter hw 694) [0..<32] (HW_LOCAL_IP_FILTER_HEADER, rs) = Some (t, rs\<lparr>regs := regs rs @ log\<rparr>)"
    by (simp add: HW_LOCAL_IP_FILTER_HEADER_def) blast
  moreover have "\<exists>log. rs = rs\<lparr>regs := regs rs @ log\<rparr>" by (rule exI[of _ "[]"]) simp
  ultimately show ?thesis by (simp add: sprint_hw_local_ip_filter_def COPY_STRING_Some HW_LOCAL_IP_FILTER_HEADER_def)
qed

lemma sprint_hw_iface_ok: "\<exists>t. sprint_hw_iface hw rs = Some t"
proof -
  have "sprint_hw_iface hw rs = Some (HW_IFACE_COL @ concat (map (\<lambda>i. hw_iface_line ([''eth0'', ''eth1'', ''eth2'', ''eth3''] ! i)
      (read_hw_iface_mac (hw (regs rs)) i)) [0..<4]))"
    unfolding sprint_hw_iface_def Let_def
    by (rule table_fits[where k = 80])
      (auto simp: hw_iface_line_def split_beta intro!: less_imp_le length_snprintf)
  then show ?thesis by blast
qed
end
