(* ===== verification/Iface_Control.thy ===== *)
theory Iface_Control
  imports Ip Filters
begin

text \<open>
  Interfaces that come and go: \<open>iface_up\<close> and \<open>iface_down\<close> of \<^verbatim>\<open>or_iface.c\<close>, which change routes, neighbours and the
  link state database together, and the start of the router in \<^verbatim>\<open>or_main.c\<close>: its interfaces, its own entry of the database, the
  routes of the configuration file and the hardware.
\<close>

section \<open>Interfaces up and down\<close>

text \<open>
  \<open>while (cur) node_remove(&list, cur)\<close> does not move \<open>cur\<close>: on a list that is not empty the second turn uses a node that the
  first one freed, as \<open>Node_List\<close> shows.
\<close>

definition clear_neighbors :: "nbr_router list \<Rightarrow> nbr_router list outcome" where
  "clear_neighbors nbr_routers = (if nbr_routers = [] then Some [] else None)"

definition iface_up :: "router_state \<Rightarrow> string \<Rightarrow> (int \<times> router_state) outcome" where
  "iface_up rs interface =
     (case get_iface rs interface of
        None \<Rightarrow> Some (1, rs)
      | Some iface \<Rightarrow>
          (if ie_is_active iface then Some (0, rs)
           else do {
             let rs = set_iface rs interface (\<lambda>ie. ie\<lparr>ie_is_active := True\<rparr>);
             (_, rs) \<leftarrow> activate_routes rs interface;
             nbrs \<leftarrow> clear_neighbors (ie_nbr_routers iface);
             let rs = set_iface rs interface (\<lambda>ie. ie\<lparr>ie_nbr_routers := nbrs\<rparr>);
             let pi = \<lparr>pi_subnet = ie_ip iface AND ie_mask iface, pi_mask = ie_mask iface, pi_router_id = 0, pi_is_active = False\<rparr>;
             our_router \<leftarrow> get_router_by_rid (router_id rs) (pwospf_router_list rs);
             let rs = (if is_route_present our_router pi then rs
                       else set_router (router_id rs) (\<lambda>r. r\<lparr>pr_interface_list := pr_interface_list r @ [pi]\<rparr>) rs);
             rs \<leftarrow> acquire RouterList Wr rs;
             rs \<leftarrow> propagate_pwospf_changes rs;
             rs \<leftarrow> release RouterList rs;
             Some (0, cond_signal LsuBcastCond rs) }))"

definition iface_down :: "router_state \<Rightarrow> string \<Rightarrow> (int \<times> router_state) outcome" where
  "iface_down rs interface =
     (case get_iface rs interface of
        None \<Rightarrow> Some (1, rs)
      | Some iface \<Rightarrow>
          (if \<not> ie_is_active iface then Some (0, rs)
           else do {
             let rs = set_iface rs interface (\<lambda>ie. ie\<lparr>ie_is_active := False\<rparr>);
             (_, rs) \<leftarrow> deactivate_routes rs interface;
             nbrs \<leftarrow> clear_neighbors (ie_nbr_routers iface);
             let rs = set_iface rs interface (\<lambda>ie. ie\<lparr>ie_nbr_routers := nbrs\<rparr>);
             our_router \<leftarrow> get_router_by_rid (router_id rs) (pwospf_router_list rs);
             let here = (\<lambda>pi. pi_subnet pi = (ie_ip iface AND ie_mask iface));
             let iface_removed = list_ex here (pr_interface_list our_router);
             let rs = set_router (router_id rs) (\<lambda>r. r\<lparr>pr_interface_list := filter (\<lambda>pi. \<not> here pi) (pr_interface_list r)\<rparr>) rs;
             (if iface_removed then do {
                rs \<leftarrow> acquire RouterList Wr rs;
                rs \<leftarrow> propagate_pwospf_changes rs;
                rs \<leftarrow> release RouterList rs;
                Some (0, cond_signal LsuBcastCond rs) }
              else Some (0, rs)) }))"

section \<open>Initialisation\<close>

record sr_vns_if =
  vns_name :: string
  vns_addr :: mac
  vns_ip :: u32
  vns_mask :: u32
  vns_speed :: u32

fun strstr :: "string \<Rightarrow> string \<Rightarrow> bool" where
  "strstr [] needle = (needle = [])"
| "strstr (c # s) needle = (take (length needle) (c # s) = needle \<or> strstr s needle)"

definition init_add_interface :: "(string \<Rightarrow> string \<Rightarrow> int) \<Rightarrow> router_state \<Rightarrow> sr_vns_if \<Rightarrow> router_state outcome" where
  "init_add_interface cmp rs vns_if =
     (if strstr (vns_name vns_if) ''cpu'' then Some rs
      else do {
        let ie = \<lparr>ie_name = take IF_LEN (vns_name vns_if), ie_addr = vns_addr vns_if, ie_ip = vns_ip vns_if, ie_mask = vns_mask vns_if,
                  ie_speed = vns_speed vns_if, ie_is_active = True, ie_last_sent_hello = 0, ie_nbr_routers = [], ie_is_wan = 0\<rparr>;
        let rs = (if strncmp_eq (ie_name ie) ''eth0'' IF_LEN then rs\<lparr>router_id := ie_ip ie\<rparr> else rs);
        let rs = rs\<lparr>if_list := if_list rs @ [ie]\<rparr>;
        rs \<leftarrow> (if is_netfpga rs then do {
                  port \<leftarrow> getPortNumber (vns_name vns_if);
                  Some (write_hw_iface_mac rs (unat port) (mac_hi (vns_addr vns_if)) (mac_lo (vns_addr vns_if))) }
               else Some rs);
        map_option snd (add_local_ip_filter cmp rs (vns_ip vns_if) (vns_name vns_if)) })"

definition init_router_list :: "router_state \<Rightarrow> router_state outcome" where
  "init_router_list rs =
     (if pwospf_router_list rs \<noteq> [] then None
      else let our_router = \<lparr>pr_addr = next_addr rs, pr_router_id = router_id rs, pr_area_id = area_id rs, pr_seq = 0,
                 pr_last_update = clock rs, pr_distance = 0, pr_shortest_path_found = False,
                 pr_interface_list = map (\<lambda>ie. \<lparr>pi_subnet = ie_ip ie AND ie_mask ie, pi_mask = ie_mask ie, pi_router_id = 0,
                   pi_is_active = False\<rparr>) (if_list rs),
                 pr_prev_router = None\<rparr>
           in Some (rs\<lparr>pwospf_router_list := [our_router], next_addr := Suc (next_addr rs)\<rparr>))"

text \<open>The rows of the file are the argument: address, gateway, mask and interface of each line that could be read.\<close>

definition init_rtable :: "(u32 \<times> u32 \<times> u32 \<times> string) list \<Rightarrow> router_state \<Rightarrow> router_state outcome" where
  "init_rtable rows rs = do {
     rs \<leftarrow> acquire RtableLock Wr rs;
     let rs = rs\<lparr>rtable := rtable rs @ map (\<lambda>(ip, gw, msk, iface). \<lparr>rt_ip = ip, rt_gw = gw, rt_mask = msk,
                rt_iface = strncpy iface 32, rt_is_static = True, rt_is_active = True\<rparr>) rows\<rparr>;
     let default_route = default_route_present rs;
     rs \<leftarrow> release RtableLock rs;
     rs \<leftarrow> (case default_route of
              None \<Rightarrow> Some rs
            | Some d \<Rightarrow> do {
                rs \<leftarrow> acquire RouterList Wr rs;
                r \<leftarrow> get_router_by_rid (router_id rs) (pwospf_router_list rs);
                let rs = set_router (router_id rs) (\<lambda>r. r\<lparr>pr_interface_list := pr_interface_list r @ [d]\<rparr>) rs;
                release RouterList rs });
     Some (dijkstra_trigger rs) }"

definition init_hardware :: "router_state \<Rightarrow> router_state outcome" where
  "init_hardware rs = write_rtable_to_hw (write_arp_cache_to_hw (writeReg CPCI_REG_CTRL 0x00010100 rs))"

section \<open>Common steps\<close>

lemma get_iface_update:
  assumes "get_iface rs i = Some ie" and "\<And>ie. ie_name (f ie) = ie_name ie"
  shows "find (named i) (update_first (named i) f (if_list rs)) = Some (f ie)"
  using assms(1) trans[OF find_update_first[of "named i" "named i" f "if_list rs"]]
  by (auto simp: get_iface_def named_def assms(2))

lemma update_iface_twice:
  assumes "\<And>ie. ie_name (f ie) = ie_name ie"
  shows "update_first (named i) g (update_first (named i) f l) = update_first (named i) (g \<circ> f) l"
  by (rule update_first_twice) (simp add: named_def assms)

lemma routes_changed:
  assumes "list_all has_port (rtable rs)" and "\<And>e. e \<in> set t \<Longrightarrow> \<exists>e'\<in>set (rtable rs). rt_iface e = rt_iface e'"
  shows "\<exists>t' w. trigger_rtable_modified (rs\<lparr>rtable := t\<rparr>) = Some (rs\<lparr>rtable := t', regs := regs rs @ w\<rparr>) \<and> list_all has_port t'"
proof -
  have p: "has_port e" if "e \<in> set t" for e using assms that by (fastforce simp: list_all_iff has_port_def)
  show ?thesis
  proof (rule trigger_rtable_modified_returns[of "rs\<lparr>rtable := t\<rparr>"])
    fix t' w
    assume "trigger_rtable_modified (rs\<lparr>rtable := t\<rparr>) = Some (rs\<lparr>rtable := t, rtable := t', regs := regs (rs\<lparr>rtable := t\<rparr>) @ w\<rparr>)"
      and "mset t' = mset (rtable (rs\<lparr>rtable := t\<rparr>))"
    with p mset_eq_setD[of t' t] show ?thesis by (intro exI[of _ t'] exI[of _ w]) (simp add: list_all_iff)
  qed (use p in simp)
qed

lemma flood_own:
  assumes "lock_free RouterList rs" and "lock_free LsuQueue rs"
    and "get_router_by_rid (router_id rs) (pwospf_router_list rs) = Some r" and "small_router r"
  shows "\<exists>rl q r'. do { rs \<leftarrow> acquire RouterList Wr rs; rs \<leftarrow> propagate_pwospf_changes rs; rs \<leftarrow> release RouterList rs;
      Some (n, cond_signal LsuBcastCond rs) } = Some (n, rs\<lparr>dijkstra_dirty := 1, signals := signals rs @ [DijkstraCond, LsuBcastCond],
      pwospf_router_list := rl, pwospf_lsu_queue := pwospf_lsu_queue rs @ q\<rparr>) \<and>
    get_router_by_rid (router_id rs) rl = Some r' \<and> map link_key (pr_interface_list r') = map link_key (pr_interface_list r)"
proof -
  let ?rs = "rs\<lparr>held := (RouterList, Wr) # held rs\<rparr>"
  have "get_router_by_rid (router_id ?rs) (pwospf_router_list ?rs) = Some r" "lock_free LsuQueue ?rs"
    using assms(2,3) by (simp_all add: lock_free_def)
  from propagate_own[OF this(1) assms(4) this(2)] obtain r' rl q where
    p: "propagate_pwospf_changes ?rs = Some (?rs\<lparr>dijkstra_dirty := 1, signals := signals rs @ [DijkstraCond],
      pwospf_router_list := rl, pwospf_lsu_queue := pwospf_lsu_queue rs @ q\<rparr>)"
    "get_router_by_rid (router_id rs) rl = Some r'" "map link_key (pr_interface_list r') = map link_key (pr_interface_list r)" by auto
  with acquire_free[OF assms(1), of Wr] show ?thesis
    by (intro exI[of _ rl] exI[of _ q] exI[of _ r']) (simp add: release_def cond_signal_def)
qed

lemma iface_down_result:
  assumes "lock_free RouterList rs" and "lock_free LsuQueue rs" and "get_iface rs i = Some ie" and "ie_is_active ie" and "ie_nbr_routers ie = []"
    and "get_router_by_rid (router_id rs) (pwospf_router_list rs) = Some r" and "small_router r" and "list_all has_port (rtable rs)"
  shows "\<exists>rs1 r1. iface_down rs i = Some (0, rs1) \<and> get_iface rs1 i = Some (ie\<lparr>ie_is_active := False\<rparr>) \<and> held rs1 = held rs \<and>
    router_id rs1 = router_id rs \<and> list_all has_port (rtable rs1) \<and> get_router_by_rid (router_id rs) (pwospf_router_list rs1) = Some r1 \<and>
    map link_key (pr_interface_list r1) = map link_key (filter (\<lambda>pi. pi_subnet pi \<noteq> (ie_ip ie AND ie_mask ie)) (pr_interface_list r))"
proof -
  let ?f = "\<lambda>ie. ie\<lparr>ie_is_active := False\<rparr>" and ?g = "\<lambda>ie :: iface_entry. ie\<lparr>ie_nbr_routers := []\<rparr>"
  let ?here = "\<lambda>pi. pi_subnet pi = (ie_ip ie AND ie_mask ie)"
  let ?rs = "set_iface rs i ?f"
  obtain t w where t: "trigger_rtable_modified (?rs\<lparr>rtable := deactivate_walk i (rtable rs)\<rparr>) = Some (?rs\<lparr>rtable := t, regs := regs rs @ w\<rparr>)"
    "list_all has_port t"
    using routes_changed[of ?rs "deactivate_walk i (rtable rs)"] assms(8) by (fastforce simp: set_iface_def deactivate_walk_eq)
  let ?r = "r\<lparr>pr_interface_list := filter (\<lambda>pi. \<not> ?here pi) (pr_interface_list r)\<rparr>"
  let ?rs2 = "set_router (router_id rs) (\<lambda>r. r\<lparr>pr_interface_list := filter (\<lambda>pi. \<not> ?here pi) (pr_interface_list r)\<rparr>)
    (set_iface (?rs\<lparr>rtable := t, regs := regs rs @ w\<rparr>) i ?g)"
  have r: "get_router_by_rid (router_id ?rs2) (pwospf_router_list ?rs2) = Some ?r"
    using assms(6) by (simp add: set_router_def set_iface_def get_router_by_rid_update)
  have run: "iface_down rs i = (if list_ex ?here (pr_interface_list r)
      then do { rs \<leftarrow> acquire RouterList Wr ?rs2; rs \<leftarrow> propagate_pwospf_changes rs; rs \<leftarrow> release RouterList rs; Some (0, cond_signal LsuBcastCond rs) }
      else Some (0, ?rs2))"
    unfolding iface_down_def using assms(3-6) t(1)
    by (simp add: deactivate_routes_def clear_neighbors_def set_iface_def set_router_def Let_def)
  have ie: "find (named i) (if_list ?rs2) = Some (ie\<lparr>ie_is_active := False\<rparr>)"
    using get_iface_update[OF assms(3), of "?g \<circ> ?f"] assms(5)
    by (simp add: set_router_def set_iface_def update_iface_twice)
  show ?thesis
  proof (cases "list_ex ?here (pr_interface_list r)")
    case True
    have l: "lock_free RouterList ?rs2" "lock_free LsuQueue ?rs2"
      using assms(1,2) by (simp_all add: set_router_def set_iface_def lock_free_def)
    have "length (filter (\<lambda>pi. \<not> ?here pi) (pr_interface_list r)) \<le> length (pr_interface_list r)" by (rule length_filter_le)
    moreover have e: "pr_interface_list ?r = filter (\<lambda>pi. \<not> ?here pi) (pr_interface_list r)" by simp
    ultimately have "small_router ?r" using assms(7) unfolding small_router_def e by linarith
    from flood_own[OF l r this, of 0] run True ie t(2) show ?thesis
      by (auto simp: get_iface_def set_router_def set_iface_def)
  next
    case False
    with run r ie t(2) show ?thesis by (auto simp: get_iface_def set_router_def set_iface_def)
  qed
qed

lemma iface_up_result:
  assumes "lock_free RouterList rs" and "lock_free LsuQueue rs" and "get_iface rs i = Some ie" and "\<not> ie_is_active ie" and "ie_nbr_routers ie = []"
    and "get_router_by_rid (router_id rs) (pwospf_router_list rs) = Some r" and "44 + 12 * length (pr_interface_list r) < 65536" and "list_all has_port (rtable rs)"
    and "(ie_ip ie AND ie_mask ie, ie_mask ie, 0) \<notin> link_key ` set (pr_interface_list r)"
  shows "\<exists>rs1 r1. iface_up rs i = Some (0, rs1) \<and> get_iface rs1 i = Some (ie\<lparr>ie_is_active := True\<rparr>) \<and> held rs1 = held rs \<and>
    get_router_by_rid (router_id rs) (pwospf_router_list rs1) = Some r1 \<and>
    map link_key (pr_interface_list r1) = map link_key (pr_interface_list r) @ [(ie_ip ie AND ie_mask ie, ie_mask ie, 0)]"
proof -
  let ?f = "\<lambda>ie. ie\<lparr>ie_is_active := True\<rparr>" and ?g = "\<lambda>ie :: iface_entry. ie\<lparr>ie_nbr_routers := []\<rparr>"
  let ?pi = "\<lparr>pi_subnet = ie_ip ie AND ie_mask ie, pi_mask = ie_mask ie, pi_router_id = 0, pi_is_active = False\<rparr>"
  let ?rs = "set_iface rs i ?f"
  let ?t = "map (\<lambda>entry. if strncmp_eq (rt_iface entry) i (length i) then entry\<lparr>rt_is_active := True\<rparr> else entry) (rtable rs)"
  obtain t w where t: "trigger_rtable_modified (?rs\<lparr>rtable := ?t\<rparr>) = Some (?rs\<lparr>rtable := t, regs := regs rs @ w\<rparr>)" "list_all has_port t"
    using routes_changed[of ?rs ?t] assms(8) by (fastforce simp: set_iface_def)
  let ?rs2 = "set_router (router_id rs) (\<lambda>r. r\<lparr>pr_interface_list := pr_interface_list r @ [?pi]\<rparr>) (set_iface (?rs\<lparr>rtable := t, regs := regs rs @ w\<rparr>) i ?g)"
  let ?r = "r\<lparr>pr_interface_list := pr_interface_list r @ [?pi]\<rparr>"
  have "\<not> is_route_present r ?pi" using assms(9) by (force simp: is_route_present_def link_key_def list_ex_iff)
  then have run: "iface_up rs i = do { rs \<leftarrow> acquire RouterList Wr ?rs2; rs \<leftarrow> propagate_pwospf_changes rs; rs \<leftarrow> release RouterList rs; Some (0, cond_signal LsuBcastCond rs) }"
    unfolding iface_up_def using assms(3-6) t(1)
    by (simp add: activate_routes_def clear_neighbors_def set_iface_def set_router_def Let_def)
  have r: "get_router_by_rid (router_id ?rs2) (pwospf_router_list ?rs2) = Some ?r"
    using assms(6) by (simp add: set_router_def set_iface_def get_router_by_rid_update)
  have "lock_free RouterList ?rs2" "lock_free LsuQueue ?rs2" "small_router ?r"
    using assms(1,2,7) by (simp_all add: set_router_def set_iface_def lock_free_def small_router_def)
  from flood_own[OF this(1,2) r this(3), of 0] run obtain rl q r1 where
    "iface_up rs i = Some (0, ?rs2\<lparr>dijkstra_dirty := 1, signals := signals ?rs2 @ [DijkstraCond, LsuBcastCond],
      pwospf_router_list := rl, pwospf_lsu_queue := pwospf_lsu_queue ?rs2 @ q\<rparr>)"
    "get_router_by_rid (router_id rs) rl = Some r1" "map link_key (pr_interface_list r1) = map link_key (pr_interface_list ?r)"
    by (auto simp: set_router_def set_iface_def)
  moreover have "find (named i) (if_list ?rs2) = Some (ie\<lparr>ie_is_active := True\<rparr>)"
    using get_iface_update[OF assms(3), of "?g \<circ> ?f"] assms(5) by (simp add: set_router_def set_iface_def update_iface_twice)
  ultimately show ?thesis by (auto simp: get_iface_def set_router_def set_iface_def link_key_def)
qed

section \<open>Properties\<close>

text \<open>
  Taking an interface that has no neighbours down and bringing it up again: both calls succeed, the interface is as it was, and the
  router's own entry of the database has lost its links on the subnet of the interface, when it was down, and got back the one link that
  names no router; the locks of the caller are kept. With a neighbour on the interface taking it down faults.
\<close>

theorem iface_down_up:
  assumes "lock_free RouterList rs" and "lock_free LsuQueue rs" and "get_iface rs i = Some ie" and "ie_is_active ie"
    and "get_router_by_rid (router_id rs) (pwospf_router_list rs) = Some r" and "44 + 12 * length (pr_interface_list r) < 65536" and "list_all has_port (rtable rs)"
  shows "if ie_nbr_routers ie \<noteq> [] then iface_down rs i = None
    else \<exists>rs1 rs2 r2. iface_down rs i = Some (0, rs1) \<and> get_iface rs1 i = Some (ie\<lparr>ie_is_active := False\<rparr>) \<and>
      iface_up rs1 i = Some (0, rs2) \<and> get_iface rs2 i = Some ie \<and> held rs2 = held rs \<and>
      get_router_by_rid (router_id rs) (pwospf_router_list rs2) = Some r2 \<and>
      map link_key (pr_interface_list r2) = filter (\<lambda>(s, m, n). s \<noteq> (ie_ip ie AND ie_mask ie)) (map link_key (pr_interface_list r)) @
        [(ie_ip ie AND ie_mask ie, ie_mask ie, 0)]"
proof (cases "ie_nbr_routers ie = []")
  case False
  have "iface_down rs i = None"
    using assms(3,4) False by (simp add: iface_down_def clear_neighbors_def Let_def split: bind_split)
  with False show ?thesis by simp
next
  case True
  let ?il = "filter (\<lambda>pi. pi_subnet pi \<noteq> (ie_ip ie AND ie_mask ie)) (pr_interface_list r)"
  have "small_router r" using assms(6) by (simp add: small_router_def)
  from iface_down_result[OF assms(1-4) True assms(5) this assms(7)] obtain rs1 r1 where
    d: "iface_down rs i = Some (0, rs1)" "get_iface rs1 i = Some (ie\<lparr>ie_is_active := False\<rparr>)" "held rs1 = held rs" "router_id rs1 = router_id rs"
      "list_all has_port (rtable rs1)" "get_router_by_rid (router_id rs1) (pwospf_router_list rs1) = Some r1" "map link_key (pr_interface_list r1) = map link_key ?il"
    by auto
  have "length (pr_interface_list r1) \<le> length (pr_interface_list r)"
    using map_eq_imp_length_eq[OF d(7)] length_filter_le[of _ "pr_interface_list r"] by simp
  then have l: "44 + 12 * length (pr_interface_list r1) < 65536" using assms(6) by simp
  have "(ie_ip ie AND ie_mask ie, ie_mask ie, 0) \<notin> set (map link_key (pr_interface_list r1))" unfolding d(7) by (auto simp: link_key_def)
  then have n: "(ie_ip (ie\<lparr>ie_is_active := False\<rparr>) AND ie_mask (ie\<lparr>ie_is_active := False\<rparr>), ie_mask (ie\<lparr>ie_is_active := False\<rparr>), 0) \<notin>
      link_key ` set (pr_interface_list r1)" by simp
  have "lock_free RouterList rs1" "lock_free LsuQueue rs1" using assms(1,2) d(3) by (simp_all add: lock_free_def)
  from iface_up_result[OF this d(2) _ _ d(6) l d(5) n] True obtain rs2 r2 where
    "iface_up rs1 i = Some (0, rs2)" "get_iface rs2 i = Some (ie\<lparr>ie_is_active := True\<rparr>)" "held rs2 = held rs1"
    "get_router_by_rid (router_id rs1) (pwospf_router_list rs2) = Some r2"
    "map link_key (pr_interface_list r2) = map link_key (pr_interface_list r1) @ [(ie_ip ie AND ie_mask ie, ie_mask ie, 0)]" by auto
  moreover have "ie\<lparr>ie_is_active := True\<rparr> = ie" using assms(4) by (cases ie) simp
  moreover have "map link_key ?il = filter (\<lambda>(s, m, n). s \<noteq> (ie_ip ie AND ie_mask ie)) (map link_key (pr_interface_list r))"
    by (simp add: filter_map comp_def link_key_def)
  ultimately show ?thesis using True d by auto
qed

theorem iface_down_up_witness:
  "\<exists>rs1 rs2. iface_down ((one_link_router 2 1)\<lparr>held := [(RtableLock, Wr), (IfList, Wr)]\<rparr>) ''eth1'' = Some (0, rs1) \<and>
     iface_up rs1 ''eth1'' = Some (0, rs2) \<and> get_iface rs2 ''eth1'' = Some (eth1\<lparr>ie_mask := 0x00FFFFFF, ie_nbr_routers := []\<rparr>)"
proof -
  let ?rs = "(one_link_router 2 1)\<lparr>held := [(RtableLock, Wr), (IfList, Wr)]\<rparr>"
  let ?ie = "eth1\<lparr>ie_mask := 0x00FFFFFF, ie_nbr_routers := []\<rparr>" and ?r = "a_router 1 2 [link_to 0x0A000000 1]"
  have 1: "lock_free RouterList ?rs" "lock_free LsuQueue ?rs" by (simp_all add: lock_free_def)
  have 2: "get_iface ?rs ''eth1'' = Some ?ie" "ie_is_active ?ie"
    "get_router_by_rid (router_id ?rs) (pwospf_router_list ?rs) = Some ?r" by code_simp+
  have 3: "44 + 12 * length (pr_interface_list ?r) < 65536" "list_all has_port (rtable ?rs)" "ie_nbr_routers ?ie = []"
    by (simp_all add: a_router_def one_link_router_def idle_router_def)
  from iface_down_up[OF 1 2 3(1,2)] 3(3) show ?thesis by auto
qed

end
