(* ===== verification/Cli_Handlers.thy ===== *)
theory Cli_Handlers
  imports Hw_Output Iface_Control Icmp
begin

text \<open>
  The command handlers of the command line interface, one for each \<open>cli_*\<close> function that \<open>init_cli\<close> registers
  (in \<^verbatim>\<open>or_rtable.c\<close>, \<^verbatim>\<open>or_arp.c\<close>, \<^verbatim>\<open>or_iface.c\<close>, \<^verbatim>\<open>or_pwospf.c\<close>, \<^verbatim>\<open>or_sping.c\<close>, \<^verbatim>\<open>or_netfpga.c\<close>, \<^verbatim>\<open>or_vns.c\<close>,
  \<^verbatim>\<open>or_ip.c\<close> and \<^verbatim>\<open>or_cli.c\<close>). A handler parses the text of the command, acts on the router and sends texts to the client:
  its result is the router and the list of the texts. What the handlers use of the world outside the router
  is a record: the hardware's registers, the first random number after \<open>srand\<close>, the events of a wait,
  the text of the traffic statistics, and the fields of \<open>struct sr_instance\<close>.
\<close>

record cli_env =
  env_hw :: hardware
  env_rand :: "int \<Rightarrow> u16"
  env_wakes :: "wake list"
  env_stats :: string
  sr_user :: string
  sr_port :: u16
  sr_addr :: u32
  sr_vhost :: string
  sr_lhost :: string
  sr_topo_id :: u16

type_synonym reply = "(router_state \<times> string list) outcome"

definition line :: "string \<Rightarrow> string" where
  "line s = s @ [LF]"

definition bad_arguments :: "router_state \<Rightarrow> reply" where
  "bad_arguments rs = Some (rs, [line ''Failure reading arguments.''])"

section \<open>Routes\<close>

definition cli_show_ip_rtable :: "router_state \<Rightarrow> string \<Rightarrow> reply" where
  "cli_show_ip_rtable rs command = do {
     rs \<leftarrow> acquire RtableLock Rd rs;
     rtable_info \<leftarrow> sprint_rtable rs;
     rs \<leftarrow> release RtableLock rs;
     Some (rs, [rtable_info]) }"

definition cli_ip_route_add :: "router_state \<Rightarrow> string \<Rightarrow> reply" where
  "cli_ip_route_add rs command = do {
     args \<leftarrow> sscanf command ''ip route add %as %as %as %as'';
     (case args of
        [Str dest_str, Str gateway_str, Str mask_str, Str interface] \<Rightarrow>
          (case inet_pton dest_str of
             None \<Rightarrow> Some (rs, [line ''Failure reading destination.''])
           | Some dest \<Rightarrow>
          (case inet_pton gateway_str of
             None \<Rightarrow> Some (rs, [line ''Failure reading gateway.''])
           | Some gateway \<Rightarrow>
          (case inet_pton mask_str of
             None \<Rightarrow> Some (rs, [line ''Failure reading mask.''])
           | Some msk \<Rightarrow> do {
               rs \<leftarrow> acquire RtableLock Wr rs;
               (add_result, rs) \<leftarrow> add_route rs dest gateway msk interface;
               rs \<leftarrow> release RtableLock rs;
               Some (rs, [line (if add_result \<noteq> 0 then ''Failure adding route.'' else ''Successfully added route.'')]) })))
      | _ \<Rightarrow> bad_arguments rs) }"

definition cli_ip_route_del :: "router_state \<Rightarrow> string \<Rightarrow> reply" where
  "cli_ip_route_del rs command = do {
     args \<leftarrow> sscanf command ''ip route del %as %as'';
     (case args of
        [Str dest_str, Str mask_str] \<Rightarrow>
          (case inet_pton dest_str of
             None \<Rightarrow> Some (rs, [line ''Failure reading destination.''])
           | Some dest \<Rightarrow>
          (case inet_pton mask_str of
             None \<Rightarrow> Some (rs, [line ''Failure reading mask.''])
           | Some msk \<Rightarrow> do {
               rs \<leftarrow> acquire RtableLock Wr rs;
               (del_result, rs) \<leftarrow> del_route rs dest msk;
               rs \<leftarrow> release RtableLock rs;
               Some (rs, [snprintf 256 (show_int del_result @
                 line (if del_result \<noteq> 1 then '' routes deleted.'' else '' route deleted.''))]) }))
      | _ \<Rightarrow> bad_arguments rs) }"

definition cli_show_hw_rtable :: "cli_env \<Rightarrow> router_state \<Rightarrow> string \<Rightarrow> reply" where
  "cli_show_hw_rtable env rs command =
     (if is_netfpga rs then do { (info, rs) \<leftarrow> sprint_hw_rtable (env_hw env) rs; Some (rs, [info]) } else Some (rs, []))"

section \<open>ARP\<close>

definition cli_show_ip_arp :: "router_state \<Rightarrow> string \<Rightarrow> reply" where
  "cli_show_ip_arp rs command = do {
     let ttl_info = snprintf 32 (''Arp Cache TTL: '' @ pad_left 5 (show_nat (unat (arp_ttl rs))) @ '' seconds'' @ [LF, LF]);
     rs \<leftarrow> acquire ArpCache Rd rs;
     arp_cache_info \<leftarrow> sprint_arp_cache rs;
     rs \<leftarrow> release ArpCache rs;
     Some (rs, [ttl_info, arp_cache_info]) }"

text \<open>The conversions \<open>%2X\<close> give unsigned numbers, cast to bytes.\<close>

fun mac_args :: "scanned list \<Rightarrow> mac option" where
  "mac_args [Num a, Num b, Num c, Num d, Num e, Num f] =
     Some (Mac (word_of_int a) (word_of_int b) (word_of_int c) (word_of_int d) (word_of_int e) (word_of_int f))"
| "mac_args _ = None"

definition cli_ip_arp_add :: "router_state \<Rightarrow> string \<Rightarrow> reply" where
  "cli_ip_arp_add rs command = do {
     args \<leftarrow> sscanf command ''ip arp add %as %2X:%2X:%2X:%2X:%2X:%2X'';
     (case args of
        Str ip_str # mac_int \<Rightarrow>
          (case mac_args mac_int of
             None \<Rightarrow> bad_arguments rs
           | Some m \<Rightarrow>
          (case inet_pton ip_str of
             None \<Rightarrow> Some (rs, [line ''Failure reading ip.''])
           | Some ip \<Rightarrow> do {
               rs \<leftarrow> acquire ArpCache Wr rs;
               let rs = update_arp_cache rs ip m 1;
               rs \<leftarrow> release ArpCache rs;
               Some (rs, [line ''Successfully added arp cache entry.'']) }))
      | _ \<Rightarrow> bad_arguments rs) }"

definition cli_ip_arp_del :: "router_state \<Rightarrow> string \<Rightarrow> reply" where
  "cli_ip_arp_del rs command = do {
     args \<leftarrow> sscanf command ''ip arp del %as'';
     (case args of
        [Str ip_str] \<Rightarrow>
          (case inet_pton ip_str of
             None \<Rightarrow> Some (rs, [line ''Failure reading ip.''])
           | Some ip \<Rightarrow> do {
               rs \<leftarrow> acquire ArpCache Wr rs;
               let (result, rs) = del_arp_cache rs ip;
               let rs = (if result > 0 then trigger_arp_cache_modified rs else rs);
               rs \<leftarrow> release ArpCache rs;
               Some (rs, [snprintf 256 (show_int result @
                 line (if result \<noteq> 1 then '' arp cache entries deleted.'' else '' arp cache entry deleted.''))]) })
      | _ \<Rightarrow> bad_arguments rs) }"

definition cli_show_hw_arp_cache :: "cli_env \<Rightarrow> router_state \<Rightarrow> string \<Rightarrow> reply" where
  "cli_show_hw_arp_cache env rs command =
     (if is_netfpga rs then do { (info, rs) \<leftarrow> sprint_hw_arp_cache (env_hw env) rs; Some (rs, [info]) } else Some (rs, []))"

definition cli_nuke_arp_cache :: "router_state \<Rightarrow> string \<Rightarrow> reply" where
  "cli_nuke_arp_cache rs command = do {
     rs \<leftarrow> acquire ArpCache Wr rs;
     let rs = rs\<lparr>arp_cache := []\<rparr>;
     let rs = (if is_netfpga rs then trigger_arp_cache_modified rs else rs);
     rs \<leftarrow> release ArpCache rs;
     Some (rs, [line ''SW and HW arp cache info was nuked'']) }"

definition cli_nuke_hw_arp_cache_entry :: "router_state \<Rightarrow> string \<Rightarrow> reply" where
  "cli_nuke_hw_arp_cache_entry rs command =
     (if is_netfpga rs then do {
        args \<leftarrow> sscanf command ''nuke hw arp %ui'';
        (case args of
           [Num row] \<Rightarrow>
             (if row > 32 - 1 then Some (rs, [line ''Specified invalid row''])
              else do {
                let rs = writeReg ARP_TABLE_ENTRY_MAC_HI 0 rs;
                let rs = writeReg ARP_TABLE_ENTRY_MAC_LO 0 rs;
                let rs = writeReg ARP_TABLE_ENTRY_NEXT_HOP_IP 0 rs;
                let rs = writeReg ARP_TABLE_WR_ADDR (word_of_int row) rs;
                Some (rs, [snprintf 80 (''Row '' @ show_int row @ line '' has been nuked'')]) })
         | _ \<Rightarrow> Some (rs, [take (length (line ''Failure reading arguments.'')) (line ''Failure to read arguments.'')])) }
      else Some (rs, []))"

definition cli_hw_arp_cache_misses :: "cli_env \<Rightarrow> router_state \<Rightarrow> string \<Rightarrow> reply" where
  "cli_hw_arp_cache_misses env rs command =
     (if is_netfpga rs
      then Some (rs, [snprintf 80 (''HW ARP CACHE MISSES: '' @ line (show_int (sint (ntohl (readReg (env_hw env) ARP_NUM_MISSES rs)))))])
      else Some (rs, []))"

definition cli_hw_num_pckts_fwd :: "cli_env \<Rightarrow> router_state \<Rightarrow> string \<Rightarrow> reply" where
  "cli_hw_num_pckts_fwd env rs command =
     (if is_netfpga rs
      then Some (rs, [snprintf 80 (''HW NUMBER OF PACKETS FORWARDED: '' @ line (show_int (sint (ntohl (readReg (env_hw env) NUM_PKTS_FORWARDED rs)))))])
      else Some (rs, []))"

definition cli_ip_arp_set_ttl :: "router_state \<Rightarrow> string \<Rightarrow> reply" where
  "cli_ip_arp_set_ttl rs command = do {
     args \<leftarrow> sscanf command ''ip arp set ttl %ui'';
     (case args of
        [Num timeout] \<Rightarrow> do {
          let rs = rs\<lparr>arp_ttl := word_of_int timeout\<rparr>;
          Some (rs, [snprintf 80 (''Arp entry TTL has been set to: '' @ line (show_int (sint (arp_ttl rs))))]) }
      | _ \<Rightarrow> Some (rs, [line ''Syntax error''])) }"


section \<open>Interfaces\<close>

definition cli_show_ip_iface :: "router_state \<Rightarrow> string \<Rightarrow> reply" where
  "cli_show_ip_iface rs command = do {
     rs \<leftarrow> acquire IfList Rd rs;
     if_list_info \<leftarrow> sprint_if_list rs;
     rs \<leftarrow> release IfList rs;
     Some (rs, [if_list_info]) }"

text \<open>
  With two arguments \<open>mask_str\<close> is a null pointer, which \<open>inet_pton\<close> reads when the second argument is an address.
\<close>

definition cli_ip_interface :: "router_state \<Rightarrow> string \<Rightarrow> reply" where
  "cli_ip_interface rs command = do {
     args \<leftarrow> sscanf command ''ip interface %as %as %as'';
     (case args of
        Str name # Str ip_str # rest \<Rightarrow>
          (if strncmp_eq ''up'' ip_str 2 then do {
             rs \<leftarrow> acquire IfList Wr rs;
             rs \<leftarrow> acquire RtableLock Wr rs;
             (retval, rs) \<leftarrow> iface_up rs name;
             rs \<leftarrow> release RtableLock rs;
             rs \<leftarrow> release IfList rs;
             Some (rs, [snprintf 128 (if retval = 0 then ''Successfully brought up '' @ name @ line ''.''
                                      else ''No interface '' @ name @ line '' found.'')]) }
           else if strncmp_eq ''down'' ip_str 4 then do {
             rs \<leftarrow> acquire IfList Wr rs;
             rs \<leftarrow> acquire RtableLock Wr rs;
             (retval, rs) \<leftarrow> iface_down rs name;
             rs \<leftarrow> release RtableLock rs;
             rs \<leftarrow> release IfList rs;
             Some (rs, [snprintf 128 (if retval = 0 then ''Successfully brought down '' @ name @ line ''.''
                                      else ''No interface '' @ name @ line '' found.'')]) }
           else
             (case inet_pton ip_str of
                None \<Rightarrow> Some (rs, [line ''Failure reading ip.''])
              | Some ip \<Rightarrow>
             (case rest of
                [Str mask_str] \<Rightarrow>
                  (case inet_pton mask_str of
                     None \<Rightarrow> Some (rs, [line ''Failure reading mask.''])
                   | Some msk \<Rightarrow> do {
                       rs \<leftarrow> acquire IfList Wr rs;
                       let (retval, rs) = iface_update rs name ip msk;
                       rs \<leftarrow> release IfList rs;
                       Some (rs, [snprintf 128 (if retval \<noteq> 0 then ''Succesfully updated '' @ name @ line ''.''
                                                else line ''No interface updated.'')]) })
              | _ \<Rightarrow> None)))
      | _ \<Rightarrow> Some (rs, [line ''Syntax error.''])) }"

definition cli_show_hw_interface :: "cli_env \<Rightarrow> router_state \<Rightarrow> string \<Rightarrow> reply" where
  "cli_show_hw_interface env rs command =
     (if is_netfpga rs then do { info \<leftarrow> sprint_hw_iface (env_hw env) rs; Some (rs, [info]) } else Some (rs, []))"

text \<open>The port whose name the argument starts with.\<close>

definition named_port :: "string \<Rightarrow> nat option" where
  "named_port iface =
     (if strncmp_eq ''eth0'' iface 4 then Some 0 else if strncmp_eq ''eth1'' iface 4 then Some 1
      else if strncmp_eq ''eth2'' iface 4 then Some 2 else if strncmp_eq ''eth3'' iface 4 then Some 3 else None)"

definition cli_hw_interface_add :: "router_state \<Rightarrow> string \<Rightarrow> reply" where
  "cli_hw_interface_add rs command =
     (if is_netfpga rs then do {
        args \<leftarrow> sscanf command ''hw iface add %as %2X:%2X:%2X:%2X:%2X:%2X'';
        (case args of
           Str iface # mac_int \<Rightarrow>
             (case mac_args mac_int of
                None \<Rightarrow> bad_arguments rs
              | Some m \<Rightarrow>
             (case named_port iface of
                None \<Rightarrow> Some (rs, [line ''Failure reading the interface name.''])
              | Some port \<Rightarrow> Some (write_hw_iface_mac rs port (mac_hi m) (mac_lo m), [line ''Interface added''])))
         | _ \<Rightarrow> bad_arguments rs) }
      else Some (rs, []))"

definition cli_hw_interface_del :: "router_state \<Rightarrow> string \<Rightarrow> reply" where
  "cli_hw_interface_del rs command =
     (if is_netfpga rs then do {
        args \<leftarrow> sscanf command ''hw iface del %as'';
        (case args of
           [Str iface] \<Rightarrow>
             (case named_port iface of
                None \<Rightarrow> Some (rs, [line ''Failure reading the interface name.''])
              | Some port \<Rightarrow> Some (write_hw_iface_mac rs port 0 0, [line ''Interface deleted'']))
         | _ \<Rightarrow> bad_arguments rs) }
      else Some (rs, []))"

definition cli_hw_interface_set :: "router_state \<Rightarrow> string \<Rightarrow> reply" where
  "cli_hw_interface_set rs command =
     (if is_netfpga rs then do {
        args \<leftarrow> sscanf command ''hw iface %as %as'';
        (case args of
           [Str name, Str cmd] \<Rightarrow>
             (case named_port name of
                None \<Rightarrow> Some (rs, [line ''Invalid interface name''])
              | Some queue \<Rightarrow>
                  (if strncmp_eq ''up'' cmd 2
                   then Some (set_hw_iface rs queue 0, [snprintf 80 (''HW interface '' @ name @ line '' was brought up'')])
                   else if strncmp_eq ''down'' cmd 4
                   then Some (set_hw_iface rs queue 3, [snprintf 80 (''HW interface '' @ name @ line '' was brought down'')])
                   else Some (rs, [line ''Invalid command name''])))
         | _ \<Rightarrow> Some (rs, [line ''Syntax error.''])) }
      else Some (rs, []))"

section \<open>PWOSPF\<close>

definition cli_show_pwospf_iface :: "router_state \<Rightarrow> string \<Rightarrow> reply" where
  "cli_show_pwospf_iface rs command = do {
     rs \<leftarrow> acquire IfList Rd rs;
     if_list_info \<leftarrow> sprint_pwospf_if_list rs;
     rs \<leftarrow> release IfList rs;
     Some (rs, [if_list_info]) }"

definition cli_show_pwospf_router_list :: "router_state \<Rightarrow> string \<Rightarrow> reply" where
  "cli_show_pwospf_router_list rs command = do {
     rs \<leftarrow> acquire RouterList Wr rs;
     router_list_info \<leftarrow> sprint_pwospf_router_list rs;
     rs \<leftarrow> release RouterList rs;
     Some (rs, [router_list_info]) }"

definition cli_pwospf_set_aid :: "router_state \<Rightarrow> string \<Rightarrow> reply" where
  "cli_pwospf_set_aid rs command = do {
     args \<leftarrow> sscanf command ''set aid %u'';
     (case args of
        [Num aid] \<Rightarrow> Some (rs\<lparr>area_id := word_of_int aid\<rparr>, [line ''Area id has been set''])
      | _ \<Rightarrow> bad_arguments rs) }"

text \<open>A number that cannot be read is reported, but the interval is set all the same, to 0.\<close>

definition cli_pwospf_set_hello :: "router_state \<Rightarrow> string \<Rightarrow> reply" where
  "cli_pwospf_set_hello rs command = do {
     args \<leftarrow> sscanf command ''set hello interval %u'';
     let (hello_interval, report) = (case args of [Num n] \<Rightarrow> (n, []) | _ \<Rightarrow> (0, [line ''Failure reading arguments.'']));
     Some (rs\<lparr>pwospf_hello_interval := word_of_int hello_interval\<rparr>, report @ [line ''Hello interval has been set'']) }"

definition cli_pwospf_set_lsu_broadcast :: "router_state \<Rightarrow> string \<Rightarrow> reply" where
  "cli_pwospf_set_lsu_broadcast rs command = do {
     args \<leftarrow> sscanf command ''set lsu broadcast %as'';
     (case args of
        [Str value_str] \<Rightarrow>
          (if value_str = ''on'' then Some (rs\<lparr>pwospf_lsu_broadcast := 1\<rparr>, [line ''LSU Broadcasting set to ON.''])
           else if value_str = ''off'' then Some (rs\<lparr>pwospf_lsu_broadcast := 0\<rparr>, [line ''LSU Broadcasting set to OFF.''])
           else bad_arguments rs)
      | _ \<Rightarrow> bad_arguments rs) }"

definition cli_pwospf_set_lsu_interval :: "router_state \<Rightarrow> string \<Rightarrow> reply" where
  "cli_pwospf_set_lsu_interval rs command = do {
     args \<leftarrow> sscanf command ''set lsu interval %u'';
     let (lsu_interval, report) = (case args of [Num n] \<Rightarrow> (n, []) | _ \<Rightarrow> (0, [line ''Failure reading arguments.'']));
     Some (rs\<lparr>pwospf_lsu_interval := word_of_int lsu_interval\<rparr>, report @ [line ''LSU Interval set.'']) }"

definition cli_show_pwospf_info :: "router_state \<Rightarrow> string \<Rightarrow> reply" where
  "cli_show_pwospf_info rs command = do {
     let buf = ''Area ID: '' @ line (show_nat (unat (area_id rs))) @
               ''Hello Interval: '' @ line (show_nat (unat (pwospf_hello_interval rs))) @
               ''LSU Interval: '' @ line (show_nat (unat (pwospf_lsu_interval rs))) @ [LF];
     rs \<leftarrow> acquire RouterList Wr rs;
     router_info \<leftarrow> sprint_pwospf_router_list rs;
     rs \<leftarrow> release RouterList rs;
     rs \<leftarrow> acquire IfList Rd rs;
     iface_info \<leftarrow> sprint_pwospf_if_list rs;
     rs \<leftarrow> release IfList rs;
     Some (rs, [line ''PWOSPF INFORMATION:'', buf, router_info, [LF, LF], iface_info]) }"

definition cli_pwospf_send_hello :: "router_state \<Rightarrow> string \<Rightarrow> reply" where
  "cli_pwospf_send_hello rs command = do {
     rs \<leftarrow> acquire IfList Wr rs;
     rs \<leftarrow> broadcast_pwospf_hello_packet rs;
     rs \<leftarrow> release IfList rs;
     Some (rs, [line ''Hello packet sent on each interface'']) }"

definition cli_pwospf_send_lsu :: "router_state \<Rightarrow> string \<Rightarrow> reply" where
  "cli_pwospf_send_lsu rs command = do {
     rs \<leftarrow> acquire RouterList Wr rs;
     rs \<leftarrow> start_lsu_bcast_flood rs;
     rs \<leftarrow> release RouterList rs;
     let rs = cond_signal LsuBcastCond rs;
     Some (rs, [line ''LSU packet sent on each interface (up or down)'']) }"

section \<open>Ping\<close>

text \<open>
  The destination is looked for after the six characters of \<open>sping \<close>. The command has its zero at its end,
  so for the command \<open>sping\<close> alone that is past the end of its block.
\<close>

definition cli_sping :: "cli_env \<Rightarrow> router_state \<Rightarrow> string \<Rightarrow> reply" where
  "cli_sping env rs command = do {
     dst_str \<leftarrow> (if 6 \<le> length command then Some (drop 6 command) else None);
     (case inet_pton dst_str of
        None \<Rightarrow> Some (rs, [line ''syntax error : destination ip''])
      | Some dst \<Rightarrow>
          (if iface_match_ip rs dst then Some (rs, [line ''That is one of our interfaces!''])
           else do {
             let ident = env_rand env (clock rs);
             (r, rs) \<leftarrow> send_icmp_echo_request_packet rs dst ident;
             (if r \<noteq> 0 then Some (rs, [line ''error : failed to send ICMP echo request packet''])
              else do {
                (r, rs) \<leftarrow> wait_for_reply (env_wakes env) rs ident;
                Some (rs, [if r \<noteq> 0 then ''no reply from : '' else ''GOT reply from : '', dst_str, [LF]]) }) })) }"

section \<open>Hardware information\<close>

definition sprint_hw_drops :: "hardware \<Rightarrow> router_state \<Rightarrow> string outcome" where
  "sprint_hw_drops hw rs =
     (if is_netfpga rs then
        COPY_STRING (1 * 80 + 1)
          (let column = (\<lambda>i. pad_left 4 ([''eth0'', ''eth1'', ''eth2'', ''eth3''] ! i) @ '' '' @
                  pad_left 10 (show_nat (unat (readReg hw (RX_QUEUE_NUM_PKTS_DROPPED_FULL i) rs + readReg hw (RX_QUEUE_NUM_PKTS_DROPPED_BAD i) rs))))
           in snprintf 80 (column 0 @ '' '' @ column 1 @ '' '' @ column 2 @ '' '' @ column 3 @ [LF])) []
      else Some [])"

definition oq_drops_line :: "hardware \<Rightarrow> router_state \<Rightarrow> nat \<Rightarrow> string" where
  "oq_drops_line hw rs k =
     (let column = (\<lambda>i. pad_left 4 ([''Q0'', ''Q1'', ''Q2'', ''Q3'', ''Q4'', ''Q5'', ''Q6'', ''Q7''] ! i) @ '' '' @
            pad_left 10 (show_nat (unat (readReg hw (OQ_NUM_PKTS_DROPPED i) rs))))
      in snprintf 80 (column k @ '' '' @ column (k + 1) @ '' '' @ column (k + 2) @ '' '' @ column (k + 3) @ [LF]))"

definition sprint_hw_oq_drops :: "hardware \<Rightarrow> router_state \<Rightarrow> string outcome" where
  "sprint_hw_oq_drops hw rs =
     (if is_netfpga rs then do {
        buf \<leftarrow> COPY_STRING (2 * 80 + 1) (oq_drops_line hw rs 0) [];
        COPY_STRING (2 * 80 + 1) (oq_drops_line hw rs 4) buf }
      else Some [])"

text \<open>\<open>sprint_hw_stats\<close> prints floating point averages; its text is part of the environment.\<close>

definition cli_hw_info :: "cli_env \<Rightarrow> router_state \<Rightarrow> string \<Rightarrow> reply" where
  "cli_hw_info env rs command =
     (if is_netfpga rs then do {
        drops \<leftarrow> sprint_hw_drops (env_hw env) rs;
        oq_drops \<leftarrow> sprint_hw_oq_drops (env_hw env) rs;
        ifaces \<leftarrow> sprint_hw_iface (env_hw env) rs;
        (filters, rs) \<leftarrow> sprint_hw_local_ip_filter (env_hw env) rs;
        (routes, rs) \<leftarrow> sprint_hw_rtable (env_hw env) rs;
        (arps, rs) \<leftarrow> sprint_hw_arp_cache (env_hw env) rs;
        Some (rs, [line ''HW STATS'', env_stats env, LF # line ''HW DROPS'', drops, oq_drops,
          LF # line ''HW IFACE INFO'', ifaces, LF # line ''HW IP FILTERS INFO'', filters,
          LF # line ''HW RTABLE INFO'', routes, LF # line ''HW ARP CACHE INFO'', arps,
          snprintf 80 (LF # ''HW ARP CACHE MISSES: '' @ line (show_int (sint (readReg (env_hw env) ARP_NUM_MISSES rs)))),
          snprintf 80 (''HW NUMBER OF PACKETS FORWARDED: '' @ line (show_int (sint (readReg (env_hw env) NUM_PKTS_FORWARDED rs))))]) }
      else Some (rs, []))"

section \<open>The VNS instance\<close>

definition vns_server :: "cli_env \<Rightarrow> string" where
  "vns_server env = ''AF_INET'' @ [TAB, TAB] @ ''Port: '' @ show_nat (unat (htons (sr_port env))) @ [TAB] @ ''IP: '' @ inet_ntop (sr_addr env)"

definition cli_show_vns :: "cli_env \<Rightarrow> router_state \<Rightarrow> string \<Rightarrow> reply" where
  "cli_show_vns env rs command =
     Some (rs, [''VNS Values:'', [LF, TAB] @ ''User:'' @ [TAB, TAB], sr_user env, [LF, TAB] @ ''Server:'' @ [TAB, TAB], vns_server env,
       [LF, TAB] @ ''Vhost:'' @ [TAB, TAB], sr_vhost env, [LF, TAB] @ ''Lhost:'' @ [TAB, TAB], sr_lhost env,
       [LF, TAB] @ ''Topology: '' @ [TAB] @ line (show_nat (unat (sr_topo_id env)))])"

definition cli_show_vns_user :: "cli_env \<Rightarrow> router_state \<Rightarrow> string \<Rightarrow> reply" where
  "cli_show_vns_user env rs command = Some (rs, [''User:'' @ [TAB, TAB], sr_user env, [LF]])"

definition cli_show_vns_server :: "cli_env \<Rightarrow> router_state \<Rightarrow> string \<Rightarrow> reply" where
  "cli_show_vns_server env rs command = Some (rs, [''Server:'' @ [TAB, TAB], line (vns_server env)])"

definition cli_show_vns_vhost :: "cli_env \<Rightarrow> router_state \<Rightarrow> string \<Rightarrow> reply" where
  "cli_show_vns_vhost env rs command = Some (rs, [''Vhost:'' @ [TAB, TAB], sr_vhost env, [LF]])"

definition cli_show_vns_lhost :: "cli_env \<Rightarrow> router_state \<Rightarrow> string \<Rightarrow> reply" where
  "cli_show_vns_lhost env rs command = Some (rs, [''Lhost:'' @ [TAB, TAB], sr_lhost env, [LF]])"

definition cli_show_vns_topology :: "cli_env \<Rightarrow> router_state \<Rightarrow> string \<Rightarrow> reply" where
  "cli_show_vns_topology env rs command = Some (rs, [''Topology: '' @ [TAB] @ line (show_nat (unat (sr_topo_id env)))])"

section \<open>Help\<close>

text \<open>The usage texts, sent line by line.\<close>

definition cli_help :: "router_state \<Rightarrow> string \<Rightarrow> reply" where
  "cli_help rs command =
     Some (rs, [line ''usage: <args>'',
       line ([TAB] @ ''show vns [user server vhost lhost topology]''),
       line ([TAB] @ ''show ip [route interface arp]''),
       line ([TAB] @ ''ip [route interface arp]''),
       line ([TAB] @ ''sping [dest]''),
       line ([TAB] @ ''show pwopsf [iface router info]''),
       line ([TAB] @ ''set aid [area id]''),
       line ([TAB] @ ''set hello interval [interval]''),
       line ([TAB] @ ''set lsu broadcast [on off]''),
       line ([TAB] @ ''set lsu interval [interval]''),
       line ([TAB] @ ''send hello''),
       line ([TAB] @ ''send lsu''),
       line ([TAB] @ ''show hw rtable''),
       line ([TAB] @ ''show hw arp''),
       line ([TAB] @ ''show hw iface''),
       line ([TAB] @ ''hw iface add [eth0 eth1 eth2 eth3] [mac adress]''),
       line ([TAB] @ ''hw iface del [eth0 eth1 eth2 eth3]''),
       line ([TAB] @ ''nuke arp''),
       line ([TAB] @ ''nuke hw arp [row]''),
       line ([TAB] @ ''hw iface [eth0 eth1 eth2 eth3] up''),
       line ([TAB] @ ''hw iface [eth0 eth1 eth2 eth3] down''),
       line ([TAB] @ ''hw packts fwd'')])"

definition cli_show_help :: "router_state \<Rightarrow> string \<Rightarrow> reply" where
  "cli_show_help rs command =
     Some (rs, [line ''usage: show <args>'',
       line ''show vns [user server vhost lhost topology]'',
       line ''show ip [route interface arp]''])"

definition cli_hw_help :: "router_state \<Rightarrow> string \<Rightarrow> reply" where
  "cli_hw_help rs command =
     Some (rs, [line ([TAB] @ ''show hw rtable''),
       line ([TAB] @ ''show hw arp''),
       line ([TAB] @ ''show hw iface''),
       line ([TAB] @ ''nuke arp''),
       line ([TAB] @ ''nuke hw arp [row]''),
       line ([TAB] @ ''hw iface add [eth0 eth1 eth2 eth3] [mac addr]''),
       line ([TAB] @ ''hw iface del [eth0 eth1 eth2 eth3]''),
       line ([TAB] @ ''hw iface [eth0 eth1 eth2 eth3] up''),
       line ([TAB] @ ''hw iface [eth0 eth1 eth2 eth3] down''),
       line ([TAB] @ ''hw packts fwd'')])"

definition cli_show_vns_help :: "router_state \<Rightarrow> string \<Rightarrow> reply" where
  "cli_show_vns_help rs command =
     Some (rs, [line ''usage: show vns [user server vhost lhost topology]''])"

definition cli_show_vns_user_help :: "router_state \<Rightarrow> string \<Rightarrow> reply" where
  "cli_show_vns_user_help rs command =
     Some (rs, [line ''Usage: show vns user''])"

definition cli_show_vns_lhost_help :: "router_state \<Rightarrow> string \<Rightarrow> reply" where
  "cli_show_vns_lhost_help rs command =
     Some (rs, [line ''Usage: show vns lhost''])"

definition cli_show_vns_vhost_help :: "router_state \<Rightarrow> string \<Rightarrow> reply" where
  "cli_show_vns_vhost_help rs command =
     Some (rs, [line ''Usage: show vns vhost''])"

definition cli_show_vns_server_help :: "router_state \<Rightarrow> string \<Rightarrow> reply" where
  "cli_show_vns_server_help rs command =
     Some (rs, [line ''Usage: show vns server''])"

definition cli_show_vns_topology_help :: "router_state \<Rightarrow> string \<Rightarrow> reply" where
  "cli_show_vns_topology_help rs command =
     Some (rs, [line ''Usage: show vns topology''])"

definition cli_show_ip_help :: "router_state \<Rightarrow> string \<Rightarrow> reply" where
  "cli_show_ip_help rs command =
     Some (rs, [line ''usage: show ip [route interface arp]''])"

definition cli_show_ip_arp_help :: "router_state \<Rightarrow> string \<Rightarrow> reply" where
  "cli_show_ip_arp_help rs command =
     Some (rs, [line ''usage: show ip arp''])"

definition cli_show_ip_iface_help :: "router_state \<Rightarrow> string \<Rightarrow> reply" where
  "cli_show_ip_iface_help rs command =
     Some (rs, [line ''usage: show ip interface''])"

definition cli_show_ip_rtable_help :: "router_state \<Rightarrow> string \<Rightarrow> reply" where
  "cli_show_ip_rtable_help rs command =
     Some (rs, [line ''usage: show ip route''])"

definition cli_ip_help :: "router_state \<Rightarrow> string \<Rightarrow> reply" where
  "cli_ip_help rs command =
     Some (rs, [line ''usage: ip <args>'',
       line ''ip [route interface arp]''])"

definition cli_ip_route_help :: "router_state \<Rightarrow> string \<Rightarrow> reply" where
  "cli_ip_route_help rs command =
     Some (rs, [line ''usage: ip route <args>'',
       line ''ip route add dest gateway mask interface'',
       line ''ip route del dest mask''])"

definition cli_ip_route_add_help :: "router_state \<Rightarrow> string \<Rightarrow> reply" where
  "cli_ip_route_add_help rs command =
     Some (rs, [line ''usage: ip route add dest gateway mask interface''])"

definition cli_ip_route_del_help :: "router_state \<Rightarrow> string \<Rightarrow> reply" where
  "cli_ip_route_del_help rs command =
     Some (rs, [line ''usage: ip route del dest mask''])"

definition cli_ip_interface_help :: "router_state \<Rightarrow> string \<Rightarrow> reply" where
  "cli_ip_interface_help rs command =
     Some (rs, [line ''usage: ip iterface <args>'',
       line ''ip interface name ip mask'',
       line ''ip interface name up'',
       line ''ip interface name down''])"

definition cli_ip_arp_help :: "router_state \<Rightarrow> string \<Rightarrow> reply" where
  "cli_ip_arp_help rs command =
     Some (rs, [line ''usage: ip arp <args>'',
       line ''ip arp add ip MAC'',
       line ''ip arp del ip''])"

definition cli_ip_arp_add_help :: "router_state \<Rightarrow> string \<Rightarrow> reply" where
  "cli_ip_arp_add_help rs command =
     Some (rs, [line ''usage ip arp add ip MAC''])"

definition cli_ip_arp_del_help :: "router_state \<Rightarrow> string \<Rightarrow> reply" where
  "cli_ip_arp_del_help rs command =
     Some (rs, [line ''usage ip arp del ip''])"

definition cli_sping_help :: "router_state \<Rightarrow> string \<Rightarrow> reply" where
  "cli_sping_help rs command =
     Some (rs, [line ''usage: sping [address]''])"

definition cli_pwospf_help :: "router_state \<Rightarrow> string \<Rightarrow> reply" where
  "cli_pwospf_help rs command =
     Some (rs, [line ''pwospf usage: '',
       line ([TAB] @ ''show pwospf interface''),
       line ([TAB] @ ''show pwospf router''),
       line ([TAB] @ ''set aid [value]''),
       line ([TAB] @ ''set hello interval [value]''),
       line ([TAB] @ ''set lsu broadcast [on/off]''),
       line ([TAB] @ ''set lsu interval [value]''),
       line ([TAB] @ ''send hello''),
       line ([TAB] @ ''send lsu'')])"

definition cli_show_pwospf_iface_help :: "router_state \<Rightarrow> string \<Rightarrow> reply" where
  "cli_show_pwospf_iface_help rs command =
     Some (rs, [line ''usage: show pwospf interface''])"

definition cli_pwospf_set_aid_help :: "router_state \<Rightarrow> string \<Rightarrow> reply" where
  "cli_pwospf_set_aid_help rs command =
     Some (rs, [line ''usage: aid set [number]''])"

end
