(* ===== verification/Cli.thy ===== *)
theory Cli
  imports Cli_Handlers Filters
begin

text \<open>
  The command line interface (\<^verbatim>\<open>or_cli.c\<close>, \<open>init_cli\<close> of \<^verbatim>\<open>or_main.c\<close>, \<open>register_cli_command\<close> of
  \<^verbatim>\<open>or_utils.c\<close>): the table of commands, the choice of the handler by the longest registered prefix of the text, and
  the session of a client.
\<close>

section \<open>The table of commands\<close>

type_synonym cli_command_handler = "cli_env \<Rightarrow> router_state \<Rightarrow> string \<Rightarrow> reply"

record cli_entry =
  ce_command :: string
  ce_handler :: cli_command_handler

definition create_cli_entry :: "string \<Rightarrow> cli_command_handler \<Rightarrow> cli_entry" where
  "create_cli_entry command handler = \<lparr>ce_command = command, ce_handler = handler\<rparr>"

definition register_cli_command :: "cli_entry list \<Rightarrow> string \<Rightarrow> cli_command_handler \<Rightarrow> cli_entry list" where
  "register_cli_command head command handler = head @ [create_cli_entry command handler]"

definition cli_registrations :: "(string \<times> cli_command_handler) list" where
  "cli_registrations =
     [(''help'', \<lambda>_. cli_help),
      (''?'', \<lambda>_. cli_help),
      (''show ?'', \<lambda>_. cli_show_help),
      (''show vns ?'', \<lambda>_. cli_show_vns_help),
      (''show vns'', cli_show_vns),
      (''show vns user'', cli_show_vns_user),
      (''show vns user ?'', \<lambda>_. cli_show_vns_user_help),
      (''show vns lhost'', cli_show_vns_lhost),
      (''show vns lhost ?'', \<lambda>_. cli_show_vns_lhost_help),
      (''show vns vhost'', cli_show_vns_vhost),
      (''show vns vhost ?'', \<lambda>_. cli_show_vns_vhost_help),
      (''show vns server'', cli_show_vns_server),
      (''show vns server ?'', \<lambda>_. cli_show_vns_server_help),
      (''show vns topology'', cli_show_vns_topology),
      (''show vns topology ?'', \<lambda>_. cli_show_vns_topology_help),
      (''show ip'', \<lambda>_. cli_show_ip_help),
      (''show ip ?'', \<lambda>_. cli_show_ip_help),
      (''show ip arp'', \<lambda>_. cli_show_ip_arp),
      (''show ip arp ?'', \<lambda>_. cli_show_ip_arp_help),
      (''show ip interface'', \<lambda>_. cli_show_ip_iface),
      (''show ip interface ?'', \<lambda>_. cli_show_ip_iface_help),
      (''show ip route'', \<lambda>_. cli_show_ip_rtable),
      (''show ip route ?'', \<lambda>_. cli_show_ip_rtable_help),
      (''ip ?'', \<lambda>_. cli_ip_help),
      (''ip route ?'', \<lambda>_. cli_ip_route_help),
      (''ip route add'', \<lambda>_. cli_ip_route_add),
      (''ip route add ?'', \<lambda>_. cli_ip_route_add_help),
      (''ip route del'', \<lambda>_. cli_ip_route_del),
      (''ip route del ?'', \<lambda>_. cli_ip_route_del_help),
      (''ip interface ?'', \<lambda>_. cli_ip_interface_help),
      (''ip interface'', \<lambda>_. cli_ip_interface),
      (''ip arp ?'', \<lambda>_. cli_ip_arp_help),
      (''ip arp add'', \<lambda>_. cli_ip_arp_add),
      (''ip arp add ?'', \<lambda>_. cli_ip_arp_add_help),
      (''ip arp del'', \<lambda>_. cli_ip_arp_del),
      (''ip arp del ?'', \<lambda>_. cli_ip_arp_del_help),
      (''ip arp set ttl'', \<lambda>_. cli_ip_arp_set_ttl),
      (''sping'', cli_sping),
      (''sping ?'', \<lambda>_. cli_sping_help),
      (''pwospf ?'', \<lambda>_. cli_pwospf_help),
      (''show pwospf iface'', \<lambda>_. cli_show_pwospf_iface),
      (''show pwospf iface ?'', \<lambda>_. cli_show_pwospf_iface_help),
      (''show pwospf router'', \<lambda>_. cli_show_pwospf_router_list),
      (''show pwospf info'', \<lambda>_. cli_show_pwospf_info),
      (''set aid'', \<lambda>_. cli_pwospf_set_aid),
      (''set aid ?'', \<lambda>_. cli_pwospf_set_aid_help),
      (''set hello interval'', \<lambda>_. cli_pwospf_set_hello),
      (''set lsu broadcast'', \<lambda>_. cli_pwospf_set_lsu_broadcast),
      (''set lsu interval'', \<lambda>_. cli_pwospf_set_lsu_interval),
      (''send hello'', \<lambda>_. cli_pwospf_send_hello),
      (''send lsu'', \<lambda>_. cli_pwospf_send_lsu),
      (''hw info'', cli_hw_info),
      (''hw ?'', \<lambda>_. cli_hw_help),
      (''show hw rtable'', cli_show_hw_rtable),
      (''show hw arp'', cli_show_hw_arp_cache),
      (''nuke arp'', \<lambda>_. cli_nuke_arp_cache),
      (''nuke hw arp'', \<lambda>_. cli_nuke_hw_arp_cache_entry),
      (''show hw iface'', cli_show_hw_interface),
      (''hw iface add'', \<lambda>_. cli_hw_interface_add),
      (''hw iface del'', \<lambda>_. cli_hw_interface_del),
      (''hw iface'', \<lambda>_. cli_hw_interface_set),
      (''hw arp miss'', cli_hw_arp_cache_misses),
      (''hw pckts fwd'', cli_hw_num_pckts_fwd)]"

definition cli_swap :: "(string \<Rightarrow> string \<Rightarrow> int) \<Rightarrow> cli_entry \<Rightarrow> cli_entry \<Rightarrow> bool" where
  "cli_swap cmp a b \<longleftrightarrow> cmp (ce_command a) (ce_command b) = 1"

definition init_cli :: "(string \<Rightarrow> string \<Rightarrow> int) \<Rightarrow> router_state \<Rightarrow> (cli_entry list \<times> router_state) outcome" where
  "init_cli cmp rs = do {
     rs \<leftarrow> acquire CliCommands Wr rs;
     let cli_commands = fold (\<lambda>(command, handler) cs. register_cli_command cs command handler) cli_registrations [];
     cli_commands \<leftarrow> bubble_sort (cli_swap cmp) cli_commands;
     rs \<leftarrow> release CliCommands rs;
     Some (cli_commands, rs) }"

section \<open>Dispatch\<close>

fun lpm_commands :: "string \<Rightarrow> cli_entry list \<Rightarrow> nat \<Rightarrow> cli_entry option \<Rightarrow> cli_entry option" where
  "lpm_commands command [] longest_match longest_match_entry = longest_match_entry"
| "lpm_commands command (ce # n) longest_match longest_match_entry =
     (let entry_len = length (ce_command ce) in
      if entry_len > longest_match \<and> length command \<ge> entry_len \<and> strncmp_eq command (ce_command ce) entry_len
      then lpm_commands command n entry_len (Some ce)
      else lpm_commands command n longest_match longest_match_entry)"

definition cli_command_lpm :: "cli_entry list \<Rightarrow> string \<Rightarrow> cli_command_handler option" where
  "cli_command_lpm cli_commands command = map_option ce_handler (lpm_commands command cli_commands 0 None)"

section \<open>The session of a client\<close>

abbreviation (input) MAX_COMMAND_SIZE :: nat where "MAX_COMMAND_SIZE \<equiv> 128"

text \<open>
  What \<open>recv\<close> returns: a part of the text of the client, 0 after the client has closed the connection, or an error. The buffer is
  not cleared between commands. The session is open when the list of events is used up.
\<close>

datatype recv = Received string | Closed | Failed

datatype session = Open | Ended

definition prompt :: string where
  "prompt = ''> '' @ [NUL]"

definition run_command :: "cli_entry list \<Rightarrow> cli_env \<Rightarrow> router_state \<Rightarrow> string \<Rightarrow> reply" where
  "run_command cli_commands env rs command =
     (case cli_command_lpm cli_commands command of
        None \<Rightarrow> Some (rs, [line ''invalid command ... type ? or help for valid command help''])
      | Some handler \<Rightarrow> handler env rs command)"

fun client_loop ::
    "cli_entry list \<Rightarrow> cli_env \<Rightarrow> recv list \<Rightarrow> string \<Rightarrow> router_state \<Rightarrow> string list \<Rightarrow> (session \<times> router_state \<times> string list) outcome" where
  "client_loop cs env [] buf rs out = Some (Open, rs, out)"
| "client_loop cs env (Closed # es) buf rs out = client_loop cs env es buf rs out"
| "client_loop cs env (Failed # es) buf rs out = Some (Ended, rs, out)"
| "client_loop cs env (Received text # es) buf rs out = do {
     let data = take MAX_COMMAND_SIZE text;
     buf \<leftarrow> cleanCRLFs (data @ drop (length data) buf);
     command \<leftarrow> cstring buf;
     if strncmp_eq command ''exit'' (length ''exit'') then Some (Ended, rs, out @ [line ''bye!''])
     else do {
       (rs, texts) \<leftarrow> run_command cs env rs command;
       client_loop cs env es buf rs (out @ texts @ [prompt]) } }"

definition process_client_request ::
    "cli_entry list \<Rightarrow> cli_env \<Rightarrow> recv list \<Rightarrow> router_state \<Rightarrow> (session \<times> router_state \<times> string list) outcome" where
  "process_client_request cs env es rs = client_loop cs env es (replicate MAX_COMMAND_SIZE NUL) rs [prompt]"

section \<open>The longest prefix\<close>

definition starts_with :: "string \<Rightarrow> cli_entry \<Rightarrow> bool" where
  "starts_with command ce \<longleftrightarrow> take (length (ce_command ce)) command = ce_command ce"

lemma starts_with_test:
  "starts_with command ce \<longleftrightarrow> length command \<ge> length (ce_command ce) \<and> strncmp_eq command (ce_command ce) (length (ce_command ce))"
  by (auto simp: starts_with_def strncmp_eq_def) (metis length_take min.cobounded2 nat_le_linear take_all)

text \<open>The entry that the walk ends with: a registered prefix of the text that no other one is longer than.\<close>

definition longest_prefix :: "string \<Rightarrow> cli_entry list \<Rightarrow> cli_entry \<Rightarrow> bool" where
  "longest_prefix command cs ce \<longleftrightarrow>
     ce \<in> set cs \<and> ce_command ce \<noteq> [] \<and> starts_with command ce \<and>
     (\<forall>c \<in> set cs. starts_with command c \<longrightarrow> length (ce_command c) \<le> length (ce_command ce))"

lemma lpm_commands_Some:
  "lpm_commands command cs k b = Some ce \<Longrightarrow>
   (b = Some ce \<and> (\<forall>c \<in> set cs. starts_with command c \<longrightarrow> length (ce_command c) \<le> k)) \<or>
   (ce \<in> set cs \<and> starts_with command ce \<and> k < length (ce_command ce) \<and>
    (\<forall>c \<in> set cs. starts_with command c \<longrightarrow> length (ce_command c) \<le> length (ce_command ce)))"
proof (induction cs arbitrary: k b)
  case (Cons c cs)
  show ?case
  proof (cases "k < length (ce_command c) \<and> starts_with command c")
    case True
    then have "lpm_commands command cs (length (ce_command c)) (Some c) = Some ce"
      using Cons.prems by (simp add: starts_with_test Let_def)
    from Cons.IH[OF this] True show ?thesis by auto
  next
    case False
    then have "lpm_commands command cs k b = Some ce"
      using Cons.prems by (auto simp: starts_with_test Let_def split: if_splits)
    from Cons.IH[OF this] False show ?thesis by (auto simp: not_less)
  qed
qed simp

lemma lpm_commands_None:
  "lpm_commands command cs k b = None \<longleftrightarrow> b = None \<and> (\<forall>c \<in> set cs. starts_with command c \<longrightarrow> length (ce_command c) \<le> k)"
proof (induction cs arbitrary: k b)
  case (Cons c cs)
  then show ?case by (auto simp: starts_with_test Let_def not_less)
qed simp

lemma cli_lpm_Some: "lpm_commands command cs 0 None = Some ce \<Longrightarrow> longest_prefix command cs ce"
  using lpm_commands_Some[of command cs 0 None ce] by (auto simp: longest_prefix_def)

lemma longest_prefix_unique:
  assumes "distinct (map ce_command cs)" and "longest_prefix command cs a" and "longest_prefix command cs b"
  shows "a = b"
proof -
  have "length (ce_command a) = length (ce_command b)"
    using assms(2,3) by (auto simp: longest_prefix_def intro!: antisym)
  then have "ce_command a = ce_command b" using assms(2,3) by (auto simp: longest_prefix_def starts_with_def)
  with assms show ?thesis by (auto simp: longest_prefix_def distinct_map dest: inj_onD)
qed

lemma cli_lpm_iff:
  assumes "distinct (map ce_command cs)"
  shows "lpm_commands command cs 0 None = Some ce \<longleftrightarrow> longest_prefix command cs ce"
proof
  assume ce: "longest_prefix command cs ce"
  then have "lpm_commands command cs 0 None \<noteq> None" by (auto simp: lpm_commands_None longest_prefix_def)
  then obtain d where d: "lpm_commands command cs 0 None = Some d" by blast
  with longest_prefix_unique[OF assms cli_lpm_Some[OF d] ce] show "lpm_commands command cs 0 None = Some ce" by simp
qed (rule cli_lpm_Some)

text \<open>The order of the table does not matter.\<close>

lemma cli_lpm_mset:
  assumes "distinct (map ce_command cs)" and "mset ds = mset cs"
  shows "cli_command_lpm ds command = cli_command_lpm cs command"
proof -
  have "distinct (map ce_command ds)" using assms by (metis mset_map mset_eq_imp_distinct_iff)
  moreover have "longest_prefix command ds = longest_prefix command cs"
    using assms(2) by (auto simp: longest_prefix_def fun_eq_iff dest: mset_eq_setD)
  ultimately have "lpm_commands command ds 0 None = lpm_commands command cs 0 None"
    using cli_lpm_iff[OF assms(1)] cli_lpm_iff by (metis option.exhaust)
  then show ?thesis by (simp add: cli_command_lpm_def)
qed


section \<open>The registered commands\<close>

definition registered :: "cli_entry list" where
  "registered = map (\<lambda>(command, handler). create_cli_entry command handler) cli_registrations"

lemma register_all:
  "fold (\<lambda>(command, handler) cs. register_cli_command cs command handler) rs cs = cs @ map (\<lambda>(command, handler). create_cli_entry command handler) rs"
  by (induction rs arbitrary: cs) (auto simp: register_cli_command_def)

lemma registered_distinct: "distinct (map ce_command registered)"
proof -
  have "map ce_command registered = map fst cli_registrations"
    by (simp add: registered_def create_cli_entry_def split_beta)
  moreover have "distinct (map fst cli_registrations)" by code_simp
  ultimately show ?thesis by simp
qed

lemma init_cli_table:
  assumes "c_strcmp cmp" and "lock_free CliCommands rs"
  shows "\<exists>cs. init_cli cmp rs = Some (cs, rs) \<and> mset cs = mset registered"
proof -
  have "swap_test (cli_swap cmp)" by unfold_locales (auto simp: cli_swap_def dest: c_strcmp.one_asym[OF assms(1)])
  from swap_test.sort_returns[OF this] obtain cs where "bubble_sort (cli_swap cmp) registered = Some cs" "mset cs = mset registered"
    by blast
  then show ?thesis
    using acquire_free[OF assms(2)] by (simp add: init_cli_def register_all release_head flip: registered_def)
qed

text \<open>The table that any \<open>init_cli\<close> leaves dispatches like the list of the registrations.\<close>

lemma init_cli_dispatch:
  assumes "c_strcmp cmp" and "init_cli cmp rs = Some (cs, rs')" and "lock_free CliCommands rs"
  shows "cli_command_lpm cs = cli_command_lpm registered"
  using init_cli_table[OF assms(1,3)] assms(2) cli_lpm_mset[OF registered_distinct] by auto

lemma inet_ntop_no_NUL: "NUL \<notin> set (inet_ntop a)"
  by (auto simp: inet_ntop_def dest: show_nat_digits digit_not_special(5))

lemma inet_ntop_hd: "hd (inet_ntop a) \<noteq> CHR ''?''"
proof -
  have "hd (inet_ntop a) = hd (show_nat (unat (byteN 0 a)))" by (simp add: inet_ntop_def)
  moreover have "is_digit 10 (hd (show_nat (unat (byteN 0 a))))" by (rule show_nat_digits[OF list.set_sel(1)]) simp
  ultimately show ?thesis by (auto simp: is_digit_def digit_value_def)
qed

lemma dispatch_route_add:
  "take 1 is \<noteq> ''?'' \<Longrightarrow> cli_command_lpm registered (''ip route add '' @ is) = Some (\<lambda>_. cli_ip_route_add)"
  by (simp add: cli_command_lpm_def registered_def cli_registrations_def create_cli_entry_def strncmp_eq_def Let_def)

section \<open>A line of the client\<close>

lemma session_line:
  assumes "NUL \<notin> set cmd" "CR \<notin> set cmd" "LF \<notin> set cmd" and "length cmd + 2 < 128" and "\<not> strncmp_eq cmd ''exit'' 4"
  shows "process_client_request cs env [Received (cmd @ [CR, LF])] rs =
    map_option (\<lambda>(rs, texts). (Open, rs, prompt # texts @ [prompt])) (run_command cs env rs cmd)"
proof -
  let ?text = "cmd @ [CR, LF]"
  obtain k where k: "128 - length ?text = Suc k" using assms(4) by (cases "128 - length ?text") auto
  have buf: "take 128 ?text @ drop (length (take 128 ?text)) (replicate 128 NUL) = cmd @ CR # [LF] @ NUL # replicate k NUL"
    using assms(4) k by (simp only: take_all drop_replicate length_append append_assoc) simp
  obtain b where "cleanCRLFs (cmd @ CR # [LF] @ NUL # replicate k NUL) = Some b" "cstring b = Some cmd"
    using cleanCRLFs_line[OF assms(1-3), of CR "[LF]" "replicate k NUL"] by auto
  with buf assms(5) show ?thesis
    unfolding process_client_request_def client_loop.simps Let_def buf
    by (cases "run_command cs env rs cmd") (auto simp: numeral_eq_Suc)
qed

section \<open>Adding a route from the command line\<close>

definition route_add_text :: "u32 \<Rightarrow> u32 \<Rightarrow> u32 \<Rightarrow> string \<Rightarrow> string" where
  "route_add_text d g m i = ''ip route add '' @ inet_ntop d @ '' '' @ inet_ntop g @ '' '' @ inet_ntop m @ '' '' @ i"

lemma route_add_format:
  "scan_format ''ip route add %as %as %as %as'' =
     map (\<lambda>c. if c = CHR '' '' then Blank else Lit c) ''ip route add '' @ [Str_conv, Blank, Str_conv, Blank, Str_conv, Blank, Str_conv]"
  by code_simp

lemma sscan_words:
  "is_word w \<Longrightarrow> is_word v \<Longrightarrow>
   sscan (Str_conv # Blank # ds) (w @ CHR '' '' # v @ s) = map_option ((#) (Str w)) (sscan ds (v @ s))"
  by (simp add: sscan_word sscan_blank_word del: sscan.simps)

lemma sscan_last_word: "is_word w \<Longrightarrow> sscan [Str_conv] w = Some [Str w]"
  using sscan_word[of w "[]" "[]"] by (simp del: sscan.simps(4))

lemma route_add_parsed:
  assumes "is_word i"
  shows "sscanf (route_add_text d g m i) ''ip route add %as %as %as %as'' =
    Some [Str (inet_ntop d), Str (inet_ntop g), Str (inet_ntop m), Str i]"
proof -
  let ?args = "inet_ntop d @ CHR '' '' # inet_ntop g @ CHR '' '' # inet_ntop m @ CHR '' '' # i"
  have "sscanf (route_add_text d g m i) ''ip route add %as %as %as %as'' =
      sscan [Blank, Str_conv, Blank, Str_conv, Blank, Str_conv, Blank, Str_conv] (CHR '' '' # ?args)"
    unfolding sscanf_def route_add_format route_add_text_def by (simp add: isspace_def del: sscan.simps(4))
  also have "\<dots> = sscan [Str_conv, Blank, Str_conv, Blank, Str_conv, Blank, Str_conv] ?args"
    by (rule sscan_blank_word[OF inet_ntop_word])
  finally show ?thesis
    using assms sscan_words[OF inet_ntop_word assms, of _ _ "[]"]
    by (simp add: sscan_words inet_ntop_word sscan_last_word del: sscan.simps)
qed

text \<open>The handler on a text with its arguments in order.\<close>

lemma cli_ip_route_add_ok:
  assumes "is_word i" and "lock_free RtableLock rs" and "is_netfpga rs \<Longrightarrow> \<forall>e\<in>set (rtable rs). rt_is_active e \<longrightarrow> has_port e"
    and "is_netfpga rs \<Longrightarrow> getOneHotPortNumber (take 32 i) \<noteq> None"
  shows "\<exists>t log. cli_ip_route_add rs (route_add_text d g m i) =
      Some (rs\<lparr>rtable := t, regs := regs rs @ log\<rparr>, [line ''Successfully added route.''])
    \<and> routes_sorted t
    \<and> mset t = add_mset \<lparr>rt_ip = d, rt_gw = g, rt_mask = m, rt_iface = take 32 i, rt_is_static = True, rt_is_active = True\<rparr> (mset (rtable rs))"
proof -
  let ?e = "\<lparr>rt_ip = d, rt_gw = g, rt_mask = m, rt_iface = take 32 i, rt_is_static = True, rt_is_active = True\<rparr>"
  let ?rs = "rs\<lparr>held := (RtableLock, Wr) # held rs, rtable := rtable rs @ [?e]\<rparr>"
  obtain t log where "trigger_rtable_modified ?rs = Some (?rs\<lparr>rtable := t, regs := regs ?rs @ log\<rparr>)"
    "mset t = mset (rtable ?rs)" "routes_sorted t"
    by (rule trigger_rtable_modified_returns[of ?rs]) (use assms in \<open>auto simp: has_port_def\<close>)
  then show ?thesis
    using assms(1) acquire_free[OF assms(2)]
    by (intro exI[of _ t] exI[of _ log])
      (simp add: cli_ip_route_add_def route_add_parsed add_route_def strncpy_def release_def)
qed

text \<open>
  C13. A line of a client that adds a route does add it. For all addresses, printed in dotted notation, and every interface
  name, the text sent over the connection is stripped of its line end, dispatched through the table that
  \<open>init_cli\<close> built (with any \<open>strcmp\<close>), and parsed; the route is in the sorted table, the lock is free again, and
  the client gets the confirmation and a new prompt.
\<close>

theorem route_added_by_client:
  assumes "c_strcmp cmp" and "init_cli cmp rs0 = Some (cs, rs)" and "lock_free CliCommands rs0"
    and "is_word i" and "NUL \<notin> set i" and "length i < 64"
    and "held rs = []" and "is_netfpga rs \<longrightarrow> list_all has_port (rtable rs) \<and> getOneHotPortNumber (take 32 i) \<noteq> None"
  shows "\<exists>rs'. process_client_request cs env [Received (route_add_text d g m i @ [CR, LF])] rs =
      Some (Open, rs', [prompt, line ''Successfully added route.'', prompt])
    \<and> routes_sorted (rtable rs') \<and> held rs' = []
    \<and> mset (rtable rs') =
        add_mset \<lparr>rt_ip = d, rt_gw = g, rt_mask = m, rt_iface = take 32 i, rt_is_static = True, rt_is_active = True\<rparr> (mset (rtable rs))"
proof -
  let ?text = "route_add_text d g m i"
  have word: "c \<in> set (inet_ntop a) \<or> c \<in> set i \<Longrightarrow> c \<noteq> CR \<and> c \<noteq> LF \<and> c \<noteq> NUL" for c a
    using inet_ntop_word[of a] inet_ntop_no_NUL[of a] assms(4,5) by (auto simp: is_word_def list_ex_iff isspace_def)
  then have "NUL \<notin> set ?text" "CR \<notin> set ?text" "LF \<notin> set ?text" by (auto simp: route_add_text_def)
  moreover have "length ?text + 2 < 128"
    using inet_ntop_length[of d] inet_ntop_length[of g] inet_ntop_length[of m] assms(6) by (simp add: route_add_text_def)
  moreover have "\<not> strncmp_eq ?text ''exit'' 4" by (simp add: route_add_text_def strncmp_eq_def)
  ultimately have "process_client_request cs env [Received (?text @ [CR, LF])] rs =
      map_option (\<lambda>(rs, texts). (Open, rs, prompt # texts @ [prompt])) (run_command cs env rs ?text)"
    by (rule session_line)
  moreover have "take 1 (inet_ntop d @ s) \<noteq> ''?''" for s
    using inet_ntop_hd[of d] inet_ntop_word[of d] by (cases "inet_ntop d") (auto simp: is_word_def)
  then have "run_command cs env rs ?text = cli_ip_route_add rs ?text"
    using dispatch_route_add by (simp add: run_command_def init_cli_dispatch[OF assms(1-3)] route_add_text_def del: append_Cons)
  moreover have "lock_free RtableLock rs" by (rule idle_lock_free[OF assms(7)])
  then obtain t log where "cli_ip_route_add rs ?text = Some (rs\<lparr>rtable := t, regs := regs rs @ log\<rparr>, [line ''Successfully added route.''])"
    "routes_sorted t"
    "mset t = add_mset \<lparr>rt_ip = d, rt_gw = g, rt_mask = m, rt_iface = take 32 i, rt_is_static = True, rt_is_active = True\<rparr> (mset (rtable rs))"
    using cli_ip_route_add_ok[OF assms(4), of rs d g m] assms(8) by (auto simp: list_all_iff)
  ultimately show ?thesis using assms(7) by (intro exI[of _ "rs\<lparr>rtable := t, regs := regs rs @ log\<rparr>"]) simp
qed

text \<open>A world without hardware, for the evaluation of concrete sessions.\<close>

definition plain_env :: cli_env where
  "plain_env = \<lparr>env_hw = (\<lambda>_ _. 0), env_rand = (\<lambda>_. 7), env_wakes = [TimedOut], env_stats = [], sr_user = ''user'', sr_port = 0,
     sr_addr = 0, sr_vhost = ''vrhost'', sr_lhost = ''localhost'', sr_topo_id = 1\<rparr>"

theorem route_added_by_client_witness:
  "\<exists>cs rs'. init_cli str_diff idle_router = Some (cs, idle_router)
    \<and> process_client_request cs plain_env [Received (route_add_text 10 0 255 ''eth1'' @ [CR, LF])] idle_router =
        Some (Open, rs', [prompt, line ''Successfully added route.'', prompt])
    \<and> rtable rs' = [\<lparr>rt_ip = 10, rt_gw = 0, rt_mask = 255, rt_iface = ''eth1'', rt_is_static = True, rt_is_active = True\<rparr>]"
proof -
  have free: "lock_free CliCommands idle_router" by (simp add: idle_router_def lock_free_def)
  obtain cs where cs: "init_cli str_diff idle_router = Some (cs, idle_router)"
    using init_cli_table[OF bytes.c_strcmp_axioms free] by blast
  have "is_word ''eth1''" by (simp add: is_word_def isspace_def)
  from route_added_by_client[OF bytes.c_strcmp_axioms cs free this, of plain_env 10 0 255] cs
  show ?thesis by (auto simp: idle_router_def)
qed

text \<open>
  C12. The command table is searched for the longest prefix. Whatever \<open>strcmp\<close> returns (the sort of \<open>init_cli\<close> swaps only when it is
  exactly 1), the initialisation ends with all registered commands in the table, and a text is dispatched to the
  handler of the longest registered command that it starts with, or to none when it starts with none.
\<close>

theorem cli_dispatch_longest:
  assumes "c_strcmp cmp" and "lock_free CliCommands rs"
  shows "\<exists>cs. init_cli cmp rs = Some (cs, rs) \<and> length cs = 63
    \<and> (\<forall>command. (case cli_command_lpm cs command of
          Some h \<Rightarrow> \<exists>ce. longest_prefix command registered ce \<and> ce_handler ce = h
        | None \<Rightarrow> \<not> (\<exists>ce. longest_prefix command registered ce)))"
proof -
  obtain cs where cs: "init_cli cmp rs = Some (cs, rs)" "mset cs = mset registered"
    using init_cli_table[OF assms] by blast
  have "length registered = 63" by code_simp
  then have "length cs = 63" using cs(2) by (metis size_mset)
  moreover have "case cli_command_lpm cs command of
          Some h \<Rightarrow> \<exists>ce. longest_prefix command registered ce \<and> ce_handler ce = h
        | None \<Rightarrow> \<not> (\<exists>ce. longest_prefix command registered ce)" for command
  proof (cases "lpm_commands command registered 0 None")
    case None
    then show ?thesis
      using cli_lpm_iff[OF registered_distinct, of command] cli_lpm_mset[OF registered_distinct cs(2), of command]
      by (simp add: cli_command_lpm_def)
  next
    case (Some ce)
    then show ?thesis
      using cli_lpm_Some[OF Some] cli_lpm_mset[OF registered_distinct cs(2), of command] by (auto simp: cli_command_lpm_def)
  qed
  ultimately show ?thesis using cs(1) by blast
qed

theorem cli_dispatch_longest_witness:
  "\<exists>cs. init_cli str_sign idle_router = Some (cs, idle_router) \<and> length cs = 63"
proof -
  have "lock_free CliCommands idle_router" by (simp add: idle_router_def lock_free_def)
  from cli_dispatch_longest[OF signs.c_strcmp_axioms this] show ?thesis by blast
qed

text \<open>
  Three commands that the help texts name are not commands: \<open>hw packts fwd\<close> (registered as \<open>hw pckts fwd\<close>), \<open>show pwospf interface\<close>
  (registered as \<open>show pwospf iface\<close>) and \<open>aid set\<close> (registered as \<open>set aid\<close>). The client that types them as documented
  is told that the command is invalid, and the router does not change.
\<close>

theorem documented_commands_invalid:
  assumes "c_strcmp cmp" and "init_cli cmp rs0 = Some (cs, rs)" and "lock_free CliCommands rs0"
    and "command \<in> {''hw packts fwd'', ''show pwospf interface'', ''aid set 5''}"
  shows "run_command cs env rs command = Some (rs, [line ''invalid command ... type ? or help for valid command help''])"
proof -
  have "list_all (\<lambda>c. Option.is_none (lpm_commands c registered 0 None)) [''hw packts fwd'', ''show pwospf interface'', ''aid set 5'']"
    by code_simp
  then have "lpm_commands command registered 0 None = None" using assms(4) by (auto simp: Option.is_none_def)
  then show ?thesis by (simp add: run_command_def init_cli_dispatch[OF assms(1-3)] cli_command_lpm_def)
qed

theorem documented_commands_invalid_witness:
  "\<exists>cs. init_cli str_sign idle_router = Some (cs, idle_router)
    \<and> run_command cs plain_env idle_router ''hw packts fwd'' =
        Some (idle_router, [line ''invalid command ... type ? or help for valid command help''])"
proof -
  have free: "lock_free CliCommands idle_router" by (simp add: idle_router_def lock_free_def)
  obtain cs where cs: "init_cli str_sign idle_router = Some (cs, idle_router)"
    using init_cli_table[OF signs.c_strcmp_axioms free] by blast
  with documented_commands_invalid[OF signs.c_strcmp_axioms cs free, of "''hw packts fwd''"] show ?thesis by auto
qed

section \<open>Commands that stop the router\<close>

lemma dispatch_interface:
  "take 1 w \<noteq> ''?'' \<Longrightarrow> cli_command_lpm registered (''ip interface '' @ w) = Some (\<lambda>_. cli_ip_interface)"
  "cli_command_lpm registered ''sping'' = Some cli_sping"
  by (simp_all add: cli_command_lpm_def registered_def cli_registrations_def create_cli_entry_def strncmp_eq_def Let_def)

lemma interface_format:
  "scan_format ''ip interface %as %as %as'' =
     map (\<lambda>c. if c = CHR '' '' then Blank else Lit c) ''ip interface '' @ [Str_conv, Blank, Str_conv, Blank, Str_conv]"
  by code_simp

lemma interface_parsed:
  assumes "is_word n" and "is_word w"
  shows "sscanf (''ip interface '' @ n @ '' '' @ w) ''ip interface %as %as %as'' = Some [Str n, Str w]"
proof -
  have "sscanf (''ip interface '' @ n @ '' '' @ w) ''ip interface %as %as %as'' =
      sscan [Blank, Str_conv, Blank, Str_conv, Blank, Str_conv] (CHR '' '' # n @ CHR '' '' # w)"
    unfolding sscanf_def interface_format by (simp add: isspace_def del: sscan.simps(4))
  also have "\<dots> = sscan [Str_conv, Blank, Str_conv, Blank, Str_conv] (n @ CHR '' '' # w)"
    by (rule sscan_blank_word[OF assms(1)])
  also have "\<dots> = map_option ((#) (Str n)) (sscan [Str_conv, Blank, Str_conv] w)"
    using sscan_words[OF assms, of "[Str_conv, Blank, Str_conv]" "[]"] by (simp del: sscan.simps)
  also have "sscan [Str_conv, Blank, Str_conv] w = Some [Str w]"
    using sscan_word[of w "[]" "[Blank, Str_conv]"] assms(2) by simp
  finally show ?thesis by simp
qed

lemma inet_ntop_digit:
  obtains c s where "inet_ntop a = c # s" and "is_digit 10 c"
proof -
  obtain c s where "show_nat (unat (byteN 0 a)) = c # s" by (cases "show_nat (unat (byteN 0 a))") simp_all
  with that show thesis using show_nat_digits[of c "unat (byteN 0 a)"] by (simp add: inet_ntop_def)
qed

text \<open>
  Two commands that any client can type stop the whole router. An interface with an address and no mask makes the handler read a null
  pointer; \<open>sping\<close> without an address makes it read past the end of the command. Neither handler checks for it before.
\<close>

theorem client_stops_router:
  assumes "c_strcmp cmp" and "init_cli cmp rs0 = Some (cs, rs)" and "lock_free CliCommands rs0"
    and "is_word n" and "take 1 n \<noteq> ''?''"
  shows "run_command cs env rs (''ip interface '' @ n @ '' '' @ inet_ntop a) = None \<and> run_command cs env rs ''sping'' = None"
proof
  have "take 1 (n @ '' '' @ inet_ntop a) \<noteq> ''?''" using assms(4,5) by (cases n) (auto simp: is_word_def)
  then have "cli_command_lpm cs (''ip interface '' @ n @ '' '' @ inet_ntop a) = Some (\<lambda>_. cli_ip_interface)"
    unfolding init_cli_dispatch[OF assms(1-3)] by (rule dispatch_interface)
  moreover obtain c s where c: "inet_ntop a = c # s" "is_digit 10 c" by (rule inet_ntop_digit)
  have "\<not> is_digit 10 (CHR ''u'')" "\<not> is_digit 10 (CHR ''d'')" by code_simp+
  with c have "\<not> strncmp_eq ''up'' (inet_ntop a) 2" "\<not> strncmp_eq ''down'' (inet_ntop a) 4" by (auto simp: strncmp_eq_def)
  ultimately show "run_command cs env rs (''ip interface '' @ n @ '' '' @ inet_ntop a) = None"
    using interface_parsed[OF assms(4) inet_ntop_word, of a] by (simp add: run_command_def cli_ip_interface_def)
  show "run_command cs env rs ''sping'' = None"
    by (simp add: run_command_def init_cli_dispatch[OF assms(1-3)] dispatch_interface(2) cli_sping_def)
qed

theorem client_stops_router_witness:
  "\<exists>cs. init_cli str_sign idle_router = Some (cs, idle_router)
    \<and> run_command cs plain_env idle_router (''ip interface eth0 '' @ inet_ntop 10) = None \<and> run_command cs plain_env idle_router ''sping'' = None"
proof -
  have free: "lock_free CliCommands idle_router" by (simp add: idle_router_def lock_free_def)
  obtain cs where cs: "init_cli str_sign idle_router = Some (cs, idle_router)"
    using init_cli_table[OF signs.c_strcmp_axioms free] by blast
  have "is_word ''eth0''" by (simp add: is_word_def isspace_def)
  with client_stops_router[OF signs.c_strcmp_axioms cs free this, of plain_env 10] cs show ?thesis by simp
qed

text \<open>
  An interval that cannot be read is set to 0. The handlers report the failure and go on, so a mistyped
  \<open>set hello interval\<close> or \<open>set lsu interval\<close> makes the router expire its neighbours, and the routers of its database, after no
  time at all, and the client is told both that the command failed and that it succeeded.
\<close>

theorem unread_interval_is_zero:
  assumes "sscanf c ''set hello interval %u'' = Some []" and "sscanf d ''set lsu interval %u'' = Some []"
  shows "cli_pwospf_set_hello rs c = Some (rs\<lparr>pwospf_hello_interval := 0\<rparr>, [line ''Failure reading arguments.'', line ''Hello interval has been set''])
    \<and> cli_pwospf_set_lsu_interval rs d = Some (rs\<lparr>pwospf_lsu_interval := 0\<rparr>, [line ''Failure reading arguments.'', line ''LSU Interval set.''])"
  using assms by (simp add: cli_pwospf_set_hello_def cli_pwospf_set_lsu_interval_def)

theorem unread_interval_is_zero_witness:
  "cli_pwospf_set_hello idle_router ''set hello interval x'' =
     Some (idle_router\<lparr>pwospf_hello_interval := 0\<rparr>, [line ''Failure reading arguments.'', line ''Hello interval has been set''])"
proof -
  have "sscanf ''set hello interval x'' ''set hello interval %u'' = Some []" "sscanf ''set lsu interval'' ''set lsu interval %u'' = Some []"
    by code_simp+
  from unread_interval_is_zero[OF this] show ?thesis by blast
qed

end
