(* ===== verification/Router_Frame.thy ===== *)
theory Router_Frame
  imports Arp_Thread Cli
begin

text \<open>
  What the operations of the router leave alone. \<open>kept\<close> collects the parts of the state that the invariants of the whole system speak
  about: the routing table and the writes to its hardware copy, the ARP cache, and the routers of the database. For every operation that
  does not change them, a lemma says so, in the order in which the operations call each other.
\<close>

section \<open>The parts of the state\<close>

fun is_route_reg :: "hw_reg \<Rightarrow> bool" where
  "is_route_reg ROUTE_TABLE_ENTRY_IP = True"
| "is_route_reg ROUTE_TABLE_ENTRY_MASK = True"
| "is_route_reg ROUTE_TABLE_ENTRY_NEXT_HOP_IP = True"
| "is_route_reg ROUTE_TABLE_ENTRY_OUTPUT_PORT = True"
| "is_route_reg ROUTE_TABLE_WR_ADDR = True"
| "is_route_reg _ = False"

definition route_writes :: "(hw_reg \<times> u32) list \<Rightarrow> (hw_reg \<times> u32) list" where
  "route_writes ws = filter (\<lambda>(r, v). is_route_reg r) ws"

definition routes_of :: "router_state \<Rightarrow> rtable_entry list \<times> bool \<times> (hw_reg \<times> u32) list" where
  "routes_of rs = (rtable rs, is_netfpga rs, route_writes (regs rs))"

definition key_of :: "pwospf_router \<Rightarrow> u32 \<times> nat" where
  "key_of r = (pr_router_id r, pr_addr r)"

definition db_of :: "router_state \<Rightarrow> u32 \<times> (u32 \<times> nat) list \<times> nat" where
  "db_of rs = (router_id rs, map key_of (pwospf_router_list rs), next_addr rs)"

definition kept :: "router_state \<Rightarrow> (rtable_entry list \<times> bool \<times> (hw_reg \<times> u32) list) \<times> (u32 \<times> (u32 \<times> nat) list \<times> nat) \<times> arp_cache_entry list" where
  "kept rs = (routes_of rs, db_of rs, arp_cache rs)"

lemmas kept_defs = kept_def routes_of_def db_of_def

lemma kept_update [simp]:
  "kept (rs\<lparr>area_id := a\<rparr>) = kept rs" "kept (rs\<lparr>pwospf_hello_interval := b\<rparr>) = kept rs"
  "kept (rs\<lparr>pwospf_lsu_interval := c\<rparr>) = kept rs" "kept (rs\<lparr>pwospf_lsu_broadcast := c\<rparr>) = kept rs"
  "kept (rs\<lparr>dijkstra_dirty := c\<rparr>) = kept rs" "kept (rs\<lparr>arp_ttl := c\<rparr>) = kept rs"
  "kept (rs\<lparr>if_list := d\<rparr>) = kept rs" "kept (rs\<lparr>arp_queue := e\<rparr>) = kept rs" "kept (rs\<lparr>sping_queue := f\<rparr>) = kept rs"
  "kept (rs\<lparr>pwospf_lsu_queue := g\<rparr>) = kept rs" "kept (rs\<lparr>nat_table := h\<rparr>) = kept rs"
  "kept (rs\<lparr>clock := t\<rparr>) = kept rs" "kept (rs\<lparr>held := l\<rparr>) = kept rs"
  "kept (rs\<lparr>signals := s\<rparr>) = kept rs" "kept (rs\<lparr>sent := u\<rparr>) = kept rs" "kept (rs\<lparr>to_transport := v\<rparr>) = kept rs"
  "kept (rs\<lparr>rand_pos := n\<rparr>) = kept rs"
  by (simp_all add: kept_defs)

lemma kept_writeReg [simp]: "\<not> is_route_reg r \<Longrightarrow> kept (writeReg r v rs) = kept rs"
  by (simp add: kept_defs writeReg_def route_writes_def)

lemma acquire_kept: "acquire l m rs = Some rs' \<Longrightarrow> kept rs' = kept rs"
  by (auto simp: acquire_def split: if_splits)

lemma release_kept: "release l rs = Some rs' \<Longrightarrow> kept rs' = kept rs"
  by (auto simp: release_def split: if_splits)

lemma kept_signal [simp]: "kept (cond_signal c rs) = kept rs"
  by (simp add: cond_signal_def)

lemma kept_set_iface [simp]: "kept (set_iface rs i f) = kept rs"
  by (simp add: set_iface_def)

lemma kept_set_router [simp]:
  "(\<And>r. pr_router_id (f r) = pr_router_id r) \<Longrightarrow> (\<And>r. pr_addr (f r) = pr_addr r) \<Longrightarrow> kept (set_router rid f rs) = kept rs"
  by (simp add: kept_defs set_router_def map_update_first key_of_def)

lemma kept_dijkstra_trigger [simp]: "kept (dijkstra_trigger rs) = kept rs"
  by (simp add: dijkstra_trigger_def)

lemma kept_entries [simp]: "kept (set_entry i f rs) = kept rs" "kept (drop_entry i rs) = kept rs"
  by (simp_all add: set_entry_def drop_entry_def)

section \<open>Sending\<close>

lemma send_packet_kept: "send_packet rs p i = Some (r, rs') \<Longrightarrow> kept rs' = kept rs"
  by (auto simp: send_packet_def Let_def dest!: acquire_kept release_kept split: if_splits bind_splits)

lemma send_arp_request_kept: "send_arp_request rs a i = Some rs' \<Longrightarrow> kept rs' = kept rs"
  by (auto simp: send_arp_request_def Let_def dest: send_packet_kept split: bind_splits)

lemma send_arp_reply_kept: "send_arp_reply rs p ie = Some rs' \<Longrightarrow> kept rs' = kept rs"
  by (auto simp: send_arp_reply_def Let_def dest: send_packet_kept split: bind_splits)

lemma send_ip_kept: "send_ip rs p nh i = Some (r, rs') \<Longrightarrow> kept rs' = kept rs"
  by (auto simp: send_ip_def arp_queue_add_def Let_def dest!: send_packet_kept send_arp_request_kept split: bind_splits option.splits)

lemma send_icmp_kept: "send_icmp_packet rs p ty co = Some (r, rs') \<Longrightarrow> kept rs' = kept rs"
  by (auto simp: send_icmp_packet_def Let_def dest: send_ip_kept split: bind_splits option.splits)

lemma echo_request_kept: "send_icmp_echo_request_packet rs a n = Some (r, rs') \<Longrightarrow> kept rs' = kept rs"
  by (auto simp: send_icmp_echo_request_packet_def Let_def dest!: send_ip_kept acquire_kept release_kept split: bind_splits option.splits)

lemma process_icmp_kept: "process_icmp_packet rs p = Some rs' \<Longrightarrow> kept rs' = kept rs"
  by (auto simp: process_icmp_packet_def process_icmp_echo_reply_packet_def Let_def
      dest!: send_icmp_kept acquire_kept release_kept split: bind_splits if_splits)

lemma wait_loop_kept: "wait_loop ws rs n = Some (r, rs') \<Longrightarrow> kept rs' = kept rs"
  by (induction ws rs n rule: wait_loop.induct) (auto simp: Let_def split: bind_splits if_splits)

lemma wait_for_reply_kept: "wait_for_reply ws rs n = Some (r, rs') \<Longrightarrow> kept rs' = kept rs"
  by (auto simp: wait_for_reply_def dest!: wait_loop_kept acquire_kept release_kept split: bind_splits)

lemma sping_cleanup_kept: "sping_queue_cleanup rs = Some rs' \<Longrightarrow> kept rs' = kept rs"
  by (auto simp: sping_queue_cleanup_def Let_def dest!: acquire_kept release_kept split: bind_splits)

section \<open>Translating and forwarding\<close>

lemma nat_ext_kept: "process_nat_ext_packet rs p = Some (q, rs') \<Longrightarrow> kept rs' = kept rs"
  by (auto simp: process_nat_ext_packet_def hit_def Let_def split: bind_splits option.splits)

lemma draw_port_kept: "draw_port rs = Some (n, rs') \<Longrightarrow> kept rs' = kept rs"
  by (drule draw_port_result) auto

lemma nat_int_kept: "process_nat_int_packet rs p a = Some (q, rs') \<Longrightarrow> kept rs' = kept rs"
  by (auto simp: process_nat_int_packet_def create_nat_table_entry_def hit_def Let_def
      dest!: draw_port_kept split: bind_splits option.splits if_splits)

lemma forward_kept: "forward_packet rs p i = Some rs' \<Longrightarrow> kept rs' = kept rs"
  by (auto simp: forward_packet_def dest!: send_icmp_kept send_ip_kept nat_int_kept acquire_kept release_kept
      split: bind_splits option.splits if_splits)

section \<open>The packets waiting for an address\<close>

lemma send_entry_packets_kept: "send_entry_packets i rs = Some rs' \<Longrightarrow> kept rs' = kept rs"
proof (erule send_entry_packets.raw_induct[rotated])
  fix f i and rs rs' :: router_state
  assume "\<And>i rs rs'. f i rs = Some rs' \<Longrightarrow> kept rs' = kept rs"
    and "(case aq_head (arp_queue rs ! i) of [] \<Rightarrow> Some rs
      | packet # next_packets \<Rightarrow> do {
          (r, rs) \<leftarrow> send_ip rs packet (aq_next_hop (arp_queue rs ! i)) (aq_out_iface_name (arp_queue rs ! i));
          let rs = set_entry i (\<lambda>aqe. aqe\<lparr>aq_head := tl (aq_head aqe)\<rparr>) rs;
          if next_packets = [] then Some rs else f i rs }) = Some rs'"
  then show "kept rs' = kept rs"
    by (auto simp: Let_def dest!: send_ip_kept split: list.splits bind_splits if_splits)
qed

lemma send_queued_from_kept: "send_queued_from a i rs = Some rs' \<Longrightarrow> kept rs' = kept rs"
proof (erule send_queued_from.raw_induct[rotated])
  fix f a i and rs rs' :: router_state
  assume "\<And>a i rs rs'. f a i rs = Some rs' \<Longrightarrow> kept rs' = kept rs"
    and "(if i < length (arp_queue rs)
      then let more = Suc i < length (arp_queue rs)
           in if a = aq_next_hop (arp_queue rs ! i)
              then do {
                rs \<leftarrow> send_entry_packets i rs;
                let rs = drop_entry i rs;
                if more then f a i rs else Some rs }
              else f a (Suc i) rs
      else Some rs) = Some rs'"
  then show "kept rs' = kept rs"
    by (auto simp: Let_def dest!: send_entry_packets_kept split: bind_splits if_splits)
qed

lemma bounce_packet_kept: "bounce_packet rs p = Some rs' \<Longrightarrow> kept rs' = kept rs"
  by (auto simp: bounce_packet_def dest!: send_icmp_kept split: bind_splits if_splits)

lemma bounce_packets_kept: "bounce_packets i rs = Some rs' \<Longrightarrow> kept rs' = kept rs"
proof (erule bounce_packets.raw_induct[rotated])
  fix f i and rs rs' :: router_state
  assume "\<And>i rs rs'. f i rs = Some rs' \<Longrightarrow> kept rs' = kept rs"
    and "(case aq_head (arp_queue rs ! i) of [] \<Rightarrow> Some rs
      | packet # _ \<Rightarrow> do {
          rs \<leftarrow> bounce_packet rs packet;
          f i (set_entry i (\<lambda>aqe. aqe\<lparr>aq_head := tl (aq_head aqe)\<rparr>) rs) }) = Some rs'"
  then show "kept rs' = kept rs"
    by (auto dest!: bounce_packet_kept split: list.splits bind_splits)
qed


lemma process_arp_queue_from_kept: "process_arp_queue_from i rs = Some rs' \<Longrightarrow> kept rs' = kept rs"
proof (erule process_arp_queue_from.raw_induct[rotated])
  fix f i and rs rs' :: router_state
  assume "\<And>i rs rs'. f i rs = Some rs' \<Longrightarrow> kept rs' = kept rs"
    and "(if i < length (arp_queue rs)
      then let more = Suc i < length (arp_queue rs); aqe = arp_queue rs ! i
           in if aqe_due rs aqe
              then if aq_requests aqe < 5
                   then do {
                     let rs = set_entry i (\<lambda>aqe. aqe\<lparr>aq_last_req_time := clock rs, aq_requests := aq_requests aqe + 1\<rparr>) rs;
                     rs \<leftarrow> send_arp_request rs (aq_next_hop aqe) (aq_out_iface_name aqe);
                     if more then f (Suc i) rs else Some rs }
                   else do {
                     rs \<leftarrow> bounce_packets i rs;
                     let rs = drop_entry i rs;
                     if more then f i rs else Some rs }
              else if more then f (Suc i) rs else Some rs
      else Some rs) = Some rs'"
  then show "kept rs' = kept rs"
    by (auto simp: Let_def dest!: send_arp_request_kept bounce_packets_kept split: bind_splits if_splits)
qed

section \<open>Link state\<close>

lemma queue_lsu_kept: "queue_lsu pw src ie nbr rs = Some rs' \<Longrightarrow> kept rs' = kept rs"
  by (auto simp: queue_lsu_def Let_def dest!: acquire_kept release_kept split: bind_splits if_splits)

lemma broadcast_lsu_kept: "broadcast_pwospf_lsu_packet rs pw src = Some rs' \<Longrightarrow> kept rs' = kept rs"
  unfolding broadcast_pwospf_lsu_packet_def
  by (erule run_all_invariant[where P = "\<lambda>s. kept s = kept rs"])
    (auto split: if_splits elim!: run_all_invariant[where P = "\<lambda>s. kept s = kept rs"] dest: queue_lsu_kept)

lemma start_flood_kept: "start_lsu_bcast_flood rs = Some rs' \<Longrightarrow> kept rs' = kept rs"
  by (auto simp: start_lsu_bcast_flood_def construct_pwospf_lsu_packet_def Let_def dest!: broadcast_lsu_kept
      split: bind_splits if_splits)

lemma kept_routers:
  "map key_of rl = map key_of (pwospf_router_list rs) \<Longrightarrow> kept (rs\<lparr>pwospf_router_list := rl\<rparr>) = kept rs"
  by (simp add: kept_defs)

lemma set_active_rids [simp]: "map key_of (set_active b i j rl) = map key_of rl"
  unfolding set_active_def by (rule map_same_update) (simp add: key_of_def)

lemma fold_rids: "(\<And>x rl. map key_of (f x rl) = map key_of rl) \<Longrightarrow> map key_of (fold f xs rl) = map key_of rl"
  by (induction xs arbitrary: rl) simp_all


lemma match_another_rids [simp]: "map key_of (match_another k i q rl) = map key_of rl"
  unfolding match_another_def by (rule fold_rids) simp

lemma determine_active_rids: "map key_of (determine_active_interfaces k rl) = map key_of rl"
  unfolding determine_active_interfaces_def
  by (rule fold_rids) (simp add: determine_active_interface_def Let_def split: option.split)

lemma propagate_kept: "propagate_pwospf_changes rs = Some rs' \<Longrightarrow> kept rs' = kept rs"
  unfolding propagate_pwospf_changes_def Let_def
  by (drule start_flood_kept) (simp add: kept_routers fold_rids[OF determine_active_rids])

lemma hello_kept: "process_pwospf_hello_packet rs p i = Some rs' \<Longrightarrow> kept rs' = kept rs"
  by (auto simp: process_pwospf_hello_packet_def Let_def dest!: propagate_kept acquire_kept release_kept split: bind_splits if_splits)

lemma timeout_neighbors_kept: "timeout_neighbors ie ns rs = Some (t, ns', rs') \<Longrightarrow> kept rs' = kept rs"
proof (induction ns arbitrary: rs t ns' rs')
  case (Cons n ns)
  show ?case
  proof (cases "nbr_timed_out rs n")
    case True
    with Cons.prems obtain il t1 ns1 where
      "timeout_neighbors ie ns (set_router (router_id rs) (\<lambda>r. r\<lparr>pr_interface_list := il\<rparr>) rs) = Some (t1, ns1, rs')"
      by (auto split: bind_splits)
    from Cons.IH[OF this] show ?thesis by simp
  next
    case False
    with Cons.prems obtain t1 ns1 where "timeout_neighbors ie ns rs = Some (t1, ns1, rs')" by (auto split: bind_splits)
    from Cons.IH[OF this] show ?thesis .
  qed
qed simp

lemma timedout_interface_kept: "determine_timedout_interface k rs = Some (t, rs') \<Longrightarrow> kept rs' = kept rs"
  by (auto simp: determine_timedout_interface_def Let_def dest!: timeout_neighbors_kept split: bind_splits)

lemma hello_on_iface_kept: "hello_on_iface k (t, rs) = Some (t', rs') \<Longrightarrow> kept rs' = kept rs"
  by (auto simp: hello_on_iface_def Let_def dest!: send_packet_kept timedout_interface_kept acquire_kept release_kept
      split: bind_splits if_splits)

lemma broadcast_hello_kept: "broadcast_pwospf_hello_packet rs = Some rs' \<Longrightarrow> kept rs' = kept rs"
proof -
  have "kept (snd s) = kept rs" if "run_all hello_on_iface ks (b, rs) = Some s" for ks b s
    using that by (rule run_all_invariant[where P = "\<lambda>s. kept (snd s) = kept rs"]) (auto dest: hello_on_iface_kept)
  then show "broadcast_pwospf_hello_packet rs = Some rs' \<Longrightarrow> ?thesis"
    by (fastforce simp: broadcast_pwospf_hello_packet_def dest!: propagate_kept acquire_kept release_kept split: bind_splits if_splits)
qed

lemma hello_round_kept: "pwospf_hello_round rs = Some rs' \<Longrightarrow> kept rs' = kept rs"
  by (auto simp: pwospf_hello_round_def dest!: broadcast_hello_kept acquire_kept release_kept split: bind_splits)

lemma lsu_round_kept: "pwospf_lsu_round rs = Some rs' \<Longrightarrow> kept rs' = kept rs"
  by (auto simp: pwospf_lsu_round_def Let_def dest!: start_flood_kept acquire_kept release_kept
      split: bind_splits if_splits option.splits)

lemma send_lsu_kept: "send_lsu e rs = Some rs' \<Longrightarrow> kept rs' = kept rs"
  by (auto simp: send_lsu_def dest!: send_ip_kept split: bind_splits option.splits)

lemma bcast_round_kept: "pwospf_lsu_bcast_round rs = Some rs' \<Longrightarrow> kept rs' = kept rs"
proof -
  have "kept s = kept r" if "run_all send_lsu q r = Some s" for q r s
    using that by (rule run_all_invariant[where P = "\<lambda>s. kept s = kept r"]) (auto dest: send_lsu_kept)
  then show "pwospf_lsu_bcast_round rs = Some rs' \<Longrightarrow> ?thesis"
    by (fastforce simp: pwospf_lsu_bcast_round_def Let_def dest!: acquire_kept release_kept split: bind_splits)
qed

section \<open>What may change\<close>

text \<open>
  Every router of the database has one entry, at an address of its own, and this router is among them; an address has at most one entry in the ARP cache.
\<close>

definition db_ok :: "u32 \<times> (u32 \<times> nat) list \<times> nat \<Rightarrow> bool" where
  "db_ok = (\<lambda>(own, keys, n). distinct (map fst keys) \<and> own \<in> set (map fst keys) \<and> distinct (map snd keys) \<and> list_all (\<lambda>a. a < n) (map snd keys))"

definition arp_ok :: "arp_cache_entry list \<Rightarrow> bool" where
  "arp_ok c \<longleftrightarrow> distinct (map ac_ip c)"

definition safe :: "router_state \<Rightarrow> router_state \<Rightarrow> bool" where
  "safe rs rs' \<longleftrightarrow> routes_of rs' = routes_of rs \<and> (db_ok (db_of rs) \<longrightarrow> db_ok (db_of rs')) \<and> (arp_ok (arp_cache rs) \<longrightarrow> arp_ok (arp_cache rs'))"

lemma kept_safe: "kept rs' = kept rs \<Longrightarrow> safe rs rs'"
  by (simp add: kept_def safe_def)

lemma safe_trans: "safe a b \<Longrightarrow> safe b c \<Longrightarrow> safe a c"
  by (simp add: safe_def)

lemma safe_kept: "kept a = kept a' \<Longrightarrow> kept b = kept b' \<Longrightarrow> safe a b \<longleftrightarrow> safe a' b'"
  by (simp add: kept_def safe_def)

lemma safe_between: "kept a = kept rs \<Longrightarrow> safe a b \<Longrightarrow> kept rs' = kept b \<Longrightarrow> safe rs rs'"
  using safe_kept[of a rs b rs'] by simp

lemma safe_from: "safe a b \<Longrightarrow> kept a = kept rs \<Longrightarrow> kept rs' = kept b \<Longrightarrow> safe rs rs'"
  by (rule safe_between)

text \<open>The ARP cache.\<close>

lemma arp_rows_no_route: "route_writes (table_log arp_row_log j rows) = []"
proof (induction rows arbitrary: j)
  case (Cons r rows)
  then show ?case by (cases r) (simp add: arp_row_log_def route_writes_def)
qed (simp add: route_writes_def)

lemma trigger_arp_parts:
  "routes_of (trigger_arp_cache_modified rs) = routes_of rs" "db_of (trigger_arp_cache_modified rs) = db_of rs"
  "arp_cache (trigger_arp_cache_modified rs) = arp_cache rs"
  using arp_rows_no_route[of 0 "arp_rows (arp_cache rs)"]
  by (simp_all add: trigger_arp_eq routes_of_def db_of_def route_writes_def)

lemma arp_parts [simp]:
  "routes_of (rs\<lparr>arp_cache := c\<rparr>) = routes_of rs" "db_of (rs\<lparr>arp_cache := c\<rparr>) = db_of rs"
  by (simp_all add: routes_of_def db_of_def)

lemma update_arp_cache_safe: "safe rs (update_arp_cache rs ip m s)"
proof -
  have "arp_ok c \<Longrightarrow> arp_ok (update_first (\<lambda>e. ip = ac_ip e) (\<lambda>e. e\<lparr>ac_arp_ha := m, ac_TTL := t, ac_is_static := s\<rparr>) c)" for c t
    by (simp add: arp_ok_def map_update_first)
  then show ?thesis
    by (auto simp: safe_def update_arp_cache_def Let_def trigger_arp_parts arp_ok_def in_arp_cache_def find_None_set split: option.split)
qed

lemma expire_arp_cache_safe: "safe rs (expire_arp_cache rs)"
  by (auto simp: safe_def expire_arp_cache_def Let_def trigger_arp_parts arp_ok_def distinct_map_filter)

lemma del_arp_cache_safe: "del_arp_cache rs ip = (n, rs') \<Longrightarrow> safe rs rs'"
  by (auto simp: safe_def del_arp_cache_def arp_ok_def distinct_map_filter)

lemma trigger_arp_safe: "safe rs (trigger_arp_cache_modified rs)"
  by (simp add: safe_def trigger_arp_parts)

lemma process_arp_reply_safe: "process_arp_reply rs p = Some rs' \<Longrightarrow> safe rs rs'"
  by (auto simp: process_arp_reply_def send_queued_packets_def
      dest!: acquire_kept release_kept send_queued_from_kept split: bind_splits
      intro: safe_between[OF _ update_arp_cache_safe])

lemma process_arp_safe: "process_arp_packet rs p = Some rs' \<Longrightarrow> safe rs rs'"
  by (auto simp: process_arp_packet_def process_arp_request_def
      dest!: acquire_kept release_kept send_arp_reply_kept process_arp_reply_safe split: bind_splits if_splits option.splits
      intro: kept_safe)

lemma arp_round_safe: "arp_round rs = Some rs' \<Longrightarrow> safe rs rs'"
  by (auto simp: arp_round_def process_arp_queue_def dest!: acquire_kept release_kept process_arp_queue_from_kept split: bind_splits
      intro: safe_between[OF _ expire_arp_cache_safe])

text \<open>The database.\<close>

lemma append_router_safe:
  assumes "get_router_by_rid (pr_router_id r) (pwospf_router_list rs) = None" and "pr_addr r = next_addr rs"
  shows "safe rs (rs\<lparr>pwospf_router_list := pwospf_router_list rs @ [r], next_addr := Suc (next_addr rs)\<rparr>)"
  using assms
  by (auto simp: safe_def routes_of_def db_of_def db_ok_def key_of_def get_router_by_rid_def has_rid_def find_None_set list_all_iff)

lemma filter_routers_safe:
  assumes "\<And>r. pr_router_id r = router_id rs \<Longrightarrow> P r"
  shows "safe rs (rs\<lparr>pwospf_router_list := filter P (pwospf_router_list rs)\<rparr>)"
  using assms by (auto simp: safe_def routes_of_def db_of_def db_ok_def key_of_def comp_def distinct_map_filter list_all_iff)

lemma update_database_safe:
  assumes "update_database rs p = Some (a, b, rs')"
  shows "safe rs rs'"
proof -
  from assms obtain pw where pw: "get_pwospf_hdr p = Some pw" by (auto simp: update_database_def split: bind_splits)
  show ?thesis
  proof (cases "get_router_by_rid (pwospf_rid pw) (pwospf_router_list rs)")
    case None
    with assms pw show ?thesis
      by (auto simp: update_database_def add_new_router_neighbor_def Let_def split: bind_splits intro!: append_router_safe)
  next
    case (Some r)
    with assms pw have "kept rs' = kept rs" by (auto simp: update_database_def split: bind_splits if_splits)
    then show ?thesis by (rule kept_safe)
  qed
qed

lemma lsu_safe: "process_pwospf_lsu_packet rs p = Some rs' \<Longrightarrow> safe rs rs'"
  by (auto simp: process_pwospf_lsu_packet_def Let_def kept_safe
      dest!: acquire_kept release_kept broadcast_lsu_kept propagate_kept update_database_safe split: bind_splits if_splits)
    (erule safe_from, simp, simp)+

lemma pwospf_safe: "process_pwospf_packet rs p i = Some rs' \<Longrightarrow> safe rs rs'"
  by (auto simp: process_pwospf_packet_def kept_safe dest!: hello_kept lsu_safe split: bind_splits if_splits)

lemma timeout_round_safe: "pwospf_lsu_timeout_round rs = Some rs' \<Longrightarrow> safe rs rs'"
proof -
  have f: "safe s (s\<lparr>pwospf_router_list := filter (\<lambda>r. \<not> lsu_timed_out s r) (pwospf_router_list s)\<rparr>)" for s
    by (rule filter_routers_safe) (simp add: lsu_timed_out_def)
  show "pwospf_lsu_timeout_round rs = Some rs' \<Longrightarrow> ?thesis"
    by (auto simp: pwospf_lsu_timeout_round_def Let_def dest!: acquire_kept release_kept propagate_kept split: bind_splits if_splits
        intro: safe_between[OF _ f])
qed

section \<open>A packet\<close>

lemma local_safe: "process_local_packet rs p i = Some rs' \<Longrightarrow> safe rs rs'"
  by (auto simp: process_local_packet_def kept_safe dest!: process_icmp_kept send_icmp_kept pwospf_safe split: bind_splits if_splits)

lemma handle_safe: "handle_ip_packet rs p i = Some rs' \<Longrightarrow> safe rs rs'"
  by (auto simp: handle_ip_packet_def kept_safe dest!: local_safe pwospf_safe forward_kept nat_ext_kept acquire_kept release_kept
      split: bind_splits if_splits)
    (erule safe_from, simp, simp)+

lemma process_packet_safe: "process_packet rs p i = Some rs' \<Longrightarrow> safe rs rs'"
  by (auto simp: process_packet_def process_ip_packet_def iface_is_active_def Let_def kept_safe
      dest!: acquire_kept release_kept handle_safe process_arp_safe split: bind_splits if_splits)
    (erule safe_from, simp, simp)+


section \<open>The routing table\<close>

text \<open>The table is sorted, and the hardware holds its first 32 active routes, whatever it held before the writes.\<close>

definition routes_good :: "rtable_entry list \<times> bool \<times> (hw_reg \<times> u32) list \<Rightarrow> bool" where
  "routes_good = (\<lambda>(t, hw, ws). routes_sorted t \<and>
     (hw \<longrightarrow> (\<forall>latch tab n. n < 32 \<longrightarrow> replay_routes ws latch tab n = active_rows 32 t ! n)))"

text \<open>An operation that changes the table leaves it sorted and mirrored.\<close>

definition sound :: "router_state \<Rightarrow> router_state \<Rightarrow> bool" where
  "sound rs rs' \<longleftrightarrow> (routes_of rs' = routes_of rs \<or> routes_good (routes_of rs')) \<and>
     (db_ok (db_of rs) \<longrightarrow> db_ok (db_of rs')) \<and> (arp_ok (arp_cache rs) \<longrightarrow> arp_ok (arp_cache rs'))"

lemma safe_sound: "safe rs rs' \<Longrightarrow> sound rs rs'"
  by (simp add: safe_def sound_def)

lemma kept_sound: "kept rs' = kept rs \<Longrightarrow> sound rs rs'"
  by (rule safe_sound[OF kept_safe])

lemma sound_trans: "sound a b \<Longrightarrow> sound b c \<Longrightarrow> sound a c"
  by (auto simp: sound_def)

lemma sound_from: "sound a b \<Longrightarrow> kept a = kept rs \<Longrightarrow> kept rs' = kept b \<Longrightarrow> sound rs rs'"
  by (simp add: sound_def kept_def)

lemma rows_log_route: "route_writes (rows_log j rows) = rows_log j rows"
proof (induction rows arbitrary: j)
  case (Cons r rows)
  then show ?case by (cases r) (simp add: row_log_def route_writes_def)
qed (simp add: route_writes_def)

lemma trigger_sound:
  assumes "trigger_rtable_modified (rs\<lparr>rtable := t\<rparr>) = Some rs'"
  shows "sound rs rs'"
proof -
  let ?rs = "rs\<lparr>rtable := t\<rparr>"
  obtain t' where sorted: "routes_sorted t'"
    and run: "trigger_rtable_modified ?rs = (if is_netfpga ?rs
        then if \<forall>e\<in>set (take 32 (filter rt_is_active t')). has_port e
             then Some (?rs\<lparr>rtable := t', regs := regs ?rs @ rows_log 0 (active_rows 32 t')\<rparr>) else None
        else Some (?rs\<lparr>rtable := t'\<rparr>))"
    using trigger_rtable_modified_cases[of ?rs] by blast
  from assms have t': "rs' = (if is_netfpga rs then rs\<lparr>rtable := t', regs := regs rs @ rows_log 0 (active_rows 32 t')\<rparr> else rs\<lparr>rtable := t'\<rparr>)"
    unfolding run by (simp split: if_splits)
  have "replay_routes (route_writes (regs rs) @ rows_log 0 (active_rows 32 t')) latch tab n = active_rows 32 t' ! n" if "n < 32" for latch tab n
  proof -
    obtain l u where "replay_routes (route_writes (regs rs) @ rows_log 0 (active_rows 32 t')) latch tab = replay_routes (rows_log 0 (active_rows 32 t')) l u"
      using replay_routes_append by blast
    with that route_table.replay_full[of "active_rows 32 t'" n l u] show ?thesis by simp
  qed
  moreover have "route_writes (regs rs @ rows_log 0 (active_rows 32 t')) = route_writes (regs rs) @ rows_log 0 (active_rows 32 t')"
    using rows_log_route by (simp add: route_writes_def)
  ultimately show ?thesis
    using sorted unfolding t' by (auto simp: sound_def routes_good_def routes_of_def db_of_def)
qed

lemma add_route_sound: "add_route rs d g m i = Some (r, rs') \<Longrightarrow> sound rs rs'"
  by (auto simp: add_route_def Let_def dest: trigger_sound split: bind_splits)

lemma del_route_sound: "del_route rs d m = Some (r, rs') \<Longrightarrow> sound rs rs'"
  by (auto simp: del_route_def Let_def dest: trigger_sound split: bind_splits)

lemma deactivate_sound: "deactivate_routes rs i = Some (r, rs') \<Longrightarrow> sound rs rs'"
  by (auto simp: deactivate_routes_def dest: trigger_sound split: bind_splits)

lemma activate_sound: "activate_routes rs i = Some (r, rs') \<Longrightarrow> sound rs rs'"
  by (auto simp: activate_routes_def dest: trigger_sound split: bind_splits)

lemma shortest_paths_keys: "map key_of (shortest_paths rid rl) = map key_of rl"
proof -
  have un: "map key_of (update_neighbor w i rl) = map key_of rl" for w i rl
    by (auto simp: update_neighbor_def key_of_def intro!: map_same_update split: option.split)
  have "map key_of (update_neighbor_distance w rl) = map key_of rl" for w rl
    unfolding update_neighbor_distance_def by (rule fold_rids) (rule un)
  moreover have "map key_of (mark_found w rl) = map key_of rl" for w rl
    unfolding mark_found_def by (rule map_same_update) (simp add: key_of_def)
  ultimately have "map key_of (spf_loop r rl) = map key_of rl" for r rl
  proof (induction r rl rule: spf_loop.induct)
    case (1 r rl)
    show ?case
    proof (cases r)
      case (Some w)
      let ?x = "update_neighbor_distance w (mark_found w rl)"
      have "spf_loop r rl = spf_loop (get_shortest ?x) ?x" by (simp add: Some spf_loop.simps[of "Some w" rl] Let_def)
      moreover have "map key_of (spf_loop (get_shortest ?x) ?x) = map key_of ?x" by (rule 1) (use Some 1(2,3) in auto)
      ultimately show ?thesis using 1(2)[of w "mark_found w rl"] 1(3)[of w rl] by (simp only:)
    qed (simp add: spf_loop.simps[of None])
  qed
  moreover have "map key_of (map (init_router rid) rl) = map key_of rl" by (simp add: key_of_def init_router_def)
  ultimately show ?thesis by (simp add: shortest_paths_def Let_def)
qed

lemma dijkstra_round_sound: "dijkstra_round t rs = Some rs' \<Longrightarrow> sound rs rs'"
proof -
  have trigger: "sound rs rs'" if "trigger_rtable_modified (rs\<lparr>rtable := u, pwospf_router_list := shortest_paths rid (pwospf_router_list rs)\<rparr>) = Some rs'"
    for rs rs' u rid
  proof -
    let ?rl = "shortest_paths rid (pwospf_router_list rs)"
    have "rs\<lparr>rtable := u, pwospf_router_list := ?rl\<rparr> = (rs\<lparr>pwospf_router_list := ?rl\<rparr>)\<lparr>rtable := u\<rparr>" by simp
    with that have "sound (rs\<lparr>pwospf_router_list := ?rl\<rparr>) rs'" by (simp add: trigger_sound)
    then show ?thesis by (rule sound_from) (simp_all add: kept_routers shortest_paths_keys)
  qed
  show "dijkstra_round t rs = Some rs' \<Longrightarrow> sound rs rs'"
    by (auto simp: dijkstra_round_def compute_rtable_def Let_def kept_sound dest!: acquire_kept release_kept trigger split: bind_splits if_splits)
      (erule sound_from, simp, simp)+
qed

lemma iface_up_sound: "iface_up rs i = Some (r, rs') \<Longrightarrow> sound rs rs'"
  by (auto simp: iface_up_def Let_def kept_sound dest!: acquire_kept release_kept propagate_kept activate_sound
      split: bind_splits if_splits option.splits) (erule sound_from, simp, simp)+

lemma iface_down_sound: "iface_down rs i = Some (r, rs') \<Longrightarrow> sound rs rs'"
  by (auto simp: iface_down_def Let_def kept_sound dest!: acquire_kept release_kept propagate_kept deactivate_sound
      split: bind_splits if_splits option.splits) (erule sound_from, simp, simp)+


section \<open>Commands\<close>

named_theorems handlers \<open>no command damages the tables\<close>

definition sound_handler :: "cli_command_handler \<Rightarrow> bool" where
  "sound_handler h \<longleftrightarrow> (\<forall>env rs command rs' texts. h env rs command = Some (rs', texts) \<longrightarrow> sound rs rs')"

lemma sound_handlerI: "(\<And>env rs command rs' texts. h env rs command = Some (rs', texts) \<Longrightarrow> sound rs rs') \<Longrightarrow> sound_handler h"
  by (simp add: sound_handler_def)

lemma kept_handlerI: "(\<And>env rs command rs' texts. h env rs command = Some (rs', texts) \<Longrightarrow> kept rs' = kept rs) \<Longrightarrow> sound_handler h"
  unfolding sound_handler_def by (blast intro: kept_sound)

lemma regs_kept: "route_writes log = [] \<Longrightarrow> kept (rs\<lparr>regs := regs rs @ log\<rparr>) = kept rs"
  by (simp add: kept_defs route_writes_def)

lemma rtable_command [handlers]: "sound_handler (\<lambda>_. cli_show_ip_rtable)" "sound_handler (\<lambda>_. cli_ip_route_add)" "sound_handler (\<lambda>_. cli_ip_route_del)"
proof -
  show "sound_handler (\<lambda>_. cli_show_ip_rtable)"
    by (rule kept_handlerI) (auto simp: cli_show_ip_rtable_def dest!: acquire_kept release_kept split: bind_splits)
  show "sound_handler (\<lambda>_. cli_ip_route_add)"
    by (rule sound_handlerI)
      (auto simp: cli_ip_route_add_def bad_arguments_def kept_sound dest!: acquire_kept release_kept add_route_sound
        split: bind_splits list.splits scanned.splits option.splits, (erule sound_from, simp, simp)+)
  show "sound_handler (\<lambda>_. cli_ip_route_del)"
    by (rule sound_handlerI)
      (auto simp: cli_ip_route_del_def bad_arguments_def kept_sound dest!: acquire_kept release_kept del_route_sound
        split: bind_splits list.splits scanned.splits option.splits, (erule sound_from, simp, simp)+)
qed

lemma arp_command [handlers]:
  "sound_handler (\<lambda>_. cli_show_ip_arp)" "sound_handler (\<lambda>_. cli_ip_arp_add)" "sound_handler (\<lambda>_. cli_ip_arp_del)"
  "sound_handler (\<lambda>_. cli_nuke_arp_cache)" "sound_handler (\<lambda>_. cli_nuke_hw_arp_cache_entry)" "sound_handler (\<lambda>_. cli_ip_arp_set_ttl)"
proof -
  show "sound_handler (\<lambda>_. cli_show_ip_arp)"
    by (rule kept_handlerI) (auto simp: cli_show_ip_arp_def Let_def dest!: acquire_kept release_kept split: bind_splits)
  show "sound_handler (\<lambda>_. cli_ip_arp_add)"
    by (rule sound_handlerI)
      (auto simp: cli_ip_arp_add_def bad_arguments_def Let_def kept_sound dest!: acquire_kept release_kept
        split: bind_splits list.splits scanned.splits option.splits
        intro: safe_sound[OF safe_between[OF _ update_arp_cache_safe]])
  have del: "safe rs (if n > 0 then trigger_arp_cache_modified rs' else rs')" if "del_arp_cache rs ip = (n, rs')" for rs ip n rs'
    using del_arp_cache_safe[OF that] safe_trans[OF _ trigger_arp_safe] by simp
  show "sound_handler (\<lambda>_. cli_ip_arp_del)"
  proof (rule sound_handlerI)
    fix env :: cli_env and rs command rs' texts
    assume "cli_ip_arp_del rs command = Some (rs', texts)"
    then show "sound rs rs'"
      by (auto simp: cli_ip_arp_del_def bad_arguments_def Let_def kept_sound split_beta dest!: acquire_kept release_kept
        split: bind_splits list.splits scanned.splits option.splits
        intro!: safe_sound intro: safe_between[OF _ del[OF prod.collapse[symmetric]]])
  qed
  have nuke: "safe rs (trigger_arp_cache_modified (rs\<lparr>arp_cache := []\<rparr>))" "safe rs (rs\<lparr>arp_cache := []\<rparr>)" for rs
    by (simp_all add: safe_def trigger_arp_parts arp_ok_def)
  show "sound_handler (\<lambda>_. cli_nuke_arp_cache)"
    by (rule sound_handlerI)
      (auto simp: cli_nuke_arp_cache_def Let_def dest!: acquire_kept release_kept split: bind_splits if_splits
        intro: safe_sound[OF safe_between[OF _ nuke(1)]] safe_sound[OF safe_between[OF _ nuke(2)]])
  show "sound_handler (\<lambda>_. cli_nuke_hw_arp_cache_entry)"
    by (rule kept_handlerI)
      (auto simp: cli_nuke_hw_arp_cache_entry_def Let_def split: bind_splits list.splits scanned.splits if_splits)
  show "sound_handler (\<lambda>_. cli_ip_arp_set_ttl)"
    by (rule kept_handlerI) (auto simp: cli_ip_arp_set_ttl_def Let_def split: bind_splits list.splits scanned.splits)
qed


lemma hw_tables_kept:
  assumes "sprint_hw_rtable hw rs = Some (t, rs')"
  shows "kept rs' = kept rs"
proof -
  have "kept (snd s) = kept rs" if "run_all (print_hw_route hw cap) ks (b, rs) = Some s" for cap ks b s
    using that by (rule run_all_invariant[where P = "\<lambda>s. kept (snd s) = kept rs"])
      (auto simp: print_hw_route_def Let_def split: bind_splits)
  with assms show ?thesis by (fastforce simp: sprint_hw_rtable_def Let_def split: bind_splits)
qed

lemma hw_arp_kept:
  assumes "sprint_hw_arp_cache hw rs = Some (t, rs')"
  shows "kept rs' = kept rs"
proof -
  have "kept (snd s) = kept rs" if "run_all (print_hw_arp hw cap) ks (b, rs) = Some s" for cap ks b s
    using that by (rule run_all_invariant[where P = "\<lambda>s. kept (snd s) = kept rs"])
      (auto simp: print_hw_arp_def Let_def split: bind_splits)
  with assms show ?thesis by (fastforce simp: sprint_hw_arp_cache_def Let_def split: bind_splits)
qed

lemma hw_filter_kept:
  assumes "sprint_hw_local_ip_filter hw rs = Some (t, rs')"
  shows "kept rs' = kept rs"
proof -
  have "kept (snd s) = kept rs" if "run_all (print_hw_filter hw cap) ks (b, rs) = Some s" for cap ks b s
    using that by (rule run_all_invariant[where P = "\<lambda>s. kept (snd s) = kept rs"])
      (auto simp: print_hw_filter_def Let_def split: bind_splits)
  with assms show ?thesis by (fastforce simp: sprint_hw_local_ip_filter_def Let_def split: bind_splits if_splits)
qed

lemma mac_kept [simp]: "kept (write_hw_iface_mac rs p hi lo) = kept rs" "kept (set_hw_iface rs q c) = kept rs"
  by (simp_all add: write_hw_iface_mac_def set_hw_iface_def)

lemma iface_update_kept: "iface_update rs i a m = (r, rs') \<Longrightarrow> kept rs' = kept rs"
  by (auto simp: iface_update_def split: option.splits)

lemma iface_command [handlers]:
  "sound_handler (\<lambda>_. cli_show_ip_iface)" "sound_handler (\<lambda>_. cli_hw_interface_add)" "sound_handler (\<lambda>_. cli_hw_interface_del)"
  "sound_handler (\<lambda>_. cli_hw_interface_set)" "sound_handler (\<lambda>_. cli_ip_interface)"
proof -
  show "sound_handler (\<lambda>_. cli_show_ip_iface)"
    by (rule kept_handlerI) (auto simp: cli_show_ip_iface_def dest!: acquire_kept release_kept split: bind_splits)
  show "sound_handler (\<lambda>_. cli_hw_interface_add)"
    by (rule kept_handlerI) (auto simp: cli_hw_interface_add_def bad_arguments_def
        split: bind_splits list.splits scanned.splits option.splits if_splits)
  show "sound_handler (\<lambda>_. cli_hw_interface_del)"
    by (rule kept_handlerI) (auto simp: cli_hw_interface_del_def bad_arguments_def
        split: bind_splits list.splits scanned.splits option.splits if_splits)
  show "sound_handler (\<lambda>_. cli_hw_interface_set)"
    by (rule kept_handlerI) (auto simp: cli_hw_interface_set_def
        split: bind_splits list.splits scanned.splits option.splits if_splits)
  show "sound_handler (\<lambda>_. cli_ip_interface)"
  proof (rule sound_handlerI)
    fix env :: cli_env and rs command rs' texts
    assume run: "cli_ip_interface rs command = Some (rs', texts)"
    then obtain args where args: "sscanf command ''ip interface %as %as %as'' = Some args"
      by (auto simp: cli_ip_interface_def split: bind_splits)
    show "sound rs rs'"
    proof (cases "\<exists>name ip_str rest. args = Str name # Str ip_str # rest")
      case True
      then obtain name ip_str rest where a: "args = Str name # Str ip_str # rest" by blast
      consider "strncmp_eq ''up'' ip_str 2" | "\<not> strncmp_eq ''up'' ip_str 2" "strncmp_eq ''down'' ip_str 4"
        | "\<not> strncmp_eq ''up'' ip_str 2" "\<not> strncmp_eq ''down'' ip_str 4" by blast
      then show ?thesis
      proof cases
        case 1
        with run args a show ?thesis
          by (auto simp: cli_ip_interface_def dest!: acquire_kept release_kept iface_up_sound split: bind_splits)
            (erule sound_from, simp, simp)+
      next
        case 2
        with run args a show ?thesis
          by (auto simp: cli_ip_interface_def dest!: acquire_kept release_kept iface_down_sound split: bind_splits)
            (erule sound_from, simp, simp)+
      next
        case 3
        with run args a have "kept rs' = kept rs"
          by (auto simp: cli_ip_interface_def split_beta iface_update_kept[OF prod.collapse[symmetric]] dest!: acquire_kept release_kept
              split: bind_splits list.splits scanned.splits option.splits)
        then show ?thesis by (rule kept_sound)
      qed
    next
      case False
      with run args have "rs' = rs" by (auto simp: cli_ip_interface_def split: list.splits scanned.splits)
      then show ?thesis by (simp add: kept_sound)
    qed
  qed
qed

lemma pwospf_command [handlers]:
  "sound_handler (\<lambda>_. cli_show_pwospf_iface)" "sound_handler (\<lambda>_. cli_show_pwospf_router_list)" "sound_handler (\<lambda>_. cli_pwospf_set_aid)"
  "sound_handler (\<lambda>_. cli_pwospf_set_hello)" "sound_handler (\<lambda>_. cli_pwospf_set_lsu_broadcast)" "sound_handler (\<lambda>_. cli_pwospf_set_lsu_interval)"
  "sound_handler (\<lambda>_. cli_show_pwospf_info)" "sound_handler (\<lambda>_. cli_pwospf_send_hello)" "sound_handler (\<lambda>_. cli_pwospf_send_lsu)"
proof -
  show "sound_handler (\<lambda>_. cli_show_pwospf_iface)"
    by (rule kept_handlerI) (auto simp: cli_show_pwospf_iface_def bad_arguments_def Let_def dest!: acquire_kept release_kept 
        split: bind_splits list.splits scanned.splits if_splits)
  show "sound_handler (\<lambda>_. cli_show_pwospf_router_list)"
    by (rule kept_handlerI) (auto simp: cli_show_pwospf_router_list_def bad_arguments_def Let_def dest!: acquire_kept release_kept 
        split: bind_splits list.splits scanned.splits if_splits)
  show "sound_handler (\<lambda>_. cli_pwospf_set_aid)"
    by (rule kept_handlerI) (auto simp: cli_pwospf_set_aid_def bad_arguments_def Let_def dest!: acquire_kept release_kept 
        split: bind_splits list.splits scanned.splits if_splits)
  show "sound_handler (\<lambda>_. cli_pwospf_set_hello)"
    by (rule kept_handlerI) (auto simp: cli_pwospf_set_hello_def bad_arguments_def Let_def dest!: acquire_kept release_kept 
        split: bind_splits list.splits scanned.splits if_splits)
  show "sound_handler (\<lambda>_. cli_pwospf_set_lsu_broadcast)"
    by (rule kept_handlerI) (auto simp: cli_pwospf_set_lsu_broadcast_def bad_arguments_def Let_def dest!: acquire_kept release_kept 
        split: bind_splits list.splits scanned.splits if_splits)
  show "sound_handler (\<lambda>_. cli_pwospf_set_lsu_interval)"
    by (rule kept_handlerI) (auto simp: cli_pwospf_set_lsu_interval_def bad_arguments_def Let_def dest!: acquire_kept release_kept 
        split: bind_splits list.splits scanned.splits if_splits)
  show "sound_handler (\<lambda>_. cli_show_pwospf_info)"
    by (rule kept_handlerI) (auto simp: cli_show_pwospf_info_def bad_arguments_def Let_def dest!: acquire_kept release_kept 
        split: bind_splits list.splits scanned.splits if_splits)
  show "sound_handler (\<lambda>_. cli_pwospf_send_hello)"
    by (rule kept_handlerI) (auto simp: cli_pwospf_send_hello_def bad_arguments_def Let_def dest!: acquire_kept release_kept broadcast_hello_kept
        split: bind_splits list.splits scanned.splits if_splits)
  show "sound_handler (\<lambda>_. cli_pwospf_send_lsu)"
    by (rule kept_handlerI) (auto simp: cli_pwospf_send_lsu_def bad_arguments_def Let_def dest!: acquire_kept release_kept start_flood_kept
        split: bind_splits list.splits scanned.splits if_splits)
qed

lemma env_command [handlers]:
  "sound_handler cli_show_hw_rtable" "sound_handler cli_show_hw_arp_cache" "sound_handler cli_show_hw_interface"
  "sound_handler cli_hw_arp_cache_misses" "sound_handler cli_hw_num_pckts_fwd" "sound_handler cli_hw_info" "sound_handler cli_sping"
  by (rule kept_handlerI, auto simp: cli_show_hw_rtable_def cli_show_hw_arp_cache_def cli_show_hw_interface_def cli_hw_arp_cache_misses_def
      cli_hw_num_pckts_fwd_def cli_hw_info_def cli_sping_def Let_def
      dest!: hw_tables_kept hw_arp_kept hw_filter_kept echo_request_kept wait_for_reply_kept
      split: bind_splits option.splits if_splits)+

lemma text_handler: "(\<And>env rs command. \<exists>texts. h env rs command = Some (rs, texts)) \<Longrightarrow> sound_handler h"
  by (rule kept_handlerI) (metis option.inject prod.inject)

lemma text_command [handlers]:
  "sound_handler (\<lambda>_. cli_help)" "sound_handler (\<lambda>_. cli_show_help)" "sound_handler (\<lambda>_. cli_hw_help)" "sound_handler (\<lambda>_. cli_show_vns_help)"
  "sound_handler (\<lambda>_. cli_show_vns_user_help)" "sound_handler (\<lambda>_. cli_show_vns_lhost_help)" "sound_handler (\<lambda>_. cli_show_vns_vhost_help)" "sound_handler (\<lambda>_. cli_show_vns_server_help)"
  "sound_handler (\<lambda>_. cli_show_vns_topology_help)" "sound_handler (\<lambda>_. cli_show_ip_help)" "sound_handler (\<lambda>_. cli_show_ip_arp_help)" "sound_handler (\<lambda>_. cli_show_ip_iface_help)"
  "sound_handler (\<lambda>_. cli_show_ip_rtable_help)" "sound_handler (\<lambda>_. cli_ip_help)" "sound_handler (\<lambda>_. cli_ip_route_help)" "sound_handler (\<lambda>_. cli_ip_route_add_help)"
  "sound_handler (\<lambda>_. cli_ip_route_del_help)" "sound_handler (\<lambda>_. cli_ip_interface_help)" "sound_handler (\<lambda>_. cli_ip_arp_help)" "sound_handler (\<lambda>_. cli_ip_arp_add_help)"
  "sound_handler (\<lambda>_. cli_ip_arp_del_help)" "sound_handler (\<lambda>_. cli_sping_help)" "sound_handler (\<lambda>_. cli_pwospf_help)" "sound_handler (\<lambda>_. cli_show_pwospf_iface_help)"
  "sound_handler (\<lambda>_. cli_pwospf_set_aid_help)" "sound_handler cli_show_vns" "sound_handler cli_show_vns_user" "sound_handler cli_show_vns_server"
  "sound_handler cli_show_vns_vhost" "sound_handler cli_show_vns_lhost" "sound_handler cli_show_vns_topology"
  by (rule kept_handlerI, simp add: cli_help_def cli_show_help_def cli_hw_help_def cli_show_vns_help_def cli_show_vns_user_help_def
    cli_show_vns_lhost_help_def cli_show_vns_vhost_help_def cli_show_vns_server_help_def cli_show_vns_topology_help_def cli_show_ip_help_def
    cli_show_ip_arp_help_def cli_show_ip_iface_help_def cli_show_ip_rtable_help_def cli_ip_help_def cli_ip_route_help_def
    cli_ip_route_add_help_def cli_ip_route_del_help_def cli_ip_interface_help_def cli_ip_arp_help_def cli_ip_arp_add_help_def
    cli_ip_arp_del_help_def cli_sping_help_def cli_pwospf_help_def cli_show_pwospf_iface_help_def cli_pwospf_set_aid_help_def cli_show_vns_def
    cli_show_vns_user_def cli_show_vns_server_def cli_show_vns_vhost_def cli_show_vns_lhost_def cli_show_vns_topology_def)+

lemma registered_sound: "list_all (\<lambda>(c, h). sound_handler h) cli_registrations"
  unfolding cli_registrations_def
  by (simp add: handlers)

end
