(* ===== verification/Router_System.thy ===== *)
theory Router_System
  imports Router_Frame
begin

text \<open>
  The router as a whole: its start, one step for each thing its threads do, and what holds in every state it can reach. A step is a
  packet from the wire, a round of one of the periodic threads, a packet of the TCP stack, a command of a client, or the passing of time.
\<close>

section \<open>Start\<close>

text \<open>The part of \<open>init\<close> after the locks have been created: the state it fills in, and the hardware.\<close>

definition init :: "(string \<Rightarrow> string \<Rightarrow> int) \<Rightarrow> bool \<Rightarrow> router_state outcome" where
  "init cmp netfpga = do {
     let rs = idle_router\<lparr>is_netfpga := netfpga\<rparr>;
     rs \<leftarrow> (if netfpga then init_hardware rs else Some rs);
     (if netfpga then map_option snd (add_local_ip_filter cmp rs (htonl 0xE0000005) ''pwospf'') else Some rs) }"

definition sr_integ_add_interface :: "(string \<Rightarrow> string \<Rightarrow> int) \<Rightarrow> sr_vns_if \<Rightarrow> router_state \<Rightarrow> router_state outcome" where
  "sr_integ_add_interface cmp vns_if rs = init_add_interface cmp rs vns_if"

definition sr_integ_hw_setup ::
    "(string \<Rightarrow> string \<Rightarrow> int) \<Rightarrow> (u32 \<times> u32 \<times> u32 \<times> string) list \<Rightarrow> router_state \<Rightarrow> (cli_entry list \<times> router_state) outcome" where
  "sr_integ_hw_setup cmp rows rs = do {
     rs \<leftarrow> init_router_list rs;
     rs \<leftarrow> init_rtable rows rs;
     init_cli cmp rs }"

definition start_up ::
    "(string \<Rightarrow> string \<Rightarrow> int) \<Rightarrow> bool \<Rightarrow> sr_vns_if list \<Rightarrow> (u32 \<times> u32 \<times> u32 \<times> string) list \<Rightarrow> (cli_entry list \<times> router_state) outcome" where
  "start_up cmp netfpga ifs rows = do {
     rs \<leftarrow> init cmp netfpga;
     rs \<leftarrow> run_all (sr_integ_add_interface cmp) ifs rs;
     sr_integ_hw_setup cmp rows rs }"

section \<open>Steps\<close>

datatype event =
    Packet "byte list" string
  | Arp_round | Hello_round | Lsu_round | Lsu_timeout_round | Lsu_bcast_round | Dijkstra_round bool | Sping_cleanup
  | Transport "byte list" byte u32 u32
  | Command cli_env string
  | Time int

text \<open>Every step is one call of the code that comes to its end.\<close>

inductive step :: "cli_entry list \<Rightarrow> router_state \<Rightarrow> event \<Rightarrow> router_state \<Rightarrow> bool" for cs where
  packet: "process_packet rs p i = Some rs' \<Longrightarrow> step cs rs (Packet p i) rs'"
| arp: "arp_round rs = Some rs' \<Longrightarrow> step cs rs Arp_round rs'"
| hello: "pwospf_hello_round rs = Some rs' \<Longrightarrow> step cs rs Hello_round rs'"
| lsu: "pwospf_lsu_round rs = Some rs' \<Longrightarrow> step cs rs Lsu_round rs'"
| lsu_timeout: "pwospf_lsu_timeout_round rs = Some rs' \<Longrightarrow> step cs rs Lsu_timeout_round rs'"
| lsu_bcast: "pwospf_lsu_bcast_round rs = Some rs' \<Longrightarrow> step cs rs Lsu_bcast_round rs'"
| dijkstra: "dijkstra_round t rs = Some rs' \<Longrightarrow> step cs rs (Dijkstra_round t) rs'"
| sping: "sping_queue_cleanup rs = Some rs' \<Longrightarrow> step cs rs Sping_cleanup rs'"
| transport: "integ_ip_output rs payload proto src dest = Some (r, rs') \<Longrightarrow> step cs rs (Transport payload proto src dest) rs'"
| command: "run_command cs env rs cmd = Some (rs', texts) \<Longrightarrow> step cs rs (Command env cmd) rs'"
| time: "clock rs \<le> t \<Longrightarrow> step cs rs (Time t) (rs\<lparr>clock := t\<rparr>)"

inductive_cases packet_stepE [elim]: "step cs rs (Packet p i) rs'"
inductive_cases command_stepE [elim]: "step cs rs (Command env cmd) rs'"
inductive_simps time_step: "step cs rs (Time t) rs'"

inductive reachable :: "cli_entry list \<Rightarrow> router_state \<Rightarrow> router_state \<Rightarrow> bool" for cs rs0 where
  start: "reachable cs rs0 rs0"
| further: "reachable cs rs0 rs \<Longrightarrow> step cs rs ev rs' \<Longrightarrow> reachable cs rs0 rs'"

section \<open>Every step is sound\<close>

lemma transport_kept: "integ_ip_output rs payload proto src dest = Some (r, rs') \<Longrightarrow> kept rs' = kept rs"
  by (auto simp: integ_ip_output_def send_ip_packet_def Let_def dest!: acquire_kept release_kept send_ip_kept
      split: bind_splits option.splits)

lemma registered_handler: "ce \<in> set registered \<Longrightarrow> sound_handler (ce_handler ce)"
  using registered_sound by (auto simp: registered_def create_cli_entry_def list_all_iff)

lemma sound_handlerD: "sound_handler h \<Longrightarrow> h env rs cmd = Some (rs', texts) \<Longrightarrow> sound rs rs'"
  unfolding sound_handler_def by blast

lemma run_command_sound:
  assumes "mset cs = mset registered" and "run_command cs env rs cmd = Some (rs', texts)"
  shows "sound rs rs'"
proof (cases "cli_command_lpm registered cmd")
  case None
  with assms cli_lpm_mset[OF registered_distinct assms(1), of cmd] show ?thesis by (simp add: run_command_def kept_sound)
next
  case (Some h)
  then obtain ce where "lpm_commands cmd registered 0 None = Some ce" "h = ce_handler ce" by (auto simp: cli_command_lpm_def)
  with cli_lpm_Some[of cmd registered ce] registered_handler have "sound_handler h" by (auto simp: longest_prefix_def)
  with Some assms cli_lpm_mset[OF registered_distinct assms(1), of cmd] show ?thesis
    by (simp add: run_command_def) (blast dest: sound_handlerD)
qed

lemma step_sound:
  assumes "step cs rs ev rs'" and "mset cs = mset registered"
  shows "sound rs rs'"
  using assms
proof (cases rule: step.cases)
  case (command env cmd texts)
  then show ?thesis using run_command_sound[OF assms(2)] by blast
qed (auto intro: safe_sound kept_sound process_packet_safe arp_round_safe timeout_round_safe hello_round_kept lsu_round_kept bcast_round_kept
    sping_cleanup_kept transport_kept dijkstra_round_sound)

lemma reachable_sound: "reachable cs rs0 rs \<Longrightarrow> mset cs = mset registered \<Longrightarrow> sound rs0 rs"
proof (induction rule: reachable.induct)
  case (further rs ev rs')
  then show ?case using step_sound sound_trans by blast
qed (simp add: kept_sound)


section \<open>The state after the start\<close>

definition base :: "router_state \<Rightarrow> arp_cache_entry list \<times> rtable_entry list \<times> pwospf_router list" where
  "base rs = (arp_cache rs, rtable rs, pwospf_router_list rs)"

lemma base_update [simp]:
  "base (rs\<lparr>held := a\<rparr>) = base rs" "base (rs\<lparr>regs := b\<rparr>) = base rs" "base (rs\<lparr>local_ip_filter_list := c\<rparr>) = base rs"
  "base (rs\<lparr>if_list := d\<rparr>) = base rs" "base (rs\<lparr>router_id := e\<rparr>) = base rs" "base (rs\<lparr>is_netfpga := f\<rparr>) = base rs"
  by (simp_all add: base_def)

lemma acquire_base: "acquire l m rs = Some rs' \<Longrightarrow> base rs' = base rs"
  by (auto simp: acquire_def split: if_splits)

lemma release_base: "release l rs = Some rs' \<Longrightarrow> base rs' = base rs"
  by (auto simp: release_def split: if_splits)

lemma filter_base: "add_local_ip_filter cmp rs ip n = Some (r, rs') \<Longrightarrow> base rs' = base rs"
  by (auto simp: add_local_ip_filter_def trigger_local_ip_filters_change_def write_filter_rows_log Let_def
      dest!: acquire_base release_base split: bind_splits if_splits)

lemma init_base: "init cmp net = Some rs \<Longrightarrow> base rs = ([], [], [])"
proof -
  have idle: "base idle_router = ([], [], [])" by (simp add: base_def idle_router_def)
  have hw: "base rs' = base rs" if "init_hardware rs = Some rs'" for rs rs'
    using that by (auto simp: init_hardware_def write_rtable_to_hw_log write_arp_cache_to_hw_log writeReg_def split: if_splits)
  show "init cmp net = Some rs \<Longrightarrow> base rs = ([], [], [])"
    by (auto simp: init_def idle Let_def dest!: hw filter_base split: bind_splits if_splits)
qed

lemma add_interface_base: "sr_integ_add_interface cmp v rs = Some rs' \<Longrightarrow> base rs' = base rs"
  by (auto simp: sr_integ_add_interface_def init_add_interface_def write_hw_iface_mac_def writeReg_def Let_def dest!: filter_base
      split: bind_splits if_splits)

lemma init_cli_Some:
  assumes "c_strcmp cmp" and "init_cli cmp rs = Some (cs, rs')"
  shows "rs' = rs" and "mset cs = mset registered"
proof -
  have "lock_free CliCommands rs"
    using assms(2) by (auto simp: init_cli_def acquire_def lock_free_def split: bind_splits if_splits)
  from init_cli_table[OF assms(1) this] assms(2) show "rs' = rs" "mset cs = mset registered" by auto
qed

lemma init_router_list_db: "init_router_list rs = Some rs' \<Longrightarrow> db_ok (db_of rs') \<and> arp_cache rs' = arp_cache rs"
  by (auto simp: init_router_list_def Let_def db_ok_def db_of_def key_of_def split: if_splits)

lemma db_of_update [simp]: "db_of (rs\<lparr>rtable := t\<rparr>) = db_of rs" "arp_cache (rs\<lparr>rtable := t\<rparr>) = arp_cache rs"
  by (simp_all add: db_of_def)

lemma kept_parts: "kept rs = kept rs' \<Longrightarrow> db_of rs = db_of rs' \<and> arp_cache rs = arp_cache rs'"
  by (simp add: kept_def)

lemma init_rtable_db: "init_rtable rows rs = Some rs' \<Longrightarrow> db_of rs' = db_of rs \<and> arp_cache rs' = arp_cache rs"
proof -
  assume "init_rtable rows rs = Some rs'"
  then obtain a t where a: "acquire RtableLock Wr rs = Some a" and "kept rs' = kept (a\<lparr>rtable := t\<rparr>)"
    by (auto simp: init_rtable_def Let_def dest!: release_kept split: bind_splits option.splits)
      (auto dest!: acquire_kept)
  from kept_parts[OF acquire_kept[OF a]] kept_parts[OF this(2)] show ?thesis by simp
qed

lemma start_up_ok:
  assumes "c_strcmp cmp" and "start_up cmp net ifs rows = Some (cs, rs)"
  shows "mset cs = mset registered" and "db_ok (db_of rs)" and "arp_ok (arp_cache rs)"
proof -
  from assms(2) obtain r1 r2 r3 r4 where steps: "init cmp net = Some r1" "run_all (sr_integ_add_interface cmp) ifs r1 = Some r2"
    "init_router_list r2 = Some r3" "init_rtable rows r3 = Some r4" "init_cli cmp r4 = Some (cs, rs)"
    by (auto simp: start_up_def sr_integ_hw_setup_def split: bind_splits)
  show "mset cs = mset registered" by (rule init_cli_Some(2)[OF assms(1) steps(5)])
  have rs: "rs = r4" by (rule init_cli_Some(1)[OF assms(1) steps(5)])
  have "base r2 = base r1"
    using steps(2) by (rule run_all_invariant[where P = "\<lambda>s. base s = base r1"]) (auto dest: add_interface_base)
  with init_base[OF steps(1)] have "arp_cache r2 = []" by (simp add: base_def)
  with init_router_list_db[OF steps(3)] init_rtable_db[OF steps(4)] show "db_ok (db_of rs)" "arp_ok (arp_cache rs)"
    by (simp_all add: rs arp_ok_def)
qed

section \<open>Properties\<close>

text \<open>
  C3. In every state that the router can reach from its start, by any sequence of packets, thread rounds, commands of clients and packets
  of the TCP stack: every router has one entry in the link state database, at an address of its own, and this router has one;
  and no address has two entries in the ARP cache. So unless some neighbour announced the router id 0, the database is one on which the
  computation of the shortest paths is exact.
\<close>

theorem reachable_well_formed:
  assumes "c_strcmp cmp" and "start_up cmp net ifs rows = Some (cs, rs0)" and "reachable cs rs0 rs"
  shows "distinct (map pr_router_id (pwospf_router_list rs)) \<and> distinct (map pr_addr (pwospf_router_list rs))
    \<and> get_router_by_rid (router_id rs) (pwospf_router_list rs) \<noteq> None
    \<and> distinct (map ac_ip (arp_cache rs))
    \<and> (0 \<in> set (map pr_router_id (pwospf_router_list rs)) \<or> database_ok (router_id rs) (pwospf_router_list rs))"
proof -
  note ok = start_up_ok[OF assms(1,2)]
  from reachable_sound[OF assms(3) ok(1)] ok(2,3) have "db_ok (db_of rs)" "arp_ok (arp_cache rs)" by (auto simp: sound_def)
  then show ?thesis
    by (auto simp: db_ok_def db_of_def key_of_def comp_def arp_ok_def database_ok_def get_router_by_rid_def has_rid_def find_None_set)
qed


lemma replay_route_writes: "replay_routes (route_writes ws) latch tab = replay_routes ws latch tab"
proof (induction ws latch tab rule: replay_routes.induct)
  case (2 r v ws i m g p tab)
  then show ?case by (cases r) (simp_all add: route_writes_def fun_upd_def del: fun_upd_apply)
qed (simp add: route_writes_def)

lemma reachable_routes:
  assumes "c_strcmp cmp" and "start_up cmp net ifs rows = Some (cs, rs0)" and "reachable cs rs0 rs" and "rtable rs \<noteq> rtable rs0"
  shows "routes_sorted (rtable rs)"
    and "is_netfpga rs \<Longrightarrow> n < 32 \<Longrightarrow> replay_routes (regs rs) latch tab n = active_rows 32 (rtable rs) ! n"
  using reachable_sound[OF assms(3) start_up_ok(1)[OF assms(1,2)]] assms(4)
  by (auto simp: sound_def routes_of_def routes_good_def replay_route_writes simp del: split_paired_All)

text \<open>
  C2. The two routing tables never drift apart. In every reachable state in which the routing table is not the configured one of
  the start any more, it is sorted, and the registers written so far have left its first 32 active routes in the hardware,
  in their order. So a destination that the software forwards takes the same route in hardware: the first row that
  matches is the row of the route with the longest prefix (when the masks are contiguous and the active routes fit).
\<close>

theorem reachable_hardware_agrees:
  assumes "c_strcmp cmp" and "start_up cmp net ifs rows = Some (cs, rs0)" and "reachable cs rs0 rs" and "rtable rs \<noteq> rtable rs0"
    and "is_netfpga rs" and "list_all contiguous (rtable rs)" and "length (filter rt_is_active (rtable rs)) \<le> 32"
    and "get_next_hop rs len d = Some (hop, out)"
  shows "routes_sorted (rtable rs)
    \<and> (\<exists>e. find (row_matches d) (map (replay_routes (regs rs) latch tab) [0..<32]) = Some (route_row e)
        \<and> is_lpm d (rtable rs) e \<and> hop = (if rt_gw e = 0 then d else rt_gw e) \<and> out = take len (rt_iface e))"
proof -
  note routes = reachable_routes[OF assms(1-4)]
  have "map (replay_routes (regs rs) latch tab) [0..<32] = active_rows 32 (rtable rs)"
    by (rule nth_equalityI) (simp_all add: routes(2)[OF assms(5)])
  moreover obtain e where e: "lpm_walk d (rtable rs) None (- 1) = Some e" "hop = (if rt_gw e = 0 then d else rt_gw e)" "out = take len (rt_iface e)"
    using assms(8) by (auto simp: get_next_hop_def strncpy_def split: option.splits)
  moreover have "find (row_matches d) (active_rows 32 (rtable rs)) = Some (route_row e)"
    using first_row_is_lpm[OF routes(1) _ assms(7) e(1)] assms(6) by (simp add: list_all_iff)
  ultimately show ?thesis using routes(1) lpm_walk_is_lpm[OF e(1)] by auto
qed

section \<open>A router to start\<close>

definition one_iface :: sr_vns_if where
  "one_iface = \<lparr>vns_name = ''eth0'', vns_addr = Mac 0 0 0 0 0 1, vns_ip = htonl 0x0A000001, vns_mask = htonl 0xFFFFFF00, vns_speed = 0\<rparr>"

lemma one_iface_starts:
  obtains cs rs where "start_up str_sign True [one_iface] [] = Some (cs, rs)" "held rs = []" "is_netfpga rs" "rtable rs = []"
    "cli_command_lpm cs = cli_command_lpm registered"
proof -
  let ?start = "do { rs \<leftarrow> init str_sign True; rs \<leftarrow> run_all (sr_integ_add_interface str_sign) [one_iface] rs;
      rs \<leftarrow> init_router_list rs; init_rtable [] rs }"
  have "map_option (\<lambda>rs. (held rs, is_netfpga rs, rtable rs)) ?start = Some ([], True, [])" by code_simp
  then obtain rs where rs: "?start = Some rs" "held rs = []" "is_netfpga rs" "rtable rs = []" by auto
  then obtain cs where cs: "init_cli str_sign rs = Some (cs, rs)"
    using init_cli_table[OF signs.c_strcmp_axioms idle_lock_free[OF rs(2)]] by blast
  have "start_up str_sign True [one_iface] [] = Some (cs, rs)"
    using rs(1) cs by (auto simp: start_up_def sr_integ_hw_setup_def split: bind_splits)
  with that rs(2-) init_cli_dispatch[OF signs.c_strcmp_axioms cs idle_lock_free[OF rs(2)]] show thesis by blast
qed


text \<open>A client adds a route to it, which is a state it can reach.\<close>

lemma one_iface_route:
  obtains cs rs0 rs where "start_up str_sign True [one_iface] [] = Some (cs, rs0)" "reachable cs rs0 rs" "rtable rs0 = []" "is_netfpga rs"
    "rtable rs = [\<lparr>rt_ip = htonl 0x0A010000, rt_gw = 0, rt_mask = htonl 0xFFFF0000, rt_iface = ''eth0'', rt_is_static = True, rt_is_active = True\<rparr>]"
proof -
  obtain cs rs0 where rs0: "start_up str_sign True [one_iface] [] = Some (cs, rs0)" "held rs0 = []" "is_netfpga rs0" "rtable rs0 = []"
    "cli_command_lpm cs = cli_command_lpm registered"
    by (rule one_iface_starts)
  let ?cmd = "route_add_text (htonl 0x0A010000) 0 (htonl 0xFFFF0000) ''eth0''"
  have "is_word ''eth0''" by (simp add: is_word_def isspace_def)
  moreover have "getOneHotPortNumber (take 32 ''eth0'') \<noteq> None" by code_simp
  ultimately obtain t log where add: "cli_ip_route_add rs0 ?cmd = Some (rs0\<lparr>rtable := t, regs := regs rs0 @ log\<rparr>, [line ''Successfully added route.''])"
    "mset t = add_mset \<lparr>rt_ip = htonl 0x0A010000, rt_gw = 0, rt_mask = htonl 0xFFFF0000, rt_iface = take 32 ''eth0'',
       rt_is_static = True, rt_is_active = True\<rparr> (mset (rtable rs0))"
    using cli_ip_route_add_ok[OF _ idle_lock_free[OF rs0(2)], of "''eth0''" "htonl 0x0A010000" 0 "htonl 0xFFFF0000"] rs0(4) by auto
  have "take 1 (inet_ntop (htonl 0x0A010000) @ s) \<noteq> ''?''" for s
    using inet_ntop_hd[of "htonl 0x0A010000"] inet_ntop_word[of "htonl 0x0A010000"]
    by (cases "inet_ntop (htonl 0x0A010000)") (auto simp: is_word_def)
  then have "run_command cs plain_env rs0 ?cmd = cli_ip_route_add rs0 ?cmd"
    using dispatch_route_add by (simp add: run_command_def rs0(5) route_add_text_def del: append_Cons)
  with add(1) have "reachable cs rs0 (rs0\<lparr>rtable := t, regs := regs rs0 @ log\<rparr>)"
    by (intro reachable.further[OF reachable.start step.command]) simp
  with that[OF rs0(1) this rs0(4)] add(2) rs0(3,4) show thesis by simp
qed

theorem reachable_well_formed_witness:
  "\<exists>cs rs0 rs. start_up str_sign True [one_iface] [] = Some (cs, rs0) \<and> reachable cs rs0 rs \<and> rtable rs \<noteq> rtable rs0
    \<and> distinct (map pr_router_id (pwospf_router_list rs)) \<and> get_router_by_rid (router_id rs) (pwospf_router_list rs) \<noteq> None"
proof -
  obtain cs rs0 rs where r: "start_up str_sign True [one_iface] [] = Some (cs, rs0)" "reachable cs rs0 rs" "rtable rs0 = []"
    "rtable rs = [\<lparr>rt_ip = htonl 0x0A010000, rt_gw = 0, rt_mask = htonl 0xFFFF0000, rt_iface = ''eth0'', rt_is_static = True, rt_is_active = True\<rparr>]"
    by (rule one_iface_route)
  with reachable_well_formed[OF signs.c_strcmp_axioms r(1,2)] show ?thesis by (intro exI[of _ cs] exI[of _ rs0] exI[of _ rs]) simp
qed

theorem reachable_hardware_agrees_witness:
  "\<exists>cs rs0 rs e. start_up str_sign True [one_iface] [] = Some (cs, rs0) \<and> reachable cs rs0 rs
    \<and> find (row_matches (htonl 0x0A010203)) (map (replay_routes (regs rs) (0, 0, 0, 0) (\<lambda>_. (0, 0, 0, 0))) [0..<32]) = Some (route_row e)
    \<and> take 32 (rt_iface e) = ''eth0''"
proof -
  let ?e = "\<lparr>rt_ip = htonl 0x0A010000, rt_gw = 0, rt_mask = htonl 0xFFFF0000, rt_iface = ''eth0'', rt_is_static = True, rt_is_active = True\<rparr>"
  obtain cs rs0 rs where r: "start_up str_sign True [one_iface] [] = Some (cs, rs0)" "reachable cs rs0 rs" "rtable rs0 = []" "is_netfpga rs"
    "rtable rs = [?e]"
    by (rule one_iface_route)
  have "contiguous ?e" unfolding contiguous_def by (rule exI[of _ 16]) code_simp
  moreover have "get_next_hop rs 32 (htonl 0x0A010203) = Some (htonl 0x0A010203, ''eth0'')"
    unfolding get_next_hop_def r(5) by code_simp
  ultimately have "\<exists>e. find (row_matches (htonl 0x0A010203)) (map (replay_routes (regs rs) (0, 0, 0, 0) (\<lambda>_. (0, 0, 0, 0))) [0..<32]) =
      Some (route_row e) \<and> ''eth0'' = take 32 (rt_iface e)"
    using reachable_hardware_agrees[OF signs.c_strcmp_axioms r(1,2), of 32 "htonl 0x0A010203" "htonl 0x0A010203" "''eth0''" "(0, 0, 0, 0)"
        "\<lambda>_. (0, 0, 0, 0)"] r(3-5) by (simp del: upt_rec_numeral upt_Suc) blast
  with r(1,2) show ?thesis by metis
qed

end
