(* ===== verification/Config.thy ===== *)
theory Config
  imports Router_System
begin

text \<open>
  The configuration files: the interfaces of the NetFPGA (\<^verbatim>\<open>sr_cpu_extension_nf2.c\<close>) and the routing table (\<open>init_rtable\<close> of \<^verbatim>\<open>or_main.c\<close>), as
  the strings of characters they hold and the lines that \<open>fgets\<close> reads from them, and the start of the router on the card (\<open>sr_init_low_level_subystem\<close> of \<^verbatim>\<open>sr_base.c\<close> in CPU mode).
\<close>

abbreviation (input) SR_NAMELEN :: nat where "SR_NAMELEN \<equiv> 32"

section \<open>Lines\<close>

text \<open>
  \<open>fgets\<close> into a buffer of \<open>n\<close> bytes: at most \<open>n - 1\<close> characters, to the end of the line; a longer line is read in several pieces. What follows a zero
  byte in a piece is not seen by the functions that take the buffer as a string. Both files are read through buffers of 1024 bytes.
\<close>

definition fgets :: "nat \<Rightarrow> string \<Rightarrow> (string \<times> string) option" where
  "fgets n s =
     (if s = [] then None
      else let l = take (n - 1) (takeWhile (\<lambda>c. c \<noteq> LF) s @ take 1 (dropWhile (\<lambda>c. c \<noteq> LF) s)) in Some (l, drop (length l) s))"

lemma fgets_shorter: "fgets 1024 s = Some (l, rest) \<Longrightarrow> length rest < length s"
  by (cases s) (auto simp: fgets_def Let_def)

function fgets_all :: "string \<Rightarrow> string list" where
  "fgets_all s = (case fgets 1024 s of None \<Rightarrow> [] | Some (l, rest) \<Rightarrow> takeWhile (\<lambda>c. c \<noteq> NUL) l # fgets_all rest)"
  by pat_completeness auto

termination by (relation "measure length") (auto, metis fgets_shorter)

declare fgets_all.simps [simp del]

section \<open>The interfaces\<close>

text \<open>
  The next word of a line, and what follows it. The copy stops after \<open>SR_NAMELEN\<close> characters and then writes the zero, one byte past the
  end of the array.
\<close>

definition copy_next_field :: "string \<Rightarrow> (string \<times> string) option outcome" where
  "copy_next_field s =
     (let s = dropWhile isspace s; field = take SR_NAMELEN (takeWhile (\<lambda>c. \<not> isspace c) s) in
      if s = [] then Some None
      else if length field < SR_NAMELEN then Some (Some (field, drop (length field) s)) else None)"

definition asci_to_nboip :: "string \<Rightarrow> u32" where
  "asci_to_nboip ip = (case inet_pton ip of None \<Rightarrow> 0 | Some addr \<Rightarrow> addr)"

text \<open>
  The bytes of a hardware address, from the \<open>i\<close>-th on. Without another colon the pointer moves past the end of the string, to what
  an earlier field left in the array: that is not modelled and counts as a fault, as does a first number that cannot be read. A later one
  that cannot be read repeats the one before.
\<close>

fun ether_bytes :: "nat \<Rightarrow> string \<Rightarrow> nat option \<Rightarrow> byte list outcome" where
  "ether_bytes 0 buf tmpint = Some []"
| "ether_bytes (Suc k) buf tmpint = do {
     let t = dropWhile isspace buf;
     n \<leftarrow> (case scan_number 16 (length t) t of
        None \<Rightarrow> tmpint
      | Some (neg, n, _) \<Rightarrow> if n < 2 ^ 32 then Some (nat (signed_value neg n mod 2 ^ 32)) else None);
     rest \<leftarrow> (if k = 0 then Some [] else if CHR '':'' \<in> set buf then Some (drop 1 (dropWhile (\<lambda>c. c \<noteq> CHR '':'') buf)) else None);
     bs \<leftarrow> ether_bytes k rest (Some n);
     Some (word_of_nat n # bs) }"

definition asci_to_ether :: "string \<Rightarrow> mac outcome" where
  "asci_to_ether addr = map_option (\<lambda>bs. mac_at bs 0) (ether_bytes 6 addr None)"

text \<open>A line with the four fields of an interface; \<open>None\<close> inside is a line that is not formatted so.\<close>

definition hw_line :: "string \<Rightarrow> sr_vns_if option outcome" where
  "hw_line s = do {
     f \<leftarrow> copy_next_field s;
     (case f of None \<Rightarrow> Some None | Some (name, s) \<Rightarrow> do {
     f \<leftarrow> copy_next_field s;
     (case f of None \<Rightarrow> Some None | Some (ip, s) \<Rightarrow> do {
     f \<leftarrow> copy_next_field s;
     (case f of None \<Rightarrow> Some None | Some (msk, s) \<Rightarrow> do {
     f \<leftarrow> copy_next_field s;
     (case f of None \<Rightarrow> Some None | Some (addr, s) \<Rightarrow> do {
     m \<leftarrow> asci_to_ether addr;
     Some (Some \<lparr>vns_name = name, vns_addr = m, vns_ip = asci_to_nboip ip, vns_mask = asci_to_nboip msk, vns_speed = 0\<rparr>) }) }) }) }) }"

text \<open>The loop over the lines.\<close>

fun cpu_init_lines :: "(string \<Rightarrow> string \<Rightarrow> int) \<Rightarrow> string list \<Rightarrow> router_state \<Rightarrow> (int \<times> router_state) outcome" where
  "cpu_init_lines cmp [] rs = Some (0, rs)"
| "cpu_init_lines cmp (s # lines) rs =
     (if take 1 s = ''#'' then cpu_init_lines cmp lines rs
      else do {
        vns_if \<leftarrow> hw_line s;
        (case vns_if of
           None \<Rightarrow> Some (1, rs)
         | Some vns_if \<Rightarrow> do {
             rs \<leftarrow> sr_integ_add_interface cmp vns_if rs;
             cpu_init_lines cmp lines rs }) })"

definition sr_cpu_init_hardware :: "(string \<Rightarrow> string \<Rightarrow> int) \<Rightarrow> string \<Rightarrow> router_state \<Rightarrow> (int \<times> router_state) outcome" where
  "sr_cpu_init_hardware cmp hwfile rs = cpu_init_lines cmp (fgets_all hwfile) rs"

section \<open>The routing table\<close>

text \<open>With fewer than four words a null pointer is used. An address that cannot be read stays 0.\<close>

definition rtable_row :: "string \<Rightarrow> (u32 \<times> u32 \<times> u32 \<times> string) outcome" where
  "rtable_row buf = do {
     args \<leftarrow> sscanf buf ''%as %as %as %as'';
     (case args of
        [Str ip, Str gw, Str msk, Str iface] \<Rightarrow> Some (asci_to_nboip ip, asci_to_nboip gw, asci_to_nboip msk, iface)
      | _ \<Rightarrow> None) }"

definition rtable_rows :: "string \<Rightarrow> (u32 \<times> u32 \<times> u32 \<times> string) list outcome" where
  "rtable_rows rtable_file = those (map rtable_row (fgets_all rtable_file))"

section \<open>Start on the card\<close>

text \<open>The process ends with 1 (\<open>Inl\<close>) when the file of the interfaces is badly formatted.\<close>

definition cpu_start :: "(string \<Rightarrow> string \<Rightarrow> int) \<Rightarrow> string \<Rightarrow> string \<Rightarrow> (int + cli_entry list \<times> router_state) outcome" where
  "cpu_start cmp cpuhw rtable_file = do {
     rs \<leftarrow> init cmp True;
     (r, rs) \<leftarrow> sr_cpu_init_hardware cmp cpuhw rs;
     (if r \<noteq> 0 then Some (Inl 1)
      else do {
        rows \<leftarrow> rtable_rows rtable_file;
        map_option Inr (sr_integ_hw_setup cmp rows rs) }) }"

section \<open>Files that describe a router\<close>

definition hw_text :: "sr_vns_if \<Rightarrow> string" where
  "hw_text w = vns_name w @ '' '' @ inet_ntop (vns_ip w) @ '' '' @ inet_ntop (vns_mask w) @ '' '' @ show_mac (vns_addr w) @ [LF]"

definition row_text :: "u32 \<times> u32 \<times> u32 \<times> string \<Rightarrow> string" where
  "row_text r = (case r of (ip, gw, msk, iface) \<Rightarrow> inet_ntop ip @ '' '' @ inet_ntop gw @ '' '' @ inet_ntop msk @ '' '' @ iface @ [LF])"

definition file_if :: "sr_vns_if \<Rightarrow> bool" where
  "file_if w \<longleftrightarrow> is_word (vns_name w) \<and> length (vns_name w) < 32 \<and> NUL \<notin> set (vns_name w) \<and> take 1 (vns_name w) \<noteq> ''#'' \<and> vns_speed w = 0"

definition file_row :: "u32 \<times> u32 \<times> u32 \<times> string \<Rightarrow> bool" where
  "file_row r \<longleftrightarrow> (case r of (_, _, _, iface) \<Rightarrow> is_word iface \<and> NUL \<notin> set iface \<and> length (row_text r) < 1024)"

text \<open>A file of lines that fit the buffer is read line by line.\<close>

definition is_line :: "string \<Rightarrow> bool" where
  "is_line s \<longleftrightarrow> (\<exists>w. s = w @ [LF] \<and> LF \<notin> set w \<and> NUL \<notin> set w \<and> length s < 1024)"

lemma fgets_line: "is_line s \<Longrightarrow> fgets 1024 (s @ r) = Some (s, r) \<and> takeWhile (\<lambda>c. c \<noteq> NUL) s = s"
proof -
  assume "is_line s"
  then obtain w where w: "s = w @ [LF]" "LF \<notin> set w" "NUL \<notin> set w" "length s < 1024" by (auto simp: is_line_def)
  have "takeWhile (\<lambda>c. c \<noteq> LF) (w @ LF # r) = w" "dropWhile (\<lambda>c. c \<noteq> LF) (w @ LF # r) = LF # r"
    using w(2) by (auto simp: takeWhile_append dropWhile_append)
  moreover have "takeWhile (\<lambda>c. c \<noteq> NUL) s = s" using w(1,3) by (auto simp: takeWhile_eq_all_conv)
  ultimately show ?thesis using w(1,4) by (simp add: fgets_def Let_def)
qed

lemma fgets_all_lines: "list_all is_line ls \<Longrightarrow> fgets_all (concat ls) = ls"
proof (induction ls)
  case Nil
  show ?case by (simp add: fgets_all.simps fgets_def)
next
  case (Cons l ls)
  then have "fgets_all (concat (l # ls)) = takeWhile (\<lambda>c. c \<noteq> NUL) l # fgets_all (concat ls)"
    using fgets_line[of l "concat ls"] by (subst fgets_all.simps) simp
  with Cons fgets_line[of l "concat ls"] show ?case by simp
qed

lemma next_field:
  assumes "is_word w" and "length w < 32" and "ends_word s"
  shows "copy_next_field (w @ s) = Some (Some (w, s))" "copy_next_field (CHR '' '' # w @ s) = Some (Some (w, s))"
proof -
  have d: "dropWhile isspace (w @ s) = w @ s" using assms(1) by (cases w) (auto simp: is_word_def)
  have t: "takeWhile (\<lambda>c. \<not> isspace c) (w @ s) = w"
    using assms(1,3) by (cases s) (auto simp: is_word_def ends_word_def list_ex_iff takeWhile_append)
  show "copy_next_field (w @ s) = Some (Some (w, s))"
    using assms(1,2) unfolding copy_next_field_def Let_def d t by (simp add: is_word_def)
  then show "copy_next_field (CHR '' '' # w @ s) = Some (Some (w, s))"
    by (simp add: copy_next_field_def isspace_def[of "CHR '' ''"])
qed

lemma scan_byte:
  assumes "s = [] \<or> s ! 0 = CHR '':''"
  shows "scan_number 16 (length (show_byte w @ s)) (show_byte w @ s) = Some (False, unat w, 2)"
proof -
  let ?a = "digit_char (unat w div 16)" and ?b = "digit_char (unat w mod 16)"
  have w: "unat w div 16 < 16" using unat_byte_less[of w] by linarith
  have d: "is_digit 16 ?a" "is_digit 16 ?b" using w by (simp_all add: is_digit_char)
  have "\<not> is_digit 16 (CHR ''x'')" "\<not> is_digit 16 (CHR ''X'')" "\<not> is_digit 16 (CHR '':'')" by code_simp+
  then have "?b \<noteq> CHR ''x''" "?b \<noteq> CHR ''X''" "\<not> is_digit 16 (CHR '':'')" using d(2) by metis+
  moreover have "takeWhile (is_digit 16) s = []" using assms calculation(3) by (cases s) auto
  moreover have "digits_value 16 [?a, ?b] = unat w" using w by (simp add: digits_value_def)
  ultimately show ?thesis
    using digit_not_special(3,4)[OF d(1)] d by (simp add: scan_number_def scan_sign_def scan_prefix_def show_byte_def Let_def)
qed

lemma show_byte_plain: "c \<in> set (show_byte w) \<Longrightarrow> \<not> isspace c \<and> c \<noteq> CHR '':''"
proof -
  assume "c \<in> set (show_byte w)"
  moreover have "unat w div 16 < 16" using unat_byte_less[of w] by linarith
  ultimately have "is_digit 16 c" by (auto simp: show_byte_def is_digit_char)
  moreover have "\<not> is_digit 16 (CHR '':'')" by code_simp
  ultimately show ?thesis using digit_not_special(1) by metis
qed

lemma ether_byte:
  "ether_bytes (Suc (Suc k)) (show_byte w @ CHR '':'' # s) t = map_option ((#) w) (ether_bytes (Suc k) s (Some (unat w)))"
  "ether_bytes (Suc 0) (show_byte w) t = Some [w]"
proof -
  have d: "dropWhile isspace (show_byte w @ r) = show_byte w @ r" for r
    using show_byte_plain[of "show_byte w ! 0" w] by (simp add: show_byte_def)
  have c: "dropWhile (\<lambda>c. c \<noteq> CHR '':'') (show_byte w @ CHR '':'' # s) = CHR '':'' # s"
    using show_byte_plain by (simp add: dropWhile_append3)
  have "unat w < 2 ^ 32" by (rule less_trans[OF unat_byte_less]) simp
  then have n: "unat w < 2 ^ 32" "nat (signed_value False (unat w) mod 2 ^ 32) = unat w"
    by (simp_all add: signed_value_def nat_mod_distrib)
  show "ether_bytes (Suc (Suc k)) (show_byte w @ CHR '':'' # s) t = map_option ((#) w) (ether_bytes (Suc k) s (Some (unat w)))"
    using scan_byte[of "CHR '':'' # s" w] n unfolding ether_bytes.simps(2)[of "Suc k"] Let_def d c
    by (simp add: map_conv_bind_option comp_def)
  show "ether_bytes (Suc 0) (show_byte w) t = Some [w]"
    using scan_byte[of "[]" w] n d[of "[]"] by simp
qed

lemma asci_to_ether_show: "asci_to_ether (show_mac m) = Some m"
  by (cases m) (simp add: asci_to_ether_def show_mac_def numeral_eq_Suc ether_byte mac_at_def del: ether_bytes.simps)

lemma show_mac_word: "is_word (show_mac m)" "length (show_mac m) = 17"
proof -
  obtain a b c d e f where m: "m = Mac a b c d e f" by (cases m)
  have "\<not> isspace x" if "x \<in> set (show_mac m)" for x
    using that show_byte_plain by (auto simp: m show_mac_def isspace_def)
  then show "is_word (show_mac m)" by (auto simp: is_word_def list_ex_iff m show_mac_def)
  show "length (show_mac m) = 17" by (simp add: m show_mac_def show_byte_def)
qed

lemma show_mac_no_NUL: "NUL \<notin> set (show_mac m)"
proof -
  obtain a b c d e f where m: "m = Mac a b c d e f" by (cases m)
  have "NUL \<notin> set (show_byte w)" for w
  proof
    assume "NUL \<in> set (show_byte w)"
    moreover have "unat w div 16 < 16" using unat_byte_less[of w] by linarith
    ultimately have "is_digit 16 NUL" by (auto simp: show_byte_def is_digit_char)
    then show False using digit_not_special(5) by blast
  qed
  then show ?thesis by (simp add: m show_mac_def)
qed

lemma asci_to_nboip_ntop [simp]: "asci_to_nboip (inet_ntop a) = a"
  by (simp add: asci_to_nboip_def)

lemma hw_line_text:
  assumes "file_if w"
  shows "hw_line (hw_text w) = Some (Some w)"
proof -
  have w: "is_word (vns_name w)" "length (vns_name w) < 32" "vns_speed w = 0" using assms by (simp_all add: file_if_def)
  have a: "length (inet_ntop a) < 32" for a using inet_ntop_length[of a] by linarith
  have e: "ends_word [LF]" by (simp add: ends_word_def isspace_def)
  have fields: "copy_next_field (hw_text w) =
      Some (Some (vns_name w, CHR '' '' # inet_ntop (vns_ip w) @ CHR '' '' # inet_ntop (vns_mask w) @ CHR '' '' # show_mac (vns_addr w) @ [LF]))"
    unfolding hw_text_def using next_field(1)[OF w(1,2)] by simp
  show ?thesis
    unfolding hw_line_def fields
    by (simp add: next_field(2)[OF inet_ntop_word a] next_field(2)[OF show_mac_word(1) _ e] show_mac_word(2) asci_to_ether_show w(3))
qed

lemma rtable_row_text: "is_word iface \<Longrightarrow> rtable_row (row_text (ip, gw, msk, iface)) = Some (ip, gw, msk, iface)"
proof -
  assume i: "is_word iface"
  have e: "ends_word [LF]" by (simp add: ends_word_def isspace_def)
  have f: "scan_format ''%as %as %as %as'' = [Str_conv, Blank, Str_conv, Blank, Str_conv, Blank, Str_conv]" by code_simp
  have "sscanf (row_text (ip, gw, msk, iface)) ''%as %as %as %as'' =
      Some [Str (inet_ntop ip), Str (inet_ntop gw), Str (inet_ntop msk), Str iface]"
    unfolding sscanf_def f
    by (simp add: row_text_def sscan_words inet_ntop_word i sscan_word[OF i e] del: sscan.simps(2-))
  then show ?thesis by (simp add: rtable_row_def)
qed

lemma cpu_init_text:
  "list_all file_if ifs \<Longrightarrow>
   cpu_init_lines cmp (map hw_text ifs) rs = map_option (Pair 0) (run_all (sr_integ_add_interface cmp) ifs rs)"
proof (induction ifs arbitrary: rs)
  case (Cons w ifs)
  then have "take 1 (hw_text w) \<noteq> ''#''" by (cases "vns_name w") (auto simp: file_if_def hw_text_def is_word_def)
  with Cons show ?case
    by (cases "sr_integ_add_interface cmp w rs") (simp_all add: hw_line_text)
qed simp

lemma those_rows: "list_all file_row rows \<Longrightarrow> those (map rtable_row (map row_text rows)) = Some rows"
  by (induction rows) (auto simp: rtable_row_text file_row_def)

lemma word_LF: "is_word w \<Longrightarrow> LF \<notin> set w"
  by (auto simp: is_word_def list_ex_iff isspace_def)

lemma hw_text_line: "file_if w \<Longrightarrow> is_line (hw_text w)"
proof -
  assume "file_if w"
  then have w: "is_word (vns_name w)" "length (vns_name w) < 32" "NUL \<notin> set (vns_name w)" by (simp_all add: file_if_def)
  let ?w = "vns_name w @ '' '' @ inet_ntop (vns_ip w) @ '' '' @ inet_ntop (vns_mask w) @ '' '' @ show_mac (vns_addr w)"
  have "NUL \<notin> set (show_mac (vns_addr w))" by (rule show_mac_no_NUL)
  then have "LF \<notin> set ?w" "NUL \<notin> set ?w" using w word_LF[OF w(1)] word_LF[OF inet_ntop_word] word_LF[OF show_mac_word(1)] inet_ntop_no_NUL by auto
  moreover have "length (hw_text w) < 1024"
    using w(2) inet_ntop_length[of "vns_ip w"] inet_ntop_length[of "vns_mask w"] by (simp add: hw_text_def show_mac_word(2))
  ultimately show ?thesis unfolding is_line_def by (intro exI[of _ ?w]) (simp add: hw_text_def)
qed

lemma row_text_line: "file_row r \<Longrightarrow> is_line (row_text r)"
proof -
  assume r: "file_row r"
  obtain ip gw msk iface where e: "r = (ip, gw, msk, iface)" by (cases r)
  let ?w = "inet_ntop ip @ '' '' @ inet_ntop gw @ '' '' @ inet_ntop msk @ '' '' @ iface"
  have "is_word iface" "NUL \<notin> set iface" "length (row_text r) < 1024" using r by (simp_all add: e file_row_def)
  moreover from this have "LF \<notin> set ?w" "NUL \<notin> set ?w" using word_LF[OF inet_ntop_word] inet_ntop_no_NUL word_LF by auto
  ultimately show ?thesis unfolding is_line_def by (intro exI[of _ ?w]) (simp add: e row_text_def)
qed

text \<open>
  C33. The configuration files are read as they are written. For every list of interfaces (with names of up to 31 characters) and of routes, the files with a line for
  each of them (the addresses in dotted notation, the hardware address in hexadecimal) start the router on the card with exactly these
  interfaces and routes, in their order, if every line fits the buffer of 1024 bytes through which the file is read.
\<close>

theorem config_files_read:
  assumes "list_all file_if ifs" and "list_all file_row rows"
  shows "cpu_start cmp (concat (map hw_text ifs)) (concat (map row_text rows)) = map_option Inr (start_up cmp True ifs rows)"
proof -
  have "fgets_all (concat (map hw_text ifs)) = map hw_text ifs" "fgets_all (concat (map row_text rows)) = map row_text rows"
    using assms hw_text_line row_text_line by (auto intro!: fgets_all_lines simp: list_all_iff)
  then show ?thesis
    using those_rows[OF assms(2)]
    by (simp add: cpu_start_def sr_cpu_init_hardware_def rtable_rows_def start_up_def cpu_init_text[OF assms(1)] map_conv_bind_option split: bind_splits)
qed

theorem config_files_read_witness:
  "cpu_start str_sign (''eth0 10.0.0.1 255.255.255.0 00:00:00:00:00:01'' @ [LF]) (''0.0.0.0 10.0.0.2 0.0.0.0 eth0'' @ [LF]) =
     map_option Inr (start_up str_sign True [one_iface] [(0, htonl 0x0A000002, 0, ''eth0'')])"
proof -
  have t: "hw_text one_iface = ''eth0 10.0.0.1 255.255.255.0 00:00:00:00:00:01'' @ [LF]"
    "row_text (0, htonl 0x0A000002, 0, ''eth0'') = ''0.0.0.0 10.0.0.2 0.0.0.0 eth0'' @ [LF]" by code_simp+
  moreover have "list_all file_if [one_iface]" "list_all file_row [(0, htonl 0x0A000002, 0, ''eth0'')]"
    by (simp_all add: file_if_def file_row_def t(2) one_iface_def is_word_def isspace_def)
  ultimately show ?thesis using config_files_read[of "[one_iface]" "[(0, htonl 0x0A000002, 0, ''eth0'')]" str_sign] by simp
qed

text \<open>
  What the files must not hold. A name of 32 characters or more in the file of the interfaces overruns the array it is copied to by one byte; an empty line
  ends the start with an error; a line of the routing table with fewer than four words makes the router use a null pointer,
  and so does a longer line than the buffer, whose last piece is taken for a line.
\<close>

theorem config_errors:
  assumes "is_word w" and "32 \<le> length w" and "ends_word s" and "take 1 w \<noteq> ''#''" and "is_word v"
  shows "cpu_init_lines cmp ((w @ s) # lines) rs = None
    \<and> cpu_init_lines cmp ([LF] # lines) rs = Some (1, rs)
    \<and> rtable_row (v @ [LF]) = None \<and> rtable_row [LF] = None"
proof (intro conjI)
  have d: "dropWhile isspace (w @ s) = w @ s" using assms(1) by (cases w) (auto simp: is_word_def)
  have t: "takeWhile (\<lambda>c. \<not> isspace c) (w @ s) = w"
    using assms(1,3) by (cases s) (auto simp: is_word_def ends_word_def list_ex_iff takeWhile_append)
  have "copy_next_field (w @ s) = None"
    using assms(1,2) unfolding copy_next_field_def Let_def d t by (simp add: is_word_def)
  moreover have "take 1 (w @ s) \<noteq> ''#''" using assms(1,4) by (cases w) (auto simp: is_word_def)
  ultimately show "cpu_init_lines cmp ((w @ s) # lines) rs = None" by (simp add: hw_line_def)
  show "cpu_init_lines cmp ([LF] # lines) rs = Some (1, rs)" by (simp add: hw_line_def copy_next_field_def isspace_def)
  have f: "scan_format ''%as %as %as %as'' = [Str_conv, Blank, Str_conv, Blank, Str_conv, Blank, Str_conv]" by code_simp
  have e: "ends_word [LF]" by (simp add: ends_word_def isspace_def)
  show "rtable_row (v @ [LF]) = None"
    unfolding rtable_row_def sscanf_def f sscan_word[OF assms(5) e] by (simp add: isspace_def)
  show "rtable_row [LF] = None" unfolding rtable_row_def sscanf_def f by (simp add: isspace_def)
qed

theorem config_errors_witness:
  "cpu_init_lines str_sign [replicate 40 (CHR ''e'')] idle_router = None \<and> rtable_row (''10.0.0.0'' @ [LF]) = None"
proof -
  have "is_word (replicate 40 (CHR ''e''))" "is_word ''10.0.0.0''" by (simp_all add: is_word_def isspace_def list_ex_iff)
  from config_errors[OF this(1) _ _ _ this(2), of "[]" str_sign "[]" idle_router] show ?thesis by (simp add: ends_word_def numeral_eq_Suc)
qed

lemma one_word_row: "v = [] \<or> is_word v \<Longrightarrow> rtable_row (take 1023 (v @ [LF])) = None"
proof -
  assume v: "v = [] \<or> is_word v"
  have f: "scan_format ''%as %as %as %as'' = [Str_conv, Blank, Str_conv, Blank, Str_conv, Blank, Str_conv]" by code_simp
  have e: "ends_word [LF]" "ends_word []" by (simp_all add: ends_word_def isspace_def)
  have w: "rtable_row (u @ [LF]) = None" "rtable_row u = None" if "is_word u" for u
    unfolding rtable_row_def sscanf_def f using sscan_word[OF that e(1)] sscan_word[OF that e(2)] by (simp_all add: isspace_def)
  have n: "rtable_row [LF] = None" unfolding rtable_row_def sscanf_def f by (simp add: isspace_def)
  have t: "take 1023 v \<noteq> [] \<and> \<not> list_ex isspace (take 1023 v)" if "is_word v" using that by (auto simp: is_word_def list_ex_iff dest: in_set_takeD)
  show ?thesis using v
  proof
    assume "is_word v"
    with t[OF this] show ?thesis using w(1)[of v] w(2)[of "take 1023 v"] by (cases "length v < 1023") (simp_all add: is_word_def)
  qed (simp add: n)
qed

lemma drop_word: "is_word w \<Longrightarrow> drop n w = [] \<or> is_word (drop n w)"
  by (auto simp: is_word_def list_ex_iff dest: in_set_dropD)

lemma long_route_line:
  assumes "is_word iface" and "NUL \<notin> set iface" and "1024 \<le> length (row_text (ip, gw, msk, iface))"
  shows "rtable_rows (row_text (ip, gw, msk, iface) @ more_text) = None"
proof -
  define a where "a = inet_ntop ip @ '' '' @ inet_ntop gw @ '' '' @ inet_ntop msk @ '' ''"
  define k where "k = 1023 - length a"
  have whole: "row_text (ip, gw, msk, iface) @ more_text = a @ iface @ LF # more_text" by (simp add: row_text_def a_def)
  have "length a \<le> 48" using inet_ntop_length[of ip] inet_ntop_length[of gw] inet_ntop_length[of msk] by (simp add: a_def)
  then have len: "k \<le> length iface" "length a + k = 1023" using assms(3) by (simp_all add: row_text_def k_def a_def)
  have LF: "LF \<notin> set a" "LF \<notin> set iface" using word_LF[OF inet_ntop_word] word_LF[OF assms(1)] by (auto simp: a_def)
  have first: "fgets 1024 (a @ iface @ LF # more_text) = Some (a @ take k iface, drop k iface @ LF # more_text)"
  proof -
    have "takeWhile (\<lambda>c. c \<noteq> LF) (a @ iface @ LF # more_text) = a @ iface" "dropWhile (\<lambda>c. c \<noteq> LF) (a @ iface @ LF # more_text) = LF # more_text"
      using LF by (auto simp: takeWhile_append dropWhile_append)
    moreover have "take 1023 ((a @ iface) @ [LF]) = a @ take k iface" "drop (length (a @ take k iface)) (a @ iface @ LF # more_text) = drop k iface @ LF # more_text"
      using len by (simp_all add: k_def)
    ultimately show ?thesis by (simp add: fgets_def Let_def del: append_assoc)
  qed
  define v where "v = drop k iface"
  define l where "l = take 1023 (v @ [LF])"
  have v: "v = [] \<or> is_word v" "LF \<notin> set v" "NUL \<notin> set v" using drop_word[OF assms(1)] LF(2) assms(2) by (auto simp: v_def dest: in_set_dropD)
  have second: "fgets 1024 (v @ LF # more_text) = Some (l, drop (length l) (v @ LF # more_text))" "takeWhile (\<lambda>c. c \<noteq> NUL) l = l"
  proof -
    have "takeWhile (\<lambda>c. c \<noteq> LF) (v @ LF # more_text) = v" "dropWhile (\<lambda>c. c \<noteq> LF) (v @ LF # more_text) = LF # more_text"
      using v(2) by (auto simp: takeWhile_append dropWhile_append)
    then show "fgets 1024 (v @ LF # more_text) = Some (l, drop (length l) (v @ LF # more_text))" by (simp add: fgets_def Let_def l_def)
    show "takeWhile (\<lambda>c. c \<noteq> NUL) l = l" using v(3) by (auto simp: takeWhile_eq_all_conv l_def dest: in_set_takeD)
  qed
  have "rtable_row l = None" unfolding l_def by (rule one_word_row[OF v(1)])
  moreover have "fgets_all (a @ iface @ LF # more_text) = takeWhile (\<lambda>c. c \<noteq> NUL) (a @ take k iface) # fgets_all (v @ LF # more_text)"
    by (simp add: fgets_all.simps[of "a @ iface @ LF # more_text"] first v_def)
  moreover have "fgets_all (v @ LF # more_text) = l # fgets_all (drop (length l) (v @ LF # more_text))"
    using second by (simp add: fgets_all.simps[of "v @ LF # more_text"])
  ultimately show ?thesis by (simp add: rtable_rows_def whole split: option.split)
qed

end
