(* ===== verification/Socket.thy ===== *)
theory Socket
  imports Prelude
begin

text \<open>
  Reading from a connection. What arrives is a list: pieces of data, the end of the stream, errors and interruptions. A call of \<open>recv\<close>
  takes at most the number of bytes asked for and leaves the rest of the piece; a list that is used up means that the caller waits.
\<close>

datatype 'a arrival = Data "'a list" | End | Broken | Interrupt

datatype 'a received = Got "'a list" "'a arrival list" | Eof "'a arrival list" | Err "'a arrival list" | Intr "'a arrival list" | Pending

fun sock_recv :: "nat \<Rightarrow> 'a arrival list \<Rightarrow> 'a received" where
  "sock_recv n [] = Pending"
| "sock_recv n (End # es) = Eof es"
| "sock_recv n (Broken # es) = Err es"
| "sock_recv n (Interrupt # es) = Intr es"
| "sock_recv n (Data xs # es) =
     (if xs = [] then Eof es
      else if n = 0 then Eof (Data xs # es)
      else if length xs \<le> n then Got xs es else Got (take n xs) (Data (drop n xs) # es))"

text \<open>The measure of the loops that read: the pieces and the bytes in them.\<close>

definition weight :: "'a arrival list \<Rightarrow> nat" where
  "weight es = sum_list (map (\<lambda>e. case e of Data xs \<Rightarrow> Suc (length xs) | _ \<Rightarrow> 1) es)"

lemma recv_weight [termination_simp]:
  "sock_recv n es = Got xs es' \<Longrightarrow> weight es' < weight es"
  "sock_recv n es = Eof es' \<Longrightarrow> 0 < n \<Longrightarrow> weight es' < weight es"
  "sock_recv n es = Intr es' \<Longrightarrow> weight es' < weight es"
  by (induction n es rule: sock_recv.induct) (auto simp: weight_def split: if_splits)

text \<open>The bytes that arrive, up to the first event that is not data or an interruption.\<close>

fun bytes_of :: "'a arrival list \<Rightarrow> 'a list" where
  "bytes_of (Data xs # es) = (if xs = [] then [] else xs @ bytes_of es)"
| "bytes_of (Interrupt # es) = bytes_of es"
| "bytes_of es = []"

lemma recv_bytes:
  assumes "bytes_of es \<noteq> []" and "0 < n"
  shows "(\<exists>es'. sock_recv n es = Intr es' \<and> bytes_of es' = bytes_of es)
    \<or> (\<exists>xs es'. sock_recv n es = Got xs es' \<and> xs \<noteq> [] \<and> length xs \<le> n \<and> xs @ bytes_of es' = bytes_of es)"
  using assms by (induction n es rule: sock_recv.induct) (auto split: if_splits)

text \<open>
  A loop that reads \<open>n\<close> bytes: it goes on with what it gets and after an interruption, and finishes with the bytes when it has them all. It then finds the
  bytes of the stream, whatever pieces they come in.
\<close>

locale byte_reader =
  fixes n :: nat and reads :: "'a list \<Rightarrow> 'a arrival list \<Rightarrow> 'r" and finished :: "'a list \<Rightarrow> 'a arrival list \<Rightarrow> 'r"
  assumes full: "n \<le> length acc \<Longrightarrow> reads acc es = finished acc es"
    and got: "length acc < n \<Longrightarrow> sock_recv (n - length acc) es = Got xs es' \<Longrightarrow> reads acc es = reads (acc @ xs) es'"
    and interrupted: "length acc < n \<Longrightarrow> sock_recv (n - length acc) es = Intr es' \<Longrightarrow> reads acc es = reads acc es'"
begin

lemma reads_bytes:
  assumes "bytes_of es = xs @ tail" and "length acc + length xs = n"
  shows "\<exists>es'. reads acc es = finished (acc @ xs) es' \<and> bytes_of es' = tail"
  using assms
proof (induction "weight es" arbitrary: es acc xs rule: less_induct)
  case less
  show ?case
  proof (cases "xs = []")
    case True
    then show ?thesis using less.prems full[of acc es] by auto
  next
    case False
    then have short: "length acc < n" "bytes_of es \<noteq> []" using less.prems by auto
    then consider es' where "sock_recv (n - length acc) es = Intr es'" "bytes_of es' = bytes_of es"
      | ys es' where "sock_recv (n - length acc) es = Got ys es'" "length ys \<le> n - length acc" "ys @ bytes_of es' = bytes_of es"
      using recv_bytes[of es "n - length acc"] by auto
    then show ?thesis
    proof cases
      case (1 es')
      then show ?thesis using less.hyps[OF recv_weight(3)[OF 1(1)], of xs acc] less.prems interrupted[OF short(1) 1(1)] by simp
    next
      case (2 ys es')
      then have "length ys \<le> length xs" using less.prems(2) by simp
      then obtain zs where "xs = ys @ zs" "bytes_of es' = zs @ tail" using 2(3) less.prems(1) by (auto simp: append_eq_append_conv2)
      then show ?thesis using less.hyps[OF recv_weight(1)[OF 2(1)], of zs "acc @ ys"] less.prems(2) got[OF short(1) 2(1)] by simp
    qed
  qed
qed

end

end
