(* ===== verification/Vns.thy ===== *)
theory Vns
  imports Router_System Socket
begin

text \<open>
  The connection to the network simulator: \<^verbatim>\<open>sr_vns.c\<close> with the messages of \<^verbatim>\<open>vnscommand.h\<close> and the entry points of
  \<^verbatim>\<open>sr_integration.c\<close>. Messages begin with their length; a message is read in as many pieces as it comes in, and is a packet for the router, the
  description of its interfaces, or the end of the session. The state of the instance has the router, its command table and two flags. The
  log of packets is left out.
\<close>

abbreviation (input) VNSOPEN :: u32 where "VNSOPEN \<equiv> 1"
abbreviation (input) VNSCLOSE :: u32 where "VNSCLOSE \<equiv> 2"
abbreviation (input) VNSPACKET :: u32 where "VNSPACKET \<equiv> 4"
abbreviation (input) VNSHWINFO :: u32 where "VNSHWINFO \<equiv> 16"

record sr_instance =
  sr_router :: router_state
  sr_commands :: "cli_entry list"
  sr_hw_init :: bool
  sr_closed :: bool

section \<open>Strings in messages\<close>

text \<open>The string that starts at an offset of a block, and the array of \<open>n\<close> characters that \<open>strncpy\<close> fills.\<close>

definition string_at :: "byte list \<Rightarrow> nat \<Rightarrow> string outcome" where
  "string_at p off = (if 0 \<in> set (drop off p) then Some (map char_at (takeWhile (\<lambda>b. b \<noteq> 0) (drop off p))) else None)"

definition char_array :: "nat \<Rightarrow> string \<Rightarrow> byte list" where
  "char_array n s = map byte_of (take n s) @ replicate (n - length s) 0"

lemma signed_small:
  fixes w :: u32
  assumes "unat w < 2147483648"
  shows "sint w = int (unat w)"
proof -
  define n where "n = unat w"
  have "n < 2147483648" using assms by (simp add: n_def)
  then show ?thesis unfolding sint_uint uint_nat n_def[symmetric] by (intro signed_take_bit_int_eq_self) simp_all
qed

section \<open>Sending\<close>

definition packet_message :: "byte list \<Rightarrow> string \<Rightarrow> byte list" where
  "packet_message packet iface =
     enc32 (htonl (word_of_nat (length packet + 24))) @ enc32 (htonl VNSPACKET) @ char_array 16 iface @ packet"

text \<open>The return value and the bytes handed to the socket, with the number of bytes that \<open>write\<close> takes.\<close>

definition sr_vns_send_packet :: "nat \<Rightarrow> byte list \<Rightarrow> string \<Rightarrow> int \<times> byte list" where
  "sr_vns_send_packet wrote packet iface =
     (if length packet < 14 then (- 1, [])
      else (if wrote < length (packet_message packet iface) then - 1 else 0, take wrote (packet_message packet iface)))"

definition open_message :: "u16 \<Rightarrow> string \<Rightarrow> string \<Rightarrow> byte list" where
  "open_message topo_id vhost user =
     enc32 (htonl 108) @ enc32 (htonl VNSOPEN) @ enc16 (htons topo_id) @ enc16 0 @
     char_array 32 vhost @ char_array 32 user @ replicate 32 0"

section \<open>The interfaces\<close>

abbreviation (input) HWINTERFACE :: u32 where "HWINTERFACE \<equiv> 1"
abbreviation (input) HWSPEED :: u32 where "HWSPEED \<equiv> 2"
abbreviation (input) HWETHER :: u32 where "HWETHER \<equiv> 32"
abbreviation (input) HWETHIP :: u32 where "HWETHIP \<equiv> 64"
abbreviation (input) HWMASK :: u32 where "HWMASK \<equiv> 128"

definition add_named :: "(string \<Rightarrow> string \<Rightarrow> int) \<Rightarrow> sr_vns_if \<times> router_state \<Rightarrow> (sr_vns_if \<times> router_state) outcome" where
  "add_named cmp s =
     (case s of (vns_if, rs) \<Rightarrow>
        if vns_name vns_if \<noteq> [] then do {
          rs \<leftarrow> sr_integ_add_interface cmp vns_if rs;
          Some (vns_if\<lparr>vns_name := []\<rparr>, rs) }
        else Some (vns_if, rs))"

text \<open>One entry of the message: a key and 32 bytes of value. A name that fills them is copied without a terminating zero, and reading it later leaves the array: a fault.\<close>

definition hw_entry :: "(string \<Rightarrow> string \<Rightarrow> int) \<Rightarrow> byte list \<Rightarrow> nat \<Rightarrow> sr_vns_if \<times> router_state \<Rightarrow> (sr_vns_if \<times> router_state) outcome" where
  "hw_entry cmp buf i s = do {
     key \<leftarrow> mem_ld buf (8 + 36 * i) 4;
     val \<leftarrow> mem_ld buf (8 + 36 * i + 4) 32;
     let k = ntohl (le32_at key 0);
     if k = HWINTERFACE then if 0 \<notin> set val then None else do {
       (vns_if, rs) \<leftarrow> add_named cmp s;
       Some (vns_if\<lparr>vns_name := map char_at (takeWhile (\<lambda>b. b \<noteq> 0) val)\<rparr>, rs) }
     else (case s of (vns_if, rs) \<Rightarrow>
       Some (if k = HWSPEED then vns_if\<lparr>vns_speed := ntohl (le32_at val 0)\<rparr>
             else if k = HWMASK then vns_if\<lparr>vns_mask := le32_at val 0\<rparr>
             else if k = HWETHIP then vns_if\<lparr>vns_ip := le32_at val 0\<rparr>
             else if k = HWETHER then vns_if\<lparr>vns_addr := mac_at val 0\<rparr>
             else vns_if, rs)) }"

text \<open>The fields of \<open>vns_if\<close> other than its name are not initialised: \<open>junk\<close>.\<close>

definition sr_handle_hwinfo ::
    "(string \<Rightarrow> string \<Rightarrow> int) \<Rightarrow> (u32 \<times> u32 \<times> u32 \<times> string) list \<Rightarrow> sr_vns_if \<Rightarrow> byte list \<Rightarrow> sr_instance \<Rightarrow> (nat \<times> sr_instance) outcome" where
  "sr_handle_hwinfo cmp rows junk buf sr = do {
     len \<leftarrow> mem_ld buf 0 4;
     let num_entries = unat (ntohl (le32_at len 0) - 8) div 36;
     s \<leftarrow> run_all (hw_entry cmp buf) [0..<num_entries] (junk\<lparr>vns_name := []\<rparr>, sr_router sr);
     (_, rs) \<leftarrow> add_named cmp s;
     (cs, rs) \<leftarrow> sr_integ_hw_setup cmp rows rs;
     Some (num_entries, sr\<lparr>sr_router := rs, sr_commands := cs, sr_hw_init := True\<rparr>) }"

section \<open>Reading messages\<close>

datatype read_result = Complete "byte list" "byte arrival list" | Failure | Blocked

text \<open>The loop that reads up to \<open>n\<close> bytes. It goes round when the connection has been closed.\<close>

function read_exact :: "nat \<Rightarrow> byte list \<Rightarrow> byte arrival list \<Rightarrow> read_result" where
  "read_exact n acc es =
     (if n \<le> length acc then Complete acc es
      else case sock_recv (n - length acc) es of
        Pending \<Rightarrow> Blocked
      | Err _ \<Rightarrow> Failure
      | Intr es' \<Rightarrow> read_exact n acc es'
      | Eof es' \<Rightarrow> read_exact n acc es'
      | Got xs es' \<Rightarrow> read_exact n (acc @ xs) es')"
  by pat_completeness auto

termination by (relation "measure (\<lambda>(_, _, es). weight es)") (auto simp: recv_weight)

declare read_exact.simps [simp del]

definition sr_close_instance :: "sr_instance \<Rightarrow> sr_instance" where
  "sr_close_instance sr = sr\<lparr>sr_closed := True, sr_hw_init := False\<rparr>"

text \<open>
  The message in its block. Fewer than 4 bytes have no room for the length, which is stored first; with fewer than 8 the type is read past
  the end. A packet message has its interface name after the type and the packet after the 24 bytes of its header.
\<close>

definition vns_dispatch ::
    "(string \<Rightarrow> string \<Rightarrow> int) \<Rightarrow> (u32 \<times> u32 \<times> u32 \<times> string) list \<Rightarrow> sr_vns_if \<Rightarrow> byte list \<Rightarrow> sr_instance \<Rightarrow> (int \<times> sr_instance) outcome" where
  "vns_dispatch cmp rows junk buf sr = do {
     ty \<leftarrow> mem_ld buf 4 4;
     let command = ntohl (le32_at ty 0);
     if command = VNSPACKET then
       (if length buf < 24 then None
        else do {
          interface \<leftarrow> string_at buf 8;
          rs \<leftarrow> process_packet (sr_router sr) (drop 24 buf) interface;
          Some (1, sr\<lparr>sr_router := rs\<rparr>) })
     else if command = VNSCLOSE then Some (0, sr_close_instance sr)
     else if command = VNSHWINFO then do {
       (_, sr) \<leftarrow> sr_handle_hwinfo cmp rows junk buf sr;
       Some (1, sr) }
     else Some (1, sr) }"

text \<open>The result is the return value, or none as long as the call waits.\<close>

definition sr_vns_read_from_server ::
    "(string \<Rightarrow> string \<Rightarrow> int) \<Rightarrow> (u32 \<times> u32 \<times> u32 \<times> string) list \<Rightarrow> sr_vns_if \<Rightarrow> byte arrival list \<Rightarrow> sr_instance \<Rightarrow>
     (int option \<times> byte arrival list \<times> sr_instance) outcome" where
  "sr_vns_read_from_server cmp rows junk es sr =
     (case read_exact 4 [] es of
        Blocked \<Rightarrow> Some (None, [], sr)
      | Failure \<Rightarrow> Some (Some (- 1), es, sr)
      | Complete l es \<Rightarrow>
          (let len = sint (ntohl (le32_at l 0)) in
           if len > 10000 \<or> len < 0 then Some (Some (- 1), es, sr\<lparr>sr_closed := True\<rparr>)
           else if len < 4 then None
           else case read_exact (nat len - 4) [] es of
             Blocked \<Rightarrow> Some (None, [], sr)
           | Failure \<Rightarrow> Some (Some (- 1), es, sr\<lparr>sr_closed := True\<rparr>)
           | Complete body es \<Rightarrow> do {
               (r, sr) \<leftarrow> vns_dispatch cmp rows junk (enc32 (htonl (word_of_int len)) @ body) sr;
               Some (Some r, es, sr) }))"

section \<open>Messages in pieces\<close>

interpretation vns_reader: byte_reader n "read_exact n" Complete for n
  by unfold_locales (simp_all add: read_exact.simps)

lemma char_array_length [simp]: "length (char_array n s) = n"
  by (simp add: char_array_def)

lemma char_array_string:
  assumes "length s < n" and "NUL \<notin> set s"
  shows "takeWhile (\<lambda>b. b \<noteq> 0) (char_array n s @ t) = map byte_of s" "0 \<in> set (char_array n s)"
proof -
  obtain k where k: "n - length s = Suc k" using assms(1) by (metis Suc_diff_Suc)
  have "b \<in> set (map byte_of s) \<Longrightarrow> b \<noteq> 0" for b using assms(2) by (auto simp: byte_of_zero)
  then show "takeWhile (\<lambda>b. b \<noteq> 0) (char_array n s @ t) = map byte_of s"
    using assms(1) by (auto simp: char_array_def k takeWhile_append2 takeWhile_append)
  show "0 \<in> set (char_array n s)" by (simp add: char_array_def k)
qed

lemma map_char_at [simp]: "map (char_at \<circ> byte_of) s = s"
  by (induction s) auto

lemma le32_enc32 [simp]: "le32_at (enc32 w @ t) 0 = w" "length (enc32 w) = 4"
  by (simp_all add: codec)

lemma mem_ld_at: "length a = off \<Longrightarrow> length b = n \<Longrightarrow> mem_ld (a @ b @ c) off n = Some b"
  by (simp add: mem_ld_def)

text \<open>A message is read as a whole, whatever its pieces; what comes after it is left.\<close>

lemma message_read:
  assumes "bytes_of es = enc32 (htonl (word_of_nat n)) @ body @ tail" and "length body + 4 = n" and "n \<le> 10000"
  shows "\<exists>es'. bytes_of es' = tail \<and> sr_vns_read_from_server cmp rows junk es sr =
    map_option (\<lambda>(r, sr). (Some r, es', sr)) (vns_dispatch cmp rows junk (enc32 (htonl (word_of_nat n)) @ body) sr)"
proof -
  obtain es1 where e1: "read_exact 4 [] es = Complete (enc32 (htonl (word_of_nat n))) es1" "bytes_of es1 = body @ tail"
    using vns_reader.reads_bytes[OF assms(1), of "[]" 4] by auto
  have "sint (word_of_nat n :: u32) = int n"
    using assms(3) by (simp add: signed_of_nat signed_take_bit_int_eq_self)
  then have len: "sint (ntohl (le32_at (enc32 (htonl (word_of_nat n))) 0)) = int n"
    using le32_enc32(1)[of "htonl (word_of_nat n)" "[]"] by simp
  obtain es2 where e2: "read_exact (nat (int n) - 4) [] es1 = Complete body es2" "bytes_of es2 = tail"
    using vns_reader.reads_bytes[OF e1(2), of "[]" "n - 4"] assms(2) by auto
  have "(word_of_int (int n) :: u32) = word_of_nat n" by simp
  then have "sr_vns_read_from_server cmp rows junk es sr =
      map_option (\<lambda>(r, sr). (Some r, es2, sr)) (vns_dispatch cmp rows junk (enc32 (htonl (word_of_nat n)) @ body) sr)"
    using assms(2,3) unfolding sr_vns_read_from_server_def e1(1) read_result.case len Let_def e2(1)
    by (auto simp: map_conv_bind_option split: bind_splits)
  with e2(2) show ?thesis by blast
qed

text \<open>
  C31. What one router sends, another receives. A frame handed to \<open>sr_vns_send_packet\<close>, in whatever pieces and with whatever interruptions its
  message arrives, is handed by \<open>sr_vns_read_from_server\<close> to \<open>process_packet\<close>, with the same bytes and the same interface name; the bytes after
  the message stay for the next call.
\<close>

theorem vns_packet_round_trip:
  assumes "14 \<le> length p" and "length p \<le> 9976" and "length i < 16" and "NUL \<notin> set i"
    and "sr_vns_send_packet (length p + 24) p i = (r, msg)" and "bytes_of es = msg @ tail"
  shows "r = 0 \<and> (\<exists>es'. bytes_of es' = tail \<and> sr_vns_read_from_server cmp rows junk es sr =
    map_option (\<lambda>rs. (Some 1, es', sr\<lparr>sr_router := rs\<rparr>)) (process_packet (sr_router sr) p i))"
proof -
  let ?body = "enc32 (htonl VNSPACKET) @ char_array 16 i @ p"
  let ?l = "enc32 (htonl (word_of_nat (length p + 24)))"
  have msg: "r = 0" "msg = ?l @ ?body"
    using assms(1,5) by (auto simp: sr_vns_send_packet_def packet_message_def)
  obtain es' where es': "bytes_of es' = tail" "sr_vns_read_from_server cmp rows junk es sr =
      map_option (\<lambda>(r, sr). (Some r, es', sr)) (vns_dispatch cmp rows junk (?l @ ?body) sr)"
    using message_read[of es "length p + 24" ?body tail cmp rows junk sr] assms(2,6) msg(2) by auto
  have "mem_ld (?l @ ?body) 4 4 = Some (enc32 (htonl VNSPACKET))" by (rule mem_ld_at) simp_all
  moreover have "string_at (?l @ ?body) 8 = Some i"
    using char_array_string[OF assms(3,4)] by (simp add: string_at_def)
  moreover have "drop 24 (?l @ ?body) = p" by simp
  ultimately have "vns_dispatch cmp rows junk (?l @ ?body) sr =
      map_option (\<lambda>rs. (1, sr\<lparr>sr_router := rs\<rparr>)) (process_packet (sr_router sr) p i)"
    using le32_enc32(1)[of "htonl VNSPACKET" "[]"]
    by (cases "process_packet (sr_router sr) p i") (simp_all add: vns_dispatch_def)
  with es' msg(1) show ?thesis by (auto simp: option.map_comp comp_def)
qed

section \<open>The description of the interfaces\<close>

definition hw_value :: "u32 \<Rightarrow> byte list \<Rightarrow> byte list" where
  "hw_value k v = enc32 (htonl k) @ v @ replicate (32 - length v) 0"

definition hw_entries :: "sr_vns_if \<Rightarrow> byte list" where
  "hw_entries w =
     hw_value HWINTERFACE (char_array 32 (vns_name w)) @ hw_value HWSPEED (enc32 (htonl (vns_speed w))) @
     hw_value HWETHIP (enc32 (vns_ip w)) @ hw_value HWMASK (enc32 (vns_mask w)) @ hw_value HWETHER (mac_bytes (vns_addr w))"

definition hwinfo_message :: "sr_vns_if list \<Rightarrow> byte list" where
  "hwinfo_message ifs = enc32 (htonl (word_of_nat (8 + 180 * length ifs))) @ enc32 (htonl VNSHWINFO) @ concat (map hw_entries ifs)"

definition named_if :: "sr_vns_if \<Rightarrow> bool" where
  "named_if w \<longleftrightarrow> vns_name w \<noteq> [] \<and> length (vns_name w) < 32 \<and> NUL \<notin> set (vns_name w)"

lemma hw_value_length: "length v \<le> 32 \<Longrightarrow> length (hw_value k v) = 36"
  by (simp add: hw_value_def)

lemma hw_entries_length: "length (hw_entries w) = 180"
  by (simp add: hw_entries_def hw_value_length)

lemma hw_entry_at:
  assumes "length a = 8 + 36 * i" and "length v \<le> 32"
  shows "mem_ld (a @ hw_value k v @ c) (8 + 36 * i) 4 = Some (enc32 (htonl k))"
    "mem_ld (a @ hw_value k v @ c) (12 + 36 * i) 32 = Some (v @ replicate (32 - length v) 0)"
proof -
  show "mem_ld (a @ hw_value k v @ c) (8 + 36 * i) 4 = Some (enc32 (htonl k))"
    using mem_ld_at[of a _ "enc32 (htonl k)"] assms(1) by (simp add: hw_value_def)
  show "mem_ld (a @ hw_value k v @ c) (12 + 36 * i) 32 = Some (v @ replicate (32 - length v) 0)"
    using mem_ld_at[of "a @ enc32 (htonl k)" _ "v @ replicate (32 - length v) 0"] assms by (simp add: hw_value_def)
qed

lemma mac_at_bytes [simp]: "mac_at (mac_bytes m @ t) 0 = m"
  by (cases m) (simp add: mac_at_def)

lemma hw_entry_steps:
  assumes "length a = 8 + 36 * i"
  shows "named_if w \<Longrightarrow> hw_entry cmp (a @ hw_value HWINTERFACE (char_array 32 (vns_name w)) @ c) i s =
      map_option (\<lambda>(v, rs). (v\<lparr>vns_name := vns_name w\<rparr>, rs)) (add_named cmp s)"
    and "hw_entry cmp (a @ hw_value HWSPEED (enc32 (htonl x)) @ c) i (v, rs) = Some (v\<lparr>vns_speed := x\<rparr>, rs)"
    and "hw_entry cmp (a @ hw_value HWETHIP (enc32 x) @ c) i (v, rs) = Some (v\<lparr>vns_ip := x\<rparr>, rs)"
    and "hw_entry cmp (a @ hw_value HWMASK (enc32 x) @ c) i (v, rs) = Some (v\<lparr>vns_mask := x\<rparr>, rs)"
    and "hw_entry cmp (a @ hw_value HWETHER (mac_bytes m) @ c) i (v, rs) = Some (v\<lparr>vns_addr := m\<rparr>, rs)"
proof -
  have k: "ntohl (le32_at (enc32 (htonl k)) 0) = k" for k using le32_enc32(1)[of "htonl k" "[]"] by simp
  show "named_if w \<Longrightarrow> hw_entry cmp (a @ hw_value HWINTERFACE (char_array 32 (vns_name w)) @ c) i s =
      map_option (\<lambda>(v, rs). (v\<lparr>vns_name := vns_name w\<rparr>, rs)) (add_named cmp s)"
    using char_array_string(1)[of "vns_name w" 32 "[]"] unfolding hw_entry_def
    by (cases "add_named cmp s") (auto simp: hw_entry_at[OF assms] k named_if_def char_array_def)
  show "hw_entry cmp (a @ hw_value HWSPEED (enc32 (htonl x)) @ c) i (v, rs) = Some (v\<lparr>vns_speed := x\<rparr>, rs)"
    "hw_entry cmp (a @ hw_value HWETHIP (enc32 x) @ c) i (v, rs) = Some (v\<lparr>vns_ip := x\<rparr>, rs)"
    "hw_entry cmp (a @ hw_value HWMASK (enc32 x) @ c) i (v, rs) = Some (v\<lparr>vns_mask := x\<rparr>, rs)"
    "hw_entry cmp (a @ hw_value HWETHER (mac_bytes m) @ c) i (v, rs) = Some (v\<lparr>vns_addr := m\<rparr>, rs)"
    unfolding hw_entry_def by (simp_all add: hw_entry_at[OF assms] k)
qed

lemma hw_entries_step:
  assumes "length a = 8 + 180 * j" and "named_if w"
  shows "run_all (hw_entry cmp (a @ hw_entries w @ c)) [5 * j..<5 * j + 5] s = map_option (\<lambda>(_, rs). (w, rs)) (add_named cmp s)"
proof -
  let ?h = "\<lambda>k v. hw_value k v"
  let ?b = "a @ hw_entries w @ c"
  have l: "length (?h k v) = 36" if "length v \<le> 32" for k v using that by (rule hw_value_length)
  let ?e0 = "?h HWINTERFACE (char_array 32 (vns_name w))" and ?e1 = "?h HWSPEED (enc32 (htonl (vns_speed w)))"
    and ?e2 = "?h HWETHIP (enc32 (vns_ip w))" and ?e3 = "?h HWMASK (enc32 (vns_mask w))" and ?e4 = "?h HWETHER (mac_bytes (vns_addr w))"
  have e0: "hw_entry cmp ?b (5 * j) s = map_option (\<lambda>(v, rs). (v\<lparr>vns_name := vns_name w\<rparr>, rs)) (add_named cmp s)"
    using hw_entry_steps(1)[of a "5 * j" w cmp "?e1 @ ?e2 @ ?e3 @ ?e4 @ c" s] assms by (simp add: hw_entries_def)
  have e1: "hw_entry cmp ?b (5 * j + 1) (v, rs) = Some (v\<lparr>vns_speed := vns_speed w\<rparr>, rs)" for v rs
    using hw_entry_steps(2)[of "a @ ?e0" "5 * j + 1" cmp "vns_speed w" "?e2 @ ?e3 @ ?e4 @ c" v rs] assms(1) by (simp add: hw_entries_def l)
  have e2: "hw_entry cmp ?b (5 * j + 2) (v, rs) = Some (v\<lparr>vns_ip := vns_ip w\<rparr>, rs)" for v rs
    using hw_entry_steps(3)[of "a @ ?e0 @ ?e1" "5 * j + 2" cmp "vns_ip w" "?e3 @ ?e4 @ c" v rs] assms(1) by (simp add: hw_entries_def l)
  have e3: "hw_entry cmp ?b (5 * j + 3) (v, rs) = Some (v\<lparr>vns_mask := vns_mask w\<rparr>, rs)" for v rs
    using hw_entry_steps(4)[of "a @ ?e0 @ ?e1 @ ?e2" "5 * j + 3" cmp "vns_mask w" "?e4 @ c" v rs] assms(1) by (simp add: hw_entries_def l)
  have e4: "hw_entry cmp ?b (5 * j + 4) (v, rs) = Some (v\<lparr>vns_addr := vns_addr w\<rparr>, rs)" for v rs
    using hw_entry_steps(5)[of "a @ ?e0 @ ?e1 @ ?e2 @ ?e3" "5 * j + 4" cmp "vns_addr w" c v rs] assms(1) by (simp add: hw_entries_def l)
  have u: "[5 * j..<5 * j + 5] = [5 * j, 5 * j + 1, 5 * j + 2, 5 * j + 3, 5 * j + 4]" by (simp add: upt_rec)
  show ?thesis unfolding u
    by (cases "add_named cmp s") (auto simp: e0 e1 e2 e3 e4 simp del: One_nat_def add_2_eq_Suc add_2_eq_Suc')
qed

lemma hw_entries_all:
  assumes "length a = 8 + 180 * j" and "list_all named_if ifs"
  shows "do { s \<leftarrow> run_all (hw_entry cmp (a @ concat (map hw_entries ifs))) [5 * j..<5 * (j + length ifs)] (v, rs);
       (_, rs) \<leftarrow> add_named cmp s;
       Some rs } =
     run_all (sr_integ_add_interface cmp) ((if vns_name v = [] then [] else [v]) @ ifs) rs"
  using assms
proof (induction ifs arbitrary: a j v rs)
  case Nil
  then show ?case by (auto simp: add_named_def split: bind_splits)
next
  case (Cons w ifs)
  let ?b = "a @ hw_entries w @ concat (map hw_entries ifs)"
  have "[5 * j..<5 * (j + length (w # ifs))] = [5 * j..<5 * j + 5] @ [5 * Suc j..<5 * (Suc j + length ifs)]"
    using upt_add_eq_append[of "5 * j" "5 * j + 5" "5 * length ifs"] by (simp add: algebra_simps)
  then have "do { s \<leftarrow> run_all (hw_entry cmp ?b) [5 * j..<5 * (j + length (w # ifs))] (v, rs); (_, rs) \<leftarrow> add_named cmp s; Some rs } =
      do { (_, rs) \<leftarrow> add_named cmp (v, rs);
           s \<leftarrow> run_all (hw_entry cmp ?b) [5 * Suc j..<5 * (Suc j + length ifs)] (w, rs); (_, rs) \<leftarrow> add_named cmp s; Some rs }"
    using hw_entries_step[of a j w cmp "concat (map hw_entries ifs)" "(v, rs)"] Cons.prems
    by (cases "add_named cmp (v, rs)") (auto simp: run_all_append)
  also have "\<dots> = do { (_, rs) \<leftarrow> add_named cmp (v, rs); run_all (sr_integ_add_interface cmp) (w # ifs) rs }"
  proof -
    have "do { s \<leftarrow> run_all (hw_entry cmp ?b) [5 * Suc j..<5 * (Suc j + length ifs)] (w, rs); (_, rs) \<leftarrow> add_named cmp s; Some rs } =
        run_all (sr_integ_add_interface cmp) (w # ifs) rs" for rs
      using Cons.IH[of "a @ hw_entries w" "Suc j" w rs] Cons.prems by (simp add: hw_entries_length named_if_def)
    then show ?thesis by (simp only:)
  qed
  also have "\<dots> = run_all (sr_integ_add_interface cmp) ((if vns_name v = [] then [] else [v]) @ w # ifs) rs"
    by (cases "sr_integ_add_interface cmp v rs") (simp_all add: add_named_def)
  finally show ?case by simp
qed

text \<open>
  C32. The description of the interfaces starts the router. When the message with any list of named interfaces arrives (up to 55, in whatever pieces), the
  interfaces are added in their order with the values of the message, and then the database, the configured routes and the command table
  are set up. An instance whose router is in the state that \<open>init\<close> left becomes the router that \<open>start_up\<close> describes.
\<close>

theorem hwinfo_starts_router:
  assumes "list_all named_if ifs" and "length ifs \<le> 55" and "bytes_of es = hwinfo_message ifs @ tail" and "init cmp net = Some (sr_router sr)"
  shows "\<exists>es'. bytes_of es' = tail \<and> sr_vns_read_from_server cmp rows junk es sr =
    map_option (\<lambda>(cs, rs). (Some 1, es', sr\<lparr>sr_router := rs, sr_commands := cs, sr_hw_init := True\<rparr>)) (start_up cmp net ifs rows)"
proof -
  let ?n = "8 + 180 * length ifs"
  let ?l = "enc32 (htonl (word_of_nat ?n))" and ?t = "enc32 (htonl VNSHWINFO)" and ?es = "concat (map hw_entries ifs)"
  have "length ?es = 180 * length ifs" by (induction ifs) (simp_all add: hw_entries_length)
  then obtain es' where es': "bytes_of es' = tail" "sr_vns_read_from_server cmp rows junk es sr =
      map_option (\<lambda>(r, sr). (Some r, es', sr)) (vns_dispatch cmp rows junk (?l @ ?t @ ?es) sr)"
    using message_read[of es ?n "?t @ ?es" tail cmp rows junk sr] assms(2,3) by (auto simp: hwinfo_message_def)
  have ty: "mem_ld (?l @ ?t @ ?es) 4 4 = Some ?t" by (rule mem_ld_at) simp_all
  have "mem_ld ([] @ ?l @ ?t @ ?es) 0 4 = Some ?l" by (rule mem_ld_at) simp_all
  then have l: "mem_ld (?l @ ?t @ ?es) 0 4 = Some ?l" by simp
  have n: "unat (ntohl (le32_at ?l 0) - 8) div 36 = 5 * length ifs"
  proof -
    have "ntohl (le32_at ?l 0) - 8 = word_of_nat (180 * length ifs)" using le32_enc32(1)[of "htonl (word_of_nat ?n)" "[]"] by simp
    moreover have "unat (word_of_nat (180 * length ifs) :: u32) = 180 * length ifs" using assms(2) by (simp only: unat_of_nat) simp
    ultimately show ?thesis by simp
  qed
  have h: "do { s \<leftarrow> run_all (hw_entry cmp (?l @ ?t @ ?es)) [0..<5 * length ifs] (junk\<lparr>vns_name := []\<rparr>, sr_router sr);
      (_, rs) \<leftarrow> add_named cmp s; Some rs } = run_all (sr_integ_add_interface cmp) ifs (sr_router sr)"
    using hw_entries_all[of "?l @ ?t" 0 ifs cmp "junk\<lparr>vns_name := []\<rparr>" "sr_router sr"] assms(1) by simp
  have "sr_handle_hwinfo cmp rows junk (?l @ ?t @ ?es) sr = do {
      rs \<leftarrow> run_all (sr_integ_add_interface cmp) ifs (sr_router sr);
      (cs, rs) \<leftarrow> sr_integ_hw_setup cmp rows rs;
      Some (5 * length ifs, sr\<lparr>sr_router := rs, sr_commands := cs, sr_hw_init := True\<rparr>) }"
    unfolding h[symmetric] sr_handle_hwinfo_def l Option.bind.bind_lunit n Let_def by (simp add: split_def)
  then have "vns_dispatch cmp rows junk (?l @ ?t @ ?es) sr =
      map_option (\<lambda>(cs, rs). (1, sr\<lparr>sr_router := rs, sr_commands := cs, sr_hw_init := True\<rparr>)) (start_up cmp net ifs rows)"
    unfolding vns_dispatch_def ty Option.bind.bind_lunit start_up_def assms(4)
    using le32_enc32(1)[of "htonl VNSHWINFO" "[]"] by (simp add: map_conv_bind_option split_def comp_def)
  with es' show ?thesis by (intro exI[of _ es']) (simp add: option.map_comp comp_def split_def)
qed

text \<open>
  Lengths that are not checked. A message whose length field is negative or above 10000 closes the session; one below 8, which passes the test,
  makes the router write or read past the end of the block it allocated for the message. When the simulator closes the connection the
  router reads nothing for ever.
\<close>

theorem vns_bad_lengths:
  assumes "bytes_of es = enc32 (htonl w) @ body @ tail" and "w \<ge> 4 \<and> w < 8 \<longrightarrow> length body = unat w - 4"
  shows "(sint w < 0 \<or> 10000 < sint w \<longrightarrow> (\<exists>es'. sr_vns_read_from_server cmp rows junk es sr = Some (Some (- 1), es', sr\<lparr>sr_closed := True\<rparr>)))
    \<and> (w < 8 \<longrightarrow> sr_vns_read_from_server cmp rows junk es sr = None)
    \<and> sr_vns_read_from_server cmp rows junk (replicate k End) sr = Some (None, [], sr)"
proof (intro conjI impI)
  obtain es1 where e1: "read_exact 4 [] es = Complete (enc32 (htonl w)) es1" "bytes_of es1 = body @ tail"
    using vns_reader.reads_bytes[OF assms(1), of "[]" 4] by auto
  have len: "ntohl (le32_at (enc32 (htonl w)) 0) = w" using le32_enc32(1)[of "htonl w" "[]"] by simp
  show "\<exists>es'. sr_vns_read_from_server cmp rows junk es sr = Some (Some (- 1), es', sr\<lparr>sr_closed := True\<rparr>)" if "sint w < 0 \<or> 10000 < sint w"
    using that by (auto simp: sr_vns_read_from_server_def e1(1) len Let_def)
  show "sr_vns_read_from_server cmp rows junk es sr = None" if "w < 8"
  proof -
    have small: "unat w < 8" using that by (simp add: word_less_nat_alt)
    have "sint w = int (unat w)" using small by (intro signed_small) simp
    then have s: "\<not> 10000 < sint w" "\<not> sint w < 0" "sint w < 4 \<longleftrightarrow> unat w < 4" "nat (sint w) = unat w" using small by linarith+
    show ?thesis
    proof (cases "unat w < 4")
      case True
      then show ?thesis by (simp add: sr_vns_read_from_server_def e1(1) len s Let_def)
    next
      case False
      then have "length body = unat w - 4" using assms(2) that by (simp add: word_le_nat_alt)
      with vns_reader.reads_bytes[OF e1(2), of "[]" "unat w - 4"] obtain es2 where "read_exact (unat w - 4) [] es1 = Complete body es2" by auto
      moreover have "vns_dispatch cmp rows junk (enc32 x @ body) sr = None" for x
      proof -
        have "length body < 4" using small \<open>length body = unat w - 4\<close> by linarith
        then show ?thesis by (simp add: vns_dispatch_def mem_ld_def)
      qed
      ultimately show ?thesis using False by (simp add: sr_vns_read_from_server_def e1(1) len s Let_def)
    qed
  qed
  have "read_exact 4 [] (replicate k (End :: byte arrival)) = Blocked" by (induction k) (simp_all add: read_exact.simps[of 4 "[]"])
  then show "sr_vns_read_from_server cmp rows junk (replicate k End) sr = Some (None, [], sr)" by (simp add: sr_vns_read_from_server_def)
qed

section \<open>An instance\<close>

definition new_instance :: sr_instance where
  "new_instance = \<lparr>sr_router = the (init str_sign False), sr_commands = [], sr_hw_init = False, sr_closed = False\<rparr>"

lemma new_instance_init: "init str_sign False = Some (sr_router new_instance)"
  by (simp add: new_instance_def init_def)

theorem vns_bad_lengths_witness:
  "sr_vns_read_from_server str_sign [] one_iface [Data [0], Data [0, 0, 5], Data [7]] new_instance = None"
proof -
  have b: "bytes_of [Data [0], Data [0, 0, 5], Data [7]] = enc32 (htonl 5) @ [7] @ []" by code_simp
  show ?thesis using vns_bad_lengths[OF b, of str_sign "[]" one_iface new_instance 0] by simp
qed

theorem vns_packet_round_trip_witness:
  "\<exists>es'. sr_vns_read_from_server str_sign [] one_iface
      [Data (take 5 (packet_message (replicate 14 0) ''eth0'')), Interrupt, Data (drop 5 (packet_message (replicate 14 0) ''eth0''))] new_instance =
    map_option (\<lambda>rs. (Some 1, es', new_instance\<lparr>sr_router := rs\<rparr>)) (process_packet (sr_router new_instance) (replicate 14 0) ''eth0'')"
proof -
  let ?m = "packet_message (replicate 14 0) ''eth0''"
  let ?es = "[Data (take 5 ?m), Interrupt, Data (drop 5 ?m)]"
  have "length ?m = 38" by (simp add: packet_message_def)
  then have send: "sr_vns_send_packet (length (replicate 14 (0::byte)) + 24) (replicate 14 0) ''eth0'' = (0, ?m)" and "bytes_of ?es = ?m @ []"
    by (auto simp: sr_vns_send_packet_def)
  from vns_packet_round_trip[OF _ _ _ _ send this(2), of str_sign "[]" one_iface new_instance] show ?thesis by auto
qed

theorem hwinfo_starts_router_witness:
  "\<exists>es'. sr_vns_read_from_server str_sign [] one_iface [Data (hwinfo_message [one_iface])] new_instance =
    map_option (\<lambda>(cs, rs). (Some 1, es', new_instance\<lparr>sr_router := rs, sr_commands := cs, sr_hw_init := True\<rparr>)) (start_up str_sign False [one_iface] [])"
proof -
  have ifs: "list_all named_if [one_iface]" by (simp add: named_if_def one_iface_def)
  have "hwinfo_message [one_iface] \<noteq> []" by (simp add: hwinfo_message_def enc32_def)
  then have b: "bytes_of [Data (hwinfo_message [one_iface])] = hwinfo_message [one_iface] @ []" by simp
  from hwinfo_starts_router[OF ifs _ b new_instance_init, of "[]" one_iface] show ?thesis by auto
qed

end
