(* ===== verification/Www.thy ===== *)
theory Www
  imports Cli Socket
begin

text \<open>
  The web interface, \<^verbatim>\<open>or_www.c\<close>: reading a request, the list of the commands, commands and files. A request is served by one thread from its
  first byte to its last; the texts that it sends are the result. The files of the working directory are a function of the path. The environment of
  the commands is the one of the command line.
\<close>

record web_env =
  web_cli :: cli_env
  web_cwd :: string
  web_files :: "string \<Rightarrow> string option"

section \<open>Reading a request\<close>

definition contains_crlfcrlf :: "string \<Rightarrow> bool" where
  "contains_crlfcrlf buf \<longleftrightarrow> 4 \<le> length buf \<and> list_ex (\<lambda>i. take 4 (drop i buf) = [CR, LF, CR, LF]) [0..<length buf - 3]"

datatype request = Request string | Dropped | Waiting

text \<open>
  The loop over \<open>recv\<close>. The block has \<open>alloc\<close> bytes, zeros after what was read; it is doubled when it is full. An error of \<open>recv\<close>, an
  interruption too, ends the connection. Doubling beyond the range of an \<open>int\<close> is undefined.
\<close>

function read_request :: "char arrival list \<Rightarrow> string \<Rightarrow> nat \<Rightarrow> request outcome" where
  "read_request es buf alloc =
     (case sock_recv (alloc - length buf) es of
        Pending \<Rightarrow> Some Waiting
      | Err _ \<Rightarrow> Some Dropped
      | Intr _ \<Rightarrow> Some Dropped
      | Eof _ \<Rightarrow> Some (if contains_crlfcrlf buf then Request (buf @ replicate (alloc - length buf) NUL) else Dropped)
      | Got xs es' \<Rightarrow>
          (let buf = buf @ xs; alloc' = (if length buf = alloc then 2 * alloc else alloc) in
           if alloc' \<ge> 2 ^ 31 then None
           else if contains_crlfcrlf buf then Some (Request (buf @ replicate (alloc' - length buf) NUL))
           else read_request es' buf alloc'))"
  by pat_completeness auto

termination by (relation "measure (\<lambda>(es, _, _). weight es)") (auto simp: recv_weight)

declare read_request.simps [simp del]

section \<open>Sending\<close>

text \<open>\<open>send_all\<close> over the results of \<open>send\<close>, of which there may not be enough yet: the bytes handed over in each call, and the return value.\<close>

fun send_all :: "int list \<Rightarrow> string \<Rightarrow> string list \<Rightarrow> (int \<times> string list) option" where
  "send_all ss [] out = Some (0, out)"
| "send_all [] msg out = None"
| "send_all (s # ss) msg out =
     (if s < 0 then Some (- 1, out)
      else send_all ss (drop (nat s) msg) (out @ [take (nat s) msg]))"

section \<open>Answers\<close>

abbreviation (input) CRLF :: string where "CRLF \<equiv> [CR, LF]"

definition list_commands :: "cli_entry list \<Rightarrow> router_state \<Rightarrow> (string \<times> router_state) outcome" where
  "list_commands cs rs = do {
     rs \<leftarrow> acquire CliCommands Rd rs;
     (msg, _) \<leftarrow> run_all (\<lambda>entry (msg, alloc_size). do {
        (msg, alloc_size) \<leftarrow> my_strncat msg (ce_command entry) alloc_size;
        my_strncat msg [LF] alloc_size }) cs ([], 256);
     rs \<leftarrow> release CliCommands rs;
     Some (msg, rs) }"

definition content_length :: "nat \<Rightarrow> string" where
  "content_length n = ''Content-Length: '' @ show_nat n @ CRLF @ CRLF"

definition serve_list :: "cli_entry list \<Rightarrow> router_state \<Rightarrow> reply" where
  "serve_list cs rs = do {
     (body, rs) \<leftarrow> list_commands cs rs;
     (result, alloc_size) \<leftarrow> my_strncat (''HTTP/1.0 200 OK'' @ CRLF) (content_length (length body)) 512;
     (result, _) \<leftarrow> my_strncat result body alloc_size;
     Some (rs, [result]) }"

text \<open>The text of the statistics is copied over the header; the block has 512 bytes.\<close>

definition serve_stats :: "web_env \<Rightarrow> router_state \<Rightarrow> reply" where
  "serve_stats env rs =
     (let statsBuf = env_stats (web_cli env) in if length statsBuf < 512 then Some (rs, [statsBuf]) else None)"

definition strtok :: "string \<Rightarrow> (string \<times> string) option" where
  "strtok s =
     (let delim = (\<lambda>c. c = CHR ''='' \<or> c = CHR ''&''); t = dropWhile delim s; token = takeWhile (\<lambda>c. \<not> delim c) t in
      if token = [] then None else Some (token, drop (Suc (length token)) t))"

definition url_command :: "string \<Rightarrow> string" where
  "url_command url =
     (case strtok url of
        None \<Rightarrow> []
      | Some (_, rest) \<Rightarrow> (case strtok rest of None \<Rightarrow> [] | Some (command, _) \<Rightarrow> urldecode command))"

definition serve_command :: "cli_entry list \<Rightarrow> web_env \<Rightarrow> router_state \<Rightarrow> string \<Rightarrow> reply" where
  "serve_command cs env rs url = do {
     let command = url_command url;
     rs \<leftarrow> acquire CliCommands Rd rs;
     (rs, texts) \<leftarrow> (case cli_command_lpm cs command of
        None \<Rightarrow> Some (rs, [line ''invalid command''])
      | Some handler \<Rightarrow> handler (web_cli env) rs command);
     rs \<leftarrow> release CliCommands rs;
     Some (rs, (''HTTP/1.0 200 OK'' @ CRLF @ CRLF) # texts) }"

text \<open>\<open>strncat\<close> with the room that is left in a block of 512 bytes.\<close>

definition append_path :: "string \<Rightarrow> string \<Rightarrow> string" where
  "append_path fileName s = fileName @ take (511 - length fileName) s"

definition file_name :: "web_env \<Rightarrow> string \<Rightarrow> string" where
  "file_name env url =
     (let fileName = append_path (if length (web_cwd env) < 512 then web_cwd env else []) ''/www'' in
      append_path fileName (if url = ''/'' then ''/index.html'' else url))"

definition send_file :: "string \<Rightarrow> string list" where
  "send_file file = [snprintf 127 (content_length (length file)), file]"

definition serve_file :: "web_env \<Rightarrow> router_state \<Rightarrow> string \<Rightarrow> reply" where
  "serve_file env rs url =
     (case web_files env (file_name env url) of
        None \<Rightarrow> Some (rs, [''HTTP/1.0 404 Not Found'' @ CRLF @ CRLF,
          ''<html><head><title>404 Not Found</title></head><body><h1>Not Found</h1><p>The requested URL was not found on this server.</p></body></html>''])
      | Some file \<Rightarrow> Some (rs, (''HTTP/1.0 200 OK'' @ CRLF) # send_file file))"

definition service_request ::
    "cli_entry list \<Rightarrow> web_env \<Rightarrow> char arrival list \<Rightarrow> router_state \<Rightarrow> (session \<times> router_state \<times> string list) outcome" where
  "service_request cs env es rs = do {
     req \<leftarrow> read_request es [] 100;
     (case req of
        Waiting \<Rightarrow> Some (Open, rs, [])
      | Dropped \<Rightarrow> Some (Ended, rs, [])
      | Request buf \<Rightarrow> do {
          text \<leftarrow> cstring buf;
          args \<leftarrow> sscanf text ''%as %as'';
          (case args of
             [Str method, Str url] \<Rightarrow> do {
               (rs, texts) \<leftarrow>
                 (if url = ''/list.html'' then serve_list cs rs
                  else if strncmp_eq url ''/stats.html'' 11 then serve_stats env rs
                  else if strncmp_eq url ''/command.html'' 13 then serve_command cs env rs url
                  else serve_file env rs url);
               Some (Ended, rs, texts) }
           | _ \<Rightarrow> Some (Ended, rs, [])) }) }"

text \<open>One turn of a web thread: the first request of the queue, which the mutex \<open>www_mutex\<close> protects.\<close>

definition www_client_round ::
    "cli_entry list \<Rightarrow> web_env \<Rightarrow> char arrival list list \<Rightarrow> router_state \<Rightarrow> (char arrival list list \<times> router_state \<times> string list) outcome" where
  "www_client_round cs env queue rs = do {
     rs \<leftarrow> acquire WwwQueue Wr rs;
     (case queue of
        [] \<Rightarrow> do { rs \<leftarrow> release WwwQueue rs; Some ([], rs, []) }
      | es # queue \<Rightarrow> do {
          rs \<leftarrow> release WwwQueue rs;
          (_, rs, texts) \<leftarrow> service_request cs env es rs;
          Some (queue, rs, texts) }) }"

section \<open>Requests in pieces\<close>

text \<open>A request that arrives in any number of pieces, without an error.\<close>

definition plain_arrivals :: "'a arrival list \<Rightarrow> bool" where
  "plain_arrivals es \<longleftrightarrow> (\<forall>e\<in>set es. \<exists>xs. e = Data xs \<and> xs \<noteq> [])"

lemma recv_plain:
  assumes "plain_arrivals es" and "bytes_of es \<noteq> []" and "0 < n"
  shows "\<exists>xs es'. sock_recv n es = Got xs es' \<and> plain_arrivals es' \<and> xs \<noteq> [] \<and> length xs \<le> n \<and> xs @ bytes_of es' = bytes_of es"
  using assms by (cases "(n, es)" rule: sock_recv.cases) (auto simp: plain_arrivals_def)

lemma contains_at_end: "contains_crlfcrlf (s @ [CR, LF, CR, LF])"
  by (auto simp: contains_crlfcrlf_def list_ex_iff intro!: bexI[of _ "length s"])

lemma contains_CR: "contains_crlfcrlf s \<Longrightarrow> \<exists>i. i + 3 < length s \<and> s ! i = CR \<and> s ! (i + 2) = CR \<and> s ! (i + 3) = LF"
proof -
  assume "contains_crlfcrlf s"
  then obtain i where i: "i < length s - 3" "take 4 (drop i s) = [CR, LF, CR, LF]" by (auto simp: contains_crlfcrlf_def list_ex_iff)
  then have "s ! i = CR" "s ! (i + 2) = CR" "s ! (i + 3) = LF"
    using nth_take[of 0 4 "drop i s"] nth_take[of 2 4 "drop i s"] nth_take[of 3 4 "drop i s"] by (simp_all add: nth_drop)
  with i(1) show ?thesis by (intro exI[of _ i]) auto
qed

lemma contains_prefix:
  assumes "CR \<notin> set s" and "contains_crlfcrlf t" and "t @ r = s @ [CR, LF, CR, LF]"
  shows "r = []"
proof -
  obtain i where i: "i + 3 < length t" "t ! i = CR" using contains_CR[OF assms(2)] by blast
  have "(t @ r) ! i = CR" using i by (simp add: nth_append)
  then have "length s \<le> i" using assms(1) unfolding assms(3) by (metis nth_append nth_mem not_le)
  then have "length s + 4 \<le> length t" using i(1) by linarith
  moreover have "length t + length r = length s + 4" using arg_cong[OF assms(3), of length] by simp
  ultimately have "length r = 0" by linarith
  then show ?thesis by simp
qed

lemma read_request_pieces:
  assumes "plain_arrivals es" and "buf @ bytes_of es = s @ [CR, LF, CR, LF]" and "CR \<notin> set s" and "\<not> contains_crlfcrlf buf"
    and "length buf < alloc" and "alloc \<le> 2 * length s + 200" and "length s < 2 ^ 29"
  shows "\<exists>k. read_request es buf alloc = Some (Request (s @ [CR, LF, CR, LF] @ NUL # replicate k NUL))"
  using assms
proof (induction es buf alloc rule: read_request.induct)
  case (1 es buf alloc)
  have "bytes_of es \<noteq> []" using "1.prems"(2,4) contains_at_end[of s] by auto
  from recv_plain[OF "1.prems"(1) this, of "alloc - length buf"] "1.prems"(5) obtain xs es' where
    r: "sock_recv (alloc - length buf) es = Got xs es'" "plain_arrivals es'" "xs \<noteq> []" "length xs \<le> alloc - length buf" "xs @ bytes_of es' = bytes_of es"
    by auto
  define b where "b = buf @ xs"
  define alloc' where "alloc' = (if length b = alloc then 2 * alloc else alloc)"
  have b: "b @ bytes_of es' = s @ [CR, LF, CR, LF]" using "1.prems"(2) r(5) by (simp add: b_def)
  have "length b + length (bytes_of es') = length s + 4" using arg_cong[OF b, of length] unfolding length_append by simp
  then have len: "length b \<le> length s + 4" by linarith
  have alloc: "length b < alloc'" "alloc' \<le> 2 * length s + 200"
    using "1.prems"(5,6) r(4) len by (auto simp: b_def alloc'_def)
  then have small: "\<not> 2 ^ 31 \<le> alloc'" using "1.prems"(7) by simp
  show ?case
  proof (cases "contains_crlfcrlf b")
    case True
    then have "b = s @ [CR, LF, CR, LF]" using contains_prefix[OF "1.prems"(3) True b] b by simp
    moreover obtain k where "alloc' - length b = Suc k" using alloc(1) by (metis Suc_diff_Suc)
    ultimately show ?thesis
      using r(1) small True by (subst read_request.simps) (auto simp: Let_def b_def alloc'_def)
  next
    case False
    from "1.IH"[OF r(1) b_def alloc'_def small False r(2) b "1.prems"(3) False alloc "1.prems"(7)] r(1) small False
    show ?thesis by (subst read_request.simps) (auto simp: Let_def b_def[symmetric] alloc'_def[symmetric])
  qed
qed

section \<open>Commands over the web\<close>

definition web_text :: "string \<Rightarrow> string" where
  "web_text url = ''GET '' @ url @ '' HTTP/1.0'' @ [CR, LF, CR, LF]"

definition command_url :: "string \<Rightarrow> string" where
  "command_url command = ''/command.html?command='' @ urlencode command"

lemma urlencode_chars: "c \<in> set (urlencode s) \<Longrightarrow> url_plain c \<or> c = CHR ''%''"
proof (induction s)
  case (Cons a s)
  have "of_char a mod 16 < (16::nat)" "of_char a div 16 mod 16 < (16::nat)" by simp_all
  then have "url_plain (digit_char (of_char a div 16 mod 16))" "url_plain (digit_char (of_char a mod 16))"
    by (simp_all only: url_plain_def of_char_digit_char Let_def) auto
  with Cons show ?case by (auto split: if_splits)
qed simp

lemma url_plain_chars:
  "\<not> url_plain (CHR ''='')" "\<not> url_plain (CHR ''&'')" "\<not> url_plain NUL" "\<not> url_plain CR" "\<not> url_plain LF" "\<not> url_plain (CHR '' '')" "\<not> url_plain TAB"
  by (simp_all add: url_plain_def)

lemma url_plain_space: "url_plain c \<Longrightarrow> \<not> isspace c"
  by (auto simp: isspace_def url_plain_def)

lemma command_url_word: "is_word (command_url command)"
proof -
  have "isspace c \<Longrightarrow> c \<notin> set (urlencode command)" for c
    using urlencode_chars[of c command] url_plain_space[of c] by (auto simp: isspace_def)
  then show ?thesis by (auto simp: is_word_def command_url_def list_ex_iff isspace_def)
qed

lemma command_url_command:
  assumes "command \<noteq> []" and "NUL \<notin> set command"
  shows "url_command (command_url command) = command"
proof -
  have no: "c \<in> set (urlencode command) \<Longrightarrow> c \<noteq> CHR ''='' \<and> c \<noteq> CHR ''&''" for c
    using urlencode_chars[of c command] url_plain_chars by auto
  have ne: "urlencode command \<noteq> []" using assms(1) by (cases command) auto
  have dw: "dropWhile (\<lambda>c. c = CHR ''='' \<or> c = CHR ''&'') (urlencode command) = urlencode command"
    using no by (cases "urlencode command") auto
  have tw: "takeWhile (\<lambda>c. c \<noteq> CHR ''='' \<and> c \<noteq> CHR ''&'') (urlencode command) = urlencode command"
    using no by (simp add: takeWhile_eq_all_conv)
  have "url_command (command_url command) = urldecode (urlencode command)"
    by (simp add: url_command_def command_url_def strtok_def Let_def ne dw tw)
  then show ?thesis
    using assms(2) by (auto simp: urldecode_def urldecode_urlencode_bytes takeWhile_append)
qed

lemma request_line:
  assumes "is_word url"
  shows "sscanf (''GET '' @ url @ '' HTTP/1.0'' @ s) ''%as %as'' = Some [Str ''GET'', Str url]"
proof -
  have f: "scan_format ''%as %as'' = [Str_conv, Blank, Str_conv]" by code_simp
  have "is_word ''GET''" by (simp add: is_word_def isspace_def)
  from sscan_words[OF this assms, of "[Str_conv]" "'' HTTP/1.0'' @ s"] sscan_word[OF assms, of "'' HTTP/1.0'' @ s" "[]"]
  show ?thesis unfolding sscanf_def f by (simp del: sscan.simps(2-))
qed

lemma service_request_text:
  assumes "plain_arrivals es" and "bytes_of es = web_text url" and "is_word url" and "NUL \<notin> set url" and "length url < 2 ^ 28"
  shows "service_request cs env es rs = do {
     (rs, texts) \<leftarrow>
       (if url = ''/list.html'' then serve_list cs rs
        else if strncmp_eq url ''/stats.html'' 11 then serve_stats env rs
        else if strncmp_eq url ''/command.html'' 13 then serve_command cs env rs url
        else serve_file env rs url);
     Some (Ended, rs, texts) }"
proof -
  let ?s = "''GET '' @ url @ '' HTTP/1.0''"
  have "CR \<notin> set url" using assms(3) by (auto simp: is_word_def list_ex_iff isspace_def)
  then have "CR \<notin> set ?s" by simp
  moreover have "\<not> contains_crlfcrlf []" by (simp add: contains_crlfcrlf_def)
  ultimately obtain k where k: "read_request es [] 100 = Some (Request (?s @ [CR, LF, CR, LF] @ NUL # replicate k NUL))"
    using read_request_pieces[of es "[]" ?s 100] assms by (auto simp: web_text_def)
  have "cstring ((?s @ [CR, LF, CR, LF]) @ NUL # replicate k NUL) = Some (?s @ [CR, LF, CR, LF])"
    by (rule cstring_NUL) (use assms(4) in auto)
  then have c: "cstring (?s @ [CR, LF, CR, LF] @ NUL # replicate k NUL) = Some (?s @ [CR, LF, CR, LF])" by simp
  have "sscanf (?s @ [CR, LF, CR, LF]) ''%as %as'' = Some [Str ''GET'', Str url]"
    using request_line[OF assms(3), of "[CR, LF, CR, LF]"] by simp
  then show ?thesis unfolding service_request_def k Option.bind.bind_lunit request.case c by (simp only: Option.bind.bind_lunit list.case scanned.case)
qed

text \<open>
  C30. A command sent as a URL does what it does on the command line. For every text of a command, its encoding in the
  request, in whatever pieces the request arrives, and the parsing and decoding of the URL give the text back; the handler that the
  command line would choose runs with the command table locked for reading, and its texts follow the header.
\<close>

theorem web_command_like_cli:
  assumes "plain_arrivals es" and "bytes_of es = web_text (command_url command)" and "command \<noteq> []" and "NUL \<notin> set command"
    and "length command < 2 ^ 20" and "cli_command_lpm cs command \<noteq> None" and "lock_free CliCommands rs"
  shows "service_request cs env es rs = do {
     (rs, texts) \<leftarrow> run_command cs (web_cli env) (rs\<lparr>held := (CliCommands, Rd) # held rs\<rparr>) command;
     rs \<leftarrow> release CliCommands rs;
     Some (Ended, rs, (''HTTP/1.0 200 OK'' @ [CR, LF, CR, LF]) # texts) }"
proof -
  have "NUL \<notin> set (command_url command)"
    using urlencode_chars[of NUL command] url_plain_chars by (auto simp: command_url_def)
  moreover have "length (command_url command) < 2 ^ 28"
    using urlencode_length[of command] assms(5) by (simp add: command_url_def)
  ultimately have "service_request cs env es rs = do {
      (rs, texts) \<leftarrow> serve_command cs env rs (command_url command);
      Some (Ended, rs, texts) }"
    using service_request_text[OF assms(1,2) command_url_word] by (simp add: strncmp_eq_def command_url_def)
  then show ?thesis
    using assms(6) acquire_free[OF assms(7), of Rd]
    by (auto simp: serve_command_def command_url_command[OF assms(3,4)] run_command_def split: bind_splits option.splits)
qed

definition web_router :: web_env where
  "web_router = \<lparr>web_cli = plain_env, web_cwd = ''/scone'',
     web_files = (\<lambda>f. if f = ''/scone/www/../cpuhw'' then Some ''eth0 10.0.0.1'' else None)\<rparr>"

theorem web_command_like_cli_witness:
  "service_request registered web_router [Data (web_text (command_url ''show vns user''))] idle_router =
     Some (Ended, idle_router, [''HTTP/1.0 200 OK'' @ [CR, LF, CR, LF], ''User:'' @ [TAB, TAB], sr_user plain_env, [LF]])"
proof -
  let ?es = "[Data (web_text (command_url ''show vns user''))]"
  have es: "plain_arrivals ?es" "bytes_of ?es = web_text (command_url ''show vns user'')"
    by (simp_all add: plain_arrivals_def web_text_def)
  have lpm: "cli_command_lpm registered ''show vns user'' = Some cli_show_vns_user"
    by (simp add: cli_command_lpm_def registered_def cli_registrations_def create_cli_entry_def strncmp_eq_def Let_def)
  have free: "lock_free CliCommands idle_router" by (simp add: idle_router_def lock_free_def)
  show ?thesis
    unfolding web_command_like_cli[OF es _ _ _ _ free, of registered web_router, simplified lpm, simplified]
    by (simp add: run_command_def lpm cli_show_vns_user_def release_def web_router_def)
qed

text \<open>
  Any other URL is the path of a file: it is appended as it is to the directory of the web pages, and the file found there is sent after a header with its length,
  or the client is told that there is none. Nothing keeps the path inside that directory: with \<open>..\<close> a client reads the files beside it.
\<close>

theorem web_file_served:
  assumes "plain_arrivals es" and "bytes_of es = web_text url" and "is_word url" and "NUL \<notin> set url"
    and "url \<noteq> ''/list.html''" and "\<not> strncmp_eq url ''/stats.html'' 11" and "\<not> strncmp_eq url ''/command.html'' 13"
    and "length (web_cwd env) + length url \<le> 500" and "url \<noteq> ''/''"
  shows "service_request cs env es rs =
    (case web_files env (web_cwd env @ ''/www'' @ url) of
       Some file \<Rightarrow> Some (Ended, rs, [''HTTP/1.0 200 OK'' @ [CR, LF], take 126 (''Content-Length: '' @ show_nat (length file) @ [CR, LF, CR, LF]), file])
     | None \<Rightarrow> Some (Ended, rs, [''HTTP/1.0 404 Not Found'' @ [CR, LF, CR, LF],
          ''<html><head><title>404 Not Found</title></head><body><h1>Not Found</h1><p>The requested URL was not found on this server.</p></body></html>'']))"
proof -
  have "length url < 2 ^ 28" using assms(8) by simp
  then have "service_request cs env es rs = do { (rs, texts) \<leftarrow> serve_file env rs url; Some (Ended, rs, texts) }"
    using service_request_text[OF assms(1-4)] assms(5-7) by simp
  moreover have "file_name env url = web_cwd env @ ''/www'' @ url" using assms(8,9) by (simp add: file_name_def append_path_def)
  ultimately show ?thesis
    by (simp add: serve_file_def send_file_def content_length_def snprintf_def split: option.splits)
qed

theorem web_file_served_witness:
  "service_request registered web_router [Data ''GET '', Data ''/../cpuhw HTTP/1.0'', Data [CR, LF, CR], Data [LF]] idle_router =
     Some (Ended, idle_router, [''HTTP/1.0 200 OK'' @ [CR, LF], ''Content-Length: 13'' @ [CR, LF, CR, LF], ''eth0 10.0.0.1''])"
proof -
  let ?es = "[Data ''GET '', Data ''/../cpuhw HTTP/1.0'', Data [CR, LF, CR], Data [LF]]"
  have es: "plain_arrivals ?es" "bytes_of ?es = web_text ''/../cpuhw''" by (simp_all add: plain_arrivals_def web_text_def)
  have thirteen: "show_nat (length ''eth0 10.0.0.1'') = ''13''" by code_simp
  have "is_word ''/../cpuhw''" "NUL \<notin> set ''/../cpuhw''"
    "''/../cpuhw'' \<noteq> ''/list.html''" "\<not> strncmp_eq ''/../cpuhw'' ''/stats.html'' 11" "\<not> strncmp_eq ''/../cpuhw'' ''/command.html'' 13"
    "length (web_cwd web_router) + length ''/../cpuhw'' \<le> 500" "''/../cpuhw'' \<noteq> ''/''"
    by (simp_all add: is_word_def isspace_def strncmp_eq_def web_router_def)
  from web_file_served[OF es this, of registered idle_router] show ?thesis
    by (simp add: web_router_def thirteen del: list.size)
qed

section \<open>Sending\<close>

lemma send_all_complete:
  assumes "list_all (\<lambda>s. 0 < s) ss" and "length msg \<le> length ss"
  shows "\<exists>out'. send_all ss msg out = Some (0, out') \<and> concat out' = concat out @ msg"
  using assms
proof (induction ss msg out rule: send_all.induct)
  case (3 s ss c msg out)
  then have "0 < s" "length (drop (nat s) (c # msg)) \<le> length ss" by auto
  with 3 show ?case by fastforce
qed auto

end
