(* ===== verification/Nat_Control.thy ===== *)
theory Nat_Control
  imports Cli Nat_Table
begin

text \<open>
  The rest of \<^verbatim>\<open>or_nat.c\<close>: the commands that show and change the translation table, which \<open>init_cli\<close> has commented out, and one
  round of the maintenance thread, which \<open>init\<close> does not start. The average of an entry is a \<open>double\<close>; the model leaves open what
  it is: entries are paired with averages of any type, and the two operations the thread uses on them, the weighted average and the
  comparison, are parameters. The register accesses of this file are commented out in the source.
\<close>

section \<open>Printing\<close>

definition NAT_COL :: string where
  "NAT_COL = ''EXT IP          Port   INT IP          Port   Hits   LHits  HPS     LHits TDelta HW  S'' @ [LF]"

abbreviation (input) NAT_ENTRY_TO_STR_LEN :: nat where "NAT_ENTRY_TO_STR_LEN \<equiv> 88"

text \<open>The text of the average in its column (\<open>%-7.2f\<close>) is a parameter.\<close>

definition nat_line :: "(nat_entry \<Rightarrow> string) \<Rightarrow> router_state \<Rightarrow> nat_entry \<Rightarrow> string" where
  "nat_line avg_column rs ne =
     (let diff = (word_of_int (to_int32 (clock rs - ne_last_hits_time ne)) :: u32)
      in snprintf NAT_ENTRY_TO_STR_LEN
           (pad_right 15 (inet_ntop (np_ip (ne_ext ne))) @ '' '' @ pad_right 6 (show_nat (unat (ntohs (np_port (ne_ext ne))))) @ '' '' @
            pad_right 15 (inet_ntop (np_ip (ne_int ne))) @ '' '' @ pad_right 6 (show_nat (unat (ntohs (np_port (ne_int ne))))) @ '' '' @
            pad_right 6 (show_nat (unat (ne_hits ne))) @ '' '' @ pad_right 6 (show_nat (unat (ne_last_hits ne))) @ '' '' @
            avg_column ne @ '' '' @ pad_right 12 (show_nat (unat diff)) @ '' '' @ pad_right 3 (show_nat (unat (ne_hw_row ne))) @ '' '' @
            yes_no (ne_is_static ne = 1) @ [LF]))"

definition sprint_nat_table :: "(nat_entry \<Rightarrow> string) \<Rightarrow> router_state \<Rightarrow> string outcome" where
  "sprint_nat_table avg_column rs =
     (let cap = length NAT_COL + NAT_ENTRY_TO_STR_LEN * length (nat_table rs) in
      do { buf \<leftarrow> COPY_STRING cap NAT_COL [];
           run_all (\<lambda>ne. COPY_STRING cap (nat_line avg_column rs ne)) (nat_table rs) buf })"

definition cli_show_nat_table :: "(nat_entry \<Rightarrow> string) \<Rightarrow> router_state \<Rightarrow> string \<Rightarrow> reply" where
  "cli_show_nat_table avg_column rs command = do {
     rs \<leftarrow> acquire NatTable Wr rs;
     info \<leftarrow> sprint_nat_table avg_column rs;
     rs \<leftarrow> release NatTable rs;
     Some (rs, [info]) }"

definition cli_nat_help :: "router_state \<Rightarrow> string \<Rightarrow> reply" where
  "cli_nat_help rs command = Some (rs, [line ''Usage: '', TAB # line ''show nat table'', TAB # line ''nat set'', TAB # line ''nat reset'',
     TAB # line ''nat test'', TAB # line ''nat add [ip_ext] [port_ext] [ip_int] [port_int]'', TAB # line ''nat del [ip_ext] [port_ext]''])"

section \<open>Changing the table\<close>

definition cli_nat_set :: "router_state \<Rightarrow> string \<Rightarrow> reply" where
  "cli_nat_set rs command = do {
     args \<leftarrow> sscanf command ''nat set %as'';
     (case args of
        [Str iface] \<Rightarrow>
          (if named_port iface \<noteq> None then do {
             rs \<leftarrow> acquire IfList Wr rs;
             ie \<leftarrow> get_iface rs iface;
             let rs = set_iface rs iface (\<lambda>ie. ie\<lparr>ie_is_wan := 1\<rparr>);
             rs \<leftarrow> release IfList rs;
             Some (rs, [snprintf 80 (''Succefully set '' @ iface @ line '' as the wan interface'')]) }
           else if strncmp_eq iface ''off'' 3 then do {
             rs \<leftarrow> acquire IfList Wr rs;
             let rs = rs\<lparr>if_list := map (\<lambda>ie. ie\<lparr>ie_is_wan := 0\<rparr>) (if_list rs)\<rparr>;
             rs \<leftarrow> release IfList rs;
             Some (rs, [line ''Successfully disabled NAT'']) }
           else Some (rs, [line ''Invalid arguments'']))
      | _ \<Rightarrow> Some (rs, [line ''Failure reading arguments''])) }"

definition cli_nat_reset :: "router_state \<Rightarrow> string \<Rightarrow> reply" where
  "cli_nat_reset rs command = do {
     rs \<leftarrow> acquire NatTable Wr rs;
     let rs = rs\<lparr>nat_table := []\<rparr>;
     rs \<leftarrow> release NatTable rs;
     Some (rs, [line ''NAT table deleted'']) }"

text \<open>The test of \<open>cli_nat_add\<close> and \<open>cli_nat_del\<close> for the entry of an external address and port.\<close>

definition same_ext :: "u32 \<Rightarrow> u16 \<Rightarrow> nat_entry \<Rightarrow> bool" where
  "same_ext ip port ne \<longleftrightarrow> np_ip (ne_ext ne) = ip \<and> np_port (ne_ext ne) = port"

definition static_entry :: "router_state \<Rightarrow> u32 \<Rightarrow> u16 \<Rightarrow> u32 \<Rightarrow> u16 \<Rightarrow> nat_entry" where
  "static_entry rs ext_ip ext_port int_ip int_port =
     \<lparr>ne_ext = compute_nat_checksums (nat_pair ext_ip ext_port), ne_int = compute_nat_checksums (nat_pair int_ip int_port),
      ne_last_hits = 0, ne_last_hits_time = clock rs, ne_hits = 0, ne_hw_row = 0xFF, ne_is_static = 1\<rparr>"

definition put_static :: "nat_entry \<Rightarrow> nat_entry list \<Rightarrow> nat_entry list" where
  "put_static ne table =
     (let P = same_ext (np_ip (ne_ext ne)) (np_port (ne_ext ne))
      in if list_ex P table then update_first P (\<lambda>_. ne) table else table @ [ne])"

definition cli_nat_add :: "router_state \<Rightarrow> string \<Rightarrow> reply" where
  "cli_nat_add rs command = do {
     args \<leftarrow> sscanf command ''nat add %as %d %as %d'';
     (case args of
        [Str ip_ext, Num port_ext, Str ip_int, Num port_int] \<Rightarrow>
          (case inet_pton ip_ext of
             None \<Rightarrow> Some (rs, [line ''Failure reading ip ext argument''])
           | Some ext \<Rightarrow>
          (case inet_pton ip_int of
             None \<Rightarrow> Some (rs, [line ''Failure reading ip int argument''])
           | Some int_ip \<Rightarrow> do {
               let ne = static_entry rs ext (htons (word_of_int port_ext)) int_ip (htons (word_of_int port_int));
               rs \<leftarrow> acquire NatTable Wr rs;
               let rs = rs\<lparr>nat_table := put_static ne (nat_table rs)\<rparr>;
               rs \<leftarrow> release NatTable rs;
               Some (cond_signal NatTableCond rs, [line ''Succesfully added the nat table entry'']) }))
      | _ \<Rightarrow> bad_arguments rs) }"

definition cli_nat_del :: "router_state \<Rightarrow> string \<Rightarrow> reply" where
  "cli_nat_del rs command = do {
     args \<leftarrow> sscanf command ''nat del %as %d'';
     (case args of
        [Str ip_ext, Num port_ext] \<Rightarrow>
          (case inet_pton ip_ext of
             None \<Rightarrow> Some (rs, [line ''Failure reading ip ext argument''])
           | Some ip \<Rightarrow> do {
               let port = htons (word_of_int port_ext);
               rs \<leftarrow> acquire NatTable Wr rs;
               let result = list_ex (same_ext ip port) (nat_table rs);
               let rs = rs\<lparr>nat_table := remove_first (same_ext ip port) (nat_table rs)\<rparr>;
               rs \<leftarrow> release NatTable rs;
               Some (cond_signal NatTableCond rs,
                 [line (if result then ''Succesfully deleted nat table entry'' else ''No nat table entry found'')]) })
      | _ \<Rightarrow> bad_arguments rs) }"

section \<open>Maintenance\<close>

text \<open>
  One turn of the first loop. An entry that has expired is removed, which frees it, and then written to. The difference of the counters is
  a 32 bit number.
\<close>

definition nat_maintain :: "(u32 \<Rightarrow> int \<Rightarrow> 'd \<Rightarrow> 'd) \<Rightarrow> router_state \<Rightarrow> nat_entry \<times> 'd \<Rightarrow> (nat_entry \<times> 'd) outcome" where
  "nat_maintain average rs e =
     (case e of (ne, avg) \<Rightarrow>
        let now = clock rs;
            avg = average (ne_hits ne - ne_last_hits ne) (now - ne_last_hits_time ne) avg;
            ne = (if ne_last_hits ne \<noteq> ne_hits ne then ne\<lparr>ne_last_hits_time := now, ne_last_hits := ne_hits ne\<rparr> else ne)
        in if ne_is_static ne = 0 \<and> now - ne_last_hits_time ne > uint (nat_timeout rs) then None
           else Some (ne\<lparr>ne_hw_row := 0xFF\<rparr>, avg))"

definition nat_swap :: "('d \<Rightarrow> 'd \<Rightarrow> bool) \<Rightarrow> nat_entry \<times> 'd \<Rightarrow> nat_entry \<times> 'd \<Rightarrow> bool" where
  "nat_swap lt a b = lt (snd a) (snd b)"

definition nat_hw_rows :: "(nat_entry \<times> 'd) list \<Rightarrow> (nat_entry \<times> 'd) list" where
  "nat_hw_rows es = map (\<lambda>(i, ne, avg). (if i < 16 then ne\<lparr>ne_hw_row := word_of_nat i\<rparr> else ne, avg)) (enumerate 0 es)"

definition nat_maintenance_round ::
    "(u32 \<Rightarrow> int \<Rightarrow> 'd \<Rightarrow> 'd) \<Rightarrow> ('d \<Rightarrow> 'd \<Rightarrow> bool) \<Rightarrow> 'd list \<Rightarrow> router_state \<Rightarrow> ('d list \<times> router_state) outcome" where
  "nat_maintenance_round average lt avgs rs = do {
     es \<leftarrow> those (map (nat_maintain average rs) (zip (nat_table rs) avgs));
     es \<leftarrow> bubble_sort (nat_swap lt) es;
     let es = (if is_netfpga rs then nat_hw_rows es else es);
     Some (map snd es, rs\<lparr>nat_table := map fst es\<rparr>) }"

section \<open>Commands\<close>

definition nat_add_text :: "u32 \<Rightarrow> u16 \<Rightarrow> u32 \<Rightarrow> u16 \<Rightarrow> string" where
  "nat_add_text e pe i p = ''nat add '' @ inet_ntop e @ '' '' @ show_nat (unat pe) @ '' '' @ inet_ntop i @ '' '' @ show_nat (unat p)"

definition nat_del_text :: "u32 \<Rightarrow> u16 \<Rightarrow> string" where
  "nat_del_text e pe = ''nat del '' @ inet_ntop e @ '' '' @ show_nat (unat pe)"

lemma show_nat_word: "is_word (show_nat n)"
  by (auto simp: is_word_def list_ex_iff dest: show_nat_digits digit_not_special(1))

lemma sscan_int:
  assumes "n < 2 ^ 31" and "s = [] \<or> \<not> is_digit 10 (s ! 0)"
  shows "sscan (Int_conv # ds) (show_nat n @ s) = map_option ((#) (Num (int n))) (sscan ds s)"
proof -
  have "list_all (is_digit 10) (show_nat n)" by (simp add: list_all_iff show_nat_digits)
  moreover have "int n < 2 ^ 31" using assms(1) by (metis of_nat_less_numeral_power_cancel_iff)
  ultimately show ?thesis
    using assms by (simp add: digits_skip scan_number_digits signed_value_def Let_def)
qed

lemma port_small: "unat (p::u16) < 2 ^ 31"
  by (rule less_trans[OF unat_u16_less]) simp

lemma sscan_port_arg:
  assumes "is_word v"
  shows "sscan (Int_conv # Blank # ds) (show_nat (unat (p::u16)) @ CHR '' '' # v @ s) = map_option ((#) (Num (int (unat p)))) (sscan ds (v @ s))"
proof -
  have "\<not> is_digit 10 (CHR '' '')" by code_simp
  then have "sscan (Int_conv # Blank # ds) (show_nat (unat p) @ CHR '' '' # v @ s) =
      map_option ((#) (Num (int (unat p)))) (sscan (Blank # ds) (CHR '' '' # v @ s))"
    by (intro sscan_int port_small) simp
  then show ?thesis by (simp only: sscan_blank_word[OF assms])
qed

lemma sscan_port_last: "sscan [Int_conv] (show_nat (unat (p::u16))) = Some [Num (int (unat p))]"
  using sscan_int[OF port_small[of p], of "[]" "[]"] by (simp del: sscan.simps(4,5,6,7))

lemma sscan_word_port:
  "sscan [Str_conv, Blank, Int_conv] (inet_ntop e @ CHR '' '' # show_nat (unat (p::u16))) = Some [Str (inet_ntop e), Num (int (unat p))]"
  using sscan_words[OF inet_ntop_word show_nat_word, of "[Int_conv]" e "unat p" "[]"] by (simp add: sscan_port_last del: sscan.simps)

lemma nat_formats:
  "scan_format ''nat add %as %d %as %d'' =
     map (\<lambda>c. if c = CHR '' '' then Blank else Lit c) ''nat add '' @ [Str_conv, Blank, Int_conv, Blank, Str_conv, Blank, Int_conv]"
  "scan_format ''nat del %as %d'' =
     map (\<lambda>c. if c = CHR '' '' then Blank else Lit c) ''nat del '' @ [Str_conv, Blank, Int_conv]"
  by code_simp+

lemma nat_add_parsed:
  "sscanf (nat_add_text e pe i p) ''nat add %as %d %as %d'' =
     Some [Str (inet_ntop e), Num (int (unat pe)), Str (inet_ntop i), Num (int (unat p))]"
proof -
  let ?args = "inet_ntop e @ CHR '' '' # show_nat (unat pe) @ CHR '' '' # inet_ntop i @ CHR '' '' # show_nat (unat p)"
  have "sscanf (nat_add_text e pe i p) ''nat add %as %d %as %d'' =
      sscan [Blank, Str_conv, Blank, Int_conv, Blank, Str_conv, Blank, Int_conv] (CHR '' '' # ?args)"
    unfolding sscanf_def nat_formats nat_add_text_def by (simp add: isspace_def del: sscan.simps(4))
  also have "\<dots> = sscan [Str_conv, Blank, Int_conv, Blank, Str_conv, Blank, Int_conv] ?args"
    by (rule sscan_blank_word[OF inet_ntop_word])
  also have "\<dots> = Some [Str (inet_ntop e), Num (int (unat pe)), Str (inet_ntop i), Num (int (unat p))]"
    by (simp add: sscan_words inet_ntop_word show_nat_word sscan_port_arg sscan_word_port sscan_port_last del: sscan.simps)
  finally show ?thesis .
qed

lemma nat_del_parsed: "sscanf (nat_del_text e pe) ''nat del %as %d'' = Some [Str (inet_ntop e), Num (int (unat pe))]"
proof -
  have "sscanf (nat_del_text e pe) ''nat del %as %d'' =
      sscan [Blank, Str_conv, Blank, Int_conv] (CHR '' '' # inet_ntop e @ CHR '' '' # show_nat (unat pe))"
    unfolding sscanf_def nat_formats nat_del_text_def by (simp add: isspace_def del: sscan.simps(4))
  also have "\<dots> = sscan [Str_conv, Blank, Int_conv] (inet_ntop e @ CHR '' '' # show_nat (unat pe))"
    by (rule sscan_blank_word[OF inet_ntop_word])
  also have "\<dots> = Some [Str (inet_ntop e), Num (int (unat pe))]"
    by (simp add: sscan_word_port sscan_port_last del: sscan.simps)
  finally show ?thesis .
qed

lemma static_entry_sel [simp]:
  "np_ip (ne_ext (static_entry rs e pe i p)) = e" "np_port (ne_ext (static_entry rs e pe i p)) = pe"
  "np_ip (ne_int (static_entry rs e pe i p)) = i" "np_port (ne_int (static_entry rs e pe i p)) = p"
  by (simp_all add: static_entry_def)

lemma static_entry_ok: "sums_ok (ne_ext (static_entry rs e pe i p))" "sums_ok (ne_int (static_entry rs e pe i p))"
  by (simp_all add: static_entry_def compute_nat_checksums_ok)

lemma put_static_found:
  assumes "same_ext e pe ne"
  shows "find (same_ext e pe) (put_static ne t) = Some ne \<and> remove_first (same_ext e pe) (put_static ne t) = remove_first (same_ext e pe) t"
proof -
  have P: "same_ext (np_ip (ne_ext ne)) (np_port (ne_ext ne)) = same_ext e pe" using assms by (auto simp: same_ext_def)
  show ?thesis unfolding put_static_def P Let_def using assms by (induction t) auto
qed

lemma find_position: "find P xs = Some x \<Longrightarrow> \<exists>k<length xs. find (\<lambda>i. P (xs ! i)) [0..<length xs] = Some k \<and> xs ! k = x"
  by (force simp: find_Some_iff)

lemma find_Some_list_ex: "find P xs = Some x \<Longrightarrow> list_ex P xs"
  by (induction xs) (auto split: if_splits)

lemma cli_nat_add_ok:
  "lock_free NatTable rs \<Longrightarrow> cli_nat_add rs (nat_add_text e pe i p) =
     Some (cond_signal NatTableCond (rs\<lparr>nat_table := put_static (static_entry rs e (htons pe) i (htons p)) (nat_table rs)\<rparr>),
       [line ''Succesfully added the nat table entry''])"
  by (simp add: cli_nat_add_def nat_add_parsed acquire_free release_def Let_def)

lemma cli_nat_del_ok:
  "lock_free NatTable rs \<Longrightarrow> cli_nat_del rs (nat_del_text e pe) =
     Some (cond_signal NatTableCond (rs\<lparr>nat_table := remove_first (same_ext e (htons pe)) (nat_table rs)\<rparr>),
       [line (if list_ex (same_ext e (htons pe)) (nat_table rs) then ''Succesfully deleted nat table entry'' else ''No nat table entry found'')])"
  by (simp add: cli_nat_del_def nat_del_parsed acquire_free release_def Let_def)

text \<open>
  C29. A port forwarded from the command line. For all addresses and ports, the text of \<open>nat add\<close> puts one entry into the table, or replaces
  the one of that external address and port. A TCP or UDP packet that then arrives for them is translated by \<open>process_nat_ext_packet\<close> to the internal address and
  port that the text names, and the one's complement sum over its addresses and segment stays the same modulo 65535: the cached sums of \<open>compute_nat_checksums\<close> are right for a static entry too, although a comment
  in \<open>cli_nat_add\<close> says that TCP checksums fail with them. The text of \<open>nat del\<close> takes the entry out again, and with it all that there was for the external pair. (The registrations of
  both commands in \<^verbatim>\<open>or_main.c\<close> are commented out; the theorem is about the two functions.)
\<close>

theorem nat_port_forwarded:
  assumes "lock_free NatTable rs" and "get_nat_ip_port_pair packet NAT_EXTERNAL = Some (e, htons pe)" and "get_ip_hdr packet = Some ip" and "transport ip"
    and "54 \<le> length packet" and "sum_word (ip_p ip) < n" and "26 + 2 * n \<le> length packet"
  shows "\<exists>rs' q rs''. cli_nat_add rs (nat_add_text e pe i p) = Some (rs', [line ''Succesfully added the nat table entry''])
    \<and> process_nat_ext_packet rs' packet = Some (q, rs'')
    \<and> get_nat_ip_port_pair q NAT_EXTERNAL = Some (i, htons p)
    \<and> nat_sum (\<lambda>j. True) q 26 0 n mod 65535 = nat_sum (\<lambda>j. True) packet 26 0 n mod 65535
    \<and> cli_nat_del rs' (nat_del_text e pe) =
        Some (cond_signal NatTableCond (rs'\<lparr>nat_table := remove_first (same_ext e (htons pe)) (nat_table rs)\<rparr>),
          [line ''Succesfully deleted nat table entry''])"
proof -
  let ?ne = "static_entry rs e (htons pe) i (htons p)"
  let ?rs = "cond_signal NatTableCond (rs\<lparr>nat_table := put_static ?ne (nat_table rs)\<rparr>)"
  have put: "find (same_ext e (htons pe)) (nat_table ?rs) = Some ?ne"
    "remove_first (same_ext e (htons pe)) (nat_table ?rs) = remove_first (same_ext e (htons pe)) (nat_table rs)"
    using put_static_found[of e "htons pe" ?ne "nat_table rs"] by (simp_all add: same_ext_def cond_signal_def)
  have ext: "found_nat_table_match ne (e, htons pe) NAT_EXTERNAL = same_ext e (htons pe) ne" for ne
    by (simp add: found_nat_table_match_def same_ext_def Let_def)
  obtain k where k: "find (\<lambda>i. same_ext e (htons pe) (nat_table ?rs ! i)) [0..<length (nat_table ?rs)] = Some k" "nat_table ?rs ! k = ?ne"
    using find_position[OF put(1)] by blast
  then have found: "get_nat_table_entry ?rs packet NAT_EXTERNAL = Some (Some k)"
    using assms(2) by (simp add: get_nat_table_entry_def ext)
  obtain q where q: "translate NAT_INTERNAL ?ne packet = Some q" using translate_total[OF assms(3-5)] by blast
  have "process_nat_ext_packet ?rs packet = Some (q, hit k ?rs)" using process_nat_ext_eq[OF found] q k(2) by simp
  moreover have "get_nat_ip_port_pair q NAT_EXTERNAL = Some (i, htons p)"
    using translated_pair(1)[OF q assms(3,4)] by (simp add: other_def new_side_def)
  moreover have "nat_sum (\<lambda>j. True) q 26 0 n mod 65535 = nat_sum (\<lambda>j. True) packet 26 0 n mod 65535"
    using translate_preserves[OF q assms(3,4) _ _ _ assms(6,7)] assms(2)
    by (simp add: other_def old_side_def static_entry_ok)
  moreover have "lock_free NatTable ?rs" using assms(1) by (simp add: lock_free_def cond_signal_def)
  moreover have "list_ex (same_ext e (htons pe)) (nat_table ?rs)" by (rule find_Some_list_ex[OF put(1)])
  ultimately show ?thesis
    using cli_nat_add_ok[OF assms(1)] cli_nat_del_ok[of ?rs e pe] put(2)
    by - (rule exI[of _ ?rs], rule exI[of _ q], rule exI[of _ "hit k ?rs"], simp)
qed

theorem nat_port_forwarded_witness:
  "\<exists>rs' q rs''. cli_nat_add idle_router (nat_add_text 1 80 2 8080) = Some (rs', [line ''Succesfully added the nat table entry''])
    \<and> process_nat_ext_packet rs' (tcp_packet 5 (htons 1000) 1 (htons 80)) = Some (q, rs'')
    \<and> get_nat_ip_port_pair q NAT_EXTERNAL = Some (2, htons 8080)"
proof -
  have "lock_free NatTable idle_router" by (simp add: idle_router_def lock_free_def)
  from nat_port_forwarded[OF this tcp_packet_pair(2)[of 5 "htons 1000" 1 "htons 80"] tcp_packet_hdr(1) tcp_transport, of 14 2 8080] show ?thesis
    by (force simp: tcp_packet_hdr populate_ip_def sum_word_def)
qed

section \<open>Rounds of maintenance\<close>

definition expired :: "router_state \<Rightarrow> nat_entry \<Rightarrow> bool" where
  "expired rs ne \<longleftrightarrow> ne_is_static ne = 0 \<and> ne_last_hits ne = ne_hits ne \<and> clock rs - ne_last_hits_time ne > uint (nat_timeout rs)"

definition translation :: "nat_entry \<Rightarrow> nat_ip_port_pair \<times> nat_ip_port_pair \<times> u32 \<times> byte" where
  "translation ne = (ne_ext ne, ne_int ne, ne_hits ne, ne_is_static ne)"

lemma those_None: "those (map f es) = None \<longleftrightarrow> list_ex (\<lambda>e. f e = None) es"
  by (induction es) (auto split: option.splits)

lemma nat_maintain_None: "nat_maintain average rs e = None \<longleftrightarrow> expired rs (fst e)"
  by (cases e) (auto simp: nat_maintain_def expired_def Let_def not_less)

lemma nat_maintain_translation: "nat_maintain average rs e = Some e' \<Longrightarrow> translation (fst e') = translation (fst e)"
  by (cases e) (auto simp: nat_maintain_def translation_def Let_def split: if_splits)

lemma those_maintain:
  "those (map (nat_maintain average rs) es) = None \<longleftrightarrow> list_ex (\<lambda>e. expired rs (fst e)) es"
  "those (map (nat_maintain average rs) es) = Some es' \<Longrightarrow> map (translation \<circ> fst) es' = map (translation \<circ> fst) es"
proof -
  show "those (map (nat_maintain average rs) es) = None \<longleftrightarrow> list_ex (\<lambda>e. expired rs (fst e)) es"
    by (simp only: those_None nat_maintain_None)
  show "those (map (nat_maintain average rs) es) = Some es' \<Longrightarrow> map (translation \<circ> fst) es' = map (translation \<circ> fst) es"
    by (induction es arbitrary: es') (auto dest: nat_maintain_translation split: option.splits)
qed

lemma nat_hw_rows_sel:
  "map snd (nat_hw_rows es) = map snd es" "map (translation \<circ> fst) (nat_hw_rows es) = map (translation \<circ> fst) es"
  by (auto simp: nat_hw_rows_def enumerate_eq_zip translation_def split_beta intro!: nth_equalityI)

lemma nat_hw_rows_length: "length (nat_hw_rows es) = length es"
  by (simp add: nat_hw_rows_def)

lemma nat_hw_rows_nth: "i < length es \<Longrightarrow> i < 16 \<Longrightarrow> ne_hw_row (fst (nat_hw_rows es ! i)) = word_of_nat i"
  by (simp add: nat_hw_rows_def enumerate_eq_zip split: prod.splits)

lemma unsorted_pass: "\<not> snd (bubble_pass swap xs) \<Longrightarrow> \<forall>j. Suc j < length xs \<longrightarrow> \<not> swap (xs ! j) (xs ! Suc j)"
  using bubble_pass_unswapped_adjacent by blast

text \<open>
  A round of the maintenance thread ends, whatever the averages are: it needs only that the comparison never holds both ways, which is so for
  floating point numbers, \<open>NaN\<close> included. It faults exactly when a dynamic entry has had no hit for longer than the time limit, because the
  entry is written to after it was freed; otherwise all translations are kept, neighbours are in order, and with hardware the first
  sixteen entries get their rows.
\<close>

theorem nat_maintenance_ends:
  assumes "\<And>a b. lt a b \<Longrightarrow> \<not> lt b a" and "length avgs = length (nat_table rs)"
  shows "if list_ex (expired rs) (nat_table rs) then nat_maintenance_round average lt avgs rs = None
    else \<exists>avgs' t. nat_maintenance_round average lt avgs rs = Some (avgs', rs\<lparr>nat_table := t\<rparr>)
      \<and> mset (map translation t) = mset (map translation (nat_table rs))
      \<and> length avgs' = length t \<and> (\<forall>j. Suc j < length avgs' \<longrightarrow> \<not> lt (avgs' ! j) (avgs' ! Suc j))
      \<and> (is_netfpga rs \<longrightarrow> (\<forall>j<min 16 (length t). ne_hw_row (t ! j) = word_of_nat j))"
proof -
  have fst_zip: "map fst (zip (nat_table rs) avgs) = nat_table rs" using assms(2) by simp
  have expired: "list_ex (\<lambda>e. expired rs (fst e)) (zip (nat_table rs) avgs) = list_ex (expired rs) (nat_table rs)"
    using arg_cong[OF fst_zip, of "list_ex (expired rs)"] by (simp add: list_ex_iff)
  show ?thesis
  proof (cases "those (map (nat_maintain average rs) (zip (nat_table rs) avgs))")
    case None
    then show ?thesis using those_maintain(1)[of average rs "zip (nat_table rs) avgs"] expired by (simp add: nat_maintenance_round_def)
  next
    case (Some es)
    have kept: "map (translation \<circ> fst) es = map translation (nat_table rs)"
      using those_maintain(2)[OF Some] arg_cong[OF fst_zip, of "map translation"] by (simp add: map_map)
    obtain ys where ys: "bubble_sort (nat_swap lt) es = Some ys" "mset ys = mset es" "\<not> snd (bubble_pass (nat_swap lt) ys)"
      using swap_test.sort_returns[of "nat_swap lt" es] assms(1) by (auto simp: swap_test_def nat_swap_def)
    define zs where "zs = (if is_netfpga rs then nat_hw_rows ys else ys)"
    have zs: "map snd zs = map snd ys" "map (translation \<circ> fst) zs = map (translation \<circ> fst) ys" "length zs = length ys"
      by (simp_all add: zs_def nat_hw_rows_sel nat_hw_rows_length)
    have "mset (map (translation \<circ> fst) zs) = mset (map (translation \<circ> fst) es)"
      unfolding zs(2) using ys(2) by (metis mset_map)
    then have "mset (map translation (map fst zs)) = mset (map translation (nat_table rs))" by (simp add: kept)
    moreover have "\<forall>j. Suc j < length (map snd zs) \<longrightarrow> \<not> lt (map snd zs ! j) (map snd zs ! Suc j)"
      unfolding zs(1) using unsorted_pass[OF ys(3)] by (simp add: nat_swap_def)
    moreover have "is_netfpga rs \<longrightarrow> (\<forall>j<min 16 (length zs). ne_hw_row (map fst zs ! j) = word_of_nat j)"
      by (simp add: zs_def nat_hw_rows_nth nat_hw_rows_length)
    moreover have "nat_maintenance_round average lt avgs rs = Some (map snd zs, rs\<lparr>nat_table := map fst zs\<rparr>)"
      by (simp add: nat_maintenance_round_def Some ys(1) zs_def Let_def)
    moreover have "\<not> list_ex (expired rs) (nat_table rs)" using those_maintain(1)[of average rs "zip (nat_table rs) avgs"] expired Some by simp
    ultimately show ?thesis by (simp only: if_False) (intro exI[of _ "map snd zs"] exI[of _ "map fst zs"], simp)
  qed
qed

text \<open>A router with the static entry of a web server behind it, and a packet for that server.\<close>

abbreviation web_router :: router_state where
  "web_router \<equiv> idle_router\<lparr>nat_table := [static_entry idle_router 1 (htons 80) 2 (htons 8080)]\<rparr>"

theorem nat_maintenance_ends_witness:
  "\<exists>avgs' t. nat_maintenance_round (\<lambda>h d a. a) (<) [0::nat] web_router = Some (avgs', web_router\<lparr>nat_table := t\<rparr>)
     \<and> mset (map translation t) = mset (map translation (nat_table web_router))"
proof -
  have lt: "a < b \<Longrightarrow> \<not> b < a" for a b :: nat by simp
  have "\<not> list_ex (expired web_router) (nat_table web_router)" by (simp add: expired_def static_entry_def)
  with nat_maintenance_ends[of "(<)" "[0::nat]" web_router "\<lambda>h d a. a", OF lt] show ?thesis by auto
qed

end
