(* ===== verification/Ring.thy ===== *)
theory Ring
  imports Prelude
begin

text \<open>
  The ring of transmit buffers of the drivers in \<^verbatim>\<open>lib/C/kernel\<close>: an array, the positions of the next buffer to write and to read, and the
  number of free buffers. The locale states what the drivers do to these four variables; the ring is then a bounded queue.
\<close>

definition ring_ok :: "'a list \<Rightarrow> nat \<Rightarrow> nat \<Rightarrow> nat \<Rightarrow> bool" where
  "ring_ok buf rd wr free \<longleftrightarrow>
     buf \<noteq> [] \<and> rd < length buf \<and> free \<le> length buf \<and> wr = (rd + (length buf - free)) mod length buf"

definition ring_queue :: "'a list \<Rightarrow> nat \<Rightarrow> nat \<Rightarrow> 'a list" where
  "ring_queue buf rd free = map (\<lambda>k. buf ! ((rd + k) mod length buf)) [0..<length buf - free]"

lemma ring_okD: "ring_ok buf rd wr free \<Longrightarrow> rd < length buf \<and> wr < length buf \<and> free \<le> length buf"
  by (auto simp: ring_ok_def)

lemma ring_queue_length: "free \<le> length buf \<Longrightarrow> length (ring_queue buf rd free) = length buf - free"
  by (simp add: ring_queue_def)

text \<open>Two positions less than a turn apart are different slots.\<close>

lemma mod_slots_differ: "k < m \<Longrightarrow> m < (n::nat) \<Longrightarrow> (r + k) mod n \<noteq> (r + m) mod n"
proof
  assume "k < m" "m < n" "(r + k) mod n = (r + m) mod n"
  then have "n dvd (r + m) - (r + k)" by (metis mod_eq_dvd_iff_nat add_le_cancel_left less_imp_le)
  with \<open>k < m\<close> \<open>m < n\<close> show False by (simp add: nat_dvd_not_less)
qed

lemma ring_push:
  assumes "ring_ok buf rd wr free" and "0 < free"
  shows "ring_ok (buf[wr := x]) rd (Suc wr mod length buf) (free - 1)"
    and "ring_queue (buf[wr := x]) rd (free - 1) = ring_queue buf rd free @ [x]"
proof -
  let ?n = "length buf" and ?m = "length buf - free"
  have ok: "rd < ?n" "free \<le> ?n" "wr = (rd + ?m) mod ?n" "wr < ?n" using assms(1) by (auto simp: ring_ok_def)
  have m: "?n - (free - 1) = Suc ?m" "?m < ?n" using assms(2) ok(2) by auto
  show "ring_ok (buf[wr := x]) rd (Suc wr mod ?n) (free - 1)"
    using ok m assms(1) by (auto simp: ring_ok_def mod_Suc_eq)
  have "buf[wr := x] ! ((rd + k) mod ?n) = buf ! ((rd + k) mod ?n)" if "k < ?m" for k
    using mod_slots_differ[OF that m(2), of rd] ok(3) by simp
  moreover have "buf[wr := x] ! ((rd + ?m) mod ?n) = x" using ok by simp
  ultimately show "ring_queue (buf[wr := x]) rd (free - 1) = ring_queue buf rd free @ [x]"
    unfolding ring_queue_def length_list_update m(1) by simp
qed

lemma ring_pop:
  assumes "ring_ok buf rd wr free" and "free < length buf"
  shows "ring_ok buf (Suc rd mod length buf) wr (Suc free)"
    and "ring_queue buf rd free = buf ! rd # ring_queue buf (Suc rd mod length buf) (Suc free)"
proof -
  let ?n = "length buf"
  have ok: "rd < ?n" "wr = (rd + (?n - free)) mod ?n" using assms(1) by (auto simp: ring_ok_def)
  have m: "?n - free = Suc (?n - Suc free)" using assms(2) by simp
  have shift: "(Suc rd mod ?n + k) mod ?n = (rd + Suc k) mod ?n" for k by (simp add: mod_add_left_eq)
  show "ring_ok buf (Suc rd mod ?n) wr (Suc free)"
  proof -
    have "wr = (Suc rd mod ?n + (?n - Suc free)) mod ?n" unfolding shift using ok(2) m by simp
    then show ?thesis using ok(1) assms by (auto simp: ring_ok_def)
  qed
  show "ring_queue buf rd free = buf ! rd # ring_queue buf (Suc rd mod ?n) (Suc free)"
    unfolding ring_queue_def m shift using ok(1) by (simp add: upt_conv_Cons map_Suc_upt[symmetric] comp_def del: upt_Suc)
qed

locale tx_ring =
  fixes slots :: "'s \<Rightarrow> 'a list" and capacity rd wr free :: "'s \<Rightarrow> nat" and push :: "'a \<Rightarrow> 's \<Rightarrow> 's" and pop :: "'s \<Rightarrow> 's"
  assumes push: "slots (push x s) = (slots s)[wr s := x]" "rd (push x s) = rd s" "capacity (push x s) = capacity s"
      "wr (push x s) = Suc (wr s) mod capacity s" "free (push x s) = free s - 1"
    and pop: "slots (pop s) = slots s" "rd (pop s) = Suc (rd s) mod capacity s" "capacity (pop s) = capacity s"
      "wr (pop s) = wr s" "free (pop s) = Suc (free s)"
begin

definition ok :: "'s \<Rightarrow> bool" where
  "ok s \<longleftrightarrow> length (slots s) = capacity s \<and> ring_ok (slots s) (rd s) (wr s) (free s)"

definition queue :: "'s \<Rightarrow> 'a list" where
  "queue s = ring_queue (slots s) (rd s) (free s)"

lemma okD: "ok s \<Longrightarrow> rd s < length (slots s) \<and> wr s < length (slots s) \<and> free s \<le> capacity s"
  using ring_okD[of "slots s" "rd s" "wr s" "free s"] by (simp add: ok_def)

lemma push_ok: "ok s \<Longrightarrow> 0 < free s \<Longrightarrow> ok (push x s)"
  using ring_push(1)[of "slots s" "rd s" "wr s" "free s" x] by (simp add: ok_def push)

lemma push_queue: "ok s \<Longrightarrow> 0 < free s \<Longrightarrow> queue (push x s) = queue s @ [x]"
  using ring_push(2)[of "slots s" "rd s" "wr s" "free s" x] by (simp add: ok_def queue_def push)

lemma pop_ok: "ok s \<Longrightarrow> free s < capacity s \<Longrightarrow> ok (pop s)"
  using ring_pop(1)[of "slots s" "rd s" "wr s" "free s"] by (simp add: ok_def pop)

lemma pop_queue: "ok s \<Longrightarrow> free s < capacity s \<Longrightarrow> queue s = slots s ! rd s # queue (pop s)"
  using ring_pop(2)[of "slots s" "rd s" "wr s" "free s"] by (simp add: ok_def queue_def pop)

lemma queue_length: "ok s \<Longrightarrow> length (queue s) + free s = capacity s"
  using okD[of s] by (simp add: ok_def queue_def ring_queue_length)

lemma queue_empty: "ok s \<Longrightarrow> queue s = [] \<longleftrightarrow> free s = capacity s"
  using queue_length[of s] by auto

end

end
