(* ===== verification/Nf2_Driver.thy ===== *)
theory Nf2_Driver
  imports Ring "HOL-Library.Sublist"
begin

text \<open>
  The Linux driver of the control card, \<^verbatim>\<open>lib/C/kernel/nf2_control.c\<close>, with \<^verbatim>\<open>nf2util.c\<close> and the structs of \<^verbatim>\<open>nf2kernel.h\<close>. A card is a record; every
  callback of the kernel takes it and returns it, or nothing where the code would leave an array. Registers are written to a log; what a
  register reads is an argument, a function of the log. The functions of the kernel that matter are recorded: freed packets, delivered packets,
  DMA mappings, the carrier and the queue of each device. Callbacks run one at a time. An \<open>unsigned long\<close> has 32 bits.
\<close>

section \<open>Registers and flags\<close>

abbreviation (input) CPCI_REG_RESET :: nat where "CPCI_REG_RESET \<equiv> 0xc"
abbreviation (input) CPCI_REG_ERROR :: nat where "CPCI_REG_ERROR \<equiv> 0x10"
abbreviation (input) CPCI_REG_INTERRUPT_MASK :: nat where "CPCI_REG_INTERRUPT_MASK \<equiv> 0x40"
abbreviation (input) CPCI_REG_INTERRUPT_STATUS :: nat where "CPCI_REG_INTERRUPT_STATUS \<equiv> 0x44"
abbreviation (input) CPCI_REG_DMA_I_ADDR :: nat where "CPCI_REG_DMA_I_ADDR \<equiv> 0x140"
abbreviation (input) CPCI_REG_DMA_E_ADDR :: nat where "CPCI_REG_DMA_E_ADDR \<equiv> 0x144"
abbreviation (input) CPCI_REG_DMA_I_SIZE :: nat where "CPCI_REG_DMA_I_SIZE \<equiv> 0x148"
abbreviation (input) CPCI_REG_DMA_E_SIZE :: nat where "CPCI_REG_DMA_E_SIZE \<equiv> 0x14c"
abbreviation (input) CPCI_REG_DMA_I_CTRL :: nat where "CPCI_REG_DMA_I_CTRL \<equiv> 0x150"
abbreviation (input) CPCI_REG_DMA_E_CTRL :: nat where "CPCI_REG_DMA_E_CTRL \<equiv> 0x154"
abbreviation (input) CPCI_REG_DMA_QUEUE_STATUS :: nat where "CPCI_REG_DMA_QUEUE_STATUS \<equiv> 0x158"
abbreviation (input) CNET_REG_CTRL :: nat where "CNET_REG_CTRL \<equiv> 0x400004"
abbreviation (input) CNET_REG_RESET :: nat where "CNET_REG_RESET \<equiv> 0x400008"
abbreviation (input) CNET_REG_ENABLE :: nat where "CNET_REG_ENABLE \<equiv> 0x400010"
abbreviation (input) MDIO_0_BASE :: nat where "MDIO_0_BASE \<equiv> 0x440000"
abbreviation (input) MDIO_0_PHY_ID_LO_REG :: nat where "MDIO_0_PHY_ID_LO_REG \<equiv> 0x440008"
abbreviation (input) MDIO_0_PHY_ID_HI_REG :: nat where "MDIO_0_PHY_ID_HI_REG \<equiv> 0x44000C"
abbreviation (input) MDIO_0_AUX_STATUS :: nat where "MDIO_0_AUX_STATUS \<equiv> 0x440064"
abbreviation (input) MDIO_0_INTR_STATUS :: nat where "MDIO_0_INTR_STATUS \<equiv> 0x440068"
abbreviation (input) ADDRESS_DELTA :: nat where "ADDRESS_DELTA \<equiv> 0x80"

abbreviation (input) INT_DMA_RX_COMPLETE :: u32 where "INT_DMA_RX_COMPLETE \<equiv> 0x80000000"
abbreviation (input) INT_DMA_TX_COMPLETE :: u32 where "INT_DMA_TX_COMPLETE \<equiv> 0x40000000"
abbreviation (input) INT_PHY_INTERRUPT :: u32 where "INT_PHY_INTERRUPT \<equiv> 0x20000000"
abbreviation (input) INT_DMA_QUEUE_STATUS_CHANGE :: u32 where "INT_DMA_QUEUE_STATUS_CHANGE \<equiv> 0x200"
abbreviation (input) INT_PKT_AVAIL :: u32 where "INT_PKT_AVAIL \<equiv> 0x100"
abbreviation (input) INT_CNET_ERROR :: u32 where "INT_CNET_ERROR \<equiv> 0x20"
abbreviation (input) INT_DMA_TRANSFER_ERROR :: u32 where "INT_DMA_TRANSFER_ERROR \<equiv> 4"
abbreviation (input) INT_DMA_SETUP_ERROR :: u32 where "INT_DMA_SETUP_ERROR \<equiv> 2"
abbreviation (input) INT_DMA_FATAL_ERROR :: u32 where "INT_DMA_FATAL_ERROR \<equiv> 1"

abbreviation (input) MAX_IFACE :: nat where "MAX_IFACE \<equiv> 4"
abbreviation (input) MAX_DMA_LEN :: nat where "MAX_DMA_LEN \<equiv> 2048"

section \<open>State\<close>

text \<open>A packet: the address at which the device sees its data once they are mapped, and the data.\<close>

record sk_buff =
  skb_addr :: u32
  skb_data :: "byte list"

record txbuff =
  tb_skb :: sk_buff
  tb_iface :: nat

record net_device =
  nd_carrier :: bool
  nd_stopped :: bool
  nd_rx_packets :: u32
  nd_rx_bytes :: u32
  nd_rx_dropped :: u32
  nd_tx_packets :: u32
  nd_tx_bytes :: u32
  nd_tx_errors :: u32

datatype kcall = Kfree_skb sk_buff | Kfree_skb_irq sk_buff | Netif_rx nat "byte list"

record nf2_card_priv =
  is_ctrl :: bool
  tx_pool_size :: nat
  txbuffs :: "txbuff list"
  wr_txbuff :: nat
  rd_txbuff :: nat
  free_txbuffs :: nat
  free_txbuffs_port :: "int list"
  dma_tx_addr :: u32
  dma_rx_addr :: u32
  dma_tx_in_progress :: int
  dma_rx_in_progress :: int
  dma_can_wr_pkt :: u32
  pool_addr :: u32
  pool_len :: u32
  pool_data :: "byte list"
  ndev :: "net_device list"
  ifup :: u32
  irq_installed :: bool
  io :: "(nat \<times> u32) list"
  kcalls :: "kcall list"
  mapped_tx :: "(u32 \<times> nat) option"
  mapped_rx :: "u32 option"

type_synonym device = "(nat \<times> u32) list \<Rightarrow> nat \<Rightarrow> u32"

definition iowrite32 :: "u32 \<Rightarrow> nat \<Rightarrow> nf2_card_priv \<Rightarrow> nf2_card_priv" where
  "iowrite32 v r c = c\<lparr>io := io c @ [(r, v)]\<rparr>"

definition ioread32 :: "device \<Rightarrow> nat \<Rightarrow> nf2_card_priv \<Rightarrow> u32" where
  "ioread32 hw r c = hw (io c) r"

definition on_dev :: "nat \<Rightarrow> (net_device \<Rightarrow> net_device) \<Rightarrow> nf2_card_priv \<Rightarrow> nf2_card_priv outcome" where
  "on_dev i f c = (if i < length (ndev c) then Some (c\<lparr>ndev := (ndev c)[i := f (ndev c ! i)]\<rparr>) else None)"

definition next_tx :: "nf2_card_priv \<Rightarrow> txbuff outcome" where
  "next_tx c = (if rd_txbuff c < length (txbuffs c) then Some (txbuffs c ! rd_txbuff c) else None)"

definition add_port :: "nat \<Rightarrow> int \<Rightarrow> nf2_card_priv \<Rightarrow> nf2_card_priv outcome" where
  "add_port i d c =
     (if i < length (free_txbuffs_port c)
      then Some (c\<lparr>free_txbuffs_port := (free_txbuffs_port c)[i := free_txbuffs_port c ! i + d]\<rparr>) else None)"

section \<open>Resets\<close>

definition nf2_enable_irq :: "nf2_card_priv \<Rightarrow> nf2_card_priv" where
  "nf2_enable_irq c = iowrite32 0 CPCI_REG_INTERRUPT_MASK c"

definition nf2_disable_irq :: "nf2_card_priv \<Rightarrow> nf2_card_priv" where
  "nf2_disable_irq c = iowrite32 0xFFFFFFFF CPCI_REG_INTERRUPT_MASK c"

definition nf2_hw_reset :: "nf2_card_priv \<Rightarrow> nf2_card_priv" where
  "nf2_hw_reset c =
     (let c = iowrite32 1 CPCI_REG_RESET c
      in if is_ctrl c
         then iowrite32 0 CNET_REG_ENABLE (iowrite32 0xF CNET_REG_RESET (iowrite32 0x100 CNET_REG_CTRL c))
         else c)"

definition nf2_reset_cpci :: "device \<Rightarrow> nf2_card_priv \<Rightarrow> nf2_card_priv" where
  "nf2_reset_cpci hw c =
     (let intmask = ioread32 hw CPCI_REG_INTERRUPT_MASK c
      in iowrite32 intmask CPCI_REG_INTERRUPT_MASK (iowrite32 1 CPCI_REG_RESET c))"

section \<open>Transmission\<close>

text \<open>The writes that start the transfer of a packet. A short packet is padded, which leaves its length as it is. The code ignores the result of \<open>skb_pad\<close>; here it
  succeeds and leaves the data where they are, that is, the packet has room for the padding.\<close>

definition dma_len :: "sk_buff \<Rightarrow> nat" where
  "dma_len skb = (if length (skb_data skb) < 60 then 60 else length (skb_data skb))"

definition nf2c_send :: "nf2_card_priv \<Rightarrow> (int \<times> nf2_card_priv) outcome" where
  "nf2c_send c =
     (let c = c\<lparr>dma_tx_in_progress := dma_tx_in_progress c + 1\<rparr>;
          undo = c\<lparr>dma_tx_in_progress := dma_tx_in_progress c - 1\<rparr>
      in if dma_tx_in_progress c \<noteq> 1 then Some (1, undo)
         else if free_txbuffs c = tx_pool_size c then Some (1, undo)
         else do {
           tb \<leftarrow> next_tx c;
           if dma_can_wr_pkt c AND push_bit (tb_iface tb) 1 = 0 then Some (1, undo)
           else do {
             let skb = tb_skb tb;
             let c = c\<lparr>dma_tx_addr := skb_addr skb, mapped_tx := Some (skb_addr skb, length (skb_data skb))\<rparr>;
             let c = iowrite32 (dma_tx_addr c) CPCI_REG_DMA_E_ADDR c;
             let c = iowrite32 (word_of_nat (dma_len skb)) CPCI_REG_DMA_E_SIZE c;
             let c = iowrite32 (push_bit 8 (word_of_nat (tb_iface tb)) OR 1) CPCI_REG_DMA_E_CTRL c;
             Some (0, c) } })"

text \<open>The two updates of the ring.\<close>

definition put_tx :: "txbuff \<Rightarrow> nf2_card_priv \<Rightarrow> nf2_card_priv" where
  "put_tx tb c = c\<lparr>txbuffs := (txbuffs c)[wr_txbuff c := tb], wr_txbuff := Suc (wr_txbuff c) mod tx_pool_size c,
                         free_txbuffs := free_txbuffs c - 1\<rparr>"

definition take_tx :: "nf2_card_priv \<Rightarrow> nf2_card_priv" where
  "take_tx c = c\<lparr>rd_txbuff := Suc (rd_txbuff c) mod tx_pool_size c, free_txbuffs := Suc (free_txbuffs c)\<rparr>"

definition nf2c_tx :: "sk_buff \<Rightarrow> nat \<Rightarrow> nf2_card_priv \<Rightarrow> (int \<times> nf2_card_priv) outcome" where
  "nf2c_tx skb i c =
     (if free_txbuffs c = 0 then Some (1, c)
      else if wr_txbuff c \<ge> length (txbuffs c) then None
      else do {
        c \<leftarrow> add_port i (- 1) (put_tx \<lparr>tb_skb = skb, tb_iface = i\<rparr> c);
        c \<leftarrow> (if free_txbuffs_port c ! i = 0 then on_dev i (nd_stopped_update (\<lambda>_. True)) c else Some c);
        (_, c) \<leftarrow> nf2c_send c;
        Some (0, c) })"

text \<open>The end of a transfer: the packet is unmapped and freed, its buffer is free again, and its queue is woken if it had none left.\<close>

definition free_sent :: "nf2_card_priv \<Rightarrow> nf2_card_priv outcome" where
  "free_sent c = do {
     tb \<leftarrow> next_tx c;
     let c = c\<lparr>mapped_tx := None, kcalls := kcalls c @ [Kfree_skb_irq (tb_skb tb)]\<rparr>;
     c \<leftarrow> add_port (tb_iface tb) 1 (take_tx c);
     let c = c\<lparr>dma_tx_in_progress := dma_tx_in_progress c - 1\<rparr>;
     if free_txbuffs_port c ! tb_iface tb = 1 then on_dev (tb_iface tb) (nd_stopped_update (\<lambda>_. False)) c else Some c }"

text \<open>Sending goes on if packets wait.\<close>

definition send_more :: "nf2_card_priv \<Rightarrow> nf2_card_priv outcome" where
  "send_more c = (if free_txbuffs c \<noteq> tx_pool_size c then map_option snd (nf2c_send c) else Some c)"

definition nf2c_clear_dma_flags :: "nf2_card_priv \<Rightarrow> nf2_card_priv outcome" where
  "nf2c_clear_dma_flags c =
     (let c = (if dma_rx_in_progress c \<noteq> 0
                  then c\<lparr>mapped_rx := None, dma_rx_in_progress := dma_rx_in_progress c - 1\<rparr> else c)
      in if dma_tx_in_progress c \<noteq> 0 then free_sent c else Some c)"

definition nf2c_tx_timeout :: "device \<Rightarrow> nat \<Rightarrow> nf2_card_priv \<Rightarrow> nf2_card_priv outcome" where
  "nf2c_tx_timeout hw i c = do {
     c \<leftarrow> on_dev i (\<lambda>d. d\<lparr>nd_tx_errors := nd_tx_errors d + 1\<rparr>) c;
     let enable = ioread32 hw CNET_REG_ENABLE c;
     let intmask = ioread32 hw CPCI_REG_INTERRUPT_MASK c;
     let c = iowrite32 intmask CPCI_REG_INTERRUPT_MASK (iowrite32 enable CNET_REG_ENABLE (nf2_hw_reset c));
     c \<leftarrow> nf2c_clear_dma_flags c;
     c \<leftarrow> send_more c;
     on_dev i (nd_stopped_update (\<lambda>_. False)) c }"

section \<open>Opening and closing\<close>

text \<open>
  \<open>interrupted\<close> is the result of \<open>down_interruptible\<close>, \<open>irq_error\<close> that of \<open>request_irq\<close>.
\<close>

definition nf2c_open :: "device \<Rightarrow> bool \<Rightarrow> int \<Rightarrow> nat \<Rightarrow> nf2_card_priv \<Rightarrow> (int \<times> nf2_card_priv) outcome" where
  "nf2c_open hw interrupted irq_error i c =
     (if interrupted then Some (- 512, c)
      else do {
        c \<leftarrow> on_dev i (nd_carrier_update (\<lambda>_. False)) c;
        let c' = (if ifup c = 0 then nf2_hw_reset c else c);
        if ifup c = 0 \<and> irq_error \<noteq> 0 then Some (irq_error, c')
        else do {
          let c = (if ifup c = 0 then nf2_enable_irq (c'\<lparr>irq_installed := True\<rparr>) else c');
          let c = c\<lparr>ifup := ifup c OR push_bit i 1\<rparr>;
          let c = iowrite32 (push_bit i 1) CNET_REG_RESET c;
          let enable = ioread32 hw CNET_REG_ENABLE c OR (push_bit i 0x1100 OR 2 OR 1);
          let c = iowrite32 enable CNET_REG_ENABLE c;
          c \<leftarrow> on_dev i (nd_stopped_update (\<lambda>_. False)) c;
          Some (0, c) } })"

text \<open>The loop that frees the packets of the ring, in \<open>nf2c_release\<close> and \<open>nf2c_remove\<close>.\<close>

function flush_tx :: "nf2_card_priv \<Rightarrow> nf2_card_priv outcome" where
  "flush_tx c =
     (if free_txbuffs c < tx_pool_size c
      then case next_tx c of None \<Rightarrow> None
        | Some tb \<Rightarrow> flush_tx (take_tx (c\<lparr>kcalls := kcalls c @ [Kfree_skb (tb_skb tb)]\<rparr>))
      else Some c)"
  by pat_completeness auto

termination by (relation "measure (\<lambda>c. tx_pool_size c - free_txbuffs c)") (auto simp: take_tx_def)

declare flush_tx.simps [simp del]

definition nf2c_release :: "device \<Rightarrow> bool \<Rightarrow> nat \<Rightarrow> nf2_card_priv \<Rightarrow> (int \<times> nf2_card_priv) outcome" where
  "nf2c_release hw interrupted i c =
     (if interrupted then Some (- 512, c)
      else do {
        c \<leftarrow> on_dev i (\<lambda>d. d\<lparr>nd_carrier := False, nd_stopped := True\<rparr>) c;
        let enable = ioread32 hw CNET_REG_ENABLE c AND NOT (push_bit i 0x1100);
        let c = iowrite32 (push_bit i 1) CNET_REG_RESET (iowrite32 enable CNET_REG_ENABLE c);
        let c = c\<lparr>ifup := ifup c AND NOT (push_bit i 1)\<rparr>;
        if ifup c = 0 then do {
          let c = nf2_hw_reset (c\<lparr>irq_installed := False\<rparr>);
          c \<leftarrow> (if free_txbuffs c \<noteq> tx_pool_size c
                then (if dma_tx_in_progress c \<noteq> 0
                      then do { _ \<leftarrow> next_tx c; flush_tx (c\<lparr>mapped_tx := None\<rparr>) }
                      else flush_tx c)
                else Some c);
          Some (0, c\<lparr>dma_tx_in_progress := 0, dma_rx_in_progress := 0\<rparr>) }
        else Some (0, c) })"

section \<open>Reception\<close>

text \<open>The packet is copied out of the buffer of the card; \<open>alloc\<close> says whether there is memory for it.\<close>

definition nf2c_rx :: "bool \<Rightarrow> nat \<Rightarrow> nf2_card_priv \<Rightarrow> nf2_card_priv outcome" where
  "nf2c_rx alloc i c =
     (if \<not> alloc then on_dev i (\<lambda>d. d\<lparr>nd_rx_dropped := nd_rx_dropped d + 1\<rparr>) c
      else do {
        bytes \<leftarrow> mem_ld (pool_data c) 0 (unat (pool_len c));
        c \<leftarrow> on_dev i (\<lambda>d. d\<lparr>nd_rx_packets := nd_rx_packets d + 1, nd_rx_bytes := nd_rx_bytes d + pool_len c\<rparr>) c;
        Some (c\<lparr>kcalls := kcalls c @ [Netif_rx i bytes]\<rparr>) })"

section \<open>Interrupts\<close>

definition nf2c_check_link_status :: "device \<Rightarrow> nat \<Rightarrow> nf2_card_priv \<Rightarrow> nf2_card_priv outcome" where
  "nf2c_check_link_status hw i c =
     (let phy_aux_status = ioread32 hw (MDIO_0_AUX_STATUS + ADDRESS_DELTA * i) c
      in on_dev i (nd_carrier_update (\<lambda>_. phy_aux_status AND 4 \<noteq> 0)) c)"

definition intr_queue_status :: "device \<Rightarrow> nf2_card_priv \<Rightarrow> nf2_card_priv outcome" where
  "intr_queue_status hw c = do {
     let c = c\<lparr>dma_can_wr_pkt := ioread32 hw CPCI_REG_DMA_QUEUE_STATUS c AND 0xffff\<rparr>;
     let c = c\<lparr>dma_rx_in_progress := dma_rx_in_progress c + 1\<rparr>;
     c \<leftarrow> (if dma_rx_in_progress c = 1 then send_more c else Some c);
     Some (c\<lparr>dma_rx_in_progress := dma_rx_in_progress c - 1\<rparr>) }"

definition intr_rx_complete :: "device \<Rightarrow> bool \<Rightarrow> nf2_card_priv \<Rightarrow> nf2_card_priv outcome" where
  "intr_rx_complete hw alloc c = do {
     let c = c\<lparr>mapped_rx := None, pool_len := ioread32 hw CPCI_REG_DMA_I_SIZE c\<rparr>;
     let i = unat (drop_bit 8 (ioread32 hw CPCI_REG_DMA_I_CTRL c AND 0x300));
     let c = c\<lparr>dma_rx_in_progress := dma_rx_in_progress c - 1\<rparr>;
     nf2c_rx alloc i c }"

definition intr_tx_complete :: "nf2_card_priv \<Rightarrow> nf2_card_priv outcome" where
  "intr_tx_complete c =
     (if dma_tx_in_progress c \<noteq> 0 then do {
        tb \<leftarrow> next_tx c;
        c \<leftarrow> on_dev (tb_iface tb) (\<lambda>d. d\<lparr>nd_tx_packets := nd_tx_packets d + 1,
                                           nd_tx_bytes := nd_tx_bytes d + word_of_nat (length (skb_data (tb_skb tb)))\<rparr>) c;
        c \<leftarrow> free_sent c;
        send_more c }
      else Some c)"

definition intr_phy :: "device \<Rightarrow> nf2_card_priv \<Rightarrow> nf2_card_priv outcome" where
  "intr_phy hw = run_all (\<lambda>i c.
     if ioread32 hw (MDIO_0_INTR_STATUS + ADDRESS_DELTA * i) c AND 2 \<noteq> 0 then nf2c_check_link_status hw i c else Some c) [0..<MAX_IFACE]"

definition intr_pkt_avail :: "nf2_card_priv \<Rightarrow> nf2_card_priv" where
  "intr_pkt_avail c =
     (let c = c\<lparr>dma_rx_in_progress := dma_rx_in_progress c + 1\<rparr>
      in if dma_rx_in_progress c = 1
         then let c = c\<lparr>dma_rx_addr := pool_addr c, mapped_rx := Some (pool_addr c)\<rparr>
              in iowrite32 1 CPCI_REG_DMA_I_CTRL (iowrite32 (dma_rx_addr c) CPCI_REG_DMA_I_ADDR c)
         else c\<lparr>dma_rx_in_progress := dma_rx_in_progress c - 1\<rparr>)"

text \<open>The three errors of the DMA engine are treated alike; only the messages differ.\<close>

definition intr_dma_error :: "device \<Rightarrow> nf2_card_priv \<Rightarrow> nf2_card_priv outcome" where
  "intr_dma_error hw c = do {
     c \<leftarrow> nf2c_clear_dma_flags (nf2_reset_cpci hw c);
     send_more c }"

abbreviation (input) on_flag :: "u32 \<Rightarrow> u32 \<Rightarrow> (nf2_card_priv \<Rightarrow> nf2_card_priv outcome) \<Rightarrow> nf2_card_priv \<Rightarrow> nf2_card_priv outcome" where
  "on_flag status flag f c \<equiv> (if status AND flag \<noteq> 0 then f c else Some c)"

definition intr_mask :: "u32 \<Rightarrow> u32 \<Rightarrow> u32" where
  "intr_mask status int_mask =
     (let int_mask = (if status AND INT_DMA_RX_COMPLETE \<noteq> 0 then int_mask AND NOT INT_PKT_AVAIL else int_mask);
          int_mask = (if status AND INT_PKT_AVAIL \<noteq> 0 then int_mask OR INT_PKT_AVAIL else int_mask)
      in if status AND INT_CNET_ERROR \<noteq> 0 then int_mask OR INT_CNET_ERROR else int_mask)"

text \<open>The handler. The result tells whether the interrupt came from the card.\<close>

definition nf2c_intr :: "device \<Rightarrow> bool \<Rightarrow> nf2_card_priv \<Rightarrow> (bool \<times> nf2_card_priv) outcome" where
  "nf2c_intr hw alloc c = do {
     let int_mask = ioread32 hw CPCI_REG_INTERRUPT_MASK c;
     let c = nf2_disable_irq c;
     let status = ioread32 hw CPCI_REG_INTERRUPT_STATUS c AND NOT (int_mask AND NOT INT_PKT_AVAIL);
     c \<leftarrow> on_flag status INT_DMA_QUEUE_STATUS_CHANGE (intr_queue_status hw) c;
     c \<leftarrow> on_flag status INT_DMA_RX_COMPLETE (intr_rx_complete hw alloc) c;
     c \<leftarrow> on_flag status INT_DMA_TX_COMPLETE intr_tx_complete c;
     c \<leftarrow> on_flag status INT_PHY_INTERRUPT (intr_phy hw) c;
     c \<leftarrow> on_flag status INT_PKT_AVAIL (\<lambda>c. Some (intr_pkt_avail c)) c;
     c \<leftarrow> on_flag status INT_DMA_TRANSFER_ERROR (intr_dma_error hw) c;
     c \<leftarrow> on_flag status INT_DMA_SETUP_ERROR (intr_dma_error hw) c;
     c \<leftarrow> on_flag status INT_DMA_FATAL_ERROR (intr_dma_error hw) c;
     Some (status \<noteq> 0, iowrite32 (intr_mask status int_mask) CPCI_REG_INTERRUPT_MASK c) }"

section \<open>Requests of programs\<close>

text \<open>Reads and writes of registers; \<open>len\<close> is the size of the memory of the card.\<close>

definition nf2k_reg_read :: "device \<Rightarrow> nat \<Rightarrow> nat \<Rightarrow> nf2_card_priv \<Rightarrow> u32 option" where
  "nf2k_reg_read hw len addr c = (if addr \<ge> len then None else Some (ioread32 hw addr c))"

definition nf2k_reg_write :: "nat \<Rightarrow> nat \<Rightarrow> u32 \<Rightarrow> nf2_card_priv \<Rightarrow> int \<times> nf2_card_priv" where
  "nf2k_reg_write len addr v c = (if addr \<ge> len then (1, c) else (0, iowrite32 v addr c))"

text \<open>\<open>nf2c_ioctl\<close> copies the request in and the answer out; \<open>copy_in\<close> and \<open>copy_out\<close> say whether that works.\<close>

datatype nf2_request = Reg_read nat u32 | Reg_write nat u32 | Mii_phy | Mii_reg nat | Other_request

datatype nf2_answer = Reg nat u32 | Phy_id u32 | Mii_value u32 | No_answer

abbreviation (input) EFAULT :: int where "EFAULT \<equiv> 14"
abbreviation (input) EOPNOTSUPP :: int where "EOPNOTSUPP \<equiv> 95"

definition nf2c_ioctl ::
    "device \<Rightarrow> nat \<Rightarrow> bool \<Rightarrow> bool \<Rightarrow> nat \<Rightarrow> nf2_request \<Rightarrow> nf2_card_priv \<Rightarrow> int \<times> nf2_answer \<times> nf2_card_priv" where
  "nf2c_ioctl hw len copy_in copy_out i req c =
     (case req of
        Reg_read addr v \<Rightarrow>
          if \<not> copy_in then (- EFAULT, No_answer, c)
          else if \<not> copy_out then (- EFAULT, No_answer, c)
          else (0, Reg addr (case nf2k_reg_read hw len addr c of Some w \<Rightarrow> w | None \<Rightarrow> v), c)
      | Reg_write addr v \<Rightarrow>
          if \<not> copy_in then (- EFAULT, No_answer, c)
          else (0, No_answer, snd (nf2k_reg_write len addr v c))
      | Mii_phy \<Rightarrow>
          (let lo = ioread32 hw (MDIO_0_PHY_ID_LO_REG + ADDRESS_DELTA * i) c;
               hi = ioread32 hw (MDIO_0_PHY_ID_HI_REG + ADDRESS_DELTA * i) c
           in (0, Phy_id (push_bit 16 hi OR lo), c))
      | Mii_reg n \<Rightarrow> (0, Mii_value (ioread32 hw (MDIO_0_BASE + ADDRESS_DELTA * i + n) c), c)
      | Other_request \<Rightarrow> (- EOPNOTSUPP, No_answer, c))"

section \<open>Loading and unloading\<close>

text \<open>
  The parameters of the module, and how they are corrected. The state of a card after \<open>nf2_probe\<close>: \<open>junk\<close> is what \<open>kmalloc\<close> found in the
  memory of the ring and of the packet buffer, \<open>addr\<close> the address of the latter.
\<close>

record nf2_params =
  timeout_param :: int
  rx_pool_size_param :: int
  tx_pool_size_param :: int
  nf2_major :: int
  nf2_minor :: int

definition nf2_validate_params :: "int \<Rightarrow> nf2_params \<Rightarrow> nf2_params" where
  "nf2_validate_params HZ p =
     (let p = (if timeout_param p \<le> 0 then p\<lparr>timeout_param := 2 * HZ\<rparr> else p);
          p = (if rx_pool_size_param p \<le> 0 then p\<lparr>rx_pool_size_param := 8\<rparr> else p);
          p = (if tx_pool_size_param p \<le> 0 then p\<lparr>tx_pool_size_param := 16\<rparr> else p);
          p = (if nf2_major p < 0 then p\<lparr>rx_pool_size_param := 0\<rparr> else p)
      in if nf2_minor p < 0 then p\<lparr>rx_pool_size_param := 0\<rparr> else p)"

definition nf2c_init :: net_device where
  "nf2c_init = \<lparr>nd_carrier = True, nd_stopped = False, nd_rx_packets = 0, nd_rx_bytes = 0, nd_rx_dropped = 0,
                nd_tx_packets = 0, nd_tx_bytes = 0, nd_tx_errors = 0\<rparr>"

definition nf2c_probe :: "nat \<Rightarrow> txbuff list \<Rightarrow> byte list \<Rightarrow> u32 \<Rightarrow> nf2_card_priv" where
  "nf2c_probe n junk data addr =
     \<lparr>is_ctrl = True, tx_pool_size = n, txbuffs = take n junk, wr_txbuff = 0, rd_txbuff = 0, free_txbuffs = n,
      free_txbuffs_port = replicate MAX_IFACE (int n div 4), dma_tx_addr = 0, dma_rx_addr = 0, dma_tx_in_progress = 0,
      dma_rx_in_progress = 0, dma_can_wr_pkt = 0, pool_addr = addr, pool_len = 0, pool_data = take (MAX_DMA_LEN + 2) data,
      ndev = replicate MAX_IFACE nf2c_init, ifup = 0, irq_installed = False, io = [(CNET_REG_ENABLE, 0)], kcalls = [],
      mapped_tx = None, mapped_rx = None\<rparr>"

definition nf2c_remove :: "nf2_card_priv \<Rightarrow> nf2_card_priv outcome" where
  "nf2c_remove c = (if free_txbuffs c \<noteq> tx_pool_size c then flush_tx c else Some c)"

end
