(* ===== verification/Nf2_Transmit.thy ===== *)
theory Nf2_Transmit
  imports Nf2_Driver
begin

text \<open>
  What the driver of the control card guarantees: its transmit buffers are a bounded queue in every state that the callbacks of the kernel can
  reach, no callback leaves an array, packets leave in the order in which they came, and each is handed to the device at most once.
\<close>

section \<open>The queue\<close>

definition tx_ok :: "nf2_card_priv \<Rightarrow> bool" where
  "tx_ok c \<longleftrightarrow> length (txbuffs c) = tx_pool_size c \<and> ring_ok (txbuffs c) (rd_txbuff c) (wr_txbuff c) (free_txbuffs c)"

definition tx_queue :: "nf2_card_priv \<Rightarrow> txbuff list" where
  "tx_queue c = ring_queue (txbuffs c) (rd_txbuff c) (free_txbuffs c)"

interpretation nf2: tx_ring txbuffs tx_pool_size rd_txbuff wr_txbuff free_txbuffs put_tx take_tx
  rewrites "nf2.ok = tx_ok" and "nf2.queue = tx_queue"
proof -
  show loc: "tx_ring txbuffs tx_pool_size rd_txbuff wr_txbuff free_txbuffs put_tx take_tx"
    by unfold_locales (simp_all add: put_tx_def take_tx_def)
  show "tx_ring.ok txbuffs tx_pool_size rd_txbuff wr_txbuff free_txbuffs = tx_ok"
    by (auto simp: fun_eq_iff tx_ring.ok_def[OF loc] tx_ok_def)
  show "tx_ring.queue txbuffs rd_txbuff free_txbuffs = tx_queue"
    by (auto simp: fun_eq_iff tx_ring.queue_def[OF loc] tx_queue_def)
qed

lemma next_tx_queue: "tx_ok c \<Longrightarrow> free_txbuffs c < tx_pool_size c \<Longrightarrow> next_tx c = Some (hd (tx_queue c)) \<and> tx_queue c = hd (tx_queue c) # tx_queue (take_tx c)"
  using nf2.pop_queue[of c] nf2.okD[of c] by (simp add: next_tx_def)

section \<open>Packets on their way\<close>

text \<open>The packets that were freed, those freed at the end of a transfer, and the writes that start transfers.\<close>

fun freed_by :: "kcall \<Rightarrow> sk_buff list" where
  "freed_by (Kfree_skb s) = [s]"
| "freed_by (Kfree_skb_irq s) = [s]"
| "freed_by (Netif_rx i bs) = []"

fun done_by :: "kcall \<Rightarrow> sk_buff list" where
  "done_by (Kfree_skb_irq s) = [s]"
| "done_by _ = []"

definition freed :: "nf2_card_priv \<Rightarrow> sk_buff list" where
  "freed c = concat (map freed_by (kcalls c))"

definition transferred :: "nf2_card_priv \<Rightarrow> sk_buff list" where
  "transferred c = concat (map done_by (kcalls c))"

definition egress :: "nf2_card_priv \<Rightarrow> (nat \<times> u32) list" where
  "egress c = filter (\<lambda>(r, _). r = CPCI_REG_DMA_E_ADDR \<or> r = CPCI_REG_DMA_E_SIZE \<or> r = CPCI_REG_DMA_E_CTRL) (io c)"

definition start_writes :: "txbuff \<Rightarrow> (nat \<times> u32) list" where
  "start_writes tb =
     [(CPCI_REG_DMA_E_ADDR, skb_addr (tb_skb tb)), (CPCI_REG_DMA_E_SIZE, word_of_nat (dma_len (tb_skb tb))),
      (CPCI_REG_DMA_E_CTRL, push_bit 8 (word_of_nat (tb_iface tb)) OR 1)]"

text \<open>
  The history of the packets that the driver accepted: those that left and those that wait, and the transfers among the former, with the one
  of the first packet that waits if \<open>b\<close> is 1.
\<close>

definition history :: "nat \<Rightarrow> txbuff list \<Rightarrow> nf2_card_priv \<Rightarrow> bool" where
  "history b acc c \<longleftrightarrow> (\<exists>gone started. acc = gone @ tx_queue c \<and> map tb_skb gone = freed c \<and>
     egress c = concat (map start_writes (started @ take b (tx_queue c))) \<and>
     subseq started gone \<and> subseq (transferred c) (map tb_skb started))"

definition tx_inv :: "txbuff list \<Rightarrow> nf2_card_priv \<Rightarrow> bool" where
  "tx_inv acc c \<longleftrightarrow> tx_ok c \<and> length (free_txbuffs_port c) = MAX_IFACE \<and> length (ndev c) = MAX_IFACE \<and> length (pool_data c) = MAX_DMA_LEN + 2 \<and>
     list_all (\<lambda>tb. tb_iface tb < MAX_IFACE) (tx_queue c) \<and>
     (dma_tx_in_progress c = 0 \<and> mapped_tx c = None \<or>
      dma_tx_in_progress c = 1 \<and> tx_queue c \<noteq> [] \<and>
        mapped_tx c = Some (skb_addr (tb_skb (hd (tx_queue c))), length (skb_data (tb_skb (hd (tx_queue c)))))) \<and>
     history (nat (dma_tx_in_progress c)) acc c"

text \<open>What the invariant reads. Everything else may change.\<close>

definition tx_view :: "nf2_card_priv \<Rightarrow> _" where
  "tx_view c = ((tx_pool_size c, txbuffs c, wr_txbuff c, rd_txbuff c, free_txbuffs c),
     length (free_txbuffs_port c), length (ndev c), length (pool_data c), dma_tx_in_progress c, mapped_tx c, freed c, transferred c, egress c)"

lemma tx_inv_view: "tx_view c' = tx_view c \<Longrightarrow> tx_inv acc c' = tx_inv acc c"
  by (simp add: tx_view_def tx_inv_def history_def tx_ok_def tx_queue_def)

lemma view_iowrite [simp]:
  "r \<noteq> CPCI_REG_DMA_E_ADDR \<Longrightarrow> r \<noteq> CPCI_REG_DMA_E_SIZE \<Longrightarrow> r \<noteq> CPCI_REG_DMA_E_CTRL \<Longrightarrow> tx_view (iowrite32 v r c) = tx_view c"
  by (simp add: tx_view_def iowrite32_def freed_def transferred_def egress_def)

lemma view_hw_reset [simp]: "tx_view (nf2_hw_reset c) = tx_view c"
  by (simp add: nf2_hw_reset_def Let_def)

lemma view_reset_cpci [simp]: "tx_view (nf2_reset_cpci hw c) = tx_view c"
  by (simp add: nf2_reset_cpci_def Let_def)

lemma view_irq [simp]: "tx_view (nf2_enable_irq c) = tx_view c" "tx_view (nf2_disable_irq c) = tx_view c"
  by (simp_all add: nf2_enable_irq_def nf2_disable_irq_def)

lemma view_updates [simp]:
  "tx_view (c\<lparr>ifup := u\<rparr>) = tx_view c" "tx_view (c\<lparr>irq_installed := b\<rparr>) = tx_view c" "tx_view (c\<lparr>dma_rx_in_progress := n\<rparr>) = tx_view c"
  "tx_view (c\<lparr>mapped_rx := m\<rparr>) = tx_view c" "tx_view (c\<lparr>dma_can_wr_pkt := u\<rparr>) = tx_view c" "tx_view (c\<lparr>pool_len := u\<rparr>) = tx_view c"
  "tx_view (c\<lparr>dma_rx_addr := u\<rparr>) = tx_view c"
  by (simp_all add: tx_view_def freed_def transferred_def egress_def)

lemmas inv_updates [simp] =
  view_updates[THEN tx_inv_view] view_iowrite[THEN tx_inv_view] view_hw_reset[THEN tx_inv_view] view_reset_cpci[THEN tx_inv_view] view_irq[THEN tx_inv_view]

lemma inv_view: "tx_view c' = tx_view c \<Longrightarrow> tx_inv acc c \<Longrightarrow> tx_inv acc c'"
  by (simp add: tx_inv_view[of c' c])

lemma on_dev_view: "tx_inv acc c \<Longrightarrow> i < MAX_IFACE \<Longrightarrow> \<exists>c'. on_dev i f c = Some c' \<and> tx_view c' = tx_view c"
  by (simp add: on_dev_def tx_inv_def tx_view_def freed_def transferred_def egress_def)

lemma tx_inv_queue:
  assumes "tx_inv acc c"
  shows "tx_queue c = [] \<longleftrightarrow> free_txbuffs c = tx_pool_size c" and "free_txbuffs c \<le> tx_pool_size c"
    and "tx_queue c \<noteq> [] \<Longrightarrow> next_tx c = Some (hd (tx_queue c)) \<and> tb_iface (hd (tx_queue c)) < MAX_IFACE"
    and "dma_tx_in_progress c = 0 \<or> dma_tx_in_progress c = 1"
  using assms nf2.queue_empty[of c] nf2.okD[of c] next_tx_queue[of c]
  by (auto simp: tx_inv_def le_less dest: hd_in_set simp: list_all_iff)

section \<open>Steps\<close>

lemma nf2c_send_inv:
  assumes inv: "tx_inv acc c"
  shows "\<exists>r c'. nf2c_send c = Some (r, c') \<and> tx_inv acc c'"
proof (cases "dma_tx_in_progress c = 0 \<and> tx_queue c \<noteq> [] \<and> dma_can_wr_pkt c AND push_bit (tb_iface (hd (tx_queue c))) 1 \<noteq> 0")
  case False
  then have "nf2c_send c = Some (1, c)"
    using tx_inv_queue[OF inv] by (auto simp: nf2c_send_def Let_def next_tx_def split: if_splits)
  then show ?thesis using inv by blast
next
  case True
  let ?tb = "hd (tx_queue c)"
  define c' where "c' = iowrite32 (push_bit 8 (word_of_nat (tb_iface ?tb)) OR 1) CPCI_REG_DMA_E_CTRL
     (iowrite32 (word_of_nat (dma_len (tb_skb ?tb))) CPCI_REG_DMA_E_SIZE (iowrite32 (skb_addr (tb_skb ?tb)) CPCI_REG_DMA_E_ADDR
       (c\<lparr>dma_tx_in_progress := 1, dma_tx_addr := skb_addr (tb_skb ?tb), mapped_tx := Some (skb_addr (tb_skb ?tb), length (skb_data (tb_skb ?tb)))\<rparr>)))"
  have "next_tx (c\<lparr>dma_tx_in_progress := 1\<rparr>) = Some ?tb" using True tx_inv_queue(3)[OF inv] by (simp add: next_tx_def split: if_splits)
  then have "nf2c_send c = Some (0, c')"
    using True tx_inv_queue(1)[OF inv] by (simp add: nf2c_send_def Let_def c'_def iowrite32_def)
  moreover have same: "tx_queue c' = tx_queue c" "tx_ok c' = tx_ok c" "freed c' = freed c" "transferred c' = transferred c"
    "dma_tx_in_progress c' = 1" "egress c' = egress c @ start_writes ?tb"
    by (simp_all add: c'_def iowrite32_def tx_queue_def tx_ok_def freed_def transferred_def egress_def start_writes_def)
  have "history 1 acc c'"
    using inv True unfolding tx_inv_def history_def same by (force simp: neq_Nil_conv)
  then have "tx_inv acc c'"
    using inv True by (simp add: tx_inv_def same) (simp add: c'_def iowrite32_def)
  ultimately show ?thesis by blast
qed

lemma send_more_inv: "tx_inv acc c \<Longrightarrow> \<exists>c'. send_more c = Some c' \<and> tx_inv acc c'"
  using nf2c_send_inv[of acc c] by (auto simp: send_more_def)

lemma put_tx_inv:
  assumes inv: "tx_inv acc c" and "0 < free_txbuffs c" and "tb_iface tb < MAX_IFACE"
  shows "tx_inv (acc @ [tb]) (put_tx tb c)"
proof -
  have q: "tx_queue (put_tx tb c) = tx_queue c @ [tb]" "tx_ok (put_tx tb c)"
    using inv assms(2) nf2.push_queue nf2.push_ok by (auto simp: tx_inv_def)
  have same: "freed (put_tx tb c) = freed c" "transferred (put_tx tb c) = transferred c" "egress (put_tx tb c) = egress c"
    "dma_tx_in_progress (put_tx tb c) = dma_tx_in_progress c" "mapped_tx (put_tx tb c) = mapped_tx c"
    by (simp_all add: put_tx_def freed_def transferred_def egress_def)
  have "history (nat (dma_tx_in_progress c)) (acc @ [tb]) (put_tx tb c)"
    using inv unfolding tx_inv_def history_def q same by (force simp: neq_Nil_conv)
  then show ?thesis using inv assms(3) by (auto simp: tx_inv_def q same) (simp_all add: put_tx_def)
qed

text \<open>Freeing the first packet of the queue, at the end of its transfer or when the card is closed.\<close>

lemma history_take:
  assumes "history b acc c" "tx_ok c" "tx_queue c \<noteq> []" "b \<le> 1"
  shows "history 0 acc (take_tx (c\<lparr>kcalls := kcalls c @ [Kfree_skb (tb_skb (hd (tx_queue c)))]\<rparr>))"
    and "b = 1 \<Longrightarrow> history 0 acc (take_tx (c\<lparr>mapped_tx := m, kcalls := kcalls c @ [Kfree_skb_irq (tb_skb (hd (tx_queue c)))]\<rparr>))"
proof -
  let ?tb = "hd (tx_queue c)" and ?q = "tl (tx_queue c)"
  have "tx_queue c = ?tb # tx_queue (take_tx c)"
    using assms(2,3) next_tx_queue[of c] nf2.queue_empty[of c] nf2.okD[of c] by fastforce
  then have q: "tx_queue c = ?tb # ?q" "tx_queue (take_tx c) = ?q" by (metis list.sel(3))+
  obtain gone started where h: "acc = gone @ tx_queue c" "map tb_skb gone = freed c"
      "egress c = concat (map start_writes (started @ take b (tx_queue c)))" "subseq started gone" "subseq (transferred c) (map tb_skb started)"
    using assms(1) by (auto simp: history_def)
  have b: "take b (tx_queue c) = (if b = 0 then [] else [?tb])" using assms(4) by (subst q(1)) (cases b, auto)
  let ?s = "started @ take b (tx_queue c)"
  have sub: "subseq ?s (gone @ [?tb])"
    using h(4) b by (auto intro: list_emb_append_mono subseq_rev_drop_many)
  have tr: "subseq (transferred c) (map tb_skb ?s)" using h(5) by (simp add: subseq_rev_drop_many)
  have acc: "acc = (gone @ [?tb]) @ ?q" using h(1) q(1) by simp
  show "history 0 acc (take_tx (c\<lparr>kcalls := kcalls c @ [Kfree_skb (tb_skb ?tb)]\<rparr>))"
    unfolding history_def
    by (rule exI[of _ "gone @ [?tb]"], rule exI[of _ ?s])
      (use acc q(2) h(2,3) sub tr in \<open>simp add: tx_queue_def freed_def transferred_def egress_def take_tx_def\<close>)
  have "subseq (transferred c @ [tb_skb ?tb]) (map tb_skb ?s)" if "b = 1"
    using h(5) b that by simp
  then show "history 0 acc (take_tx (c\<lparr>mapped_tx := m, kcalls := kcalls c @ [Kfree_skb_irq (tb_skb ?tb)]\<rparr>))" if "b = 1"
    unfolding history_def
    by - (rule exI[of _ "gone @ [?tb]"], rule exI[of _ ?s],
      use that acc q(2) h(2,3) sub in \<open>simp add: tx_queue_def freed_def transferred_def egress_def take_tx_def\<close>)
qed

lemma free_sent_inv:
  assumes inv: "tx_inv acc c" and busy: "dma_tx_in_progress c \<noteq> 0"
  shows "\<exists>c'. free_sent c = Some c' \<and> tx_inv acc c' \<and> tx_queue c' = tl (tx_queue c) \<and> dma_tx_in_progress c' = 0 \<and>
    kcalls c' = kcalls c @ [Kfree_skb_irq (tb_skb (hd (tx_queue c)))] \<and> dma_can_wr_pkt c' = dma_can_wr_pkt c \<and> io c' = io c"
proof -
  let ?tb = "hd (tx_queue c)"
  have q: "tx_queue c \<noteq> []" "dma_tx_in_progress c = 1" and ok: "tx_ok c" using inv busy by (auto simp: tx_inv_def)
  have i: "next_tx c = Some ?tb" "tb_iface ?tb < MAX_IFACE" using tx_inv_queue(3)[OF inv q(1)] by auto
  define c1 where "c1 = take_tx (c\<lparr>mapped_tx := None, kcalls := kcalls c @ [Kfree_skb_irq (tb_skb ?tb)]\<rparr>)"
  have more: "free_txbuffs c < tx_pool_size c" using q(1) tx_inv_queue(1,2)[OF inv] by simp
  have "tx_queue (take_tx c) = tl (tx_queue c)" using next_tx_queue[OF ok more] by (metis list.sel(3))
  then have c1: "tx_queue c1 = tl (tx_queue c)" "tx_ok c1" "history 0 acc c1"
    using nf2.pop_ok[OF ok more] history_take(2)[of 1 acc c] inv q ok
    by (simp_all add: c1_def tx_queue_def tx_ok_def take_tx_def tx_inv_def)
  obtain p where p: "add_port (tb_iface ?tb) 1 c1 = Some (c1\<lparr>free_txbuffs_port := p\<rparr>)" "length p = MAX_IFACE"
    using inv i(2) by (simp add: add_port_def tx_inv_def c1_def take_tx_def)
  define c2 where "c2 = c1\<lparr>free_txbuffs_port := p, dma_tx_in_progress := 0\<rparr>"
  have "list_all (\<lambda>tb. tb_iface tb < MAX_IFACE) (tl (tx_queue c))"
    using inv q(1) by (auto simp: tx_inv_def list_all_iff dest: list.set_sel(2))
  moreover have "history 0 acc c2 = history 0 acc c1" "tx_queue c2 = tx_queue c1" "tx_ok c2 = tx_ok c1"
    by (simp_all add: c2_def history_def tx_queue_def tx_ok_def freed_def transferred_def egress_def)
  ultimately have inv2: "tx_inv acc c2" "tx_queue c2 = tl (tx_queue c)"
    using inv c1 p(2) by (simp_all add: tx_inv_def) (simp_all add: c2_def c1_def take_tx_def)
  have c2: "dma_tx_in_progress c2 = 0" "kcalls c2 = kcalls c @ [Kfree_skb_irq (tb_skb ?tb)]" "dma_can_wr_pkt c2 = dma_can_wr_pkt c" "io c2 = io c"
    by (simp_all add: c2_def c1_def take_tx_def)
  have "free_sent c = (if p ! tb_iface ?tb = 1 then on_dev (tb_iface ?tb) (nd_stopped_update (\<lambda>_. False)) c2 else Some c2)"
    using p(1) q(2) by (simp add: free_sent_def i(1) Let_def c1_def c2_def take_tx_def)
  moreover have "\<exists>d. on_dev (tb_iface ?tb) f c2 = Some (c2\<lparr>ndev := d\<rparr>) \<and> length d = length (ndev c2)" for f
    using inv2(1) i(2) unfolding on_dev_def tx_inv_def by (intro exI[of _ "(ndev c2)[tb_iface ?tb := f (ndev c2 ! tb_iface ?tb)]"]) simp
  moreover have "tx_inv acc (c2\<lparr>ndev := d\<rparr>) = tx_inv acc c2" "tx_queue (c2\<lparr>ndev := d\<rparr>) = tx_queue c2" if "length d = length (ndev c2)" for d
    using that by (simp_all add: tx_inv_def history_def tx_queue_def tx_ok_def freed_def transferred_def egress_def)
  ultimately show ?thesis using inv2 c2 by (cases "p ! tb_iface ?tb = 1") fastforce+
qed

lemma clear_dma_flags_inv: "tx_inv acc c \<Longrightarrow> \<exists>c'. nf2c_clear_dma_flags c = Some c' \<and> tx_inv acc c' \<and> dma_tx_in_progress c' = 0"
  using free_sent_inv[of acc c] free_sent_inv[of acc "c\<lparr>mapped_rx := None, dma_rx_in_progress := dma_rx_in_progress c - 1\<rparr>"]
  by (auto simp: nf2c_clear_dma_flags_def Let_def)

text \<open>The loop that frees all packets: it ends, with the queue empty.\<close>

lemma flush_tx_all:
  assumes "history b acc c" "tx_ok c" "b \<le> 1" "b = 1 \<longrightarrow> tx_queue c \<noteq> []"
  shows "\<exists>c'. flush_tx c = Some c' \<and> history 0 acc c' \<and> tx_ok c' \<and> tx_queue c' = [] \<and> free_txbuffs_port c' = free_txbuffs_port c \<and>
    ndev c' = ndev c \<and> pool_data c' = pool_data c \<and> mapped_tx c' = mapped_tx c \<and> tx_pool_size c' = tx_pool_size c \<and>
    dma_tx_in_progress c' = dma_tx_in_progress c \<and> mapped_rx c' = mapped_rx c \<and> ifup c' = ifup c"
  using assms
proof (induction c arbitrary: b rule: flush_tx.induct)
  case (1 c)
  show ?case
  proof (cases "free_txbuffs c < tx_pool_size c")
    case False
    then have "tx_queue c = []" using nf2.queue_empty[OF 1(3)] nf2.okD[OF 1(3)] by simp
    moreover have "b = 0" using calculation 1(4,5) by auto
    ultimately show ?thesis using 1(2,3) False by (simp add: flush_tx.simps[of c])
  next
    case True
    let ?tb = "hd (tx_queue c)"
    let ?c = "take_tx (c\<lparr>kcalls := kcalls c @ [Kfree_skb (tb_skb ?tb)]\<rparr>)"
    have q: "tx_queue c \<noteq> []" "next_tx c = Some ?tb" using next_tx_queue[OF 1(3) True] by auto
    have h: "history 0 acc ?c" using history_take(1)[OF 1(2,3) q(1) 1(4)] .
    have ok: "tx_ok ?c" using nf2.pop_ok[OF 1(3) True] by (simp add: tx_ok_def take_tx_def)
    have "flush_tx c = flush_tx ?c" using True q(2) by (simp add: flush_tx.simps[of c])
    then show ?thesis using 1(1)[OF True q(2) h ok] by (simp add: take_tx_def)
  qed
qed

section \<open>Callbacks\<close>

text \<open>Composition of steps that keep the invariant.\<close>

definition keeps :: "txbuff list \<Rightarrow> (nf2_card_priv \<Rightarrow> nf2_card_priv outcome) \<Rightarrow> bool" where
  "keeps acc f \<longleftrightarrow> (\<forall>c. tx_inv acc c \<longrightarrow> (\<exists>c'. f c = Some c' \<and> tx_inv acc c'))"

lemma keepsI: "(\<And>c. tx_inv acc c \<Longrightarrow> \<exists>c'. f c = Some c' \<and> tx_inv acc c') \<Longrightarrow> keeps acc f"
  by (simp add: keeps_def)

lemma keepsD: "keeps acc f \<Longrightarrow> tx_inv acc c \<Longrightarrow> \<exists>c'. f c = Some c' \<and> tx_inv acc c'"
  by (simp add: keeps_def)

lemma keeps_bind: "keeps acc f \<Longrightarrow> keeps acc g \<Longrightarrow> keeps acc (\<lambda>c. Option.bind (f c) g)"
  by (fastforce simp: keeps_def)

lemma keeps_if: "keeps acc f \<Longrightarrow> keeps acc (\<lambda>c. if b then f c else Some c)"
  by (simp add: keeps_def)

lemma keeps_if_state: "keeps acc f \<Longrightarrow> keeps acc (\<lambda>c. if b c then f c else Some c)"
  by (simp add: keeps_def)

lemma keeps_view: "(\<And>c. tx_view (g c) = tx_view c) \<Longrightarrow> keeps acc f \<Longrightarrow> keeps acc (\<lambda>c. f (g c))"
  unfolding keeps_def by (metis inv_view)

lemma keeps_some: "(\<And>c. tx_view (g c) = tx_view c) \<Longrightarrow> keeps acc (\<lambda>c. Some (g c))"
  unfolding keeps_def by (metis inv_view)

lemma keeps_on_dev: "i < MAX_IFACE \<Longrightarrow> keeps acc (on_dev i f)"
  unfolding keeps_def by (metis on_dev_view inv_view)

lemma keeps_send_more: "keeps acc send_more"
  by (rule keepsI) (rule send_more_inv)

lemma keeps_clear: "keeps acc nf2c_clear_dma_flags"
  using clear_dma_flags_inv by (fastforce simp: keeps_def)

lemma keeps_run_all: "(\<And>i. i \<in> set is' \<Longrightarrow> keeps acc (f i)) \<Longrightarrow> keeps acc (run_all f is')"
  by (induction is') (fastforce simp: keeps_def)+

lemma keeps_dma_error: "keeps acc (intr_dma_error hw)"
  unfolding intr_dma_error_def
  by (rule keeps_bind[OF keeps_view[OF view_reset_cpci keeps_clear] keeps_send_more])

lemma keeps_phy: "keeps acc (intr_phy hw)"
  unfolding intr_phy_def nf2c_check_link_status_def Let_def
  by (rule keeps_run_all, rule keeps_if_state, rule keepsI) (rule keepsD[OF keeps_on_dev], simp_all)

lemma keeps_queue_status: "keeps acc (intr_queue_status hw)"
proof (rule keepsI)
  fix c assume inv: "tx_inv acc c"
  let ?c = "c\<lparr>dma_can_wr_pkt := ioread32 hw CPCI_REG_DMA_QUEUE_STATUS c AND 0xffff, dma_rx_in_progress := dma_rx_in_progress c + 1\<rparr>"
  have "tx_inv acc ?c" using inv by simp
  then obtain c' where "(if dma_rx_in_progress ?c = 1 then send_more ?c else Some ?c) = Some c'" "tx_inv acc c'"
    using send_more_inv[of acc ?c] by (cases "dma_rx_in_progress ?c = 1") auto
  then show "\<exists>c'. intr_queue_status hw c = Some c' \<and> tx_inv acc c'"
    unfolding intr_queue_status_def Let_def by (cases "dma_rx_in_progress c = 0") auto
qed

lemma dev_of_ctrl: "unat (drop_bit 8 ((ctrl :: u32) AND 0x300)) < MAX_IFACE"
proof -
  have "drop_bit 8 (ctrl AND 0x300) = drop_bit 8 ctrl AND 3" by (simp add: drop_bit_and)
  also have "\<dots> \<le> 3" by (rule word_and_le1)
  finally show ?thesis by (simp add: word_le_nat_alt)
qed

text \<open>The device does not report packets that are longer than the buffer.\<close>

definition fits_buffer :: "device \<Rightarrow> bool" where
  "fits_buffer hw \<longleftrightarrow> (\<forall>log. unat (hw log CPCI_REG_DMA_I_SIZE) \<le> MAX_DMA_LEN + 2)"

lemma rx_complete_view:
  assumes inv: "tx_inv acc c" and "fits_buffer hw"
  shows "\<exists>c'. intr_rx_complete hw alloc c = Some c' \<and> tx_view c' = tx_view c"
proof -
  let ?i = "unat (drop_bit 8 (ioread32 hw CPCI_REG_DMA_I_CTRL c AND 0x300))"
  let ?c = "c\<lparr>mapped_rx := None, pool_len := ioread32 hw CPCI_REG_DMA_I_SIZE c, dma_rx_in_progress := dma_rx_in_progress c - 1\<rparr>"
  have v: "tx_inv acc ?c" using inv by simp
  have "unat (pool_len ?c) \<le> length (pool_data ?c)"
    using assms(2) inv by (simp add: fits_buffer_def tx_inv_def ioread32_def)
  then have ld: "mem_ld (pool_data ?c) 0 (unat (pool_len ?c)) = Some (take (unat (pool_len ?c)) (pool_data ?c))" by (simp add: mem_ld_Some)
  have rx: "intr_rx_complete hw alloc c = nf2c_rx alloc ?i ?c"
    by (simp add: intr_rx_complete_def Let_def ioread32_def)
  obtain c1 where c1: "on_dev ?i (\<lambda>d. d\<lparr>nd_rx_packets := nd_rx_packets d + 1, nd_rx_bytes := nd_rx_bytes d + pool_len ?c\<rparr>) ?c = Some c1" "tx_view c1 = tx_view ?c"
    using on_dev_view[OF v dev_of_ctrl] by blast
  obtain c2 where c2: "on_dev ?i (\<lambda>d. d\<lparr>nd_rx_dropped := nd_rx_dropped d + 1\<rparr>) ?c = Some c2" "tx_view c2 = tx_view ?c"
    using on_dev_view[OF v dev_of_ctrl] by blast
  have "tx_view (c1\<lparr>kcalls := kcalls c1 @ [Netif_rx i bs]\<rparr>) = tx_view c1" for i bs
    by (simp add: tx_view_def freed_def transferred_def egress_def)
  then show ?thesis
    unfolding rx nf2c_rx_def ld Option.bind.bind_lunit using c1 c2 by auto
qed

lemma keeps_rx_complete: "fits_buffer hw \<Longrightarrow> keeps acc (intr_rx_complete hw alloc)"
  using rx_complete_view inv_view unfolding keeps_def by metis

lemma keeps_tx_complete: "keeps acc intr_tx_complete"
proof (rule keepsI)
  fix c assume inv: "tx_inv acc c"
  show "\<exists>c'. intr_tx_complete c = Some c' \<and> tx_inv acc c'"
  proof (cases "dma_tx_in_progress c = 0")
    case True then show ?thesis using inv by (simp add: intr_tx_complete_def)
  next
    case False
    let ?tb = "hd (tx_queue c)"
    have q: "next_tx c = Some ?tb" "tb_iface ?tb < MAX_IFACE" using tx_inv_queue(3)[OF inv] inv False by (auto simp: tx_inv_def)
    obtain c1 where c1: "on_dev (tb_iface ?tb) (\<lambda>d. d\<lparr>nd_tx_packets := nd_tx_packets d + 1,
        nd_tx_bytes := nd_tx_bytes d + word_of_nat (length (skb_data (tb_skb ?tb)))\<rparr>) c = Some c1" "tx_view c1 = tx_view c"
      using on_dev_view[OF inv q(2)] by blast
    then have "tx_inv acc c1" "dma_tx_in_progress c1 \<noteq> 0" using inv False tx_inv_view[of c1 c] by (simp_all add: tx_view_def)
    then obtain c2 where "free_sent c1 = Some c2" "tx_inv acc c2" using free_sent_inv by blast
    then show ?thesis using send_more_inv[of acc c2] False c1(1) by (simp add: intr_tx_complete_def q(1))
  qed
qed

lemma keeps_pkt_avail: "keeps acc (\<lambda>c. Some (intr_pkt_avail c))"
  by (rule keeps_some) (simp add: intr_pkt_avail_def Let_def)

lemma intr_inv:
  assumes "tx_inv acc c" "fits_buffer hw"
  shows "\<exists>r c'. nf2c_intr hw alloc c = Some (r, c') \<and> tx_inv acc c'"
proof -
  define int_mask where "int_mask = ioread32 hw CPCI_REG_INTERRUPT_MASK c"
  define status where "status = ioread32 hw CPCI_REG_INTERRUPT_STATUS (nf2_disable_irq c) AND NOT (int_mask AND NOT INT_PKT_AVAIL)"
  let ?step = "\<lambda>flag f c. if status AND flag \<noteq> 0 then f c else Some c"
  have k: "\<exists>c'. ?step flag f c = Some c' \<and> tx_inv acc c'" if "keeps acc f" "tx_inv acc c" for flag f c
    using keepsD[OF keeps_if[OF that(1)] that(2)] .
  have "tx_inv acc (nf2_disable_irq c)" using assms(1) by simp
  from k[OF keeps_queue_status this] obtain c1 where c1: "?step INT_DMA_QUEUE_STATUS_CHANGE (intr_queue_status hw) (nf2_disable_irq c) = Some c1" "tx_inv acc c1" by blast
  from k[OF keeps_rx_complete[OF assms(2)] c1(2)] obtain c2 where c2: "?step INT_DMA_RX_COMPLETE (intr_rx_complete hw alloc) c1 = Some c2" "tx_inv acc c2" by blast
  from k[OF keeps_tx_complete c2(2)] obtain c3 where c3: "?step INT_DMA_TX_COMPLETE intr_tx_complete c2 = Some c3" "tx_inv acc c3" by blast
  from k[OF keeps_phy c3(2)] obtain c4 where c4: "?step INT_PHY_INTERRUPT (intr_phy hw) c3 = Some c4" "tx_inv acc c4" by blast
  from k[OF keeps_pkt_avail c4(2)] obtain c5 where c5: "?step INT_PKT_AVAIL (\<lambda>c. Some (intr_pkt_avail c)) c4 = Some c5" "tx_inv acc c5" by blast
  from k[OF keeps_dma_error c5(2)] obtain c6 where c6: "?step INT_DMA_TRANSFER_ERROR (intr_dma_error hw) c5 = Some c6" "tx_inv acc c6" by blast
  from k[OF keeps_dma_error c6(2)] obtain c7 where c7: "?step INT_DMA_SETUP_ERROR (intr_dma_error hw) c6 = Some c7" "tx_inv acc c7" by blast
  from k[OF keeps_dma_error c7(2)] obtain c8 where c8: "?step INT_DMA_FATAL_ERROR (intr_dma_error hw) c7 = Some c8" "tx_inv acc c8" by blast
  have "nf2c_intr hw alloc c = Some (status \<noteq> 0, iowrite32 (intr_mask status int_mask) CPCI_REG_INTERRUPT_MASK c8)"
    unfolding nf2c_intr_def Let_def int_mask_def[symmetric]
    unfolding status_def[symmetric] c1(1) c2(1) c3(1) c4(1) c5(1) c6(1) c7(1) c8(1) Option.bind.bind_lunit ..
  with c8(2) show ?thesis by simp
qed

lemma tx_inv_len: "tx_inv acc c \<Longrightarrow> i < MAX_IFACE \<Longrightarrow> on_dev i f c = Some (c\<lparr>ndev := (ndev c)[i := f (ndev c ! i)]\<rparr>)"
  by (simp add: on_dev_def tx_inv_def)

lemma inv_ndev [simp]: "tx_inv acc (c\<lparr>ndev := (ndev c)[i := d]\<rparr>) = tx_inv acc c"
  by (rule tx_inv_view) (simp add: tx_view_def freed_def transferred_def egress_def)

lemma open_inv:
  assumes "tx_inv acc c" "i < MAX_IFACE"
  shows "\<exists>r c'. nf2c_open hw sig err i c = Some (r, c') \<and> tx_inv acc c'"
proof -
  define c1 where "c1 = c\<lparr>ndev := (ndev c)[i := (ndev c ! i)\<lparr>nd_carrier := False\<rparr>]\<rparr>"
  define c2 where "c2 = (if ifup c1 = 0 then nf2_hw_reset c1 else c1)"
  define c3 where "c3 = (if ifup c1 = 0 then nf2_enable_irq (c2\<lparr>irq_installed := True\<rparr>) else c2)"
  define c4 where "c4 = iowrite32 (push_bit i 1) CNET_REG_RESET (c3\<lparr>ifup := ifup c3 OR push_bit i 1\<rparr>)"
  define c5 where "c5 = iowrite32 (ioread32 hw CNET_REG_ENABLE c4 OR (push_bit i 0x1100 OR 2 OR 1)) CNET_REG_ENABLE c4"
  have inv: "tx_inv acc c1" "tx_inv acc c2" "tx_inv acc c5"
    using assms(1) by (simp_all add: c1_def c2_def c3_def c4_def c5_def)
  have "nf2c_open hw sig err i c = (if sig then Some (- 512, c) else if ifup c1 = 0 \<and> err \<noteq> 0 then Some (err, c2)
      else Option.bind (on_dev i (nd_stopped_update (\<lambda>_. False)) c5) (\<lambda>c. Some (0, c)))"
    unfolding nf2c_open_def tx_inv_len[OF assms] Option.bind.bind_lunit Let_def
    unfolding c1_def[symmetric] unfolding c2_def[symmetric] unfolding c3_def[symmetric] unfolding c4_def[symmetric] unfolding c5_def[symmetric] ..
  with inv assms show ?thesis by (simp add: tx_inv_len[OF inv(3) assms(2)])
qed

lemma release_inv:
  assumes inv: "tx_inv acc c" and i: "i < MAX_IFACE"
  shows "\<exists>r c'. nf2c_release hw sig i c = Some (r, c') \<and> tx_inv acc c' \<and>
    (\<not> sig \<and> ifup c AND NOT (push_bit i 1) = 0 \<longrightarrow> r = 0 \<and> ifup c' = 0 \<and> tx_queue c' = [] \<and> free_txbuffs_port c' = free_txbuffs_port c \<and> mapped_rx c' = mapped_rx c \<and> dma_rx_in_progress c' = 0)"
proof -
  define c1 where "c1 = c\<lparr>ndev := (ndev c)[i := (ndev c ! i)\<lparr>nd_carrier := False, nd_stopped := True\<rparr>]\<rparr>"
  define c2 where "c2 = iowrite32 (push_bit i 1) CNET_REG_RESET
    (iowrite32 (ioread32 hw CNET_REG_ENABLE c1 AND NOT (push_bit i 0x1100)) CNET_REG_ENABLE c1)"
  define c3 where "c3 = c2\<lparr>ifup := ifup c2 AND NOT (push_bit i 1)\<rparr>"
  define c4 where "c4 = nf2_hw_reset (c3\<lparr>irq_installed := False\<rparr>)"
  define fl where "fl = (if free_txbuffs c4 \<noteq> tx_pool_size c4
    then (if dma_tx_in_progress c4 \<noteq> 0 then do { _ \<leftarrow> next_tx c4; flush_tx (c4\<lparr>mapped_tx := None\<rparr>) } else flush_tx c4) else Some c4)"
  have inv4: "tx_inv acc c3" "tx_inv acc c4" using inv by (simp_all add: c1_def c2_def c3_def c4_def)
  have up: "ifup c3 = ifup c AND NOT (push_bit i 1)" "free_txbuffs_port c4 = free_txbuffs_port c" "mapped_rx c4 = mapped_rx c" "ifup c4 = ifup c3"
    by (simp_all add: c1_def c2_def c3_def c4_def nf2_hw_reset_def iowrite32_def Let_def)
  obtain c5 where c5: "fl = Some c5" "history 0 acc c5" "tx_ok c5" "tx_queue c5 = []" "free_txbuffs_port c5 = free_txbuffs_port c4"
      "ndev c5 = ndev c4" "pool_data c5 = pool_data c4" "mapped_tx c5 = None" "tx_pool_size c5 = tx_pool_size c4" "mapped_rx c5 = mapped_rx c4"
      "ifup c5 = ifup c4"
  proof (cases "tx_queue c4 = []")
    case True
    with inv4(2) have "fl = Some c4" "history 0 acc c4" "tx_ok c4" "mapped_tx c4 = None"
      using tx_inv_queue(1)[OF inv4(2)] by (auto simp: fl_def tx_inv_def)
    with True that show ?thesis by blast
  next
    case False
    let ?c = "c4\<lparr>mapped_tx := None\<rparr>"
    have "fl = flush_tx ?c"
    proof (cases "dma_tx_in_progress c4 = 0")
      case True
      then have "?c = c4" using inv4(2) by (auto simp: tx_inv_def)
      then show ?thesis using True False tx_inv_queue(1)[OF inv4(2)] by (simp add: fl_def)
    next
      case busy: False
      then show ?thesis using False tx_inv_queue(1,3)[OF inv4(2)] by (simp add: fl_def)
    qed
    moreover have "history (nat (dma_tx_in_progress c4)) acc ?c" "tx_ok ?c" "tx_queue ?c \<noteq> []"
      using inv4(2) False by (simp_all add: tx_inv_def history_def tx_ok_def tx_queue_def freed_def transferred_def egress_def)
    moreover have "nat (dma_tx_in_progress c4) \<le> 1" using tx_inv_queue(4)[OF inv4(2)] by auto
    ultimately show ?thesis using flush_tx_all[of "nat (dma_tx_in_progress c4)" acc ?c] that by auto
  qed
  have "nf2c_release hw sig i c = (if sig then Some (- 512, c) else if ifup c3 = 0
      then Some (0, c5\<lparr>dma_tx_in_progress := 0, dma_rx_in_progress := 0\<rparr>) else Some (0, c3))"
    unfolding nf2c_release_def tx_inv_len[OF assms] Option.bind.bind_lunit Let_def
    unfolding c1_def[symmetric] unfolding c2_def[symmetric] unfolding c3_def[symmetric] unfolding c4_def[symmetric]
    unfolding fl_def[symmetric] c5(1) Option.bind.bind_lunit ..
  moreover have "tx_inv acc (c5\<lparr>dma_tx_in_progress := 0, dma_rx_in_progress := 0\<rparr>)" "tx_queue (c5\<lparr>dma_tx_in_progress := 0, dma_rx_in_progress := 0\<rparr>) = []"
    using c5 inv4(2) by (simp_all add: tx_inv_def history_def tx_ok_def tx_queue_def freed_def transferred_def egress_def)
  ultimately show ?thesis using inv inv4 up c5(5,10,11) by simp
qed

lemma tx_keeps:
  assumes inv: "tx_inv acc c" and i: "i < MAX_IFACE"
  shows "\<exists>r c'. nf2c_tx skb i c = Some (r, c') \<and> (if r = 0 then tx_inv (acc @ [\<lparr>tb_skb = skb, tb_iface = i\<rparr>]) c' else tx_inv acc c') \<and>
    (r = 0 \<longleftrightarrow> 0 < free_txbuffs c)"
proof (cases "free_txbuffs c = 0")
  case True then show ?thesis using inv by (simp add: nf2c_tx_def)
next
  case False
  let ?tb = "\<lparr>tb_skb = skb, tb_iface = i\<rparr>" and ?acc = "acc @ [\<lparr>tb_skb = skb, tb_iface = i\<rparr>]"
  define c1 where "c1 = (put_tx ?tb c)\<lparr>free_txbuffs_port := (free_txbuffs_port c)[i := free_txbuffs_port c ! i - 1]\<rparr>"
  have "tx_inv ?acc (put_tx ?tb c)" using put_tx_inv[OF inv, of ?tb] False i by simp
  then have c1: "tx_inv ?acc c1" using inv
    by (simp add: c1_def tx_inv_def history_def tx_ok_def tx_queue_def freed_def transferred_def egress_def put_tx_def)
  have ap: "add_port i (- 1) (put_tx ?tb c) = Some c1" using inv i by (simp add: add_port_def c1_def tx_inv_def put_tx_def)
  define st where "st = (if free_txbuffs_port c1 ! i = 0 then on_dev i (nd_stopped_update (\<lambda>_. True)) c1 else Some c1)"
  obtain c2 where c2: "st = Some c2" "tx_inv ?acc c2"
    using c1 by (cases "free_txbuffs_port c1 ! i = 0") (simp_all add: st_def tx_inv_len[OF c1 i])
  obtain r c3 where c3: "nf2c_send c2 = Some (r, c3)" "tx_inv ?acc c3" using nf2c_send_inv[OF c2(2)] by blast
  have "wr_txbuff c < length (txbuffs c)" using nf2.okD[of c] inv by (simp add: tx_inv_def)
  then have "nf2c_tx skb i c = Some (0, c3)"
    using False c3(1) unfolding nf2c_tx_def ap Option.bind.bind_lunit st_def[symmetric] c2(1) by simp
  then show ?thesis using c3(2) False by simp
qed

lemma timeout_inv:
  assumes inv: "tx_inv acc c" and i: "i < MAX_IFACE"
  shows "\<exists>c'. nf2c_tx_timeout hw i c = Some c' \<and> tx_inv acc c'"
proof -
  define c1 where "c1 = c\<lparr>ndev := (ndev c)[i := (ndev c ! i)\<lparr>nd_tx_errors := nd_tx_errors (ndev c ! i) + 1\<rparr>]\<rparr>"
  define c2 where "c2 = iowrite32 (ioread32 hw CPCI_REG_INTERRUPT_MASK c1) CPCI_REG_INTERRUPT_MASK
    (iowrite32 (ioread32 hw CNET_REG_ENABLE c1) CNET_REG_ENABLE (nf2_hw_reset c1))"
  have "tx_inv acc c2" using inv by (simp add: c1_def c2_def)
  then obtain c3 where c3: "nf2c_clear_dma_flags c2 = Some c3" "tx_inv acc c3" using clear_dma_flags_inv by blast
  then obtain c4 where c4: "send_more c3 = Some c4" "tx_inv acc c4" using send_more_inv by blast
  have "nf2c_tx_timeout hw i c = on_dev i (nd_stopped_update (\<lambda>_. False)) c4"
    unfolding nf2c_tx_timeout_def tx_inv_len[OF assms] Option.bind.bind_lunit Let_def
    unfolding c1_def[symmetric] unfolding c2_def[symmetric] c3(1) c4(1) Option.bind.bind_lunit ..
  then show ?thesis using c4(2) by (simp add: tx_inv_len[OF c4(2) i])
qed

section \<open>Reachable states\<close>

text \<open>
  What happens to a loaded card, with the packets accepted on the way: callbacks, interrupts while the handler is installed, writes of
  registers by programs (not of those that start transfers), and transfers of the device into the packet buffer.
\<close>

inductive nf2_step :: "nf2_card_priv \<Rightarrow> txbuff list \<Rightarrow> nf2_card_priv \<Rightarrow> bool" where
  open_device: "i < MAX_IFACE \<Longrightarrow> nf2c_open hw sig err i c = Some (r, c') \<Longrightarrow> nf2_step c [] c'"
| close_device: "i < MAX_IFACE \<Longrightarrow> nf2c_release hw sig i c = Some (r, c') \<Longrightarrow> nf2_step c [] c'"
| accept: "i < MAX_IFACE \<Longrightarrow> nf2c_tx skb i c = Some (0, c') \<Longrightarrow> nf2_step c [\<lparr>tb_skb = skb, tb_iface = i\<rparr>] c'"
| refuse: "i < MAX_IFACE \<Longrightarrow> nf2c_tx skb i c = Some (1, c') \<Longrightarrow> nf2_step c [] c'"
| interrupt: "irq_installed c \<Longrightarrow> fits_buffer hw \<Longrightarrow> nf2c_intr hw alloc c = Some (r, c') \<Longrightarrow> nf2_step c [] c'"
| watchdog: "i < MAX_IFACE \<Longrightarrow> nf2c_tx_timeout hw i c = Some c' \<Longrightarrow> nf2_step c [] c'"
| program: "addr \<notin> {CPCI_REG_DMA_E_ADDR, CPCI_REG_DMA_E_SIZE, CPCI_REG_DMA_E_CTRL} \<Longrightarrow> nf2_step c [] (snd (nf2k_reg_write len addr v c))"
| transfer: "length d = MAX_DMA_LEN + 2 \<Longrightarrow> nf2_step c [] (c\<lparr>pool_data := d\<rparr>)"

inductive nf2_reach :: "txbuff list \<Rightarrow> nf2_card_priv \<Rightarrow> bool" where
  load: "0 < n \<Longrightarrow> n \<le> length junk \<Longrightarrow> MAX_DMA_LEN + 2 \<le> length data \<Longrightarrow> nf2_reach [] (nf2c_probe n junk data addr)"
| step: "nf2_reach acc c \<Longrightarrow> nf2_step c new c' \<Longrightarrow> nf2_reach (acc @ new) c'"

inductive_cases nf2_stepE: "nf2_step c new c'"

lemma probe_inv: "0 < n \<Longrightarrow> n \<le> length junk \<Longrightarrow> MAX_DMA_LEN + 2 \<le> length data \<Longrightarrow> tx_inv [] (nf2c_probe n junk data addr)"
  by (auto simp: tx_inv_def nf2c_probe_def tx_ok_def tx_queue_def ring_ok_def ring_queue_def history_def freed_def transferred_def egress_def intro: exI[of _ "[]"])

lemma step_inv: "nf2_step c new c' \<Longrightarrow> tx_inv acc c \<Longrightarrow> tx_inv (acc @ new) c'"
proof (induction rule: nf2_step.induct)
  case (open_device i hw sig err c r c')
  then show ?case using open_inv[of acc c i hw sig err] by auto
next
  case (close_device i hw sig c r c')
  then show ?case using release_inv[of acc c i hw sig] by auto
next
  case (accept i skb c c')
  then show ?case using tx_keeps[of acc c i skb] by auto
next
  case (refuse i skb c c')
  then show ?case using tx_keeps[of acc c i skb] by auto
next
  case (interrupt c hw alloc r c')
  then show ?case using intr_inv[of acc c hw alloc] by auto
next
  case (watchdog i hw c c')
  then show ?case using timeout_inv[of acc c i hw] by auto
next
  case (program addr c len v)
  then show ?case by (simp add: nf2k_reg_write_def)
next
  case (transfer d c)
  then have "tx_view (c\<lparr>pool_data := d\<rparr>) = tx_view c" by (simp add: tx_view_def tx_inv_def freed_def transferred_def egress_def)
  then show ?case using inv_view transfer(2) by fastforce
qed

lemma reach_inv: "nf2_reach acc c \<Longrightarrow> tx_inv acc c"
  by (induction rule: nf2_reach.induct) (auto intro: probe_inv step_inv)

text \<open>
  C19. The driver never leaves its arrays. In every state that a loaded card can reach, whatever the kernel, the programs and the device do, each
  callback returns: opening, closing, sending, the watchdog, and the interrupt handler if the device reports no packet longer than the buffer. A
  packet is refused exactly when all buffers are taken.
\<close>

theorem driver_never_faults:
  assumes "nf2_reach acc c" and "i < MAX_IFACE" and "fits_buffer hw"
  shows "nf2c_open hw sig err i c \<noteq> None \<and> nf2c_release hw sig i c \<noteq> None \<and> nf2c_tx_timeout hw i c \<noteq> None \<and> nf2c_intr hw alloc c \<noteq> None
    \<and> nf2c_remove c \<noteq> None
    \<and> (\<exists>r c'. nf2c_tx skb i c = Some (r, c') \<and> (r = 0 \<longleftrightarrow> length (tx_queue c) < tx_pool_size c))"
proof (intro conjI)
  have inv: "tx_inv acc c" using reach_inv[OF assms(1)] .
  show "nf2c_open hw sig err i c \<noteq> None" using open_inv[OF inv assms(2), of hw sig err] by auto
  show "nf2c_release hw sig i c \<noteq> None" using release_inv[OF inv assms(2), of hw sig] by auto
  show "nf2c_tx_timeout hw i c \<noteq> None" using timeout_inv[OF inv assms(2), of hw] by auto
  show "nf2c_intr hw alloc c \<noteq> None" using intr_inv[OF inv assms(3), of alloc] by auto
  show "nf2c_remove c \<noteq> None"
    using flush_tx_all[of "nat (dma_tx_in_progress c)" acc c] inv tx_inv_queue(4)[OF inv] by (auto simp: nf2c_remove_def tx_inv_def)
  have "length (tx_queue c) + free_txbuffs c = tx_pool_size c" using nf2.queue_length inv by (simp add: tx_inv_def)
  then show "\<exists>r c'. nf2c_tx skb i c = Some (r, c') \<and> (r = 0 \<longleftrightarrow> length (tx_queue c) < tx_pool_size c)"
    using tx_keeps[OF inv assms(2), of skb] by auto
qed

text \<open>
  C18. Packets leave in order. In every reachable state the packets that the driver accepted are those it freed, in the order in which they came,
  followed by those that wait in the ring, at most as many as it has buffers. The writes to the egress registers are the starts of transfers of accepted
  packets, in their order and none twice: of every packet that was freed after a transfer, perhaps of others that were freed when the
  card was closed, and, if a transfer is under way, of the first packet that waits, which is the one that is mapped for the device.
\<close>

theorem packets_in_order:
  assumes "nf2_reach acc c"
  shows "\<exists>gone started. acc = gone @ tx_queue c \<and> map tb_skb gone = freed c \<and> length (tx_queue c) \<le> tx_pool_size c
    \<and> egress c = concat (map start_writes (started @ (if dma_tx_in_progress c = 1 then [hd (tx_queue c)] else [])))
    \<and> subseq started gone \<and> subseq (transferred c) (map tb_skb started)
    \<and> (if dma_tx_in_progress c = 1
       then tx_queue c \<noteq> [] \<and> mapped_tx c = Some (skb_addr (tb_skb (hd (tx_queue c))), length (skb_data (tb_skb (hd (tx_queue c)))))
       else dma_tx_in_progress c = 0 \<and> mapped_tx c = None)"
proof -
  have inv: "tx_inv acc c" using reach_inv[OF assms] .
  then obtain gone started where h: "acc = gone @ tx_queue c" "map tb_skb gone = freed c"
      "egress c = concat (map start_writes (started @ take (nat (dma_tx_in_progress c)) (tx_queue c)))"
      "subseq started gone" "subseq (transferred c) (map tb_skb started)"
    by (auto simp: tx_inv_def history_def)
  have "length (tx_queue c) \<le> tx_pool_size c" using nf2.queue_length[of c] inv by (simp add: tx_inv_def)
  moreover have "take (nat (dma_tx_in_progress c)) (tx_queue c) = (if dma_tx_in_progress c = 1 then [hd (tx_queue c)] else [])"
    using inv by (cases "tx_queue c") (auto simp: tx_inv_def)
  ultimately show ?thesis using h inv by (intro exI[of _ gone] exI[of _ started]) (auto simp: tx_inv_def)
qed

text \<open>A card with eight buffers, up and with a queue that takes packets of the first port, before and after a packet is sent.\<close>

definition small_packet :: sk_buff where
  "small_packet = \<lparr>skb_addr = 0x5000, skb_data = replicate 64 7\<rparr>"

definition new_card :: nf2_card_priv where
  "new_card = nf2c_probe 8 (replicate 8 \<lparr>tb_skb = small_packet, tb_iface = 9\<rparr>) (replicate 2050 0) 0x9000"

definition idle_device :: device where
  "idle_device log r = 0"

definition ready_device :: device where
  "ready_device log r = (if r = CPCI_REG_INTERRUPT_STATUS then INT_DMA_QUEUE_STATUS_CHANGE else if r = CPCI_REG_DMA_QUEUE_STATUS then 1 else 0)"

definition open_card :: nf2_card_priv where
  "open_card = snd (the (nf2c_open idle_device False 0 0 new_card))"

definition ready_card :: nf2_card_priv where
  "ready_card = snd (the (nf2c_intr ready_device True open_card))"

definition sending_card :: nf2_card_priv where
  "sending_card = snd (the (nf2c_tx small_packet 0 ready_card))"

lemma new_card_reach: "nf2_reach [] new_card"
  unfolding new_card_def by (rule nf2_reach.load) simp_all

lemma open_card_reach: "nf2c_open idle_device False 0 0 new_card = Some (0, open_card)" "nf2_reach [] open_card"
proof -
  have up: "ifup new_card = 0" "length (ndev new_card) = 4" by (simp_all add: new_card_def nf2c_probe_def)
  show o: "nf2c_open idle_device False 0 0 new_card = Some (0, open_card)"
    unfolding open_card_def using open_inv[OF reach_inv[OF new_card_reach], of 0 idle_device False 0] up
    by (auto simp: nf2c_open_def on_dev_def Let_def split: bind_splits)
  show "nf2_reach [] open_card"
    using nf2_reach.step[OF new_card_reach nf2_step.open_device[OF _ o]] by simp
qed

lemma ready_card_reach: "\<exists>r. nf2c_intr ready_device True open_card = Some (r, ready_card)" "nf2_reach [] ready_card"
proof -
  have f: "fits_buffer ready_device" by (simp add: fits_buffer_def ready_device_def)
  show o: "\<exists>r. nf2c_intr ready_device True open_card = Some (r, ready_card)"
    unfolding ready_card_def using intr_inv[OF reach_inv[OF open_card_reach(2)] f, of True] by auto
  have "irq_installed open_card"
    by (simp add: open_card_def nf2c_open_def new_card_def nf2c_probe_def on_dev_def Let_def nf2_hw_reset_def nf2_enable_irq_def iowrite32_def)
  then show "nf2_reach [] ready_card"
    using o nf2_reach.step[OF open_card_reach(2) nf2_step.interrupt[OF _ f]] by fastforce
qed

lemma sending_card_reach:
  "nf2c_tx small_packet 0 ready_card = Some (0, sending_card)" "nf2_reach [\<lparr>tb_skb = small_packet, tb_iface = 0\<rparr>] sending_card"
proof -
  have "free_txbuffs ready_card = 8"
    by (simp add: ready_card_def open_card_def nf2c_open_def new_card_def nf2c_probe_def on_dev_def Let_def nf2_hw_reset_def nf2_enable_irq_def
        iowrite32_def nf2c_intr_def nf2_disable_irq_def ioread32_def ready_device_def idle_device_def intr_queue_status_def send_more_def)
  then show o: "nf2c_tx small_packet 0 ready_card = Some (0, sending_card)"
    unfolding sending_card_def using tx_keeps[OF reach_inv[OF ready_card_reach(2)], of 0 small_packet] by auto
  show "nf2_reach [\<lparr>tb_skb = small_packet, tb_iface = 0\<rparr>] sending_card"
    using nf2_reach.step[OF ready_card_reach(2) nf2_step.accept[OF _ o]] by simp
qed

theorem driver_never_faults_witness:
  "nf2c_intr ready_device True sending_card \<noteq> None \<and> nf2c_release ready_device False 0 sending_card \<noteq> None
    \<and> (\<exists>r c'. nf2c_tx small_packet 0 sending_card = Some (r, c') \<and> (r = 0 \<longleftrightarrow> length (tx_queue sending_card) < tx_pool_size sending_card))"
proof -
  have "fits_buffer ready_device" by (simp add: fits_buffer_def ready_device_def)
  from driver_never_faults[OF sending_card_reach(2) _ this, of 0 False 0 True small_packet] show ?thesis by simp
qed

theorem packets_in_order_witness:
  "\<exists>gone started. [\<lparr>tb_skb = small_packet, tb_iface = 0\<rparr>] = gone @ tx_queue sending_card \<and> subseq started gone
    \<and> egress sending_card = concat (map start_writes (started @ (if dma_tx_in_progress sending_card = 1 then [hd (tx_queue sending_card)] else [])))"
  using packets_in_order[OF sending_card_reach(2)] by blast

end
