(* ===== verification/Nf2_Receive.thy ===== *)
theory Nf2_Receive
  imports Nf2_Transmit
begin

text \<open>
  What the interrupt handler of the control card achieves: the end of one transfer starts the next, a packet that arrives reaches the right device, and
  two cases in which the driver does less than it should.
\<close>

section \<open>Single interrupts\<close>

lemmas one_flag = nf2c_intr_def intr_mask_def Let_def map_conv_bind_option comp_def

lemma intr_tx_only:
  assumes "ioread32 hw CPCI_REG_INTERRUPT_MASK c = 0" "ioread32 hw CPCI_REG_INTERRUPT_STATUS (nf2_disable_irq c) = INT_DMA_TX_COMPLETE"
  shows "nf2c_intr hw alloc c = map_option (\<lambda>c. (True, iowrite32 0 CPCI_REG_INTERRUPT_MASK c)) (intr_tx_complete (nf2_disable_irq c))"
  using assms by (simp add: one_flag)

lemma intr_queue_only:
  assumes "ioread32 hw CPCI_REG_INTERRUPT_MASK c = INT_PKT_AVAIL" "ioread32 hw CPCI_REG_INTERRUPT_STATUS (nf2_disable_irq c) = INT_DMA_QUEUE_STATUS_CHANGE"
  shows "nf2c_intr hw alloc c = map_option (\<lambda>c. (True, iowrite32 INT_PKT_AVAIL CPCI_REG_INTERRUPT_MASK c)) (intr_queue_status hw (nf2_disable_irq c))"
  using assms by (simp add: one_flag)

lemma intr_rx_only:
  assumes "ioread32 hw CPCI_REG_INTERRUPT_MASK c = INT_PKT_AVAIL" "ioread32 hw CPCI_REG_INTERRUPT_STATUS (nf2_disable_irq c) = INT_DMA_RX_COMPLETE"
  shows "nf2c_intr hw alloc c = map_option (\<lambda>c. (True, iowrite32 0 CPCI_REG_INTERRUPT_MASK c)) (intr_rx_complete hw alloc (nf2_disable_irq c))"
  using assms by (simp add: one_flag)

lemma intr_avail_only:
  assumes "ioread32 hw CPCI_REG_INTERRUPT_MASK c = 0" "ioread32 hw CPCI_REG_INTERRUPT_STATUS (nf2_disable_irq c) = INT_PKT_AVAIL"
  shows "nf2c_intr hw alloc c = Some (True, iowrite32 INT_PKT_AVAIL CPCI_REG_INTERRUPT_MASK (intr_pkt_avail (nf2_disable_irq c)))"
  using assms by (simp add: one_flag)

section \<open>The end of a transfer\<close>

lemma nf2c_send_start:
  assumes inv: "tx_inv acc c" and "dma_tx_in_progress c = 0" "tx_queue c = tb # q" "dma_can_wr_pkt c AND push_bit (tb_iface tb) 1 \<noteq> 0"
  shows "\<exists>c'. nf2c_send c = Some (0, c') \<and> tx_queue c' = tx_queue c \<and> dma_tx_in_progress c' = 1 \<and> egress c' = egress c @ start_writes tb \<and>
    kcalls c' = kcalls c \<and> ndev c' = ndev c"
proof -
  have "next_tx c = Some tb" "free_txbuffs c \<noteq> tx_pool_size c" using tx_inv_queue(1,3)[OF inv] assms(3) by auto
  then have "next_tx (c\<lparr>dma_tx_in_progress := 1\<rparr>) = Some tb" "free_txbuffs c \<noteq> tx_pool_size c" by (simp_all add: next_tx_def split: if_splits)
  then show ?thesis
    using assms(2,4) by (simp add: nf2c_send_def Let_def iowrite32_def tx_queue_def egress_def start_writes_def)
qed

lemma free_sent_stats:
  "free_sent c = Some c' \<Longrightarrow> nd_tx_packets (ndev c' ! j) = nd_tx_packets (ndev c ! j) \<and> nd_tx_bytes (ndev c' ! j) = nd_tx_bytes (ndev c ! j)"
  by (cases "next_tx c"; cases "j < length (ndev c)")
    (auto simp: free_sent_def Let_def add_port_def take_tx_def on_dev_def nth_list_update split: if_splits)

text \<open>
  C34. The end of a transfer starts the next one. When the device reports that the transfer of the first packet is complete and the port of the
  second can take it, the handler counts the packet and its bytes for the device it came from, frees it and starts the transfer of the second.
\<close>

theorem transfer_starts_next:
  assumes "nf2_reach acc c" and "dma_tx_in_progress c = 1" and "tx_queue c = tb # tb' # q"
    and "dma_can_wr_pkt c AND push_bit (tb_iface tb') 1 \<noteq> 0"
    and "ioread32 hw CPCI_REG_INTERRUPT_MASK c = 0" and "ioread32 hw CPCI_REG_INTERRUPT_STATUS (nf2_disable_irq c) = INT_DMA_TX_COMPLETE"
  shows "\<exists>c'. nf2c_intr hw alloc c = Some (True, c') \<and> tx_queue c' = tb' # q \<and> dma_tx_in_progress c' = 1
    \<and> egress c' = egress c @ start_writes tb' \<and> kcalls c' = kcalls c @ [Kfree_skb_irq (tb_skb tb)]
    \<and> nd_tx_packets (ndev c' ! tb_iface tb) = nd_tx_packets (ndev c ! tb_iface tb) + 1
    \<and> nd_tx_bytes (ndev c' ! tb_iface tb) = nd_tx_bytes (ndev c ! tb_iface tb) + word_of_nat (length (skb_data (tb_skb tb)))"
proof -
  let ?c = "nf2_disable_irq c"
  let ?count = "\<lambda>d. d\<lparr>nd_tx_packets := nd_tx_packets d + 1, nd_tx_bytes := nd_tx_bytes d + word_of_nat (length (skb_data (tb_skb tb)))\<rparr>"
  have inv: "tx_inv acc c" "tx_inv acc ?c" using reach_inv[OF assms(1)] by simp_all
  have q: "tx_queue ?c = tb # tb' # q" "dma_tx_in_progress ?c = 1" "ndev ?c = ndev c" "kcalls ?c = kcalls c" "egress ?c = egress c"
    "dma_can_wr_pkt ?c = dma_can_wr_pkt c"
    using assms(2,3) by (simp_all add: nf2_disable_irq_def iowrite32_def tx_queue_def egress_def)
  have i: "next_tx ?c = Some tb" "tb_iface tb < MAX_IFACE" using tx_inv_queue(3)[OF inv(2)] q(1) by simp_all
  define c1 where "c1 = ?c\<lparr>ndev := (ndev c)[tb_iface tb := ?count (ndev c ! tb_iface tb)]\<rparr>"
  have c1: "on_dev (tb_iface tb) ?count ?c = Some c1" using tx_inv_len[OF inv(2) i(2)] by (simp add: c1_def q(3))
  have inv1: "tx_inv acc c1" unfolding c1_def q(3)[symmetric] by (simp add: inv(1))
  have q1: "tx_queue c1 = tb # tb' # q" "dma_tx_in_progress c1 = 1" "kcalls c1 = kcalls c" "egress c1 = egress c" "dma_can_wr_pkt c1 = dma_can_wr_pkt c"
    using q by (simp_all add: c1_def tx_queue_def egress_def)
  obtain c2 where c2: "free_sent c1 = Some c2" "tx_inv acc c2" "tx_queue c2 = tb' # q" "dma_tx_in_progress c2 = 0"
      "kcalls c2 = kcalls c @ [Kfree_skb_irq (tb_skb tb)]" "dma_can_wr_pkt c2 = dma_can_wr_pkt c" "io c2 = io c1"
    using free_sent_inv[OF inv1] by (auto simp: q1)
  obtain c3 where c3: "nf2c_send c2 = Some (0, c3)" "tx_queue c3 = tb' # q" "dma_tx_in_progress c3 = 1" "egress c3 = egress c2 @ start_writes tb'"
      "kcalls c3 = kcalls c2" "ndev c3 = ndev c2"
    using nf2c_send_start[OF c2(2,4,3)] assms(4) c2(6) c2(3) by auto
  have more: "send_more c2 = Some c3" using c3(1) tx_inv_queue(1)[OF c2(2)] c2(3) by (simp add: send_more_def)
  have "intr_tx_complete ?c = Some c3"
    unfolding intr_tx_complete_def i(1) Option.bind.bind_lunit c1 c2(1) more using q(2) by simp
  moreover have "egress c2 = egress c" using c2(7) q1(4) by (simp add: egress_def)
  moreover have "nd_tx_packets (ndev c1 ! tb_iface tb) = nd_tx_packets (ndev c ! tb_iface tb) + 1"
    "nd_tx_bytes (ndev c1 ! tb_iface tb) = nd_tx_bytes (ndev c ! tb_iface tb) + word_of_nat (length (skb_data (tb_skb tb)))"
    using inv(1) i(2) by (simp_all add: c1_def tx_inv_def)
  ultimately show ?thesis
    using c3 c2(5) free_sent_stats[OF c2(1), of "tb_iface tb"]
    by (simp add: intr_tx_only[OF assms(5,6)]) (simp add: iowrite32_def tx_queue_def egress_def)
qed

section \<open>A packet that arrives\<close>

text \<open>The mask register reads what was written to it last.\<close>

definition mask_follows :: "device \<Rightarrow> bool" where
  "mask_follows hw \<longleftrightarrow> (\<forall>log v. hw (log @ [(CPCI_REG_INTERRUPT_MASK, v)]) CPCI_REG_INTERRUPT_MASK = v)"

text \<open>
  C35. A packet that arrives reaches its device. On the report of a packet the handler maps the buffer, starts the transfer into it and masks further
  reports; when the device has filled the buffer and reports the end of the transfer, with a length that fits, the kernel gets exactly
  the bytes that the device wrote, for the network device whose number the control register has, the packet and its bytes are counted, and
  reports are enabled again.
\<close>

theorem packet_received:
  assumes "nf2_reach acc c" and "dma_rx_in_progress c = 0" and "hw (io c) CPCI_REG_INTERRUPT_MASK = 0"
    and "\<And>log. hw log CPCI_REG_INTERRUPT_STATUS = INT_PKT_AVAIL"
    and "mask_follows hw'" and "\<And>log. hw' log CPCI_REG_INTERRUPT_STATUS = INT_DMA_RX_COMPLETE"
    and "\<And>log. hw' log CPCI_REG_DMA_I_SIZE = n" and "unat n \<le> MAX_DMA_LEN + 2"
    and "\<And>log. hw' log CPCI_REG_DMA_I_CTRL AND 0x300 = push_bit 8 (word_of_nat i)" and "i < MAX_IFACE" and "length d = MAX_DMA_LEN + 2"
  shows "\<exists>c1 c2. nf2c_intr hw alloc c = Some (True, c1) \<and> mapped_rx c1 = Some (pool_addr c) \<and> dma_rx_in_progress c1 = 1
    \<and> io c1 = io c @ [(CPCI_REG_INTERRUPT_MASK, 0xFFFFFFFF), (CPCI_REG_DMA_I_ADDR, pool_addr c), (CPCI_REG_DMA_I_CTRL, 1), (CPCI_REG_INTERRUPT_MASK, INT_PKT_AVAIL)]
    \<and> nf2c_intr hw' True (c1\<lparr>pool_data := d\<rparr>) = Some (True, c2) \<and> mapped_rx c2 = None \<and> dma_rx_in_progress c2 = 0
    \<and> kcalls c2 = kcalls c @ [Netif_rx i (take (unat n) d)] \<and> last (io c2) = (CPCI_REG_INTERRUPT_MASK, 0)
    \<and> nd_rx_packets (ndev c2 ! i) = nd_rx_packets (ndev c ! i) + 1 \<and> nd_rx_bytes (ndev c2 ! i) = nd_rx_bytes (ndev c ! i) + n"
proof -
  define c1 where "c1 = iowrite32 INT_PKT_AVAIL CPCI_REG_INTERRUPT_MASK (intr_pkt_avail (nf2_disable_irq c))"
  have i1: "nf2c_intr hw alloc c = Some (True, c1)"
    unfolding c1_def by (rule intr_avail_only) (simp_all add: ioread32_def assms(3,4))
  have f1: "mapped_rx c1 = Some (pool_addr c)" "dma_rx_in_progress c1 = 1" "ndev c1 = ndev c" "kcalls c1 = kcalls c"
    "io c1 = io c @ [(CPCI_REG_INTERRUPT_MASK, 0xFFFFFFFF), (CPCI_REG_DMA_I_ADDR, pool_addr c), (CPCI_REG_DMA_I_CTRL, 1), (CPCI_REG_INTERRUPT_MASK, INT_PKT_AVAIL)]"
    using assms(2) by (simp_all add: c1_def intr_pkt_avail_def nf2_disable_irq_def iowrite32_def Let_def)
  define c2 where "c2 = c1\<lparr>pool_data := d\<rparr>"
  have "io c2 = (io c @ [(CPCI_REG_INTERRUPT_MASK, 0xFFFFFFFF), (CPCI_REG_DMA_I_ADDR, pool_addr c), (CPCI_REG_DMA_I_CTRL, 1)]) @ [(CPCI_REG_INTERRUPT_MASK, INT_PKT_AVAIL)]"
    by (simp add: c2_def f1(5))
  then have m: "ioread32 hw' CPCI_REG_INTERRUPT_MASK c2 = INT_PKT_AVAIL" using assms(5) unfolding ioread32_def mask_follows_def by metis
  have s: "ioread32 hw' CPCI_REG_INTERRUPT_STATUS (nf2_disable_irq c2) = INT_DMA_RX_COMPLETE" by (simp add: ioread32_def assms(6))
  have dev: "unat (drop_bit 8 (push_bit 8 (word_of_nat i) :: u32)) = i"
  proof -
    have "i = 0 \<or> i = 1 \<or> i = 2 \<or> i = 3" using assms(10) by linarith
    then show ?thesis by auto
  qed
  have nd: "length (ndev c) = MAX_IFACE" using reach_inv[OF assms(1)] by (simp add: tx_inv_def)
  define c3 where "c3 = (nf2_disable_irq c2)\<lparr>mapped_rx := None, pool_len := n, dma_rx_in_progress := 0, kcalls := kcalls c @ [Netif_rx i (take (unat n) d)],
    ndev := (ndev c)[i := (ndev c ! i)\<lparr>nd_rx_packets := nd_rx_packets (ndev c ! i) + 1, nd_rx_bytes := nd_rx_bytes (ndev c ! i) + n\<rparr>]\<rparr>"
  have "intr_rx_complete hw' True (nf2_disable_irq c2) = Some c3"
    using assms(8,10,11) f1 nd
    by (simp add: intr_rx_complete_def Let_def ioread32_def assms(7,9) dev nf2c_rx_def c2_def nf2_disable_irq_def iowrite32_def mem_ld_def on_dev_def c3_def)
  then have "nf2c_intr hw' True c2 = Some (True, iowrite32 0 CPCI_REG_INTERRUPT_MASK c3)" by (simp add: intr_rx_only[OF m s])
  then show ?thesis
    using i1 f1 assms(10) nd unfolding c2_def
    by (intro exI[of _ c1] exI[of _ "iowrite32 0 CPCI_REG_INTERRUPT_MASK c3"]) (simp add: c3_def iowrite32_def)
qed

section \<open>What the driver misses\<close>

text \<open>
  A change of the queue status during a reception is not used. The handler guards the attempt to send with the counter of receptions. So when the queue of a
  port has room again while a packet is being received, the packets that wait stay where they are, also when the reception ends; without
  a reception the same interrupt starts the transfer.
\<close>

theorem status_change_stalls:
  assumes "nf2_reach acc c" and "dma_tx_in_progress c = 0" and "tx_queue c = tb # q"
    and "\<And>log. hw log CPCI_REG_INTERRUPT_MASK = INT_PKT_AVAIL" and "\<And>log. hw log CPCI_REG_INTERRUPT_STATUS = INT_DMA_QUEUE_STATUS_CHANGE"
    and "\<And>log. hw log CPCI_REG_DMA_QUEUE_STATUS = ready" and "(ready AND 0xffff) AND push_bit (tb_iface tb) 1 \<noteq> 0"
    and "\<And>log. hw' log CPCI_REG_INTERRUPT_MASK = INT_PKT_AVAIL" and "\<And>log. hw' log CPCI_REG_INTERRUPT_STATUS = INT_DMA_RX_COMPLETE" and "fits_buffer hw'"
  shows "if dma_rx_in_progress c = 0 then \<exists>c1. nf2c_intr hw alloc c = Some (True, c1) \<and> dma_tx_in_progress c1 = 1 \<and> egress c1 = egress c @ start_writes tb
    else \<exists>c1 c2. nf2c_intr hw alloc c = Some (True, c1) \<and> dma_can_wr_pkt c1 = ready AND 0xffff
      \<and> nf2c_intr hw' alloc' c1 = Some (True, c2) \<and> dma_tx_in_progress c2 = 0 \<and> tx_queue c2 = tb # q \<and> egress c2 = egress c"
proof -
  let ?c = "nf2_disable_irq c"
  define c0 where "c0 = ?c\<lparr>dma_can_wr_pkt := ready AND 0xffff, dma_rx_in_progress := dma_rx_in_progress c + 1\<rparr>"
  have inv: "tx_inv acc c" "tx_inv acc c0" using reach_inv[OF assms(1)] by (simp_all add: c0_def)
  have q0: "tx_queue c0 = tb # q" "dma_tx_in_progress c0 = 0" "egress c0 = egress c"
    using assms(2,3) by (simp_all add: c0_def nf2_disable_irq_def iowrite32_def tx_queue_def egress_def)
  have st: "intr_queue_status hw ?c = do {
      c \<leftarrow> (if dma_rx_in_progress c = 0 then send_more c0 else Some c0);
      Some (c\<lparr>dma_rx_in_progress := dma_rx_in_progress c - 1\<rparr>) }"
    by (simp add: intr_queue_status_def Let_def ioread32_def assms(6) c0_def nf2_disable_irq_def iowrite32_def)
  have i1: "nf2c_intr hw alloc c = map_option (\<lambda>c. (True, iowrite32 INT_PKT_AVAIL CPCI_REG_INTERRUPT_MASK c)) (intr_queue_status hw ?c)"
    by (rule intr_queue_only) (simp_all add: ioread32_def assms(4,5))
  show ?thesis
  proof (cases "dma_rx_in_progress c = 0")
    case True
    obtain c1 where "nf2c_send c0 = Some (0, c1)" "dma_tx_in_progress c1 = 1" "egress c1 = egress c @ start_writes tb"
      using nf2c_send_start[OF inv(2) q0(2,1)] assms(7) q0(3) by (auto simp: c0_def)
    moreover have "free_txbuffs c0 \<noteq> tx_pool_size c0" using tx_inv_queue(1)[OF inv(2)] q0(1) by simp
    ultimately show ?thesis using True by (simp add: i1 st send_more_def) (simp add: iowrite32_def egress_def)
  next
    case False
    define c1 where "c1 = iowrite32 INT_PKT_AVAIL CPCI_REG_INTERRUPT_MASK (c0\<lparr>dma_rx_in_progress := dma_rx_in_progress c0 - 1\<rparr>)"
    have c1: "nf2c_intr hw alloc c = Some (True, c1)" using False by (simp add: i1 st c1_def)
    have q1: "tx_queue c1 = tb # q" "dma_tx_in_progress c1 = 0" "egress c1 = egress c" "dma_can_wr_pkt c1 = ready AND 0xffff"
      using q0 by (simp_all add: c1_def iowrite32_def tx_queue_def egress_def c0_def)
    have inv1: "tx_inv acc (nf2_disable_irq c1)" using inv(2) by (simp add: c1_def)
    have "nf2c_intr hw' alloc' c1 = map_option (\<lambda>c. (True, iowrite32 0 CPCI_REG_INTERRUPT_MASK c)) (intr_rx_complete hw' alloc' (nf2_disable_irq c1))"
      by (rule intr_rx_only) (simp_all add: ioread32_def assms(8,9))
    moreover obtain c2 where "intr_rx_complete hw' alloc' (nf2_disable_irq c1) = Some c2" "tx_view c2 = tx_view (nf2_disable_irq c1)"
      using rx_complete_view[OF inv1 assms(10)] by blast
    moreover have "tx_view (iowrite32 0 CPCI_REG_INTERRUPT_MASK c2) = tx_view c1" using calculation(3) by simp
    ultimately show ?thesis
      using False c1 q1 by (simp add: tx_view_def tx_queue_def)
  qed
qed

text \<open>
  Closing the last device loses buffers. The packets that wait are freed and the ring is empty, but the counters of the free buffers of the ports stay as they were, less
  one for each of these packets; a buffer that was mapped for a reception stays mapped.
\<close>

theorem close_loses_buffers:
  assumes "nf2_reach acc c" and "i < MAX_IFACE" and "ifup c = push_bit i 1"
  shows "\<exists>c'. nf2c_release hw False i c = Some (0, c') \<and> ifup c' = 0 \<and> free_txbuffs c' = tx_pool_size c' \<and> tx_queue c' = []
    \<and> freed c' = freed c @ map tb_skb (tx_queue c) \<and> free_txbuffs_port c' = free_txbuffs_port c
    \<and> dma_rx_in_progress c' = 0 \<and> mapped_rx c' = mapped_rx c"
proof -
  have inv: "tx_inv acc c" using reach_inv[OF assms(1)] .
  have "ifup c AND NOT (push_bit i 1) = 0" using assms(3) by simp
  then obtain c' where c': "nf2c_release hw False i c = Some (0, c')" "tx_inv acc c'" "tx_queue c' = []" "free_txbuffs_port c' = free_txbuffs_port c"
      "mapped_rx c' = mapped_rx c" "dma_rx_in_progress c' = 0" "ifup c' = 0"
    using release_inv[OF inv assms(2), of hw False] by auto
  have "map tb_skb acc = freed c @ map tb_skb (tx_queue c)" "map tb_skb acc = freed c'"
    using inv c'(2,3) by (auto simp: tx_inv_def history_def)
  moreover have "free_txbuffs c' = tx_pool_size c'" using tx_inv_queue(1)[OF c'(2)] c'(3) by simp
  ultimately show ?thesis using c' by auto
qed

section \<open>A card at work\<close>

text \<open>The card of the examples before with a second packet in its queue, and devices that report one event.\<close>

definition waiting_card :: nf2_card_priv where
  "waiting_card = snd (the (nf2c_tx small_packet 0 sending_card))"

definition reports :: "u32 \<Rightarrow> u32 \<Rightarrow> device" where
  "reports m status log r =
     (if r = CPCI_REG_INTERRUPT_STATUS then status
      else if r = CPCI_REG_INTERRUPT_MASK then (if log = [] then m else if fst (last log) = CPCI_REG_INTERRUPT_MASK then snd (last log) else m)
      else if r = CPCI_REG_DMA_I_SIZE then 60 else if r = CPCI_REG_DMA_I_CTRL then 0x200 else if r = CPCI_REG_DMA_QUEUE_STATUS then 1 else 0)"

lemmas card_defs = new_card_def nf2c_probe_def nf2c_init_def nf2c_open_def on_dev_def Let_def nf2_hw_reset_def
  nf2_enable_irq_def iowrite32_def nf2c_intr_def nf2_disable_irq_def ioread32_def ready_device_def idle_device_def intr_queue_status_def send_more_def
  nf2c_tx_def put_tx_def add_port_def nf2c_send_def next_tx_def intr_mask_def

abbreviation (input) blank_slots :: "txbuff list" where "blank_slots \<equiv> replicate 8 \<lparr>tb_skb = small_packet, tb_iface = 9\<rparr>"
abbreviation (input) first_slot :: txbuff where "first_slot \<equiv> \<lparr>tb_skb = small_packet, tb_iface = 0\<rparr>"

lemma open_card_fields:
  "tx_pool_size open_card = 8" "txbuffs open_card = blank_slots" "wr_txbuff open_card = 0" "rd_txbuff open_card = 0" "free_txbuffs open_card = 8"
  "dma_tx_in_progress open_card = 0" "dma_rx_in_progress open_card = 0" "ifup open_card = 1" "free_txbuffs_port open_card = replicate 4 2" "length (ndev open_card) = 4"
  "mapped_rx open_card = None"
  by (simp_all add: open_card_def card_defs)

lemma ready_card_fields [simp]:
  "tx_pool_size ready_card = 8" "txbuffs ready_card = blank_slots" "wr_txbuff ready_card = 0" "rd_txbuff ready_card = 0" "free_txbuffs ready_card = 8"
  "dma_tx_in_progress ready_card = 0" "dma_rx_in_progress ready_card = 0" "dma_can_wr_pkt ready_card = 1" "ifup ready_card = 1"
  "free_txbuffs_port ready_card = replicate 4 2" "length (ndev ready_card) = 4" "mapped_rx ready_card = None"
  by (simp_all add: ready_card_def open_card_fields nf2c_intr_def Let_def nf2_disable_irq_def iowrite32_def ioread32_def ready_device_def intr_queue_status_def send_more_def)

lemma sending_card_fields [simp]:
  "tx_pool_size sending_card = 8" "txbuffs sending_card = blank_slots[0 := first_slot]" "wr_txbuff sending_card = 1" "rd_txbuff sending_card = 0"
  "free_txbuffs sending_card = 7" "dma_tx_in_progress sending_card = 1" "dma_rx_in_progress sending_card = 0" "dma_can_wr_pkt sending_card = 1"
  "ifup sending_card = 1" "free_txbuffs_port sending_card = (replicate 4 2)[0 := 1]" "mapped_rx sending_card = None" "length (ndev sending_card) = 4"
  by (simp_all add: sending_card_def ready_card_fields nf2c_tx_def Let_def iowrite32_def put_tx_def add_port_def nf2c_send_def next_tx_def)

lemma waiting_card_fields [simp]:
  "tx_pool_size waiting_card = 8" "txbuffs waiting_card = blank_slots[0 := first_slot, 1 := first_slot]" "rd_txbuff waiting_card = 0"
  "free_txbuffs waiting_card = 6" "dma_tx_in_progress waiting_card = 1" "dma_can_wr_pkt waiting_card = 1"
  by (simp_all add: waiting_card_def nf2c_tx_def Let_def iowrite32_def put_tx_def add_port_def nf2c_send_def next_tx_def on_dev_def)

lemma waiting_card_queue [simp]: "tx_queue waiting_card = [first_slot, first_slot]" "tx_queue sending_card = [first_slot]"
  by (simp_all add: tx_queue_def ring_queue_def upt_rec)

lemma waiting_card_reach: "nf2_reach [first_slot, first_slot] waiting_card"
proof -
  have o: "nf2c_tx small_packet 0 sending_card = Some (0, waiting_card)"
    unfolding waiting_card_def using tx_keeps[OF reach_inv[OF sending_card_reach(2)], of 0 small_packet] by auto
  show ?thesis using nf2_reach.step[OF sending_card_reach(2) nf2_step.accept[OF _ o]] by simp
qed

lemma ready_card_mask: "last (io ready_card) = (CPCI_REG_INTERRUPT_MASK, 0)" "io ready_card \<noteq> []"
  by (simp_all add: ready_card_def open_card_fields nf2c_intr_def Let_def nf2_disable_irq_def iowrite32_def ioread32_def ready_device_def
      intr_queue_status_def send_more_def intr_mask_def open_card_def card_defs)

lemma reports_follows: "mask_follows (reports m status)"
  by (simp add: mask_follows_def reports_def)

lemma reports_fits: "fits_buffer (reports m status)"
  by (simp add: fits_buffer_def reports_def)

theorem transfer_starts_next_witness:
  "\<exists>c'. nf2c_intr (\<lambda>log r. if r = CPCI_REG_INTERRUPT_STATUS then INT_DMA_TX_COMPLETE else 0) True waiting_card = Some (True, c')
    \<and> tx_queue c' = [first_slot] \<and> egress c' = egress waiting_card @ start_writes first_slot"
  using transfer_starts_next[OF waiting_card_reach, of first_slot first_slot "[]" "\<lambda>log r. if r = CPCI_REG_INTERRUPT_STATUS then INT_DMA_TX_COMPLETE else 0" True]
  by (auto simp: ioread32_def)

theorem packet_received_witness:
  "\<exists>c1 c2. nf2c_intr (reports 0 INT_PKT_AVAIL) True ready_card = Some (True, c1)
    \<and> nf2c_intr (reports 0 INT_DMA_RX_COMPLETE) True (c1\<lparr>pool_data := replicate 2050 5\<rparr>) = Some (True, c2)
    \<and> kcalls c2 = kcalls ready_card @ [Netif_rx 2 (replicate 60 5)]"
  using packet_received[OF ready_card_reach(2), of "reports 0 INT_PKT_AVAIL" "reports 0 INT_DMA_RX_COMPLETE" 60 2 "replicate 2050 5" True]
    ready_card_mask by (auto simp: reports_follows) (auto simp: reports_def)

theorem close_loses_buffers_witness:
  "\<exists>c'. nf2c_release idle_device False 0 sending_card = Some (0, c') \<and> free_txbuffs c' = tx_pool_size c' \<and> free_txbuffs_port c' = [1, 2, 2, 2]"
proof -
  have "(replicate 4 2)[0 := 1] = [1, 2, 2, 2 :: int]" by code_simp
  then show ?thesis using close_loses_buffers[OF sending_card_reach(2), of 0 idle_device] by auto
qed

text \<open>A card with a packet that its queue cannot take, while another packet is being received.\<close>

definition full_card :: nf2_card_priv where
  "full_card = snd (the (nf2c_tx small_packet 0 open_card))"

definition receiving_card :: nf2_card_priv where
  "receiving_card = snd (the (nf2c_intr (\<lambda>log r. if r = CPCI_REG_INTERRUPT_STATUS then INT_PKT_AVAIL else 0) True full_card))"

lemma open_card_blocked: "dma_can_wr_pkt open_card = 0" "irq_installed open_card"
  by (simp_all add: open_card_def card_defs)

lemma full_card_fields [simp]:
  "tx_pool_size full_card = 8" "txbuffs full_card = blank_slots[0 := first_slot]" "rd_txbuff full_card = 0" "free_txbuffs full_card = 7"
  "dma_tx_in_progress full_card = 0" "dma_rx_in_progress full_card = 0" "irq_installed full_card"
  by (simp_all add: full_card_def open_card_fields open_card_blocked nf2c_tx_def Let_def iowrite32_def put_tx_def add_port_def nf2c_send_def next_tx_def)

lemma receiving_card_fields [simp]:
  "tx_queue receiving_card = [first_slot]" "dma_tx_in_progress receiving_card = 0" "dma_rx_in_progress receiving_card = 1"
  by (simp_all add: receiving_card_def nf2c_intr_def Let_def nf2_disable_irq_def iowrite32_def ioread32_def intr_pkt_avail_def tx_queue_def ring_queue_def)

lemma receiving_card_reach: "nf2_reach [first_slot] receiving_card"
proof -
  let ?hw = "\<lambda>log r. if r = CPCI_REG_INTERRUPT_STATUS then INT_PKT_AVAIL else 0"
  have "nf2c_tx small_packet 0 open_card = Some (0, full_card)"
    unfolding full_card_def using tx_keeps[OF reach_inv[OF open_card_reach(2)], of 0 small_packet] by (auto simp: open_card_fields)
  then have r: "nf2_reach [first_slot] full_card"
    using nf2_reach.step[OF open_card_reach(2) nf2_step.accept[of 0 small_packet open_card full_card]] by simp
  have f: "fits_buffer ?hw" by (simp add: fits_buffer_def)
  obtain b where "nf2c_intr ?hw True full_card = Some (b, receiving_card)"
    unfolding receiving_card_def using intr_inv[OF reach_inv[OF r] f, of True] by auto
  then show ?thesis using nf2_reach.step[OF r nf2_step.interrupt[OF _ f]] by fastforce
qed

theorem status_change_stalls_witness:
  "\<exists>c1 c2. nf2c_intr (\<lambda>log r. if r = CPCI_REG_INTERRUPT_STATUS then INT_DMA_QUEUE_STATUS_CHANGE else if r = CPCI_REG_INTERRUPT_MASK then INT_PKT_AVAIL else 1)
      True receiving_card = Some (True, c1) \<and> dma_can_wr_pkt c1 = 1
    \<and> nf2c_intr (\<lambda>log r. if r = CPCI_REG_INTERRUPT_STATUS then INT_DMA_RX_COMPLETE else if r = CPCI_REG_INTERRUPT_MASK then INT_PKT_AVAIL else 60)
      True c1 = Some (True, c2) \<and> dma_tx_in_progress c2 = 0 \<and> tx_queue c2 = [first_slot]"
  using status_change_stalls[OF receiving_card_reach, of first_slot "[]"
      "\<lambda>log r. if r = CPCI_REG_INTERRUPT_STATUS then INT_DMA_QUEUE_STATUS_CHANGE else if r = CPCI_REG_INTERRUPT_MASK then INT_PKT_AVAIL else 1" 1
      "\<lambda>log r. if r = CPCI_REG_INTERRUPT_STATUS then INT_DMA_RX_COMPLETE else if r = CPCI_REG_INTERRUPT_MASK then INT_PKT_AVAIL else 60" True True]
  by (fastforce simp: fits_buffer_def)

end
