(* ===== verification/Packet_Io.thy ===== *)
theory Packet_Io
  imports Ip Output Nf2_Receive
begin

text \<open>
  The packets between the router and the card: the raw sockets of \<^verbatim>\<open>or_netfpga.c\<close>, one for each port, which \<open>init_rawsockets\<close> binds to the network
  devices of the driver, and the counters of the ports with their statistics. What \<open>select\<close> and \<open>read\<close> return for input is an argument; for output the kernel is a parameter, a function of the state of
  the world, with the documented behaviour of packet sockets as the hypothesis \<open>packet_sockets\<close>. The dump of packets to a file is not modelled.
  \<open>double\<close> values are of any type, and the two operations on them, the rate and its text, are parameters.
\<close>

section \<open>Sockets\<close>

definition internal_names :: "string list" where
  "internal_names = [''eth0'', ''eth1'', ''eth2'', ''eth3'']"

text \<open>The names of the network devices. \<open>base\<close> is the number that \<open>atoi\<close> finds in the name of the interface given at the start.\<close>

definition init_rawsockets :: "int \<Rightarrow> string list" where
  "init_rawsockets base = map (\<lambda>i. ''nf2c'' @ show_int (base + int i)) [0..<4]"

section \<open>Input\<close>

text \<open>A turn of the loop, with what \<open>read\<close> returns on each of the four sockets that are ready. A failed \<open>read\<close> makes the length \<open>-1\<close>, that is the largest number.\<close>

datatype raw_read = Not_ready | Frame "byte list" | Read_error

definition netfpga_input_round :: "raw_read list \<Rightarrow> router_state \<Rightarrow> router_state outcome" where
  "netfpga_input_round reads = run_all (\<lambda>(i, r) rs.
     case r of Not_ready \<Rightarrow> Some rs
       | Frame p \<Rightarrow> process_packet rs (take 16384 p) (internal_names ! i)
       | Read_error \<Rightarrow> None) (enumerate 0 (take 4 reads))"

section \<open>Output\<close>







section \<open>Counters\<close>

datatype mac_reg = RX_NUM_PKTS_STORED nat | TX_NUM_PKTS_SENT nat | RX_NUM_BYTES_PUSHED nat | TX_NUM_BYTES_PUSHED nat

definition get_rx_queue_num_pkts_received :: "(mac_reg \<Rightarrow> u32) \<Rightarrow> nat \<Rightarrow> u32" where
  "get_rx_queue_num_pkts_received ctrs port = (if port < 4 then ctrs (RX_NUM_PKTS_STORED port) else 0)"

definition get_tx_queue_num_pkts_sent :: "(mac_reg \<Rightarrow> u32) \<Rightarrow> nat \<Rightarrow> u32" where
  "get_tx_queue_num_pkts_sent ctrs port = (if port < 4 then ctrs (TX_NUM_PKTS_SENT port) else 0)"

definition get_rx_queue_num_bytes_received :: "(mac_reg \<Rightarrow> u32) \<Rightarrow> nat \<Rightarrow> u32" where
  "get_rx_queue_num_bytes_received ctrs port = (if port < 4 then ctrs (RX_NUM_BYTES_PUSHED port) else 0)"

definition get_tx_queue_num_bytes_sent :: "(mac_reg \<Rightarrow> u32) \<Rightarrow> nat \<Rightarrow> u32" where
  "get_tx_queue_num_bytes_sent ctrs port = (if port < 4 then ctrs (TX_NUM_BYTES_PUSHED port) else 0)"

definition port_counters :: "(mac_reg \<Rightarrow> u32) \<Rightarrow> nat \<Rightarrow> u32 \<times> u32 \<times> u32 \<times> u32" where
  "port_counters ctrs i =
     (get_rx_queue_num_pkts_received ctrs i, get_tx_queue_num_pkts_sent ctrs i,
      get_rx_queue_num_bytes_received ctrs i, get_tx_queue_num_bytes_sent ctrs i)"

record 'd stats =
  stats_last_time :: "int \<times> int"
  stats_last :: "(u32 \<times> u32 \<times> u32 \<times> u32) list"
  stats_avg :: "('d \<times> 'd) list"

text \<open>The time between two readings of the clock, in microseconds.\<close>

definition time_diff :: "int \<times> int \<Rightarrow> int \<times> int \<Rightarrow> int" where
  "time_diff now prev =
     (if fst now = fst prev then snd now - snd prev
      else (fst now - fst prev - 1) * 1000000 + ((1000000 - snd prev) + snd now))"

definition port_rates :: "(u32 \<Rightarrow> int \<Rightarrow> 'd) \<Rightarrow> int \<Rightarrow> u32 \<times> u32 \<times> u32 \<times> u32 \<Rightarrow> u32 \<times> u32 \<times> u32 \<times> u32 \<Rightarrow> 'd \<times> 'd" where
  "port_rates rate t old new =
     (case (old, new) of ((rx_p, tx_p, rx_b, tx_b), (rx_packets, tx_packets, rx_bytes, tx_bytes)) \<Rightarrow>
        (rate ((rx_packets - rx_p) + (tx_packets - tx_p)) t,
         rate (((rx_bytes - rx_b) + (tx_bytes - tx_b)) div 1000) t))"

text \<open>A turn of \<open>netfpga_stats\<close>. The time of the last reading is stored for the first port already, after the difference was taken.\<close>

definition netfpga_stats_round :: "(u32 \<Rightarrow> int \<Rightarrow> 'd) \<Rightarrow> (mac_reg \<Rightarrow> u32) \<Rightarrow> int \<times> int \<Rightarrow> 'd stats \<Rightarrow> 'd stats" where
  "netfpga_stats_round rate ctrs now st =
     (let t = time_diff now (stats_last_time st)
      in \<lparr>stats_last_time = now,
          stats_last = map (port_counters ctrs) [0..<8],
          stats_avg = map (\<lambda>i. port_rates rate t (stats_last st ! i) (port_counters ctrs i)) [0..<8]\<rparr>)"

text \<open>The text of the statistics; \<open>show\<close> is the conversion \<open>%.2f\<close>.\<close>

definition stats_line :: "('d \<Rightarrow> string) \<Rightarrow> 'd stats \<Rightarrow> nat \<Rightarrow> string" where
  "stats_line show_d st i =
     (let port = (\<lambda>name k. pad_right 4 name @ '' '' @ pad_left 12 (show_d (fst (stats_avg st ! k))) @ '' PPS '' @
                           pad_left 12 (show_d (snd (stats_avg st ! k))) @ '' kB/s'')
      in snprintf 81 (port (''eth'' @ show_nat i) i @ '' '' @ port (''cpu'' @ show_nat i) (i + 4) @ [LF]))"

definition sprint_hw_stats :: "('d \<Rightarrow> string) \<Rightarrow> 'd stats \<Rightarrow> string outcome" where
  "sprint_hw_stats show_d st = run_all (\<lambda>i buf. COPY_STRING (4 * 81 + 1) (stats_line show_d st i) buf) [0..<4] []"

section \<open>From the router to the card\<close>












text \<open>
  C37. The statistics count every packet once. Whatever the counters were at the last turn, and although they wrap around, the rates of a port are those of the numbers of packets and of
  thousands of bytes by which its counters advanced, if these were less than \<open>2\<^sup>3\<^sup>2\<close>, over the time between the two turns; the counters and the time
  are kept for the next turn.
\<close>

theorem stats_exact:
  assumes "i < 4" and "stats_last st ! i = (a, b, r, s)"
    and "ctrs (RX_NUM_PKTS_STORED i) = a + word_of_nat da" and "ctrs (TX_NUM_PKTS_SENT i) = b + word_of_nat db" and "da + db < 2 ^ 32"
    and "ctrs (RX_NUM_BYTES_PUSHED i) = r + word_of_nat dr" and "ctrs (TX_NUM_BYTES_PUSHED i) = s + word_of_nat ds" and "dr + ds < 2 ^ 32"
    and "t = (1000000 * fst now + snd now) - (1000000 * fst (stats_last_time st) + snd (stats_last_time st))"
  shows "stats_avg (netfpga_stats_round rate ctrs now st) ! i = (rate (word_of_nat (da + db)) t, rate (word_of_nat ((dr + ds) div 1000)) t)
    \<and> stats_last (netfpga_stats_round rate ctrs now st) ! i = port_counters ctrs i
    \<and> stats_last_time (netfpga_stats_round rate ctrs now st) = now"
proof -
  have t: "time_diff now (stats_last_time st) = t" using assms(9) by (simp add: time_diff_def)
  have "(word_of_nat (dr + ds) :: u32) div 1000 = word_of_nat ((dr + ds) div 1000)"
  proof (rule word_unat_eq_iff[THEN iffD2])
    have u: "unat (word_of_nat (dr + ds) :: u32) = dr + ds" using assms(8) by (simp only: unat_of_nat) simp
    have "unat (word_of_nat ((dr + ds) div 1000) :: u32) = (dr + ds) div 1000" using assms(8) by (simp only: unat_of_nat) simp
    then show "unat ((word_of_nat (dr + ds) :: u32) div 1000) = unat (word_of_nat ((dr + ds) div 1000) :: u32)"
      unfolding unat_div u by simp
  qed
  then show ?thesis
    using assms(1-4,6,7)
    by (simp add: netfpga_stats_round_def Let_def t port_rates_def port_counters_def get_rx_queue_num_pkts_received_def
        get_tx_queue_num_pkts_sent_def get_rx_queue_num_bytes_received_def get_tx_queue_num_bytes_sent_def algebra_simps)
qed

lemma stats_text_fits: "\<exists>text'. sprint_hw_stats show_d st = Some text' \<and> length text' \<le> 320"
proof -
  have len: "length (stats_line show_d st i) \<le> 80" for i by (simp add: stats_line_def Let_def snprintf_def)
  have four: "[0..<4] = [0, 1, 2, 3 :: nat]" by (simp add: upt_rec)
  show ?thesis using len[of 0] len[of 1] len[of 2] len[of 3] by (simp add: sprint_hw_stats_def four COPY_STRING_def)
qed

section \<open>From the card to the router\<close>

text \<open>A packet that the driver hands to the kernel for the device of a port is read from the socket of that port and processed under the port's name.\<close>

lemma delivered_packet_processed:
  assumes "i < 4" and "length p \<le> 16384"
  shows "netfpga_input_round ((replicate 4 Not_ready)[i := Frame p]) rs = process_packet rs p (internal_names ! i)"
proof -
  have "i = 0 \<or> i = 1 \<or> i = 2 \<or> i = 3" using assms(1) by linarith
  moreover have "replicate 4 Not_ready = [Not_ready, Not_ready, Not_ready, Not_ready]" by code_simp
  ultimately show ?thesis
    using assms(2) by (auto simp: netfpga_input_round_def enumerate_eq_zip upt_rec numeral_2_eq_2 numeral_3_eq_3 split: bind_splits)
qed

lemma read_error_faults: "netfpga_input_round (Read_error # reads) rs = None"
  by (simp add: netfpga_input_round_def)

section \<open>Examples\<close>







definition first_stats :: "nat stats" where
  "first_stats = \<lparr>stats_last_time = (9, 600000), stats_last = replicate 8 (0xFFFFFFFE, 7, 0, 0), stats_avg = []\<rparr>"

theorem stats_exact_witness:
  "stats_avg (netfpga_stats_round (\<lambda>n t. unat n * 1000000 div nat t)
      (\<lambda>r. case r of RX_NUM_PKTS_STORED _ \<Rightarrow> 3 | TX_NUM_PKTS_SENT _ \<Rightarrow> 10 | RX_NUM_BYTES_PUSHED _ \<Rightarrow> 4000 | TX_NUM_BYTES_PUSHED _ \<Rightarrow> 2500) (10, 100000) first_stats) ! 2 = (16, 12)"
  using stats_exact[of 2 first_stats "0xFFFFFFFE" 7 0 0
      "\<lambda>r. case r of RX_NUM_PKTS_STORED _ \<Rightarrow> 3 | TX_NUM_PKTS_SENT _ \<Rightarrow> 10 | RX_NUM_BYTES_PUSHED _ \<Rightarrow> 4000 | TX_NUM_BYTES_PUSHED _ \<Rightarrow> 2500"
      5 3 4000 2500 500000 "(10, 100000)" "\<lambda>n t. unat n * 1000000 div nat t"]
  by (simp add: first_stats_def)

end
