(* ===== verification/Nf2_Probe.thy ===== *)
theory Nf2_Probe
  imports Nf2_Transmit
begin

text \<open>
  Loading and unloading of the driver (\<open>nf2_probe\<close> and \<open>nf2_remove\<close> of \<^verbatim>\<open>nf2main.c\<close>, \<open>nf2c_probe\<close> and \<open>nf2c_remove\<close> of \<^verbatim>\<open>nf2_control.c\<close>) as far as
  resources of the kernel go: how often each has been taken and not given back. Every request may fail. The packets that \<open>nf2c_remove\<close> frees are those of the ring of
  the card.
\<close>

datatype pci_resource = Pci_enabled | Dma_mask | Mem_region | Card_memory | Drvdata | Io_mapping | Rx_pool | Tx_buffers | Net_device nat | Registered nat

type_synonym taken = "pci_resource \<Rightarrow> int"

definition take_res :: "pci_resource \<Rightarrow> taken \<Rightarrow> taken" where
  "take_res r s = s(r := s r + 1)"

definition give_res :: "pci_resource \<Rightarrow> taken \<Rightarrow> taken" where
  "give_res r s = s(r := s r - 1)"

abbreviation (input) ENODEV :: int where "ENODEV \<equiv> 19"
abbreviation (input) ENOMEM :: int where "ENOMEM \<equiv> 12"

definition nf2c_create_pool :: "(pci_resource \<Rightarrow> bool) \<Rightarrow> taken \<Rightarrow> int \<times> taken" where
  "nf2c_create_pool fails s = (if fails Rx_pool then (- ENOMEM, s) else (0, take_res Rx_pool s))"

definition nf2c_destroy_pool :: "taken \<Rightarrow> taken" where
  "nf2c_destroy_pool s = give_res Rx_pool s"

text \<open>The loop over the network devices stops at the first that cannot be allocated; the result is the number of devices allocated.\<close>

fun alloc_devices :: "(pci_resource \<Rightarrow> bool) \<Rightarrow> nat list \<Rightarrow> nat list \<Rightarrow> taken \<Rightarrow> bool \<times> nat list \<times> taken" where
  "alloc_devices fails [] devs s = (True, devs, s)"
| "alloc_devices fails (i # more') devs s =
     (if fails (Net_device i) then (False, devs, s) else alloc_devices fails more' (devs @ [i]) (take_res (Net_device i) s))"

definition free_devices :: "nat list \<Rightarrow> taken \<Rightarrow> taken" where
  "free_devices devs s = fold (\<lambda>i. give_res (Net_device i)) devs s"

text \<open>A device that cannot be registered is reported in the log of the kernel, and the loop goes on.\<close>

definition register_devices :: "(pci_resource \<Rightarrow> bool) \<Rightarrow> nat list \<Rightarrow> taken \<Rightarrow> taken" where
  "register_devices fails devs s = fold (\<lambda>i s. if fails (Registered i) then s else take_res (Registered i) s) devs s"

definition nf2c_probe_resources :: "(pci_resource \<Rightarrow> bool) \<Rightarrow> taken \<Rightarrow> int \<times> taken" where
  "nf2c_probe_resources fails s =
     (case nf2c_create_pool fails s of (err, s) \<Rightarrow>
        if err \<noteq> 0 then (err, s)
        else if fails Tx_buffers then (- ENOMEM, nf2c_destroy_pool s)
        else case alloc_devices fails [0..<MAX_IFACE] [] (take_res Tx_buffers s) of (ok, devs, s) \<Rightarrow>
          if ok then (0, register_devices fails devs s) else (- ENOMEM, nf2c_destroy_pool (give_res Tx_buffers (free_devices devs s))))"

definition nf2_probe :: "byte \<Rightarrow> (pci_resource \<Rightarrow> bool) \<Rightarrow> taken \<Rightarrow> int \<times> taken" where
  "nf2_probe revision fails s =
     (let err_out_none = give_res Pci_enabled;
          err_out_free_mem_region = (\<lambda>s. err_out_none (give_res Mem_region s));
          err_out_free_card = (\<lambda>s. err_out_free_mem_region (give_res Card_memory (give_res Drvdata s)));
          err_out_iounmap = (\<lambda>s. err_out_free_card (give_res Io_mapping s))
      in if fails Pci_enabled then (- ENODEV, err_out_none s)
         else let s = take_res Pci_enabled s in
         if revision \<noteq> 0 then (- ENODEV, s)
         else if fails Dma_mask then (- ENODEV, err_out_none s)
         else if fails Mem_region then (- ENODEV, err_out_none s)
         else let s = take_res Mem_region s in
         if fails Card_memory then (- ENOMEM, err_out_free_mem_region s)
         else let s = take_res Drvdata (take_res Card_memory s) in
         if fails Io_mapping then (- ENODEV, err_out_free_card s)
         else case nf2c_probe_resources fails (take_res Io_mapping s) of (ret, s) \<Rightarrow>
           if ret < 0 then (ret, err_out_iounmap s) else (ret, s))"

text \<open>
  \<open>unregister_netdev\<close> first has a device closed that is up; that is a callback of its own (\<open>nf2c_release\<close>), and \<open>c\<close> is the card after these. It is called for
  every device, whether or not it could be registered.
\<close>

definition nf2c_remove_resources :: "nf2_card_priv \<Rightarrow> taken \<Rightarrow> (nf2_card_priv \<times> taken) outcome" where
  "nf2c_remove_resources c s = do {
     let s = fold (\<lambda>i s. give_res (Net_device i) (give_res (Registered i) s)) [0..<MAX_IFACE] s;
     c \<leftarrow> nf2c_remove c;
     Some (c, nf2c_destroy_pool (give_res Tx_buffers s)) }"

definition nf2_remove :: "nf2_card_priv \<Rightarrow> taken \<Rightarrow> (nf2_card_priv \<times> taken) outcome" where
  "nf2_remove c s = do {
     (c, s) \<leftarrow> nf2c_remove_resources c s;
     Some (c, give_res Pci_enabled (give_res Mem_region (give_res Drvdata (give_res Card_memory (give_res Io_mapping s))))) }"

section \<open>Configuration of a device\<close>

abbreviation (input) EBUSY :: int where "EBUSY \<equiv> 16"
abbreviation (input) EADDRNOTAVAIL :: int where "EADDRNOTAVAIL \<equiv> 99"

definition nf2c_config :: "bool \<Rightarrow> nat \<times> nat \<Rightarrow> nat \<times> nat \<Rightarrow> int" where
  "nf2c_config running dev new =
     (if running then - EBUSY
      else if fst new \<noteq> fst dev then - EOPNOTSUPP
      else if snd new \<noteq> snd dev then - EOPNOTSUPP
      else 0)"

text \<open>\<open>is_valid_ether_addr\<close> of the kernel: not the zero address and not a multicast address.\<close>

definition is_valid_ether_addr :: "byte list \<Rightarrow> bool" where
  "is_valid_ether_addr a \<longleftrightarrow> \<not> bit (hd a) 0 \<and> a \<noteq> replicate 6 0"

definition nf2c_set_mac_address :: "byte list \<Rightarrow> byte list \<Rightarrow> int \<times> byte list" where
  "nf2c_set_mac_address addr dev_addr = (if \<not> is_valid_ether_addr addr then (- EADDRNOTAVAIL, dev_addr) else (0, addr))"

section \<open>Nothing is lost\<close>

lemma give_take_commute: "give_res r (take_res q s) = take_res q (give_res r s)"
  by (simp add: give_res_def take_res_def fun_eq_iff)

lemma give_take_same [simp]: "give_res r (take_res r s) = s"
  by (simp add: give_res_def take_res_def)

lemmas res_simps = nf2c_create_pool_def nf2c_destroy_pool_def free_devices_def register_devices_def upt_rec give_res_def take_res_def Let_def

lemma probe_resources_cases:
  "nf2c_probe_resources fails s =
     (if fails Rx_pool \<or> fails Tx_buffers \<or> list_ex (\<lambda>i. fails (Net_device i)) [0..<MAX_IFACE] then (- ENOMEM, s)
      else (0, register_devices fails [0..<MAX_IFACE] (fold (\<lambda>i. take_res (Net_device i)) [0..<MAX_IFACE] (take_res Tx_buffers (take_res Rx_pool s)))))"
  by (simp add: nf2c_probe_resources_def res_simps fun_eq_iff)

text \<open>The requests whose failure makes loading fail.\<close>

fun vital :: "pci_resource \<Rightarrow> bool" where
  "vital (Registered i) = False"
| "vital Drvdata = False"
| "vital (Net_device i) = (i < MAX_IFACE)"
| "vital _ = True"

text \<open>What a successful load takes, and what unloading then gives back too often.\<close>

fun loaded :: "(pci_resource \<Rightarrow> bool) \<Rightarrow> pci_resource \<Rightarrow> int" where
  "loaded fails Dma_mask = 0"
| "loaded fails (Net_device i) = (if i < MAX_IFACE then 1 else 0)"
| "loaded fails (Registered i) = (if i < MAX_IFACE \<and> \<not> fails (Registered i) then 1 else 0)"
| "loaded fails _ = 1"

fun overdrawn :: "(pci_resource \<Rightarrow> bool) \<Rightarrow> pci_resource \<Rightarrow> int" where
  "overdrawn fails (Registered i) = (if i < MAX_IFACE \<and> fails (Registered i) then 1 else 0)"
| "overdrawn fails _ = 0"

lemma no_vital_fails:
  "(\<forall>r. vital r \<longrightarrow> \<not> fails r) \<longleftrightarrow> \<not> (fails Pci_enabled \<or> fails Dma_mask \<or> fails Mem_region \<or> fails Card_memory \<or> fails Io_mapping \<or>
     fails Rx_pool \<or> fails Tx_buffers \<or> list_ex (\<lambda>i. fails (Net_device i)) [0..<MAX_IFACE])"
proof -
  have "(\<forall>r. vital r \<longrightarrow> \<not> fails r) \<longleftrightarrow> \<not> fails Pci_enabled \<and> \<not> fails Dma_mask \<and> \<not> fails Mem_region \<and> \<not> fails Card_memory \<and> \<not> fails Io_mapping \<and>
     \<not> fails Rx_pool \<and> \<not> fails Tx_buffers \<and> (\<forall>i<MAX_IFACE. \<not> fails (Net_device i))" (is "?l \<longleftrightarrow> ?r")
  proof
    assume ?r
    then have "vital r \<Longrightarrow> \<not> fails r" for r by (cases r) auto
    then show ?l by blast
  qed force
  then show ?thesis by (auto simp: list_ex_iff)
qed

lemma probe_ok:
  assumes "revision = 0" and "\<forall>r. vital r \<longrightarrow> \<not> fails r"
  shows "\<exists>s'. nf2_probe revision fails s = (0, s') \<and> (\<forall>r. s' r = s r + loaded fails r)"
proof -
  define t where "t = register_devices fails [0..<MAX_IFACE] (fold (\<lambda>i. take_res (Net_device i)) [0..<MAX_IFACE] (take_res Tx_buffers (take_res Rx_pool
    (take_res Io_mapping (take_res Drvdata (take_res Card_memory (take_res Mem_region (take_res Pci_enabled s))))))))"
  have "nf2_probe revision fails s = (0, t)"
    using assms unfolding no_vital_fails nf2_probe_def Let_def probe_resources_cases t_def by simp
  moreover have "t r = s r + loaded fails r" for r
    by (cases r) (auto simp: t_def register_devices_def take_res_def upt_rec)
  ultimately show ?thesis by blast
qed

lemma probe_fails:
  assumes "revision \<noteq> 0 \<or> \<not> (\<forall>r. vital r \<longrightarrow> \<not> fails r)"
  shows "\<exists>ret. ret < 0 \<and> nf2_probe revision fails s =
    (ret, if fails Pci_enabled then give_res Pci_enabled s else if revision \<noteq> 0 then take_res Pci_enabled s else s)"
proof -
  let ?lost = "fails Rx_pool \<or> fails Tx_buffers \<or> list_ex (\<lambda>i. fails (Net_device i)) [0..<MAX_IFACE]"
  consider "fails Pci_enabled" | "\<not> fails Pci_enabled" "revision \<noteq> 0"
    | "\<not> fails Pci_enabled" "revision = 0" "fails Dma_mask \<or> fails Mem_region \<or> fails Card_memory \<or> fails Io_mapping \<or> ?lost"
    using assms unfolding no_vital_fails by blast
  then show ?thesis
  proof cases
    case 3
    then show ?thesis unfolding nf2_probe_def Let_def probe_resources_cases
      by (cases ?lost; simp only: if_True if_False prod.case) (auto simp: give_take_commute)
  qed (simp_all add: nf2_probe_def Let_def)
qed

lemma unload_flush:
  assumes "nf2_reach acc c"
  shows "\<exists>c'. nf2c_remove c = Some c' \<and> freed c' = map tb_skb acc"
proof (cases "free_txbuffs c = tx_pool_size c")
  case True
  with reach_inv[OF assms] tx_inv_queue(1)[OF reach_inv[OF assms]] show ?thesis by (auto simp: nf2c_remove_def tx_inv_def history_def)
next
  case False
  note inv = reach_inv[OF assms]
  have "tx_queue c \<noteq> []" "nat (dma_tx_in_progress c) \<le> 1" using False tx_inv_queue(1,4)[OF inv] by auto
  with flush_tx_all[of "nat (dma_tx_in_progress c)" acc c] inv obtain c' where "flush_tx c = Some c'" "history 0 acc c'" "tx_queue c' = []"
    by (auto simp: tx_inv_def)
  with False show ?thesis by (auto simp: nf2c_remove_def history_def)
qed

lemma remove_frees:
  assumes "nf2_reach acc c"
  shows "\<exists>c' t. nf2_remove c s = Some (c', t) \<and> freed c' = map tb_skb acc \<and>
    (\<forall>r. t r = s r - (case r of Dma_mask \<Rightarrow> 0 | Net_device i \<Rightarrow> if i < MAX_IFACE then 1 else 0 | Registered i \<Rightarrow> if i < MAX_IFACE then 1 else 0 | _ \<Rightarrow> 1))"
proof -
  obtain c' where c': "nf2c_remove c = Some c'" "freed c' = map tb_skb acc"
    using unload_flush[OF assms] by blast
  show ?thesis
    by (auto simp: nf2_remove_def nf2c_remove_resources_def c' nf2c_destroy_pool_def give_res_def upt_rec split: pci_resource.split)
qed

text \<open>
  C36. Loading takes everything or nothing. \<open>nf2_probe\<close> succeeds exactly if the card has the known revision and no request fails but, possibly, the registration of network devices; then every resource has been
  taken once, but for the devices that could not be registered. Unloading then, in any state that the driver has reached, gives back every resource taken, frees the packets still waiting, so that every packet
  accepted has been freed in its order, but also unregisters the devices that were never registered. If \<open>nf2_probe\<close> fails, wherever it does, it has given back what it took, with two exceptions: a card of another revision stays enabled, and a device
  that could not be enabled is disabled nevertheless.
\<close>

theorem probe_all_or_nothing:
  assumes "nf2_reach acc c"
  shows "case nf2_probe revision fails s of (ret, s') \<Rightarrow>
     (ret = 0 \<longleftrightarrow> revision = 0 \<and> (\<forall>r. vital r \<longrightarrow> \<not> fails r)) \<and>
     (if ret = 0 then (\<forall>r. s' r = s r + loaded fails r) \<and>
        (\<exists>c' t. nf2_remove c s' = Some (c', t) \<and> freed c' = map tb_skb acc \<and> (\<forall>r. t r = s r - overdrawn fails r))
      else ret < 0 \<and> s' = (if fails Pci_enabled then give_res Pci_enabled s else if revision \<noteq> 0 then take_res Pci_enabled s else s))"
proof (cases "revision = 0 \<and> (\<forall>r. vital r \<longrightarrow> \<not> fails r)")
  case True
  then obtain s' where s': "nf2_probe revision fails s = (0, s')" "s' r = s r + loaded fails r" for r using probe_ok by blast
  obtain c' t where t: "nf2_remove c s' = Some (c', t)" "freed c' = map tb_skb acc"
    "t r = s' r - (case r of Dma_mask \<Rightarrow> 0 | Net_device i \<Rightarrow> if i < MAX_IFACE then 1 else 0 | Registered i \<Rightarrow> if i < MAX_IFACE then 1 else 0 | _ \<Rightarrow> 1)" for r
    using remove_frees[OF assms, of s'] by blast
  have "t r = s r - overdrawn fails r" for r by (cases r) (simp_all add: t(3) s'(2))
  with s' t(1,2) True show ?thesis by auto
next
  case False
  with probe_fails[of revision fails s] show ?thesis by auto
qed

text \<open>All requests succeed, but for the registration of the third device.\<close>

theorem probe_all_or_nothing_witness:
  "\<exists>s' c' t. nf2_probe 0 (\<lambda>r. r = Registered 2) (\<lambda>_. 0) = (0, s') \<and> s' (Registered 1) = 1 \<and> s' (Registered 2) = 0 \<and>
     nf2_remove sending_card s' = Some (c', t) \<and> t (Registered 1) = 0 \<and> t (Registered 2) = - 1"
proof -
  have "\<forall>r. vital r \<longrightarrow> \<not> r = Registered 2" by auto
  with probe_all_or_nothing[OF sending_card_reach(2), of 0 "\<lambda>r. r = Registered 2" "\<lambda>_. 0"] show ?thesis
    by (auto split: prod.splits)
qed

end
