(* ===== verification/Device_Info.thy ===== *)
theory Device_Info
  imports Headers Cstring
begin

text \<open>
  What the design on a card says about itself (\<^verbatim>\<open>lib/C/common/nf2util_proxy_common.c\<close>): its version, its name and the version of the CPCI it was built
  for, and the check of a program that the right design is loaded. The registers are a function; the global variables of the file are a record, as \<open>nf2_read_info\<close> leaves them.
\<close>

section \<open>Reading\<close>

record dev_info =
  cpci_version :: u32
  cpci_revision :: u32
  virtex_programmed :: bool
  nf2_dev_id_module_version :: u32
  nf2device_id :: u32
  nf2_version :: u32
  nf2_cpci_version :: u32
  nf2_cpci_revision :: u32
  nf2_proj_name_v1 :: string
  nf2_proj_dir :: string
  nf2_proj_name :: string
  nf2_proj_desc :: string

text \<open>
  A string is in consecutive registers, its first character in the most significant byte. Its last byte is overwritten by a zero; bytes
  of a last word that is not whole are not read.
\<close>

definition be_bytes :: "u32 \<Rightarrow> byte list" where
  "be_bytes w = enc32 (ntohl w)"

definition readStr :: "(nat \<Rightarrow> u32) \<Rightarrow> nat \<Rightarrow> nat \<Rightarrow> string" where
  "readStr rd regStart len =
     map char_at (takeWhile (\<lambda>b. b \<noteq> 0) (butlast (concat (map (\<lambda>i. be_bytes (rd (regStart + i * 4))) [0..<len div 4]))))"

definition isVirtexProgrammed :: "(nat \<Rightarrow> u32) \<Rightarrow> bool" where
  "isVirtexProgrammed rd \<longleftrightarrow> rd 0x104 AND 0x100 \<noteq> 0"

definition md5_good_v1 :: "(nat \<Rightarrow> u32) \<Rightarrow> bool" where
  "md5_good_v1 rd \<longleftrightarrow> map (\<lambda>i. rd (0x400000 + i * 4)) [0..<4] = [0x4071736d, 0x8a603d2b, 0x4d55f629, 0x89a73c95]"

definition md5_good_v2 :: "(nat \<Rightarrow> u32) \<Rightarrow> bool" where
  "md5_good_v2 rd \<longleftrightarrow> map (\<lambda>i. rd (0x400000 + i * 4)) [0..<4] = [0x5e461ffe, 0x439725c9, 0x279a22a1, 0x855f6c53]"

definition nf2_read_info :: "(nat \<Rightarrow> u32) \<Rightarrow> dev_info" where
  "nf2_read_info rd =
     (let cpci_id = rd 0;
          info = \<lparr>cpci_version = cpci_id AND 0xffffff, cpci_revision = drop_bit 24 cpci_id, virtex_programmed = isVirtexProgrammed rd,
                  nf2_dev_id_module_version = - 1, nf2device_id = - 1, nf2_version = - 1, nf2_cpci_version = - 1, nf2_cpci_revision = - 1,
                  nf2_proj_name_v1 = [], nf2_proj_dir = [], nf2_proj_name = [], nf2_proj_desc = []\<rparr>;
          info = (if md5_good_v1 rd \<or> md5_good_v2 rd
                  then info\<lparr>nf2device_id := rd 0x400010, nf2_version := rd 0x400014,
                            nf2_cpci_version := rd 0x400018 AND 0xffffff, nf2_cpci_revision := drop_bit 24 (rd 0x400018)\<rparr> else info);
          info = (if md5_good_v1 rd then info\<lparr>nf2_dev_id_module_version := 1, nf2_proj_name_v1 := readStr rd 0x40001c 100\<rparr> else info)
      in if md5_good_v2 rd
         then info\<lparr>nf2_dev_id_module_version := 2, nf2_proj_dir := readStr rd 0x40001c 64,
                   nf2_proj_name := readStr rd 0x40005c 64, nf2_proj_desc := readStr rd 0x40009c 100\<rparr>
         else info)"

section \<open>Answers\<close>

abbreviation (input) PROJ_UNKNOWN :: string where "PROJ_UNKNOWN \<equiv> ''Unknown''"

definition getDeviceMajor :: "dev_info \<Rightarrow> u32" where
  "getDeviceMajor info = (if nf2_dev_id_module_version info > 1 then drop_bit 16 (nf2_version info) AND 0xff else nf2_version info)"

definition getDeviceMinor :: "dev_info \<Rightarrow> u32" where
  "getDeviceMinor info = (if nf2_dev_id_module_version info > 1 then drop_bit 8 (nf2_version info) AND 0xff else 0)"

definition getDeviceRevision :: "dev_info \<Rightarrow> u32" where
  "getDeviceRevision info = (if nf2_dev_id_module_version info > 1 then drop_bit 0 (nf2_version info) AND 0xff else 0)"

definition getProjDir :: "dev_info \<Rightarrow> string" where
  "getProjDir info = (if nf2_dev_id_module_version info = 2 then nf2_proj_dir info else PROJ_UNKNOWN)"

definition getProjName :: "dev_info \<Rightarrow> string" where
  "getProjName info =
     (if nf2_dev_id_module_version info = 2 then nf2_proj_name info
      else if nf2_dev_id_module_version info = 1 then nf2_proj_name_v1 info else PROJ_UNKNOWN)"

definition getProjDesc :: "dev_info \<Rightarrow> string" where
  "getProjDesc info = (if nf2_dev_id_module_version info = 2 then nf2_proj_desc info else PROJ_UNKNOWN)"

definition show_signed :: "u32 \<Rightarrow> string" where
  "show_signed w = show_int (sint w)"

definition device_version_str :: "dev_info \<Rightarrow> string" where
  "device_version_str info =
     (let title = ''Device (Virtex) Information'' @ [LF] @ ''---------------------------'' @ [LF];
          cpci = ''Built against CPCI version: '' @ show_signed (nf2_cpci_version info) @ '' (rev '' @ show_signed (nf2_cpci_revision info) @ '')'' @ [LF]
      in if virtex_programmed info then
           (if nf2_dev_id_module_version info \<noteq> - 1 then
              (if nf2_dev_id_module_version info = 2 then
                 title @ ''Project directory: '' @ getProjDir info @ [LF] @ ''Project name: '' @ getProjName info @ [LF] @
                 ''Project description: '' @ getProjDesc info @ [LF, LF] @ ''Device ID: '' @ show_signed (nf2device_id info) @ [LF] @
                 ''Version: '' @ show_signed (getDeviceMajor info) @ ''.'' @ show_signed (getDeviceMinor info) @ ''.'' @ show_signed (getDeviceRevision info) @ [LF] @ cpci
               else if nf2_dev_id_module_version info = 1 then
                 title @ ''Project name: '' @ getProjName info @ [LF, LF] @ ''Device ID: '' @ show_signed (nf2device_id info) @ [LF] @
                 ''Version: '' @ show_signed (getDeviceMajor info) @ [LF] @ cpci
               else ''Uknown Device ID Module verions: '' @ show_signed (nf2_dev_id_module_version info) @ [LF])
            else title @ ''Device info not found'' @ [LF])
         else title @ ''Device not programmed'' @ [LF])"

definition getDeviceInfoStr :: "dev_info \<Rightarrow> string" where
  "getDeviceInfoStr info =
     take 1023 (take 1023 (''CPCI Information'' @ [LF] @ ''----------------'' @ [LF] @ ''Version: '' @ show_signed (cpci_version info) @
       '' (rev '' @ show_signed (cpci_revision info) @ '')'' @ [LF]) @ [LF] @ take 1023 (device_version_str info) @ [LF])"

section \<open>The check of the design\<close>

abbreviation (input) VERSION_ANY :: int where "VERSION_ANY \<equiv> - 1"

text \<open>A version number is built up byte by byte in an \<open>int\<close>; a result out of its range is undefined.\<close>

definition in_int :: "int \<Rightarrow> int outcome" where
  "in_int z = (if - (2 ^ 31) \<le> z \<and> z < 2 ^ 31 then Some z else None)"

definition pack_version :: "int \<Rightarrow> int \<Rightarrow> int \<Rightarrow> int \<Rightarrow> int outcome" where
  "pack_version any major minor revision = do {
     let part = (\<lambda>v. if v \<noteq> VERSION_ANY then v else any);
     v \<leftarrow> in_int (part major);
     if v < 0 then None else do {
     v \<leftarrow> in_int (v * 256); v \<leftarrow> in_int (v + part minor);
     if v < 0 then None else do {
     v \<leftarrow> in_int (v * 256); in_int (v + part revision) } } }"

definition version_str :: "int \<Rightarrow> int \<Rightarrow> int \<Rightarrow> string" where
  "version_str major minor revision =
     (if revision \<noteq> VERSION_ANY then show_int major @ ''.'' @ show_int minor @ ''.'' @ show_int revision
      else if minor \<noteq> VERSION_ANY then show_int major @ ''.'' @ show_int minor @ ''.x''
      else if major \<noteq> VERSION_ANY then show_int major @ ''.x.x''
      else ''x.x.x'')"

definition virtex_ver :: "dev_info \<Rightarrow> int" where
  "virtex_ver info = sint (push_bit 16 (getDeviceMajor info) OR push_bit 8 (getDeviceMinor info) OR getDeviceRevision info)"

definition version_error :: "dev_info \<Rightarrow> string \<Rightarrow> string \<Rightarrow> int \<times> int \<times> int \<Rightarrow> int \<times> int \<times> int \<Rightarrow> string" where
  "version_error info projDir virtexProjName lo hi =
     (let has = (\<lambda>(a, b, c). a \<noteq> VERSION_ANY \<or> b \<noteq> VERSION_ANY \<or> c \<noteq> VERSION_ANY);
          text_of = (\<lambda>(a, b, c). version_str a b c);
          expected = (if lo = hi then text_of lo
                      else if has lo \<and> has hi then text_of lo @ '' -- '' @ text_of hi
                      else if has lo then ''> '' @ text_of lo
                      else ''< '' @ text_of hi)
      in ''Error: Incorrect version for bitfile: '' @ [CHR 0x27] @ projDir @ [CHR 0x27] @ '' ('' @ virtexProjName @ '').  Expecting: '' @ expected @
         ''   Active: '' @ show_signed (getDeviceMajor info) @ ''.'' @ show_signed (getDeviceMinor info) @ ''.'' @ show_signed (getDeviceRevision info))"

text \<open>The check of what has been read.\<close>

definition check_info :: "dev_info \<Rightarrow> string \<Rightarrow> int \<times> int \<times> int \<Rightarrow> int \<times> int \<times> int \<Rightarrow> (int \<times> string) outcome" where
  "check_info info projDir lo hi =
     (if \<not> virtex_programmed info then Some (0, ''Error: Virtex is not programmed'')
      else do {
        minVer \<leftarrow> (case lo of (a, b, c) \<Rightarrow> pack_version 0 a b c);
        maxVer \<leftarrow> (case hi of (a, b, c) \<Rightarrow> pack_version 255 a b c);
        let (virtexProjDir, virtexProjName) =
          (if nf2_dev_id_module_version info \<ge> 2 then (getProjDir info, getProjName info) else (getProjName info, PROJ_UNKNOWN));
        if virtexProjDir \<noteq> projDir then
          Some (0, ''Error: Incorrect bitfile loaded. Found '' @ [CHR 0x27] @ virtexProjDir @ [CHR 0x27] @ '' ('' @ virtexProjName @ ''), expecting: '' @ [CHR 0x27] @ projDir @ [CHR 0x27])
        else if virtex_ver info < minVer \<or> virtex_ver info > maxVer then Some (0, version_error info projDir virtexProjName lo hi)
        else Some (1, ''GOOD'') })"

section \<open>The cache\<close>

text \<open>\<open>prepDeviceInfo\<close> reads the card again only when the descriptor is another one than at the last call.\<close>

definition prepDeviceInfo :: "(nat \<Rightarrow> u32) \<Rightarrow> int \<Rightarrow> (int \<times> dev_info) option \<Rightarrow> (int \<times> dev_info) option" where
  "prepDeviceInfo rd fd cache =
     (case cache of Some (prev_fd, info) \<Rightarrow> if prev_fd \<noteq> fd then Some (fd, nf2_read_info rd) else cache
      | None \<Rightarrow> Some (fd, nf2_read_info rd))"

text \<open>The check reads the card first if it must, and leaves the cache behind.\<close>

definition checkVirtexBitfile ::
    "(nat \<Rightarrow> u32) \<Rightarrow> int \<Rightarrow> (int \<times> dev_info) option \<Rightarrow> string \<Rightarrow> int \<times> int \<times> int \<Rightarrow> int \<times> int \<times> int \<Rightarrow> (int \<times> string \<times> (int \<times> dev_info) option) outcome" where
  "checkVirtexBitfile rd fd cache projDir lo hi = do {
     let cache = prepDeviceInfo rd fd cache;
     (_, info) \<leftarrow> cache;
     (r, msg) \<leftarrow> check_info info projDir lo hi;
     Some (r, msg, cache) }"

section \<open>Strings in registers\<close>

text \<open>A string in registers: its characters and zeros behind them, four to a register, the first in the most significant byte.\<close>

definition padded :: "nat \<Rightarrow> string \<Rightarrow> byte list" where
  "padded len s = map byte_of s @ replicate (len - length s) 0"

definition stores :: "(nat \<Rightarrow> u32) \<Rightarrow> nat \<Rightarrow> nat \<Rightarrow> string \<Rightarrow> bool" where
  "stores rd start len s \<longleftrightarrow>
     length s < len \<and> NUL \<notin> set s \<and>
     list_all (\<lambda>i. rd (start + i * 4) = (let p = padded len s in le32 (p ! (4 * i + 3)) (p ! (4 * i + 2)) (p ! (4 * i + 1)) (p ! (4 * i)))) [0..<len div 4]"

lemma be_bytes_le32: "be_bytes (le32 d c b a) = [a, b, c, d]"
  by (simp add: be_bytes_def enc32_def htonl_def)

lemma concat_fours: "4 * k \<le> length p \<Longrightarrow> concat (map (\<lambda>i. [p ! (4 * i), p ! (4 * i + 1), p ! (4 * i + 2), p ! (4 * i + 3)]) [0..<k]) = take (4 * k) p"
proof (induction k)
  case (Suc k)
  then show ?case by (auto intro!: nth_equalityI simp: nth_append less_Suc_eq numeral_eq_Suc take_Suc_conv_app_nth)
qed simp

lemma stores_readStr:
  assumes "stores rd start (4 * k) s"
  shows "readStr rd start (4 * k) = s"
proof -
  let ?p = "padded (4 * k) s"
  have len: "length s < 4 * k" "length ?p = 4 * k" and nul: "NUL \<notin> set s" using assms by (auto simp: stores_def padded_def)
  have h: "map (\<lambda>i. be_bytes (rd (start + i * 4))) [0..<k] = map (\<lambda>i. [?p ! (4 * i), ?p ! (4 * i + 1), ?p ! (4 * i + 2), ?p ! (4 * i + 3)]) [0..<k]"
    using assms by (auto simp: stores_def list_all_iff be_bytes_le32 Let_def)
  have "concat (map (\<lambda>i. be_bytes (rd (start + i * 4))) [0..<k]) = take (4 * k) ?p" unfolding h by (rule concat_fours) (simp add: len(2))
  then have c: "concat (map (\<lambda>i. be_bytes (rd (start + i * 4))) [0..<k]) = ?p" using len(2) by simp
  obtain m where m: "4 * k - length s = Suc m" using len(1) by (metis Suc_diff_Suc)
  have "butlast ?p = map byte_of s @ replicate m 0" by (simp add: padded_def m butlast_append replicate_append_same[symmetric] del: replicate_append_same)
  moreover have "takeWhile (\<lambda>b. b \<noteq> 0) (map byte_of s @ replicate m 0) = map byte_of s"
    using nul by (subst takeWhile_append2) (auto simp: byte_of_zero takeWhile_replicate)
  ultimately show ?thesis by (simp add: readStr_def c comp_def)
qed

section \<open>The window of versions\<close>

definition ver_le :: "int \<times> int \<times> int \<Rightarrow> int \<times> int \<times> int \<Rightarrow> bool" where
  "ver_le = (\<lambda>(a, b, c) (a', b', c'). a < a' \<or> a = a' \<and> (b < b' \<or> b = b' \<and> c \<le> c'))"

definition fill :: "int \<Rightarrow> int \<times> int \<times> int \<Rightarrow> int \<times> int \<times> int" where
  "fill any = (\<lambda>(a, b, c). (if a = VERSION_ANY then any else a, if b = VERSION_ANY then any else b, if c = VERSION_ANY then any else c))"

definition version_parts :: "u32 \<Rightarrow> int \<times> int \<times> int" where
  "version_parts v = (uint v div 65536 mod 256, uint v div 256 mod 256, uint v mod 256)"

definition in_range :: "int \<times> int \<times> int \<Rightarrow> bool" where
  "in_range = (\<lambda>(a, b, c). a \<in> {- 1..255} \<and> b \<in> {- 1..255} \<and> c \<in> {- 1..255})"

definition pack :: "int \<times> int \<times> int \<Rightarrow> int" where
  "pack = (\<lambda>(a, b, c). (a * 256 + b) * 256 + c)"

definition bytes3 :: "int \<times> int \<times> int \<Rightarrow> bool" where
  "bytes3 = (\<lambda>(a, b, c). a \<in> {0..255} \<and> b \<in> {0..255} \<and> c \<in> {0..255})"

lemma pack_le: "bytes3 x \<Longrightarrow> bytes3 y \<Longrightarrow> pack x \<le> pack y \<longleftrightarrow> ver_le x y"
  by (cases x; cases y) (auto simp: pack_def ver_le_def bytes3_def)

lemma pack_version_fill:
  assumes "in_range (a, b, c)" and "any \<in> {0, 255}"
  shows "pack_version any a b c = Some (pack (fill any (a, b, c)))" "bytes3 (fill any (a, b, c))"
  using assms by (auto simp: pack_version_def in_int_def pack_def fill_def in_range_def bytes3_def Let_def)

lemma version_parts_bytes: "bytes3 (version_parts v)"
proof -
  have "x mod 256 \<in> {0..255}" for x :: int by simp
  then show ?thesis unfolding bytes3_def version_parts_def by blast
qed

lemma virtex_ver_parts:
  assumes "nf2_dev_id_module_version info = 2"
  shows "virtex_ver info = pack (version_parts (nf2_version info))"
proof -
  let ?v = "nf2_version info"
  have "(2::u32) > 1" by simp
  then have "push_bit 16 (getDeviceMajor info) OR push_bit 8 (getDeviceMinor info) OR getDeviceRevision info
      = push_bit 16 (drop_bit 16 ?v AND mask 8) OR push_bit 8 (drop_bit 8 ?v AND mask 8) OR (?v AND mask 8)"
    using assms by (simp add: getDeviceMajor_def getDeviceMinor_def getDeviceRevision_def mask_eq_exp_minus_1)
  also have "\<dots> = ?v AND mask 24"
  proof (rule bit_word_eqI)
    fix n
    show "bit (push_bit 16 (drop_bit 16 ?v AND mask 8) OR push_bit 8 (drop_bit 8 ?v AND mask 8) OR (?v AND mask 8)) n = bit (?v AND mask 24) n"
      by (cases "16 \<le> n") (auto simp: bit_simps)
  qed
  finally have "virtex_ver info = sint (take_bit 24 ?v)" by (simp add: virtex_ver_def take_bit_eq_mask)
  also have "\<dots> = take_bit 24 (uint ?v)" by (simp add: sint_uint unsigned_take_bit_eq signed_take_bit_take_bit)
  also have "\<dots> = uint ?v mod 2 ^ 24" by (rule take_bit_eq_mod)
  also have "\<dots> = pack (version_parts ?v)" 
    using zmod_zmult2_eq[of 65536 "uint ?v" 256] zmod_zmult2_eq[of 256 "uint ?v div 256" 256] zdiv_zmult2_eq[of 256 "uint ?v" 256]
    by (simp add: pack_def version_parts_def)
  finally show ?thesis .
qed

definition up_to_date :: "(nat \<Rightarrow> u32) \<Rightarrow> int \<Rightarrow> (int \<times> dev_info) option \<Rightarrow> bool" where
  "up_to_date rd fd cache \<longleftrightarrow> (case cache of None \<Rightarrow> True | Some (prev_fd, info) \<Rightarrow> prev_fd = fd \<longrightarrow> info = nf2_read_info rd)"


lemma prep_current: "up_to_date rd fd cache \<Longrightarrow> prepDeviceInfo rd fd cache = Some (fd, nf2_read_info rd)"
  by (auto simp: up_to_date_def prepDeviceInfo_def split: option.splits)

text \<open>
  C40. A program that asks for its design gets it exactly when the version is in the window it gives. A card with a programmed Virtex whose identification block is of version 2, holds the
  name the program asks for, and a version \<open>a.b.c\<close> in the three low bytes of its version register, passes the check if and only if \<open>a.b.c\<close> is, in the lexicographic order of versions,
  not below the least and not above the greatest version asked for, an open component counting as 0 in the one and as 255 in the other. No integer overflows in it. What the program has cached for the descriptor, if anything, must be
  what the card says now; it is that after the check.
\<close>

theorem version_window:
  assumes "isVirtexProgrammed rd" and "md5_good_v2 rd" and "stores rd 0x40001c 64 projDir" and "in_range lo" and "in_range hi"
    and "up_to_date rd fd cache"
  shows "\<exists>r msg. checkVirtexBitfile rd fd cache projDir lo hi = Some (r, msg, Some (fd, nf2_read_info rd)) \<and>
    (r = 1 \<longleftrightarrow> ver_le (fill 0 lo) (version_parts (rd 0x400014)) \<and> ver_le (version_parts (rd 0x400014)) (fill 255 hi))"
proof -
  let ?info = "nf2_read_info rd" and ?v = "version_parts (rd 0x400014)"
  have info: "virtex_programmed ?info" "nf2_dev_id_module_version ?info = 2" "nf2_version ?info = rd 0x400014" "getProjDir ?info = projDir"
    using assms(1,2) stores_readStr[of rd "0x40001c" 16 projDir] assms(3) by (auto simp: nf2_read_info_def getProjDir_def Let_def)
  obtain a b c a' b' c' where w: "lo = (a, b, c)" "hi = (a', b', c')" by (cases lo; cases hi) auto
  note lo = pack_version_fill[OF assms(4)[unfolded w(1)], of 0] and hi = pack_version_fill[OF assms(5)[unfolded w(2)], of 255]
  have vv: "virtex_ver ?info = pack ?v" using virtex_ver_parts[OF info(2)] info(3) by simp
  have "pack (fill 0 lo) \<le> pack ?v \<longleftrightarrow> ver_le (fill 0 lo) ?v" "pack ?v \<le> pack (fill 255 hi) \<longleftrightarrow> ver_le ?v (fill 255 hi)"
    using lo(2) hi(2) by (simp_all add: w pack_le version_parts_bytes)
  then have "\<exists>r msg. check_info ?info projDir lo hi = Some (r, msg) \<and> (r = 1 \<longleftrightarrow> ver_le (fill 0 lo) ?v \<and> ver_le ?v (fill 255 hi))"
    using info lo(1) hi(1) by (simp add: check_info_def w vv) force
  then show ?thesis by (auto simp: checkVirtexBitfile_def prep_current[OF assms(6)])
qed


text \<open>A card with the reference router, version 1.2.3.\<close>

definition example_card :: "nat \<Rightarrow> u32" where
  "example_card r =
     (case map_of ([(0x104, 0x100), (0x400000, 0x5e461ffe), (0x400004, 0x439725c9), (0x400008, 0x279a22a1), (0x40000c, 0x855f6c53), (0x400014, 0x010203)]
        @ [(0x40001c, 0x73636f6e), (0x400020, 0x65000000)]) r of Some w \<Rightarrow> w | None \<Rightarrow> 0)"

lemma example_card_stores: "stores example_card 0x40001c 64 ''scone''"
proof -
  have "example_card (0x40001c + i * 4) = le32 (padded 64 ''scone'' ! (4 * i + 3)) (padded 64 ''scone'' ! (4 * i + 2)) (padded 64 ''scone'' ! (4 * i + 1)) (padded 64 ''scone'' ! (4 * i))"
    if "i < 16" for i
  proof (cases "i < 2")
    case True
    then consider "i = 0" | "i = 1" by linarith
    then show ?thesis by cases (simp_all add: example_card_def padded_def byte_of_def le32_def)
  next
    case False
    then have "padded 64 ''scone'' ! (4 * i + j) = 0" if "j < 4" for j
      using \<open>i < 16\<close> that by (simp add: padded_def nth_Cons' nth_append)
    from this[of 0] this[of 1] this[of 2] this[of 3] False show ?thesis by (simp add: example_card_def le32_def)
  qed
  then show ?thesis by (simp add: stores_def list_all_iff Let_def)
qed

theorem version_window_witness:
  "\<exists>r msg. checkVirtexBitfile example_card 3 None ''scone'' (1, 2, - 1) (1, - 1, - 1) = Some (r, msg, Some (3, nf2_read_info example_card)) \<and>
    (r = 1 \<longleftrightarrow> ver_le (1, 2, 0) (1, 2, 3) \<and> ver_le (1, 2, 3) (1, 255, 255))"
proof -
  have "isVirtexProgrammed example_card" by (simp add: isVirtexProgrammed_def example_card_def)
  moreover have "md5_good_v2 example_card" by (simp add: md5_good_v2_def example_card_def upt_rec)
  ultimately show ?thesis
    using version_window[OF _ _ example_card_stores, of "(1, 2, - 1)" "(1, - 1, - 1)" 3 None]
    by (simp add: up_to_date_def in_range_def fill_def version_parts_def example_card_def)
qed

end
