(* ===== verification/Reg_Proxy.thy ===== *)
theory Reg_Proxy
  imports Headers Cstring Socket Nf2_Transmit
begin

text \<open>
  Access to the registers of a card from programs: directly, by the requests to the driver that \<^verbatim>\<open>lib/C/common/nf2util.c\<close> makes, and over the network,
  by the client and the server of \<^verbatim>\<open>lib/C/reg_lib\<close>. A session over the network does what the same accesses do directly, as long as the requests to the driver succeed: that one failed, the client is never told.
\<close>

section \<open>Direct access\<close>

text \<open>
  The card is asked through its first network device. For every request to the driver: whether the struct of the request can be copied in and out, and the value \<open>stack_junk\<close> of the variable that receives a
  register before the request; the driver leaves it there when the address is out of range.
\<close>

record ioctl_env =
  copies_in :: bool
  copies_out :: bool
  stack_junk :: u32

definition readRegNet :: "device \<Rightarrow> nat \<Rightarrow> ioctl_env \<Rightarrow> u32 \<Rightarrow> u32 \<Rightarrow> nf2_card_priv \<Rightarrow> int \<times> u32" where
  "readRegNet hw len env reg val c =
     (case nf2c_ioctl hw len (copies_in env) (copies_out env) 0 (Reg_read (unat reg) (stack_junk env)) c of
        (ret, Reg _ v, _) \<Rightarrow> if ret = 0 then (0, v) else (- 1, val)
      | (ret, _, _) \<Rightarrow> if ret = 0 then (0, stack_junk env) else (- 1, val))"

definition writeRegNet :: "device \<Rightarrow> nat \<Rightarrow> ioctl_env \<Rightarrow> u32 \<Rightarrow> u32 \<Rightarrow> nf2_card_priv \<Rightarrow> int \<times> nf2_card_priv" where
  "writeRegNet hw len env reg val c =
     (case nf2c_ioctl hw len (copies_in env) (copies_out env) 0 (Reg_write (unat reg) val) c of
        (ret, _, c) \<Rightarrow> (if ret = 0 then 0 else - 1, c))"

section \<open>The protocol\<close>

text \<open>The struct on the wire, in the layout of the C compiler. The padding, which nobody reads, is zero.\<close>

record reg_request =
  rq_type :: byte
  rq_device_num :: byte
  rq_address :: u32
  rq_data :: u32
  rq_error :: byte

abbreviation (input) WRITE_REQ :: byte where "WRITE_REQ \<equiv> 0"
abbreviation (input) READ_REQ :: byte where "READ_REQ \<equiv> 1"
abbreviation (input) CHECK_REQ :: byte where "CHECK_REQ \<equiv> 2"
abbreviation (input) OPEN_REQ :: byte where "OPEN_REQ \<equiv> 3"
abbreviation (input) CLOSE_REQ :: byte where "CLOSE_REQ \<equiv> 4"

definition enc_req :: "reg_request \<Rightarrow> byte list" where
  "enc_req r = [rq_type r, rq_device_num r, 0, 0] @ enc32 (rq_address r) @ enc32 (rq_data r) @ [rq_error r, 0, 0, 0]"

definition dec_req :: "byte list \<Rightarrow> reg_request" where
  "dec_req b = \<lparr>rq_type = b ! 0, rq_device_num = b ! 1, rq_address = le32_at b 4, rq_data = le32_at b 8, rq_error = b ! 12\<rparr>"

lemma dec_enc_req [simp]: "dec_req (enc_req r) = r" "length (enc_req r) = 16"
  by (simp_all add: dec_req_def enc_req_def enc32_def le32_at_def)

text \<open>
  \<open>readn\<close>: the result, the bytes it put into the buffer, and what is left to arrive; nothing as long as it waits. It returns early, with fewer bytes than asked for, at the
  end of the stream, and with \<open>-1\<close> after an error.
\<close>

function readn :: "nat \<Rightarrow> byte list \<Rightarrow> byte arrival list \<Rightarrow> (int \<times> byte list \<times> byte arrival list) outcome" where
  "readn n acc es =
     (if n \<le> length acc then Some (int (length acc), acc, es)
      else case sock_recv (n - length acc) es of
        Pending \<Rightarrow> None
      | Err es' \<Rightarrow> Some (- 1, acc, es')
      | Intr es' \<Rightarrow> readn n acc es'
      | Eof es' \<Rightarrow> Some (int (length acc), acc, es')
      | Got xs es' \<Rightarrow> readn n (acc @ xs) es')"
  by pat_completeness auto

termination by (relation "measure (\<lambda>(_, _, es). weight es)") (auto simp: recv_weight)

declare readn.simps [simp del]

text \<open>\<open>writen\<close> of the bytes \<open>p\<close>, over the results of the calls of \<open>write\<close>: the result, the bytes that went out, and the results that are left.\<close>

datatype write_result = Took nat | Write_intr | Write_failed

fun writen :: "nat \<Rightarrow> write_result list \<Rightarrow> byte list \<Rightarrow> byte list \<Rightarrow> (int \<times> byte list \<times> write_result list) outcome" where
  "writen len ws [] out = Some (int len, out, ws)"
| "writen len [] (b # p) out = None"
| "writen len (Took n # ws) (b # p) out =
     (if n = 0 then Some (- 1, out, ws) else writen len ws (drop n (b # p)) (out @ take n (b # p)))"
| "writen len (Write_intr # ws) (b # p) out = writen len ws (b # p) out"
| "writen len (Write_failed # ws) (b # p) out = Some (- 1, out, ws)"

text \<open>
  Both callers compare the result with \<open>sizeof(struct reg_request)\<close>, which is not signed; so is the comparison, and \<open>-1\<close> is not below 16 in it.
\<close>

definition too_short :: "int \<Rightarrow> bool" where
  "too_short r \<longleftrightarrow> r mod 2 ^ 32 < 16"

lemma too_short_simps [simp]: "\<not> too_short 16" "\<not> too_short (- 1)"
  by (simp_all add: too_short_def)

text \<open>One end of a connection: the results of its writes to come, the bytes it has sent, and what is still to arrive.\<close>

type_synonym conn = "write_result list \<times> byte list \<times> byte arrival list"

section \<open>The server\<close>

text \<open>The results of \<open>readReg\<close> and \<open>writeReg\<close> are ignored.\<close>

definition serve_known :: "device list \<Rightarrow> nat \<Rightarrow> ioctl_env \<Rightarrow> reg_request \<Rightarrow> nf2_card_priv list \<Rightarrow> reg_request \<times> nf2_card_priv list" where
  "serve_known hws len env req cs =
     (let d = unat (rq_device_num req) in
      if rq_type req = READ_REQ then
        (req\<lparr>rq_data := snd (readRegNet (hws ! d) len env (rq_address req) (rq_data req) (cs ! d))\<rparr>, cs)
      else if rq_type req = WRITE_REQ then
        (req, cs[d := snd (writeRegNet (hws ! d) len env (rq_address req) (rq_data req) (cs ! d))])
      else if rq_type req = CHECK_REQ then (req\<lparr>rq_data := 1\<rparr>, cs)
      else if rq_type req = OPEN_REQ then (req\<lparr>rq_data := 1\<rparr>, cs)
      else if rq_type req = CLOSE_REQ then (req, cs)
      else (req\<lparr>rq_error := - 1\<rparr>, cs))"

definition serve_unknown :: "reg_request \<Rightarrow> reg_request" where
  "serve_unknown req = (if rq_type req = CHECK_REQ then req\<lparr>rq_data := 0\<rparr> else req\<lparr>rq_error := - 1\<rparr>)"

definition serve :: "device list \<Rightarrow> nat \<Rightarrow> ioctl_env \<Rightarrow> reg_request \<Rightarrow> nf2_card_priv list \<Rightarrow> reg_request \<times> nf2_card_priv list" where
  "serve hws len env req cs =
     (if unat (rq_device_num req) < length cs then serve_known hws len env req cs else (serve_unknown req, cs))"

definition closes :: "reg_request \<Rightarrow> nf2_card_priv list \<Rightarrow> bool" where
  "closes req cs \<longleftrightarrow> unat (rq_device_num req) < length cs \<and> rq_type req = CLOSE_REQ"

lemma recv_err_weight: "sock_recv n es = Err es' \<Longrightarrow> weight es' < weight es"
  by (induction n es rule: sock_recv.induct) (auto simp: weight_def split: if_splits)

lemma readn_weight: "readn n acc es = Some (r, xs, es') \<Longrightarrow> length acc < n \<Longrightarrow> weight es' < weight es"
proof (induction n acc es rule: readn.induct)
  case (1 n acc es)
  then have sh: "\<not> n \<le> length acc" by simp
  show ?case
  proof (cases "sock_recv (n - length acc) es")
    case (Got ys fs)
    show ?thesis
    proof (cases "n \<le> length (acc @ ys)")
      case True
      then show ?thesis using "1.prems" Got sh recv_weight(1)[OF Got] by (simp add: readn.simps[of n acc] readn.simps[of n "acc @ ys"])
    next
      case False
      then show ?thesis using "1.IH"(1)[OF sh Got] "1.prems" sh Got recv_weight(1)[OF Got] by (simp add: readn.simps[of n acc])
    qed
  next
    case (Intr fs)
    then show ?thesis using "1.IH"(2)[OF sh Intr] "1.prems" sh recv_weight(3)[OF Intr] by (simp add: readn.simps[of n acc])
  next
    case (Eof fs)
    then show ?thesis using "1.prems" sh recv_weight(2)[OF Eof] by (simp add: readn.simps[of n acc])
  next
    case (Err fs)
    then show ?thesis using "1.prems" sh recv_err_weight[OF Err] by (simp add: readn.simps[of n acc])
  qed (use "1.prems" sh in \<open>simp add: readn.simps[of n acc]\<close>)
qed

text \<open>\<open>parse_request\<close>: the return value, unless it waits for ever, the connection and the cards. \<open>env 0\<close>, \<open>env 1\<close>, and so on are for the requests in their order.\<close>

function parse_request ::
    "device list \<Rightarrow> nat \<Rightarrow> (nat \<Rightarrow> ioctl_env) \<Rightarrow> conn \<Rightarrow> nf2_card_priv list \<Rightarrow> (int \<times> conn \<times> nf2_card_priv list) outcome" where
  "parse_request hws len env (ws, out, es) cs =
     (case readn 16 [] es of
        None \<Rightarrow> None
      | Some (nread, b, es') \<Rightarrow>
          if nread = 16 then
            (let req = dec_req b; (resp, cs') = serve hws len (env 0) req cs
             in case writen 16 ws (enc_req resp) out of
                  None \<Rightarrow> None
                | Some (n, out', ws') \<Rightarrow>
                    if too_short n then Some (- 1, (ws', out', es'), cs')
                    else if closes req cs then Some (0, (ws', out', es'), cs')
                    else parse_request hws len (\<lambda>k. env (Suc k)) (ws', out', es') cs')
          else Some (if nread = 0 then 0 else - 1, (ws, out, es'), cs))"
  by pat_completeness auto

termination by (relation "measure (\<lambda>(_, _, _, (_, _, es), _). weight es)") (auto simp: readn_weight)

declare parse_request.simps [simp del]

section \<open>The client\<close>

definition sendRequest :: "reg_request \<Rightarrow> conn \<Rightarrow> (int \<times> reg_request \<times> conn) outcome" where
  "sendRequest req = (\<lambda>(ws, out, es). do {
     (n, out, ws) \<leftarrow> writen 16 ws (enc_req req) out;
     if too_short n then Some (- 1, req, ws, out, es)
     else do {
       (n, b, es) \<leftarrow> readn 16 [] es;
       let req = dec_req (b @ drop (length b) (enc_req req));
       Some (if too_short n then - 1 else 0, req, ws, out, es) } })"

text \<open>The number of the card in \<open>fd\<close> is cut to a byte. \<open>val\<close> is the variable of the program that receives a register.\<close>

record nf2device =
  device_name :: string
  fd :: int

definition reg_req :: "byte \<Rightarrow> u32 \<Rightarrow> u32 \<Rightarrow> nf2device \<Rightarrow> reg_request" where
  "reg_req ty address data nf2 =
     \<lparr>rq_type = ty, rq_device_num = word_of_int (fd nf2), rq_address = address, rq_data = data, rq_error = 0\<rparr>"

definition proxy_readReg :: "nf2device \<Rightarrow> u32 \<Rightarrow> u32 \<Rightarrow> conn \<Rightarrow> (int \<times> u32 \<times> conn) outcome" where
  "proxy_readReg nf2 reg val s = do {
     (r, req, s) \<leftarrow> sendRequest (reg_req READ_REQ reg 0xBADDD065 nf2) s;
     Some (if r < 0 then (- 1, val, s) else (sint (rq_error req), rq_data req, s)) }"

definition proxy_writeReg :: "nf2device \<Rightarrow> u32 \<Rightarrow> u32 \<Rightarrow> conn \<Rightarrow> (int \<times> conn) outcome" where
  "proxy_writeReg nf2 reg val s = do {
     (r, req, s) \<leftarrow> sendRequest (reg_req WRITE_REQ reg val nf2) s;
     Some (if r < 0 then (- 1, s) else (sint (rq_error req), s)) }"

text \<open>
  \<open>check_iface\<close> and \<open>openDescriptor\<close> connect to the server first; the former closes the connection, the latter keeps it. \<open>errno_invalid\<close>: whether \<open>errno\<close> has been
  \<open>EINVAL\<close> since before the call, which nobody resets. With no connection the assertion of \<open>writen\<close> fails.
\<close>

definition strtol10 :: "string \<Rightarrow> int" where
  "strtol10 s =
     (let s = dropWhile isspace s;
          (sign, s) = (case s of CHR ''-'' # t \<Rightarrow> (- 1, t) | CHR ''+'' # t \<Rightarrow> (1, t) | _ \<Rightarrow> (1, s))
      in sign * int (digits_value 10 (takeWhile (is_digit 10) s)))"

definition check_iface :: "bool \<Rightarrow> nf2device \<Rightarrow> conn option \<Rightarrow> (int \<times> nf2device) outcome" where
  "check_iface errno_invalid nf2 server =
     (if length (take 10 (device_name nf2)) > 7 then Some (- 1, nf2)
      else if length (device_name nf2) < 4 then None
      else if errno_invalid then Some (- 1, nf2)
      else do {
        s \<leftarrow> server;
        (r, req, _) \<leftarrow> sendRequest (reg_req CHECK_REQ 0 0 (nf2\<lparr>fd := strtol10 (drop 4 (device_name nf2))\<rparr>)) s;
        Some (if r < 0 then (- 1, nf2)
              else if sint (rq_error req) < 0 \<or> rq_data req \<noteq> 1 then (- 1, nf2)
              else (0, nf2\<lparr>fd := uint (rq_device_num req)\<rparr>)) })"

definition openDescriptor :: "nf2device \<Rightarrow> conn option \<Rightarrow> (int \<times> nf2device \<times> conn) outcome" where
  "openDescriptor nf2 server = do {
     s \<leftarrow> server;
     (r, req, s) \<leftarrow> sendRequest (reg_req OPEN_REQ 0 0 nf2) s;
     Some (if r < 0 then (- 1, nf2, s)
           else (sint (rq_error req), if rq_error req = 0 then nf2\<lparr>fd := uint (rq_device_num req)\<rparr> else nf2, s)) }"

definition closeDescriptor :: "nf2device \<Rightarrow> conn \<Rightarrow> (int \<times> conn) outcome" where
  "closeDescriptor nf2 s = do {
     (r, req, s) \<leftarrow> sendRequest (reg_req CLOSE_REQ 0 0 nf2) s;
     Some (if r < 0 then (- 1, s) else (sint (rq_error req), s)) }"

section \<open>Sessions\<close>

text \<open>
  A session is a list of accesses to one card, between \<open>openDescriptor\<close> and \<open>closeDescriptor\<close>. Each access returns a status and leaves a value in the variable
  of the program.
\<close>

datatype access = Rd u32 | Wr u32 u32

fun direct_run :: "device \<Rightarrow> nat \<Rightarrow> (nat \<Rightarrow> ioctl_env) \<Rightarrow> access list \<Rightarrow> u32 \<Rightarrow> nf2_card_priv \<Rightarrow> (int \<times> u32) list \<times> nf2_card_priv" where
  "direct_run hw len env [] val c = ([], c)"
| "direct_run hw len env (Rd reg # ops) val c =
     (let (ret, val) = readRegNet hw len (env 0) reg val c; (as, c) = direct_run hw len (\<lambda>k. env (Suc k)) ops val c in ((ret, val) # as, c))"
| "direct_run hw len env (Wr reg v # ops) val c =
     (let (ret, c) = writeRegNet hw len (env 0) reg v c; (as, c) = direct_run hw len (\<lambda>k. env (Suc k)) ops val c in ((ret, val) # as, c))"

fun proxy_run :: "nf2device \<Rightarrow> access list \<Rightarrow> u32 \<Rightarrow> conn \<Rightarrow> ((int \<times> u32) list \<times> conn) outcome" where
  "proxy_run nf2 [] val s = Some ([], s)"
| "proxy_run nf2 (Rd reg # ops) val s = do {
     (ret, val, s) \<leftarrow> proxy_readReg nf2 reg val s; (as, s) \<leftarrow> proxy_run nf2 ops val s; Some ((ret, val) # as, s) }"
| "proxy_run nf2 (Wr reg v # ops) val s = do {
     (ret, s) \<leftarrow> proxy_writeReg nf2 reg v s; (as, s) \<leftarrow> proxy_run nf2 ops val s; Some ((ret, val) # as, s) }"

definition proxy_session :: "nf2device \<Rightarrow> access list \<Rightarrow> u32 \<Rightarrow> conn option \<Rightarrow> (int \<times> (int \<times> u32) list \<times> int \<times> conn) outcome" where
  "proxy_session nf2 ops val server = do {
     (opened, nf2, s) \<leftarrow> openDescriptor nf2 server; (as, s) \<leftarrow> proxy_run nf2 ops val s; (closed, s) \<leftarrow> closeDescriptor nf2 s;
     Some (opened, as, closed, s) }"

text \<open>The requests of a session.\<close>

fun access_request :: "nf2device \<Rightarrow> access \<Rightarrow> reg_request" where
  "access_request nf2 (Rd reg) = reg_req READ_REQ reg 0xBADDD065 nf2"
| "access_request nf2 (Wr reg v) = reg_req WRITE_REQ reg v nf2"

definition session_bytes :: "nf2device \<Rightarrow> access list \<Rightarrow> byte list" where
  "session_bytes nf2 ops =
     concat (map enc_req (reg_req OPEN_REQ 0 0 nf2 # map (access_request nf2) ops @ [reg_req CLOSE_REQ 0 0 nf2]))"

text \<open>Writes that go on: none fails, and there are enough of them even if each takes a single byte.\<close>

definition writes_ok :: "write_result list \<Rightarrow> nat \<Rightarrow> bool" where
  "writes_ok ws n \<longleftrightarrow> Took 0 \<notin> set ws \<and> Write_failed \<notin> set ws \<and> n \<le> length (filter (\<lambda>w. w \<noteq> Write_intr) ws)"

subsection \<open>One exchange\<close>

interpretation proxy_reader: byte_reader n "readn n" "\<lambda>acc es. Some (int (length acc), acc, es)" for n
  by unfold_locales (simp_all add: readn.simps)

lemma writen_all:
  "writes_ok ws (length p + k) \<Longrightarrow> \<exists>ws'. writen len ws p out = Some (int len, out @ p, ws') \<and> writes_ok ws' k"
proof (induction len ws p out rule: writen.induct)
  case (3 len n ws b p out)
  then have n: "n \<noteq> 0" and "writes_ok ws (length (drop n (b # p)) + k)" by (auto simp: writes_ok_def)
  with "3.IH" show ?case by simp
qed (auto simp: writes_ok_def)

lemma exchange:
  assumes "bytes_of es = enc_req resp @ tail" and "writes_ok ws (16 + k)"
  shows "\<exists>ws' es'. sendRequest req (ws, out, es) = Some (0, resp, ws', out @ enc_req req, es') \<and> bytes_of es' = tail \<and> writes_ok ws' k"
proof -
  obtain ws' where "writen 16 ws (enc_req req) out = Some (16, out @ enc_req req, ws')" "writes_ok ws' k"
    using writen_all[of ws "enc_req req" k 16 out] assms(2) by auto
  moreover obtain es' where "readn 16 [] es = Some (16, enc_req resp, es')" "bytes_of es' = tail"
    using proxy_reader.reads_bytes[of es "enc_req resp" tail "[]" 16] assms(1) by auto
  ultimately show ?thesis by (auto simp: sendRequest_def)
qed

lemma serve_one:
  assumes "bytes_of es = enc_req req @ tail" and "writes_ok ws (16 + k)" and "serve hws len (env 0) req cs = (resp, cs')"
  shows "\<exists>ws' es'. bytes_of es' = tail \<and> writes_ok ws' k \<and> parse_request hws len env (ws, out, es) cs =
    (if closes req cs then Some (0, (ws', out @ enc_req resp, es'), cs') else parse_request hws len (\<lambda>k. env (Suc k)) (ws', out @ enc_req resp, es') cs')"
proof -
  obtain ws' where "writen 16 ws (enc_req resp) out = Some (16, out @ enc_req resp, ws')" "writes_ok ws' k"
    using writen_all[of ws "enc_req resp" k 16 out] assms(2) by auto
  moreover obtain es' where "readn 16 [] es = Some (16, enc_req req, es')" "bytes_of es' = tail"
    using proxy_reader.reads_bytes[of es "enc_req req" tail "[]" 16] assms(1) by auto
  ultimately show ?thesis using assms(3) by (intro exI[of _ ws'] exI[of _ es']) (simp add: parse_request.simps[of hws len env ws])
qed

subsection \<open>The accesses\<close>

text \<open>Whether the request to the driver succeeds.\<close>

fun ioctl_ok :: "access \<Rightarrow> ioctl_env \<Rightarrow> bool" where
  "ioctl_ok (Rd reg) env = (copies_in env \<and> copies_out env)"
| "ioctl_ok (Wr reg v) env = copies_in env"

lemma readRegNet_eq:
  "readRegNet hw len env reg val c =
     (if ioctl_ok (Rd reg) env then (0, case nf2k_reg_read hw len (unat reg) c of Some w \<Rightarrow> w | None \<Rightarrow> stack_junk env) else (- 1, val))"
  by (simp add: readRegNet_def nf2c_ioctl_def)

lemma writeRegNet_eq:
  "writeRegNet hw len env reg val c = (if ioctl_ok (Wr reg val) env then (0, snd (nf2k_reg_write len (unat reg) val c)) else (- 1, c))"
  by (simp add: writeRegNet_def nf2c_ioctl_def)

text \<open>What the server does for the accesses, and what the client sees of it: the filler of a read request is the value of the server's variable.\<close>

fun served_run :: "device \<Rightarrow> nat \<Rightarrow> (nat \<Rightarrow> ioctl_env) \<Rightarrow> access list \<Rightarrow> u32 \<Rightarrow> nf2_card_priv \<Rightarrow> (int \<times> u32) list \<times> nf2_card_priv" where
  "served_run hw len env [] val c = ([], c)"
| "served_run hw len env (Rd reg # ops) val c =
     (let val = snd (readRegNet hw len (env 0) reg 0xBADDD065 c); (as, c) = served_run hw len (\<lambda>k. env (Suc k)) ops val c in ((0, val) # as, c))"
| "served_run hw len env (Wr reg v # ops) val c =
     (let (as, c) = served_run hw len (\<lambda>k. env (Suc k)) ops val (snd (writeRegNet hw len (env 0) reg v c)) in ((0, val) # as, c))"

fun access_response :: "nf2device \<Rightarrow> access \<times> int \<times> u32 \<Rightarrow> reg_request" where
  "access_response nf2 (Rd reg, _, v) = (access_request nf2 (Rd reg))\<lparr>rq_data := v\<rparr>"
| "access_response nf2 (Wr reg w, _, _) = access_request nf2 (Wr reg w)"

lemma serve_access:
  assumes "fd nf2 = int d" "d < 256" "d < length cs"
  shows "serve hws len e (access_request nf2 (Rd reg)) cs =
           (access_response nf2 (Rd reg, 0, snd (readRegNet (hws ! d) len e reg 0xBADDD065 (cs ! d))), cs)"
    and "serve hws len e (access_request nf2 (Wr reg v)) cs =
           (access_request nf2 (Wr reg v), cs[d := snd (writeRegNet (hws ! d) len e reg v (cs ! d))])"
    and "serve hws len e (reg_req OPEN_REQ 0 0 nf2) cs = ((reg_req OPEN_REQ 0 0 nf2)\<lparr>rq_data := 1\<rparr>, cs)"
    and "serve hws len e (reg_req CLOSE_REQ 0 0 nf2) cs = (reg_req CLOSE_REQ 0 0 nf2, cs)"
    and "closes (access_request nf2 op) cs = False" "closes (reg_req OPEN_REQ 0 0 nf2) cs = False" "closes (reg_req CLOSE_REQ 0 0 nf2) cs"
proof -
  have "unat (word_of_int (fd nf2) :: byte) = d" using assms by (simp add: unat_of_nat)
  with assms(3) show
    "serve hws len e (access_request nf2 (Rd reg)) cs = (access_response nf2 (Rd reg, 0, snd (readRegNet (hws ! d) len e reg 0xBADDD065 (cs ! d))), cs)"
    "serve hws len e (access_request nf2 (Wr reg v)) cs =
       (access_request nf2 (Wr reg v), cs[d := snd (writeRegNet (hws ! d) len e reg v (cs ! d))])"
    "serve hws len e (reg_req OPEN_REQ 0 0 nf2) cs = ((reg_req OPEN_REQ 0 0 nf2)\<lparr>rq_data := 1\<rparr>, cs)"
    "serve hws len e (reg_req CLOSE_REQ 0 0 nf2) cs = (reg_req CLOSE_REQ 0 0 nf2, cs)"
    "closes (access_request nf2 op) cs = False" "closes (reg_req OPEN_REQ 0 0 nf2) cs = False" "closes (reg_req CLOSE_REQ 0 0 nf2) cs"
    by (cases op; simp add: serve_def serve_known_def reg_req_def closes_def)+
qed

lemma client_accesses:
  assumes "served_run hw len env ops val c = (as, c')" and "bytes_of es = concat (map (\<lambda>x. enc_req (access_response nf2 x)) (zip ops as)) @ tail"
    and "writes_ok ws (16 * length ops + k)"
  shows "\<exists>ws' es'. proxy_run nf2 ops val (ws, out, es) = Some (as, ws', out @ concat (map (\<lambda>x. enc_req (access_request nf2 x)) ops), es')
    \<and> bytes_of es' = tail \<and> writes_ok ws' k"
  using assms
proof (induction ops arbitrary: env val c as ws out es)
  case (Cons op ops)
  obtain v bs c1 where as: "as = (0, v) # bs" "served_run hw len (\<lambda>k. env (Suc k)) ops v c1 = (bs, c')" and v: "op = Wr r w \<Longrightarrow> v = val" for r w
    using Cons.prems(1) by (cases op) (auto simp: Let_def split: prod.splits)
  obtain ws1 es1 where 1: "sendRequest (access_request nf2 op) (ws, out, es) =
      Some (0, access_response nf2 (op, 0, v), ws1, out @ enc_req (access_request nf2 op), es1)"
      "bytes_of es1 = concat (map (\<lambda>x. enc_req (access_response nf2 x)) (zip ops bs)) @ tail" "writes_ok ws1 (16 * length ops + k)"
    using exchange[of es "access_response nf2 (op, 0, v)" "concat (map (\<lambda>x. enc_req (access_response nf2 x)) (zip ops bs)) @ tail" ws "16 * length ops + k"
        "access_request nf2 op" out] Cons.prems(2,3) as(1) by (auto simp: add.assoc)
  from Cons.IH[OF as(2) 1(2,3), of "out @ enc_req (access_request nf2 op)"] 1(1) show ?case
    using as(1) v by (cases op) (auto simp: proxy_readReg_def proxy_writeReg_def reg_req_def)
qed simp

lemma server_accesses:
  assumes "fd nf2 = int d" "d < 256" "d < length cs" and "served_run (hws ! d) len env ops val (cs ! d) = (as, c')"
    and "bytes_of es = concat (map (\<lambda>x. enc_req (access_request nf2 x)) ops) @ enc_req (reg_req CLOSE_REQ 0 0 nf2) @ tail"
    and "writes_ok ws (16 * length ops + 16 + k)"
  shows "\<exists>ws' es'. parse_request hws len env (ws, out, es) cs =
      Some (0, (ws', out @ concat (map (\<lambda>x. enc_req (access_response nf2 x)) (zip ops as)) @ enc_req (reg_req CLOSE_REQ 0 0 nf2), es'), cs[d := c'])
    \<and> bytes_of es' = tail \<and> writes_ok ws' k"
  using assms
proof (induction ops arbitrary: env val cs as ws out es)
  case Nil
  with serve_one[of es "reg_req CLOSE_REQ 0 0 nf2" tail ws k hws len env cs "reg_req CLOSE_REQ 0 0 nf2" cs out] serve_access(4,7)[OF Nil(1-3)]
  show ?case by auto
next
  case (Cons op ops)
  obtain v bs cs1 where as: "as = (0, v) # bs" "served_run (hws ! d) len (\<lambda>k. env (Suc k)) ops v (cs1 ! d) = (bs, c')"
    and sv: "serve hws len (env 0) (access_request nf2 op) cs = (access_response nf2 (op, 0, v), cs1)" "length cs1 = length cs" "cs1[d := c'] = cs[d := c']"
  proof (cases op)
    case (Rd reg)
    show ?thesis using that[of _ _ cs] Cons.prems(4) serve_access(1)[OF Cons.prems(1-3)] unfolding Rd
      by (auto simp: Let_def split: prod.splits)
  next
    case (Wr reg w)
    show ?thesis using that[of _ _ "cs[d := snd (writeRegNet (hws ! d) len (env 0) reg w (cs ! d))]"] Cons.prems(3,4) serve_access(2)[OF Cons.prems(1-3)] unfolding Wr
      by (auto simp: Let_def split: prod.splits)
  qed
  obtain ws1 es1 where 1: "bytes_of es1 = concat (map (\<lambda>x. enc_req (access_request nf2 x)) ops) @ enc_req (reg_req CLOSE_REQ 0 0 nf2) @ tail"
      "writes_ok ws1 (16 * length ops + 16 + k)"
      "parse_request hws len env (ws, out, es) cs = parse_request hws len (\<lambda>k. env (Suc k)) (ws1, out @ enc_req (access_response nf2 (op, 0, v)), es1) cs1"
    using serve_one[where env = env, OF _ _ sv(1), of es "concat (map (\<lambda>x. enc_req (access_request nf2 x)) ops) @ enc_req (reg_req CLOSE_REQ 0 0 nf2) @ tail" ws
        "16 * length ops + 16 + k" out] Cons.prems(5,6) serve_access(5)[OF Cons.prems(1-3)] by (auto simp: add.assoc)
  have "d < length cs1" using sv(2) Cons.prems(3) by simp
  from Cons.IH[OF Cons.prems(1,2) this as(2) 1(1,2), of "out @ enc_req (access_response nf2 (op, 0, v))"] 1(3) sv(3) show ?case
    by (auto simp: as(1))
qed

lemma session_served:
  assumes "fd nf2 = int d" and "d < 256" and "d < length cs" and "served_run (hws ! d) len (\<lambda>k. env (Suc k)) ops val (cs ! d) = (bs, c')"
    and "bytes_of es = session_bytes nf2 ops" and "writes_ok ws (16 * length ops + 32)"
  shows "\<exists>answers ws1 es1. parse_request hws len env (ws, [], es) cs = Some (0, (ws1, answers, es1), cs[d := c']) \<and>
    (\<forall>es2 ws2. bytes_of es2 = answers \<longrightarrow> writes_ok ws2 (16 * length ops + 32) \<longrightarrow>
      (\<exists>ws3 es3. proxy_session nf2 ops val (Some (ws2, [], es2)) = Some (0, bs, 0, ws3, session_bytes nf2 ops, es3)))"
proof -
  let ?open = "reg_req OPEN_REQ 0 0 nf2" and ?close = "reg_req CLOSE_REQ 0 0 nf2"
  let ?reqs = "concat (map (\<lambda>x. enc_req (access_request nf2 x)) ops)" and ?resps = "concat (map (\<lambda>x. enc_req (access_response nf2 x)) (zip ops bs))"
  let ?opened = "?open\<lparr>rq_data := 1\<rparr>"
  have total: "16 * length ops + 32 = 32 + 16 * length ops" by simp
  have bytes: "session_bytes nf2 ops = enc_req ?open @ ?reqs @ enc_req ?close" by (simp add: session_bytes_def comp_def)
  obtain ws1 es1 where 1: "bytes_of es1 = ?reqs @ enc_req ?close @ []" "writes_ok ws1 (16 * length ops + 16 + 0)"
      "parse_request hws len env (ws, [], es) cs = parse_request hws len (\<lambda>k. env (Suc k)) (ws1, enc_req ?opened, es1) cs"
    using serve_one[where env = env, OF _ _ serve_access(3)[OF assms(1-3)], of es "?reqs @ enc_req ?close" ws "16 * length ops + 16" hws len "[]"] assms(5,6)
      serve_access(6)[OF assms(1-3)] by (auto simp: bytes total)
  obtain ws2 es2 where served: "parse_request hws len env (ws, [], es) cs = Some (0, (ws2, enc_req ?opened @ ?resps @ enc_req ?close, es2), cs[d := c'])"
    using server_accesses[OF assms(1-4) 1(1,2), of "enc_req ?opened"] 1(3) by auto
  have "\<exists>ws3 es3. proxy_session nf2 ops val (Some (wc, [], ec)) = Some (0, bs, 0, ws3, session_bytes nf2 ops, es3)"
    if client: "bytes_of ec = enc_req ?opened @ ?resps @ enc_req ?close" "writes_ok wc (16 * length ops + 32)" for ec wc
  proof -
    obtain wa ea where a: "sendRequest ?open (wc, [], ec) = Some (0, ?opened, wa, enc_req ?open, ea)" "bytes_of ea = ?resps @ enc_req ?close @ []"
        "writes_ok wa (16 * length ops + 16)"
      using exchange[of ec ?opened "?resps @ enc_req ?close" wc "16 * length ops + 16" ?open "[]"] client by (auto simp: total)
    obtain wb eb where b: "proxy_run nf2 ops val (wa, enc_req ?open, ea) = Some (bs, wb, enc_req ?open @ ?reqs, eb)" "bytes_of eb = enc_req ?close @ []"
        "writes_ok wb (16 + 0)"
      using client_accesses[OF assms(4), of ea nf2 "enc_req ?close @ []" wa 16 "enc_req ?open"] a(2,3) by auto
    obtain wd ed where "sendRequest ?close (wb, enc_req ?open @ ?reqs, eb) = Some (0, ?close, wd, session_bytes nf2 ops, ed)"
      using exchange[OF b(2,3), of ?close "enc_req ?open @ ?reqs"] by (auto simp: bytes)
    moreover have "openDescriptor nf2 (Some (wc, [], ec)) = Some (0, nf2, wa, enc_req ?open, ea)"
      using a(1) assms(1,2) by (simp add: openDescriptor_def reg_req_def uint_nat unat_of_nat)
    ultimately show ?thesis using b(1) by (simp add: proxy_session_def closeDescriptor_def reg_req_def)
  qed
  with served show ?thesis by blast
qed

subsection \<open>Proxy and card\<close>

text \<open>
  The result \<open>a\<close> of an access at the card against the result \<open>b\<close> of the same access over the proxy. If the request to the driver succeeds, both report success, and both read the same value at an address that
  the card has; outside of it each reads what was in the memory of its process. If it fails, direct access reports so; over the proxy the access succeeds, and a read yields the filler of the request.
\<close>

fun proxied :: "nat \<Rightarrow> access \<Rightarrow> ioctl_env \<Rightarrow> ioctl_env \<Rightarrow> int \<times> u32 \<Rightarrow> int \<times> u32 \<Rightarrow> bool" where
  "proxied len (Rd reg) direct server a b =
     (if \<not> ioctl_ok (Rd reg) direct then fst a = - 1 \<and> b = (0, 0xBADDD065)
      else if unat reg < len then fst a = 0 \<and> b = a
      else a = (0, stack_junk direct) \<and> b = (0, stack_junk server))"
| "proxied len (Wr reg v) direct server a b = (fst a = (if ioctl_ok (Wr reg v) direct then 0 else - 1) \<and> fst b = 0)"

lemma proxied_read:
  "ioctl_ok (Rd reg) server = ioctl_ok (Rd reg) direct \<Longrightarrow>
   proxied len (Rd reg) direct server (readRegNet hw len direct reg val c) (0, snd (readRegNet hw len server reg 0xBADDD065 c))"
  by (simp add: readRegNet_eq nf2k_reg_read_def)

lemma proxied_write:
  "ioctl_ok (Wr reg v) server = ioctl_ok (Wr reg v) direct \<Longrightarrow>
   proxied len (Wr reg v) direct server (fst (writeRegNet hw len direct reg v c), val) (0, val2) \<and>
   snd (writeRegNet hw len server reg v c) = snd (writeRegNet hw len direct reg v c)"
  by (simp add: writeRegNet_eq)

lemma served_like_direct:
  assumes "direct_run hw len denv ops val c = (as, c')" and "\<forall>k<length ops. ioctl_ok (ops ! k) (senv k) = ioctl_ok (ops ! k) (denv k)"
  shows "\<exists>bs. served_run hw len senv ops val2 c = (bs, c') \<and> length bs = length ops \<and>
    (\<forall>k<length ops. proxied len (ops ! k) (denv k) (senv k) (as ! k) (bs ! k))"
  using assms
proof (induction ops arbitrary: denv senv val val2 c as)
  case (Cons op ops)
  have same: "ioctl_ok op (senv 0) = ioctl_ok op (denv 0)"
    "\<forall>k<length ops. ioctl_ok (ops ! k) (senv (Suc k)) = ioctl_ok (ops ! k) (denv (Suc k))" using Cons.prems(2) by force+
  show ?case
  proof (cases op)
    case (Rd reg)
    let ?a = "readRegNet hw len (denv 0) reg val c" and ?b = "(0, snd (readRegNet hw len (senv 0) reg 0xBADDD065 c))"
    obtain as1 where as: "as = ?a # as1" "direct_run hw len (\<lambda>k. denv (Suc k)) ops (snd ?a) c = (as1, c')"
      using Cons.prems(1) unfolding Rd by (auto simp: split_beta Let_def prod_eq_iff)
    obtain bs where "served_run hw len (\<lambda>k. senv (Suc k)) ops (snd ?b) c = (bs, c')" "length bs = length ops"
      "\<forall>k<length ops. proxied len (ops ! k) (denv (Suc k)) (senv (Suc k)) (as1 ! k) (bs ! k)"
      using Cons.IH[OF as(2) same(2), of "snd ?b"] by blast
    then show ?thesis using proxied_read[OF same(1)[unfolded Rd], of len hw val c]
      by (intro exI[of _ "?b # bs"]) (simp add: Rd as(1) All_less_Suc2 Let_def del: proxied.simps ioctl_ok.simps)
  next
    case (Wr reg v)
    let ?w = "writeRegNet hw len (denv 0) reg v c"
    obtain as1 where as: "as = (fst ?w, val) # as1" "direct_run hw len (\<lambda>k. denv (Suc k)) ops val (snd ?w) = (as1, c')"
      using Cons.prems(1) unfolding Wr by (auto simp: split_beta Let_def prod_eq_iff)
    obtain bs where "served_run hw len (\<lambda>k. senv (Suc k)) ops val2 (snd ?w) = (bs, c')" "length bs = length ops"
      "\<forall>k<length ops. proxied len (ops ! k) (denv (Suc k)) (senv (Suc k)) (as1 ! k) (bs ! k)"
      using Cons.IH[OF as(2) same(2), of val2] by blast
    then show ?thesis using proxied_write[OF same(1)[unfolded Wr], of len hw c val val2]
      by (intro exI[of _ "(0, val2) # bs"]) (simp add: Wr as(1) All_less_Suc2 Let_def del: proxied.simps ioctl_ok.simps)
  qed
qed simp

text \<open>
  C38. A session over the proxy against the same accesses at the card. Whatever the pieces and interruptions in which the requests of the session reach the server, and
  its answers the client, and however little each write takes; and let those requests to the driver fail in the server that fail in the process with direct access. Then the server serves the session to its end and returns success, having changed only the card of the
  session, as direct access changes it; and the client opens, gets a result for every access, and closes, having sent the bytes the server read. The results are those of direct access for the accesses of the card whose request to the driver succeeds; where it fails, direct access reports \<open>-1\<close>,
  but the proxy reports success, with the filler \<open>0xBADDD065\<close> as the value of a read, because the server ignores the result (\<open>proxied\<close>).
\<close>

theorem proxy_is_direct:
  assumes "fd nf2 = int d" and "d < 256" and "d < length cs" and "direct_run (hws ! d) len denv ops val (cs ! d) = (as, c')"
    and "\<forall>k<length ops. ioctl_ok (ops ! k) (senv (Suc k)) = ioctl_ok (ops ! k) (denv k)"
    and "bytes_of es = session_bytes nf2 ops" and "writes_ok ws (16 * length ops + 32)"
  shows "\<exists>answers ws1 es1 bs. parse_request hws len senv (ws, [], es) cs = Some (0, (ws1, answers, es1), cs[d := c']) \<and>
    length bs = length ops \<and> (\<forall>k<length ops. proxied len (ops ! k) (denv k) (senv (Suc k)) (as ! k) (bs ! k)) \<and>
    (\<forall>es2 ws2. bytes_of es2 = answers \<longrightarrow> writes_ok ws2 (16 * length ops + 32) \<longrightarrow>
      (\<exists>ws3 es3. proxy_session nf2 ops val (Some (ws2, [], es2)) = Some (0, bs, 0, ws3, session_bytes nf2 ops, es3)))"
proof -
  obtain bs where bs: "served_run (hws ! d) len (\<lambda>k. senv (Suc k)) ops val (cs ! d) = (bs, c')" "length bs = length ops"
    "\<forall>k<length ops. proxied len (ops ! k) (denv k) (senv (Suc k)) (as ! k) (bs ! k)"
    using served_like_direct[OF assms(4), of "\<lambda>k. senv (Suc k)" val] assms(5) by blast
  from session_served[OF assms(1-3) bs(1) assms(6,7)] bs(2,3) show ?thesis by blast
qed

text \<open>
  A connection that breaks is not noticed by the library: when the write of the request fails and then the read of the answer, \<open>proxy_readReg\<close> and \<open>proxy_writeReg\<close> report
  success, and the value read is the filler of the request.
\<close>

theorem broken_connection_unnoticed:
  "proxy_readReg nf2 reg val (Write_failed # ws, out, Broken # es) = Some (0, 0xBADDD065, ws, out, es) \<and>
   proxy_writeReg nf2 reg val (Write_failed # ws, out, Broken # es) = Some (0, ws, out, es)"
proof -
  have w: "writen 16 (Write_failed # ws) (enc_req req) out = Some (- 1, out, ws)" for req by (simp add: enc_req_def)
  have r: "readn 16 [] (Broken # es) = Some (- 1, [], es)" by (simp add: readn.simps)
  have "sendRequest req (Write_failed # ws, out, Broken # es) = Some (0, req, ws, out, es)" for req by (simp add: sendRequest_def w r)
  then show ?thesis by (simp add: proxy_readReg_def proxy_writeReg_def reg_req_def)
qed


definition memory_card :: device where
  "memory_card log r = (case map_of (rev log) r of Some v \<Rightarrow> v | None \<Rightarrow> 0)"

definition first_card :: nf2device where
  "first_card = \<lparr>device_name = ''nf2c0'', fd = 0\<rparr>"

definition two_accesses :: "access list" where
  "two_accesses = [Wr 0x44 7, Rd 0x44]"

lemma two_accesses_bytes: "length (session_bytes first_card two_accesses) = 64"
  by (simp add: session_bytes_def two_accesses_def)

definition two_pieces :: "byte arrival list" where
  "two_pieces = [Data (take 5 (session_bytes first_card two_accesses)), Interrupt, Data (drop 5 (session_bytes first_card two_accesses))]"

lemma two_pieces_bytes: "bytes_of two_pieces = session_bytes first_card two_accesses"
proof -
  have "session_bytes first_card two_accesses \<noteq> []" "drop 5 (session_bytes first_card two_accesses) \<noteq> []"
    using two_accesses_bytes by auto
  then show ?thesis by (simp add: two_pieces_def)
qed

text \<open>A write that succeeds, and a read whose request fails.\<close>

definition read_fails :: "nat \<Rightarrow> ioctl_env" where
  "read_fails k = \<lparr>copies_in = True, copies_out = k < 2, stack_junk = 1\<rparr>"

theorem proxy_is_direct_witness:
  "\<exists>answers ws1 es1. parse_request [memory_card] 0x8000000 read_fails (replicate 64 (Took 1), [], two_pieces) [new_card]
      = Some (0, (ws1, answers, es1), [iowrite32 7 0x44 new_card]) \<and>
    (\<forall>es2 ws2. bytes_of es2 = answers \<longrightarrow> writes_ok ws2 64 \<longrightarrow>
      (\<exists>bs ws3 es3. proxy_session first_card two_accesses 9 (Some (ws2, [], es2)) =
        Some (0, bs, 0, ws3, session_bytes first_card two_accesses, es3) \<and> bs ! 1 = (0, 0xBADDD065)))"
proof -
  have len: "length two_accesses = 2" "two_accesses ! 0 = Wr 0x44 7" "two_accesses ! 1 = Rd 0x44" by (simp_all add: two_accesses_def)
  have "direct_run memory_card 0x8000000 (\<lambda>k. read_fails (Suc k)) two_accesses 9 new_card = ([(0, 9), (- 1, 9)], iowrite32 7 0x44 new_card)"
    by (simp add: two_accesses_def readRegNet_eq writeRegNet_eq nf2k_reg_write_def read_fails_def)
  moreover have "writes_ok (replicate 64 (Took 1)) (16 * length two_accesses + 32)" by (simp add: writes_ok_def two_accesses_def)
  ultimately obtain answers ws1 es1 bs where r: "parse_request [memory_card] 0x8000000 read_fails (replicate 64 (Took 1), [], two_pieces) [new_card]
      = Some (0, (ws1, answers, es1), [iowrite32 7 0x44 new_card])"
    "\<forall>k<length two_accesses. proxied 0x8000000 (two_accesses ! k) (read_fails (Suc k)) (read_fails (Suc k)) ([(0, 9), (- 1, 9)] ! k) (bs ! k)"
    "\<forall>es2 ws2. bytes_of es2 = answers \<longrightarrow> writes_ok ws2 (16 * length two_accesses + 32) \<longrightarrow>
      (\<exists>ws3 es3. proxy_session first_card two_accesses 9 (Some (ws2, [], es2)) = Some (0, bs, 0, ws3, session_bytes first_card two_accesses, es3))"
    using proxy_is_direct[of first_card 0 "[new_card]" "[memory_card]" "0x8000000" "\<lambda>k. read_fails (Suc k)" two_accesses 9 _ _ read_fails two_pieces "replicate 64 (Took 1)"]
    by (auto simp: two_pieces_bytes first_card_def)
  have "16 * length two_accesses + 32 = 64" by (simp add: len)
  note client = r(3)[unfolded this]
  from r(2)[rule_format, of 1] have "bs ! 1 = (0, 0xBADDD065)" unfolding len by (simp add: read_fails_def)
  with client r(1) show ?thesis by blast
qed

end
