(* ===== verification/Nf_Download.thy ===== *)
theory Nf_Download
  imports Headers Device_Info Reg_Proxy
begin

text \<open>
  The program that loads a design into the FPGA (\<^verbatim>\<open>lib/C/download/nf_download.c\<close>): it strips the header of a bit file, writes the bit stream word by word to the programming
  interface of the CPCI, waits until the chip is programmed, resets it, and compares the versions. A card answers each access as it likes, depending on all accesses before it;
  an access may fail, which ends the program. The value \<open>None\<close> is a write past a buffer, or a loop that does not end.
\<close>

section \<open>Accesses\<close>

record board =
  b_read :: "access list \<Rightarrow> u32 \<Rightarrow> u32 option"
  b_write :: "access list \<Rightarrow> u32 \<Rightarrow> bool"

datatype 'a run = Done 'a "access list" | Exit int "access list"

definition and_then :: "'a run outcome \<Rightarrow> ('a \<Rightarrow> access list \<Rightarrow> 'b run outcome) \<Rightarrow> 'b run outcome" where
  "and_then m f = (case m of None \<Rightarrow> None | Some (Exit n log) \<Rightarrow> Some (Exit n log) | Some (Done v log) \<Rightarrow> f v log)"

lemma and_then_simps [simp]: "and_then (Some (Done v log)) f = f v log" "and_then (Some (Exit n log)) f = Some (Exit n log)" "and_then None f = None"
  by (simp_all add: and_then_def)

lemma and_then_cong [fundef_cong]: "m = m' \<Longrightarrow> (\<And>v log. m' = Some (Done v log) \<Longrightarrow> f v log = g v log) \<Longrightarrow> and_then m f = and_then m' g"
  by (auto simp: and_then_def split: option.splits run.splits)

definition NF2_RD32 :: "board \<Rightarrow> u32 \<Rightarrow> access list \<Rightarrow> u32 run outcome" where
  "NF2_RD32 b addr log = Some (case b_read b log addr of Some v \<Rightarrow> Done v (log @ [Rd addr]) | None \<Rightarrow> Exit 1 (log @ [Rd addr]))"

definition NF2_WR32 :: "board \<Rightarrow> u32 \<Rightarrow> u32 \<Rightarrow> access list \<Rightarrow> unit run outcome" where
  "NF2_WR32 b addr data log = Some (if b_write b log addr then Done () (log @ [Wr addr data]) else Exit 1 (log @ [Wr addr data]))"

abbreviation (input) CPCI_PROGRAMMING_DATA :: u32 where "CPCI_PROGRAMMING_DATA \<equiv> 0x100"
abbreviation (input) CPCI_PROGRAMMING_STATUS :: u32 where "CPCI_PROGRAMMING_STATUS \<equiv> 0x104"
abbreviation (input) CPCI_PROGRAMMING_CONTROL :: u32 where "CPCI_PROGRAMMING_CONTROL \<equiv> 0x108"
abbreviation (input) CPCI_ERROR :: u32 where "CPCI_ERROR \<equiv> 0x10"
abbreviation (input) CPCI_ID :: u32 where "CPCI_ID \<equiv> 0"
abbreviation (input) CPCI_CTRL :: u32 where "CPCI_CTRL \<equiv> 8"
abbreviation (input) VIRTEX_PROGRAM_CTRL_ADDR :: u32 where "VIRTEX_PROGRAM_CTRL_ADDR \<equiv> 0x440000"
abbreviation (input) VIRTEX_PROGRAM_RAM_BASE_ADDR :: u32 where "VIRTEX_PROGRAM_RAM_BASE_ADDR \<equiv> 0x480000"
abbreviation (input) READ_BUFFER_SIZE :: nat where "READ_BUFFER_SIZE \<equiv> 4096"

section \<open>The header of a bit file\<close>

text \<open>The buffer and the rest of the file. \<open>fread\<close> of more bytes than the buffer has writes past its end, if the file has them.\<close>

definition fread_buf :: "nat \<Rightarrow> byte list \<times> byte list \<Rightarrow> (byte list \<times> byte list) outcome" where
  "fread_buf n = (\<lambda>(buf, rest). if length (take n rest) > length buf then None
     else Some (take n rest @ drop (length (take n rest)) buf, drop n rest))"

definition be16_at :: "byte list \<Rightarrow> nat \<Rightarrow> nat outcome" where
  "be16_at buf i = (if i + 1 < length buf then Some (unat (buf ! i) * 256 + unat (buf ! (i + 1))) else None)"

definition print_field :: "byte list \<Rightarrow> string outcome" where
  "print_field buf = cstring (map char_at buf)"

definition StripHeader :: "byte list \<Rightarrow> byte list \<Rightarrow> (string list \<times> byte list) outcome" where
  "StripHeader junk code_file = do {
     (code_header, rest) \<leftarrow> fread_buf 2 (junk, code_file);
     if code_file \<noteq> [] \<and> (code_header ! 0 \<noteq> 0xff \<or> code_header ! 1 \<noteq> 0xff) then do {
       header_len \<leftarrow> be16_at code_header 0;
       (code_header, rest) \<leftarrow> fread_buf (header_len + 2 + 1 + 2) (code_header, rest);
       header_len \<leftarrow> be16_at code_header (header_len + 2 + 1);
       (code_header, rest) \<leftarrow> fread_buf (header_len + 1 + 2) (code_header, rest);
       built \<leftarrow> print_field code_header;
       header_len \<leftarrow> be16_at code_header (header_len + 1);
       (code_header, rest) \<leftarrow> fread_buf (header_len + 1 + 2) (code_header, rest);
       part \<leftarrow> print_field code_header;
       header_len \<leftarrow> be16_at code_header (header_len + 1);
       (code_header, rest) \<leftarrow> fread_buf (header_len + 1 + 2) (code_header, rest);
       date \<leftarrow> print_field code_header;
       header_len \<leftarrow> be16_at code_header (header_len + 1);
       (code_header, rest) \<leftarrow> fread_buf (header_len + 1 + 4) (code_header, rest);
       time \<leftarrow> print_field code_header;
       Some ([''Bit file built from: '' @ built @ [LF], ''Part: '' @ part @ [LF], ''Date: '' @ date @ [LF], ''Time: '' @ time @ [LF]], rest) }
     else Some ([], code_file) }"

section \<open>The bit stream\<close>

definition byte_at :: "byte list \<Rightarrow> nat \<Rightarrow> byte" where
  "byte_at bs i = (if i < length bs then bs ! i else 0)"

text \<open>The wait for the FIFO after each 8 words. The second read of the status only decides whether \<open>Giving up\<close> is logged; the loop goes on.\<close>

partial_function (option) wait_fifo :: "board \<Rightarrow> access list \<Rightarrow> unit run outcome" where
  "wait_fifo b log =
     (case NF2_RD32 b CPCI_PROGRAMMING_STATUS log of
        None \<Rightarrow> None
      | Some r \<Rightarrow> (case r of Exit n log \<Rightarrow> Some (Exit n log)
          | Done result log \<Rightarrow>
              if result AND 0x10002 \<noteq> 2 \<and> result AND 0x100 \<noteq> 0x100 then
                if result AND 0x10000 \<noteq> 0 then Some (Exit 1 log)
                else (case NF2_RD32 b CPCI_PROGRAMMING_STATUS log of
                        None \<Rightarrow> None
                      | Some r \<Rightarrow> (case r of Exit n log \<Rightarrow> Some (Exit n log) | Done _ log \<Rightarrow> wait_fifo b log))
              else Some (Done () log)))"

function virtex_words :: "board \<Rightarrow> nat \<Rightarrow> byte list \<Rightarrow> access list \<Rightarrow> unit run outcome" where
  "virtex_words b cnt code_data log =
     (if code_data = [] then Some (Done () log)
      else
        let data_word = le32 (byte_at code_data 0) (byte_at code_data 1) (byte_at code_data 2) (byte_at code_data 3) in
        and_then (NF2_WR32 b CPCI_PROGRAMMING_DATA data_word log) (\<lambda>_ log.
          if cnt + 1 = 8 then and_then (wait_fifo b log) (\<lambda>_ log. virtex_words b 0 (drop 4 code_data) log)
          else virtex_words b (cnt + 1) (drop 4 code_data) log))"
  by pat_completeness auto

termination by (relation "measure (\<lambda>(_, _, bs, _). length bs)") auto

declare virtex_words.simps [simp del]

definition DownloadVirtexCodeBlock :: "board \<Rightarrow> byte list \<Rightarrow> access list \<Rightarrow> unit run outcome" where
  "DownloadVirtexCodeBlock b code_data log = virtex_words b 0 code_data log"

function DownloadCPCICodeBlock :: "board \<Rightarrow> byte list \<Rightarrow> u32 \<Rightarrow> access list \<Rightarrow> u32 run outcome" where
  "DownloadCPCICodeBlock b code_data prog_addr log =
     (if code_data = [] then Some (Done prog_addr log)
      else
        let data_word = le32 (byte_at code_data 3) (byte_at code_data 2) (byte_at code_data 1) (byte_at code_data 0) in
        and_then (NF2_WR32 b prog_addr data_word log) (\<lambda>_ log. DownloadCPCICodeBlock b (drop 4 code_data) (prog_addr + 4) log))"
  by pat_completeness auto

termination by (relation "measure (\<lambda>(_, bs, _, _). length bs)") auto

declare DownloadCPCICodeBlock.simps [simp del]

function code_blocks :: "board \<Rightarrow> bool \<Rightarrow> byte list \<Rightarrow> nat \<Rightarrow> u32 \<Rightarrow> access list \<Rightarrow> nat run outcome" where
  "code_blocks b cpci_reprog code_file bytes_sent prog_addr log =
     (if code_file = [] then Some (Done bytes_sent log)
      else
        let code_data = take READ_BUFFER_SIZE code_file in
        and_then (if cpci_reprog then DownloadCPCICodeBlock b code_data prog_addr log
                  else and_then (DownloadVirtexCodeBlock b code_data log) (\<lambda>_ log. Some (Done prog_addr log)))
          (\<lambda>prog_addr log. code_blocks b cpci_reprog (drop READ_BUFFER_SIZE code_file) (bytes_sent + length code_data) prog_addr log))"
  by pat_completeness auto

termination by (relation "measure (\<lambda>(_, _, bs, _). length bs)") auto

declare code_blocks.simps [simp del]

fun init_wait :: "board \<Rightarrow> nat \<Rightarrow> access list \<Rightarrow> unit run outcome" where
  "init_wait b 0 log = and_then (NF2_RD32 b CPCI_PROGRAMMING_STATUS log) (\<lambda>_ log. Some (Exit 1 log))"
| "init_wait b (Suc retries) log =
     and_then (NF2_RD32 b CPCI_PROGRAMMING_STATUS log) (\<lambda>result log.
       if result AND 0x10002 \<noteq> 0 then
         and_then (NF2_RD32 b CPCI_PROGRAMMING_STATUS log) (\<lambda>result log.
           if result AND 0x10000 \<noteq> 0 then init_wait b retries log else Some (Done () log))
       else Some (Done () log))"

definition reset_programming :: "board \<Rightarrow> access list \<Rightarrow> unit run outcome" where
  "reset_programming b log =
     and_then (NF2_WR32 b CPCI_PROGRAMMING_CONTROL 1 log) (\<lambda>_ log.
     and_then (NF2_WR32 b CPCI_ERROR 0 log) (\<lambda>_ log.
     and_then (NF2_RD32 b CPCI_PROGRAMMING_STATUS log) (\<lambda>result log.
       if result AND 0x102 \<noteq> 2 then Some (Exit 1 log)
       else and_then (NF2_RD32 b CPCI_ERROR log) (\<lambda>_ log. init_wait b 3 log))))"

fun done_wait :: "board \<Rightarrow> nat \<Rightarrow> access list \<Rightarrow> unit run outcome" where
  "done_wait b 0 log = Some (Done () log)"
| "done_wait b (Suc tries) log =
     and_then (NF2_RD32 b CPCI_PROGRAMMING_STATUS log) (\<lambda>result log.
       if result AND 0x100 = 0x100 then Some (Done () log)
       else if result AND 0x10000 = 0x10000 then Some (Exit 1 log)
       else if tries = 0 then Some (Exit 1 log)
       else done_wait b tries log)"

definition expected_size :: "bool \<Rightarrow> u32 \<Rightarrow> int" where
  "expected_size cpci_reprog version =
     (if cpci_reprog then 166980
      else if version = 1 then 1448740
      else if version = 2 \<or> version = 3 \<or> version = 4 then 2377668
      else - 1)"

text \<open>The result is the pair of numbers that is logged, of the bytes sent and of those expected.\<close>

definition DownloadCode :: "board \<Rightarrow> bool \<Rightarrow> byte list \<Rightarrow> access list \<Rightarrow> (nat \<times> int) run outcome" where
  "DownloadCode b cpci_reprog code_file log =
     and_then (NF2_RD32 b CPCI_ID log) (\<lambda>version log.
     and_then (if cpci_reprog then Some (Done () log) else reset_programming b log) (\<lambda>_ log.
     and_then (code_blocks b cpci_reprog code_file 0 VIRTEX_PROGRAM_RAM_BASE_ADDR log) (\<lambda>bytes_sent log.
     and_then (if cpci_reprog then NF2_WR32 b VIRTEX_PROGRAM_CTRL_ADDR 0x101 log else done_wait b 3 log) (\<lambda>_ log.
       Some (Done (bytes_sent, expected_size cpci_reprog (version AND 0xffffff)) log)))))"

section \<open>The program\<close>

definition BeginCodeDownload :: "board \<Rightarrow> bool \<Rightarrow> byte list \<Rightarrow> byte list option \<Rightarrow> access list \<Rightarrow> (string list \<times> nat \<times> int) run outcome" where
  "BeginCodeDownload b cpci_reprog junk codefile log =
     (case codefile of
        None \<Rightarrow> Some (Exit 1 log)
      | Some code_file \<Rightarrow>
          (case StripHeader junk code_file of
             None \<Rightarrow> None
           | Some (printed, rest) \<Rightarrow> and_then (DownloadCode b cpci_reprog rest log) (\<lambda>sizes log. Some (Done (printed, sizes) log))))"

definition ResetDevice :: "board \<Rightarrow> access list \<Rightarrow> unit run outcome" where
  "ResetDevice b log = and_then (NF2_RD32 b CPCI_CTRL log) (\<lambda>val log. NF2_WR32 b CPCI_CTRL (val OR 0x100) log)"

fun write_all :: "board \<Rightarrow> (u32 \<times> u32) list \<Rightarrow> access list \<Rightarrow> unit run outcome" where
  "write_all b [] log = Some (Done () log)"
| "write_all b ((a, v) # ws) log = and_then (NF2_WR32 b a v log) (\<lambda>_ log. write_all b ws log)"

text \<open>The registers of the card do not change while \<open>VerifyDevInfo\<close> reads them; a register whose read fails is left at \<open>junk\<close>.\<close>

definition VerifyDevInfo :: "board \<Rightarrow> u32 \<Rightarrow> bool \<Rightarrow> bool \<Rightarrow> access list \<Rightarrow> unit run outcome" where
  "VerifyDevInfo b junk ignore_dev_info cpci_reprog log =
     (if \<not> ignore_dev_info \<and> \<not> cpci_reprog then
        let info = nf2_read_info (\<lambda>r. case b_read b log (word_of_nat r) of Some v \<Rightarrow> v | None \<Rightarrow> junk) in
        if nf2device_id info = - 1 then Some (Done () log)
        else if cpci_version info \<noteq> nf2_cpci_version info then Some (Exit 1 log)
        else Some (Done () log)
      else Some (Done () log))"

definition nf_download :: "board \<Rightarrow> bool \<Rightarrow> bool \<Rightarrow> bool \<Rightarrow> byte list \<Rightarrow> u32 \<Rightarrow> byte list option \<Rightarrow> int run outcome" where
  "nf_download b cpci_reprog ignore_dev_info intr_enable junk junk_reg codefile =
     and_then (BeginCodeDownload b cpci_reprog junk codefile []) (\<lambda>_ log.
     and_then (if \<not> cpci_reprog then ResetDevice b log else Some (Done () log)) (\<lambda>_ log.
     and_then (write_all b [(0x440000, 0x8000), (0x440080, 0x8000), (0x440100, 0x8000), (0x440180, 0x8000)] log) (\<lambda>_ log.
     and_then (if intr_enable then write_all b [(0x44006c, 0xfffd), (0x4400ec, 0xfffd), (0x44016c, 0xfffd), (0x4401ec, 0xfffd)] log
               else Some (Done () log)) (\<lambda>_ log.
     and_then (VerifyDevInfo b junk_reg ignore_dev_info cpci_reprog log) (\<lambda>_ log. Some (Done 0 log))))))"

section \<open>Bit files\<close>

text \<open>
  The header of a bit file: a first field, then the name of the design, the part, the date and the time, each with a letter and its length before it and a zero at its end, and the length of
  the bit stream in four bytes.
\<close>

definition be16 :: "nat \<Rightarrow> byte list" where
  "be16 n = [word_of_nat (n div 256), word_of_nat (n mod 256)]"

definition text_field :: "string \<Rightarrow> byte list" where
  "text_field s = map byte_of s @ [0]"

definition bit_header :: "byte list \<Rightarrow> string \<Rightarrow> string \<Rightarrow> string \<Rightarrow> string \<Rightarrow> byte list \<Rightarrow> byte list" where
  "bit_header f ncd part date time lens =
     be16 (length f) @ f @ [0, 1, 0x61] @ be16 (length (text_field ncd)) @ text_field ncd @ 0x62 # be16 (length (text_field part)) @
     text_field part @ 0x63 # be16 (length (text_field date)) @ text_field date @ 0x64 # be16 (length (text_field time)) @ text_field time @ 0x65 # lens"

definition field_ok :: "string \<Rightarrow> bool" where
  "field_ok s \<longleftrightarrow> NUL \<notin> set s \<and> length s < 4090"

lemma be16_length [simp]: "length (be16 n) = 2" "length (text_field s) = Suc (length s)"
  by (simp_all add: be16_def text_field_def)

lemma be16_at_be16:
  assumes "n < 65536"
  shows "be16_at (xs @ be16 n @ rest) (length xs) = Some n"
proof -
  have "n div 256 < 256" using assms by auto
  then show ?thesis by (simp add: be16_at_def be16_def nth_append unat_of_nat)
qed

lemma print_field_text: "NUL \<notin> set s \<Longrightarrow> print_field (text_field s @ rest) = Some s"
proof -
  have "char_at 0 = NUL" by (simp add: char_at_def) code_simp
  then show "NUL \<notin> set s \<Longrightarrow> ?thesis" by (simp add: print_field_def text_field_def comp_def)
qed

lemma fread_exact:
  assumes "length xs = n" and "n \<le> length buf"
  shows "fread_buf n (buf, xs @ rest) = Some (xs @ drop n buf, rest)"
  using assms by (simp add: fread_buf_def)

lemma read_field:
  assumes "field_ok s" and "length buf = 4096" and "n < 65536"
  shows "\<exists>buf'. fread_buf (length (text_field s) + 1 + 2) (buf, text_field s @ t # be16 n @ rest) = Some (buf', rest)
    \<and> print_field buf' = Some s \<and> be16_at buf' (length (text_field s) + 1) = Some n \<and> length buf' = 4096"
proof -
  let ?b = "(text_field s @ [t]) @ be16 n @ drop (length (text_field s) + 1 + 2) buf"
  have "length (text_field s @ t # be16 n) = length (text_field s) + 1 + 2" "length (text_field s) + 1 + 2 \<le> length buf"
    using assms by (simp_all add: field_ok_def)
  from fread_exact[OF this] have "fread_buf (length (text_field s) + 1 + 2) (buf, text_field s @ t # be16 n @ rest) = Some (?b, rest)" by simp
  moreover have "print_field ?b = Some s" using print_field_text[of s] assms(1) by (simp add: field_ok_def)
  moreover have "be16_at ?b (length (text_field s) + 1) = Some n" using be16_at_be16[OF assms(3), of "text_field s @ [t]"] by simp
  moreover have "length ?b = 4096" using assms by (simp add: field_ok_def)
  ultimately show ?thesis by blast
qed

lemma read_last_field:
  assumes "field_ok s" and "length buf = 4096" and "length lens = 4"
  shows "\<exists>buf'. fread_buf (length (text_field s) + 1 + 4) (buf, text_field s @ t # lens @ rest) = Some (buf', rest) \<and> print_field buf' = Some s"
proof -
  have "length (text_field s @ t # lens) = length (text_field s) + 1 + 4" "length (text_field s) + 1 + 4 \<le> length buf"
    using assms by (simp_all add: field_ok_def)
  from fread_exact[OF this] show ?thesis using print_field_text[of s] assms(1) by (simp add: field_ok_def)
qed

lemma header_stripped:
  assumes "length junk = 4096" and "length f < 4090" and ok: "field_ok ncd" "field_ok part" "field_ok date" "field_ok time" and "length lens = 4"
  shows "StripHeader junk (bit_header f ncd part date time lens @ data) =
    Some ([''Bit file built from: '' @ ncd @ [LF], ''Part: '' @ part @ [LF], ''Date: '' @ date @ [LF], ''Time: '' @ time @ [LF]], data)"
proof -
  let ?t5 = "text_field time @ 0x65 # lens @ data"
  let ?t4 = "text_field date @ 0x64 # be16 (length (text_field time)) @ ?t5"
  let ?t3 = "text_field part @ 0x63 # be16 (length (text_field date)) @ ?t4"
  let ?t2 = "text_field ncd @ 0x62 # be16 (length (text_field part)) @ ?t3"
  let ?h = "f @ [0, 1, 0x61]" and ?n = "be16 (length (text_field ncd))"
  have whole: "bit_header f ncd part date time lens @ data = be16 (length f) @ ?h @ ?n @ ?t2" by (simp add: bit_header_def)
  have small: "length (text_field s) < 65536" if "field_ok s" for s using that by (simp add: field_ok_def)
  have b0: "fread_buf 2 (junk, be16 (length f) @ ?h @ ?n @ ?t2) = Some (be16 (length f) @ drop 2 junk, ?h @ ?n @ ?t2)"
    using assms(1) by (intro fread_exact) simp_all
  have l0: "be16_at (be16 (length f) @ drop 2 junk) 0 = Some (length f)" using be16_at_be16[of "length f" "[]"] assms(2) by simp
  have "length f div 256 < 16" using assms(2) by auto
  then have first: "(be16 (length f) @ drop 2 junk) ! 0 \<noteq> 0xff" by (simp add: be16_def unat_of_nat word_unat_eq_iff)
  define buf1 where "buf1 = ?h @ ?n @ drop (length f + 2 + 1 + 2) (be16 (length f) @ drop 2 junk)"
  have b1: "fread_buf (length f + 2 + 1 + 2) (be16 (length f) @ drop 2 junk, ?h @ ?n @ ?t2) = Some (buf1, ?t2)"
    using fread_exact[of "?h @ ?n" "length f + 2 + 1 + 2" "be16 (length f) @ drop 2 junk" ?t2] assms(1,2) by (simp add: buf1_def)
  have l1: "be16_at buf1 (length f + 2 + 1) = Some (length (text_field ncd))"
    using be16_at_be16[OF small[OF ok(1)], of ?h] unfolding buf1_def by simp
  have "length buf1 = 4096" using assms(1,2) by (simp add: buf1_def)
  from read_field[OF ok(1) this small[OF ok(2)], of "0x62" ?t3] obtain buf2 where
    b2: "fread_buf (length (text_field ncd) + 1 + 2) (buf1, ?t2) = Some (buf2, ?t3)" "print_field buf2 = Some ncd"
      "be16_at buf2 (length (text_field ncd) + 1) = Some (length (text_field part))" "length buf2 = 4096" by blast
  from read_field[OF ok(2) b2(4) small[OF ok(3)], of "0x63" ?t4] obtain buf3 where
    b3: "fread_buf (length (text_field part) + 1 + 2) (buf2, ?t3) = Some (buf3, ?t4)" "print_field buf3 = Some part"
      "be16_at buf3 (length (text_field part) + 1) = Some (length (text_field date))" "length buf3 = 4096" by blast
  from read_field[OF ok(3) b3(4) small[OF ok(4)], of "0x64" ?t5] obtain buf4 where
    b4: "fread_buf (length (text_field date) + 1 + 2) (buf3, ?t4) = Some (buf4, ?t5)" "print_field buf4 = Some date"
      "be16_at buf4 (length (text_field date) + 1) = Some (length (text_field time))" "length buf4 = 4096" by blast
  from read_last_field[OF ok(4) b4(4) assms(7), of "0x65" data] obtain buf5 where
    b5: "fread_buf (length (text_field time) + 1 + 4) (buf4, ?t5) = Some (buf5, data)" "print_field buf5 = Some time" by blast
  have "be16 (length f) @ ?h @ ?n @ ?t2 \<noteq> []" by (simp add: be16_def)
  then show ?thesis unfolding whole StripHeader_def
    by (simp only: b0 l0 b1 l1 b2 b3 b4 b5 first bind.bind_lunit prod.case simp_thms if_True not_False_eq_True)
qed

section \<open>The words\<close>

definition written :: "u32 \<Rightarrow> access list \<Rightarrow> u32 list" where
  "written a log = concat (map (\<lambda>x. case x of Wr r v \<Rightarrow> if r = a then [v] else [] | Rd _ \<Rightarrow> []) log)"

lemma written_simps [simp]:
  "written a [] = []" "written a (log @ log') = written a log @ written a log'" "written a (Rd r # log) = written a log"
  "written a (Wr r v # log) = (if r = a then v # written a log else written a log)"
  by (simp_all add: written_def)

function le_words :: "byte list \<Rightarrow> u32 list" where
  "le_words bs = (if bs = [] then [] else le32 (byte_at bs 0) (byte_at bs 1) (byte_at bs 2) (byte_at bs 3) # le_words (drop 4 bs))"
  by pat_completeness auto

termination by (relation "measure length") auto

declare le_words.simps [simp del]

lemma le_words_Nil [simp]: "le_words [] = []"
  by (simp add: le_words.simps)

lemma le_words_four: "le_words (a # b # c # d # bs) = le32 a b c d # le_words bs"
  by (simp add: le_words.simps[of "a # _"] byte_at_def)

lemma le_words_append:
  assumes "4 dvd length xs"
  shows "le_words (xs @ ys) = le_words xs @ le_words ys"
  using assms
proof (induction xs rule: length_induct)
  case (1 xs)
  show ?case
  proof (cases "xs = []")
    case False
    with 1(2) have "4 \<le> length xs" by (simp add: dvd_imp_le)
    then obtain a b c d zs where "xs = a # b # c # d # zs" by (auto simp: numeral_eq_Suc Suc_le_length_iff)
    moreover from this 1(2) have "4 dvd length zs" by simp presburger
    ultimately show ?thesis using 1(1) by (simp add: le_words_four)
  qed simp
qed

lemma byte_at_bytes: "take (length bs) [byte_at bs 0, byte_at bs 1, byte_at bs 2, byte_at bs 3] = take 4 bs"
  by (rule nth_equalityI) (auto simp: byte_at_def less_Suc_eq numeral_eq_Suc)

lemma enc32_le32: "enc32 (le32 a b c d) = [a, b, c, d]"
  by (simp add: enc32_def)

lemma le_words_bytes: "take (length bs) (concat (map enc32 (le_words bs))) = bs" "length (le_words bs) = (length bs + 3) div 4"
proof (induction bs rule: le_words.induct)
  case (1 bs)
  { case 1
    show ?case
    proof (cases "bs = []")
      case False
      then have "concat (map enc32 (le_words bs)) =
          [byte_at bs 0, byte_at bs 1, byte_at bs 2, byte_at bs 3] @ concat (map enc32 (le_words (drop 4 bs)))"
        by (simp add: le_words.simps[of bs] enc32_le32)
      then show ?thesis using "1.IH"(1)[OF False] byte_at_bytes[of bs] by (simp only: take_append) (simp add: numeral_eq_Suc)
    qed simp }
  { case 2
    have "Suc ((m - 4 + 3) div 4) = (m + 3) div 4" if "0 < m" for m :: nat using that by presburger
    then show ?case using "1.IH"(2) by (cases "bs = []") (auto simp: le_words.simps[of bs]) }
qed

section \<open>A card that takes the design\<close>

text \<open>Accesses work; the FIFO is always empty in time and INIT is inactive; DONE goes high with word \<open>n\<close>.\<close>

definition ready_board :: "nat \<Rightarrow> board \<Rightarrow> bool" where
  "ready_board n b \<longleftrightarrow> (\<forall>log. (\<forall>a. b_write b log a) \<and> (\<forall>a. b_read b log a \<noteq> None) \<and>
     the (b_read b log CPCI_PROGRAMMING_STATUS) AND 0x10102 = (if length (written CPCI_PROGRAMMING_DATA log) < n then 2 else 0x102))"

lemma ready_access:
  assumes "ready_board n b"
  shows "NF2_WR32 b a v log = Some (Done () (log @ [Wr a v]))" "\<exists>v. NF2_RD32 b a log = Some (Done v (log @ [Rd a]))"
  using assms by (auto simp: ready_board_def NF2_WR32_def NF2_RD32_def split: option.splits)

lemma ready_status:
  assumes "ready_board n b"
  obtains v where "NF2_RD32 b CPCI_PROGRAMMING_STATUS log = Some (Done v (log @ [Rd CPCI_PROGRAMMING_STATUS]))"
    "v AND 0x10002 = 2" "v AND 0x10000 = 0" "v AND 0x102 = (if length (written CPCI_PROGRAMMING_DATA log) < n then 2 else 0x102)"
    "v AND 0x100 = (if length (written CPCI_PROGRAMMING_DATA log) < n then 0 else 0x100)"
proof -
  obtain v where v: "b_read b log CPCI_PROGRAMMING_STATUS = Some v"
      "v AND 0x10102 = (if length (written CPCI_PROGRAMMING_DATA log) < n then 2 else 0x102)"
    using assms by (fastforce simp: ready_board_def)
  have "v AND 0x10002 = (v AND 0x10102) AND 0x10002" "v AND 0x10000 = (v AND 0x10102) AND 0x10000"
    "v AND 0x102 = (v AND 0x10102) AND 0x102" "v AND 0x100 = (v AND 0x10102) AND 0x100" by (simp_all add: and.assoc)
  with v that show ?thesis by (simp add: NF2_RD32_def)
qed

lemma wait_fifo_ready: "ready_board n b \<Longrightarrow> wait_fifo b log = Some (Done () (log @ [Rd CPCI_PROGRAMMING_STATUS]))"
  by (rule ready_status[of n b log], assumption) (simp add: wait_fifo.simps)

lemma virtex_words_ready:
  assumes "ready_board n b"
  shows "\<exists>log'. virtex_words b cnt bs log = Some (Done () log') \<and> written CPCI_PROGRAMMING_DATA log' = written CPCI_PROGRAMMING_DATA log @ le_words bs"
proof (induction bs arbitrary: cnt log rule: le_words.induct)
  case (1 bs)
  show ?case
  proof (cases "bs = []")
    case False
    let ?w = "le32 (byte_at bs 0) (byte_at bs 1) (byte_at bs 2) (byte_at bs 3)"
    obtain cnt' log1 where "virtex_words b cnt bs log = virtex_words b cnt' (drop 4 bs) log1"
        "written CPCI_PROGRAMMING_DATA log1 = written CPCI_PROGRAMMING_DATA log @ [?w]"
      using False that[of 0] that[of "cnt + 1"]
      by (cases "cnt + 1 = 8") (simp_all add: virtex_words.simps[of b cnt bs] ready_access(1)[OF assms] wait_fifo_ready[OF assms])
    then show ?thesis using "1.IH"[OF False, of cnt' log1] False by (simp add: le_words.simps[of bs])
  qed (simp add: virtex_words.simps)
qed

lemma code_blocks_ready:
  assumes "ready_board n b"
  shows "\<exists>log'. code_blocks b False bs k addr log = Some (Done (k + length bs) log') \<and>
    written CPCI_PROGRAMMING_DATA log' = written CPCI_PROGRAMMING_DATA log @ le_words bs"
proof (induction bs arbitrary: k log rule: length_induct)
  case (1 bs)
  show ?case
  proof (cases "bs = []")
    case False
    obtain log1 where l: "virtex_words b 0 (take 4096 bs) log = Some (Done () log1)"
        "written CPCI_PROGRAMMING_DATA log1 = written CPCI_PROGRAMMING_DATA log @ le_words (take 4096 bs)"
      using virtex_words_ready[OF assms] by blast
    have "le_words bs = le_words (take 4096 bs) @ le_words (drop 4096 bs)"
      using le_words_append[of "take 4096 bs" "drop 4096 bs"] by (cases "length bs < 4096") simp_all
    moreover obtain log2 where "code_blocks b False (drop 4096 bs) (k + min (length bs) 4096) addr log1 = Some (Done (k + length bs) log2)"
        "written CPCI_PROGRAMMING_DATA log2 = written CPCI_PROGRAMMING_DATA log1 @ le_words (drop 4096 bs)"
      using 1[rule_format, of "drop 4096 bs" "k + min (length bs) 4096" log1] False by auto
    ultimately show ?thesis using False l by (simp add: code_blocks.simps[of b False bs] DownloadVirtexCodeBlock_def)
  qed (simp add: code_blocks.simps)
qed

lemma reset_ready:
  assumes "ready_board n b" and "0 < n" and "written CPCI_PROGRAMMING_DATA log = []"
  shows "\<exists>log'. reset_programming b log = Some (Done () log') \<and> written CPCI_PROGRAMMING_DATA log' = []"
proof -
  let ?l = "log @ [Wr CPCI_PROGRAMMING_CONTROL 1, Wr CPCI_ERROR 0]"
  obtain v1 where 1: "NF2_RD32 b CPCI_PROGRAMMING_STATUS ?l = Some (Done v1 (?l @ [Rd CPCI_PROGRAMMING_STATUS]))" "v1 AND 0x102 = 2"
    using ready_status[OF assms(1), of ?l] assms(2,3) by auto
  let ?l1 = "?l @ [Rd CPCI_PROGRAMMING_STATUS, Rd CPCI_ERROR]"
  obtain e where e: "NF2_RD32 b CPCI_ERROR (?l @ [Rd CPCI_PROGRAMMING_STATUS]) = Some (Done e ?l1)"
    using ready_access(2)[OF assms(1), of CPCI_ERROR "?l @ [Rd CPCI_PROGRAMMING_STATUS]"] by auto
  obtain v2 where 2: "NF2_RD32 b CPCI_PROGRAMMING_STATUS ?l1 = Some (Done v2 (?l1 @ [Rd CPCI_PROGRAMMING_STATUS]))" "v2 AND 0x10002 = 2"
    using ready_status[OF assms(1), of ?l1] by metis
  let ?l2 = "?l1 @ [Rd CPCI_PROGRAMMING_STATUS]"
  obtain v3 where 3: "NF2_RD32 b CPCI_PROGRAMMING_STATUS ?l2 = Some (Done v3 (?l2 @ [Rd CPCI_PROGRAMMING_STATUS]))" "v3 AND 0x10000 = 0"
    using ready_status[OF assms(1), of ?l2] by metis
  have "init_wait b (Suc 2) ?l1 = Some (Done () (?l2 @ [Rd CPCI_PROGRAMMING_STATUS]))" using 2 3 by (simp only: init_wait.simps and_then_simps) simp
  then show ?thesis using 1 e assms(3) by (simp add: reset_programming_def ready_access(1)[OF assms(1)])
qed

text \<open>
  C39. A design is downloaded completely and in order. Given a bit file with its header and a bit stream that is not empty, and a card that takes words as fast as the program writes
  them and raises DONE after the last one, \<open>nf_download\<close> prints the four fields of the header, reports the length of the stream, and ends its download without an error; the words
  it has written to the programming register, least significant byte first, are the bytes of the stream, with at most three bytes behind them, and nothing of the header.
\<close>

theorem design_downloaded:
  assumes "length junk = 4096" and "length f < 4090" and "field_ok ncd" and "field_ok part" and "field_ok date" and "field_ok time" and "length lens = 4"
    and "data \<noteq> []" and "ready_board ((length data + 3) div 4) b"
  shows "\<exists>expected log. BeginCodeDownload b False junk (Some (bit_header f ncd part date time lens @ data)) [] =
      Some (Done ([''Bit file built from: '' @ ncd @ [LF], ''Part: '' @ part @ [LF], ''Date: '' @ date @ [LF], ''Time: '' @ time @ [LF]], length data, expected) log)
    \<and> length (written CPCI_PROGRAMMING_DATA log) = (length data + 3) div 4
    \<and> take (length data) (concat (map enc32 (written CPCI_PROGRAMMING_DATA log))) = data"
proof -
  note rb = assms(9)
  obtain ver where ver: "NF2_RD32 b CPCI_ID [] = Some (Done ver [Rd CPCI_ID])" using ready_access(2)[OF rb, of CPCI_ID "[]"] by auto
  have "0 < (length data + 3) div 4" using assms(8) by (cases data) auto
  from reset_ready[OF rb this, of "[Rd CPCI_ID]"] obtain l1 where l1: "reset_programming b [Rd CPCI_ID] = Some (Done () l1)" "written CPCI_PROGRAMMING_DATA l1 = []"
    by auto
  from code_blocks_ready[OF rb, of data 0 VIRTEX_PROGRAM_RAM_BASE_ADDR l1] obtain l2 where
    l2: "code_blocks b False data 0 VIRTEX_PROGRAM_RAM_BASE_ADDR l1 = Some (Done (length data) l2)" "written CPCI_PROGRAMMING_DATA l2 = le_words data"
    using l1(2) by auto
  obtain v where v: "NF2_RD32 b CPCI_PROGRAMMING_STATUS l2 = Some (Done v (l2 @ [Rd CPCI_PROGRAMMING_STATUS]))" "v AND 0x100 = 0x100"
    using ready_status[OF rb, of l2] l2(2) le_words_bytes(2)[of data] by auto
  have "done_wait b (Suc 2) l2 = Some (Done () (l2 @ [Rd CPCI_PROGRAMMING_STATUS]))" using v by (simp only: done_wait.simps and_then_simps) simp
  then have "DownloadCode b False data [] = Some (Done (length data, expected_size False (ver AND 0xffffff)) (l2 @ [Rd CPCI_PROGRAMMING_STATUS]))"
    using ver l1(1) l2(1) by (simp add: DownloadCode_def)
  then show ?thesis using header_stripped[OF assms(1-7)] l2(2) le_words_bytes[of data] by (simp add: BeginCodeDownload_def)
qed

definition example_board :: board where
  "example_board = \<lparr>b_read = \<lambda>log a. Some (if a = 0x104 then (if length (written 0x100 log) < 2 then 2 else 0x102) else 4), b_write = \<lambda>_ _. True\<rparr>"

theorem design_downloaded_witness:
  "\<exists>expected log. BeginCodeDownload example_board False (replicate 4096 0)
      (Some (bit_header [9, 15, 240] ''top.ncd'' ''2vp50ff1152'' ''2011/01/01'' ''12:00:00'' [0, 0, 0, 5] @ [0xff, 0xaa, 0x99, 0x55, 0x66])) [] =
      Some (Done ([''Bit file built from: '' @ ''top.ncd'' @ [LF], ''Part: '' @ ''2vp50ff1152'' @ [LF], ''Date: '' @ ''2011/01/01'' @ [LF],
        ''Time: '' @ ''12:00:00'' @ [LF]], 5, expected) log)
    \<and> length (written 0x100 log) = 2 \<and> take 5 (concat (map enc32 (written 0x100 log))) = [0xff, 0xaa, 0x99, 0x55, 0x66]"
proof -
  have five: "Suc (Suc (Suc (Suc (Suc 0)))) = 5" by simp
  have "ready_board 2 example_board" by (simp add: ready_board_def example_board_def)
  then show ?thesis
    using design_downloaded[of "replicate 4096 0" "[9, 15, 240]" "''top.ncd''" "''2vp50ff1152''" "''2011/01/01''" "''12:00:00''" "[0, 0, 0, 5]"
        "[0xff, 0xaa, 0x99, 0x55, 0x66]" example_board] by (simp add: field_ok_def five)
qed

end
