(* ===== verification/Node_List.thy ===== *)
theory Node_List
  imports Prelude
begin

text \<open>
  The doubly linked lists of \<^verbatim>\<open>or_utils.c\<close> (\<open>node_create\<close>, \<open>node_push_back\<close>,
  \<open>node_remove\<close>, \<open>node_length\<close>) on an explicit heap, and the removal loop that every
  component of the router writes around \<open>node_remove\<close>. The lemmas show that these
  operations implement append, deletion, length and filter on the list of data values,
  which is how the other theories model the router's tables.
\<close>

section \<open>The operations\<close>

text \<open>\<open>struct node\<close>; a pointer is \<open>None\<close> for \<open>NULL\<close>. Freed memory leaves the heap's domain.\<close>

type_synonym ptr = "nat option"

record 'a node =
  prev :: ptr
  "next" :: ptr
  data :: "'a option"

type_synonym 'a heap = "nat \<rightharpoonup> 'a node"

definition node_create :: "'a heap \<Rightarrow> nat \<Rightarrow> 'a heap" where
  "node_create h a = h(a \<mapsto> \<lparr>prev = None, next = None, data = None\<rparr>)"

partial_function (option) last_node :: "'a heap \<Rightarrow> nat \<Rightarrow> nat outcome" where
  "last_node h cur =
     (case h cur of None \<Rightarrow> None
      | Some nd \<Rightarrow> (case next nd of None \<Rightarrow> Some cur | Some c \<Rightarrow> last_node h c))"

definition node_push_back :: "'a heap \<Rightarrow> nat \<Rightarrow> nat \<Rightarrow> 'a heap outcome" where
  "node_push_back h head n = do {
     cur \<leftarrow> last_node h head;
     cn \<leftarrow> h cur;
     let h = h(cur \<mapsto> cn\<lparr>next := Some n\<rparr>);
     nn \<leftarrow> h n;
     Some (h(n \<mapsto> nn\<lparr>prev := Some cur\<rparr>)) }"

definition node_remove :: "'a heap \<Rightarrow> ptr \<Rightarrow> nat \<Rightarrow> ('a heap \<times> ptr) outcome" where
  "node_remove h head n = do {
     nd \<leftarrow> h n;
     if next nd = None \<and> prev nd = None then Some (h(n := None), None)
     else if prev nd = None then do {
       nx \<leftarrow> next nd;
       xn \<leftarrow> h nx;
       Some ((h(nx \<mapsto> xn\<lparr>prev := None\<rparr>))(n := None), Some nx) }
     else if next nd = None then do {
       pv \<leftarrow> prev nd;
       pn \<leftarrow> h pv;
       Some ((h(pv \<mapsto> pn\<lparr>next := None\<rparr>))(n := None), head) }
     else do {
       pv \<leftarrow> prev nd;
       nx \<leftarrow> next nd;
       pn \<leftarrow> h pv;
       let h = h(pv \<mapsto> pn\<lparr>next := Some nx\<rparr>);
       xn \<leftarrow> h nx;
       Some ((h(nx \<mapsto> xn\<lparr>prev := Some pv\<rparr>))(n := None), head) } }"

partial_function (option) node_length_from :: "'a heap \<Rightarrow> ptr \<Rightarrow> int \<Rightarrow> int outcome" where
  "node_length_from h walker len =
     (case walker of None \<Rightarrow> Some len
      | Some w \<Rightarrow> (case h w of None \<Rightarrow> None | Some nd \<Rightarrow> node_length_from h (next nd) (len + 1)))"

definition node_length :: "'a heap \<Rightarrow> ptr \<Rightarrow> int outcome" where
  "node_length h head = node_length_from h head 0"

text \<open>The loop of \<open>del_route\<close>, \<open>del_arp_cache\<close>, \<open>deactivate_routes\<close> and others: the successor is
  read before the node may be freed.\<close>

partial_function (option) remove_where ::
  "('a \<Rightarrow> bool) \<Rightarrow> 'a heap \<Rightarrow> ptr \<Rightarrow> ptr \<Rightarrow> ('a heap \<times> ptr) outcome" where
  "remove_where P h head cur =
     (case cur of None \<Rightarrow> Some (h, head)
      | Some c \<Rightarrow>
         (case h c of None \<Rightarrow> None
          | Some nd \<Rightarrow>
             (case data nd of None \<Rightarrow> None
              | Some d \<Rightarrow>
                 (if P d
                  then (case node_remove h head c of None \<Rightarrow> None
                        | Some (h', head') \<Rightarrow> remove_where P h' head' (next nd))
                  else remove_where P h head (next nd)))))"

text \<open>The loop of \<open>iface_up\<close> and \<open>iface_down\<close> over \<open>nbr_routers\<close>, which never moves to the successor.\<close>

partial_function (option) remove_without_advance ::
  "'a heap \<Rightarrow> ptr \<Rightarrow> nat \<Rightarrow> ('a heap \<times> ptr) outcome" where
  "remove_without_advance h head cur =
     (case node_remove h head cur of None \<Rightarrow> None
      | Some (h', head') \<Rightarrow> remove_without_advance h' head' cur)"

section \<open>Abstraction to lists\<close>

text \<open>\<open>seg h pr hp xs lst nx\<close>: from \<open>hp\<close>, whose predecessor is \<open>pr\<close>, the heap holds the nodes \<open>xs\<close>
  (addresses and data) linked both ways, the last one is \<open>lst\<close> and is followed by \<open>nx\<close>.\<close>

fun seg :: "'a heap \<Rightarrow> ptr \<Rightarrow> ptr \<Rightarrow> (nat \<times> 'a) list \<Rightarrow> ptr \<Rightarrow> ptr \<Rightarrow> bool" where
  "seg h pr hp [] lst nx \<longleftrightarrow> hp = nx \<and> pr = lst"
| "seg h pr hp ((a, d) # xs) lst nx \<longleftrightarrow>
     hp = Some a \<and>
     (case h a of None \<Rightarrow> False
      | Some nd \<Rightarrow> prev nd = pr \<and> data nd = Some d \<and> seg h (Some a) (next nd) xs lst nx)"

definition is_dll :: "'a heap \<Rightarrow> ptr \<Rightarrow> (nat \<times> 'a) list \<Rightarrow> bool" where
  "is_dll h head xs \<longleftrightarrow> distinct (map fst xs) \<and> (\<exists>lst. seg h None head xs lst None)"

lemma seg_append:
  "seg h pr hp (xs @ ys) lst nx \<longleftrightarrow> (\<exists>m k. seg h pr hp xs m k \<and> seg h m k ys lst nx)"
  by (induction h pr hp xs lst nx rule: seg.induct) (auto split: option.splits)

lemma seg_upd_other [simp]:
  "a \<notin> fst ` set xs \<Longrightarrow> seg (h(a := v)) pr hp xs lst nx = seg h pr hp xs lst nx"
  by (induction h pr hp xs lst nx rule: seg.induct) (auto split: option.splits)

lemma seg_dom: "seg h pr hp xs lst nx \<Longrightarrow> fst ` set xs \<subseteq> dom h"
  by (induction h pr hp xs lst nx rule: seg.induct) (auto split: option.splits)

lemma seg_snoc:
  "seg h pr hp (xs @ [(a, d)]) lst nx \<longleftrightarrow>
   lst = Some a \<and> (\<exists>m nd. seg h pr hp xs m (Some a) \<and> h a = Some nd \<and>
     prev nd = m \<and> next nd = nx \<and> data nd = Some d)"
  by (auto simp: seg_append split: option.splits)

text \<open>Redirecting the last node's \<open>next\<close>, or the first node's \<open>prev\<close>, moves the ends of a segment.\<close>

lemma seg_relink_last:
  assumes "seg h pr hp xs (Some l) nx" and "distinct (map fst xs)" and "xs \<noteq> []" and "h l = Some nd"
  shows "seg (h(l \<mapsto> nd\<lparr>next := n\<rparr>)) pr hp xs (Some l) n"
proof -
  obtain ys a d where xs: "xs = ys @ [(a, d)]"
    using assms(3) by (metis rev_exhaust surj_pair)
  with assms show ?thesis by (auto simp: seg_snoc)
qed

lemma seg_relink_first:
  assumes "seg h pr (Some a) xs lst nx" and "distinct (map fst xs)" and "xs \<noteq> []" and "h a = Some nd"
  shows "seg (h(a \<mapsto> nd\<lparr>prev := p\<rparr>)) p (Some a) xs lst nx"
proof -
  obtain d ys where xs: "xs = (a, d) # ys"
    using assms(1,3) by (cases xs) auto
  with assms show ?thesis by (auto split: option.splits)
qed

section \<open>The operations implement lists\<close>

lemma last_node_seg:
  "seg h pr (Some a) xs (Some l) None \<Longrightarrow> xs \<noteq> [] \<Longrightarrow> last_node h a = Some l"
proof (induction xs arbitrary: pr a)
  case (Cons x xs)
  obtain d where x: "x = (a, d)" using Cons.prems(1) by (cases x) auto
  from Cons.prems(1) x obtain nd where nd: "h a = Some nd"
    and rest: "seg h (Some a) (next nd) xs (Some l) None"
    by (auto split: option.splits)
  show ?case
  proof (cases xs)
    case Nil
    with rest nd show ?thesis by (simp add: last_node.simps)
  next
    case (Cons y ys)
    with rest obtain b where nb: "next nd = Some b" by (cases y) auto
    with rest Cons have "last_node h b = Some l" by (intro Cons.IH) auto
    with nd nb show ?thesis by (simp add: last_node.simps)
  qed
qed simp

lemma node_push_back_seg:
  assumes dll: "is_dll h (Some hp) xs" and fresh: "n \<notin> fst ` set xs"
    and new: "h n = Some \<lparr>prev = None, next = None, data = Some d\<rparr>"
  shows "\<exists>h'. node_push_back h hp n = Some h' \<and> is_dll h' (Some hp) (xs @ [(n, d)])"
proof -
  from dll obtain lst where sg: "seg h None (Some hp) xs lst None" and dist: "distinct (map fst xs)"
    by (auto simp: is_dll_def)
  then have ne: "xs \<noteq> []" by auto
  then obtain ys l e where xs: "xs = ys @ [(l, e)]" by (metis rev_exhaust surj_pair)
  with sg obtain ln where lst: "lst = Some l" and ln: "h l = Some ln" by (auto simp: seg_snoc)
  have nl: "n \<noteq> l" using fresh xs by auto
  let ?h' = "(h(l \<mapsto> ln\<lparr>next := Some n\<rparr>))(n \<mapsto> \<lparr>prev = Some l, next = None, data = Some d\<rparr>)"
  have "last_node h hp = Some l" using last_node_seg[OF _ ne] sg lst by blast
  then have push: "node_push_back h hp n = Some ?h'"
    using ln new nl by (simp add: node_push_back_def)
  have "seg (h(l \<mapsto> ln\<lparr>next := Some n\<rparr>)) None (Some hp) xs (Some l) (Some n)"
    by (rule seg_relink_last) (use sg lst dist ne ln in auto)
  then have "seg ?h' None (Some hp) (xs @ [(n, d)]) (Some n) None"
    using fresh nl by (auto simp: seg_append)
  with push dist fresh show ?thesis by (auto simp: is_dll_def)
qed

fun ptr_of :: "(nat \<times> 'a) list \<Rightarrow> ptr" where
  "ptr_of [] = None"
| "ptr_of ((a, d) # xs) = Some a"

lemma seg_ptr_of: "seg h pr p xs lst None \<Longrightarrow> p = ptr_of xs"
  by (cases xs) auto

lemma is_dll_split:
  "is_dll h head (xs @ (n, d) # ys) \<longleftrightarrow>
   distinct (map fst (xs @ (n, d) # ys)) \<and>
   (\<exists>m nd lst. seg h None head xs m (Some n) \<and> h n = Some nd \<and> prev nd = m \<and> data nd = Some d \<and>
     seg h (Some n) (next nd) ys lst None)"
  by (auto simp: is_dll_def seg_append split: option.splits)

lemma seg_last:
  "seg h pr p xs m k \<Longrightarrow> xs \<noteq> [] \<Longrightarrow> \<exists>l nd. m = Some l \<and> h l = Some nd \<and> l \<in> fst ` set xs"
proof (induction xs rule: rev_induct)
  case (snoc x xs)
  then show ?case by (cases x) (auto simp: seg_snoc)
qed simp

lemma seg_first: "seg h pr p xs m k \<Longrightarrow> xs \<noteq> [] \<Longrightarrow> \<exists>a nd. p = Some a \<and> h a = Some nd \<and> a \<in> fst ` set xs"
  by (cases xs) (auto split: option.splits)

lemma node_remove_seg:
  assumes dll: "is_dll h head (xs @ (n, d) # ys)"
  shows "\<exists>h' head'. node_remove h head n = Some (h', head') \<and> is_dll h' head' (xs @ ys) \<and> h' n = None"
proof -
  from dll obtain m nd lst where dist: "distinct (map fst (xs @ (n, d) # ys))"
    and s1: "seg h None head xs m (Some n)" and nd: "h n = Some nd" "prev nd = m" "data nd = Some d"
    and s2: "seg h (Some n) (next nd) ys lst None"
    by (auto simp: is_dll_split)
  have nx: "n \<notin> fst ` set xs" and ny: "n \<notin> fst ` set ys" and dxy: "distinct (map fst (xs @ ys))"
    and dx: "distinct (map fst xs)" and dy: "distinct (map fst ys)"
    and disj: "fst ` set xs \<inter> fst ` set ys = {}"
    using dist by auto
  show ?thesis
  proof (cases "xs = []")
    case xs: True
    then have pn: "prev nd = None" "head = Some n" using s1 nd(2) by auto
    show ?thesis
    proof (cases "ys = []")
      case True
      with s2 nd pn xs show ?thesis by (auto simp: node_remove_def is_dll_def)
    next
      case False
      then obtain b bn where b: "next nd = Some b" "h b = Some bn" "b \<in> fst ` set ys"
        using seg_first[OF s2] by blast
      have "seg (h(b \<mapsto> bn\<lparr>prev := None\<rparr>)) None (Some b) ys lst None"
        by (rule seg_relink_first) (use s2 b dy False in auto)
      with b nd pn xs ny dy show ?thesis by (auto simp: node_remove_def is_dll_def)
    qed
  next
    case xs: False
    then obtain l ln where l: "m = Some l" "h l = Some ln" "l \<in> fst ` set xs"
      using seg_last[OF s1] by blast
    have relink: "seg (h(l \<mapsto> ln\<lparr>next := k\<rparr>)) None head xs (Some l) k" for k
      by (rule seg_relink_last) (use s1 l dx xs in auto)
    show ?thesis
    proof (cases "ys = []")
      case True
      with s2 nd l xs nx dx relink[of None] show ?thesis
        by (auto simp: node_remove_def is_dll_def)
    next
      case False
      then obtain b bn where b: "next nd = Some b" "h b = Some bn" "b \<in> fst ` set ys"
        using seg_first[OF s2] by blast
      let ?h1 = "h(l \<mapsto> ln\<lparr>next := Some b\<rparr>)"
      have lb: "l \<noteq> b" "l \<notin> fst ` set ys" "b \<notin> fst ` set xs" using l b disj by auto
      have "seg ?h1 (Some n) (Some b) ys lst None" using s2 lb b by simp
      then have "seg (?h1(b \<mapsto> bn\<lparr>prev := Some l\<rparr>)) (Some l) (Some b) ys lst None"
        by (rule seg_relink_first) (use b dy False lb in auto)
      moreover have "seg (?h1(b \<mapsto> bn\<lparr>prev := Some l\<rparr>)) None head xs (Some l) (Some b)"
        using relink[of "Some b"] lb by simp
      ultimately have "seg ((?h1(b \<mapsto> bn\<lparr>prev := Some l\<rparr>))(n := None)) None head (xs @ ys) lst None"
        using nx ny by (auto simp: seg_append)
      moreover have "node_remove h head n = Some ((?h1(b \<mapsto> bn\<lparr>prev := Some l\<rparr>))(n := None), head)"
        using nd l b lb by (simp add: node_remove_def)
      ultimately show ?thesis using dxy by (auto simp: is_dll_def)
    qed
  qed
qed

lemma node_length_seg:
  "seg h pr p xs lst None \<Longrightarrow> node_length_from h p k = Some (k + int (length xs))"
proof (induction xs arbitrary: pr p k)
  case Nil
  then show ?case by (simp add: node_length_from.simps)
next
  case (Cons x xs)
  obtain a d where x: "x = (a, d)" by (cases x)
  from Cons.prems x obtain nd where "p = Some a" "h a = Some nd" "seg h (Some a) (next nd) xs lst None"
    by (auto split: option.splits)
  with Cons.IH[of "Some a" "next nd" "k + 1"] show ?case by (simp add: node_length_from.simps[of h "Some a"])
qed

lemma remove_where_filter:
  "is_dll h head (xs @ ys) \<Longrightarrow>
   \<exists>h' head'. remove_where P h head (ptr_of ys) = Some (h', head') \<and>
     is_dll h' head' (xs @ filter (\<lambda>(a, d). \<not> P d) ys)"
proof (induction ys arbitrary: h head xs)
  case Nil
  then show ?case by (simp add: remove_where.simps)
next
  case (Cons y ys)
  obtain n d where y: "y = (n, d)" by (cases y)
  from Cons.prems y obtain nd lst where nd: "h n = Some nd" "data nd = Some d"
    and s2: "seg h (Some n) (next nd) ys lst None"
    by (auto simp: is_dll_split)
  have nxt: "next nd = ptr_of ys" using s2 by (rule seg_ptr_of)
  show ?case
  proof (cases "P d")
    case True
    from Cons.prems y have "is_dll h head (xs @ (n, d) # ys)" by simp
    then obtain h1 head1 where "node_remove h head n = Some (h1, head1)"
      and "is_dll h1 head1 (xs @ ys)" using node_remove_seg[of h head xs n d ys] by blast
    with Cons.IH[of h1 head1 xs] True nd nxt y show ?thesis
      by (auto simp: remove_where.simps[of P h head])
  next
    case False
    from Cons.prems y Cons.IH[of h head "xs @ [(n, d)]"] False nd nxt show ?thesis
      by (auto simp: remove_where.simps[of P h head])
  qed
qed

section \<open>The interface the components rely on\<close>

text \<open>
  A store of C lists: appending, removing a node and counting, over an abstraction to the
  list of data values. The components of the router are clients of this interface.
\<close>

locale c_list_store =
  fixes repr :: "'h \<Rightarrow> 'p \<Rightarrow> (nat \<times> 'a) list \<Rightarrow> bool"
    and remove :: "'h \<Rightarrow> 'p \<Rightarrow> nat \<Rightarrow> ('h \<times> 'p) option"
    and len :: "'h \<Rightarrow> 'p \<Rightarrow> int option"
    and purge :: "('a \<Rightarrow> bool) \<Rightarrow> 'h \<Rightarrow> 'p \<Rightarrow> ('h \<times> 'p) option"
  assumes repr_distinct: "repr h p xs \<Longrightarrow> distinct (map fst xs)"
    and remove_law: "repr h p (xs @ (n, d) # ys) \<Longrightarrow>
      \<exists>h' p'. remove h p n = Some (h', p') \<and> repr h' p' (xs @ ys) \<and> remove h' p' n = None"
    and len_law: "repr h p xs \<Longrightarrow> len h p = Some (int (length xs))"
    and purge_law: "repr h p xs \<Longrightarrow>
      \<exists>h' p'. purge P h p = Some (h', p') \<and> repr h' p' (filter (\<lambda>(a, d). \<not> P d) xs)"
begin

lemma remove_values:
  assumes "repr h p xs" and "(n, d) \<in> set xs"
  shows "\<exists>h' p'. remove h p n = Some (h', p') \<and> repr h' p' (filter (\<lambda>(a, _). a \<noteq> n) xs)"
proof -
  obtain us vs where xs: "xs = us @ (n, d) # vs" using assms(2) by (meson split_list)
  have "filter (\<lambda>(a, _). a \<noteq> n) us = us" "filter (\<lambda>(a, _). a \<noteq> n) vs = vs"
    using repr_distinct[OF assms(1)] xs by (force simp: filter_id_conv)+
  with remove_law[of h p us n d vs] assms(1) xs show ?thesis by auto
qed

lemma remove_twice_faults:
  assumes "repr h p xs" and "(n, d) \<in> set xs"
  shows "\<exists>h' p'. remove h p n = Some (h', p') \<and> remove h' p' n = None"
  using remove_law assms by (metis split_list)

lemma purge_values:
  assumes "repr h p xs"
  shows "\<exists>h' p' ys. purge P h p = Some (h', p') \<and> repr h' p' ys \<and>
    map snd ys = filter (\<lambda>d. \<not> P d) (map snd xs) \<and>
    len h' p' = Some (int (length (filter (\<lambda>d. \<not> P d) (map snd xs))))"
proof -
  have eq: "map snd (filter (\<lambda>(a, d). \<not> P d) xs) = filter (\<lambda>d. \<not> P d) (map snd xs)"
    by (induction xs) auto
  then have "length (filter (\<lambda>(a, d). \<not> P d) xs) = length (filter (\<lambda>d. \<not> P d) (map snd xs))"
    by (metis length_map)
  with eq purge_law[OF assms, of P] len_law show ?thesis by fastforce
qed

end

interpretation nodes: c_list_store is_dll node_remove node_length "\<lambda>P h p. remove_where P h p p"
proof unfold_locales
  fix h :: "'a heap" and p xs n ys and d :: 'a
  assume "is_dll h p (xs @ (n, d) # ys)"
  then obtain h' p' where r: "node_remove h p n = Some (h', p')" "is_dll h' p' (xs @ ys)" "h' n = None"
    using node_remove_seg[of h p xs n d ys] by blast
  then have "node_remove h' p' n = None" by (simp add: node_remove_def)
  with r show "\<exists>h' p'. node_remove h p n = Some (h', p') \<and> is_dll h' p' (xs @ ys) \<and> node_remove h' p' n = None"
    by blast
next
  fix h :: "'a heap" and p xs
  assume "is_dll h p xs"
  then show "node_length h p = Some (int (length xs))"
    by (auto simp: is_dll_def node_length_def dest: node_length_seg[where k = 0])
next
  fix h :: "'a heap" and p xs P
  assume dll: "is_dll h p xs"
  then have "p = ptr_of xs" by (auto simp: is_dll_def dest: seg_ptr_of)
  with remove_where_filter[of h p "[]" xs P] dll
  show "\<exists>h' p'. remove_where P h p p = Some (h', p') \<and> is_dll h' p' (filter (\<lambda>(a, d). \<not> P d) xs)"
    by simp
qed (simp add: is_dll_def)

lemma remove_without_advance_faults:
  assumes "is_dll h (Some a) xs"
  shows "remove_without_advance h (Some a) a = None"
proof -
  have "\<exists>d. (a, d) \<in> set xs" using assms by (cases xs) (auto simp: is_dll_def)
  then obtain h' p' where "node_remove h (Some a) a = Some (h', p')" "node_remove h' p' a = None"
    using nodes.remove_twice_faults[OF assms] by blast
  then show ?thesis
    by (simp add: remove_without_advance.simps[of h] remove_without_advance.simps[of h'])
qed

end
