(* ===== verification/Spec2Isabelle.thy ===== *)
theory Spec2Isabelle
  imports Config Vns Www Nat_Control Packet_Io Nf2_Probe Nf_Download Node_List
begin

text \<open>
  \<^bold>\<open>The SCONE router.\<close>

  A model and verification of SCONE, the software of the NetFPGA router, and of what it runs on. The router is in the files \<^verbatim>\<open>or_*.c\<close> and \<^verbatim>\<open>sr_*.c\<close> under
  \<^verbatim>\<open>src/reference-projects/netfpga/projects/scone/sw\<close>: it answers ARP, ICMP and PWOSPF, forwards IP packets, translates
  addresses, computes routes from the link states it learns, keeps copies of its tables in the hardware, and is controlled over a command line and a web
  interface. Its packets come from a network simulator or from the card, over the Linux driver in \<^verbatim>\<open>src/reference-projects/netfpga/lib/C/kernel\<close>; the other
  directories of \<^verbatim>\<open>lib/C\<close> read and write the registers of the card, directly or over the network, and load designs into it.

  \<^bold>\<open>Parts and theories.\<close>

  \<^item> \<open>Prelude\<close>: machine words and byte order, memory reads and writes on byte lists, C strings, loops over lists in the option
    monad, and the locales \<open>wire_struct\<close> (a C struct on the wire) and \<open>lookup_table\<close> (a finite map).
  \<^item> \<open>Node_List\<close>: the doubly linked lists of \<^verbatim>\<open>or_utils.c\<close> on a heap of nodes. Push, remove and length implement lists; this is why all other
    theories use HOL lists for them. The loop that removes a node without moving on faults.
  \<^item> \<open>Headers\<close>, \<open>Checksums\<close>: the packed structs of \<^verbatim>\<open>or_data_types.h\<close> with their encodings, the accessors and the \<open>populate\<close> functions of
    \<^verbatim>\<open>or_utils.c\<close>, and the IP, ICMP and PWOSPF checksums. Stored checksums verify, and verification accepts exactly the sums it should.
  \<^item> \<open>State\<close>: \<open>struct router_state\<close> and what the handlers act on (below), \<open>Ports\<close>: names and numbers of the ports.
  \<^item> \<open>Bubble\<close>, \<open>Hw_Table\<close>: the sort that three tables share, and the register protocol of the hardware tables, as locales with three
    instances each (routes, local filters; routes, ARP, filters).
  \<^item> \<open>Rtable\<close> (\<^verbatim>\<open>or_rtable.c\<close>): longest prefix match, changes of the table, the sort and the copy in hardware. The hardware finds the same route as
    the software.
  \<^item> \<open>Iface\<close> (\<^verbatim>\<open>or_iface.c\<close>), \<open>Arp\<close> and \<open>Arp_Thread\<close> (\<^verbatim>\<open>or_arp.c\<close>, \<open>send_ip\<close> of \<^verbatim>\<open>or_main.c\<close>): the cache is a map, packets that wait are sent when
    the reply comes, or returned after five requests; the loops that do this end although they change the queue they walk over.
  \<^item> \<open>Icmp\<close> (\<^verbatim>\<open>or_icmp.c\<close>, \<^verbatim>\<open>or_sping.c\<close>): replies and errors, and the queue of the ping command.
  \<^item> \<open>Nat_Table\<close> (\<^verbatim>\<open>or_nat.c\<close>): translation in both directions. Transport checksums stay right; replies come back to the host that asked, unless the
    search for a port has found one that is taken, which is possible; and the search ends.
  \<^item> \<open>Pwospf\<close> (definitions) and \<open>Link_State\<close> (properties, \<^verbatim>\<open>or_pwospf.c\<close>): neighbours, the database of routers, flooding. Hello packets make
    neighbours, updates teach links, links are active when both ends advertise them, old updates change nothing, silent routers leave.
  \<^item> \<open>Hop_Graph\<close>, \<open>Dijkstra\<close> (\<^verbatim>\<open>or_dijkstra.c\<close>): the abstract search for shortest paths as a locale, and the program as its instance. The routes
    lead over the first hop of a shortest path to the nearest router that advertises a network.
  \<^item> \<open>Ip\<close> (\<^verbatim>\<open>or_ip.c\<close>, \<open>process_packet\<close> of \<^verbatim>\<open>or_main.c\<close>): the way of a packet, from the wire through NAT, the protocols or the routing table
    to the wire. Forwarding, errors and the locks held at the end.
  \<^item> \<open>Filters\<close> (\<^verbatim>\<open>or_netfpga.c\<close>): the local IP filters and their copy in hardware.
  \<^item> \<open>Iface_Control\<close> (\<^verbatim>\<open>or_iface.c\<close>, \<^verbatim>\<open>or_main.c\<close>): interfaces up and down, and the start of the router.
  \<^item> \<open>Nat_Control\<close> (\<^verbatim>\<open>or_nat.c\<close>): the maintenance of the translation table and its commands. A forwarded port reaches its host.
  \<^item> \<open>Router_Frame\<close>, \<open>Router_System\<close>: what each operation leaves alone, and the router as a transition system: its start, packets, rounds of its threads,
    commands, time. In every reachable state the state is well formed and the hardware agrees with the software.
  \<^item> \<open>Cstring\<close>, \<open>Text_Utils\<close>, \<open>Output\<close>, \<open>Hw_Output\<close> (\<^verbatim>\<open>or_utils.c\<close>, \<^verbatim>\<open>or_output.c\<close>): C strings and their library, URL encoding, and the tables as text, from
    software and from the hardware. The buffers are large enough, but for one; what is shown of the hardware is the routing table.
  \<^item> \<open>Cli_Handlers\<close>, \<open>Cli\<close> (\<^verbatim>\<open>or_cli.c\<close> and the \<open>cli_*\<close> functions of the other files): every command, the choice of the command by its longest prefix, and sessions. A route that
    a client adds is the one packets take.
  \<^item> \<open>Socket\<close>, \<open>Www\<close> (\<^verbatim>\<open>or_www.c\<close>), \<open>Vns\<close> (\<^verbatim>\<open>sr_vns.c\<close>, \<^verbatim>\<open>sr_integration.c\<close>), \<open>Config\<close> (\<^verbatim>\<open>sr_cpu_extension_nf2.c\<close>, \<^verbatim>\<open>or_main.c\<close>): connections whose data come in any
    pieces; the web interface, which runs commands as the command line does; the messages of the simulator, which bring packets and start the router; the configuration files.
  \<^item> \<open>Ring\<close>, \<open>Nf2_Driver\<close>, \<open>Nf2_Transmit\<close>, \<open>Nf2_Receive\<close>, \<open>Nf2_Probe\<close> (\<^verbatim>\<open>nf2_control.c\<close>, \<^verbatim>\<open>nf2main.c\<close>, \<^verbatim>\<open>nf2util.c\<close>): the driver as a transition system over the callbacks of the
    kernel. The ring of buffers is a bounded queue (a locale), no callback faults, packets leave in order, transfers follow each other, packets received
    reach their device, a failed start gives its resources back, and unloading those of a successful one.
  \<^item> \<open>Packet_Io\<close> (\<^verbatim>\<open>or_netfpga.c\<close>): router and driver together, over a kernel that is a parameter with the documented behaviour of packet sockets as a hypothesis. A frame that the router sends is queued in the driver for its port; the statistics are exact over wrap-around.
  \<^item> \<open>Reg_Proxy\<close> (\<^verbatim>\<open>reg_proxy*.c\<close>), \<open>Device_Info\<close> (\<^verbatim>\<open>nf2util_proxy_common.c\<close>), \<open>Nf_Download\<close> (\<^verbatim>\<open>nf_download.c\<close>): a session of register accesses over the network does what direct access
    does, except that failed accesses are not reported; a program accepts a design exactly when its version is in the window; a bit file is downloaded without its header, complete and in order.

  \<^bold>\<open>How the code is modelled.\<close> A handler is a function on the record \<open>router_state\<close> in the option monad. \<open>None\<close> is what C leaves undefined or what never
  returns: access outside a buffer or through a null or freed pointer, a failed assertion, a lock the thread itself blocks, an endless loop. So a
  theorem \<open>f rs = Some rs'\<close> says that the code runs to its end. Loops that may not end are partial functions, and the theorems show that they do end. Numbers
  have their width; addresses are in network byte order, as in the code. Packets are byte lists, headers are read and written as whole structs.
  Besides its tables the state has the clock (constant during a handler), the frames sent and the results the driver returns (\<open>tx_result\<close>), the packets
  handed to the TCP stack, the log of register writes, the numbers \<open>rand\<close> will return, the locks the running thread holds and the conditions
  it signalled. A handler runs alone, as its locks make it; threads are modelled by one round each, so that any interleaving of rounds
  and packets is a sequence of calls. Addresses of database entries are numbers, so that a pointer to a freed entry faults. The depth of the
  hardware tables, 32, comes from \<^verbatim>\<open>cam_router.xml\<close>; \<open>strcmp\<close> is a parameter where its exact value matters. What hardware registers read is a function of the
  accesses before; what arrives over a connection is a list of pieces, interruptions, errors and ends; files are strings or lists of bytes, read through the buffers of the code; memory that is not initialised is an
  argument named \<open>junk\<close> or \<open>stack_junk\<close>; floating point numbers are of any type, with the operations on them as arguments. The locales are \<open>wire_struct\<close>, \<open>lookup_table\<close>, the linked lists, the sort and its comparison, the
  hardware tables and their readers, the graph search, the loops that read bytes, and the ring; each is interpreted on the definitions of the program. No theorem rests on fuel.

  \<^bold>\<open>What was found\<close> is stated by theorems too: the mutex that a hello with another mask leaves locked (\<open>Ip\<close>), the locks that
  \<open>send_ip_packet\<close> keeps without a route (\<open>Ip\<close>), the neighbours that cannot be cleared (\<open>Iface_Control\<close>), the pointer to a router that timed out
  (\<open>Dijkstra\<close>), external ports that collide, UDP packets without a checksum that get one, and the protocols that crash the translation (\<open>Nat_Table\<close>), the links that are dropped when they are not masked
  (\<open>Link_State\<close>), the sort that does not sort (\<open>Filters\<close>), the commands that stop the router and those the help texts misspell (\<open>Cli\<close>), the table that does not
  fit (\<open>Output\<close>), files outside the directory of the web pages (\<open>Www\<close>), messages that are too short and lines that are too short or too long (\<open>Vns\<close>, \<open>Config\<close>), the buffers that closing a device loses and the
  packets that wait for another interrupt (\<open>Nf2_Receive\<close>), the device left enabled and the registrations that may fail unnoticed (\<open>Nf2_Probe\<close>), broken connections and failed accesses that count as success (\<open>Reg_Proxy\<close>).

  \<^bold>\<open>Not modelled.\<close> The creation of sockets, locks and threads, \<open>select\<close> and accept loops, and the parsing of options, which are calls of the system; the dumps of packets to the standard
  output and the packet logs; the TCP stack, which is lwIP, and the glue to it: the router hands it packets and sends for it; ethtool and the character device of
  \<^verbatim>\<open>nf2_user.c\<close>, whose calls in \<^verbatim>\<open>nf2main.c\<close> are commented out; the tools that read or write one register; the self tests and tools of the other NetFPGA designs. Interleavings inside a handler are not modelled, as
  its locks exclude them; for the threads of the command line, whose handlers lock only part of the state, this is an idealisation.

  \<^bold>\<open>What remains.\<close> Convergence of the link state protocol over several routers, of which \<open>Link_State\<close> and \<open>Dijkstra\<close> are the parts for one; the self tests.
\<close>

end
